(* ===== verification/ZG_Prelude.thy ===== *)
theory ZG_Prelude
  imports Main "HOL-Library.Word" "HOL-Library.List_Lexorder" "HOL-Library.Char_ord"
begin

text \<open>
  Shared ground of the development: the machine types the Go code uses, the
  lemma collections the component theories fill, and the generic facts about
  lists, options and words that several components need.
\<close>

unbundle bit_operations_syntax

named_theorems keyspace_simps "equations of the keyspace functions of the Redis contract"
named_theorems step_defs "definitions of the service operations, unfolded in branch proofs"

section \<open>Machine types\<close>

text \<open>
  Go's \<open>uint64\<close> is a 64-bit word; \<open>int32\<close> is a 32-bit word read with
  \<open>sint\<close>. Go's \<open>int\<close> and \<open>int64\<close> are \<open>int\<close> where the code cannot leave the
  64-bit range; a conversion that can wrap is written out with words.
\<close>

type_synonym uint64 = "64 word"
type_synonym int32 = "32 word"

lemma unat_of_nat64: "n < 2 ^ 64 \<Longrightarrow> unat (of_nat n :: uint64) = n"
  by (simp add: unsigned_of_nat take_bit_nat_eq_self)

section \<open>Lists\<close>

lemma take_filter_snoc:
  "length (filter P xs) \<ge> n \<Longrightarrow> take n (filter P (xs @ ys)) = take n (filter P xs)"
  by simp

lemma take_take_append [simp]: "take n (take n xs @ ys) = take n (xs @ ys)"
  by (cases "length xs \<le> n") auto

lemma upt_split: "i \<le> j \<Longrightarrow> j \<le> k \<Longrightarrow> [i..<k] = [i..<j] @ [j..<k]"
  using upt_add_eq_append[of i j "k - j"] by simp

lemma filter_upt_mono: "i \<le> j \<Longrightarrow> (\<And>x. i \<le> x \<Longrightarrow> x < j \<Longrightarrow> \<not> P x) \<Longrightarrow>
  filter P [i..<k] = filter P [j..<k]"
proof (cases "j \<le> k")
  case True
  assume "i \<le> j" and none: "\<And>x. i \<le> x \<Longrightarrow> x < j \<Longrightarrow> \<not> P x"
  then show ?thesis
    using True upt_split[of i j k] by (auto simp: filter_empty_conv)
next
  case False
  assume "i \<le> j" and none: "\<And>x. i \<le> x \<Longrightarrow> x < j \<Longrightarrow> \<not> P x"
  then show ?thesis
    using False by (auto simp: filter_empty_conv)
qed

section \<open>Sums used as Go results\<close>

text \<open>
  A Go call \<open>(v, err)\<close> is \<open>'e + 'a\<close>: \<open>Inl\<close> the error, \<open>Inr\<close> the value.
\<close>

definition is_ok :: "'e + 'a \<Rightarrow> bool" where
  "is_ok r = (case r of Inl _ \<Rightarrow> False | Inr _ \<Rightarrow> True)"

lemma is_ok_simps [simp]: "is_ok (Inr x)" "\<not> is_ok (Inl e)"
  by (simp_all add: is_ok_def)

lemma is_okE [elim]: "is_ok r \<Longrightarrow> (\<And>x. r = Inr x \<Longrightarrow> P) \<Longrightarrow> P"
  by (cases r) (auto simp: is_ok_def)

end
