(* ===== verification/Go_Strings.thy ===== *)
theory Go_Strings
  imports ZG_Prelude
begin

text \<open>
  The part of Go's standard library that the components use on strings:
  \<open>strconv.FormatUint/FormatInt/ParseUint/ParseInt/Atoi\<close> in base 10 and
  \<open>strings.Cut/CutPrefix/HasPrefix/Split/Join/TrimSpace\<close>. A Go string is its
  list of bytes, a \<open>char list\<close>.
\<close>

section \<open>Decimal output\<close>

definition digit_char :: "nat \<Rightarrow> char" where
  "digit_char d = char_of (48 + d)"

definition digit_val :: "char \<Rightarrow> nat" where
  "digit_val c = of_char c - 48"

definition is_digit :: "char \<Rightarrow> bool" where
  "is_digit c = (48 \<le> (of_char c :: nat) \<and> (of_char c :: nat) \<le> 57)"

fun format_nat :: "nat \<Rightarrow> string" where
  "format_nat n = (if n < 10 then [digit_char n]
                   else format_nat (n div 10) @ [digit_char (n mod 10)])"

declare format_nat.simps [simp del]

definition format_uint :: "uint64 \<Rightarrow> string" where
  "format_uint w = format_nat (unat w)"

definition format_int :: "int \<Rightarrow> string" where
  "format_int i = (if i < 0 then CHR ''-'' # format_nat (nat (- i)) else format_nat (nat i))"

section \<open>Decimal input\<close>

text \<open>
  \<open>ParseUint\<close> rejects the empty string, any byte outside \<open>0\<dots>9\<close> and values
  that do not fit 64 bits; \<open>ParseInt\<close> also takes one leading sign.
\<close>

fun digits_value :: "nat \<Rightarrow> string \<Rightarrow> nat option" where
  "digits_value acc [] = Some acc"
| "digits_value acc (c # cs) =
     (if is_digit c then digits_value (acc * 10 + digit_val c) cs else None)"

definition parse_nat :: "string \<Rightarrow> nat option" where
  "parse_nat s = (if s = [] then None else digits_value 0 s)"

definition parse_uint :: "string \<Rightarrow> uint64 option" where
  "parse_uint s = (case parse_nat s of
      None \<Rightarrow> None
    | Some n \<Rightarrow> if n < 2 ^ 64 then Some (of_nat n) else None)"

definition int64_min :: int where "int64_min = - (2 ^ 63)"
definition int64_max :: int where "int64_max = 2 ^ 63 - 1"

definition in_int64 :: "int \<Rightarrow> bool" where
  "in_int64 i = (int64_min \<le> i \<and> i \<le> int64_max)"

definition parse_int :: "string \<Rightarrow> int option" where
  "parse_int s = (case s of
      [] \<Rightarrow> None
    | c # cs \<Rightarrow>
        (let (neg, body) = (if c = CHR ''-'' then (True, cs)
                            else if c = CHR ''+'' then (False, cs) else (False, s))
         in case parse_nat body of
              None \<Rightarrow> None
            | Some n \<Rightarrow> (let v = (if neg then - int n else int n)
                         in if in_int64 v then Some v else None)))"

text \<open>Lua's \<open>tonumber\<close> on the decimal numerals the scripts read: no width limit.\<close>

definition lua_tonumber :: "string \<Rightarrow> int option" where
  "lua_tonumber s = (case s of
      [] \<Rightarrow> None
    | c # cs \<Rightarrow>
        if c = CHR ''-'' then map_option (\<lambda>n. - int n) (parse_nat cs)
        else map_option int (parse_nat s))"

section \<open>The decimal round trip\<close>

lemma of_char_digit [simp]: "d < 10 \<Longrightarrow> (of_char (digit_char d) :: nat) = 48 + d"
  by (simp add: digit_char_def)

lemma is_digit_char [simp]: "d < 10 \<Longrightarrow> is_digit (digit_char d)"
  by (simp add: is_digit_def)

lemma digit_val_char [simp]: "d < 10 \<Longrightarrow> digit_val (digit_char d) = d"
  by (simp add: digit_val_def)

lemma digits_value_append:
  "digits_value acc (xs @ ys) =
     (case digits_value acc xs of None \<Rightarrow> None | Some a \<Rightarrow> digits_value a ys)"
  by (induction xs arbitrary: acc) auto

lemma format_nat_digits: "\<forall>c \<in> set (format_nat n). is_digit c"
proof (induction n rule: format_nat.induct)
  case (1 n)
  then show ?case by (subst format_nat.simps) auto
qed

lemma format_nat_nonempty [simp]: "format_nat n \<noteq> []"
  by (subst format_nat.simps) simp

lemma digits_value_format: "digits_value 0 (format_nat n) = Some n"
proof (induction n rule: format_nat.induct)
  case (1 n)
  show ?case
  proof (cases "n < 10")
    case True
    then show ?thesis by (subst format_nat.simps) simp
  next
    case False
    with 1 have "digits_value 0 (format_nat (n div 10)) = Some (n div 10)" by simp
    with False show ?thesis
      by (subst format_nat.simps) (simp add: digits_value_append)
  qed
qed

lemma parse_format_nat [simp]: "parse_nat (format_nat n) = Some n"
  by (simp add: parse_nat_def digits_value_format)

lemma format_nat_inj [simp]: "format_nat m = format_nat n \<longleftrightarrow> m = n"
  by (metis option.inject parse_format_nat)

lemma parse_format_uint [simp]: "parse_uint (format_uint w) = Some w"
proof -
  have "unat w < 2 ^ 64" using unsigned_less[of w, where 'a = nat] by simp
  then show ?thesis by (simp add: parse_uint_def format_uint_def)
qed

lemma format_uint_inj [simp]: "format_uint v = format_uint w \<longleftrightarrow> v = w"
  by (metis option.inject parse_format_uint)

lemma not_digit_sign [simp]:
  "\<not> is_digit (CHR ''-'')" "\<not> is_digit (CHR ''+'')" "\<not> is_digit (CHR '':'')"
  by (simp_all add: is_digit_def)

lemma format_nat_ConsD: "format_nat n = c # cs \<Longrightarrow> is_digit c"
  using format_nat_digits[of n] by simp

lemma tonumber_format_int [simp]: "lua_tonumber (format_int i) = Some i"
proof (cases "i < 0")
  case True
  then show ?thesis by (simp add: lua_tonumber_def format_int_def)
next
  case False
  obtain c cs where f: "format_nat (nat i) = c # cs" by (cases "format_nat (nat i)") auto
  with format_nat_ConsD have "c \<noteq> CHR ''-''" by (metis not_digit_sign(1))
  with False f parse_format_nat[of "nat i"] show ?thesis by (simp add: lua_tonumber_def format_int_def)
qed

lemma parse_format_int [simp]: "in_int64 i \<Longrightarrow> parse_int (format_int i) = Some i"
proof (cases "i < 0")
  case True
  assume "in_int64 i"
  with True show ?thesis by (simp add: parse_int_def format_int_def)
next
  case False
  assume ok: "in_int64 i"
  obtain c cs where e: "format_nat (nat i) = c # cs"
    by (cases "format_nat (nat i)") auto
  then have "is_digit c" by (rule format_nat_ConsD)
  then have ne: "c \<noteq> CHR ''-''" "c \<noteq> CHR ''+''" by auto
  have "parse_nat (c # cs) = Some (nat i)" by (simp flip: e)
  with e ne ok False show ?thesis by (simp add: parse_int_def format_int_def)
qed

section \<open>Searching and splitting\<close>

text \<open>\<open>strings.Cut\<close> with a one-byte separator: \<open>None\<close> when it does not occur.\<close>

fun str_cut :: "char \<Rightarrow> string \<Rightarrow> (string \<times> string) option" where
  "str_cut c [] = None"
| "str_cut c (x # xs) = (if x = c then Some ([], xs)
                     else map_option (\<lambda>(a, b). (x # a, b)) (str_cut c xs))"

fun cut_prefix :: "string \<Rightarrow> string \<Rightarrow> string option" where
  "cut_prefix [] s = Some s"
| "cut_prefix (p # ps) [] = None"
| "cut_prefix (p # ps) (x # xs) = (if p = x then cut_prefix ps xs else None)"

definition has_prefix :: "string \<Rightarrow> string \<Rightarrow> bool" where
  "has_prefix p s = (cut_prefix p s \<noteq> None)"

definition trim_prefix :: "string \<Rightarrow> string \<Rightarrow> string" where
  "trim_prefix p s = (case cut_prefix p s of None \<Rightarrow> s | Some r \<Rightarrow> r)"

fun split_on :: "char \<Rightarrow> string \<Rightarrow> string list" where
  "split_on c [] = [[]]"
| "split_on c (x # xs) = (if x = c then [] # split_on c xs
      else (case split_on c xs of [] \<Rightarrow> [[x]] | y # ys \<Rightarrow> (x # y) # ys))"

fun join_with :: "string \<Rightarrow> string list \<Rightarrow> string" where
  "join_with sep [] = []"
| "join_with sep [x] = x"
| "join_with sep (x # y # ys) = x @ sep @ join_with sep (y # ys)"

definition is_space :: "char \<Rightarrow> bool" where
  "is_space c = (let n = (of_char c :: nat) in n = 32 \<or> (9 \<le> n \<and> n \<le> 13))"

definition trim_space :: "string \<Rightarrow> string" where
  "trim_space s = rev (dropWhile is_space (rev (dropWhile is_space s)))"

definition ascii_lower :: "char \<Rightarrow> char" where
  "ascii_lower c = (let n = (of_char c :: nat) in if 65 \<le> n \<and> n \<le> 90 then char_of (n + 32) else c)"

definition is_ascii :: "string \<Rightarrow> bool" where
  "is_ascii t = list_all (\<lambda>c. (of_char c :: nat) < 128) t"

text \<open>What the standard library knows of characters beyond ASCII.\<close>

record unicode =
  un_lower :: "string \<Rightarrow> string"
  un_letter :: "string \<Rightarrow> bool"
  un_digit :: "string \<Rightarrow> bool"

definition to_lower :: "unicode \<Rightarrow> string \<Rightarrow> string" where
  "to_lower U t = (if is_ascii t then map ascii_lower t else un_lower U t)"

fun str_contains :: "string \<Rightarrow> string \<Rightarrow> bool" where
  "str_contains p [] = (p = [])"
| "str_contains p (c # cs) = (has_prefix p (c # cs) \<or> str_contains p cs)"

lemma cut_append: "c \<notin> set a \<Longrightarrow> str_cut c (a @ c # b) = Some (a, b)"
  by (induction a) auto

lemma cut_None_iff: "str_cut c s = None \<longleftrightarrow> c \<notin> set s"
  by (induction s) auto

lemma cut_SomeD: "str_cut c s = Some (a, b) \<Longrightarrow> s = a @ c # b \<and> c \<notin> set a"
  by (induction s arbitrary: a) (auto split: if_splits)

lemma cut_prefix_append [simp]: "cut_prefix p (p @ s) = Some s"
  by (induction p) auto

lemma cut_prefix_SomeD: "cut_prefix p s = Some r \<Longrightarrow> s = p @ r"
  by (induction p s rule: cut_prefix.induct) (auto split: if_splits)

lemma has_prefix_append [simp]: "has_prefix p (p @ s)"
  by (simp add: has_prefix_def)

lemma has_prefix_iff: "has_prefix p s \<longleftrightarrow> (\<exists>r. s = p @ r)"
  by (auto simp: has_prefix_def dest: cut_prefix_SomeD)

lemma colon_notin_format [simp]:
  "CHR '':'' \<notin> set (format_nat n)" "CHR '':'' \<notin> set (format_uint w)"
  "CHR '':'' \<notin> set (format_int i)"
  using format_nat_digits[of n] format_nat_digits[of "unat w"]
    format_nat_digits[of "nat i"] format_nat_digits[of "nat (- i)"]
  by (auto simp: format_uint_def format_int_def)

lemma cut_format_int [simp]: "str_cut CHR '':'' (format_int i @ CHR '':'' # b) = Some (format_int i, b)"
  by (rule cut_append) simp

text \<open>Two keys built from the same prefix and decimal numbers agree only on equal numbers.\<close>

lemma split_last_colon:
  "CHR '':'' \<notin> set b \<Longrightarrow> CHR '':'' \<notin> set d \<Longrightarrow>
   a @ CHR '':'' # b = c @ CHR '':'' # d \<Longrightarrow> a = c \<and> b = d"
proof -
  assume "CHR '':'' \<notin> set b" "CHR '':'' \<notin> set d" and e: "a @ CHR '':'' # b = c @ CHR '':'' # d"
  from e have "rev b @ CHR '':'' # rev a = rev d @ CHR '':'' # rev c"
    by (metis append.assoc append_Cons append_Nil rev.simps(2) rev_append)
  moreover have "str_cut CHR '':'' (rev b @ CHR '':'' # rev a) = Some (rev b, rev a)"
    by (rule cut_append) (use \<open>CHR '':'' \<notin> set b\<close> in simp)
  moreover have "str_cut CHR '':'' (rev d @ CHR '':'' # rev c) = Some (rev d, rev c)"
    by (rule cut_append) (use \<open>CHR '':'' \<notin> set d\<close> in simp)
  ultimately have "(rev b, rev a) = (rev d, rev c)" by (metis option.inject)
  then show ?thesis by simp
qed

end
