(* ===== verification/Redis_Contract.thy ===== *)
theory Redis_Contract
  imports Go_Strings
begin

text \<open>
  Redis is a service the program talks to; its code is not part of the
  repository. A component that uses it takes the commands as an argument
  \<open>R :: 's redis\<close> over an abstract server state \<open>'s\<close>. The locales below state
  the documented behaviour of the commands the source calls, in terms of an
  observable \<open>keyspace\<close>: \<open>view s\<close> is what a client can read in state \<open>s\<close>.

  The keyspace is split by value type. The program never uses one key with
  commands of two types (the key prefixes of the components keep them apart),
  so the WRONGTYPE replies do not occur and are not modelled. An absent hash,
  sorted set, set or list is the empty one, as in Redis. Hash values and scores are
  integers: the program stores nothing else in them. \<open>ks_ttl\<close> records the
  time to live last set on a key, in milliseconds; that a key goes away when
  its time has come is a step of the environment (\<open>ks_expired\<close>).
\<close>

section \<open>The keyspace\<close>

type_synonym zset = "(string \<times> int) list"

record keyspace =
  ks_str  :: "string \<Rightarrow> string option"
  ks_hash :: "string \<Rightarrow> string \<Rightarrow> int option"
  ks_zset :: "string \<Rightarrow> zset"
  ks_set  :: "string \<Rightarrow> string set"
  ks_list :: "string \<Rightarrow> string list"
  ks_ttl  :: "string \<Rightarrow> int option"

definition empty_keyspace :: keyspace where
  "empty_keyspace = \<lparr>ks_str = (\<lambda>_. None), ks_hash = (\<lambda>_ _. None), ks_zset = (\<lambda>_. []),
     ks_set = (\<lambda>_. {}), ks_list = (\<lambda>_. []), ks_ttl = (\<lambda>_. None)\<rparr>"

lemma empty_keyspace_sel [simp]:
  "ks_str empty_keyspace k = None" "ks_hash empty_keyspace k f = None"
  "ks_zset empty_keyspace k = []" "ks_set empty_keyspace k = {}" "ks_list empty_keyspace k = []" "ks_ttl empty_keyspace k = None"
  by (simp_all add: empty_keyspace_def)

subsection \<open>Bitmaps: bit \<open>o\<close> of a string is bit \<open>7 - o mod 8\<close> of byte \<open>o div 8\<close>\<close>

definition byte_bit :: "char \<Rightarrow> nat \<Rightarrow> bool" where
  "byte_bit c j = bit (of_char c :: nat) (7 - j)"

definition byte_set :: "char \<Rightarrow> nat \<Rightarrow> bool \<Rightarrow> char" where
  "byte_set c j b = (let n = (of_char c :: nat) in
     char_of (if b then set_bit (7 - j) n else unset_bit (7 - j) n))"

definition string_bit :: "string \<Rightarrow> nat \<Rightarrow> bool" where
  "string_bit s off = (off div 8 < length s \<and> byte_bit (s ! (off div 8)) (off mod 8))"

definition pad_to :: "nat \<Rightarrow> string \<Rightarrow> string" where
  "pad_to n s = s @ replicate (n - length s) (char_of (0 :: nat))"

definition string_set_bit :: "string \<Rightarrow> nat \<Rightarrow> bool \<Rightarrow> string" where
  "string_set_bit s off b =
     (let t = pad_to (Suc (off div 8)) s
      in t[off div 8 := byte_set (t ! (off div 8)) (off mod 8) b])"

definition string_bitcount :: "string \<Rightarrow> nat" where
  "string_bitcount s = length (filter (string_bit s) [0..<8 * length s])"

lemma byte_bit_zero [simp]: "\<not> byte_bit (char_of (0 :: nat)) j"
  by (simp add: byte_bit_def)

lemma byte_bit_set: "i < 8 \<Longrightarrow> j < 8 \<Longrightarrow> byte_bit (byte_set c j b) i = (if i = j then b else byte_bit c i)"
proof -
  assume i: "i < 8" and j: "j < 8"
  have small: "7 - i < 8" by arith
  have eq: "(7 - j = 7 - i) = (i = j)" using i j by auto
  have "of_char (char_of n :: char) = take_bit 8 n" for n :: nat
    by (simp add: take_bit_eq_mod)
  then show ?thesis
    using small eq by (auto simp: byte_bit_def byte_set_def Let_def bit_take_bit_iff
        bit_set_bit_iff bit_unset_bit_iff)
qed

lemma nth_pad_to: "i < length (pad_to n s) \<Longrightarrow>
  pad_to n s ! i = (if i < length s then s ! i else char_of (0 :: nat))"
  by (auto simp: pad_to_def nth_append)

lemma length_pad_to [simp]: "length (pad_to n s) = max n (length s)"
  by (simp add: pad_to_def max_def)

lemma string_bit_pad [simp]: "string_bit (pad_to n s) off = string_bit s off"
  by (cases "off div 8 < length s") (auto simp: string_bit_def nth_pad_to)

lemma string_bit_set_bit:
  "string_bit (string_set_bit s off b) off' = (if off' = off then b else string_bit s off')"
proof -
  let ?t = "pad_to (Suc (off div 8)) s"
  have len: "off div 8 < length ?t" by simp
  have eq: "off' = off \<longleftrightarrow> off' div 8 = off div 8 \<and> off' mod 8 = off mod 8"
    by (metis div_mult_mod_eq)
  have "string_bit (string_set_bit s off b) off' = (if off' = off then b else string_bit ?t off')"
    using len eq
    by (cases "off' div 8 = off div 8")
      (auto simp: string_set_bit_def Let_def string_bit_def byte_bit_set simp del: length_pad_to)
  then show ?thesis by simp
qed

lemma string_bit_Nil [simp]: "\<not> string_bit [] off"
  by (simp add: string_bit_def)

lemma string_bit_bound: "string_bit s off \<Longrightarrow> off < 8 * length s"
  by (auto simp: string_bit_def)

lemma string_bitcount_card: "string_bitcount s = card {off. string_bit s off}"
proof -
  have "{off. string_bit s off} = set (filter (string_bit s) [0..<8 * length s])"
    using string_bit_bound by auto
  then show ?thesis
    by (simp add: string_bitcount_def distinct_card [symmetric])
qed

lemma finite_string_bits [simp]: "finite {off. string_bit s off}"
  by (rule finite_subset [of _ "{..<8 * length s}"]) (auto dest: string_bit_bound)

definition ks_bit :: "keyspace \<Rightarrow> string \<Rightarrow> nat \<Rightarrow> bool" where
  "ks_bit ks k off = (case ks_str ks k of None \<Rightarrow> False | Some s \<Rightarrow> string_bit s off)"

lemma ks_bit_empty [simp]: "ks_bit empty_keyspace k off = False"
  by (simp add: ks_bit_def)

definition ks_setbit :: "string \<Rightarrow> nat \<Rightarrow> bool \<Rightarrow> keyspace \<Rightarrow> keyspace" where
  "ks_setbit k off b ks = ks\<lparr>ks_str := (ks_str ks)(k \<mapsto>
     string_set_bit (case ks_str ks k of None \<Rightarrow> [] | Some s \<Rightarrow> s) off b)\<rparr>"

definition ks_bitcount :: "keyspace \<Rightarrow> string \<Rightarrow> nat" where
  "ks_bitcount ks k = (case ks_str ks k of None \<Rightarrow> 0 | Some s \<Rightarrow> string_bitcount s)"

lemma ks_bit_setbit [simp]:
  "ks_bit (ks_setbit k off b ks) k' off' = (if k' = k \<and> off' = off then b else ks_bit ks k' off')"
  by (auto simp: ks_bit_def ks_setbit_def string_bit_set_bit split: option.splits)

lemma finite_ks_bits [simp]: "finite {off. ks_bit ks k off}"
  by (cases "ks_str ks k") (simp_all add: ks_bit_def)

lemma ks_bitcount_card: "ks_bitcount ks k = card {off. ks_bit ks k off}"
  by (auto simp: ks_bitcount_def ks_bit_def string_bitcount_card split: option.splits)

subsection \<open>Sorted sets: ascending by score, then by member bytes\<close>

definition zless :: "string \<times> int \<Rightarrow> string \<times> int \<Rightarrow> bool" where
  "zless p q = (snd p < snd q \<or> snd p = snd q \<and> fst p < fst q)"

fun zs_insert :: "string \<times> int \<Rightarrow> zset \<Rightarrow> zset" where
  "zs_insert p [] = [p]"
| "zs_insert p (q # qs) = (if zless p q then p # q # qs else q # zs_insert p qs)"

definition zs_rem :: "string \<Rightarrow> zset \<Rightarrow> zset" where
  "zs_rem m z = filter (\<lambda>p. fst p \<noteq> m) z"

definition zs_add :: "string \<Rightarrow> int \<Rightarrow> zset \<Rightarrow> zset" where
  "zs_add m sc z = zs_insert (m, sc) (zs_rem m z)"

definition zs_add_nx :: "string \<Rightarrow> int \<Rightarrow> zset \<Rightarrow> zset" where
  "zs_add_nx m sc z = (if m \<in> fst ` set z then z else zs_insert (m, sc) z)"

definition zs_score :: "zset \<Rightarrow> string \<Rightarrow> int option" where
  "zs_score z m = map_of z m"

definition zs_ok :: "zset \<Rightarrow> bool" where
  "zs_ok z = (sorted_wrt zless z \<and> distinct (map fst z))"

text \<open>
  \<open>ZREMRANGEBYRANK key 0 (-(n+1))\<close> keeps the \<open>n\<close> members of highest rank;
  \<open>ZREVRANGEBYSCORE key max -inf LIMIT 0 n\<close> lists from the highest down.
\<close>

definition zs_keep_top :: "nat \<Rightarrow> zset \<Rightarrow> zset" where
  "zs_keep_top n z = drop (length z - n) z"

definition zs_rev_by_score :: "int option \<Rightarrow> nat \<Rightarrow> zset \<Rightarrow> zset" where
  "zs_rev_by_score mx n z =
     take n (filter (\<lambda>p. case mx of None \<Rightarrow> True | Some m \<Rightarrow> snd p \<le> m) (rev z))"

definition zs_rev_range :: "nat \<Rightarrow> nat \<Rightarrow> zset \<Rightarrow> zset" where
  "zs_rev_range i n z = take n (drop i (rev z))"

fun index_of :: "('a \<Rightarrow> bool) \<Rightarrow> 'a list \<Rightarrow> nat option" where
  "index_of P [] = None"
| "index_of P (x # xs) = (if P x then Some 0 else map_option Suc (index_of P xs))"

definition zs_rev_rank :: "string \<Rightarrow> zset \<Rightarrow> nat option" where
  "zs_rev_rank m z = index_of (\<lambda>p. fst p = m) (rev z)"

lemma zless_trans: "zless p q \<Longrightarrow> zless q r \<Longrightarrow> zless p r"
  by (auto simp: zless_def)

lemma zless_irrefl [simp]: "\<not> zless p p"
  by (simp add: zless_def)

lemma zless_linear: "fst p \<noteq> fst q \<Longrightarrow> \<not> zless p q \<Longrightarrow> zless q p"
  by (auto simp: zless_def)

lemma set_zs_insert [simp]: "set (zs_insert p z) = insert p (set z)"
  by (induction z) auto

lemma length_zs_insert [simp]: "length (zs_insert p z) = Suc (length z)"
  by (induction z) auto

lemma set_zs_rem [simp]: "set (zs_rem m z) = {p \<in> set z. fst p \<noteq> m}"
  by (auto simp: zs_rem_def)

lemma sorted_zs_insert:
  "sorted_wrt zless z \<Longrightarrow> fst p \<notin> fst ` set z \<Longrightarrow> sorted_wrt zless (zs_insert p z)"
proof (induction z)
  case (Cons q qs)
  then show ?case
    by (auto intro: zless_trans dest: zless_linear [of p q])
qed simp

lemma distinct_zs_insert:
  "distinct (map fst z) \<Longrightarrow> fst p \<notin> fst ` set z \<Longrightarrow> distinct (map fst (zs_insert p z))"
  by (induction z) auto

lemma zs_ok_rem [simp]: "zs_ok z \<Longrightarrow> zs_ok (zs_rem m z)"
  by (auto simp: zs_ok_def zs_rem_def sorted_wrt_filter distinct_map intro: inj_on_subset)

lemma zs_ok_add [simp]: "zs_ok z \<Longrightarrow> zs_ok (zs_add m sc z)"
  using zs_ok_rem[of z m]
  by (auto simp: zs_ok_def zs_add_def intro!: sorted_zs_insert distinct_zs_insert)

lemma zs_ok_Nil [simp]: "zs_ok []"
  by (simp add: zs_ok_def)

lemma members_zs_add [simp]: "fst ` set (zs_add m sc z) = insert m (fst ` set z)"
  by (force simp: zs_add_def)

lemma members_zs_rem [simp]: "fst ` set (zs_rem m z) = fst ` set z - {m}"
  by force

lemma zs_ok_keep_top [simp]: "zs_ok z \<Longrightarrow> zs_ok (zs_keep_top n z)"
  by (auto simp: zs_ok_def zs_keep_top_def sorted_wrt_drop drop_map [symmetric])

lemma length_zs_keep_top [simp]: "length (zs_keep_top n z) = min n (length z)"
  by (auto simp: zs_keep_top_def)

end
