(* ===== verification/Redis_Server.thy ===== *)
theory Redis_Server
  imports Redis_Contract
begin

text \<open>
  The interface of the Redis service as the program uses it. A \<open>'s redis\<close> holds
  one field per command; commands run inside the server and do not fail on
  their own. What can fail is the round trip of a client call: \<open>r_net\<close> decides
  for each call whether it is delivered, lost on the way out (nothing happened)
  or lost on the way back (it happened, the client sees an error). A Lua script
  or a pipeline is one round trip.
\<close>

text \<open>An error value that comes from outside the program: a network, Redis, Kafka or MySQL error.\<close>

datatype io_error = IoError string

datatype verdict = Delivered | NotSent io_error | ReplyLost io_error

record 's redis =
  r_net :: "'s \<Rightarrow> verdict \<times> 's"
  r_get :: "string \<Rightarrow> 's \<Rightarrow> string option"
  r_set :: "string \<Rightarrow> string \<Rightarrow> int option \<Rightarrow> 's \<Rightarrow> 's"
  r_del :: "string \<Rightarrow> 's \<Rightarrow> 's"
  r_incr :: "string \<Rightarrow> 's \<Rightarrow> 's"
  r_exists :: "string \<Rightarrow> 's \<Rightarrow> bool"
  r_expire :: "string \<Rightarrow> int \<Rightarrow> 's \<Rightarrow> 's"
  r_ttl :: "string \<Rightarrow> 's \<Rightarrow> int"
  r_getbit :: "string \<Rightarrow> nat \<Rightarrow> 's \<Rightarrow> bool"
  r_setbit :: "string \<Rightarrow> nat \<Rightarrow> bool \<Rightarrow> 's \<Rightarrow> 's"
  r_bitcount :: "string \<Rightarrow> 's \<Rightarrow> nat"
  r_scan :: "string \<Rightarrow> 's \<Rightarrow> string list list"
  r_hget :: "string \<Rightarrow> string \<Rightarrow> 's \<Rightarrow> string option"
  r_hgetall :: "string \<Rightarrow> 's \<Rightarrow> (string \<times> string) list"
  r_hset :: "string \<Rightarrow> string \<Rightarrow> int \<Rightarrow> 's \<Rightarrow> 's"
  r_hincrby :: "string \<Rightarrow> string \<Rightarrow> int \<Rightarrow> 's \<Rightarrow> 's"
  r_hdel :: "string \<Rightarrow> string \<Rightarrow> 's \<Rightarrow> 's"
  r_zadd :: "string \<Rightarrow> int \<Rightarrow> string \<Rightarrow> 's \<Rightarrow> 's"
  r_zadd_nx :: "string \<Rightarrow> int \<Rightarrow> string \<Rightarrow> 's \<Rightarrow> 's"
  r_zrem :: "string \<Rightarrow> string \<Rightarrow> 's \<Rightarrow> 's"
  r_zcard :: "string \<Rightarrow> 's \<Rightarrow> nat"
  r_zrevrank :: "string \<Rightarrow> string \<Rightarrow> 's \<Rightarrow> nat option"
  r_zrevrange :: "string \<Rightarrow> nat \<Rightarrow> nat \<Rightarrow> 's \<Rightarrow> zset"
  r_zrevrangebyscore :: "string \<Rightarrow> int option \<Rightarrow> nat \<Rightarrow> 's \<Rightarrow> zset"
  r_zrange_above :: "string \<Rightarrow> int \<Rightarrow> nat \<Rightarrow> 's \<Rightarrow> zset"
  r_zkeep_top :: "string \<Rightarrow> nat \<Rightarrow> 's \<Rightarrow> 's"
  r_sadd :: "string \<Rightarrow> string \<Rightarrow> 's \<Rightarrow> 's"
  r_srem :: "string \<Rightarrow> string \<Rightarrow> 's \<Rightarrow> 's"
  r_sismember :: "string \<Rightarrow> string \<Rightarrow> 's \<Rightarrow> bool"
  r_spop :: "string \<Rightarrow> nat \<Rightarrow> 's \<Rightarrow> string list \<times> 's"
  r_rpush :: "string \<Rightarrow> string list \<Rightarrow> 's \<Rightarrow> 's"
  r_lrange :: "string \<Rightarrow> nat \<Rightarrow> 's \<Rightarrow> string list"

definition roundtrip :: "'s redis \<Rightarrow> ('s \<Rightarrow> 'a \<times> 's) \<Rightarrow> 's \<Rightarrow> (io_error + 'a) \<times> 's" where
  "roundtrip R f s = (case r_net R s of
      (Delivered, s1) \<Rightarrow> (let (x, s2) = f s1 in (Inr x, s2))
    | (NotSent e, s1) \<Rightarrow> (Inl e, s1)
    | (ReplyLost e, s1) \<Rightarrow> (Inl e, snd (f s1)))"

text \<open>A reading call, and a writing call without a reply of interest.\<close>

definition rd :: "'s redis \<Rightarrow> ('s \<Rightarrow> 'a) \<Rightarrow> 's \<Rightarrow> (io_error + 'a) \<times> 's" where
  "rd R f = roundtrip R (\<lambda>s. (f s, s))"

definition wr :: "'s redis \<Rightarrow> ('s \<Rightarrow> 's) \<Rightarrow> 's \<Rightarrow> (io_error + unit) \<times> 's" where
  "wr R f = roundtrip R (\<lambda>s. ((), f s))"

section \<open>The keyspace functions behind the commands\<close>

definition ks_set_str :: "string \<Rightarrow> string \<Rightarrow> int option \<Rightarrow> keyspace \<Rightarrow> keyspace" where
  "ks_set_str k v t ks = ks\<lparr>ks_str := (ks_str ks)(k \<mapsto> v), ks_ttl := (ks_ttl ks)(k := t)\<rparr>"

definition ks_del :: "string \<Rightarrow> keyspace \<Rightarrow> keyspace" where
  "ks_del k ks = \<lparr>ks_str = (ks_str ks)(k := None), ks_hash = (ks_hash ks)(k := (\<lambda>_. None)),
     ks_zset = (ks_zset ks)(k := []), ks_set = (ks_set ks)(k := {}),
     ks_list = (ks_list ks)(k := []), ks_ttl = (ks_ttl ks)(k := None)\<rparr>"

text \<open>The integer a string holds, as \<open>INCR\<close> reads it; an absent one is 0.\<close>

definition str_int :: "keyspace \<Rightarrow> string \<Rightarrow> int" where
  "str_int ks k = (case ks_str ks k of
      None \<Rightarrow> 0
    | Some v \<Rightarrow> (case lua_tonumber v of None \<Rightarrow> 0 | Some n \<Rightarrow> n))"

definition ks_incr :: "string \<Rightarrow> keyspace \<Rightarrow> keyspace" where
  "ks_incr k ks = ks\<lparr>ks_str := (ks_str ks)(k \<mapsto> format_int (str_int ks k + 1))\<rparr>"

text \<open>A key whose time to live has passed is gone.\<close>

abbreviation ks_expired :: "string \<Rightarrow> keyspace \<Rightarrow> keyspace" where
  "ks_expired \<equiv> ks_del"

definition ks_exists :: "string \<Rightarrow> keyspace \<Rightarrow> bool" where
  "ks_exists k ks = (ks_str ks k \<noteq> None \<or> ks_hash ks k \<noteq> (\<lambda>_. None) \<or> ks_zset ks k \<noteq> [] \<or> ks_set ks k \<noteq> {} \<or>
     ks_list ks k \<noteq> [])"

definition ks_expire :: "string \<Rightarrow> int \<Rightarrow> keyspace \<Rightarrow> keyspace" where
  "ks_expire k t ks = (if ks_exists k ks then ks\<lparr>ks_ttl := (ks_ttl ks)(k := Some t)\<rparr> else ks)"

definition ks_hset :: "string \<Rightarrow> string \<Rightarrow> int \<Rightarrow> keyspace \<Rightarrow> keyspace" where
  "ks_hset k f v ks = ks\<lparr>ks_hash := (ks_hash ks)(k := (ks_hash ks k)(f := Some v))\<rparr>"

definition ks_hdel :: "string \<Rightarrow> string \<Rightarrow> keyspace \<Rightarrow> keyspace" where
  "ks_hdel k f ks = ks\<lparr>ks_hash := (ks_hash ks)(k := (ks_hash ks k)(f := None))\<rparr>"

text \<open>
  \<open>TTL\<close> answers the seconds that are left, rounded: at most what was set last; -1 for a
  key that never expires and -2 for one that is not there.
\<close>

definition ks_ttl_ok :: "keyspace \<Rightarrow> string \<Rightarrow> int \<Rightarrow> bool" where
  "ks_ttl_ok ks k t = (if \<not> ks_exists k ks then t = -2 else case ks_ttl ks k of None \<Rightarrow> t = -1
     | Some ms \<Rightarrow> 0 \<le> t \<and> t \<le> max 0 ((ms + 500) div 1000))"

definition hash_int :: "keyspace \<Rightarrow> string \<Rightarrow> string \<Rightarrow> int" where
  "hash_int ks k f = (case ks_hash ks k f of None \<Rightarrow> 0 | Some v \<Rightarrow> v)"

lemma hash_int_empty [simp]: "hash_int empty_keyspace k f = 0"
  by (simp add: hash_int_def)

definition ks_hincrby :: "string \<Rightarrow> string \<Rightarrow> int \<Rightarrow> keyspace \<Rightarrow> keyspace" where
  "ks_hincrby k f d ks = ks_hset k f (hash_int ks k f + d) ks"

definition ks_zupd :: "string \<Rightarrow> (zset \<Rightarrow> zset) \<Rightarrow> keyspace \<Rightarrow> keyspace" where
  "ks_zupd k g ks = ks\<lparr>ks_zset := (ks_zset ks)(k := g (ks_zset ks k))\<rparr>"

definition ks_supd :: "string \<Rightarrow> (string set \<Rightarrow> string set) \<Rightarrow> keyspace \<Rightarrow> keyspace" where
  "ks_supd k g ks = ks\<lparr>ks_set := (ks_set ks)(k := g (ks_set ks k))\<rparr>"

definition ks_lupd :: "string \<Rightarrow> (string list \<Rightarrow> string list) \<Rightarrow> keyspace \<Rightarrow> keyspace" where
  "ks_lupd k g ks = ks\<lparr>ks_list := (ks_list ks)(k := g (ks_list ks k))\<rparr>"

lemma ks_set_str_sel [simp]:
  "ks_str (ks_set_str k v t ks) = (ks_str ks)(k \<mapsto> v)" "ks_hash (ks_set_str k v t ks) = ks_hash ks"
  "ks_zset (ks_set_str k v t ks) = ks_zset ks" "ks_set (ks_set_str k v t ks) = ks_set ks"
  "ks_ttl (ks_set_str k v t ks) = (ks_ttl ks)(k := t)"
  by (simp_all add: ks_set_str_def)

lemma ks_del_sel [simp]:
  "ks_str (ks_del k ks) = (ks_str ks)(k := None)" "ks_hash (ks_del k ks) = (ks_hash ks)(k := (\<lambda>_. None))"
  "ks_zset (ks_del k ks) = (ks_zset ks)(k := [])" "ks_set (ks_del k ks) = (ks_set ks)(k := {})"
  by (simp_all add: ks_del_def)

lemma ks_incr_sel [simp]:
  "ks_str (ks_incr k ks) = (ks_str ks)(k \<mapsto> format_int (str_int ks k + 1))"
  "ks_hash (ks_incr k ks) = ks_hash ks" "ks_zset (ks_incr k ks) = ks_zset ks"
  "ks_set (ks_incr k ks) = ks_set ks"
  by (simp_all add: ks_incr_def)

lemma ks_expire_sel [simp]:
  "ks_str (ks_expire k t ks) = ks_str ks" "ks_hash (ks_expire k t ks) = ks_hash ks"
  "ks_zset (ks_expire k t ks) = ks_zset ks" "ks_set (ks_expire k t ks) = ks_set ks"
  by (simp_all add: ks_expire_def)

lemma ks_hset_sel [simp]:
  "ks_str (ks_hset k f v ks) = ks_str ks"
  "ks_hash (ks_hset k f v ks) = (ks_hash ks)(k := (ks_hash ks k)(f := Some v))"
  "ks_zset (ks_hset k f v ks) = ks_zset ks" "ks_set (ks_hset k f v ks) = ks_set ks"
  by (simp_all add: ks_hset_def)

lemma ks_hdel_sel [simp]:
  "ks_str (ks_hdel k f ks) = ks_str ks"
  "ks_hash (ks_hdel k f ks) = (ks_hash ks)(k := (ks_hash ks k)(f := None))"
  "ks_zset (ks_hdel k f ks) = ks_zset ks" "ks_set (ks_hdel k f ks) = ks_set ks"
  by (simp_all add: ks_hdel_def)

lemma ks_hincrby_sel [simp]:
  "ks_str (ks_hincrby k f d ks) = ks_str ks"
  "ks_hash (ks_hincrby k f d ks) = (ks_hash ks)(k := (ks_hash ks k)(f := Some (hash_int ks k f + d)))"
  "ks_zset (ks_hincrby k f d ks) = ks_zset ks" "ks_set (ks_hincrby k f d ks) = ks_set ks"
  by (simp_all add: ks_hincrby_def)

lemma ks_zupd_sel [simp]:
  "ks_str (ks_zupd k g ks) = ks_str ks" "ks_hash (ks_zupd k g ks) = ks_hash ks"
  "ks_zset (ks_zupd k g ks) = (ks_zset ks)(k := g (ks_zset ks k))" "ks_set (ks_zupd k g ks) = ks_set ks"
  by (simp_all add: ks_zupd_def)

lemma ks_supd_sel [simp]:
  "ks_str (ks_supd k g ks) = ks_str ks" "ks_hash (ks_supd k g ks) = ks_hash ks"
  "ks_zset (ks_supd k g ks) = ks_zset ks" "ks_set (ks_supd k g ks) = (ks_set ks)(k := g (ks_set ks k))"
  by (simp_all add: ks_supd_def)

lemma ks_setbit_sel [simp]:
  "ks_hash (ks_setbit k off b ks) = ks_hash ks" "ks_zset (ks_setbit k off b ks) = ks_zset ks"
  "ks_set (ks_setbit k off b ks) = ks_set ks"
  by (simp_all add: ks_setbit_def)

lemma ks_lupd_sel [simp]:
  "ks_str (ks_lupd k l ks) = ks_str ks" "ks_hash (ks_lupd k l ks) = ks_hash ks" "ks_zset (ks_lupd k l ks) = ks_zset ks"
  "ks_set (ks_lupd k l ks) = ks_set ks" "ks_list (ks_lupd k l ks) = (ks_list ks)(k := l (ks_list ks k))"
  "ks_ttl (ks_lupd k l ks) = ks_ttl ks"
  by (simp_all add: ks_lupd_def)

lemma ks_list_frame [simp]:
  "ks_list (ks_set_str k v t ks) = ks_list ks"
  "ks_list (ks_incr k ks) = ks_list ks"
  "ks_list (ks_expire k n ks) = ks_list ks"
  "ks_list (ks_hset k f w ks) = ks_list ks"
  "ks_list (ks_hdel k f ks) = ks_list ks"
  "ks_list (ks_hincrby k f w ks) = ks_list ks"
  "ks_list (ks_zupd k g ks) = ks_list ks"
  "ks_list (ks_supd k h ks) = ks_list ks"
  "ks_list (ks_setbit k off b ks) = ks_list ks"
  "ks_list (ks_del k ks) = (ks_list ks)(k := [])"
  by (simp_all add: ks_set_str_def ks_incr_def ks_expire_def ks_hset_def ks_hdel_def ks_hincrby_def ks_zupd_def ks_supd_def
      ks_setbit_def ks_del_def)

lemma ks_bit_frame [simp]:
  "ks_bit (ks_zupd k g ks) = ks_bit ks" "ks_bit (ks_supd k h ks) = ks_bit ks"
  "ks_bit (ks_hset k f v ks) = ks_bit ks" "ks_bit (ks_hincrby k f v ks) = ks_bit ks"
  "ks_bit (ks_expire k t ks) = ks_bit ks"
  by (simp_all add: ks_bit_def fun_eq_iff)

lemma hash_int_frame [simp]:
  "hash_int (ks_setbit k off b ks) = hash_int ks" "hash_int (ks_set_str k v t ks) = hash_int ks"
  "hash_int (ks_zupd k g ks) = hash_int ks" "hash_int (ks_supd k h ks) = hash_int ks"
  "hash_int (ks_expire k n ks) = hash_int ks"
  "hash_int (ks_hset k f w ks) k' f' = (if k' = k \<and> f' = f then w else hash_int ks k' f')"
  "hash_int (ks_hincrby k f w ks) k' f' = (if k' = k \<and> f' = f then hash_int ks k f + w else hash_int ks k' f')"
  by (simp_all add: hash_int_def fun_eq_iff split: option.splits)

section \<open>The contract\<close>

definition no_glob :: "string \<Rightarrow> bool" where
  "no_glob p = (set p \<inter> {CHR ''*'', CHR ''?'', CHR ''['', CHR 92} = {})"

locale redis_core =
  fixes R :: "'s redis" and view :: "'s \<Rightarrow> keyspace"
  assumes net_view [simp]: "view (snd (r_net R s)) = view s"
    and get_view [simp]: "r_get R k s = ks_str (view s) k"
    and set_view [simp]: "view (r_set R k v t s) = ks_set_str k v t (view s)"
    and del_view [simp]: "view (r_del R k s) = ks_del k (view s)"
    and incr_view [simp]: "view (r_incr R k s) = ks_incr k (view s)"
    and exists_view [simp]: "r_exists R k s = ks_exists k (view s)"
    and expire_view [simp]: "view (r_expire R k n s) = ks_expire k n (view s)"
    and ttl_view: "ks_ttl_ok (view s) k (r_ttl R k s)"
    and getbit_view [simp]: "r_getbit R k off s = ks_bit (view s) k off"
    and setbit_view [simp]: "view (r_setbit R k off b s) = ks_setbit k off b (view s)"
    and bitcount_view [simp]: "r_bitcount R k s = ks_bitcount (view s) k"

text \<open>
  \<open>SCAN\<close> returns every key that is there during the whole iteration at least
  once; that it returns each only once is not promised.
\<close>

locale redis_scan = redis_core R view for R :: "'s redis" and view +
  assumes scan_view: "no_glob p \<Longrightarrow> finite {k. ks_str (view s) k \<noteq> None} \<Longrightarrow>
    set (concat (r_scan R (p @ ''*'') s)) = {k. ks_str (view s) k \<noteq> None \<and> has_prefix p k}"

locale redis_hashes = redis_core R view for R :: "'s redis" and view +
  assumes hget_view [simp]: "r_hget R k f s = map_option format_int (ks_hash (view s) k f)"
    and hgetall_view: "finite (dom (ks_hash (view s) k)) \<Longrightarrow>
      map_of (r_hgetall R k s) = map_option format_int \<circ> ks_hash (view s) k"
    and hset_view [simp]: "view (r_hset R k f v s) = ks_hset k f v (view s)"
    and hincrby_view [simp]: "view (r_hincrby R k f d s) = ks_hincrby k f d (view s)"
    and hdel_view [simp]: "view (r_hdel R k f s) = ks_hdel k f (view s)"

locale redis_zsets = redis_core R view for R :: "'s redis" and view +
  assumes zadd_view [simp]: "view (r_zadd R k sc m s) = ks_zupd k (zs_add m sc) (view s)"
    and zadd_nx_view [simp]: "view (r_zadd_nx R k sc m s) = ks_zupd k (zs_add_nx m sc) (view s)"
    and zrem_view [simp]: "view (r_zrem R k m s) = ks_zupd k (zs_rem m) (view s)"
    and zcard_view [simp]: "r_zcard R k s = length (ks_zset (view s) k)"
    and zrevrank_view [simp]: "r_zrevrank R k m s = zs_rev_rank m (ks_zset (view s) k)"
    and zrevrange_view [simp]: "r_zrevrange R k i n s = zs_rev_range i n (ks_zset (view s) k)"
    and zrevrangebyscore_view [simp]:
      "r_zrevrangebyscore R k mx n s = zs_rev_by_score mx n (ks_zset (view s) k)"
    and zrange_above_view [simp]:
      "r_zrange_above R k mn n s = take n (filter (\<lambda>p. mn < snd p) (ks_zset (view s) k))"
    and zkeep_top_view [simp]: "view (r_zkeep_top R k n s) = ks_zupd k (zs_keep_top n) (view s)"

locale redis_sets = redis_core R view for R :: "'s redis" and view +
  assumes sadd_view [simp]: "view (r_sadd R k m s) = ks_supd k (insert m) (view s)"
    and srem_view [simp]: "view (r_srem R k m s) = ks_supd k (\<lambda>S. S - {m}) (view s)"
    and sismember_view [simp]: "r_sismember R k m s = (m \<in> ks_set (view s) k)"
    and spop_view: "r_spop R k n s = (ms, s') \<Longrightarrow>
      distinct ms \<and> set ms \<subseteq> ks_set (view s) k \<and> length ms = min n (card (ks_set (view s) k)) \<and>
      view s' = ks_supd k (\<lambda>S. S - set ms) (view s)"

locale redis_lists = redis_core R view for R :: "'s redis" and view +
  assumes rpush_view [simp]: "view (r_rpush R k xs s) = ks_lupd k (\<lambda>l. l @ xs) (view s)"
    and lrange_view [simp]: "r_lrange R k n s = take n (ks_list (view s) k)"

locale redis_server = redis_scan R view + redis_hashes R view + redis_zsets R view + redis_sets R view + redis_lists R view
  for R :: "'s redis" and view

text \<open>A server that is up answers every call.\<close>

locale redis_up = redis_server R view for R :: "'s redis" and view +
  assumes delivered [simp]: "fst (r_net R s) = Delivered"

context redis_core
begin

lemma roundtrip_Inr:
  "roundtrip R f s = (Inr x, s') \<Longrightarrow> (\<exists>s1. view s1 = view s \<and> f s1 = (x, s'))"
  using net_view[of s]
  by (cases "r_net R s") (auto simp: roundtrip_def split: prod.splits verdict.splits)

lemma roundtrip_cases:
  assumes "roundtrip R f s = (r, s')"
  obtains (ok) x s1 where "r = Inr x" "view s1 = view s" "f s1 = (x, s')"
  | (unsent) e where "r = Inl e" "view s' = view s"
  | (lost) e s1 x where "r = Inl e" "view s1 = view s" "f s1 = (x, s')"
proof -
  obtain v s1 where n: "r_net R s = (v, s1)" by (cases "r_net R s")
  with net_view[of s] have v1: "view s1 = view s" by simp
  obtain x s2 where f: "f s1 = (x, s2)" by (cases "f s1")
  from assms n f v1 that show ?thesis by (cases v) (auto simp: roundtrip_def)
qed

lemma rd_Inr: "rd R f s = (Inr x, s') \<Longrightarrow> (\<exists>s1. view s1 = view s \<and> x = f s1 \<and> s' = s1)"
  unfolding rd_def by (drule roundtrip_Inr) auto

lemma rd_view: "rd R f s = (r, s') \<Longrightarrow> view s' = view s"
  unfolding rd_def by (erule roundtrip_cases) auto

lemma wr_view: "wr R f s = (Inr x, s') \<Longrightarrow> (\<exists>s1. view s1 = view s \<and> s' = f s1)"
  unfolding wr_def by (drule roundtrip_Inr) auto

end

context redis_up
begin

lemma roundtrip_up: "\<exists>s1. view s1 = view s \<and> roundtrip R f s = (Inr (fst (f s1)), snd (f s1))"
proof -
  obtain v s1 where n: "r_net R s = (v, s1)" by (cases "r_net R s")
  with delivered[of s] net_view[of s] have "v = Delivered" "view s1 = view s" by auto
  with n show ?thesis by (auto simp: roundtrip_def split: prod.splits)
qed

lemma roundtrip_upE:
  obtains s1 where "view s1 = view s" "roundtrip R f s = (Inr (fst (f s1)), snd (f s1))"
  using roundtrip_up by blast

lemma rd_up: "\<exists>s1. view s1 = view s \<and> rd R f s = (Inr (f s1), s1)"
  using roundtrip_up[of s "\<lambda>s. (f s, s)"] by (simp add: rd_def)

lemma rd_upE:
  obtains s1 where "view s1 = view s" "rd R f s = (Inr (f s1), s1)"
  using rd_up by blast

lemma wr_up: "\<exists>s1. view s1 = view s \<and> wr R f s = (Inr (), f s1)"
  using roundtrip_up[of s "\<lambda>s. ((), f s)"] by (simp add: wr_def)

lemma wr_upE:
  obtains s1 where "view s1 = view s" "wr R f s = (Inr (), f s1)"
  using wr_up by blast

end

section \<open>An in-memory server that keeps the contract\<close>

text \<open>
  \<open>mem_redis\<close> keeps the keyspace itself, with the verdicts of the next round
  trips as a script; when the script is used up every call is delivered.
\<close>

type_synonym mem = "keyspace \<times> verdict list"

definition mem_net :: "mem \<Rightarrow> verdict \<times> mem" where
  "mem_net m = (case snd m of [] \<Rightarrow> (Delivered, m) | v # vs \<Rightarrow> (v, (fst m, vs)))"

definition mem_scan :: "string \<Rightarrow> mem \<Rightarrow> string list list" where
  "mem_scan pat m =
     [sorted_list_of_set {k. ks_str (fst m) k \<noteq> None \<and> has_prefix (butlast pat) k}]"

definition mem_spop :: "string \<Rightarrow> nat \<Rightarrow> mem \<Rightarrow> string list \<times> mem" where
  "mem_spop k n m = (let ms = take n (sorted_list_of_set (ks_set (fst m) k))
     in (ms, (ks_supd k (\<lambda>S. S - set ms) (fst m), snd m)))"

definition mem_hgetall :: "string \<Rightarrow> mem \<Rightarrow> (string \<times> string) list" where
  "mem_hgetall k m = map (\<lambda>f. (f, case ks_hash (fst m) k f of None \<Rightarrow> [] | Some v \<Rightarrow> format_int v))
     (sorted_list_of_set (dom (ks_hash (fst m) k)))"

lemma map_of_hgetall:
  assumes "finite (dom h)"
  shows "map_of (map (\<lambda>f. (f, case h f of None \<Rightarrow> [] | Some v \<Rightarrow> format_int v)) (sorted_list_of_set (dom h))) =
    map_option format_int \<circ> h"
proof
  fix x
  show "map_of (map (\<lambda>f. (f, case h f of None \<Rightarrow> [] | Some v \<Rightarrow> format_int v)) (sorted_list_of_set (dom h))) x =
    (map_option format_int \<circ> h) x"
    using assms by (cases "h x") (auto simp: map_of_map_keys map_of_eq_None_iff image_iff
        set_map_of_compr map_of_map_restrict restrict_map_def)
qed

definition mem_ttl :: "string \<Rightarrow> keyspace \<Rightarrow> int" where
  "mem_ttl k ks = (if \<not> ks_exists k ks then -2 else case ks_ttl ks k of None \<Rightarrow> -1 | Some ms \<Rightarrow> max 0 ((ms + 500) div 1000))"

lemma mem_ttl_ok [simp]: "ks_ttl_ok ks k (mem_ttl k ks)"
  by (simp add: ks_ttl_ok_def mem_ttl_def split: option.split)

definition mem_redis :: "mem redis" where
  "mem_redis = \<lparr>
     r_net = mem_net,
     r_get = (\<lambda>k m. ks_str (fst m) k),
     r_set = (\<lambda>k v t m. (ks_set_str k v t (fst m), snd m)),
     r_del = (\<lambda>k m. (ks_del k (fst m), snd m)),
     r_incr = (\<lambda>k m. (ks_incr k (fst m), snd m)),
     r_exists = (\<lambda>k m. ks_exists k (fst m)),
     r_expire = (\<lambda>k t m. (ks_expire k t (fst m), snd m)),
     r_ttl = (\<lambda>k m. mem_ttl k (fst m)),
     r_getbit = (\<lambda>k off m. ks_bit (fst m) k off),
     r_setbit = (\<lambda>k off b m. (ks_setbit k off b (fst m), snd m)),
     r_bitcount = (\<lambda>k m. ks_bitcount (fst m) k),
     r_scan = mem_scan,
     r_hget = (\<lambda>k f m. map_option format_int (ks_hash (fst m) k f)),
     r_hgetall = mem_hgetall,
     r_hset = (\<lambda>k f v m. (ks_hset k f v (fst m), snd m)),
     r_hincrby = (\<lambda>k f d m. (ks_hincrby k f d (fst m), snd m)),
     r_hdel = (\<lambda>k f m. (ks_hdel k f (fst m), snd m)),
     r_zadd = (\<lambda>k sc x m. (ks_zupd k (zs_add x sc) (fst m), snd m)),
     r_zadd_nx = (\<lambda>k sc x m. (ks_zupd k (zs_add_nx x sc) (fst m), snd m)),
     r_zrem = (\<lambda>k x m. (ks_zupd k (zs_rem x) (fst m), snd m)),
     r_zcard = (\<lambda>k m. length (ks_zset (fst m) k)),
     r_zrevrank = (\<lambda>k x m. zs_rev_rank x (ks_zset (fst m) k)),
     r_zrevrange = (\<lambda>k i n m. zs_rev_range i n (ks_zset (fst m) k)),
     r_zrevrangebyscore = (\<lambda>k mx n m. zs_rev_by_score mx n (ks_zset (fst m) k)),
     r_zrange_above = (\<lambda>k mn n m. take n (filter (\<lambda>p. mn < snd p) (ks_zset (fst m) k))),
     r_zkeep_top = (\<lambda>k n m. (ks_zupd k (zs_keep_top n) (fst m), snd m)),
     r_sadd = (\<lambda>k x m. (ks_supd k (insert x) (fst m), snd m)),
     r_srem = (\<lambda>k x m. (ks_supd k (\<lambda>S. S - {x}) (fst m), snd m)),
     r_sismember = (\<lambda>k x m. x \<in> ks_set (fst m) k),
     r_spop = mem_spop,
     r_rpush = (\<lambda>k xs m. (ks_lupd k (\<lambda>l. l @ xs) (fst m), snd m)),
     r_lrange = (\<lambda>k n m. take n (ks_list (fst m) k)) \<rparr>"

lemma mem_redis_sel [simp]:
  "r_net mem_redis = mem_net" "r_get mem_redis k m = ks_str (fst m) k"
  "r_set mem_redis k v t m = (ks_set_str k v t (fst m), snd m)"
  "r_del mem_redis k m = (ks_del k (fst m), snd m)" "r_exists mem_redis k m = ks_exists k (fst m)"
  "r_incr mem_redis k m = (ks_incr k (fst m), snd m)" "r_hgetall mem_redis = mem_hgetall"
  "r_expire mem_redis k n m = (ks_expire k n (fst m), snd m)"
  "r_getbit mem_redis k off m = ks_bit (fst m) k off"
  "r_setbit mem_redis k off b m = (ks_setbit k off b (fst m), snd m)"
  "r_bitcount mem_redis k m = ks_bitcount (fst m) k" "r_scan mem_redis = mem_scan"
  "r_hget mem_redis k f m = map_option format_int (ks_hash (fst m) k f)"
  "r_hset mem_redis k f w m = (ks_hset k f w (fst m), snd m)"
  "r_hincrby mem_redis k f w m = (ks_hincrby k f w (fst m), snd m)"
  "r_hdel mem_redis k f m = (ks_hdel k f (fst m), snd m)" "r_ttl mem_redis k m = mem_ttl k (fst m)"
  "r_zadd mem_redis k sc x m = (ks_zupd k (zs_add x sc) (fst m), snd m)"
  "r_zadd_nx mem_redis k sc x m = (ks_zupd k (zs_add_nx x sc) (fst m), snd m)"
  "r_zrem mem_redis k x m = (ks_zupd k (zs_rem x) (fst m), snd m)"
  "r_zcard mem_redis k m = length (ks_zset (fst m) k)"
  "r_zrevrank mem_redis k x m = zs_rev_rank x (ks_zset (fst m) k)"
  "r_zrevrange mem_redis k i j m = zs_rev_range i j (ks_zset (fst m) k)"
  "r_zrevrangebyscore mem_redis k mx j m = zs_rev_by_score mx j (ks_zset (fst m) k)"
  "r_zrange_above mem_redis k mn j m = take j (filter (\<lambda>p. mn < snd p) (ks_zset (fst m) k))"
  "r_zkeep_top mem_redis k j m = (ks_zupd k (zs_keep_top j) (fst m), snd m)"
  "r_sadd mem_redis k x m = (ks_supd k (insert x) (fst m), snd m)"
  "r_srem mem_redis k x m = (ks_supd k (\<lambda>S. S - {x}) (fst m), snd m)"
  "r_sismember mem_redis k x m = (x \<in> ks_set (fst m) k)" "r_spop mem_redis = mem_spop"
  "r_rpush mem_redis k xs m = (ks_lupd k (\<lambda>l. l @ xs) (fst m), snd m)" "r_lrange mem_redis k j m = take j (ks_list (fst m) k)"
  by (simp_all add: mem_redis_def)

interpretation mem: redis_server mem_redis fst
proof unfold_locales
  fix p :: string and s :: mem
  assume "finite {k. ks_str (fst s) k \<noteq> None}"
  then have "finite {k. ks_str (fst s) k \<noteq> None \<and> has_prefix p k}"
    by (rule rev_finite_subset) auto
  then show "set (concat (r_scan mem_redis (p @ ''*'') s)) =
      {k. ks_str (fst s) k \<noteq> None \<and> has_prefix p k}"
    by (simp add: mem_scan_def)
next
  fix k :: string and n ms and s s' :: mem
  let ?S = "ks_set (fst s) k"
  assume e: "r_spop mem_redis k n s = (ms, s')"
  then have ms: "ms = take n (sorted_list_of_set ?S)" by (simp add: mem_spop_def Let_def)
  have len: "length ms = min n (card ?S)"
    by (cases "finite ?S") (simp_all add: ms)
  have sub: "set ms \<subseteq> ?S"
    using set_take_subset[of n "sorted_list_of_set ?S"] by (cases "finite ?S") (auto simp: ms)
  have "distinct ms" by (simp add: ms)
  then show "distinct ms \<and> set ms \<subseteq> ?S \<and> length ms = min n (card ?S) \<and>
      fst s' = ks_supd k (\<lambda>S. S - set ms) (fst s)"
    using e len sub by (auto simp: mem_spop_def Let_def)
next
  fix k and s :: mem
  assume "finite (dom (ks_hash (fst s) k))"
  then show "map_of (r_hgetall mem_redis k s) = map_option format_int \<circ> ks_hash (fst s) k"
    by (simp add: mem_hgetall_def map_of_hgetall)
qed (auto simp: mem_net_def split: list.splits)

text \<open>Without scripted faults the same server is up: \<open>up_redis\<close> ignores the script.\<close>

definition up_redis :: "mem redis" where
  "up_redis = mem_redis\<lparr>r_net := (\<lambda>m. (Delivered, m))\<rparr>"

lemma up_redis_sel [simp]:
  "r_net up_redis m = (Delivered, m)" "r_get up_redis = r_get mem_redis"
  "r_set up_redis = r_set mem_redis" "r_del up_redis = r_del mem_redis"
  "r_exists up_redis = r_exists mem_redis" "r_expire up_redis = r_expire mem_redis"
  "r_getbit up_redis = r_getbit mem_redis" "r_setbit up_redis = r_setbit mem_redis"
  "r_incr up_redis = r_incr mem_redis" "r_hgetall up_redis = r_hgetall mem_redis"
  "r_hdel up_redis = r_hdel mem_redis" "r_ttl up_redis = r_ttl mem_redis"
  "r_bitcount up_redis = r_bitcount mem_redis" "r_scan up_redis = r_scan mem_redis"
  "r_hget up_redis = r_hget mem_redis" "r_hset up_redis = r_hset mem_redis"
  "r_hincrby up_redis = r_hincrby mem_redis" "r_zadd up_redis = r_zadd mem_redis"
  "r_zadd_nx up_redis = r_zadd_nx mem_redis" "r_zrem up_redis = r_zrem mem_redis"
  "r_zcard up_redis = r_zcard mem_redis" "r_zrevrank up_redis = r_zrevrank mem_redis"
  "r_zrevrange up_redis = r_zrevrange mem_redis"
  "r_zrevrangebyscore up_redis = r_zrevrangebyscore mem_redis"
  "r_zrange_above up_redis = r_zrange_above mem_redis"
  "r_zkeep_top up_redis = r_zkeep_top mem_redis" "r_sadd up_redis = r_sadd mem_redis"
  "r_srem up_redis = r_srem mem_redis" "r_sismember up_redis = r_sismember mem_redis"
  "r_spop up_redis = r_spop mem_redis" "r_rpush up_redis = r_rpush mem_redis" "r_lrange up_redis = r_lrange mem_redis"
  by (simp_all add: up_redis_def)

interpretation up: redis_up up_redis fst
proof unfold_locales
  fix p :: string and s :: mem
  assume "no_glob p" "finite {k. ks_str (fst s) k \<noteq> None}"
  then show "set (concat (r_scan up_redis (p @ ''*'') s)) =
      {k. ks_str (fst s) k \<noteq> None \<and> has_prefix p k}"
    using mem.scan_view by simp
next
  fix k :: string and n ms and s s' :: mem
  assume "r_spop up_redis k n s = (ms, s')"
  then show "distinct ms \<and> set ms \<subseteq> ks_set (fst s) k \<and>
      length ms = min n (card (ks_set (fst s) k)) \<and> fst s' = ks_supd k (\<lambda>S. S - set ms) (fst s)"
    using mem.spop_view by simp
next
  fix k and s :: mem
  assume "finite (dom (ks_hash (fst s) k))"
  then show "map_of (r_hgetall up_redis k s) = map_option format_int \<circ> ks_hash (fst s) k"
    using mem.hgetall_view by simp
qed simp_all

end
