(* ===== verification/Counter_Model.thy ===== *)
theory Counter_Model
  imports Redis_Server "HOL-Library.Monad_Syntax"
begin

text \<open>
  \<open>internal/counter/model.go\<close>, \<open>counter_event_json.go\<close>, \<open>metric.go\<close> and the
  number parsing of \<open>sds_read.go\<close>: the counter event, the slots of a snapshot,
  the address of a user's bit, the Redis keys of the counter domain and the
  hand-written JSON encoder of an event.
\<close>

section \<open>Counter events and snapshot slots\<close>

record counter_event =
  ce_message_id :: uint64
  ce_entity_type :: string
  ce_entity_id :: string
  ce_metric :: string
  ce_index :: int
  ce_user_id :: uint64
  ce_delta :: int

definition SchemaLen :: nat where "SchemaLen = 5"

definition IdxLike :: int where "IdxLike = 0"
definition IdxFav :: int where "IdxFav = 1"
definition IdxFollower :: int where "IdxFollower = 2"
definition IdxFollowing :: int where "IdxFollowing = 3"
definition IdxPosts :: int where "IdxPosts = 4"

text \<open>Reading an absent key of a Go map gives the zero value.\<close>

definition nameToIdx :: "string \<Rightarrow> int option" where
  "nameToIdx m = map_of [(''like'', IdxLike), (''fav'', IdxFav), (''follower'', IdxFollower),
     (''following'', IdxFollowing), (''posts'', IdxPosts)] m"

definition indexToName :: "int \<Rightarrow> string option" where
  "indexToName i = map_of [(IdxLike, ''like''), (IdxFav, ''fav''), (IdxFollower, ''follower''),
     (IdxFollowing, ''following''), (IdxPosts, ''posts'')] i"

definition NameToIdx :: "string \<Rightarrow> int" where
  "NameToIdx m = (case nameToIdx m of Some i \<Rightarrow> i | None \<Rightarrow> 0)"

definition index_name :: "int \<Rightarrow> string" where
  "index_name i = (case indexToName i of Some n \<Rightarrow> n | None \<Rightarrow> [])"

definition isUserMetric :: "string \<Rightarrow> bool" where
  "isUserMetric m = (m = index_name IdxFollowing \<or> m = index_name IdxFollower \<or> m = index_name IdxPosts)"

lemmas idx_defs = IdxLike_def IdxFav_def IdxFollower_def IdxFollowing_def IdxPosts_def

section \<open>The address of a user's bit\<close>

definition ChunkSize :: uint64 where "ChunkSize = 65536"

definition chunk_of :: "uint64 \<Rightarrow> uint64" where
  "chunk_of u = u div ChunkSize"

definition bit_of :: "uint64 \<Rightarrow> uint64" where
  "bit_of u = u mod ChunkSize"

lemma chunk_bit_split: "chunk_of u * ChunkSize + bit_of u = u"
  by (simp add: chunk_of_def bit_of_def word_mod_div_equality)

lemma unat_bit_of: "unat (bit_of u) = unat u mod 65536"
  by (simp add: bit_of_def ChunkSize_def unat_mod)

lemma unat_chunk_of: "unat (chunk_of u) = unat u div 65536"
  by (simp add: chunk_of_def ChunkSize_def unat_div)

lemma bit_of_bound: "unat (bit_of u) < 65536"
  by (simp add: unat_bit_of)

lemma user_address_inj: "chunk_of u = chunk_of v \<Longrightarrow> unat (bit_of u) = unat (bit_of v) \<Longrightarrow> u = v"
  by (metis chunk_bit_split word_unat_eq_iff)

section \<open>Redis keys\<close>

definition colon :: string where "colon = [CHR '':'']"

definition bitmap_key :: "string \<Rightarrow> string \<Rightarrow> string \<Rightarrow> uint64 \<Rightarrow> string" where
  "bitmap_key metric et eid chunk =
     ''bm:'' @ metric @ colon @ et @ colon @ eid @ colon @ format_uint chunk"

definition sds_key :: "string \<Rightarrow> string \<Rightarrow> string" where
  "sds_key et eid = ''cnt:'' @ et @ colon @ eid"

definition dirty_set_key :: string where
  "dirty_set_key = ''repair:counter:dirty''"

definition dirty_member :: "string \<Rightarrow> string \<Rightarrow> string" where
  "dirty_member et eid = et @ colon @ eid"

text \<open>\<open>SplitN(member, ":", 2)\<close> gives two parts exactly when a colon occurs.\<close>

definition parse_dirty_member :: "string \<Rightarrow> (string \<times> string) option" where
  "parse_dirty_member m = (case str_cut CHR '':'' m of
      None \<Rightarrow> None
    | Some (t, i) \<Rightarrow> if t = [] \<or> i = [] then None else Some (t, i))"

definition rebuild_marker_key :: "string \<Rightarrow> string \<Rightarrow> string" where
  "rebuild_marker_key et eid = ''rebuilding:'' @ et @ colon @ eid"

definition likers_zset_key :: "string \<Rightarrow> string \<Rightarrow> string \<Rightarrow> string" where
  "likers_zset_key metric et eid = ''likers:'' @ metric @ colon @ et @ colon @ eid"

definition applied_offset_key :: "string \<Rightarrow> string \<Rightarrow> int \<Rightarrow> string" where
  "applied_offset_key grp topic part =
     ''counter:applied-offset:'' @ grp @ colon @ topic @ colon @ format_int part"

lemma bitmap_key_chunk_inj [simp]:
  "bitmap_key m et eid c = bitmap_key m et eid c' \<longleftrightarrow> c = c'"
  by (simp add: bitmap_key_def)

lemma colon_free_split:
  assumes "CHR '':'' \<notin> set a" "CHR '':'' \<notin> set b" "a @ CHR '':'' # x = b @ CHR '':'' # y"
  shows "a = b \<and> x = y"
proof -
  have "Some (a, x) = Some (b, y)"
    using cut_append[OF assms(1), of x] cut_append[OF assms(2), of y] assms(3) by metis
  then show ?thesis by simp
qed

lemma bitmap_key_inj:
  assumes "CHR '':'' \<notin> set m \<union> set et \<union> set eid" "CHR '':'' \<notin> set m' \<union> set et' \<union> set eid'"
    and "bitmap_key m et eid c = bitmap_key m' et' eid' c'"
  shows "m = m' \<and> et = et' \<and> eid = eid' \<and> c = c'"
proof -
  have e: "m @ CHR '':'' # et @ CHR '':'' # eid @ CHR '':'' # format_uint c =
           m' @ CHR '':'' # et' @ CHR '':'' # eid' @ CHR '':'' # format_uint c'"
    using assms(3) by (simp add: bitmap_key_def colon_def)
  then have m: "m = m'" and e2: "et @ CHR '':'' # eid @ CHR '':'' # format_uint c =
           et' @ CHR '':'' # eid' @ CHR '':'' # format_uint c'"
    using colon_free_split[OF _ _ e] assms(1,2) by auto
  from e2 have et: "et = et'" and e3: "eid @ CHR '':'' # format_uint c = eid' @ CHR '':'' # format_uint c'"
    using colon_free_split[OF _ _ e2] assms(1,2) by auto
  from e3 have "eid = eid' \<and> format_uint c = format_uint c'"
    using colon_free_split[OF _ _ e3] assms(1,2) by auto
  with m et show ?thesis by simp
qed

lemma parse_dirty_memberD:
  "parse_dirty_member m = Some (t, i) \<Longrightarrow> m = t @ CHR '':'' # i \<and> t \<noteq> [] \<and> i \<noteq> [] \<and> CHR '':'' \<notin> set t"
  by (auto simp: parse_dirty_member_def dest: cut_SomeD split: option.splits if_splits)

lemma parse_dirty_member_clean:
  "CHR '':'' \<notin> set t \<Longrightarrow> t \<noteq> [] \<Longrightarrow> i \<noteq> [] \<Longrightarrow> parse_dirty_member (dirty_member t i) = Some (t, i)"
  by (simp add: parse_dirty_member_def dirty_member_def colon_def cut_append)

section \<open>The users who liked an entity\<close>

text \<open>The abstract content of the bitmap shards of one metric of one entity.\<close>

definition liked_set :: "keyspace \<Rightarrow> string \<Rightarrow> string \<Rightarrow> string \<Rightarrow> uint64 set" where
  "liked_set ks metric et eid =
     {u. ks_bit ks (bitmap_key metric et eid (chunk_of u)) (unat (bit_of u))}"

lemma finite_liked_set [simp]: "finite (liked_set ks metric et eid)"
  by (rule finite_subset [OF subset_UNIV]) simp

section \<open>Parsing a stored counter: \<open>parseInt32\<close>\<close>

fun parse_int32_loop :: "int32 \<Rightarrow> string \<Rightarrow> int32 option" where
  "parse_int32_loop n [] = Some n"
| "parse_int32_loop n (c # cs) =
     (if is_digit c then parse_int32_loop (n * 10 + of_nat (digit_val c)) cs else None)"

definition parse_int32 :: "string \<Rightarrow> int32 option" where
  "parse_int32 s = parse_int32_loop 0 s"

lemma parse_int32_loop_digits:
  "\<forall>c \<in> set s. is_digit c \<Longrightarrow>
   parse_int32_loop (of_nat a) s = map_option of_nat (digits_value a s)"
proof (induction s arbitrary: a)
  case (Cons c cs)
  have "(of_nat a * 10 + of_nat (digit_val c) :: int32) = of_nat (a * 10 + digit_val c)" by simp
  with Cons show ?case by (simp del: of_nat_add of_nat_mult)
qed simp

lemma parse_int32_format_nat: "parse_int32 (format_nat n) = Some (of_nat n)"
  using parse_int32_loop_digits[of "format_nat n" 0] format_nat_digits[of n]
  by (simp add: parse_int32_def digits_value_format)

lemma parse_int32_negative: "parse_int32 (CHR ''-'' # s) = None"
  by (simp add: parse_int32_def)

lemma parse_int32_format_int: "parse_int32 (format_int v) = (if v < 0 then None else Some (of_int v))"
  using parse_int32_negative parse_int32_format_nat[of "nat v"] by (simp add: format_int_def)

lemma sint_int32: "0 \<le> v \<Longrightarrow> v < 2 ^ 31 \<Longrightarrow> sint (of_int v :: int32) = v"
  by (simp add: signed_of_int signed_take_bit_int_eq_self)

section \<open>The JSON encoder\<close>

definition hex_digit :: "nat \<Rightarrow> char" where
  "hex_digit d = ''0123456789abcdef'' ! d"

definition bslash :: char where "bslash = CHR 92"
definition dquote :: char where "dquote = CHR 34"

definition json_escape_char :: "char \<Rightarrow> string" where
  "json_escape_char c =
     (if c = bslash then [bslash, bslash]
      else if c = dquote then [bslash, dquote]
      else if c = CHR 10 then [bslash, CHR ''n'']
      else if c = CHR 13 then [bslash, CHR ''r'']
      else if c = CHR 9 then [bslash, CHR ''t'']
      else if (of_char c :: nat) < 32
      then bslash # ''u00'' @ [hex_digit (of_char c div 16), hex_digit (of_char c mod 16)]
      else [c])"

definition write_json_string :: "string \<Rightarrow> string" where
  "write_json_string s = dquote # concat (map json_escape_char s) @ [dquote]"

definition json_key :: "string \<Rightarrow> string" where
  "json_key k = dquote # k @ [dquote, CHR '':'']"

definition marshal_counter_event :: "counter_event \<Rightarrow> string" where
  "marshal_counter_event e =
     CHR 123 # json_key ''message_id'' @ format_uint (ce_message_id e)
     @ CHR '','' # json_key ''entity_type'' @ write_json_string (ce_entity_type e)
     @ CHR '','' # json_key ''entity_id'' @ write_json_string (ce_entity_id e)
     @ CHR '','' # json_key ''metric'' @ write_json_string (ce_metric e)
     @ CHR '','' # json_key ''index'' @ format_int (ce_index e)
     @ CHR '','' # json_key ''user_id'' @ format_uint (ce_user_id e)
     @ CHR '','' # json_key ''delta'' @ format_int (ce_delta e) @ [CHR 125]"

subsection \<open>A reader of RFC 8259 literals, to state what the encoder promises\<close>

definition hex_val :: "char \<Rightarrow> nat option" where
  "hex_val c = index_of (\<lambda>d. d = c) ''0123456789abcdef''"

fun read_json_body :: "string \<Rightarrow> (string \<times> string) option" where
  "read_json_body [] = None"
| "read_json_body (c # cs) =
     (if c = dquote then Some ([], cs)
      else if c = bslash then
        (case cs of
          e # cs1 \<Rightarrow>
            if e = bslash \<or> e = dquote then map_option (\<lambda>(s, r). (e # s, r)) (read_json_body cs1)
            else if e = CHR ''n'' then map_option (\<lambda>(s, r). (CHR 10 # s, r)) (read_json_body cs1)
            else if e = CHR ''r'' then map_option (\<lambda>(s, r). (CHR 13 # s, r)) (read_json_body cs1)
            else if e = CHR ''t'' then map_option (\<lambda>(s, r). (CHR 9 # s, r)) (read_json_body cs1)
            else if e = CHR ''u'' then
              (case cs1 of
                z1 # z2 # h1 # h2 # cs2 \<Rightarrow>
                  (case (hex_val h1, hex_val h2) of
                    (Some a, Some b) \<Rightarrow>
                      if z1 = CHR ''0'' \<and> z2 = CHR ''0'' \<and> a < 8
                      then map_option (\<lambda>(s, r). (char_of (a * 16 + b) # s, r)) (read_json_body cs2)
                      else None
                  | _ \<Rightarrow> None)
              | _ \<Rightarrow> None)
            else None
        | [] \<Rightarrow> None)
      else if (of_char c :: nat) < 32 then None
      else map_option (\<lambda>(s, r). (c # s, r)) (read_json_body cs))"

definition read_json_string :: "string \<Rightarrow> (string \<times> string) option" where
  "read_json_string s = (case s of [] \<Rightarrow> None
     | c # cs \<Rightarrow> if c = dquote then read_json_body cs else None)"

lemma hex_val_digit: "d < 16 \<Longrightarrow> hex_val (hex_digit d) = Some d"
proof -
  assume "d < 16"
  then have "d \<in> {0,1,2,3,4,5,6,7,8,9,10,11,12,13,14,15}" unfolding insert_iff empty_iff by presburger
  then show ?thesis by (elim insertE) (simp_all add: hex_val_def hex_digit_def)
qed

lemma read_json_body_escape:
  "read_json_body (json_escape_char c @ rest) = map_option (\<lambda>(s, r). (c # s, r)) (read_json_body rest)"
proof (cases "(of_char c :: nat) < 32 \<and> c \<noteq> CHR 10 \<and> c \<noteq> CHR 13 \<and> c \<noteq> CHR 9")
  case True
  then have ne: "c \<noteq> bslash" "c \<noteq> dquote" by (auto simp: bslash_def dquote_def)
  let ?n = "of_char c :: nat"
  have "?n div 16 < 8" "?n mod 16 < 16" using True by auto
  moreover have "char_of (?n div 16 * 16 + ?n mod 16) = c" by simp
  ultimately show ?thesis
    using True ne by (simp add: json_escape_char_def hex_val_digit bslash_def dquote_def)
next
  case False
  then show ?thesis
    by (auto simp: json_escape_char_def bslash_def dquote_def)
qed

lemma read_json_body_write:
  "read_json_body (concat (map json_escape_char s) @ dquote # rest) = Some (s, rest)"
  by (induction s) (simp_all add: read_json_body_escape)

lemma read_write_json_string [simp]: "read_json_string (write_json_string s @ rest) = Some (s, rest)"
  by (simp add: read_json_string_def write_json_string_def read_json_body_write)

text \<open>Reading the event back, field by field in the order it is written.\<close>

definition read_uint :: "string \<Rightarrow> (uint64 \<times> string) option" where
  "read_uint s = map_option (\<lambda>n. (n, dropWhile is_digit s)) (parse_uint (takeWhile is_digit s))"

definition int_char :: "char \<Rightarrow> bool" where
  "int_char c = (is_digit c \<or> c = CHR ''-'')"

definition read_int :: "string \<Rightarrow> (int \<times> string) option" where
  "read_int s = map_option (\<lambda>n. (n, dropWhile int_char s)) (parse_int (takeWhile int_char s))"

definition unmarshal_counter_event :: "string \<Rightarrow> counter_event option" where
  "unmarshal_counter_event s0 = do {
     s1 \<leftarrow> cut_prefix (CHR 123 # json_key ''message_id'') s0;
     (mid, s2) \<leftarrow> read_uint s1;
     s3 \<leftarrow> cut_prefix (CHR '','' # json_key ''entity_type'') s2;
     (et, s4) \<leftarrow> read_json_string s3;
     s5 \<leftarrow> cut_prefix (CHR '','' # json_key ''entity_id'') s4;
     (eid, s6) \<leftarrow> read_json_string s5;
     s7 \<leftarrow> cut_prefix (CHR '','' # json_key ''metric'') s6;
     (metric, s8) \<leftarrow> read_json_string s7;
     s9 \<leftarrow> cut_prefix (CHR '','' # json_key ''index'') s8;
     (ix, s10) \<leftarrow> read_int s9;
     s11 \<leftarrow> cut_prefix (CHR '','' # json_key ''user_id'') s10;
     (uid, s12) \<leftarrow> read_uint s11;
     s13 \<leftarrow> cut_prefix (CHR '','' # json_key ''delta'') s12;
     (delta, s14) \<leftarrow> read_int s13;
     if s14 = [CHR 125]
     then Some \<lparr>ce_message_id = mid, ce_entity_type = et, ce_entity_id = eid, ce_metric = metric,
       ce_index = ix, ce_user_id = uid, ce_delta = delta\<rparr>
     else None }"

lemma takeWhile_format_uint [simp]:
  "\<not> is_digit c \<Longrightarrow> takeWhile is_digit (format_uint u @ c # r) = format_uint u"
  "\<not> is_digit c \<Longrightarrow> dropWhile is_digit (format_uint u @ c # r) = c # r"
  using format_nat_digits[of "unat u"]
  by (simp_all add: format_uint_def takeWhile_append2 dropWhile_append2)

lemma read_uint_format [simp]:
  "\<not> is_digit c \<Longrightarrow> read_uint (format_uint u @ c # r) = Some (u, c # r)"
  by (simp add: read_uint_def)

lemma int_chars_format: "\<forall>c \<in> set (format_int i). int_char c"
  using format_nat_digits[of "nat i"] format_nat_digits[of "nat (- i)"]
  by (auto simp: format_int_def int_char_def)

lemma read_int_format [simp]:
  assumes "in_int64 i" "\<not> int_char c"
  shows "read_int (format_int i @ c # r) = Some (i, c # r)"
proof -
  have "takeWhile int_char (format_int i @ c # r) = format_int i"
    "dropWhile int_char (format_int i @ c # r) = c # r"
    using int_chars_format[of i] assms(2) by (simp_all add: takeWhile_append2 dropWhile_append2)
  with assms(1) show ?thesis by (simp add: read_int_def)
qed

lemma sep_not_digit [simp]:
  "\<not> is_digit (CHR '','')" "\<not> int_char (CHR '','')" "\<not> int_char (CHR 125)"
  by (simp_all add: is_digit_def int_char_def)

lemma unmarshal_marshal:
  "in_int64 (ce_index e) \<Longrightarrow> in_int64 (ce_delta e) \<Longrightarrow>
   unmarshal_counter_event (marshal_counter_event e) = Some e"
proof -
  assume ok: "in_int64 (ce_index e)" "in_int64 (ce_delta e)"
  have cp: "cut_prefix (c # p) (c # p @ s) = Some s" for c p s
    by simp
  show ?thesis
    unfolding marshal_counter_event_def unmarshal_counter_event_def
    using ok by (simp add: cp)
qed

section \<open>Properties\<close>

text \<open>
  C9: the hand-written encoder of a counter event loses nothing: for every
  event whose index and delta fit Go's int, all strings included (quotes,
  backslashes and control characters are escaped), a reader of JSON literals
  gets the same event back.
\<close>

theorem event_json_round_trip:
  assumes "in_int64 (ce_index e)" "in_int64 (ce_delta e)"
  shows "unmarshal_counter_event (marshal_counter_event e) = Some e"
  by (rule unmarshal_marshal[OF assms])

theorem event_json_round_trip_witness:
  "\<exists>e. ce_entity_id e = [dquote, CHR 10, bslash, CHR 0x01] \<and>
     unmarshal_counter_event (marshal_counter_event e) = Some e"
proof -
  let ?e = "\<lparr>ce_message_id = 1, ce_entity_type = ''post'',
      ce_entity_id = [dquote, CHR 10, bslash, CHR 0x01], ce_metric = ''like'', ce_index = 0,
      ce_user_id = 7, ce_delta = -1\<rparr>"
  have "unmarshal_counter_event (marshal_counter_event ?e) = Some ?e"
    by (rule event_json_round_trip) (simp_all add: in_int64_def int64_min_def int64_max_def)
  then show ?thesis by (intro exI[of _ ?e]) simp
qed

text \<open>
  The address of a user's bit is a bijection: chunk and offset give the
  user id back, the offset lies inside the shard, and two addresses of entities
  whose names have no colon are the same only for the same metric, entity and
  user.
\<close>

theorem user_bit_address:
  "chunk_of u * ChunkSize + bit_of u = u \<and> unat (bit_of u) < 65536 \<and>
   (\<forall>v. CHR '':'' \<notin> set m \<union> set et \<union> set eid \<union> set m' \<union> set et' \<union> set eid' \<longrightarrow>
      bitmap_key m et eid (chunk_of u) = bitmap_key m' et' eid' (chunk_of v) \<longrightarrow>
      unat (bit_of u) = unat (bit_of v) \<longrightarrow> m = m' \<and> et = et' \<and> eid = eid' \<and> u = v)"
  using chunk_bit_split bit_of_bound bitmap_key_inj[of m et eid m' et' eid' "chunk_of u"] user_address_inj[of u]
  by auto

theorem user_bit_address_witness:
  "chunk_of 70001 * ChunkSize + bit_of 70001 = 70001 \<and> unat (bit_of 70001) < 65536"
  using user_bit_address[of 70001] by blast

text \<open>
  C14: reading a stored counter back: a count below \<open>2 ^ 31\<close> is read exactly, a
  larger one wraps to its low 32 bits, and a negative one is rejected (the
  callers then report 0).
\<close>

theorem stored_count_read_back:
  "parse_int32 (format_int v) = (if v < 0 then None else Some (of_int v)) \<and>
   (0 \<le> v \<longrightarrow> v < 2 ^ 31 \<longrightarrow> sint (of_int v :: int32) = v)"
  by (simp add: parse_int32_format_int sint_int32)

theorem stored_count_read_back_witness:
  "parse_int32 (format_int 4294967301) = Some 5 \<and> sint (of_int 7 :: int32) = 7"
  using stored_count_read_back[of 4294967301] stored_count_read_back[of 7] by simp

end
