(* ===== verification/Redis_Lock.thy ===== *)
theory Redis_Lock
  imports Redis_Server
begin

text \<open>
  \<open>pkg/redislock/lock.go\<close>: the token lock. Durations are in milliseconds. The
  watchdog goroutine only calls \<open>renew\<close> on a timer; its loop is the step
  \<open>watchdog_tick\<close>. The random token of \<open>TryAcquire\<close> is an argument.
\<close>

record lock_options =
  lo_ttl :: int
  lo_watchdog :: int
  lo_op_timeout :: int

definition default_ttl :: int where "default_ttl = 5000"
definition default_op_timeout :: int where "default_op_timeout = 1000"
definition default_retry_interval :: int where "default_retry_interval = 50"

text \<open>Go's integer division truncates; here the dividend is positive.\<close>

definition normalized :: "lock_options \<Rightarrow> lock_options" where
  "normalized o1 =
    (let o2 = (if lo_ttl o1 \<le> 0 then o1\<lparr>lo_ttl := default_ttl\<rparr> else o1);
         o3 = (if lo_watchdog o2 \<le> 0 then o2\<lparr>lo_watchdog := lo_ttl o2 div 3\<rparr> else o2)
     in (if lo_op_timeout o3 \<le> 0 then o3\<lparr>lo_op_timeout := default_op_timeout\<rparr> else o3))"

record lock =
  lk_key :: string
  lk_token :: string
  lk_options :: lock_options

text \<open>\<open>SET key token NX EX ttl\<close>.\<close>

definition set_nx :: "'s redis \<Rightarrow> string \<Rightarrow> string \<Rightarrow> int \<Rightarrow> 's \<Rightarrow> bool \<times> 's" where
  "set_nx R k v t s = (if r_exists R k s then (False, s) else (True, r_set R k v (Some t) s))"

definition try_acquire ::
  "'s redis \<Rightarrow> string \<Rightarrow> lock_options \<Rightarrow> string \<Rightarrow> 's \<Rightarrow> (io_error + lock option) \<times> 's" where
  "try_acquire R key opts token s =
    (let o1 = normalized opts in
     case roundtrip R (set_nx R key token (lo_ttl o1)) s of
       (Inl e, s1) \<Rightarrow> (Inl e, s1)
     | (Inr False, s1) \<Rightarrow> (Inr None, s1)
     | (Inr True, s1) \<Rightarrow> (Inr (Some \<lparr>lk_key = key, lk_token = token, lk_options = o1\<rparr>), s1))"

definition release_script :: "'s redis \<Rightarrow> string \<Rightarrow> string \<Rightarrow> 's \<Rightarrow> int \<times> 's" where
  "release_script R key token s =
    (if r_get R key s = Some token then (1, r_del R key s) else (0, s))"

definition renew_script :: "'s redis \<Rightarrow> string \<Rightarrow> string \<Rightarrow> int \<Rightarrow> 's \<Rightarrow> int \<times> 's" where
  "renew_script R key token ttl s =
    (if r_get R key s = Some token then (1, r_expire R key ttl s) else (0, s))"

text \<open>\<open>Release\<close> logs an error of the script and returns nothing.\<close>

definition release :: "'s redis \<Rightarrow> lock \<Rightarrow> 's \<Rightarrow> 's" where
  "release R l s = snd (roundtrip R (release_script R (lk_key l) (lk_token l)) s)"

definition renew :: "'s redis \<Rightarrow> lock \<Rightarrow> 's \<Rightarrow> (io_error + bool) \<times> 's" where
  "renew R l s =
    (case roundtrip R (renew_script R (lk_key l) (lk_token l) (lo_ttl (lk_options l))) s of
       (Inl e, s1) \<Rightarrow> (Inl e, s1)
     | (Inr r, s1) \<Rightarrow> (Inr (r = 1), s1))"

text \<open>One tick of the watchdog: \<open>True\<close> when it goes on ticking.\<close>

definition watchdog_tick :: "'s redis \<Rightarrow> lock \<Rightarrow> 's \<Rightarrow> bool \<times> 's" where
  "watchdog_tick R l s = (case renew R l s of
      (Inl e, s1) \<Rightarrow> (True, s1)
    | (Inr renewed, s1) \<Rightarrow> (renewed, s1))"

text \<open>
  \<open>AcquireWithRetry\<close> tries until it has the lock, the server fails or the
  context is done. How many retries fit before the context is done is the
  argument \<open>n\<close>; the tokens of the tries are drawn from a list.
\<close>

datatype acquire_error = AcquireIo io_error | CtxDone

fun acquire_with_retry ::
  "'s redis \<Rightarrow> string \<Rightarrow> lock_options \<Rightarrow> (nat \<Rightarrow> string) \<Rightarrow> nat \<Rightarrow> 's \<Rightarrow> (acquire_error + lock) \<times> 's" where
  "acquire_with_retry R key opts token n s =
    (case try_acquire R key opts (token n) s of
       (Inl e, s1) \<Rightarrow> (Inl (AcquireIo e), s1)
     | (Inr (Some l), s1) \<Rightarrow> (Inr l, s1)
     | (Inr None, s1) \<Rightarrow>
         (case n of 0 \<Rightarrow> (Inl CtxDone, s1)
          | Suc m \<Rightarrow> acquire_with_retry R key opts token m s1))"

declare acquire_with_retry.simps [simp del]

lemma normalized_pos:
  "lo_ttl (normalized opts) > 0" "lo_watchdog (normalized opts) \<ge> 0" "lo_op_timeout (normalized opts) > 0"
  by (auto simp: normalized_def Let_def default_ttl_def default_op_timeout_def)

text \<open>Who holds a lock, as a client can read it.\<close>

definition lock_holder :: "keyspace \<Rightarrow> string \<Rightarrow> string option" where
  "lock_holder ks key = ks_str ks key"

definition lock_key_ok :: "keyspace \<Rightarrow> string \<Rightarrow> bool" where
  "lock_key_ok ks key = (ks_hash ks key = (\<lambda>_. None) \<and> ks_zset ks key = [] \<and> ks_set ks key = {} \<and> ks_list ks key = [])"

lemma exists_lock: "lock_key_ok ks key \<Longrightarrow> ks_exists key ks = (ks_str ks key \<noteq> None)"
  by (simp add: lock_key_ok_def ks_exists_def)

context redis_core
begin

lemma try_acquire_gets:
  assumes "try_acquire R key opts tok s = (Inr (Some l), s')" "lock_key_ok (view s) key"
  shows "lock_holder (view s) key = None" "lock_holder (view s') key = Some tok" "lk_token l = tok" "lk_key l = key"
    and "view s' = ks_set_str key tok (Some (lo_ttl (normalized opts))) (view s)"
  using assms exists_lock[of "view s" key]
  by (auto simp: try_acquire_def Let_def set_nx_def lock_holder_def
      split: prod.splits sum.splits bool.splits if_splits dest!: roundtrip_Inr)

lemma try_acquire_busy:
  assumes "try_acquire R key opts tok s = (Inr None, s')"
  shows "view s' = view s \<and> ks_exists key (view s)"
  using assms
  by (auto simp: try_acquire_def Let_def set_nx_def
      split: prod.splits sum.splits bool.splits if_splits dest!: roundtrip_Inr)

lemma release_view:
  "view (release R l s) = view s \<or>
   (lock_holder (view s) (lk_key l) = Some (lk_token l) \<and> view (release R l s) = ks_del (lk_key l) (view s))"
  unfolding release_def
  by (cases "roundtrip R (release_script R (lk_key l) (lk_token l)) s")
    (auto elim!: roundtrip_cases simp: release_script_def lock_holder_def split: if_splits)

lemma release_other: "lock_holder (view s) (lk_key l) \<noteq> Some (lk_token l) \<Longrightarrow> view (release R l s) = view s"
  using release_view by auto

lemma renew_view:
  "renew R l s = (r, s') \<Longrightarrow>
   view s' = view s \<or>
   (lock_holder (view s) (lk_key l) = Some (lk_token l) \<and>
    view s' = ks_expire (lk_key l) (lo_ttl (lk_options l)) (view s))"
  unfolding renew_def
  by (auto simp: renew_script_def lock_holder_def split: prod.splits sum.splits if_splits
      elim!: roundtrip_cases)

end

section \<open>Lock operations of many clients\<close>

text \<open>What one client does to the server; every outcome of the call is allowed.\<close>

inductive lock_step :: "'s redis \<Rightarrow> string \<Rightarrow> 's \<Rightarrow> 's \<Rightarrow> bool" for R tok where
  step_try: "try_acquire R key opts tok s = (r, s') \<Longrightarrow> lock_step R tok s s'"
| step_release: "lk_token l = tok \<Longrightarrow> lock_step R tok s (release R l s)"
| step_renew: "lk_token l = tok \<Longrightarrow> renew R l s = (r, s') \<Longrightarrow> lock_step R tok s s'"

inductive_cases lock_stepE: "lock_step R tok s s'"

text \<open>A run of other clients than the one with token \<open>tok\<close>.\<close>

inductive others_run :: "'s redis \<Rightarrow> string \<Rightarrow> 's \<Rightarrow> 's \<Rightarrow> bool" for R tok where
  others_none: "others_run R tok s s"
| others_step: "others_run R tok s s1 \<Longrightarrow> lock_step R tok' s1 s2 \<Longrightarrow> tok' \<noteq> tok \<Longrightarrow> others_run R tok s s2"

context redis_core
begin

lemma try_acquire_view:
  assumes "try_acquire R key opts tok s = (r, s')"
  shows "view s' = view s \<or> (\<not> ks_exists key (view s) \<and>
    view s' = ks_set_str key tok (Some (lo_ttl (normalized opts))) (view s))"
proof -
  obtain x s1 where rt: "roundtrip R (set_nx R key tok (lo_ttl (normalized opts))) s = (x, s1)"
    by (cases "roundtrip R (set_nx R key tok (lo_ttl (normalized opts))) s")
  with assms have "s' = s1" by (auto simp: try_acquire_def Let_def split: sum.splits bool.splits)
  with rt show ?thesis
    by (auto simp: set_nx_def elim!: roundtrip_cases split: if_splits)
qed

lemma try_acquire_not_held:
  "try_acquire R key opts tok s = (Inr (Some l), s') \<Longrightarrow> lock_holder (view s) key = None"
  by (auto simp: try_acquire_def Let_def set_nx_def lock_holder_def ks_exists_def
      split: prod.splits sum.splits bool.splits if_splits dest!: roundtrip_Inr)

lemma lock_step_keeps:
  assumes "lock_step R tok' s s'" "tok' \<noteq> tok" "lock_holder (view s) key = Some tok"
  shows "lock_holder (view s') key = Some tok"
  using assms(1)
proof (rule lock_stepE)
  fix k opts r
  assume "try_acquire R k opts tok' s = (r, s')"
  from try_acquire_view[OF this] assms(3) show ?thesis
    by (auto simp: lock_holder_def ks_exists_def)
next
  fix l
  assume "s' = release R l s" "lk_token l = tok'"
  with release_view[of l s] assms(2,3) show ?thesis by (auto simp: lock_holder_def)
next
  fix l r
  assume "lk_token l = tok'" "renew R l s = (r, s')"
  with renew_view[of l s r s'] assms(2,3) show ?thesis by (auto simp: lock_holder_def)
qed

lemma others_run_keeps:
  "others_run R tok s s' \<Longrightarrow> lock_holder (view s) key = Some tok \<Longrightarrow> lock_holder (view s') key = Some tok"
  by (induction rule: others_run.induct) (simp, metis lock_step_keeps)

end

section \<open>Properties\<close>

text \<open>
  C8: mutual exclusion. A client that was told it has the lock holds it after
  any run of calls by other clients (attempts, releases and renewals with other
  tokens, lost replies included) until its own release or the end of its lease,
  and no attempt of another client is answered with the lock meanwhile.
\<close>

theorem lock_excludes_others:
  assumes "redis_core R view" "lock_key_ok (view s) key"
    and "try_acquire R key opts tok s = (Inr (Some l), s1)" "others_run R tok s1 s2"
  shows "lock_holder (view s2) key = Some tok \<and>
    fst (try_acquire R key opts2 tok2 s2) \<noteq> Inr (Some l2)"
proof -
  have "lock_holder (view s1) key = Some tok"
    by (rule redis_core.try_acquire_gets(2)[OF assms(1,3,2)])
  then have held: "lock_holder (view s2) key = Some tok"
    by (rule redis_core.others_run_keeps[OF assms(1,4)])
  obtain r s3 where r: "try_acquire R key opts2 tok2 s2 = (r, s3)"
    by (cases "try_acquire R key opts2 tok2 s2")
  have "r \<noteq> Inr (Some l2)"
    using redis_core.try_acquire_not_held[OF assms(1), of key opts2 tok2 s2 l2 s3] r held by auto
  with r held show ?thesis by simp
qed

definition two_clients :: mem where
  "two_clients = snd (try_acquire mem_redis ''lock:x'' \<lparr>lo_ttl = 0, lo_watchdog = 0, lo_op_timeout = 0\<rparr> ''a''
     (empty_keyspace, []))"

definition second_try :: "(io_error + lock option) \<times> mem" where
  "second_try = try_acquire mem_redis ''lock:x'' \<lparr>lo_ttl = 0, lo_watchdog = 0, lo_op_timeout = 0\<rparr> ''b'' two_clients"

theorem lock_excludes_others_witness:
  "lock_holder (fst (snd second_try)) ''lock:x'' = Some ''a'' \<and> (\<nexists>l. fst second_try = Inr (Some l))"
proof -
  let ?o = "\<lparr>lo_ttl = 0, lo_watchdog = 0, lo_op_timeout = 0\<rparr>"
  have ok: "lock_key_ok (fst ((empty_keyspace, []) :: mem)) ''lock:x''"
    by (simp add: lock_key_ok_def fun_eq_iff)
  have t: "try_acquire mem_redis ''lock:x'' ?o ''a'' (empty_keyspace, []) =
      (Inr (Some \<lparr>lk_key = ''lock:x'', lk_token = ''a'', lk_options = normalized ?o\<rparr>), two_clients)"
    by (simp add: two_clients_def try_acquire_def set_nx_def roundtrip_def mem_net_def ks_exists_def fun_eq_iff Let_def)
  have "others_run mem_redis ''a'' two_clients (snd second_try)"
    using others_step[OF others_none step_try[of mem_redis "''lock:x''" ?o "''b''" two_clients "fst second_try" "snd second_try"]]
    by (simp add: second_try_def)
  from lock_excludes_others[OF mem.redis_core_axioms ok t this]
    lock_excludes_others[OF mem.redis_core_axioms ok t others_none, of ?o "''b''"]
  show ?thesis by (simp add: second_try_def)
qed

end
