(* ===== verification/Counter_Service.thy ===== *)
theory Counter_Service
  imports Counter_Model Redis_Lock
begin

text \<open>
  \<open>internal/counter/service.go\<close>, \<open>event_publisher.go\<close>, \<open>failure.go\<close>,
  \<open>bitmap_lua.go\<close>, \<open>bitmap_toggle.go\<close>, \<open>bitmap_batch.go\<close> and the bit reads of
  \<open>sds_read.go\<close>. The service holds the Redis commands, the Kafka writer of the
  event producer, the recorder of failed messages, the id generator and the
  tuning values; the services that are not Redis are functions over the same
  world state \<open>'s\<close>. Log lines are dropped.
\<close>

record failed_message =
  fm_stage :: string
  fm_topic :: string
  fm_message_key :: string
  fm_entity_type :: string
  fm_entity_id :: string
  fm_metric :: string
  fm_delta :: int
  fm_payload :: string
  fm_error_message :: string
  fm_retry_count :: int
  fm_status :: string

type_synonym 's kafka_writer = "string \<Rightarrow> string \<Rightarrow> 's \<Rightarrow> (io_error + unit) \<times> 's"

record 's failure_recorder =
  fr_create :: "failed_message \<Rightarrow> 's \<Rightarrow> (io_error + unit) \<times> 's"
  fr_create_batch :: "failed_message list \<Rightarrow> 's \<Rightarrow> (io_error + unit) \<times> 's"
  fr_list_pending :: "int \<Rightarrow> int \<Rightarrow> 's \<Rightarrow> (io_error + (nat \<times> failed_message) option list) \<times> 's"
  fr_update_status :: "nat \<Rightarrow> string \<Rightarrow> string \<Rightarrow> 's \<Rightarrow> (io_error + unit) \<times> 's"

record 's counter_service =
  cs_redis :: "'s redis"
  cs_producer :: "'s kafka_writer option option"
  cs_recorder :: "'s failure_recorder option"
  cs_failure_topic :: string
  cs_next_id :: "('s \<Rightarrow> uint64 \<times> 's) option"
  cs_backoff_base :: int
  cs_backoff_max :: int
  cs_rate :: "(int \<times> int) option"
  cs_likers_max_chunk :: nat
  cs_lock_options :: lock_options

section \<open>Publishing and recording\<close>

definition producer_publish :: "'s kafka_writer option \<Rightarrow> counter_event \<Rightarrow> 's \<Rightarrow> (io_error + unit) \<times> 's" where
  "producer_publish w e s = (case w of
      None \<Rightarrow> (Inl (IoError ''counter kafka writer is nil''), s)
    | Some write \<Rightarrow> write (ce_entity_type e @ colon @ ce_entity_id e) (marshal_counter_event e) s)"

definition failure_error_message :: "io_error option \<Rightarrow> string" where
  "failure_error_message cause = (case cause of
      None \<Rightarrow> []
    | Some (IoError msg) \<Rightarrow> if length msg > 1024 then take 1024 msg else msg)"

definition mark_dirty :: "'s counter_service \<Rightarrow> string \<Rightarrow> string \<Rightarrow> 's \<Rightarrow> (io_error + unit) \<times> 's" where
  "mark_dirty svc et eid s =
     wr (cs_redis svc) (r_sadd (cs_redis svc) dirty_set_key (dirty_member et eid)) s"

text \<open>One SADD (or SREM) with all members; none for the empty list.\<close>

definition mark_dirty_members :: "'s counter_service \<Rightarrow> string list \<Rightarrow> 's \<Rightarrow> (io_error + unit) \<times> 's" where
  "mark_dirty_members svc ms s =
     (if ms = [] then (Inr (), s)
      else wr (cs_redis svc) (fold (r_sadd (cs_redis svc) dirty_set_key) ms) s)"

definition clear_dirty_members :: "'s counter_service \<Rightarrow> string list \<Rightarrow> 's \<Rightarrow> (io_error + unit) \<times> 's" where
  "clear_dirty_members svc ms s =
     (if ms = [] then (Inr (), s)
      else wr (cs_redis svc) (fold (r_srem (cs_redis svc) dirty_set_key) ms) s)"

definition failed_event_record :: "'s counter_service \<Rightarrow> string \<Rightarrow> counter_event \<Rightarrow> io_error option \<Rightarrow> failed_message" where
  "failed_event_record svc stage e cause = \<lparr>
     fm_stage = stage, fm_topic = cs_failure_topic svc,
     fm_message_key = ce_entity_type e @ colon @ ce_entity_id e,
     fm_entity_type = ce_entity_type e, fm_entity_id = ce_entity_id e, fm_metric = ce_metric e,
     fm_delta = ce_delta e, fm_payload = marshal_counter_event e,
     fm_error_message = failure_error_message cause, fm_retry_count = 0, fm_status = ''pending''\<rparr>"

definition record_failed_event ::
  "'s counter_service \<Rightarrow> string \<Rightarrow> counter_event \<Rightarrow> io_error option \<Rightarrow> 's \<Rightarrow> (io_error + unit) \<times> 's" where
  "record_failed_event svc stage e cause s = (case cs_recorder svc of
      None \<Rightarrow> (Inr (), s)
    | Some fr \<Rightarrow> fr_create fr (failed_event_record svc stage e cause) s)"

text \<open>
  \<open>publishCounterEvent\<close>: a failed publish marks the entity dirty and records the
  event; errors of these two steps are only logged.
\<close>

definition publish_counter_event :: "'s counter_service \<Rightarrow> counter_event \<Rightarrow> 's \<Rightarrow> 's" where
  "publish_counter_event svc e s = (case cs_producer svc of
      None \<Rightarrow> s
    | Some w \<Rightarrow>
        (case producer_publish w e s of
           (Inr _, s1) \<Rightarrow> s1
         | (Inl err, s1) \<Rightarrow>
             (let (_, s2) = mark_dirty svc (ce_entity_type e) (ce_entity_id e) s1;
                  (_, s3) = record_failed_event svc ''publish'' e (Some err) s2
              in s3)))"

definition next_message_id :: "'s counter_service \<Rightarrow> 's \<Rightarrow> uint64 \<times> 's" where
  "next_message_id svc s = (case cs_next_id svc of None \<Rightarrow> (0, s) | Some g \<Rightarrow> g s)"

section \<open>Toggling a bit\<close>

text \<open>
  \<open>toggleLua\<close>: bitmap and time index change together inside one script. The
  result is 1 for a change, 0 for none, -1 for an unknown operation.
\<close>

definition toggle_lua ::
  "'s redis \<Rightarrow> string \<Rightarrow> string \<Rightarrow> nat \<Rightarrow> string \<Rightarrow> string \<Rightarrow> int \<Rightarrow> 's \<Rightarrow> int \<times> 's" where
  "toggle_lua R bm z off op member now s =
    (let prev = r_getbit R bm off s in
     if op = ''add'' then
       (if prev then (0, s)
        else (let s1 = r_setbit R bm off True s; s2 = r_zadd R z now member s1 in (1, s2)))
     else if op = ''remove'' then
       (if \<not> prev then (0, s)
        else (let s1 = r_setbit R bm off False s; s2 = r_zrem R z member s1 in (1, s2)))
     else (-1, s))"

definition toggle_event :: "uint64 \<Rightarrow> string \<Rightarrow> string \<Rightarrow> string \<Rightarrow> uint64 \<Rightarrow> int \<Rightarrow> counter_event" where
  "toggle_event mid et eid metric u d = \<lparr>ce_message_id = mid, ce_entity_type = et, ce_entity_id = eid,
     ce_metric = metric, ce_index = NameToIdx metric, ce_user_id = u, ce_delta = d\<rparr>"

definition toggle ::
  "'s counter_service \<Rightarrow> int \<Rightarrow> uint64 \<Rightarrow> string \<Rightarrow> string \<Rightarrow> string \<Rightarrow> string \<Rightarrow> 's \<Rightarrow> (io_error + bool) \<times> 's" where
  "toggle svc now u et eid metric op s =
    (case roundtrip (cs_redis svc)
            (toggle_lua (cs_redis svc) (bitmap_key metric et eid (chunk_of u)) (likers_zset_key metric et eid)
               (unat (bit_of u)) op (format_uint u) now) s of
       (Inl e, s1) \<Rightarrow> (Inl e, s1)
     | (Inr changed, s1) \<Rightarrow>
         if changed = 1 then
           (let d = (if op = ''remove'' then -1 else 1);
                (mid, s2) = next_message_id svc s1;
                ev = toggle_event mid et eid metric u d
            in case cs_producer svc of
                 None \<Rightarrow> (Inr True, s2)
               | Some _ \<Rightarrow> (Inr True, publish_counter_event svc ev s2))
         else (Inr False, s1))"

definition like_op :: "'s counter_service \<Rightarrow> int \<Rightarrow> uint64 \<Rightarrow> string \<Rightarrow> string \<Rightarrow> 's \<Rightarrow> (io_error + bool) \<times> 's" where
  "like_op svc now u et eid = toggle svc now u et eid ''like'' ''add''"

definition unlike_op :: "'s counter_service \<Rightarrow> int \<Rightarrow> uint64 \<Rightarrow> string \<Rightarrow> string \<Rightarrow> 's \<Rightarrow> (io_error + bool) \<times> 's" where
  "unlike_op svc now u et eid = toggle svc now u et eid ''like'' ''remove''"

definition fav_op :: "'s counter_service \<Rightarrow> int \<Rightarrow> uint64 \<Rightarrow> string \<Rightarrow> string \<Rightarrow> 's \<Rightarrow> (io_error + bool) \<times> 's" where
  "fav_op svc now u et eid = toggle svc now u et eid ''fav'' ''add''"

definition unfav_op :: "'s counter_service \<Rightarrow> int \<Rightarrow> uint64 \<Rightarrow> string \<Rightarrow> string \<Rightarrow> 's \<Rightarrow> (io_error + bool) \<times> 's" where
  "unfav_op svc now u et eid = toggle svc now u et eid ''fav'' ''remove''"

section \<open>Reading bits\<close>

definition read_bit :: "'s counter_service \<Rightarrow> string \<Rightarrow> uint64 \<Rightarrow> string \<Rightarrow> string \<Rightarrow> 's \<Rightarrow> (io_error + bool) \<times> 's" where
  "read_bit svc metric u et eid s =
     rd (cs_redis svc) (r_getbit (cs_redis svc) (bitmap_key metric et eid (chunk_of u)) (unat (bit_of u))) s"

definition IsLiked :: "'s counter_service \<Rightarrow> uint64 \<Rightarrow> string \<Rightarrow> string \<Rightarrow> 's \<Rightarrow> (io_error + bool) \<times> 's" where
  "IsLiked svc = read_bit svc ''like''"

definition IsFaved :: "'s counter_service \<Rightarrow> uint64 \<Rightarrow> string \<Rightarrow> string \<Rightarrow> 's \<Rightarrow> (io_error + bool) \<times> 's" where
  "IsFaved svc = read_bit svc ''fav''"

text \<open>One pipeline with both bits.\<close>

definition IsLikedAndFaved ::
  "'s counter_service \<Rightarrow> uint64 \<Rightarrow> string \<Rightarrow> string \<Rightarrow> 's \<Rightarrow> (io_error + bool \<times> bool) \<times> 's" where
  "IsLikedAndFaved svc u et eid s =
     rd (cs_redis svc) (\<lambda>s. (r_getbit (cs_redis svc) (bitmap_key ''like'' et eid (chunk_of u)) (unat (bit_of u)) s,
                             r_getbit (cs_redis svc) (bitmap_key ''fav'' et eid (chunk_of u)) (unat (bit_of u)) s)) s"

text \<open>
  \<open>batchGetBit\<close>: one pipeline for all ids. Go returns a nil map for no ids; a
  map is an association list in the order of the ids, where a later entry of
  the same id has the same value.
\<close>

definition batch_get_bit ::
  "'s counter_service \<Rightarrow> uint64 \<Rightarrow> string \<Rightarrow> string list \<Rightarrow> string \<Rightarrow> 's \<Rightarrow> (io_error + (string \<times> bool) list) \<times> 's" where
  "batch_get_bit svc u et eids metric s =
    (if eids = [] then (Inr [], s)
     else rd (cs_redis svc) (\<lambda>s. map (\<lambda>eid. (eid,
            r_getbit (cs_redis svc) (bitmap_key metric et eid (chunk_of u)) (unat (bit_of u)) s)) eids) s)"

definition BatchIsLiked ::
  "'s counter_service \<Rightarrow> uint64 \<Rightarrow> string \<Rightarrow> string list \<Rightarrow> 's \<Rightarrow> (io_error + (string \<times> bool) list) \<times> 's" where
  "BatchIsLiked svc u et eids = batch_get_bit svc u et eids ''like''"

definition BatchIsFaved ::
  "'s counter_service \<Rightarrow> uint64 \<Rightarrow> string \<Rightarrow> string list \<Rightarrow> 's \<Rightarrow> (io_error + (string \<times> bool) list) \<times> 's" where
  "BatchIsFaved svc u et eids = batch_get_bit svc u et eids ''fav''"

section \<open>The contract of the surrounding services\<close>

text \<open>
  Kafka, MySQL and the id generator are not Redis: using them leaves the
  keyspace alone.
\<close>

locale counter_world = redis_server "cs_redis svc" view
  for svc :: "'s counter_service" and view +
  assumes writer_view: "cs_producer svc = Some (Some w) \<Longrightarrow> view (snd (w k v s)) = view s"
    and create_view: "cs_recorder svc = Some fr \<Longrightarrow> view (snd (fr_create fr m s)) = view s"
    and create_batch_view: "cs_recorder svc = Some fr \<Longrightarrow> view (snd (fr_create_batch fr ms s)) = view s"
    and list_pending_view: "cs_recorder svc = Some fr \<Longrightarrow> view (snd (fr_list_pending fr lim off s)) = view s"
    and update_status_view: "cs_recorder svc = Some fr \<Longrightarrow> view (snd (fr_update_status fr i st msg s)) = view s"
    and next_id_view: "cs_next_id svc = Some g \<Longrightarrow> view (snd (g s)) = view s"
begin

lemma liked_set_toggle:
  "liked_set (ks_setbit (bitmap_key metric et eid (chunk_of u)) (unat (bit_of u)) b ks) metric et eid =
     (if b then insert u (liked_set ks metric et eid) else liked_set ks metric et eid - {u})"
  by (auto simp: liked_set_def dest: user_address_inj split: if_splits)

text \<open>Publishing can only touch the dirty set.\<close>

lemma next_message_id_view: "view (snd (next_message_id svc s)) = view s"
  by (auto simp: next_message_id_def next_id_view split: option.splits)

lemma record_failed_event_view: "view (snd (record_failed_event svc st e c s)) = view s"
  by (auto simp: record_failed_event_def create_view split: option.splits)

lemma producer_publish_view:
  "cs_producer svc = Some w \<Longrightarrow> view (snd (producer_publish w e s)) = view s"
  by (auto simp: producer_publish_def writer_view split: option.splits)

lemma mark_dirty_view:
  "view (snd (mark_dirty svc et eid s)) = view s \<or>
   view (snd (mark_dirty svc et eid s)) = ks_supd dirty_set_key (insert (dirty_member et eid)) (view s)"
proof -
  obtain r s' where "mark_dirty svc et eid s = (r, s')" by (cases "mark_dirty svc et eid s")
  then show ?thesis
    by (auto simp: mark_dirty_def wr_def elim!: roundtrip_cases)
qed

lemma publish_view:
  "view (publish_counter_event svc e s) = view s \<or>
   view (publish_counter_event svc e s) =
     ks_supd dirty_set_key (insert (dirty_member (ce_entity_type e) (ce_entity_id e))) (view s)"
proof (cases "cs_producer svc")
  case None
  then show ?thesis by (simp add: publish_counter_event_def)
next
  case (Some w)
  obtain r s1 where p: "producer_publish w e s = (r, s1)" by (cases "producer_publish w e s")
  with producer_publish_view[OF Some, of e s] have v1: "view s1 = view s" by simp
  obtain m s2 where m: "mark_dirty svc (ce_entity_type e) (ce_entity_id e) s1 = (m, s2)"
    by (cases "mark_dirty svc (ce_entity_type e) (ce_entity_id e) s1")
  with mark_dirty_view[of "ce_entity_type e" "ce_entity_id e" s1] v1
  have v2: "view s2 = view s \<or>
      view s2 = ks_supd dirty_set_key (insert (dirty_member (ce_entity_type e) (ce_entity_id e))) (view s)"
    by simp
  show ?thesis
  proof (cases r)
    case (Inr x)
    with p Some v1 show ?thesis by (simp add: publish_counter_event_def)
  next
    case (Inl err)
    obtain q s3 where q: "record_failed_event svc ''publish'' e (Some err) s2 = (q, s3)"
      by (cases "record_failed_event svc ''publish'' e (Some err) s2")
    with record_failed_event_view[of "''publish''" e "Some err" s2] have "view s3 = view s2" by simp
    with p Some m q Inl v2 show ?thesis by (simp add: publish_counter_event_def)
  qed
qed

lemma publish_frame:
  "ks_bit (view (publish_counter_event svc e s)) = ks_bit (view s)"
  "ks_zset (view (publish_counter_event svc e s)) = ks_zset (view s)"
  "ks_hash (view (publish_counter_event svc e s)) = ks_hash (view s)"
  "ks_str (view (publish_counter_event svc e s)) = ks_str (view s)"
  using publish_view[of e s] by auto

end

end
