(* ===== verification/Counter_Toggle.thy ===== *)
theory Counter_Toggle
  imports Counter_Service
begin

text \<open>
  What \<open>Like/Unlike/Fav/Unfav\<close> and the bit reads promise: a toggle is set
  insertion or removal on the users of a metric, it reports exactly the real
  changes, the time index follows the bitmap in every outcome of the call, and
  the deltas it reports add up to the change of the cardinality.
\<close>

definition toggled :: "string \<Rightarrow> uint64 \<Rightarrow> uint64 set \<Rightarrow> uint64 set" where
  "toggled op u L = (if op = ''add'' then insert u L else if op = ''remove'' then L - {u} else L)"

definition toggle_changes :: "string \<Rightarrow> uint64 \<Rightarrow> uint64 set \<Rightarrow> bool" where
  "toggle_changes op u L = (op = ''add'' \<and> u \<notin> L \<or> op = ''remove'' \<and> u \<in> L)"

definition index_sync :: "keyspace \<Rightarrow> string \<Rightarrow> string \<Rightarrow> string \<Rightarrow> bool" where
  "index_sync ks metric et eid =
     (zs_ok (ks_zset ks (likers_zset_key metric et eid)) \<and>
      fst ` set (ks_zset ks (likers_zset_key metric et eid)) = format_uint ` liked_set ks metric et eid)"

text \<open>The delta a toggle reports, and a run of toggles on one entity.\<close>

definition reported_delta :: "string \<Rightarrow> io_error + bool \<Rightarrow> int" where
  "reported_delta op r = (case r of Inr True \<Rightarrow> (if op = ''remove'' then -1 else 1) | _ \<Rightarrow> 0)"

fun toggle_all ::
  "'s counter_service \<Rightarrow> int \<Rightarrow> string \<Rightarrow> string \<Rightarrow> string \<Rightarrow> (uint64 \<times> string) list \<Rightarrow> 's \<Rightarrow> int \<times> 's" where
  "toggle_all svc now et eid metric [] s = (0, s)"
| "toggle_all svc now et eid metric ((u, op) # xs) s =
     (let (r, s1) = toggle svc now u et eid metric op s;
          (d, s2) = toggle_all svc now et eid metric xs s1
      in (reported_delta op r + d, s2))"

lemma member_liked_set:
  "u \<in> liked_set ks metric et eid \<longleftrightarrow>
   ks_bit ks (bitmap_key metric et eid (chunk_of u)) (unat (bit_of u))"
  by (simp add: liked_set_def)

lemma liked_set_cong:
  "ks_bit ks = ks_bit ks' \<Longrightarrow> liked_set ks metric et eid = liked_set ks' metric et eid"
  by (simp add: liked_set_def)

text \<open>The reported delta is the change of the cardinality.\<close>

lemma card_toggled:
  fixes L :: "uint64 set"
  shows "int (card (toggled op u L)) = int (card L) + reported_delta op (Inr (toggle_changes op u L))"
proof (cases "op = ''add'' \<and> u \<notin> L \<or> op = ''remove'' \<and> u \<in> L")
  case True
  have "card L > 0" if "u \<in> L" using that card_gt_0_iff[of L] by auto
  with True show ?thesis
    by (auto simp: toggled_def reported_delta_def toggle_changes_def card_Diff_singleton of_nat_diff)
next
  case False
  then have "toggled op u L = L" "\<not> toggle_changes op u L" by (auto simp: toggled_def toggle_changes_def)
  then show ?thesis by (simp add: reported_delta_def)
qed

lemma index_sync_cong:
  "ks_bit ks = ks_bit ks' \<Longrightarrow> ks_zset ks = ks_zset ks' \<Longrightarrow> index_sync ks m et eid = index_sync ks' m et eid"
  by (simp add: index_sync_def liked_set_cong[of ks ks'])

context counter_world
begin

text \<open>The script in one equation: nothing, or bit and index together.\<close>

lemma toggle_lua_view:
  assumes "toggle_lua (cs_redis svc) (bitmap_key metric et eid (chunk_of u)) z (unat (bit_of u)) op m now s = (c, s')"
  shows "c = 1 \<longleftrightarrow> toggle_changes op u (liked_set (view s) metric et eid)"
    and "view s' = (if toggle_changes op u (liked_set (view s) metric et eid)
      then ks_zupd z (if op = ''add'' then zs_add m now else zs_rem m)
             (ks_setbit (bitmap_key metric et eid (chunk_of u)) (unat (bit_of u)) (op = ''add'') (view s))
      else view s)"
  using assms by (auto simp: toggle_lua_def toggle_changes_def member_liked_set Let_def split: if_splits)

lemma index_sync_set:
  assumes "index_sync ks metric et eid"
  shows "index_sync (ks_zupd (likers_zset_key metric et eid) (if b then zs_add (format_uint u) now else zs_rem (format_uint u))
    (ks_setbit (bitmap_key metric et eid (chunk_of u)) (unat (bit_of u)) b ks)) metric et eid"
proof -
  let ?Z = "ks_zset ks (likers_zset_key metric et eid)"
  have "format_uint ` (L - {u}) = format_uint ` L - {format_uint u}" for L
    by auto
  moreover have "fst ` {p \<in> set Z. fst p \<noteq> x} = fst ` set Z - {x}" for Z :: zset and x
    by auto
  ultimately show ?thesis
    using assms by (auto simp: index_sync_def liked_set_cong[OF ks_bit_frame(1)] liked_set_toggle)
qed

lemma toggle_lua_effect:
  assumes "toggle_lua (cs_redis svc) (bitmap_key metric et eid (chunk_of u)) (likers_zset_key metric et eid)
    (unat (bit_of u)) op (format_uint u) now s = (c, s')"
  shows "liked_set (view s') metric et eid = toggled op u (liked_set (view s) metric et eid)"
    and "k \<noteq> bitmap_key metric et eid (chunk_of u) \<Longrightarrow> ks_bit (view s') k off = ks_bit (view s) k off"
    and "index_sync (view s) metric et eid \<Longrightarrow> index_sync (view s') metric et eid"
proof -
  note v = toggle_lua_view(2)[OF assms]
  show "liked_set (view s') metric et eid = toggled op u (liked_set (view s) metric et eid)"
    unfolding v by (auto simp: liked_set_cong[OF ks_bit_frame(1)] liked_set_toggle toggle_changes_def toggled_def)
  show "k \<noteq> bitmap_key metric et eid (chunk_of u) \<Longrightarrow> ks_bit (view s') k off = ks_bit (view s) k off"
    unfolding v by simp
  show "index_sync (view s) metric et eid \<Longrightarrow> index_sync (view s') metric et eid"
    unfolding v using index_sync_set[of "view s" metric et eid "op = ''add''" u now]
    by (cases "op = ''add''") simp_all
qed

text \<open>Every outcome of a toggle: the script ran, or nothing happened and the caller has an error.\<close>

lemma toggle_cases:
  assumes "toggle svc now u et eid metric op s = (r, s')"
  obtains (ran) s1 c s2 where "view s1 = view s"
      "toggle_lua (cs_redis svc) (bitmap_key metric et eid (chunk_of u)) (likers_zset_key metric et eid)
         (unat (bit_of u)) op (format_uint u) now s1 = (c, s2)"
      "ks_bit (view s') = ks_bit (view s2)" "ks_zset (view s') = ks_zset (view s2)"
      "is_ok r \<Longrightarrow> r = Inr (c = 1)" "ks_str (view s') = ks_str (view s2)"
  | (unsent) e where "r = Inl e" "view s' = view s"
proof -
  let ?f = "toggle_lua (cs_redis svc) (bitmap_key metric et eid (chunk_of u))
    (likers_zset_key metric et eid) (unat (bit_of u)) op (format_uint u) now"
  obtain x s2 where rt: "roundtrip (cs_redis svc) ?f s = (x, s2)"
    by (cases "roundtrip (cs_redis svc) ?f s")
  then show thesis
  proof (cases rule: roundtrip_cases)
    case (ok c s1)
    show thesis
    proof (rule ran [of s1 c s2])
      show "ks_bit (view s') = ks_bit (view s2)" "ks_zset (view s') = ks_zset (view s2)"
        "ks_str (view s') = ks_str (view s2)"
        using assms rt ok next_message_id_view[of s2]
        by (auto simp: toggle_def Let_def publish_frame split: if_splits prod.splits option.splits)
      show "r = Inr (c = 1)"
        using assms rt ok by (auto simp: toggle_def Let_def split: if_splits prod.splits option.splits)
    qed (use ok in auto)
  next
    case (unsent e)
    then show thesis using assms rt that(2) by (auto simp: toggle_def)
  next
    case (lost e s1 c)
    show thesis
      by (rule ran [of s1 c s2]) (use lost assms rt in \<open>auto simp: toggle_def\<close>)
  qed
qed

lemma toggle_ok:
  assumes "toggle svc now u et eid metric op s = (Inr changed, s')"
  shows "liked_set (view s') metric et eid = toggled op u (liked_set (view s) metric et eid)"
    and "changed = toggle_changes op u (liked_set (view s) metric et eid)"
    and "k \<noteq> bitmap_key metric et eid (chunk_of u) \<Longrightarrow> ks_bit (view s') k off = ks_bit (view s) k off"
proof -
  obtain s1 c s2 where ran: "view s1 = view s"
    "toggle_lua (cs_redis svc) (bitmap_key metric et eid (chunk_of u)) (likers_zset_key metric et eid)
       (unat (bit_of u)) op (format_uint u) now s1 = (c, s2)"
    "ks_bit (view s') = ks_bit (view s2)" "changed = (c = 1)"
    using assms by (cases rule: toggle_cases) auto
  have "liked_set (view s') metric et eid = liked_set (view s2) metric et eid"
    by (rule liked_set_cong, rule ran(3))
  then show "liked_set (view s') metric et eid = toggled op u (liked_set (view s) metric et eid)"
    using toggle_lua_effect(1)[OF ran(2)] ran(1) by simp
  show "changed = toggle_changes op u (liked_set (view s) metric et eid)"
    using toggle_lua_view(1)[OF ran(2)] ran(1,4) by simp
  show "k \<noteq> bitmap_key metric et eid (chunk_of u) \<Longrightarrow> ks_bit (view s') k off = ks_bit (view s) k off"
    using toggle_lua_effect(2)[OF ran(2)] ran(1,3) by simp
qed

lemma toggle_atomic:
  assumes "toggle svc now u et eid metric op s = (r, s')"
  shows "liked_set (view s') metric et eid \<in>
      {liked_set (view s) metric et eid, toggled op u (liked_set (view s) metric et eid)}"
    and "index_sync (view s) metric et eid \<Longrightarrow> index_sync (view s') metric et eid"
  using assms
proof (atomize(full), cases rule: toggle_cases)
  case (ran s1 c s2)
  note eff = toggle_lua_effect(1,3)[OF ran(2)]
  have "liked_set (view s') metric et eid = liked_set (view s2) metric et eid"
    "index_sync (view s') metric et eid = index_sync (view s2) metric et eid"
    by (intro liked_set_cong index_sync_cong ran(3,4))+
  with eff ran(1) show "liked_set (view s') metric et eid \<in>
      {liked_set (view s) metric et eid, toggled op u (liked_set (view s) metric et eid)} \<and>
      (index_sync (view s) metric et eid \<longrightarrow> index_sync (view s') metric et eid)" by simp
next
  case (unsent e)
  then show "liked_set (view s') metric et eid \<in>
      {liked_set (view s) metric et eid, toggled op u (liked_set (view s) metric et eid)} \<and>
      (index_sync (view s) metric et eid \<longrightarrow> index_sync (view s') metric et eid)" by simp
qed

lemma batch_get_bit_ok:
  "batch_get_bit svc u et eids metric s = (Inr m, s') \<Longrightarrow>
   m = map (\<lambda>eid. (eid, u \<in> liked_set (view s) metric et eid)) eids \<and> view s' = view s"
  by (auto simp: batch_get_bit_def member_liked_set split: if_splits dest!: rd_Inr)

lemma liked_and_faved_ok:
  "IsLikedAndFaved svc u et eid s = (Inr p, s') \<Longrightarrow>
   p = (u \<in> liked_set (view s) ''like'' et eid, u \<in> liked_set (view s) ''fav'' et eid)"
  by (auto simp: IsLikedAndFaved_def member_liked_set dest!: rd_Inr)

end

locale counter_world_up = counter_world svc view + redis_up "cs_redis svc" view
  for svc :: "'s counter_service" and view
begin

lemma toggle_up: "is_ok (fst (toggle svc now u et eid metric op s))"
proof -
  let ?f = "toggle_lua (cs_redis svc) (bitmap_key metric et eid (chunk_of u))
    (likers_zset_key metric et eid) (unat (bit_of u)) op (format_uint u) now"
  obtain s1 where "roundtrip (cs_redis svc) ?f s = (Inr (fst (?f s1)), snd (?f s1))"
    by (rule roundtrip_upE)
  then show ?thesis
    by (auto simp: toggle_def Let_def split: prod.splits option.splits if_splits)
qed

lemma toggle_all_sum:
  "toggle_all svc now et eid metric xs s = (d, s') \<Longrightarrow>
   int (card (liked_set (view s') metric et eid)) = int (card (liked_set (view s) metric et eid)) + d"
proof (induction xs arbitrary: s d s')
  case Nil
  then show ?case by simp
next
  case (Cons x xs)
  obtain u op where x: "x = (u, op)" by (cases x)
  obtain r s1 where t: "toggle svc now u et eid metric op s = (r, s1)"
    by (cases "toggle svc now u et eid metric op s")
  with toggle_up[of now u et eid metric op s] obtain ch where r: "r = Inr ch" by auto
  obtain d2 s2 where rest: "toggle_all svc now et eid metric xs s1 = (d2, s2)"
    by (cases "toggle_all svc now et eid metric xs s1")
  let ?L = "liked_set (view s) metric et eid"
  from Cons.prems x t rest have "d = reported_delta op r + d2" "s' = s2" by auto
  with Cons.IH[OF rest] toggle_ok(1,2)[OF t[unfolded r]] card_toggled[of op u ?L] r show ?case by simp
qed

end

section \<open>A service over the in-memory server\<close>

definition mem_service :: "mem counter_service" where
  "mem_service = \<lparr>cs_redis = up_redis, cs_producer = Some (Some (\<lambda>k v s. (Inr (), s))), cs_recorder = None,
     cs_failure_topic = ''counter-events'', cs_next_id = None, cs_backoff_base = 500,
     cs_backoff_max = 30000, cs_rate = Some (10, 3), cs_likers_max_chunk = 128,
     cs_lock_options = \<lparr>lo_ttl = 10000, lo_watchdog = 3333, lo_op_timeout = 1000\<rparr>\<rparr>"

lemma mem_service_sel [simp]:
  "cs_redis mem_service = up_redis" "cs_producer mem_service = Some (Some (\<lambda>k v s. (Inr (), s)))"
  "cs_recorder mem_service = None" "cs_next_id mem_service = None"
  "cs_backoff_base mem_service = 500" "cs_backoff_max mem_service = 30000"
  "cs_rate mem_service = Some (10, 3)" "cs_likers_max_chunk mem_service = 128"
  by (simp_all add: mem_service_def)

interpretation mem_svc: counter_world_up mem_service fst
proof -
  have "redis_up (cs_redis mem_service) fst" using up.redis_up_axioms by simp
  then show "counter_world_up mem_service fst"
    by (auto simp: counter_world_up_def counter_world_def counter_world_axioms_def redis_up_def)
qed

section \<open>Properties\<close>

text \<open>
  C3: a toggle that returns is set insertion (add) or removal (remove) on the
  users who toggled the metric of the entity; it reports a change exactly when
  the set changed; no bit of another shard key moves.
\<close>

theorem toggle_refines_set:
  assumes "counter_world svc view" "toggle svc now u et eid metric op s = (Inr changed, s')"
  shows "liked_set (view s') metric et eid = toggled op u (liked_set (view s) metric et eid) \<and>
    changed = toggle_changes op u (liked_set (view s) metric et eid) \<and>
    (\<forall>k off. k \<noteq> bitmap_key metric et eid (chunk_of u) \<longrightarrow> ks_bit (view s') k off = ks_bit (view s) k off)"
  using counter_world.toggle_ok[OF assms] by simp

definition one_like :: "(io_error + bool) \<times> mem" where
  "one_like = toggle mem_service 7 70001 ''post'' ''9'' ''like'' ''add'' (empty_keyspace, [])"

lemma one_like_ok: "\<exists>c s'. one_like = (Inr c, s')"
  using mem_svc.toggle_up[of 7 70001 "''post''" "''9''" "''like''" "''add''" "(empty_keyspace, [])"]
  unfolding one_like_def by (metis is_okE prod.collapse)

lemma liked_set_empty [simp]: "liked_set empty_keyspace m et eid = {}"
  by (simp add: liked_set_def)

theorem toggle_refines_set_witness:
  "fst one_like = Inr True \<and> liked_set (fst (snd one_like)) ''like'' ''post'' ''9'' = {70001}"
proof -
  obtain c s' where e: "one_like = (Inr c, s')" using one_like_ok by blast
  note t = toggle_refines_set[OF mem_svc.counter_world_axioms e[unfolded one_like_def]]
  have "c" and "liked_set (fst s') ''like'' ''post'' ''9'' = {70001}"
    using t by (auto simp: toggled_def toggle_changes_def)
  then show ?thesis unfolding e by simp
qed

text \<open>
  Whatever the outcome of a toggle, a lost request or a lost reply included,
  the users of the metric are as before or as after the whole toggle, and the
  time index of the entity never departs from the bitmap.
\<close>

theorem toggle_all_or_nothing:
  assumes "counter_world svc view" "toggle svc now u et eid metric op s = (r, s')"
  shows "liked_set (view s') metric et eid \<in>
      {liked_set (view s) metric et eid, toggled op u (liked_set (view s) metric et eid)} \<and>
    (index_sync (view s) metric et eid \<longrightarrow> index_sync (view s') metric et eid)"
  using counter_world.toggle_atomic[OF assms] by simp

text \<open>A toggle over a network that loses the reply of its first call.\<close>

definition faulty_service :: "mem counter_service" where
  "faulty_service = mem_service\<lparr>cs_redis := mem_redis\<rparr>"

lemma faulty_service_sel [simp]:
  "cs_redis faulty_service = mem_redis" "cs_producer faulty_service = cs_producer mem_service"
  "cs_recorder faulty_service = None" "cs_next_id faulty_service = None"
  by (simp_all add: faulty_service_def)

interpretation faulty: counter_world faulty_service fst
proof -
  have "redis_server (cs_redis faulty_service) fst" using mem.redis_server_axioms by simp
  then show "counter_world faulty_service fst"
    by (auto simp: counter_world_def counter_world_axioms_def)
qed

definition lost_reply :: "(io_error + bool) \<times> mem" where
  "lost_reply = toggle faulty_service 7 70001 ''post'' ''9'' ''like'' ''add''
     (empty_keyspace, [ReplyLost (IoError ''timeout'')])"

theorem toggle_all_or_nothing_witness:
  "fst lost_reply = Inl (IoError ''timeout'') \<and>
   liked_set (fst (snd lost_reply)) ''like'' ''post'' ''9'' \<in> {{}, {70001}} \<and>
   index_sync (fst (snd lost_reply)) ''like'' ''post'' ''9''"
proof -
  obtain r s' where e: "lost_reply = (r, s')" by (cases lost_reply)
  then have r: "r = Inl (IoError ''timeout'')"
    by (simp add: lost_reply_def toggle_def roundtrip_def mem_net_def)
  have "index_sync empty_keyspace ''like'' ''post'' ''9''"
    by (simp add: index_sync_def zs_ok_def)
  with toggle_all_or_nothing[OF faulty.counter_world_axioms e[unfolded lost_reply_def]]
  show ?thesis unfolding e r by (simp add: toggled_def)
qed

text \<open>
  Over a server that answers, the deltas reported by any run of likes,
  unlikes, favourites and removals add up to the change of the number of users.
\<close>

theorem toggle_deltas_sum:
  assumes "counter_world_up svc view" "toggle_all svc now et eid metric ops s = (d, s')"
  shows "int (card (liked_set (view s') metric et eid)) = int (card (liked_set (view s) metric et eid)) + d"
  by (rule counter_world_up.toggle_all_sum[OF assms])

definition three_toggles :: "int \<times> mem" where
  "three_toggles = toggle_all mem_service 7 ''post'' ''9'' ''like''
     [(5, ''add''), (5, ''add''), (6, ''add''), (5, ''remove'')] (empty_keyspace, [])"

theorem toggle_deltas_sum_witness:
  "int (card (liked_set (fst (snd three_toggles)) ''like'' ''post'' ''9'')) = fst three_toggles"
proof -
  obtain d s' where e: "three_toggles = (d, s')" by (cases three_toggles)
  show ?thesis
    using toggle_deltas_sum[OF mem_svc.counter_world_up_axioms e[unfolded three_toggles_def]]
    unfolding e by simp
qed

text \<open>
  A batch read answers, for every id asked and in their order, whether the
  user's bit is set, and changes nothing.
\<close>

theorem batch_reads_exact:
  assumes "counter_world svc view" "batch_get_bit svc u et eids metric s = (Inr m, s')"
  shows "m = map (\<lambda>eid. (eid, u \<in> liked_set (view s) metric et eid)) eids \<and> view s' = view s"
  by (rule counter_world.batch_get_bit_ok[OF assms])

definition liked_nine :: mem where
  "liked_nine = (ks_setbit (bitmap_key ''like'' ''post'' ''9'' (chunk_of 3)) (unat (bit_of 3)) True empty_keyspace, [])"

theorem batch_reads_exact_witness:
  "\<exists>m s'. BatchIsLiked mem_service 3 ''post'' [''9'', ''8''] liked_nine = (Inr m, s') \<and>
     m = [(''9'', True), (''8'', False)]"
proof -
  obtain m s' where e: "batch_get_bit mem_service 3 ''post'' [''9'', ''8''] ''like'' liked_nine = (Inr m, s')"
    by (simp add: batch_get_bit_def rd_def roundtrip_def)
  have "bitmap_key ''like'' ''post'' ''8'' c \<noteq> bitmap_key ''like'' ''post'' ''9'' c'" for c c'
    by (simp add: bitmap_key_def)
  then have set: "liked_set (fst liked_nine) ''like'' ''post'' ''9'' = {3}"
    "liked_set (fst liked_nine) ''like'' ''post'' ''8'' = {}"
    by (auto simp: liked_nine_def member_liked_set dest: user_address_inj split: if_splits)
  from batch_reads_exact[OF mem_svc.counter_world_axioms e] e show ?thesis
    by (auto simp: set BatchIsLiked_def)
qed

end
