(* ===== verification/Counter_Snapshot.thy ===== *)
theory Counter_Snapshot
  imports Counter_Toggle
begin

text \<open>
  \<open>internal/counter/sds_read.go\<close>, \<open>sds_rebuild.go\<close>, \<open>repair_backoff.go\<close>,
  \<open>repair_rate_limit.go\<close>, \<open>consumer_lock_policy.go\<close> and the configuration
  helpers of \<open>service.go\<close>: reading the counters of an entity from its hash and
  rebuilding the hash from the bitmaps. Times are in milliseconds. The
  goroutines of \<open>buildSnapshotFromBitmap\<close> only read; they run here in the order
  of the slots. A Go map from metrics to counts is the list of its entries.
\<close>

section \<open>Configuration\<close>

record rebuild_config =
  rc_lock_ttl_ms :: int
  rc_lock_watchdog_ms :: int
  rc_base_ms :: int
  rc_max_ms :: int
  rc_permits :: int
  rc_window_seconds :: int
  rc_likers_max_chunk :: int

definition rebuild_lock_options :: "rebuild_config option \<Rightarrow> lock_options" where
  "rebuild_lock_options cfg =
    (let lease = (case cfg of
           None \<Rightarrow> 10000
         | Some c \<Rightarrow> (let ttl = (if rc_lock_watchdog_ms c > rc_lock_ttl_ms c then rc_lock_watchdog_ms c else rc_lock_ttl_ms c)
                     in if ttl > 0 then ttl else 10000))
     in \<lparr>lo_ttl = lease, lo_watchdog = lease div 3, lo_op_timeout = 1000\<rparr>)"

definition counter_repair_lock_options :: lock_options where
  "counter_repair_lock_options = \<lparr>lo_ttl = 5000, lo_watchdog = 5000 div 3, lo_op_timeout = 1000\<rparr>"

definition backoff_config :: "rebuild_config option \<Rightarrow> int \<times> int" where
  "backoff_config cfg = (case cfg of Some c \<Rightarrow> (rc_base_ms c, rc_max_ms c) | None \<Rightarrow> (500, 30000))"

definition rebuild_rate_config :: "rebuild_config option \<Rightarrow> int \<times> int" where
  "rebuild_rate_config cfg = (case cfg of Some c \<Rightarrow> (rc_window_seconds c, rc_permits c) | None \<Rightarrow> (10, 3))"

definition default_max_chunk :: nat where "default_max_chunk = 128"

definition likers_max_chunk :: "rebuild_config option \<Rightarrow> nat" where
  "likers_max_chunk cfg = (case cfg of
      Some c \<Rightarrow> if rc_likers_max_chunk c > 0 then nat (rc_likers_max_chunk c) else default_max_chunk
    | None \<Rightarrow> default_max_chunk)"

section \<open>Backoff and rate limit\<close>

definition backoff_key :: "string \<Rightarrow> string \<Rightarrow> string" where
  "backoff_key et eid = ''backoff:sds-rebuild:until:'' @ et @ colon @ eid"

definition backoff_exp_key :: "string \<Rightarrow> string \<Rightarrow> string" where
  "backoff_exp_key et eid = ''backoff:sds-rebuild:exp:'' @ et @ colon @ eid"

definition rate_limiter_key :: "string \<Rightarrow> string \<Rightarrow> string" where
  "rate_limiter_key et eid = ''rl:sds-rebuild:'' @ et @ colon @ eid"

text \<open>The error of an absent key or of a value that does not parse counts as no backoff.\<close>

definition in_backoff :: "'s counter_service \<Rightarrow> int \<Rightarrow> string \<Rightarrow> string \<Rightarrow> 's \<Rightarrow> bool \<times> 's" where
  "in_backoff svc now et eid s =
    (case rd (cs_redis svc) (r_get (cs_redis svc) (backoff_key et eid)) s of
       (Inr (Some v), s1) \<Rightarrow> ((case parse_int v of None \<Rightarrow> False | Some until \<Rightarrow> now < until), s1)
     | (_, s1) \<Rightarrow> (False, s1))"

text \<open>\<open>int64(BaseMs) << attempts\<close>, then the cap: the shift drops the high bits.\<close>

definition backoff_ms :: "int \<Rightarrow> int \<Rightarrow> int \<Rightarrow> int" where
  "backoff_ms base cap attempts =
    (let n = (if attempts > 62 then 62 else attempts);
         ms = sint (push_bit (nat n) (of_int base :: 64 word))
     in if ms > cap then cap else ms)"

definition backoff_key_ttl :: int where "backoff_key_ttl = 120 * 60000"

definition escalate_backoff :: "'s counter_service \<Rightarrow> int \<Rightarrow> string \<Rightarrow> string \<Rightarrow> 's \<Rightarrow> 's" where
  "escalate_backoff svc now et eid s =
    (let R = cs_redis svc;
         (v, s1) = rd R (r_get R (backoff_exp_key et eid)) s;
         count = (case v of Inr (Some t) \<Rightarrow> (case parse_int t of Some n \<Rightarrow> n | None \<Rightarrow> 0) | _ \<Rightarrow> 0);
         attempts = (if count > 62 then 62 else count);
         until = now + backoff_ms (cs_backoff_base svc) (cs_backoff_max svc) attempts
     in snd (wr R (\<lambda>s. r_del R (rate_limiter_key et eid)
                (r_set R (backoff_exp_key et eid) (format_int (attempts + 1)) (Some backoff_key_ttl)
                  (r_set R (backoff_key et eid) (format_int until) (Some backoff_key_ttl) s))) s1))"

definition reset_backoff :: "'s counter_service \<Rightarrow> string \<Rightarrow> string \<Rightarrow> 's \<Rightarrow> 's" where
  "reset_backoff svc et eid s =
    (let R = cs_redis svc
     in snd (wr R (\<lambda>s. r_del R (rate_limiter_key et eid) (r_del R (backoff_exp_key et eid)
                (r_del R (backoff_key et eid) s))) s))"

definition rate_limit_lua :: "'s redis \<Rightarrow> string \<Rightarrow> int \<Rightarrow> 's \<Rightarrow> int \<times> 's" where
  "rate_limit_lua R k window s =
    (let s1 = r_incr R k s;
         val = (case r_get R k s1 of None \<Rightarrow> 0 | Some v \<Rightarrow> (case lua_tonumber v of None \<Rightarrow> 0 | Some n \<Rightarrow> n))
     in (val, if val = 1 then r_expire R k (window * 1000) s1 else s1))"

definition default_rate_window :: int where "default_rate_window = 60"
definition default_rate_permits :: int where "default_rate_permits = 5"

definition allowed_by_rate_limiter :: "'s counter_service \<Rightarrow> string \<Rightarrow> string \<Rightarrow> 's \<Rightarrow> bool \<times> 's" where
  "allowed_by_rate_limiter svc et eid s =
    (let (window, permits) = (case cs_rate svc of
           None \<Rightarrow> (default_rate_window, default_rate_permits)
         | Some (w, p) \<Rightarrow> (if w > 0 then w else default_rate_window, if p > 0 then p else default_rate_permits))
     in case roundtrip (cs_redis svc) (rate_limit_lua (cs_redis svc) (rate_limiter_key et eid) window) s of
          (Inl _, s1) \<Rightarrow> (True, s1)
        | (Inr n, s1) \<Rightarrow> (n \<le> permits, s1))"

section \<open>Counting the shards\<close>

definition shard_prefix :: "string \<Rightarrow> string \<Rightarrow> string \<Rightarrow> string" where
  "shard_prefix metric et eid = ''bm:'' @ metric @ colon @ et @ colon @ eid @ colon"

text \<open>Each page costs one \<open>SCAN\<close> and, unless it is empty, one pipeline of \<open>BITCOUNT\<close>s.\<close>

fun count_pages :: "'s redis \<Rightarrow> string list list \<Rightarrow> 's \<Rightarrow> (io_error + nat) \<times> 's" where
  "count_pages R [] s = (Inr 0, s)"
| "count_pages R (ks # pages) s =
    (case rd R (\<lambda>_. ()) s of
       (Inl e, s1) \<Rightarrow> (Inl e, s1)
     | (Inr _, s1) \<Rightarrow>
         if ks = [] then count_pages R pages s1
         else (case rd R (\<lambda>s. sum_list (map (\<lambda>k. r_bitcount R k s) ks)) s1 of
             (Inl e, s2) \<Rightarrow> (Inl e, s2)
           | (Inr n, s2) \<Rightarrow> (case count_pages R pages s2 of
                 (Inl e, s3) \<Rightarrow> (Inl e, s3)
               | (Inr m, s3) \<Rightarrow> (Inr (n + m), s3))))"

definition bit_count_shards :: "'s counter_service \<Rightarrow> string \<Rightarrow> string \<Rightarrow> string \<Rightarrow> 's \<Rightarrow> (io_error + nat) \<times> 's" where
  "bit_count_shards svc metric et eid s =
    count_pages (cs_redis svc) (r_scan (cs_redis svc) (shard_prefix metric et eid @ ''*'') s) s"

fun build_snapshot ::
  "'s counter_service \<Rightarrow> string \<Rightarrow> string \<Rightarrow> int list \<Rightarrow> 's \<Rightarrow> (io_error + (string \<times> int32) list) \<times> 's" where
  "build_snapshot svc et eid [] s = (Inr [], s)"
| "build_snapshot svc et eid (i # is) s =
    (case bit_count_shards svc (index_name i) et eid s of
       (Inl e, s1) \<Rightarrow> (Inl e, s1)
     | (Inr n, s1) \<Rightarrow> (case build_snapshot svc et eid is s1 of
           (Inl e, s2) \<Rightarrow> (Inl e, s2)
         | (Inr m, s2) \<Rightarrow> (Inr ((index_name i, of_nat n) # m), s2)))"

definition build_snapshot_from_bitmap ::
  "'s counter_service \<Rightarrow> string \<Rightarrow> string \<Rightarrow> 's \<Rightarrow> (io_error + (string \<times> int32) list) \<times> 's" where
  "build_snapshot_from_bitmap svc et eid = build_snapshot svc et eid (map int [0..<SchemaLen])"

definition write_snapshot :: "'s redis \<Rightarrow> string \<Rightarrow> (string \<times> int32) list \<Rightarrow> 's \<Rightarrow> (io_error + unit) \<times> 's" where
  "write_snapshot R k m = wr R (fold (\<lambda>(f, v). r_hset R k f (sint v)) m)"

section \<open>Rebuilding on a read\<close>

datatype rebuild_error = InBackoff | RateLimited | LockFailed acquire_error | BuildFailed io_error | HSetFailed io_error

definition rebuild_lock_key :: "string \<Rightarrow> string \<Rightarrow> string" where
  "rebuild_lock_key et eid = ''lock:sds-rebuild:'' @ et @ colon @ eid"

text \<open>The part under the lock; the caller releases it.\<close>

definition rebuild_locked ::
  "'s counter_service \<Rightarrow> int \<Rightarrow> string \<Rightarrow> string \<Rightarrow> 's \<Rightarrow> (rebuild_error + (string \<times> int32) list) \<times> 's" where
  "rebuild_locked svc now et eid s =
    (let R = cs_redis svc; k = sds_key et eid; (present, s1) = rd R (r_hgetall R k) s in
     if is_ok present \<and> (case present of Inr m \<Rightarrow> m \<noteq> [] | Inl _ \<Rightarrow> False) then
       (Inr (case present of
          Inr m \<Rightarrow> List.map_filter (\<lambda>(f, v). map_option (Pair f) (parse_int32 v)) m | Inl _ \<Rightarrow> []),
        reset_backoff svc et eid s1)
     else (case build_snapshot_from_bitmap svc et eid s1 of
         (Inl e, s2) \<Rightarrow> (Inl (BuildFailed e), escalate_backoff svc now et eid s2)
       | (Inr m, s2) \<Rightarrow> (case write_snapshot R k m s2 of
             (Inl e, s3) \<Rightarrow> (Inl (HSetFailed e), escalate_backoff svc now et eid s3)
           | (Inr _, s3) \<Rightarrow> (Inr m, reset_backoff svc et eid s3))))"

text \<open>\<open>token\<close> and \<open>n\<close> are the tokens and the retries of \<open>AcquireWithRetry\<close>.\<close>

definition rebuild_sds ::
  "'s counter_service \<Rightarrow> int \<Rightarrow> (nat \<Rightarrow> string) \<Rightarrow> nat \<Rightarrow> string \<Rightarrow> string \<Rightarrow> 's \<Rightarrow>
   (rebuild_error + (string \<times> int32) list) \<times> 's" where
  "rebuild_sds svc now token n et eid s =
    (let (busy, s1) = in_backoff svc now et eid s in
     if busy then (Inl InBackoff, s1)
     else (let (ok, s2) = allowed_by_rate_limiter svc et eid s1 in
       if \<not> ok then (Inl RateLimited, escalate_backoff svc now et eid s2)
       else (case acquire_with_retry (cs_redis svc) (rebuild_lock_key et eid) (cs_lock_options svc) token n s2 of
           (Inl e, s3) \<Rightarrow> (Inl (LockFailed e), escalate_backoff svc now et eid s3)
         | (Inr l, s3) \<Rightarrow> (let (r, s4) = rebuild_locked svc now et eid s3 in (r, release (cs_redis svc) l s4)))))"

section \<open>Reading counters\<close>

definition empty_counts :: "string list \<Rightarrow> (string \<times> int32) list" where
  "empty_counts ms = map (\<lambda>m. (m, 0)) ms"

definition count_of_value :: "string option \<Rightarrow> int32" where
  "count_of_value v = (case v of None \<Rightarrow> 0 | Some t \<Rightarrow> (case parse_int32 t of None \<Rightarrow> 0 | Some n \<Rightarrow> n))"

definition parse_hash_values :: "string list \<Rightarrow> string option list \<Rightarrow> (string \<times> int32) list" where
  "parse_hash_values ms vals = map (\<lambda>(m, v). (m, count_of_value v)) (zip ms vals)"

definition hmget :: "'s redis \<Rightarrow> string \<Rightarrow> string list \<Rightarrow> 's \<Rightarrow> string option list" where
  "hmget R k fs s = map (\<lambda>f. r_hget R k f s) fs"

definition GetCounts ::
  "'s counter_service \<Rightarrow> int \<Rightarrow> (nat \<Rightarrow> string) \<Rightarrow> nat \<Rightarrow> string \<Rightarrow> string \<Rightarrow> string list \<Rightarrow> 's \<Rightarrow>
   (io_error + (string \<times> int32) list) \<times> 's" where
  "GetCounts svc now token n et eid ms s =
    (if ms = [] then (Inr [], s)
     else (case rd (cs_redis svc) (hmget (cs_redis svc) (sds_key et eid) ms) s of
         (Inl e, s1) \<Rightarrow> (Inl e, s1)
       | (Inr vals, s1) \<Rightarrow>
           if list_all (\<lambda>v. v = None) vals then
             (case rebuild_sds svc now token n et eid s1 of
                (Inl _, s2) \<Rightarrow> (Inr (empty_counts ms), s2)
              | (Inr _, s2) \<Rightarrow> (case rd (cs_redis svc) (hmget (cs_redis svc) (sds_key et eid) ms) s2 of
                    (Inl _, s3) \<Rightarrow> (Inr (empty_counts ms), s3)
                  | (Inr vals2, s3) \<Rightarrow> (Inr (parse_hash_values ms vals2), s3)))
           else (Inr (parse_hash_values ms vals), s1)))"

definition GetCountsBatch ::
  "'s counter_service \<Rightarrow> string \<Rightarrow> string list \<Rightarrow> string list \<Rightarrow> 's \<Rightarrow>
   (io_error + (string \<times> (string \<times> int32) list) list) \<times> 's" where
  "GetCountsBatch svc et eids ms s =
    (if eids = [] then (Inr [], s)
     else if ms = [] then (Inl (IoError ''ERR wrong number of arguments for 'hmget' command''), s)
     else rd (cs_redis svc) (\<lambda>s. map (\<lambda>eid. (eid,
            parse_hash_values ms (hmget (cs_redis svc) (sds_key et eid) ms s))) eids) s)"

section \<open>Replaying failed messages\<close>

text \<open>
  \<open>ReplayFailedMessages\<close>: for each pending record, under the lock and the
  marker of the entity, rebuild the hash and store the outcome. An error of the
  recorder's \<open>UpdateStatus\<close> is only logged.
\<close>

definition replay_rebuild :: "'s counter_service \<Rightarrow> string \<Rightarrow> string \<Rightarrow> lock \<Rightarrow> 's \<Rightarrow> (io_error + unit) \<times> 's" where
  "replay_rebuild svc et eid l s =
    (let R = cs_redis svc; marker = rebuild_marker_key et eid;
         (_, s1) = wr R (r_set R marker ''1'' (Some 30000)) s;
         (r, s2) = (case build_snapshot_from_bitmap svc et eid s1 of
             (Inl e, s2) \<Rightarrow> (Inl e, s2)
           | (Inr m, s2) \<Rightarrow> write_snapshot R (sds_key et eid) m s2);
         (_, s3) = wr R (r_del R marker) s2
     in (r, release R l s3))"

fun replay_records ::
  "'s counter_service \<Rightarrow> 's failure_recorder \<Rightarrow> (nat \<Rightarrow> string) \<Rightarrow> nat \<Rightarrow> (nat \<times> failed_message) option list \<Rightarrow> 's \<Rightarrow> 's" where
  "replay_records svc fr token n [] s = s"
| "replay_records svc fr token n (None # ms) s = replay_records svc fr token n ms s"
| "replay_records svc fr token n (Some (i, m) # ms) s =
    (case acquire_with_retry (cs_redis svc) (rebuild_lock_key (fm_entity_type m) (fm_entity_id m))
            (cs_lock_options svc) token n s of
       (Inl _, s1) \<Rightarrow> replay_records svc fr token n ms s1
     | (Inr l, s1) \<Rightarrow>
         (case replay_rebuild svc (fm_entity_type m) (fm_entity_id m) l s1 of
            (Inl (IoError e), s2) \<Rightarrow> replay_records svc fr token n ms (snd (fr_update_status fr i ''failed'' e s2))
          | (Inr _, s2) \<Rightarrow> replay_records svc fr token n ms (snd (fr_update_status fr i ''recovered'' [] s2))))"

definition ReplayFailedMessages ::
  "'s counter_service \<Rightarrow> (nat \<Rightarrow> string) \<Rightarrow> nat \<Rightarrow> int \<Rightarrow> 's \<Rightarrow> (io_error + unit) \<times> 's" where
  "ReplayFailedMessages svc token n limit s = (case cs_recorder svc of
      None \<Rightarrow> (Inr (), s)
    | Some fr \<Rightarrow> (case fr_list_pending fr limit 0 s of
          (Inl e, s1) \<Rightarrow> (Inl e, s1)
        | (Inr pending, s1) \<Rightarrow> (Inr (), replay_records svc fr token n pending s1)))"

section \<open>The shards of an entity\<close>

text \<open>
  What the pattern of \<open>bitCountShards\<close> takes for granted: every string key
  behind the prefix is a shard of the entity, and every set bit is the bit of
  a user.
\<close>

definition shards_clean :: "keyspace \<Rightarrow> string \<Rightarrow> string \<Rightarrow> string \<Rightarrow> bool" where
  "shards_clean ks metric et eid =
    ((\<forall>k. ks_str ks k \<noteq> None \<longrightarrow> has_prefix (shard_prefix metric et eid) k \<longrightarrow>
        (\<exists>c. k = bitmap_key metric et eid c)) \<and>
     (\<forall>c off. ks_bit ks (bitmap_key metric et eid c) off \<longrightarrow> (\<exists>u. c = chunk_of u \<and> off = unat (bit_of u))))"

definition shard_keys :: "keyspace \<Rightarrow> string \<Rightarrow> string \<Rightarrow> string \<Rightarrow> string set" where
  "shard_keys ks metric et eid = {k. ks_str ks k \<noteq> None \<and> has_prefix (shard_prefix metric et eid) k}"

lemma bitmap_key_split: "bitmap_key metric et eid c = shard_prefix metric et eid @ format_uint c"
  by (simp add: shard_prefix_def bitmap_key_def)

lemma bitmap_key_prefix [simp]: "has_prefix (shard_prefix metric et eid) (bitmap_key metric et eid c)"
  by (simp add: bitmap_key_split has_prefix_def)

lemma ks_bit_present: "ks_bit ks k off \<Longrightarrow> ks_str ks k \<noteq> None"
  by (auto simp: ks_bit_def split: option.splits)

lemma sum_shards:
  assumes "shards_clean ks metric et eid" "finite (shard_keys ks metric et eid)"
  shows "(\<Sum>k \<in> shard_keys ks metric et eid. ks_bitcount ks k) = card (liked_set ks metric et eid)"
proof -
  let ?K = "shard_keys ks metric et eid" and ?f = "\<lambda>u. (bitmap_key metric et eid (chunk_of u), unat (bit_of u))"
  have "bij_betw ?f (liked_set ks metric et eid) (SIGMA k:?K. {off. ks_bit ks k off})"
  proof (rule bij_betw_imageI)
    show "inj_on ?f (liked_set ks metric et eid)" by (auto intro!: inj_onI dest: user_address_inj)
    have "(k, off) \<in> ?f ` liked_set ks metric et eid" if k: "k \<in> ?K" and off: "ks_bit ks k off" for k off
    proof -
      obtain c where c: "k = bitmap_key metric et eid c"
        using k assms(1) unfolding shard_keys_def shards_clean_def by blast
      with off assms(1) obtain u where "c = chunk_of u" "off = unat (bit_of u)"
        unfolding shards_clean_def by blast
      with c off show ?thesis by (auto simp: member_liked_set)
    qed
    then show "?f ` liked_set ks metric et eid = (SIGMA k:?K. {off. ks_bit ks k off})"
      by (auto simp: shard_keys_def member_liked_set dest: ks_bit_present)
  qed
  then have "card (liked_set ks metric et eid) = card (SIGMA k:?K. {off. ks_bit ks k off})"
    by (rule bij_betw_same_card)
  also have "\<dots> = (\<Sum>k \<in> ?K. card {off. ks_bit ks k off})"
    using assms(2) finite_ks_bits by (intro card_SigmaI) auto
  finally show ?thesis by (simp add: ks_bitcount_card)
qed

context redis_core
begin

lemma count_pages_view:
  "count_pages R pages s = (r, s') \<Longrightarrow> view s' = view s \<and>
   (\<forall>n. r = Inr n \<longrightarrow> n = sum_list (map (ks_bitcount (view s)) (concat pages)))"
proof (induction pages arbitrary: s r s')
  case Nil
  then show ?case by auto
next
  case (Cons ks pages)
  obtain a s1 where a: "rd R (\<lambda>_. ()) s = (a, s1)" by (cases "rd R (\<lambda>_. ()) s")
  note v1 = rd_view[OF a]
  obtain b s2 where b: "rd R (\<lambda>s. sum_list (map (\<lambda>k. r_bitcount R k s) ks)) s1 = (b, s2)"
    by (cases "rd R (\<lambda>s. sum_list (map (\<lambda>k. r_bitcount R k s) ks)) s1")
  note v2 = rd_view[OF b]
  have bn: "b = Inr n \<Longrightarrow> n = sum_list (map (ks_bitcount (view s)) ks)" for n
    using b v1 by (auto dest!: rd_Inr)
  obtain q1 t1 where q1: "count_pages R pages s1 = (q1, t1)" by (cases "count_pages R pages s1")
  obtain q2 t2 where q2: "count_pages R pages s2 = (q2, t2)" by (cases "count_pages R pages s2")
  show ?case
    using Cons.prems a b q1 q2 Cons.IH[OF q1] Cons.IH[OF q2] v1 v2 bn
    by (auto split: sum.splits if_splits)
qed

end

text \<open>
  \<open>SCAN\<close> reports every shard at least once, perhaps more often, and the code adds up
  what is reported: never less than the users, and exactly them if no key was repeated.
\<close>

definition scan_reports :: "'s redis \<Rightarrow> string \<Rightarrow> string \<Rightarrow> string \<Rightarrow> keyspace \<Rightarrow> string list \<Rightarrow> bool" where
  "scan_reports R metric et eid ks keys =
    ((\<exists>t. keys = concat (r_scan R (shard_prefix metric et eid @ ''*'') t)) \<and> set keys = shard_keys ks metric et eid)"

definition reported_count :: "keyspace \<Rightarrow> string list \<Rightarrow> nat" where
  "reported_count ks keys = sum_list (map (ks_bitcount ks) keys)"

lemma sum_set_le_list: "(\<Sum>x \<in> set xs. f x) \<le> sum_list (map f xs)" for f :: "'a \<Rightarrow> nat"
  by (induction xs) (auto simp: insert_absorb sum.insert_if)

lemma reported_bounds:
  assumes "shards_clean ks metric et eid" "finite {k. ks_str ks k \<noteq> None}" "set keys = shard_keys ks metric et eid"
  shows "card (liked_set ks metric et eid) \<le> reported_count ks keys"
    "distinct keys \<Longrightarrow> reported_count ks keys = card (liked_set ks metric et eid)"
proof -
  have "finite (shard_keys ks metric et eid)" by (rule finite_subset[OF _ assms(2)]) (auto simp: shard_keys_def)
  note sum = sum_shards[OF assms(1) this, folded assms(3)]
  show "card (liked_set ks metric et eid) \<le> reported_count ks keys"
    unfolding reported_count_def sum[symmetric] by (rule sum_set_le_list)
  show "reported_count ks keys = card (liked_set ks metric et eid)" if "distinct keys"
    unfolding reported_count_def sum[symmetric] using that by (simp add: sum_list_distinct_conv_sum_set)
qed

context counter_world
begin

lemma bit_count_shards_view:
  assumes "bit_count_shards svc metric et eid s = (r, s')"
  shows "view s' = view s"
    and "no_glob (shard_prefix metric et eid) \<Longrightarrow> finite {k. ks_str (view s) k \<noteq> None} \<Longrightarrow> r = Inr n \<Longrightarrow>
      \<exists>keys. scan_reports (cs_redis svc) metric et eid (view s) keys \<and> n = reported_count (view s) keys"
proof -
  note cp = count_pages_view[OF assms[unfolded bit_count_shards_def]]
  show "view s' = view s" using cp by simp
  assume slot: "no_glob (shard_prefix metric et eid)" "finite {k. ks_str (view s) k \<noteq> None}" and r: "r = Inr n"
  have "set (concat (r_scan (cs_redis svc) (shard_prefix metric et eid @ ''*'') s)) = shard_keys (view s) metric et eid"
    using scan_view[OF slot] by (simp add: shard_keys_def)
  with cp r show "\<exists>keys. scan_reports (cs_redis svc) metric et eid (view s) keys \<and> n = reported_count (view s) keys"
    unfolding scan_reports_def reported_count_def by blast
qed

lemma build_snapshot_view:
  "build_snapshot svc et eid slots s = (r, s') \<Longrightarrow> view s' = view s \<and>
   (\<forall>m. r = Inr m \<longrightarrow> (\<forall>i \<in> set slots. no_glob (shard_prefix (index_name i) et eid)) \<longrightarrow> finite {k. ks_str (view s) k \<noteq> None} \<longrightarrow>
      map fst m = map index_name slots \<and>
      (\<forall>(f, v) \<in> set m. \<exists>keys. scan_reports (cs_redis svc) f et eid (view s) keys \<and> v = of_nat (reported_count (view s) keys)))"
proof (induction slots arbitrary: s r s')
  case Nil
  then show ?case by auto
next
  case (Cons i slots)
  obtain a s1 where a: "bit_count_shards svc (index_name i) et eid s = (a, s1)"
    by (cases "bit_count_shards svc (index_name i) et eid s")
  obtain b s2 where b: "build_snapshot svc et eid slots s1 = (b, s2)" by (cases "build_snapshot svc et eid slots s1")
  show ?case
    using Cons.prems a b Cons.IH[OF b] bit_count_shards_view[OF a]
    by (auto split: sum.splits)
qed

text \<open>The fields of the snapshot are set, everything else stays.\<close>

lemma write_fold_frame:
  "ks_str (view (fold (\<lambda>(f, v). r_hset (cs_redis svc) k f (sint v)) m s)) = ks_str (view s)"
  "ks_zset (view (fold (\<lambda>(f, v). r_hset (cs_redis svc) k f (sint v)) m s)) = ks_zset (view s)"
  "ks_set (view (fold (\<lambda>(f, v). r_hset (cs_redis svc) k f (sint v)) m s)) = ks_set (view s)"
  "k' \<noteq> k \<Longrightarrow> ks_hash (view (fold (\<lambda>(f, v). r_hset (cs_redis svc) k f (sint v)) m s)) k' = ks_hash (view s) k'"
  by (induction m arbitrary: s) (auto split: prod.splits)

lemma write_fold_field:
  "f \<notin> set (map fst m) \<Longrightarrow>
   ks_hash (view (fold (\<lambda>(f, v). r_hset (cs_redis svc) k f (sint v)) m s)) k f = ks_hash (view s) k f"
  by (induction m arbitrary: s) (auto split: prod.splits)

lemma write_fold_entry:
  "distinct (map fst m) \<Longrightarrow> (f, v) \<in> set m \<Longrightarrow>
   ks_hash (view (fold (\<lambda>(f, v). r_hset (cs_redis svc) k f (sint v)) m s)) k f = Some (sint v)"
proof (induction m arbitrary: s)
  case (Cons p m)
  show ?case
  proof (cases "p = (f, v)")
    case True
    with Cons.prems write_fold_field[of f m k] show ?thesis by simp
  next
    case False
    with Cons show ?thesis by auto
  qed
qed simp

end

end
