(* ===== verification/Counter_Rebuild.thy ===== *)
theory Counter_Rebuild
  imports Counter_Snapshot
begin

text \<open>
  What the rebuild of a counter hash promises. The bookkeeping around it
  (backoff, rate limiter, lock, marker) touches neither the bitmaps nor the
  hashes; the rebuild itself writes, for every slot, the bits of the shards that \<open>SCAN\<close>
  reported: the number of users whose bit is set, if no shard was reported twice.
\<close>

section \<open>Bookkeeping leaves the counters alone\<close>

definition strings :: "keyspace \<Rightarrow> string set" where
  "strings ks = {k. ks_str ks k \<noteq> None}"

definition same_counts :: "keyspace \<Rightarrow> keyspace \<Rightarrow> bool" where
  "same_counts ks ks' =
    ((\<forall>k. has_prefix ''bm:'' k \<longrightarrow> ks_str ks' k = ks_str ks k) \<and>
     (\<forall>k. has_prefix ''cnt:'' k \<longrightarrow> ks_hash ks' k = ks_hash ks k) \<and>
     (finite (strings ks) \<longrightarrow> finite (strings ks')))"

lemma same_counts_refl [simp, intro]: "same_counts ks ks"
  by (simp add: same_counts_def)

lemma same_counts_trans [trans]: "same_counts a b \<Longrightarrow> same_counts b c \<Longrightarrow> same_counts a c"
  by (simp add: same_counts_def)

definition other_key :: "string \<Rightarrow> bool" where
  "other_key k = (\<not> has_prefix ''bm:'' k \<and> \<not> has_prefix ''cnt:'' k)"

lemma strings_upd: "strings (ks\<lparr>ks_str := (ks_str ks)(k := v)\<rparr>) \<subseteq> insert k (strings ks)"
  by (auto simp: strings_def)

lemma finite_strings_upd: "finite {k'. ks_str ks k' \<noteq> None} \<Longrightarrow> finite {k'. ((ks_str ks)(k := v)) k' \<noteq> None}"
  by (rule finite_subset[of _ "insert k {k'. ks_str ks k' \<noteq> None}"]) auto

lemma same_counts_upd:
  "other_key k \<Longrightarrow> same_counts ks (ks_set_str k v t ks)" "other_key k \<Longrightarrow> same_counts ks (ks_del k ks)"
  "other_key k \<Longrightarrow> same_counts ks (ks_incr k ks)" "same_counts ks (ks_expire k n ks)"
  "same_counts ks (ks_supd k g ks)"
  using finite_strings_upd[of ks k]
  by (auto simp: same_counts_def other_key_def strings_def)

lemma same_counts_chain:
  "other_key k \<Longrightarrow> same_counts ks a \<Longrightarrow> same_counts ks (ks_set_str k v t a)"
  "other_key k \<Longrightarrow> same_counts ks a \<Longrightarrow> same_counts ks (ks_del k a)"
  using same_counts_trans same_counts_upd(1,2) by blast+

lemma other_keys [simp]:
  "other_key (backoff_key et eid)" "other_key (backoff_exp_key et eid)" "other_key (rate_limiter_key et eid)"
  "other_key (rebuild_lock_key et eid)" "other_key (rebuild_marker_key et eid)"
  by (simp_all add: other_key_def has_prefix_def backoff_key_def backoff_exp_key_def rate_limiter_key_def
      rebuild_lock_key_def rebuild_marker_key_def)

lemma bitmap_key_bm [simp]: "has_prefix ''bm:'' (bitmap_key m et eid c)"
  by (simp add: bitmap_key_def has_prefix_def)

lemma sds_key_cnt [simp]: "has_prefix ''cnt:'' (sds_key et eid)"
  by (simp add: sds_key_def has_prefix_def)

lemma shard_prefix_bm: "has_prefix (shard_prefix m et eid) k \<Longrightarrow> has_prefix ''bm:'' k"
  by (auto simp: has_prefix_iff shard_prefix_def)

lemma same_counts_bit:
  "same_counts ks ks' \<Longrightarrow> ks_bit ks' (bitmap_key m et eid c) off = ks_bit ks (bitmap_key m et eid c) off"
  by (simp add: same_counts_def ks_bit_def)

lemma same_counts_liked: "same_counts ks ks' \<Longrightarrow> liked_set ks' m et eid = liked_set ks m et eid"
  by (simp add: liked_set_def same_counts_bit)

lemma same_counts_clean: "same_counts ks ks' \<Longrightarrow> shards_clean ks m et eid \<Longrightarrow> shards_clean ks' m et eid"
  using shard_prefix_bm unfolding shards_clean_def
  by (auto simp: same_counts_bit) (auto simp: same_counts_def)

lemma same_counts_hash:
  "same_counts ks ks' \<Longrightarrow> ks_hash ks' (sds_key et eid) = ks_hash ks (sds_key et eid)"
  by (simp add: same_counts_def)

context redis_core
begin

lemma wr_same:
  assumes "wr R f s = (r, s')" "\<And>s. same_counts (view s) (view (f s))"
  shows "same_counts (view s) (view s')"
  using assms(1)[unfolded wr_def]
proof (cases rule: roundtrip_cases)
  case (ok x s1)
  then show ?thesis using assms(2)[of s1] by auto
next
  case (unsent e)
  then show ?thesis by simp
next
  case (lost e s1 x)
  then show ?thesis using assms(2)[of s1] by auto
qed

lemma wr_same_snd:
  "(\<And>s. same_counts (view s) (view (f s))) \<Longrightarrow> same_counts (view s) (view (snd (wr R f s)))"
  by (cases "wr R f s") (auto dest: wr_same)

lemma try_acquire_same:
  "other_key key \<Longrightarrow> try_acquire R key opts tok s = (r, s') \<Longrightarrow> same_counts (view s) (view s')"
  using try_acquire_view same_counts_upd(1) by fastforce

lemma acquire_with_retry_same:
  "other_key key \<Longrightarrow> acquire_with_retry R key opts token n s = (r, s') \<Longrightarrow> same_counts (view s) (view s')"
proof (induction n arbitrary: s)
  case 0
  then show ?case
    by (subst (asm) acquire_with_retry.simps)
      (auto split: prod.splits sum.splits option.splits dest: try_acquire_same)
next
  case (Suc n)
  obtain a s1 where a: "try_acquire R key opts (token (Suc n)) s = (a, s1)"
    by (cases "try_acquire R key opts (token (Suc n)) s")
  have s1: "same_counts (view s) (view s1)" by (rule try_acquire_same[OF Suc.prems(1) a])
  show ?case
  proof (cases "a = Inr None")
    case True
    with a Suc.prems(2) have "acquire_with_retry R key opts token n s1 = (r, s')"
      by (subst (asm) acquire_with_retry.simps) simp
    then show ?thesis using Suc.IH[OF Suc.prems(1)] s1 same_counts_trans by blast
  next
    case False
    with a Suc.prems(2) have "s' = s1"
      by (subst (asm) acquire_with_retry.simps) (auto split: sum.splits option.splits)
    with s1 show ?thesis by simp
  qed
qed

lemma acquire_with_retry_lock:
  "acquire_with_retry R key opts token n s = (Inr l, s') \<Longrightarrow> lk_key l = key"
proof (induction n arbitrary: s)
  case 0
  then show ?case
    by (subst (asm) acquire_with_retry.simps)
      (auto simp: try_acquire_def Let_def split: prod.splits sum.splits option.splits bool.splits)
next
  case (Suc n)
  from Suc.prems show ?case
    by (subst (asm) acquire_with_retry.simps)
      (auto simp: try_acquire_def Let_def split: prod.splits sum.splits option.splits bool.splits dest: Suc.IH)
qed

lemma release_same: "other_key (lk_key l) \<Longrightarrow> same_counts (view s) (view (release R l s))"
  using release_view[of l s] same_counts_upd(2) by auto

end

context redis_hashes
begin

lemma hgetall_empty: "ks_hash (view s) k = Map.empty \<Longrightarrow> r_hgetall R k s = []"
  using hgetall_view[of s k] by (simp add: comp_def map_of_eq_empty_iff)

end

context counter_world
begin

lemma in_backoff_view: "view (snd (in_backoff svc now et eid s)) = view s"
proof -
  obtain r s1 where "rd (cs_redis svc) (r_get (cs_redis svc) (backoff_key et eid)) s = (r, s1)"
    by (cases "rd (cs_redis svc) (r_get (cs_redis svc) (backoff_key et eid)) s")
  with rd_view[OF this] show ?thesis by (auto simp: in_backoff_def split: sum.splits option.splits)
qed

lemma rate_limiter_same:
  "allowed_by_rate_limiter svc et eid s = (b, s') \<Longrightarrow> same_counts (view s) (view s')"
proof -
  have lua: "same_counts (view s1) (view s2)"
    if "rate_limit_lua (cs_redis svc) (rate_limiter_key et eid) w s1 = (x, s2)" for w x s1 s2
    using that same_counts_upd(3)[of "rate_limiter_key et eid" "view s1"] same_counts_upd(4) same_counts_trans
    by (fastforce simp: rate_limit_lua_def Let_def split: if_splits)
  have rt: "same_counts (view s) (view s1)"
    if "roundtrip (cs_redis svc) (rate_limit_lua (cs_redis svc) (rate_limiter_key et eid) w) s = (x, s1)" for w x s1
    using that by (auto elim!: roundtrip_cases dest: lua)
  assume "allowed_by_rate_limiter svc et eid s = (b, s')"
  then show ?thesis
    by (auto simp: allowed_by_rate_limiter_def Let_def split: prod.splits option.splits sum.splits dest: rt)
qed

lemma escalate_backoff_same: "same_counts (view s) (view (escalate_backoff svc now et eid s))"
proof -
  obtain v s1 where v: "rd (cs_redis svc) (r_get (cs_redis svc) (backoff_exp_key et eid)) s = (v, s1)"
    by (cases "rd (cs_redis svc) (r_get (cs_redis svc) (backoff_exp_key et eid)) s")
  have "same_counts (view s1) (view (snd (wr (cs_redis svc) (\<lambda>s. r_del (cs_redis svc) (rate_limiter_key et eid)
     (r_set (cs_redis svc) (backoff_exp_key et eid) a t (r_set (cs_redis svc) (backoff_key et eid) b t s))) s1)))" for a b t
    by (intro wr_same_snd) (simp add: same_counts_chain)
  then show ?thesis using v rd_view[OF v] by (simp add: escalate_backoff_def Let_def)
qed

lemma reset_backoff_same: "same_counts (view s) (view (reset_backoff svc et eid s))"
  unfolding reset_backoff_def Let_def by (intro wr_same_snd) (simp add: same_counts_chain)

end

section \<open>The rebuilt hash\<close>

definition slot_names :: "string list" where
  "slot_names = map (\<lambda>i. index_name (int i)) [0..<SchemaLen]"

lemma slot_names_eq: "slot_names = [''like'', ''fav'', ''follower'', ''following'', ''posts'']"
  by (simp add: slot_names_def SchemaLen_def index_name_def indexToName_def idx_defs upt_rec)

text \<open>The names have no pattern signs, and the keys behind the patterns are shards of users.\<close>

definition slots_clean :: "string \<Rightarrow> string \<Rightarrow> keyspace \<Rightarrow> bool" where
  "slots_clean et eid ks = (finite (strings ks) \<and>
     (\<forall>m \<in> set slot_names. no_glob (shard_prefix m et eid) \<and> shards_clean ks m et eid))"

lemma slots_clean_same: "same_counts ks ks' \<Longrightarrow> slots_clean et eid ks \<Longrightarrow> slots_clean et eid ks'"
  by (auto simp: slots_clean_def intro: same_counts_clean) (simp add: same_counts_def)

text \<open>Each slot of the hash of an entity holds, as an int32, what \<open>SCAN\<close> reported of its bitmaps.\<close>

definition hash_reported :: "'s redis \<Rightarrow> keyspace \<Rightarrow> keyspace \<Rightarrow> string \<Rightarrow> string \<Rightarrow> bool" where
  "hash_reported R ks0 ks et eid = (\<forall>m \<in> set slot_names. \<exists>keys. scan_reports R m et eid ks0 keys \<and>
     ks_hash ks (sds_key et eid) m = Some (sint (of_nat (reported_count ks0 keys) :: int32)))"

lemma same_counts_shards: "same_counts ks ks' \<Longrightarrow> shard_keys ks' m et eid = shard_keys ks m et eid"
  using shard_prefix_bm by (auto simp: shard_keys_def same_counts_def)

lemma same_counts_reported:
  assumes "same_counts ks ks'" "set keys \<subseteq> shard_keys ks m et eid"
  shows "reported_count ks' keys = reported_count ks keys"
proof -
  have "ks_bitcount ks' k = ks_bitcount ks k" if "k \<in> set keys" for k
    using assms that shard_prefix_bm by (fastforce simp: shard_keys_def same_counts_def ks_bitcount_def)
  then show ?thesis unfolding reported_count_def by (simp cong: map_cong)
qed

lemma hash_reported_same:
  assumes "same_counts ks0 ks1" "same_counts ks ks'" "hash_reported R ks1 ks et eid"
  shows "hash_reported R ks0 ks' et eid"
  unfolding hash_reported_def
proof
  fix m
  assume "m \<in> set slot_names"
  then obtain keys where k: "scan_reports R m et eid ks1 keys"
      "ks_hash ks (sds_key et eid) m = Some (sint (of_nat (reported_count ks1 keys) :: int32))"
    using assms(3) unfolding hash_reported_def by blast
  have r: "scan_reports R m et eid ks0 keys" using k(1) same_counts_shards[OF assms(1)] by (simp add: scan_reports_def)
  moreover have "reported_count ks1 keys = reported_count ks0 keys"
    using same_counts_reported[OF assms(1), of keys m et eid] r by (simp add: scan_reports_def)
  ultimately show "\<exists>keys. scan_reports R m et eid ks0 keys \<and>
      ks_hash ks' (sds_key et eid) m = Some (sint (of_nat (reported_count ks0 keys) :: int32))"
    using k(2) same_counts_hash[OF assms(2)] by auto
qed

context counter_world
begin

lemma build_snapshot_reports:
  assumes "build_snapshot_from_bitmap svc et eid s = (r, s')"
  shows "view s' = view s"
    and "r = Inr m \<Longrightarrow> slots_clean et eid (view s) \<Longrightarrow> map fst m = slot_names \<and>
      (\<forall>(f, v) \<in> set m. \<exists>keys. scan_reports (cs_redis svc) f et eid (view s) keys \<and> v = of_nat (reported_count (view s) keys))"
  using build_snapshot_view[OF assms[unfolded build_snapshot_from_bitmap_def]]
  by (simp_all add: slots_clean_def slot_names_def strings_def comp_def)

lemma write_snapshot_reported:
  assumes "write_snapshot (cs_redis svc) (sds_key et eid) m s = (Inr u, s')" "map fst m = slot_names"
    and "\<forall>(f, v) \<in> set m. \<exists>keys. scan_reports (cs_redis svc) f et eid ks0 keys \<and> v = of_nat (reported_count ks0 keys)"
  shows "hash_reported (cs_redis svc) ks0 (view s') et eid" "ks_str (view s') = ks_str (view s)"
    "f \<notin> set slot_names \<Longrightarrow> ks_hash (view s') (sds_key et eid) f = ks_hash (view s) (sds_key et eid) f"
proof -
  obtain s1 where s1: "view s1 = view s" "s' = fold (\<lambda>(f, v). r_hset (cs_redis svc) (sds_key et eid) f (sint v)) m s1"
    using wr_view[OF assms(1)[unfolded write_snapshot_def]] by blast
  have "distinct (map fst m)" unfolding assms(2) by (simp add: slot_names_eq)
  note entry = write_fold_entry[OF this, of _ _ "sds_key et eid" s1]
  show "ks_str (view s') = ks_str (view s)" using s1 by (simp add: write_fold_frame)
  show "hash_reported (cs_redis svc) ks0 (view s') et eid"
    unfolding hash_reported_def
  proof
    fix f
    assume "f \<in> set slot_names"
    then obtain v where v: "(f, v) \<in> set m" unfolding assms(2)[symmetric] by auto
    then obtain keys where "scan_reports (cs_redis svc) f et eid ks0 keys" "v = of_nat (reported_count ks0 keys)" using assms(3) by blast
    then show "\<exists>keys. scan_reports (cs_redis svc) f et eid ks0 keys \<and>
        ks_hash (view s') (sds_key et eid) f = Some (sint (of_nat (reported_count ks0 keys) :: int32))"
      using entry[OF v] unfolding s1(2) by blast
  qed
  show "f \<notin> set slot_names \<Longrightarrow> ks_hash (view s') (sds_key et eid) f = ks_hash (view s) (sds_key et eid) f"
    using s1 write_fold_field[of f m "sds_key et eid" s1] assms(2) by simp
qed

lemma rebuild_locked_reports:
  assumes "rebuild_locked svc now et eid s = (Inr m, s')" "ks_hash (view s) (sds_key et eid) = Map.empty" "slots_clean et eid (view s)"
  shows "hash_reported (cs_redis svc) (view s) (view s') et eid \<and> (\<forall>f. liked_set (view s') f et eid = liked_set (view s) f et eid) \<and>
    (\<forall>f. f \<notin> set slot_names \<longrightarrow> ks_hash (view s') (sds_key et eid) f = None)"
proof -
  let ?R = "cs_redis svc"
  obtain p s1 where p: "rd ?R (r_hgetall ?R (sds_key et eid)) s = (p, s1)"
    by (cases "rd ?R (r_hgetall ?R (sds_key et eid)) s")
  have v1: "view s1 = view s" by (rule rd_view[OF p])
  have "p = Inr h \<Longrightarrow> h = []" for h
    using p assms(2) hgetall_empty by (auto dest!: rd_Inr)
  then have absent: "\<not> (is_ok p \<and> (case p of Inr m \<Rightarrow> m \<noteq> [] | Inl _ \<Rightarrow> False))" by (cases p) auto
  obtain q s2 where q: "build_snapshot_from_bitmap svc et eid s1 = (q, s2)"
    by (cases "build_snapshot_from_bitmap svc et eid s1")
  with assms(1) p absent obtain m' where m': "q = Inr m'"
    by (cases q) (simp_all add: rebuild_locked_def Let_def)
  have v2: "view s2 = view s" using build_snapshot_reports(1)[OF q] v1 by simp
  note reports = build_snapshot_reports(2)[OF q m', unfolded v1, OF assms(3)]
  obtain w s3 where w: "write_snapshot ?R (sds_key et eid) m' s2 = (w, s3)"
    by (cases "write_snapshot ?R (sds_key et eid) m' s2")
  with assms(1) p absent q m' have ok: "w = Inr ()" "s' = reset_backoff svc et eid s3"
    by (cases w; simp add: rebuild_locked_def Let_def)+
  note ex = write_snapshot_reported[OF w[unfolded ok(1)] conjunct1[OF reports] conjunct2[OF reports]]
  have same: "same_counts (view s3) (view s')" unfolding ok(2) by (rule reset_backoff_same)
  from ex(1) have "hash_reported ?R (view s) (view s') et eid" by (rule hash_reported_same[OF same_counts_refl same])
  moreover have "liked_set (view s') f et eid = liked_set (view s) f et eid" for f
    using same_counts_liked[OF same] ex(2) v2 by (simp add: liked_set_def ks_bit_def)
  moreover have "ks_hash (view s') (sds_key et eid) f = None" if "f \<notin> set slot_names" for f
    using ex(3)[OF that] same_counts_hash[OF same] v2 assms(2) by simp
  ultimately show ?thesis by blast
qed

lemma rebuild_sds_reports:
  assumes "rebuild_sds svc now token n et eid s = (Inr m, s')" "ks_hash (view s) (sds_key et eid) = Map.empty" "slots_clean et eid (view s)"
  shows "hash_reported (cs_redis svc) (view s) (view s') et eid \<and> (\<forall>f. liked_set (view s') f et eid = liked_set (view s) f et eid) \<and>
    (\<forall>f. f \<notin> set slot_names \<longrightarrow> ks_hash (view s') (sds_key et eid) f = None)"
proof -
  obtain b s1 where b: "in_backoff svc now et eid s = (b, s1)" by (cases "in_backoff svc now et eid s")
  obtain k s2 where k: "allowed_by_rate_limiter svc et eid s1 = (k, s2)"
    by (cases "allowed_by_rate_limiter svc et eid s1")
  obtain a s3 where a: "acquire_with_retry (cs_redis svc) (rebuild_lock_key et eid) (cs_lock_options svc) token n s2 = (a, s3)"
    by (cases "acquire_with_retry (cs_redis svc) (rebuild_lock_key et eid) (cs_lock_options svc) token n s2")
  obtain l where l: "\<not> b" "k" "a = Inr l"
    using assms(1) b k a by (auto simp: rebuild_sds_def split: if_splits sum.splits)
  obtain q s4 where q: "rebuild_locked svc now et eid s3 = (q, s4)" by (cases "rebuild_locked svc now et eid s3")
  with assms(1) b k a l have r: "q = Inr m" "s' = release (cs_redis svc) l s4"
    by (simp_all add: rebuild_sds_def)
  have "view s1 = view s" using in_backoff_view[of now et eid s] b by simp
  with rate_limiter_same[OF k] acquire_with_retry_same[OF _ a]
  have pre: "same_counts (view s) (view s3)" using same_counts_trans other_keys(4) by metis
  have post: "same_counts (view s4) (view s')"
    unfolding r(2) using acquire_with_retry_lock[OF a[unfolded l(3)]] by (intro release_same) simp
  have "ks_hash (view s3) (sds_key et eid) = Map.empty"
    using same_counts_hash[OF pre] assms(2) by simp
  from rebuild_locked_reports[OF q[unfolded r(1)] this slots_clean_same[OF pre assms(3)]]
  show ?thesis
    using hash_reported_same[OF pre post, of "cs_redis svc" et eid] same_counts_liked[OF pre] same_counts_liked[OF post] same_counts_hash[OF post] by simp
qed

end

end
