(* ===== verification/Counter_Likers.thy ===== *)
theory Counter_Likers
  imports Counter_Rebuild
begin

text \<open>
  \<open>internal/counter/likers.go\<close>: the list of users who liked an entity. The main
  path pages through the time index, by rank while the cursor's member is still
  there and by score otherwise; entities without an index fall back to a scan of
  the bitmap shards, in order of user id, with a small page cache.
\<close>

section \<open>Keys, items and cursors\<close>

definition metric_favorite :: string where "metric_favorite = ''favorite''"
definition prefix_like :: string where "prefix_like = ''like''"
definition prefix_fav :: string where "prefix_fav = ''fav''"

definition likers_scan_cache_key :: "string \<Rightarrow> uint64 \<Rightarrow> string \<Rightarrow> string" where
  "likers_scan_cache_key et eid metric = ''likers_cache:'' @ et @ colon @ format_uint eid @ colon @ metric"

record liker_item =
  li_user_id :: uint64
  li_liked_at :: int

record likers_response =
  lr_items :: "liker_item list"
  lr_cursor :: string
  lr_has_more :: bool

record likers_cursor =
  lc_by_time :: bool
  lc_ts :: int
  lc_user_id :: uint64

definition first_page :: likers_cursor where
  "first_page = \<lparr>lc_by_time = False, lc_ts = 0, lc_user_id = 0\<rparr>"

definition encode_time_cursor :: "int \<Rightarrow> uint64 \<Rightarrow> string" where
  "encode_time_cursor ts u = ''t:'' @ format_int ts @ colon @ format_uint u"

definition encode_uid_cursor :: "uint64 \<Rightarrow> string" where
  "encode_uid_cursor u = ''u:'' @ format_uint u"

definition uid_cursor :: "uint64 \<Rightarrow> likers_cursor" where
  "uid_cursor u = \<lparr>lc_by_time = False, lc_ts = 0, lc_user_id = u\<rparr>"

definition parse_likers_cursor :: "string \<Rightarrow> likers_cursor option" where
  "parse_likers_cursor raw =
    (if raw = [] \<or> raw = ''0'' then Some first_page
     else (case (if has_prefix ''t:'' raw then str_cut CHR '':'' (trim_prefix ''t:'' raw) else None) of
        Some (ts, uid) \<Rightarrow>
          (case (parse_int ts, parse_uint uid) of
             (Some t, Some u) \<Rightarrow> Some \<lparr>lc_by_time = True, lc_ts = t, lc_user_id = u\<rparr>
           | _ \<Rightarrow> None)
      | None \<Rightarrow> (case cut_prefix ''u:'' raw of
            Some uid \<Rightarrow> map_option uid_cursor (parse_uint uid)
          | None \<Rightarrow> map_option uid_cursor (parse_uint raw))))"

definition clamp_likers_limit :: "int \<Rightarrow> nat" where
  "clamp_likers_limit limit = (if limit \<le> 0 then 20 else if limit > 50 then 50 else nat limit)"

section \<open>Pages of the time index\<close>

text \<open>The loop of \<open>packLikerPage\<close> stops after \<open>limit + 1\<close> members that parse.\<close>

definition item_of :: "string \<times> int \<Rightarrow> liker_item option" where
  "item_of z = map_option (\<lambda>u. \<lparr>li_user_id = u, li_liked_at = snd z\<rparr>) (parse_uint (fst z))"

definition cut_page :: "nat \<Rightarrow> 'a list \<Rightarrow> 'a list \<times> bool" where
  "cut_page limit items = (if length items > limit then (take limit items, True) else (items, False))"

fun pack_loop :: "nat \<Rightarrow> zset \<Rightarrow> liker_item list \<Rightarrow> liker_item list" where
  "pack_loop limit [] items = items"
| "pack_loop limit (z # zs) items =
    (case item_of z of
       None \<Rightarrow> pack_loop limit zs items
     | Some it \<Rightarrow> if length items + 1 = limit + 1 then items @ [it] else pack_loop limit zs (items @ [it]))"

definition pack_liker_page :: "zset \<Rightarrow> nat \<Rightarrow> liker_item list \<times> bool" where
  "pack_liker_page zs limit = cut_page limit (pack_loop limit zs [])"

definition skip_before :: "likers_cursor \<Rightarrow> string \<times> int \<Rightarrow> bool" where
  "skip_before cur z = (lc_by_time cur \<and> snd z = lc_ts cur \<and> fst z \<ge> format_uint (lc_user_id cur))"

fun filter_loop :: "likers_cursor \<Rightarrow> nat \<Rightarrow> zset \<Rightarrow> liker_item list \<Rightarrow> liker_item list" where
  "filter_loop cur limit [] items = items"
| "filter_loop cur limit (z # zs) items =
    (case item_of z of
       None \<Rightarrow> filter_loop cur limit zs items
     | Some it \<Rightarrow>
         if skip_before cur z then filter_loop cur limit zs items
         else if length items + 1 = limit + 1 then items @ [it]
         else filter_loop cur limit zs (items @ [it]))"

definition filter_liker_page :: "zset \<Rightarrow> likers_cursor \<Rightarrow> nat \<Rightarrow> liker_item list \<times> bool" where
  "filter_liker_page zs cur limit = cut_page limit (filter_loop cur limit zs [])"

text \<open>\<open>None\<close> as a page: the member is gone (by rank) or there is no index (by score).\<close>

definition read_likers_by_rank ::
  "'s counter_service \<Rightarrow> string \<Rightarrow> likers_cursor \<Rightarrow> nat \<Rightarrow> 's \<Rightarrow> (io_error + (liker_item list \<times> bool) option) \<times> 's" where
  "read_likers_by_rank svc zkey cur limit s =
    (let R = cs_redis svc in
     case rd R (r_zrevrank R zkey (format_uint (lc_user_id cur))) s of
       (Inl e, s1) \<Rightarrow> (Inl e, s1)
     | (Inr None, s1) \<Rightarrow> (Inr None, s1)
     | (Inr (Some rank), s1) \<Rightarrow>
         (case rd R (r_zrevrange R zkey (rank + 1) (limit + 1)) s1 of
            (Inl e, s2) \<Rightarrow> (Inl e, s2)
          | (Inr zs, s2) \<Rightarrow> (Inr (Some (pack_liker_page zs limit)), s2)))"

definition read_likers_by_score ::
  "'s counter_service \<Rightarrow> string \<Rightarrow> likers_cursor \<Rightarrow> nat \<Rightarrow> 's \<Rightarrow> (io_error + (liker_item list \<times> bool) option) \<times> 's" where
  "read_likers_by_score svc zkey cur limit s =
    (let R = cs_redis svc;
         mx = (if lc_by_time cur then Some (lc_ts cur) else None);
         fetch = (if lc_by_time cur then limit + 1 + 16 else limit + 1)
     in case rd R (r_zrevrangebyscore R zkey mx fetch) s of
          (Inl e, s1) \<Rightarrow> (Inl e, s1)
        | (Inr zs, s1) \<Rightarrow>
            if zs = [] then
              (if lc_by_time cur then (Inr (Some ([], False)), s1)
               else (case rd R (r_exists R zkey) s1 of
                   (Inl e, s2) \<Rightarrow> (Inl e, s2)
                 | (Inr ex, s2) \<Rightarrow> (Inr (if ex then Some ([], False) else None), s2)))
            else (Inr (Some (filter_liker_page zs cur limit)), s1))"

definition read_likers_by_time ::
  "'s counter_service \<Rightarrow> string \<Rightarrow> likers_cursor \<Rightarrow> nat \<Rightarrow> 's \<Rightarrow> (io_error + (liker_item list \<times> bool) option) \<times> 's" where
  "read_likers_by_time svc zkey cur limit s =
    (if lc_by_time cur then
       (case read_likers_by_rank svc zkey cur limit s of
          (Inr None, s1) \<Rightarrow> read_likers_by_score svc zkey cur limit s1
        | r \<Rightarrow> r)
     else read_likers_by_score svc zkey cur limit s)"

section \<open>Scanning the bitmap\<close>

definition chunk_fetch_batch :: nat where "chunk_fetch_batch = 16"

fun append_bits ::
  "nat \<Rightarrow> uint64 \<Rightarrow> nat \<Rightarrow> nat \<Rightarrow> char \<Rightarrow> nat list \<Rightarrow> liker_item list \<Rightarrow> bool \<times> liker_item list" where
  "append_bits first chunk need i b [] items = (False, items)"
| "append_bits first chunk need i b (j # js) items =
    (if \<not> byte_bit b j then append_bits first chunk need i b js items
     else (let off = i * 8 + j; u = chunk * ChunkSize + of_nat off in
       if off < first then append_bits first chunk need i b js items
       else if u = 0 then append_bits first chunk need i b js items
       else (let items' = items @ [\<lparr>li_user_id = u, li_liked_at = 0\<rparr>] in
         if length items' \<ge> need then (True, items') else append_bits first chunk need i b js items')))"

fun append_bytes ::
  "nat \<Rightarrow> uint64 \<Rightarrow> nat \<Rightarrow> nat \<Rightarrow> string \<Rightarrow> liker_item list \<Rightarrow> liker_item list" where
  "append_bytes first chunk need i [] items = items"
| "append_bytes first chunk need i (b # bs) items =
    (if of_char b = (0 :: nat) then append_bytes first chunk need (Suc i) bs items
     else (case append_bits first chunk need i b [0..<8] items of
         (True, items') \<Rightarrow> items'
       | (False, items') \<Rightarrow> append_bytes first chunk need (Suc i) bs items'))"

definition append_likers_from_chunk ::
  "liker_item list \<Rightarrow> string \<Rightarrow> uint64 \<Rightarrow> uint64 \<Rightarrow> nat \<Rightarrow> liker_item list" where
  "append_likers_from_chunk items bm chunk cursor need =
    (let first = (if chunk = chunk_of cursor then unat (bit_of cursor) + 1 else 0)
     in if first \<ge> 65536 then items
        else append_bytes first chunk need (first div 8) (drop (first div 8) bm) items)"

definition fetch_liker_bitmap_chunks ::
  "'s counter_service \<Rightarrow> string \<Rightarrow> uint64 \<Rightarrow> string \<Rightarrow> nat \<Rightarrow> nat \<Rightarrow> 's \<Rightarrow> (io_error + string list) \<times> 's" where
  "fetch_liker_bitmap_chunks svc et eid prefix from to s =
    rd (cs_redis svc) (\<lambda>s. map (\<lambda>c.
      case r_get (cs_redis svc) (bitmap_key prefix et (format_uint eid) (of_nat c)) s of
        None \<Rightarrow> [] | Some v \<Rightarrow> v) [from..<to]) s"

text \<open>The chunks of one pipeline, in order, until enough users are found.\<close>

fun append_chunks :: "uint64 \<Rightarrow> nat \<Rightarrow> nat \<Rightarrow> string list \<Rightarrow> liker_item list \<Rightarrow> liker_item list" where
  "append_chunks cursor need c [] items = items"
| "append_chunks cursor need c (bm # bms) items =
    (if bm = [] then append_chunks cursor need (Suc c) bms items
     else (let items' = append_likers_from_chunk items bm (of_nat c) cursor need
       in if length items' \<ge> need then items' else append_chunks cursor need (Suc c) bms items'))"

function scan_loop ::
  "'s counter_service \<Rightarrow> string \<Rightarrow> uint64 \<Rightarrow> string \<Rightarrow> uint64 \<Rightarrow> nat \<Rightarrow> nat \<Rightarrow> liker_item list \<Rightarrow> 's \<Rightarrow>
   (io_error + liker_item list) \<times> 's" where
  "scan_loop svc et eid prefix cursor need c items s =
    (if c \<ge> cs_likers_max_chunk svc \<or> length items \<ge> need then (Inr items, s)
     else (let to = min (c + chunk_fetch_batch) (cs_likers_max_chunk svc) in
       case fetch_liker_bitmap_chunks svc et eid prefix c to s of
         (Inl e, s1) \<Rightarrow> (Inl e, s1)
       | (Inr bms, s1) \<Rightarrow>
           scan_loop svc et eid prefix cursor need (c + chunk_fetch_batch) (append_chunks cursor need c bms items) s1))"
  by pat_completeness auto

termination
  by (relation "measure (\<lambda>(svc, et, eid, prefix, cursor, need, c, items, s). cs_likers_max_chunk svc - c)")
    (auto simp: chunk_fetch_batch_def)

declare scan_loop.simps [simp del]

definition scan_liker_chunks ::
  "'s counter_service \<Rightarrow> string \<Rightarrow> uint64 \<Rightarrow> string \<Rightarrow> uint64 \<Rightarrow> nat \<Rightarrow> 's \<Rightarrow> (io_error + liker_item list) \<times> 's" where
  "scan_liker_chunks svc et eid prefix cursor limit s =
    scan_loop svc et eid prefix cursor (limit + 1) (unat (chunk_of cursor)) [] s"

section \<open>The cache of scanned pages\<close>

definition likers_cache_ttl :: int where "likers_cache_ttl = 5 * 60000"
definition likers_cache_max_size :: nat where "likers_cache_max_size = 500"

definition fill_likers_scan_cache :: "'s counter_service \<Rightarrow> string \<Rightarrow> liker_item list \<Rightarrow> 's \<Rightarrow> 's" where
  "fill_likers_scan_cache svc key items s =
    (let R = cs_redis svc
     in snd (wr R (\<lambda>s. r_zkeep_top R key likers_cache_max_size (r_expire R key likers_cache_ttl
          (fold (\<lambda>it. r_zadd R key (uint (li_user_id it)) (format_uint (li_user_id it))) items s))) s))"

definition build_likers_from_cache :: "string list \<Rightarrow> nat \<Rightarrow> likers_response" where
  "build_likers_from_cache results limit =
    (let all = map (\<lambda>u. \<lparr>li_user_id = u, li_liked_at = 0\<rparr>) (List.map_filter parse_uint results);
         (items, has_more) = cut_page limit all
     in \<lparr>lr_items = items, lr_cursor = (if items = [] then [] else encode_uid_cursor (li_user_id (last items))),
         lr_has_more = has_more\<rparr>)"

definition try_likers_scan_cache ::
  "'s counter_service \<Rightarrow> string \<Rightarrow> uint64 \<Rightarrow> nat \<Rightarrow> 's \<Rightarrow> likers_response option \<times> 's" where
  "try_likers_scan_cache svc key cursor limit s =
    (case rd (cs_redis svc) (r_zrange_above (cs_redis svc) key (uint cursor) (limit + 1)) s of
       (Inl e, s1) \<Rightarrow> (None, s1)
     | (Inr cached, s1) \<Rightarrow>
         (if length cached \<le> limit then None else Some (build_likers_from_cache (map fst cached) limit), s1))"

definition scan_bitmap_for_likers ::
  "'s counter_service \<Rightarrow> string \<Rightarrow> uint64 \<Rightarrow> string \<Rightarrow> uint64 \<Rightarrow> nat \<Rightarrow> 's \<Rightarrow> (io_error + likers_response) \<times> 's" where
  "scan_bitmap_for_likers svc et eid prefix cursor limit s =
    (let key = likers_scan_cache_key et eid prefix in
     case try_likers_scan_cache svc key cursor limit s of
       (Some resp, s1) \<Rightarrow> (Inr resp, s1)
     | (None, s1) \<Rightarrow>
         (case scan_liker_chunks svc et eid prefix cursor limit s1 of
            (Inl e, s2) \<Rightarrow> (Inl e, s2)
          | (Inr found, s2) \<Rightarrow>
              (let (items, has_more) = cut_page limit found in
               if items = [] then (Inr \<lparr>lr_items = [], lr_cursor = [], lr_has_more = has_more\<rparr>, s2)
               else (Inr \<lparr>lr_items = items, lr_cursor = encode_uid_cursor (li_user_id (last items)), lr_has_more = has_more\<rparr>,
                     fill_likers_scan_cache svc key items s2))))"

section \<open>The entry point and the offline rebuild\<close>

datatype likers_error = InvalidCursor | LikersIo io_error

definition GetLikers ::
  "'s counter_service \<Rightarrow> string \<Rightarrow> uint64 \<Rightarrow> string \<Rightarrow> string \<Rightarrow> int \<Rightarrow> 's \<Rightarrow> (likers_error + likers_response) \<times> 's" where
  "GetLikers svc et eid metric cursor limit0 s =
    (let limit = clamp_likers_limit limit0;
         scan = (\<lambda>u s. case scan_bitmap_for_likers svc et eid
                     (if metric = metric_favorite then prefix_fav else prefix_like) u limit s of
                   (Inl e, s1) \<Rightarrow> (Inl (LikersIo e), s1) | (Inr r, s1) \<Rightarrow> (Inr r, s1))
     in case parse_likers_cursor cursor of
       None \<Rightarrow> (Inl InvalidCursor, s)
     | Some cur \<Rightarrow>
         if \<not> lc_by_time cur \<and> lc_user_id cur > 0 then scan (lc_user_id cur) s
         else (case read_likers_by_time svc (likers_zset_key (if metric = metric_favorite then prefix_fav else prefix_like)
                      et (format_uint eid)) cur limit s of
             (Inl e, s1) \<Rightarrow> (Inl (LikersIo e), s1)
           | (Inr None, s1) \<Rightarrow> scan 0 s1
           | (Inr (Some (items, has_more)), s1) \<Rightarrow>
               (Inr \<lparr>lr_items = items,
                  lr_cursor = (if items = [] then []
                    else encode_time_cursor (li_liked_at (last items)) (li_user_id (last items))),
                  lr_has_more = has_more\<rparr>, s1)))"

definition zadd_nx_all :: "'s redis \<Rightarrow> string \<Rightarrow> string list \<Rightarrow> 's \<Rightarrow> nat \<times> 's" where
  "zadd_nx_all R k ms s = (let s1 = fold (r_zadd_nx R k 0) ms s in (r_zcard R k s1 - r_zcard R k s, s1))"

fun chunk_members :: "nat \<Rightarrow> string list \<Rightarrow> string list" where
  "chunk_members c [] = []"
| "chunk_members c (bm # bms) =
    (if bm = [] then [] else map (format_uint \<circ> li_user_id) (append_likers_from_chunk [] bm (of_nat c) 0 65536))
    @ chunk_members (Suc c) bms"

function rebuild_loop ::
  "'s counter_service \<Rightarrow> string \<Rightarrow> uint64 \<Rightarrow> string \<Rightarrow> nat \<Rightarrow> nat \<Rightarrow> 's \<Rightarrow> (io_error \<times> nat + nat) \<times> 's" where
  "rebuild_loop svc et eid prefix c added s =
    (if c \<ge> cs_likers_max_chunk svc then (Inr added, s)
     else (let R = cs_redis svc; to = min (c + chunk_fetch_batch) (cs_likers_max_chunk svc) in
       case fetch_liker_bitmap_chunks svc et eid prefix c to s of
         (Inl e, s1) \<Rightarrow> (Inl (e, added), s1)
       | (Inr bms, s1) \<Rightarrow>
           (let ms = chunk_members c bms in
            if ms = [] then rebuild_loop svc et eid prefix (c + chunk_fetch_batch) added s1
            else (case roundtrip R (zadd_nx_all R (likers_zset_key prefix et (format_uint eid)) ms) s1 of
                (Inl e, s2) \<Rightarrow> (Inl (e, added), s2)
              | (Inr n, s2) \<Rightarrow> rebuild_loop svc et eid prefix (c + chunk_fetch_batch) (added + n) s2))))"
  by pat_completeness auto

termination
  by (relation "measure (\<lambda>(svc, et, eid, prefix, c, added, s). cs_likers_max_chunk svc - c)")
    (auto simp: chunk_fetch_batch_def)

declare rebuild_loop.simps [simp del]

definition RebuildLikersTimeIndex ::
  "'s counter_service \<Rightarrow> string \<Rightarrow> uint64 \<Rightarrow> string \<Rightarrow> 's \<Rightarrow> (io_error \<times> nat + nat) \<times> 's" where
  "RebuildLikersTimeIndex svc et eid metric s =
    rebuild_loop svc et eid (if metric = metric_favorite \<or> metric = prefix_fav then prefix_fav else prefix_like) 0 0 s"

end
