(* ===== verification/Counter_Liker_Pages.thy ===== *)
theory Counter_Liker_Pages
  imports Counter_Likers
begin

text \<open>
  What the lists of likers promise: the byte-wise bitmap scan finds exactly the
  users of the shards in ascending order, and following the cursors visits
  every user once, on the bitmap path and on the time index.
\<close>

section \<open>The scan of one shard\<close>

abbreviation scanned :: "uint64 \<Rightarrow> liker_item" where
  "scanned u \<equiv> \<lparr>li_user_id = u, li_liked_at = 0\<rparr>"

text \<open>The users at some offsets of a shard, skipping unset bits, offsets before the cursor and user 0.\<close>

definition users_at :: "(nat \<Rightarrow> bool) \<Rightarrow> nat \<Rightarrow> uint64 \<Rightarrow> nat list \<Rightarrow> liker_item list" where
  "users_at P first chunk offs =
    map scanned (filter (\<lambda>u. u \<noteq> 0) (map (\<lambda>off. chunk * ChunkSize + of_nat off)
      (filter (\<lambda>off. P off \<and> first \<le> off) offs)))"

lemma users_at_simps [simp]:
  "users_at P first chunk [] = []"
  "users_at P first chunk (offs @ offs') = users_at P first chunk offs @ users_at P first chunk offs'"
  by (simp_all add: users_at_def)

lemma users_at_cong: "(\<And>off. off \<in> set offs \<Longrightarrow> P off = Q off) \<Longrightarrow> users_at P first chunk offs = users_at Q first chunk offs"
  using filter_cong[of offs offs "\<lambda>off. P off \<and> first \<le> off" "\<lambda>off. Q off \<and> first \<le> off"]
  by (simp add: users_at_def)

lemma users_at_none: "(\<And>off. off \<in> set offs \<Longrightarrow> \<not> P off) \<Longrightarrow> users_at P first chunk offs = []"
  by (simp add: users_at_def filter_empty_conv)

lemma users_at_nonzero:
  "(\<And>off. P off \<Longrightarrow> first \<le> off \<Longrightarrow> (of_nat (c * 65536 + off) :: uint64) \<noteq> 0) \<Longrightarrow>
   users_at P first (of_nat c) offs =
     map scanned (map (\<lambda>off. of_nat (c * 65536 + off)) (filter (\<lambda>off. P off \<and> first \<le> off) offs))"
  by (induction offs) (auto simp: users_at_def ChunkSize_def)

lemma append_bits_users:
  "length items < need \<Longrightarrow> (\<And>j. j \<in> set js \<Longrightarrow> P (i * 8 + j) = byte_bit b j) \<Longrightarrow>
   append_bits first chunk need i b js items =
     (let xs = items @ users_at P first chunk (map (\<lambda>j. i * 8 + j) js) in (length xs \<ge> need, take need xs))"
proof (induction js arbitrary: items)
  case Nil
  then show ?case by simp
next
  case (Cons j js)
  let ?u = "chunk * ChunkSize + of_nat (i * 8 + j) :: uint64"
  have step: "users_at P first chunk (map (\<lambda>j. i * 8 + j) (j # js)) =
      (if byte_bit b j \<and> first \<le> i * 8 + j \<and> ?u \<noteq> 0 then [scanned ?u] else []) @
      users_at P first chunk (map (\<lambda>j. i * 8 + j) js)"
    using Cons.prems(2)[of j] by (simp add: users_at_def)
  show ?case
  proof (cases "byte_bit b j \<and> first \<le> i * 8 + j \<and> ?u \<noteq> 0 \<and> need \<le> length items + 1")
    case True
    with Cons.prems(1) have "need = Suc (length items)" by simp
    with True show ?thesis unfolding step by (simp add: Let_def del: of_nat_add of_nat_mult)
  next
    case False
    with Cons.IH[of "if byte_bit b j \<and> first \<le> i * 8 + j \<and> ?u \<noteq> 0 then items @ [scanned ?u] else items"] Cons.prems
    show ?thesis unfolding step by (auto simp: Let_def not_less not_le split: if_splits)
  qed
qed

lemma byte_offsets: "map (\<lambda>j. i * 8 + j) [0..<8] = [i * 8..<Suc i * 8]"
  using map_add_upt[of "i * 8" 8] by (simp add: add.commute)

lemma byte_zero: "of_char b = (0 :: nat) \<Longrightarrow> \<not> byte_bit b j"
  by (simp add: byte_bit_def)

lemma append_bytes_users:
  "length items < need \<Longrightarrow>
   append_bytes first chunk need i (drop i bm) items =
     take need (items @ users_at (string_bit bm) first chunk [i * 8..<max i (length bm) * 8])"
proof (induction "length bm - i" arbitrary: i items)
  case 0
  then show ?case by (simp add: max_def)
next
  case (Suc n)
  then have i: "i < length bm" by simp
  let ?b = "bm ! i"
  have drop: "drop i bm = ?b # drop (Suc i) bm" using i by (simp add: Cons_nth_drop_Suc)
  have bits: "string_bit bm (i * 8 + j) = byte_bit ?b j" if "j \<in> set [0..<8]" for j
    using i that by (simp add: string_bit_def div_add1_eq)
  have split: "[i * 8..<length bm * 8] = [i * 8..<Suc i * 8] @ [Suc i * 8..<length bm * 8]"
    using i by (intro upt_split) simp_all
  have m: "max i (length bm) = length bm" "max (Suc i) (length bm) = length bm" using i by auto
  show ?case
  proof (cases "of_char ?b = (0 :: nat)")
    case True
    have "users_at (string_bit bm) first chunk [i * 8..<Suc i * 8] = []"
    proof (rule users_at_none)
      fix off
      assume "off \<in> set [i * 8..<Suc i * 8]"
      then have "off - i * 8 \<in> set [0..<8]" "off = i * 8 + (off - i * 8)" by auto
      with bits[of "off - i * 8"] byte_zero[OF True] show "\<not> string_bit bm off" by simp
    qed
    with True drop Suc.hyps(1)[of "Suc i" items] Suc.hyps(2) Suc.prems split m show ?thesis by simp
  next
    case False
    let ?xs = "items @ users_at (string_bit bm) first chunk [i * 8..<Suc i * 8]"
    have bits8: "append_bits first chunk need i ?b [0..<8] items = (length ?xs \<ge> need, take need ?xs)"
      using append_bits_users[OF Suc.prems bits] by (simp only: byte_offsets Let_def)
    show ?thesis
    proof (cases "length ?xs \<ge> need")
      case True
      then have "append_bytes first chunk need i (drop i bm) items = take need ?xs"
        unfolding drop using False bits8 by simp
      with True split m show ?thesis by simp
    next
      case less: False
      then have "append_bytes first chunk need i (drop i bm) items = append_bytes first chunk need (Suc i) (drop (Suc i) bm) ?xs"
        unfolding drop using False bits8 by simp
      with less Suc.hyps(1)[of "Suc i" ?xs] Suc.hyps(2) split m show ?thesis by simp
    qed
  qed
qed

section \<open>The users of a range of shards\<close>

text \<open>The users with ids in \<open>lo ..< hi\<close>, behind the cursor, whose bit is set: ascending.\<close>

definition users_between :: "uint64 set \<Rightarrow> uint64 \<Rightarrow> nat \<Rightarrow> nat \<Rightarrow> uint64 list" where
  "users_between L cursor lo hi = filter (\<lambda>u. u \<in> L \<and> cursor < u) (map of_nat [lo..<hi])"

definition shard_content :: "keyspace \<Rightarrow> string \<Rightarrow> string \<Rightarrow> string \<Rightarrow> nat \<Rightarrow> string" where
  "shard_content ks prefix et eid c = (case ks_str ks (bitmap_key prefix et eid (of_nat c)) of None \<Rightarrow> [] | Some v \<Rightarrow> v)"

lemma string_bit_content:
  "string_bit (shard_content ks prefix et eid c) off = ks_bit ks (bitmap_key prefix et eid (of_nat c)) off"
  by (simp add: shard_content_def ks_bit_def split: option.splits)

lemma filter_upt_min:
  assumes "\<And>x. P x \<Longrightarrow> x < m"
  shows "filter P [0..<n] = filter P [0..<min n m]"
proof -
  have "[0..<n] = [0..<min n m] @ [min n m..<n]" by (intro upt_split) simp_all
  moreover have "filter P [min n m..<n] = []" using assms by (fastforce simp: filter_empty_conv min_def)
  ultimately show ?thesis by simp
qed

lemma filter_upt_same:
  assumes "\<And>x. P x \<Longrightarrow> x < n \<and> x < m"
  shows "filter P [0..<n] = filter P [0..<m]"
  using filter_upt_min[of P m n] filter_upt_min[of P n m] assms by (simp add: min.commute)

lemma user_of_shard:
  assumes "(c + 1) * 65536 \<le> (2 ^ 64 :: nat)" "off < 65536"
  shows "unat (of_nat c * ChunkSize + of_nat off :: uint64) = c * 65536 + off"
    and "chunk_of (of_nat (c * 65536 + off)) = of_nat c" "unat (bit_of (of_nat (c * 65536 + off))) = off"
proof -
  have lt: "c * 65536 + off < 2 ^ 64" using assms by (simp add: algebra_simps)
  have eq: "of_nat c * ChunkSize + of_nat off = (of_nat (c * 65536 + off) :: uint64)"
    by (simp add: ChunkSize_def)
  have un: "unat (of_nat (c * 65536 + off) :: uint64) = c * 65536 + off"
    by (rule unat_of_nat64[OF lt])
  show "unat (of_nat c * ChunkSize + of_nat off :: uint64) = c * 65536 + off" unfolding eq by (rule un)
  show "unat (bit_of (of_nat (c * 65536 + off))) = off"
    using un assms(2) by (simp add: unat_bit_of del: of_nat_add of_nat_mult)
  have "c < 2 ^ 64" using assms(1) by (simp add: algebra_simps)
  then show "chunk_of (of_nat (c * 65536 + off)) = of_nat c"
    using un assms(2) by (intro word_unat_eq_iff[THEN iffD2])
      (simp add: unat_chunk_of unat_of_nat64 del: of_nat_add of_nat_mult)
qed

lemma chunk_cursor_less:
  assumes "unat (chunk_of cursor) \<le> c" "off < 65536" "(c + 1) * 65536 \<le> (2 ^ 64 :: nat)"
  shows "cursor < of_nat (c * 65536 + off) \<longleftrightarrow>
    (if of_nat c = chunk_of cursor then unat (bit_of cursor) + 1 else 0) \<le> off"
proof -
  have un: "unat (of_nat (c * 65536 + off) :: uint64) = c * 65536 + off"
    by (rule unat_of_nat64) (use assms in \<open>simp add: algebra_simps\<close>)
  have cur: "unat cursor = unat (chunk_of cursor) * 65536 + unat (bit_of cursor)"
    by (simp add: unat_chunk_of unat_bit_of)
  have same: "of_nat c = chunk_of cursor \<longleftrightarrow> c = unat (chunk_of cursor)"
    using assms(3) unat_of_nat64[of c] by (auto simp: algebra_simps)
  have bit: "unat (bit_of cursor) < 65536" by (rule bit_of_bound)
  show ?thesis
  proof (cases "c = unat (chunk_of cursor)")
    case True
    then show ?thesis using un cur same by (simp add: word_less_nat_alt del: of_nat_add of_nat_mult) linarith
  next
    case False
    with assms(1) have "unat (chunk_of cursor) + 1 \<le> c" by simp
    then have "(unat (chunk_of cursor) + 1) * 65536 \<le> c * 65536" by (rule mult_le_mono1)
    with False un cur same bit show ?thesis by (simp add: word_less_nat_alt del: of_nat_add of_nat_mult)
  qed
qed

text \<open>One shard: the appended users are the ones of its range.\<close>

lemma shard_users:
  assumes "shards_clean ks prefix et eid" "unat (chunk_of cursor) \<le> c" "(c + 1) * 65536 \<le> (2 ^ 64 :: nat)"
    and "length items < need"
  shows "append_likers_from_chunk items (shard_content ks prefix et eid c) (of_nat c) cursor need =
    take need (items @ map scanned (users_between (liked_set ks prefix et eid) cursor (c * 65536) ((c + 1) * 65536)))"
proof -
  let ?bm = "shard_content ks prefix et eid c" and ?L = "liked_set ks prefix et eid"
  let ?first = "if of_nat c = chunk_of cursor then unat (bit_of cursor) + 1 else 0"
  let ?P = "\<lambda>off. string_bit ?bm off \<and> ?first \<le> off"
  let ?user = "\<lambda>off. of_nat (c * 65536 + off) :: uint64"
  have clean: "off < 65536" if "string_bit ?bm off" for off
    using that assms(1) bit_of_bound unfolding string_bit_content shards_clean_def by blast
  have member: "string_bit ?bm off \<longleftrightarrow> ?user off \<in> ?L" if "off < 65536" for off
    using user_of_shard[OF assms(3) that] by (simp add: string_bit_content member_liked_set)
  have U: "users_between ?L cursor (c * 65536) ((c + 1) * 65536) = map ?user (filter ?P [0..<65536])"
  proof -
    have "[c * 65536..<(c + 1) * 65536] = map (\<lambda>off. c * 65536 + off) [0..<65536]"
      using map_add_upt[of "c * 65536" 65536] by (simp add: add.commute algebra_simps)
    then have "users_between ?L cursor (c * 65536) ((c + 1) * 65536) =
        map ?user (filter (\<lambda>off. ?user off \<in> ?L \<and> cursor < ?user off) [0..<65536])"
      by (simp add: users_between_def filter_map comp_def del: upt_eq_Cons_conv)
    also have "filter (\<lambda>off. ?user off \<in> ?L \<and> cursor < ?user off) [0..<65536] = filter ?P [0..<65536]"
      using member chunk_cursor_less[OF assms(2) _ assms(3)] by (intro filter_cong) auto
    finally show ?thesis .
  qed
  have nz: "?user off \<noteq> 0" if "?P off" for off
    using that chunk_cursor_less[OF assms(2) clean assms(3), of off] by (metis less_irrefl word_not_simps(1))
  have at: "users_at (string_bit ?bm) ?first (of_nat c) [0..<n] = map scanned (map ?user (filter ?P [0..<n]))" for n
    using nz by (intro users_at_nonzero) blast
  have len: "off < max (?first div 8) (length ?bm) * 8" if "string_bit ?bm off" for off
  proof -
    have "length ?bm * 8 \<le> max (?first div 8) (length ?bm) * 8" by (intro mult_le_mono1) simp
    with string_bit_bound[OF that] show ?thesis by linarith
  qed
  have whole: "users_at (string_bit ?bm) ?first (of_nat c) [0..<max (?first div 8) (length ?bm) * 8] =
      map scanned (map ?user (filter ?P [0..<65536]))"
    unfolding at using clean len
    by (intro arg_cong[where f = "\<lambda>xs. map scanned (map ?user xs)"] filter_upt_same) blast
  have front: "users_at (string_bit ?bm) ?first (of_nat c) [0..<?first div 8 * 8] = []"
    unfolding at by (auto simp: filter_empty_conv)
  show ?thesis
  proof (cases "?first \<ge> 65536")
    case True
    then have "filter ?P [0..<65536] = []" by (auto simp: filter_empty_conv)
    with True U assms(4) show ?thesis by (simp add: append_likers_from_chunk_def)
  next
    case False
    have "[0..<max (?first div 8) (length ?bm) * 8] = [0..<?first div 8 * 8] @ [?first div 8 * 8..<max (?first div 8) (length ?bm) * 8]"
      by (intro upt_split) simp_all
    then have "users_at (string_bit ?bm) ?first (of_nat c) [?first div 8 * 8..<max (?first div 8) (length ?bm) * 8] =
        map scanned (map ?user (filter ?P [0..<65536]))"
      using whole front by simp
    with False append_bytes_users[OF assms(4), of ?first "of_nat c" "?first div 8" ?bm] U show ?thesis
      by (simp add: append_likers_from_chunk_def)
  qed
qed

lemma users_between_split:
  "lo \<le> mid \<Longrightarrow> mid \<le> hi \<Longrightarrow>
   users_between L cursor lo hi = users_between L cursor lo mid @ users_between L cursor mid hi"
  by (simp add: users_between_def upt_split[of lo mid hi])

lemma users_between_empty [simp]: "hi \<le> lo \<Longrightarrow> users_between L cursor lo hi = []"
  by (simp add: users_between_def)

lemma append_no_chunk [simp]: "append_likers_from_chunk items [] c cursor need = items"
  by (simp add: append_likers_from_chunk_def)

text \<open>The chunks of one pipeline: the users of the whole range.\<close>

lemma append_chunks_users:
  assumes "shards_clean ks prefix et eid" "to * 65536 \<le> (2 ^ 64 :: nat)"
  shows "c \<le> to \<Longrightarrow> unat (chunk_of cursor) \<le> c \<Longrightarrow> length items < need \<Longrightarrow>
    append_chunks cursor need c (map (shard_content ks prefix et eid) [c..<to]) items =
    take need (items @ map scanned (users_between (liked_set ks prefix et eid) cursor (c * 65536) (to * 65536)))"
proof (induction "to - c" arbitrary: c items)
  case 0
  then show ?case by simp
next
  case (Suc n)
  let ?L = "liked_set ks prefix et eid" and ?bm = "shard_content ks prefix et eid c"
  have c: "c < to" "Suc c * 65536 \<le> to * 65536" using Suc.hyps(2) by (auto intro: mult_le_mono1)
  let ?here = "items @ map scanned (users_between ?L cursor (c * 65536) (Suc c * 65536))"
  have one: "append_likers_from_chunk items ?bm (of_nat c) cursor need = take need ?here"
    using shard_users[OF assms(1) Suc.prems(2) _ Suc.prems(3)] c assms(2) by simp
  have split: "users_between ?L cursor (c * 65536) (to * 65536) =
      users_between ?L cursor (c * 65536) (Suc c * 65536) @ users_between ?L cursor (Suc c * 65536) (to * 65536)"
    using c by (intro users_between_split) simp_all
  have up: "[c..<to] = c # [Suc c..<to]" using c by (simp add: upt_conv_Cons)
  have IH: "append_chunks cursor need (Suc c) (map (shard_content ks prefix et eid) [Suc c..<to]) xs =
      take need (xs @ map scanned (users_between ?L cursor (Suc c * 65536) (to * 65536)))" if "length xs < need" for xs
    using Suc.hyps(1)[of "Suc c" xs] Suc.hyps(2) Suc.prems(2) c that by simp
  show ?case
  proof (cases "?bm = []")
    case True
    with one Suc.prems(3) have "users_between ?L cursor (c * 65536) (Suc c * 65536) = []"
      by (cases "users_between ?L cursor (c * 65536) (Suc c * 65536)") auto
    with True IH[OF Suc.prems(3)] split show ?thesis by (simp add: up del: upt_Suc)
  next
    case False
    show ?thesis
    proof (cases "length ?here \<ge> need")
      case True
      with False one split show ?thesis by (simp add: up Let_def del: upt_Suc)
    next
      case less: False
      with False one split IH[of ?here] show ?thesis by (simp add: up Let_def del: upt_Suc)
    qed
  qed
qed

section \<open>The scan over all shards\<close>

context counter_world
begin

lemma fetch_chunks_view:
  assumes "fetch_liker_bitmap_chunks svc et eid prefix c to s = (Inr bms, s')"
  shows "view s' = view s \<and> bms = map (shard_content (view s) prefix et (format_uint eid)) [c..<to]"
  using rd_Inr[OF assms[unfolded fetch_liker_bitmap_chunks_def]]
  by (auto simp: shard_content_def cong: option.case_cong)

lemma scan_loop_users:
  assumes "shards_clean (view s) prefix et (format_uint eid)" "cs_likers_max_chunk svc * 65536 \<le> (2 ^ 64 :: nat)"
    and "unat (chunk_of cursor) \<le> c" "length items \<le> need"
    and "scan_loop svc et eid prefix cursor need c items s = (Inr found, s')"
  shows "view s' = view s \<and> found = take need (items @ map scanned
    (users_between (liked_set (view s) prefix et (format_uint eid)) cursor (c * 65536) (cs_likers_max_chunk svc * 65536)))"
  using assms
proof (induction "cs_likers_max_chunk svc - c" arbitrary: c items s rule: less_induct)
  case less
  let ?M = "cs_likers_max_chunk svc" and ?L = "liked_set (view s) prefix et (format_uint eid)"
  show ?case
  proof (cases "c \<ge> ?M \<or> length items \<ge> need")
    case True
    with less.prems(4,5) show ?thesis by (subst (asm) scan_loop.simps) auto
  next
    case False
    let ?to = "min (c + chunk_fetch_batch) ?M"
    have to: "c \<le> ?to" "?to \<le> ?M" "?to * 65536 \<le> ?M * 65536" using False by auto
    obtain bms s1 where fetch: "fetch_liker_bitmap_chunks svc et eid prefix c ?to s = (Inr bms, s1)"
      and rest: "scan_loop svc et eid prefix cursor need (c + chunk_fetch_batch) (append_chunks cursor need c bms items) s1 =
        (Inr found, s')"
      using less.prems(5) False by (subst (asm) scan_loop.simps) (auto simp: Let_def split: prod.splits sum.splits)
    let ?here = "items @ map scanned (users_between ?L cursor (c * 65536) (?to * 65536))"
    have v: "view s1 = view s" and bms: "bms = map (shard_content (view s) prefix et (format_uint eid)) [c..<?to]"
      using fetch_chunks_view[OF fetch] by auto
    have here: "append_chunks cursor need c bms items = take need ?here"
      unfolding bms using less.prems(2,3) False to
      by (intro append_chunks_users[OF less.prems(1)]) auto
    have step: "view s' = view s1 \<and> found = take need (take need ?here @ map scanned
        (users_between ?L cursor ((c + chunk_fetch_batch) * 65536) (?M * 65536)))"
    proof -
      have dec: "?M - (c + chunk_fetch_batch) < ?M - c" using False unfolding chunk_fetch_batch_def by linarith
      have le: "unat (chunk_of cursor) \<le> c + chunk_fetch_batch" "length (take need ?here) \<le> need"
        using less.prems(3) by simp_all
      show ?thesis
        using less.hyps[OF dec less.prems(1)[folded v] less.prems(2) le rest[unfolded here]] unfolding v .
    qed
    have "users_between ?L cursor (c * 65536) (?M * 65536) = users_between ?L cursor (c * 65536) (?to * 65536) @
        users_between ?L cursor (?to * 65536) (?M * 65536)"
      using to by (intro users_between_split) auto
    moreover have "users_between ?L cursor (?to * 65536) (?M * 65536) =
        users_between ?L cursor ((c + chunk_fetch_batch) * 65536) (?M * 65536)"
      by (cases "c + chunk_fetch_batch \<le> ?M") (auto simp: min_def)
    ultimately have whole: "users_between ?L cursor (c * 65536) (?M * 65536) = users_between ?L cursor (c * 65536) (?to * 65536) @
        users_between ?L cursor ((c + chunk_fetch_batch) * 65536) (?M * 65536)"
      by (simp only:)
    from step show ?thesis unfolding whole v by (simp only: take_take_append map_append append_assoc)
  qed
qed

text \<open>All users above the cursor in the scanned range, ascending.\<close>

end

definition users_after :: "uint64 set \<Rightarrow> nat \<Rightarrow> uint64 \<Rightarrow> uint64 list" where
  "users_after L M cursor = users_between L cursor 0 (M * 65536)"

lemma sorted_of_nats: "n \<le> 2 ^ 64 \<Longrightarrow> sorted_wrt (<) (map of_nat [0..<n] :: uint64 list)"
  by (auto simp: sorted_wrt_iff_nth_less word_less_nat_alt unat_of_nat64)

lemma sorted_users_after: "M * 65536 \<le> (2 ^ 64 :: nat) \<Longrightarrow> sorted_wrt (<) (users_after L M cursor)"
  unfolding users_after_def users_between_def by (intro sorted_wrt_filter sorted_of_nats) simp

lemma set_users_after:
  "M * 65536 \<le> (2 ^ 64 :: nat) \<Longrightarrow> set (users_after L M cursor) = {u \<in> L. cursor < u \<and> unat u < M * 65536}"
proof -
  assume M: "M * 65536 \<le> (2 ^ 64 :: nat)"
  have "u \<in> of_nat ` {0..<M * 65536} \<longleftrightarrow> unat u < M * 65536" for u :: uint64
  proof
    assume "u \<in> of_nat ` {0..<M * 65536}"
    then obtain n where "u = of_nat n" "n < M * 65536" by auto
    with M show "unat u < M * 65536" by (simp add: unat_of_nat64)
  next
    assume "unat u < M * 65536"
    then show "u \<in> of_nat ` {0..<M * 65536}" by (intro image_eqI[of _ _ "unat u"]) simp_all
  qed
  then show ?thesis by (auto simp: users_after_def users_between_def)
qed

lemma users_from_cursor_shard:
  assumes "M * 65536 \<le> (2 ^ 64 :: nat)"
  shows "users_between L cursor (unat (chunk_of cursor) * 65536) (M * 65536) = users_after L M cursor"
proof -
  let ?c = "unat (chunk_of cursor)"
  have low: "users_between L cursor 0 n = []" if "n \<le> ?c * 65536" for n
  proof -
    have "\<not> cursor < of_nat m" if "m < n" for m
    proof -
      have "unat cursor = ?c * 65536 + unat (bit_of cursor)" by (simp add: unat_chunk_of unat_bit_of)
      with that \<open>n \<le> ?c * 65536\<close> have "m \<le> unat cursor" by linarith
      moreover from this have "unat (of_nat m :: uint64) = m"
        using unsigned_less[of cursor, where 'a = nat] by (intro unat_of_nat64) simp
      ultimately have "of_nat m \<le> cursor" by (simp add: word_le_nat_alt)
      then show ?thesis by simp
    qed
    then show ?thesis by (auto simp: users_between_def filter_empty_conv)
  qed
  show ?thesis
  proof (cases "?c \<le> M")
    case True
    with low[of "?c * 65536"] show ?thesis
      by (simp add: users_after_def users_between_split[of 0 "?c * 65536" "M * 65536"])
  next
    case False
    with low[of "M * 65536"] show ?thesis by (simp add: users_after_def)
  qed
qed

lemma filter_after_page:
  fixes xs :: "'a :: linorder list"
  assumes "sorted_wrt (<) xs" "take k xs \<noteq> []"
  shows "filter (\<lambda>y. last (take k xs) < y) xs = drop k xs"
proof -
  let ?t = "take k xs" and ?d = "drop k xs"
  have srt: "sorted_wrt (<) ?t" "\<And>x y. x \<in> set ?t \<Longrightarrow> y \<in> set ?d \<Longrightarrow> x < y"
    using assms(1) sorted_wrt_append[of "(<)" ?t ?d] by auto
  obtain ys z where t: "?t = ys @ [z]" using assms(2) by (metis rev_exhaust)
  have "filter (\<lambda>y. z < y) ?t = []" using srt(1) unfolding t by (auto simp: filter_empty_conv sorted_wrt_append)
  moreover have "filter (\<lambda>y. z < y) ?d = ?d" using srt(2) unfolding t by (auto simp: filter_id_conv)
  ultimately have "filter (\<lambda>y. z < y) (?t @ ?d) = ?d" by (simp only: filter_append append_Nil)
  then have "filter (\<lambda>y. z < y) xs = drop k xs" by (simp only: append_take_drop_id)
  then show ?thesis by (simp only: t last_snoc)
qed

lemma users_after_last:
  assumes "M * 65536 \<le> (2 ^ 64 :: nat)" "take k (users_after L M cursor) \<noteq> []"
  shows "users_after L M (last (take k (users_after L M cursor))) = drop k (users_after L M cursor)"
proof -
  let ?xs = "users_after L M cursor" and ?l = "last (take k (users_after L M cursor))"
  have "?l \<in> set ?xs" using assms(2) by (meson in_set_takeD last_in_set)
  then have "cursor < ?l" by (auto simp: users_after_def users_between_def)
  then have "users_after L M ?l = filter (\<lambda>y. ?l < y) ?xs"
    by (auto simp: users_after_def users_between_def intro!: filter_cong)
  then show ?thesis using filter_after_page[OF sorted_users_after[OF assms(1)] assms(2)] by simp
qed

lemma cut_page_take: "cut_page limit (take (limit + 1) xs) = (take limit xs, limit < length xs)"
  by (auto simp: cut_page_def)

context counter_world
begin

lemma scan_page:
  assumes "shards_clean (view s) prefix et (format_uint eid)" "cs_likers_max_chunk svc * 65536 \<le> (2 ^ 64 :: nat)"
    and "scan_liker_chunks svc et eid prefix cursor limit s = (Inr found, s')"
  shows "view s' = view s \<and> found = take (limit + 1) (map scanned
    (users_after (liked_set (view s) prefix et (format_uint eid)) (cs_likers_max_chunk svc) cursor))"
  using scan_loop_users[OF assms(1,2) order_refl _ assms(3)[unfolded scan_liker_chunks_def]]
  by (simp add: users_from_cursor_shard[OF assms(2)])

end

end
