(* ===== verification/Counter_Batch.thy ===== *)
theory Counter_Batch
  imports Counter_Toggle
begin

text \<open>
  The in-process half of \<open>internal/counter/consumer.go\<close>: the batch of one
  Kafka partition, how a message is added to it, and how the consumer routes
  messages to the batches it keeps per partition. A batch leaves the map when
  it is handed to a flush worker, so batches are values here.
\<close>

section \<open>Messages and batches\<close>

record kafka_message =
  km_partition :: int
  km_offset :: int
  km_key :: string
  km_value :: string

record batch_event =
  be_offset :: int
  be_entity_type :: string
  be_entity_id :: string
  be_index :: int
  be_delta :: int

text \<open>\<open>cb_entities\<close> lists the keys of the Go set, each once.\<close>

record counter_batch =
  cb_partition :: int
  cb_opened_at :: int
  cb_start_offset :: int
  cb_end_offset :: int
  cb_messages :: "kafka_message list"
  cb_events :: "batch_event list"
  cb_entities :: "string list"

definition new_counter_batch :: counter_batch where
  "new_counter_batch = \<lparr>cb_partition = -1, cb_opened_at = 0, cb_start_offset = 0, cb_end_offset = 0,
     cb_messages = [], cb_events = [], cb_entities = []\<rparr>"

definition batch_size :: "counter_batch \<Rightarrow> nat" where
  "batch_size b = length (cb_messages b)"

datatype add_error = MissingEntity | IndexOutOfRange int | ZeroDelta | PartitionMismatch int int | OffsetGap int int

definition event_error :: "counter_event \<Rightarrow> add_error option" where
  "event_error e =
    (if ce_entity_type e = [] \<or> ce_entity_id e = [] then Some MissingEntity
     else if ce_index e < 0 \<or> ce_index e \<ge> int SchemaLen then Some (IndexOutOfRange (ce_index e))
     else if ce_delta e = 0 then Some ZeroDelta else None)"

definition batch_event_of :: "kafka_message \<Rightarrow> counter_event \<Rightarrow> batch_event" where
  "batch_event_of msg e = \<lparr>be_offset = km_offset msg, be_entity_type = ce_entity_type e,
     be_entity_id = ce_entity_id e, be_index = ce_index e, be_delta = ce_delta e\<rparr>"

definition append_event :: "counter_batch \<Rightarrow> kafka_message \<Rightarrow> counter_event \<Rightarrow> counter_batch" where
  "append_event b msg e = b\<lparr>cb_messages := cb_messages b @ [msg],
     cb_events := cb_events b @ [batch_event_of msg e],
     cb_entities := List.insert (dirty_member (ce_entity_type e) (ce_entity_id e)) (cb_entities b)\<rparr>"

definition add_event :: "counter_batch \<Rightarrow> kafka_message \<Rightarrow> counter_event \<Rightarrow> int \<Rightarrow> add_error + counter_batch" where
  "add_event b msg e now =
    (case event_error e of
       Some err \<Rightarrow> Inl err
     | None \<Rightarrow>
         if batch_size b = 0 then
           Inr (append_event (b\<lparr>cb_partition := km_partition msg, cb_opened_at := now,
                  cb_start_offset := km_offset msg, cb_end_offset := km_offset msg\<rparr>) msg e)
         else if km_partition msg \<noteq> cb_partition b then Inl (PartitionMismatch (km_partition msg) (cb_partition b))
         else if km_offset msg \<noteq> cb_end_offset b + 1 then Inl (OffsetGap (km_offset msg) (cb_end_offset b + 1))
         else Inr (append_event (b\<lparr>cb_end_offset := km_offset msg\<rparr>) msg e))"

definition batch_add ::
  "(string \<Rightarrow> counter_event option) \<Rightarrow> counter_batch \<Rightarrow> kafka_message \<Rightarrow> int \<Rightarrow> (add_error option) + counter_batch" where
  "batch_add parse b msg now = (case parse (km_value msg) of
      None \<Rightarrow> Inl None
    | Some e \<Rightarrow> (case add_event b msg e now of Inl err \<Rightarrow> Inl (Some err) | Inr b' \<Rightarrow> Inr b'))"

definition reset_batch :: "counter_batch \<Rightarrow> counter_batch" where
  "reset_batch b = b\<lparr>cb_partition := -1, cb_opened_at := 0, cb_start_offset := 0, cb_end_offset := 0,
     cb_messages := [], cb_events := [], cb_entities := []\<rparr>"

definition collect_dirty_members :: "counter_batch \<Rightarrow> string list" where
  "collect_dirty_members b = cb_entities b"

text \<open>
  \<open>cntKeys\<close>: the keys of the sorted members that parse, and for each such member
  its position in the sorted members (the position before the others are left out).
\<close>

definition cnt_keys :: "counter_batch \<Rightarrow> string list \<times> (string \<times> nat) list" where
  "cnt_keys b =
    (let ms = filter (\<lambda>im. parse_dirty_member (snd im) \<noteq> None) (enumerate 0 (sort (collect_dirty_members b)))
     in (map (\<lambda>(i, m). case parse_dirty_member m of Some (t, d) \<Rightarrow> sds_key t d | None \<Rightarrow> []) ms,
         map (\<lambda>(i, m). (m, i)) ms))"

definition key_index :: "(string \<times> nat) list \<Rightarrow> string \<Rightarrow> nat" where
  "key_index idx m = (case map_of idx m of Some i \<Rightarrow> i | None \<Rightarrow> 0)"

section \<open>The invariant of a batch\<close>

definition event_ok :: "batch_event \<Rightarrow> bool" where
  "event_ok e = (be_entity_type e \<noteq> [] \<and> be_entity_id e \<noteq> [] \<and>
     0 \<le> be_index e \<and> be_index e < int SchemaLen \<and> be_delta e \<noteq> 0)"

abbreviation event_member :: "batch_event \<Rightarrow> string" where
  "event_member e \<equiv> dirty_member (be_entity_type e) (be_entity_id e)"

text \<open>Consecutive offsets of one partition, one valid event per message.\<close>

definition batch_ok :: "counter_batch \<Rightarrow> bool" where
  "batch_ok b =
    (map km_offset (cb_messages b) = map be_offset (cb_events b) \<and>
     map be_offset (cb_events b) = map (\<lambda>i. cb_start_offset b + int i) [0..<length (cb_events b)] \<and>
     (cb_messages b \<noteq> [] \<longrightarrow> cb_end_offset b = cb_start_offset b + int (length (cb_events b)) - 1) \<and>
     (\<forall>m \<in> set (cb_messages b). km_partition m = cb_partition b) \<and>
     (\<forall>e \<in> set (cb_events b). event_ok e) \<and>
     distinct (cb_entities b) \<and> set (cb_entities b) = event_member ` set (cb_events b))"

lemma batch_ok_new [simp]: "batch_ok new_counter_batch"
  by (simp add: batch_ok_def new_counter_batch_def)

lemma batch_size_new [simp]: "batch_size new_counter_batch = 0"
  by (simp add: batch_size_def new_counter_batch_def)

lemma batch_ok_length: "batch_ok b \<Longrightarrow> length (cb_events b) = batch_size b"
  unfolding batch_ok_def batch_size_def by (metis length_map)

lemma reset_batch_ok [simp]: "batch_ok (reset_batch b)" "batch_size (reset_batch b) = 0"
  by (simp_all add: batch_ok_def reset_batch_def batch_size_def)

lemma event_error_None:
  "event_error e = None \<Longrightarrow> event_ok (batch_event_of m e)"
  by (simp add: event_error_def event_ok_def batch_event_of_def split: if_splits)

lemma event_member_of [simp]:
  "event_member (batch_event_of m e) = dirty_member (ce_entity_type e) (ce_entity_id e)"
  by (simp add: batch_event_of_def)

lemma be_offset_of [simp]: "be_offset (batch_event_of m e) = km_offset m"
  by (simp add: batch_event_of_def)

lemma add_event_ok:
  assumes "batch_ok b" "add_event b msg e now = Inr b'"
  shows "batch_ok b'" "batch_size b' = batch_size b + 1" "cb_partition b' = km_partition msg"
    "cb_end_offset b' = km_offset msg" "cb_events b' = cb_events b @ [batch_event_of msg e]"
    "cb_messages b' = cb_messages b @ [msg]"
proof -
  have len: "length (cb_events b) = length (cb_messages b)"
    using batch_ok_length[OF assms(1)] by (simp add: batch_size_def)
  have ev: "event_ok (batch_event_of msg e)"
    using assms(2) event_error_None by (auto simp: add_event_def split: option.splits if_splits)
  show "batch_ok b'"
  proof (cases "batch_size b = 0")
    case True
    with len have "cb_messages b = []" "cb_events b = []" by (auto simp: batch_size_def)
    with assms ev True show ?thesis
      by (auto simp: add_event_def batch_ok_def append_event_def split: option.splits)
  next
    case False
    with assms ev len show ?thesis
      by (auto simp: add_event_def batch_ok_def append_event_def batch_size_def
          split: option.splits if_splits)
  qed
  show "batch_size b' = batch_size b + 1" "cb_partition b' = km_partition msg"
    "cb_end_offset b' = km_offset msg" "cb_events b' = cb_events b @ [batch_event_of msg e]"
    "cb_messages b' = cb_messages b @ [msg]"
    using assms(2) by (auto simp: add_event_def append_event_def batch_size_def split: option.splits if_splits)
qed

lemma add_event_error_iff:
  "(\<exists>err. add_event b msg e now = Inl err) \<longleftrightarrow>
   event_error e \<noteq> None \<or>
   (batch_size b \<noteq> 0 \<and> (km_partition msg \<noteq> cb_partition b \<or> km_offset msg \<noteq> cb_end_offset b + 1))"
  by (auto simp: add_event_def split: option.splits)

end
