(* ===== verification/Counter_Apply.thy ===== *)
theory Counter_Apply
  imports Counter_Batch
begin

text \<open>
  \<open>internal/counter/consumer_watermark.go\<close> and \<open>applyBatch\<close> of
  \<open>consumer.go\<close>: the Lua scripts that apply a batch behind the watermark of
  its partition. A script that ends in an error keeps what it wrote before. Lua
  numbers are doubles; offsets and counts below \<open>2 ^ 53\<close> are exact in them and
  are integers here.
\<close>

section \<open>The scripts\<close>

datatype script_error = OffsetGapReply | BadArgument | Io io_error | ScopeEmpty

definition lua_watermark :: "'s redis \<Rightarrow> string \<Rightarrow> 's \<Rightarrow> int option" where
  "lua_watermark R k s = (case r_get R k s of None \<Rightarrow> Some (-1) | Some v \<Rightarrow> lua_tonumber v)"

text \<open>\<open>KEYS[i]\<close> counts from 1 and is nil out of range; a nil argument is an error.\<close>

definition lua_key :: "string list \<Rightarrow> nat \<Rightarrow> string option" where
  "lua_key keys i = (if 1 \<le> i \<and> i \<le> length keys then Some (keys ! (i - 1)) else None)"

definition hincr_clamped :: "'s redis \<Rightarrow> string \<Rightarrow> string \<Rightarrow> int \<Rightarrow> 's \<Rightarrow> 's" where
  "hincr_clamped R k f d s =
    (let s1 = r_hincrby R k f d s in
     case r_hget R k f s1 of
       None \<Rightarrow> s1
     | Some v \<Rightarrow> (case lua_tonumber v of
           None \<Rightarrow> s1
         | Some n \<Rightarrow> if n < 0 then r_hset R k f 0 s1 else s1))"

record lua_event =
  le_offset :: int
  le_key_index :: nat
  le_field :: string
  le_delta :: int

fun apply_loop ::
  "'s redis \<Rightarrow> string list \<Rightarrow> nat \<Rightarrow> int \<Rightarrow> lua_event list \<Rightarrow> int \<Rightarrow> 's \<Rightarrow> (script_error + int) \<times> 's" where
  "apply_loop R keys entities current [] last_applied s = (Inr last_applied, s)"
| "apply_loop R keys entities current (e # es) last_applied s =
    (if le_offset e \<le> current then apply_loop R keys entities current es last_applied s
     else if last_applied \<ge> 0 \<and> le_offset e \<le> last_applied then (Inl OffsetGapReply, s)
     else (case lua_key keys (le_key_index e + 2 + entities) of
         None \<Rightarrow> (Inl BadArgument, s)
       | Some rebuild_key \<Rightarrow>
           if \<not> r_exists R rebuild_key s then
             (case lua_key keys (le_key_index e + 2) of
                None \<Rightarrow> (Inl BadArgument, s)
              | Some cnt_key \<Rightarrow>
                  apply_loop R keys entities current es (le_offset e)
                    (hincr_clamped R cnt_key (le_field e) (le_delta e) s))
           else apply_loop R keys entities current es (le_offset e) s))"

definition apply_partition_batch_lua ::
  "'s redis \<Rightarrow> string list \<Rightarrow> nat \<Rightarrow> lua_event list \<Rightarrow> 's \<Rightarrow> (script_error + int) \<times> 's" where
  "apply_partition_batch_lua R keys entities events s =
    (let applied_key = hd keys in
     case lua_watermark R applied_key s of
       None \<Rightarrow> (Inl BadArgument, s)
     | Some current \<Rightarrow>
         (case apply_loop R keys entities current events current s of
            (Inl e, s1) \<Rightarrow> (Inl e, s1)
          | (Inr last_applied, s1) \<Rightarrow>
              (Inr last_applied, if last_applied > current then r_set R applied_key (format_int last_applied) None s1 else s1)))"

definition advance_applied_offset_lua :: "'s redis \<Rightarrow> string \<Rightarrow> int \<Rightarrow> 's \<Rightarrow> (script_error + int) \<times> 's" where
  "advance_applied_offset_lua R k target s =
    (case lua_watermark R k s of
       None \<Rightarrow> (Inl BadArgument, s)
     | Some current \<Rightarrow>
         if target \<le> current then (Inr current, s)
         else (Inr target, r_set R k (format_int target) None s))"

text \<open>Running a script: a lost call is an error too.\<close>

definition run_script :: "'s redis \<Rightarrow> ('s \<Rightarrow> (script_error + int) \<times> 's) \<Rightarrow> 's \<Rightarrow> (script_error + int) \<times> 's" where
  "run_script R f s = (case roundtrip R f s of
      (Inl e, s1) \<Rightarrow> (Inl (Io e), s1)
    | (Inr (Inl e), s1) \<Rightarrow> (Inl e, s1)
    | (Inr (Inr n), s1) \<Rightarrow> (Inr n, s1))"

section \<open>The consumer and its use of the scripts\<close>

record 's aggregation_consumer =
  ac_service :: "'s counter_service"
  ac_group_id :: string
  ac_topic :: string
  ac_batch_size :: int
  ac_flush_interval :: int
  ac_flush_retry_delay :: int
  ac_flush_max_attempts :: int
  ac_repair_enabled :: bool
  ac_repair_interval :: int
  ac_repair_batch :: int
  ac_commit :: "kafka_message list \<Rightarrow> 's \<Rightarrow> (io_error + unit) \<times> 's"
  ac_parse :: "string \<Rightarrow> counter_event option"

abbreviation ac_redis :: "'s aggregation_consumer \<Rightarrow> 's redis" where
  "ac_redis c \<equiv> cs_redis (ac_service c)"

definition consumer_offset_key :: "'s aggregation_consumer \<Rightarrow> int \<Rightarrow> string option" where
  "consumer_offset_key c p =
    (if ac_group_id c = [] \<or> ac_topic c = [] then None
     else Some (applied_offset_key (ac_group_id c) (ac_topic c) p))"

definition advance_applied_offset ::
  "'s aggregation_consumer \<Rightarrow> int \<Rightarrow> int \<Rightarrow> 's \<Rightarrow> (script_error + int) \<times> 's" where
  "advance_applied_offset c p off s = (case consumer_offset_key c p of
      None \<Rightarrow> (Inl ScopeEmpty, s)
    | Some k \<Rightarrow> run_script (ac_redis c) (advance_applied_offset_lua (ac_redis c) k off) s)"

text \<open>The marker key of a \<open>cnt:\<close> key: what follows the prefix, cut at its first colon.\<close>

definition rebuild_key_of :: "string \<Rightarrow> string" where
  "rebuild_key_of k = (case str_cut CHR '':'' (drop 4 k) of
      None \<Rightarrow> []
    | Some (t, i) \<Rightarrow> rebuild_marker_key t i)"

definition lua_event_of :: "(string \<times> nat) list \<Rightarrow> batch_event \<Rightarrow> lua_event" where
  "lua_event_of idx e = \<lparr>le_offset = be_offset e, le_key_index = key_index idx (event_member e),
     le_field = index_name (be_index e), le_delta = be_delta e\<rparr>"

definition apply_batch :: "'s aggregation_consumer \<Rightarrow> counter_batch \<Rightarrow> 's \<Rightarrow> (script_error + unit) \<times> 's" where
  "apply_batch c b s =
    (if batch_size b = 0 then (Inr (), s)
     else (case consumer_offset_key c (cb_partition b) of
         None \<Rightarrow> (Inl ScopeEmpty, s)
       | Some applied_key \<Rightarrow>
           (let (keys, idx) = cnt_keys b;
                all_keys = applied_key # keys @ map rebuild_key_of keys;
                events = map (lua_event_of idx) (cb_events b)
            in case run_script (ac_redis c)
                      (apply_partition_batch_lua (ac_redis c) all_keys (length keys) events) s of
                 (Inl e, s1) \<Rightarrow> (Inl e, s1)
               | (Inr _, s1) \<Rightarrow> (Inr (), s1))))"

section \<open>What a run of events does to a hash, on the keyspace alone\<close>

definition ks_hincr_clamped :: "string \<Rightarrow> string \<Rightarrow> int \<Rightarrow> keyspace \<Rightarrow> keyspace" where
  "ks_hincr_clamped k f d ks = ks_hset k f (max 0 (hash_int ks k f + d)) ks"

definition ks_watermark :: "keyspace \<Rightarrow> string \<Rightarrow> int option" where
  "ks_watermark ks k = (case ks_str ks k of None \<Rightarrow> Some (-1) | Some v \<Rightarrow> lua_tonumber v)"

definition cnt_of :: "string \<Rightarrow> string" where
  "cnt_of m = ''cnt:'' @ m"

text \<open>One event at a time: the reference for the script.\<close>

definition count_event :: "batch_event \<Rightarrow> keyspace \<Rightarrow> keyspace" where
  "count_event e ks =
    (if ks_exists (rebuild_key_of (cnt_of (event_member e))) ks then ks
     else ks_hincr_clamped (cnt_of (event_member e)) (index_name (be_index e)) (be_delta e) ks)"

definition count_events :: "batch_event list \<Rightarrow> keyspace \<Rightarrow> keyspace" where
  "count_events es ks = fold count_event es ks"

lemma ks_hincr_clamped_sel [simp]:
  "ks_str (ks_hincr_clamped k f d ks) = ks_str ks"
  "ks_zset (ks_hincr_clamped k f d ks) = ks_zset ks" "ks_set (ks_hincr_clamped k f d ks) = ks_set ks"
  "ks_list (ks_hincr_clamped k f d ks) = ks_list ks"
  "ks_bit (ks_hincr_clamped k f d ks) = ks_bit ks"
  "ks_exists k' (ks_hincr_clamped k f d ks) = (k' = k \<or> ks_exists k' ks)"
  by (auto simp: ks_hincr_clamped_def ks_exists_def fun_upd_def dest: fun_cong split: if_splits)

lemma count_events_simps [simp]:
  "count_events [] ks = ks" "count_events (e # es) ks = count_events es (count_event e ks)"
  "count_events (es @ fs) ks = count_events fs (count_events es ks)"
  by (simp_all add: count_events_def)

lemma count_event_frame [simp]:
  "ks_str (count_event e ks) = ks_str ks" "ks_zset (count_event e ks) = ks_zset ks"
  "ks_set (count_event e ks) = ks_set ks" "ks_list (count_event e ks) = ks_list ks"
  by (simp_all add: count_event_def)

lemma count_events_str [simp]:
  "ks_str (count_events es ks) = ks_str ks" "ks_zset (count_events es ks) = ks_zset ks"
  "ks_set (count_events es ks) = ks_set ks" "ks_list (count_events es ks) = ks_list ks"
  by (induction es arbitrary: ks) simp_all

lemma ks_watermark_cong: "ks_str ks = ks_str ks' \<Longrightarrow> ks_watermark ks = ks_watermark ks'"
  by (simp add: ks_watermark_def fun_eq_iff)

context redis_hashes
begin

lemma lua_watermark_view [simp]: "lua_watermark R k s = ks_watermark (view s) k"
  by (simp add: lua_watermark_def ks_watermark_def)

lemma hincr_clamped_view [simp]:
  "view (hincr_clamped R k f d s) = ks_hincr_clamped k f d (view s)"
proof -
  have "hash_int (view s) k f + d < 0 \<Longrightarrow> ?thesis"
    by (simp add: hincr_clamped_def Let_def ks_hincr_clamped_def ks_hincrby_def ks_hset_def)
  moreover have "\<not> hash_int (view s) k f + d < 0 \<Longrightarrow> ?thesis"
    by (simp add: hincr_clamped_def Let_def ks_hincr_clamped_def ks_hincrby_def ks_hset_def)
  ultimately show ?thesis by blast
qed

end

section \<open>The keys of a batch\<close>

definition batch_clean :: "counter_batch \<Rightarrow> bool" where
  "batch_clean b = (\<forall>m \<in> set (cb_entities b). parse_dirty_member m \<noteq> None)"

text \<open>With valid parts, only an entity type that begins with a colon does not parse.\<close>

lemma parse_dirty_member_iff:
  assumes "t \<noteq> []" "i \<noteq> []"
  shows "parse_dirty_member (dirty_member t i) \<noteq> None \<longleftrightarrow> hd t \<noteq> CHR '':''"
proof (cases "CHR '':'' \<in> set t")
  case False
  with assms show ?thesis using parse_dirty_member_clean[of t i] by (cases t) auto
next
  case True
  then obtain a r where t: "t = a @ CHR '':'' # r" "CHR '':'' \<notin> set a"
    by (meson split_list_first)
  then have "str_cut CHR '':'' (dirty_member t i) = Some (a, r @ CHR '':'' # i)"
    by (simp add: dirty_member_def colon_def cut_append)
  with assms t show ?thesis by (cases a) (auto simp: parse_dirty_member_def)
qed

lemma parse_dirty_member_key:
  "parse_dirty_member m = Some (t, i) \<Longrightarrow> sds_key t i = cnt_of m"
  by (auto dest: parse_dirty_memberD simp: sds_key_def cnt_of_def colon_def)

lemma cnt_keys_clean:
  assumes "batch_clean b"
  shows "cnt_keys b = (map cnt_of (sort (cb_entities b)),
    map (\<lambda>(i, m). (m, i)) (enumerate 0 (sort (cb_entities b))))"
proof -
  let ?ms = "enumerate 0 (sort (cb_entities b))"
  have parse: "\<exists>t i. parse_dirty_member (snd im) = Some (t, i)" if "im \<in> set ?ms" for im
  proof -
    have "snd im \<in> set (cb_entities b)"
      using that by (metis image_eqI list.set_map map_snd_enumerate set_sort)
    with assms show ?thesis by (auto simp: batch_clean_def)
  qed
  then have f: "filter (\<lambda>im. parse_dirty_member (snd im) \<noteq> None) ?ms = ?ms"
    by (auto simp: filter_id_conv)
  moreover have "map (\<lambda>(i, m). case parse_dirty_member m of Some (t, d) \<Rightarrow> sds_key t d | None \<Rightarrow> []) ?ms
      = map (cnt_of \<circ> snd) ?ms"
    using parse parse_dirty_member_key by (fastforce simp: split_beta)
  moreover have "map (cnt_of \<circ> snd) ?ms = map cnt_of (sort (cb_entities b))"
    by (metis map_map map_snd_enumerate)
  ultimately show ?thesis
    unfolding cnt_keys_def collect_dirty_members_def f Let_def by metis
qed

lemma key_index_position:
  assumes "distinct ms" "j < length ms"
  shows "key_index (map (\<lambda>(i, m). (m, i)) (enumerate 0 ms)) (ms ! j) = j"
proof -
  have "map_of (map (\<lambda>(i, m). (m, i)) (enumerate 0 ms)) (ms ! j) = Some j"
  proof (rule map_of_is_SomeI)
    have "map fst (map (\<lambda>(i, m). (m, i)) (enumerate 0 ms)) = map snd (enumerate 0 ms)"
      by (simp add: split_beta comp_def)
    with assms(1) show "distinct (map fst (map (\<lambda>(i, m). (m, i)) (enumerate 0 ms)))" by simp
    show "(ms ! j, j) \<in> set (map (\<lambda>(i, m). (m, i)) (enumerate 0 ms))"
      using assms(2) by (auto simp: in_set_enumerate_eq image_iff intro!: bexI[of _ "(j, ms ! j)"])
  qed
  then show ?thesis by (simp add: key_index_def)
qed

text \<open>Every event finds the key and the marker of its own entity.\<close>

definition finds_keys :: "string list \<Rightarrow> nat \<Rightarrow> (string \<times> nat) list \<Rightarrow> batch_event \<Rightarrow> bool" where
  "finds_keys keys n idx e =
    (lua_key keys (key_index idx (event_member e) + 2) = Some (cnt_of (event_member e)) \<and>
     lua_key keys (key_index idx (event_member e) + 2 + n) = Some (rebuild_key_of (cnt_of (event_member e))))"

lemma batch_finds_keys:
  assumes "batch_ok b" "batch_clean b" "cnt_keys b = (keys, idx)" "e \<in> set (cb_events b)"
  shows "finds_keys (k # keys @ map rebuild_key_of keys) (length keys) idx e"
proof -
  let ?ms = "sort (cb_entities b)"
  have ms: "distinct ?ms" "event_member e \<in> set ?ms"
    using assms(1,4) by (auto simp: batch_ok_def)
  then obtain j where j: "j < length ?ms" "?ms ! j = event_member e" by (metis in_set_conv_nth)
  have ki: "keys = map cnt_of ?ms" "key_index idx (event_member e) = j"
    using assms(2,3) cnt_keys_clean key_index_position[OF ms(1) j(1)] j(2) by auto
  with j show ?thesis by (simp add: finds_keys_def lua_key_def nth_append)
qed

section \<open>The script refines the event-by-event reference\<close>

abbreviation fresh :: "int \<Rightarrow> batch_event list \<Rightarrow> batch_event list" where
  "fresh current \<equiv> filter (\<lambda>e. current < be_offset e)"

context redis_hashes
begin

lemma apply_loop_view:
  assumes "sorted_wrt (<) (map be_offset es)" "\<forall>e \<in> set es. finds_keys keys n idx e"
    "\<forall>e \<in> set es. current < be_offset e \<longrightarrow> l < be_offset e"
  shows "\<exists>s'. apply_loop R keys n current (map (lua_event_of idx) es) l s =
      (Inr (if fresh current es = [] then l else be_offset (last (fresh current es))), s') \<and>
    view s' = count_events (fresh current es) (view s)"
  using assms
proof (induction es arbitrary: l s)
  case Nil
  then show ?case by simp
next
  case (Cons e es)
  have keys: "lua_key keys (le_key_index (lua_event_of idx e) + 2) = Some (cnt_of (event_member e))"
    "lua_key keys (le_key_index (lua_event_of idx e) + 2 + n) = Some (rebuild_key_of (cnt_of (event_member e)))"
    using Cons.prems(2) by (simp_all add: finds_keys_def lua_event_of_def)
  have sel: "le_offset (lua_event_of idx e) = be_offset e" "le_delta (lua_event_of idx e) = be_delta e"
    "le_field (lua_event_of idx e) = index_name (be_index e)"
    by (simp_all add: lua_event_of_def)
  show ?case
  proof (cases "current < be_offset e")
    case False
    then have "apply_loop R keys n current (map (lua_event_of idx) (e # es)) l s =
        apply_loop R keys n current (map (lua_event_of idx) es) l s" by (simp add: sel)
    with Cons.IH[of l s] Cons.prems False show ?thesis by (auto split: if_splits)
  next
    case True
    let ?k = "rebuild_key_of (cnt_of (event_member e))"
    let ?s = "if r_exists R ?k s then s
      else hincr_clamped R (cnt_of (event_member e)) (index_name (be_index e)) (be_delta e) s"
    have l: "\<not> be_offset e \<le> l" using Cons.prems(3) True by simp
    have "apply_loop R keys n current (map (lua_event_of idx) (e # es)) l s =
        apply_loop R keys n current (map (lua_event_of idx) es) (be_offset e) ?s"
      using True l keys by (simp add: sel)
    moreover have "view ?s = count_event e (view s)" by (simp add: count_event_def)
    moreover have "\<forall>e' \<in> set es. current < be_offset e' \<longrightarrow> be_offset e < be_offset e'"
      using Cons.prems(1) by auto
    ultimately show ?thesis
      using Cons.IH[of "be_offset e" ?s] Cons.prems True by (auto split: if_splits)
  qed
qed

end

end
