(* ===== verification/Counter_Watermark.thy ===== *)
theory Counter_Watermark
  imports Counter_Apply
begin

text \<open>
  What the watermark of a partition buys. \<open>deliver\<close> is the abstract step: count
  the events above the watermark, then move it. \<open>apply_batch\<close> refines it in
  every outcome. Over a partition log that Kafka delivers at least once, in
  slices that never jump over an event that was not applied yet, every event
  is counted exactly once.
\<close>

definition deliver :: "string \<Rightarrow> batch_event list \<Rightarrow> keyspace \<Rightarrow> keyspace" where
  "deliver k es ks = (case ks_watermark ks k of
      None \<Rightarrow> ks
    | Some current \<Rightarrow>
        (let new = fresh current es
         in if new = [] then ks
            else ks_set_str k (format_int (be_offset (last new))) None (count_events new ks)))"

definition rising :: "batch_event list \<Rightarrow> bool" where
  "rising es = sorted_wrt (<) (map be_offset es)"

lemma batch_rising: "batch_ok b \<Longrightarrow> rising (cb_events b)"
  by (simp add: batch_ok_def rising_def sorted_wrt_map sorted_wrt_iff_nth_less)

lemma fresh_rising: "rising es \<Longrightarrow> fresh current es \<noteq> [] \<Longrightarrow> current < be_offset (last (fresh current es))"
  using last_in_set[of "fresh current es"] by auto

locale consumer_world = counter_world "ac_service c" view
  for c :: "'s aggregation_consumer" and view +
  assumes commit_view: "view (snd (ac_commit c ms s)) = view s"

context redis_hashes
begin

lemma apply_partition_batch_view:
  assumes "rising es" "\<forall>e \<in> set es. finds_keys (k # keys) n idx e" "ks_watermark (view s) k = Some current"
  shows "\<exists>l s'. apply_partition_batch_lua R (k # keys) n (map (lua_event_of idx) es) s = (Inr l, s') \<and>
    view s' = deliver k es (view s)"
proof -
  obtain s' where s': "apply_loop R (k # keys) n current (map (lua_event_of idx) es) current s =
      (Inr (if fresh current es = [] then current else be_offset (last (fresh current es))), s')"
    "view s' = count_events (fresh current es) (view s)"
    using apply_loop_view[of es "k # keys" n idx current current s] assms by (auto simp: rising_def)
  with assms fresh_rising[OF assms(1), of current] show ?thesis
    by (auto simp: apply_partition_batch_lua_def deliver_def Let_def)
qed

lemma run_script_cases:
  assumes "run_script R f s = (r, s')"
  obtains (ran) s1 x where "view s1 = view s" "f s1 = (x, s')" "is_ok r \<Longrightarrow> is_ok x"
  | (unsent) e where "r = Inl e" "view s' = view s"
proof -
  obtain x s2 where rt: "roundtrip R f s = (x, s2)" by (cases "roundtrip R f s")
  then show thesis
  proof (cases rule: roundtrip_cases)
    case (ok y s1)
    with rt assms show thesis by (intro ran[of s1 y]) (auto simp: run_script_def split: sum.splits)
  next
    case (unsent e)
    with rt assms that(2) show thesis by (auto simp: run_script_def)
  next
    case (lost e s1 y)
    with rt assms show thesis by (intro ran[of s1 y]) (auto simp: run_script_def)
  qed
qed

lemma advance_script_view:
  assumes "advance_applied_offset_lua R k target s = (r, s')"
  shows "view s' = (case ks_watermark (view s) k of
      None \<Rightarrow> view s
    | Some current \<Rightarrow> if target \<le> current then view s else ks_set_str k (format_int target) None (view s))"
  using assms by (auto simp: advance_applied_offset_lua_def split: option.splits if_splits)

end

context consumer_world
begin

lemma apply_batch_view:
  assumes "batch_ok b" "batch_clean b" "consumer_offset_key c (cb_partition b) = Some k"
    and "ks_watermark (view s) k \<noteq> None" "apply_batch c b s = (r, s')"
  shows "view s' = view s \<or> view s' = deliver k (cb_events b) (view s)"
    and "is_ok r \<Longrightarrow> view s' = deliver k (cb_events b) (view s)"
proof (atomize(full), cases "batch_size b = 0")
  case True
  with batch_ok_length[OF assms(1)] assms(4,5)
  show "(view s' = view s \<or> view s' = deliver k (cb_events b) (view s)) \<and>
      (is_ok r \<longrightarrow> view s' = deliver k (cb_events b) (view s))"
    by (auto simp: apply_batch_def deliver_def split: option.splits)
next
  case False
  obtain keys idx where ck: "cnt_keys b = (keys, idx)" by (cases "cnt_keys b")
  let ?f = "apply_partition_batch_lua (ac_redis c) (k # keys @ map rebuild_key_of keys) (length keys)
    (map (lua_event_of idx) (cb_events b))"
  have eff: "view s2 = deliver k (cb_events b) (view s)"
    if "view s1 = view s" "?f s1 = (x, s2)" for s1 x s2
    using apply_partition_batch_view[OF batch_rising[OF assms(1)], of k "keys @ map rebuild_key_of keys"
        "length keys" idx s1] batch_finds_keys[OF assms(1,2) ck] assms(4) that by auto
  obtain x s2 where rs: "run_script (ac_redis c) ?f s = (x, s2)" by (cases "run_script (ac_redis c) ?f s")
  with assms(3,5) ck False have r: "s' = s2" "is_ok r = is_ok x"
    by (auto simp: apply_batch_def split: sum.splits)
  from rs show "(view s' = view s \<or> view s' = deliver k (cb_events b) (view s)) \<and>
      (is_ok r \<longrightarrow> view s' = deliver k (cb_events b) (view s))"
  proof (cases rule: run_script_cases)
    case (ran s1 y)
    with eff[OF ran(1,2)] r show ?thesis by simp
  next
    case (unsent e)
    with r show ?thesis by simp
  qed
qed

end

section \<open>A partition log and its redelivery\<close>

text \<open>The log of a partition: event \<open>i\<close> has offset \<open>i\<close>.\<close>

definition log_ok :: "batch_event list \<Rightarrow> bool" where
  "log_ok log = (\<forall>i < length log. be_offset (log ! i) = int i)"

definition log_slice :: "nat \<Rightarrow> nat \<Rightarrow> 'a list \<Rightarrow> 'a list" where
  "log_slice i n xs = take n (drop i xs)"

lemma fresh_slice:
  assumes "log_ok log" "i \<le> w" "w \<le> length log"
  shows "fresh (int w - 1) (log_slice i n log) = drop w (take (i + n) log)"
proof -
  have drop: "fresh (int w - 1) (drop j xs) = drop w xs"
    if "log_ok xs" "j \<le> w" for j xs
  proof (cases "w \<le> length xs")
    case True
    have "drop j xs = take (w - j) (drop j xs) @ drop w xs"
      using that(2) by (metis append_take_drop_id drop_drop le_add_diff_inverse add.commute)
    moreover have "fresh (int w - 1) (take (w - j) (drop j xs)) = []"
      using that True by (auto simp: filter_empty_conv in_set_conv_nth log_ok_def)
    moreover have "fresh (int w - 1) (drop w xs) = drop w xs"
      using that by (auto simp: filter_id_conv in_set_conv_nth log_ok_def)
    ultimately show ?thesis by (metis append_Nil filter_append)
  next
    case False
    then have "fresh (int w - 1) (drop j xs) = []"
      using that by (auto simp: filter_empty_conv in_set_conv_nth log_ok_def)
    with False show ?thesis by simp
  qed
  have "log_slice i n log = drop i (take (i + n) log)"
    by (simp add: log_slice_def take_drop add.commute)
  moreover have "log_ok (take (i + n) log)" using assms(1) by (simp add: log_ok_def)
  ultimately show ?thesis using drop[of "take (i + n) log" i] assms(2) by simp
qed

text \<open>
  \<open>counted log ks0 k w ks\<close>: starting from \<open>ks0\<close>, exactly the first \<open>w\<close> events of
  the log are counted, each once and in order, and the watermark says so.
\<close>

definition counted :: "batch_event list \<Rightarrow> keyspace \<Rightarrow> string \<Rightarrow> nat \<Rightarrow> keyspace \<Rightarrow> bool" where
  "counted log ks0 k w ks =
    (w \<le> length log \<and> ks_watermark ks k = Some (int w - 1) \<and>
     ks_hash ks = ks_hash (count_events (take w log) ks0) \<and>
     ks_zset ks = ks_zset ks0 \<and> ks_set ks = ks_set ks0 \<and> ks_list ks = ks_list ks0 \<and>
     (\<forall>k'. k' \<noteq> k \<longrightarrow> ks_str ks k' = ks_str ks0 k'))"

lemma applied_offset_key_not_marker: "applied_offset_key g t p \<noteq> rebuild_key_of x"
  by (auto simp: applied_offset_key_def rebuild_key_of_def rebuild_marker_key_def split: option.splits)

text \<open>Two keyspaces that differ at most in the strings of \<open>k\<close> count alike.\<close>

definition alike :: "string \<Rightarrow> keyspace \<Rightarrow> keyspace \<Rightarrow> bool" where
  "alike k ks ks' = (ks_hash ks = ks_hash ks' \<and> ks_zset ks = ks_zset ks' \<and> ks_set ks = ks_set ks' \<and> ks_list ks = ks_list ks' \<and>
     (\<forall>k'. k' \<noteq> k \<longrightarrow> ks_str ks k' = ks_str ks' k'))"

lemma ks_hincr_clamped_hash:
  "ks_hash (ks_hincr_clamped k f d ks) = (ks_hash ks)(k := (ks_hash ks k)(f \<mapsto> max 0 (hash_int ks k f + d)))"
  by (simp add: ks_hincr_clamped_def)

lemma alike_count_events:
  assumes "\<And>x. k \<noteq> rebuild_key_of x"
  shows "alike k ks ks' \<Longrightarrow> alike k (count_events es ks) (count_events es ks')"
proof (induction es arbitrary: ks ks')
  case Nil
  then show ?case by simp
next
  case (Cons e es)
  have "ks_exists (rebuild_key_of x) ks = ks_exists (rebuild_key_of x) ks'" for x
    using Cons.prems assms[of x, THEN not_sym] by (simp add: alike_def ks_exists_def)
  then have "alike k (count_event e ks) (count_event e ks')"
    using Cons.prems by (simp add: count_event_def alike_def ks_hincr_clamped_hash hash_int_def)
  with Cons.IH show ?case by simp
qed

lemma deliver_counted:
  assumes "log_ok log" "counted log ks0 k w ks" "i \<le> w" "\<And>x. k \<noteq> rebuild_key_of x"
  shows "\<exists>w'. counted log ks0 k w' (deliver k (log_slice i n log) ks) \<and> w' = max w (min (i + n) (length log))"
proof -
  have w: "w \<le> length log" "ks_watermark ks k = Some (int w - 1)" using assms(2) by (auto simp: counted_def)
  let ?new = "drop w (take (i + n) log)"
  have new: "fresh (int w - 1) (log_slice i n log) = ?new" by (rule fresh_slice[OF assms(1,3) w(1)])
  show ?thesis
  proof (cases "?new = []")
    case True
    then have "max w (min (i + n) (length log)) = w" using w by auto
    with True new w assms(2) show ?thesis by (simp add: deliver_def)
  next
    case False
    let ?w = "min (i + n) (length log)"
    have le: "w < ?w" using False by auto
    have "last ?new = log ! (?w - 1)"
      using False le by (simp add: last_drop last_conv_nth min.commute)
    moreover have "be_offset (log ! (?w - 1)) = int (?w - 1)"
      using assms(1) le by (auto simp: log_ok_def)
    ultimately have off: "be_offset (last ?new) = int ?w - 1"
      using le by (simp add: of_nat_diff)
    have split: "take ?w log = take w log @ ?new"
      using le by (metis append_take_drop_id min.absorb1 min.commute order_less_imp_le take_take take_all_iff nle_le min_def)
    have "alike k ks (count_events (take w log) ks0)"
      using assms(2) by (simp add: counted_def alike_def)
    from alike_count_events[OF assms(4) this, of ?new]
    have "alike k (count_events ?new ks) (count_events (take ?w log) ks0)"
      unfolding split by simp
    with off new w False le show ?thesis
      by (auto simp: deliver_def counted_def alike_def Let_def ks_watermark_def)
  qed
qed

section \<open>Runs of the consumer over one partition\<close>

text \<open>
  One step applies a batch that is a slice of the log. The slice may start
  before the watermark (a redelivery after a crash or a rebalance), but not
  after the next offset. The outcome of the call is arbitrary: an answer, a
  lost request or a lost reply.
\<close>

inductive redelivered ::
  "'s aggregation_consumer \<Rightarrow> ('s \<Rightarrow> keyspace) \<Rightarrow> string \<Rightarrow> batch_event list \<Rightarrow> 's \<Rightarrow> 's \<Rightarrow> bool"
  for c view k log s0 where
  start: "redelivered c view k log s0 s0"
| step: "redelivered c view k log s0 s \<Longrightarrow> batch_ok b \<Longrightarrow> batch_clean b \<Longrightarrow>
    consumer_offset_key c (cb_partition b) = Some k \<Longrightarrow> cb_events b = log_slice i n log \<Longrightarrow>
    ks_watermark (view s) k = Some current \<Longrightarrow> int i \<le> current + 1 \<Longrightarrow>
    apply_batch c b s = (r, s') \<Longrightarrow> redelivered c view k log s0 s'"

context consumer_world
begin

lemma consumer_offset_key_marker: "consumer_offset_key c p = Some k \<Longrightarrow> k \<noteq> rebuild_key_of x"
  by (auto simp: consumer_offset_key_def applied_offset_key_not_marker split: if_splits)

lemma redelivered_counted:
  assumes "redelivered c view k log s0 s" "log_ok log" "ks_watermark (view s0) k = Some (-1)"
  shows "\<exists>w. counted log (view s0) k w (view s)"
  using assms(1)
proof induction
  case start
  from assms(3) show ?case by (auto simp: counted_def intro!: exI[of _ 0])
next
  case (step s b i n current r s')
  then obtain w where w: "counted log (view s0) k w (view s)" by blast
  with step.hyps have "i \<le> w" by (simp add: counted_def)
  from deliver_counted[OF assms(2) w this consumer_offset_key_marker[OF step.hyps(4)], of n]
  obtain w' where "counted log (view s0) k w' (deliver k (cb_events b) (view s))"
    using step.hyps(5) by auto
  with apply_batch_view(1)[OF step.hyps(2-4) _ step.hyps(8)] step.hyps(6) w
  show ?case by auto
qed

end

section \<open>The value of a counter\<close>

definition clamp_sum :: "int \<Rightarrow> int list \<Rightarrow> int" where
  "clamp_sum v ds = foldl (\<lambda>a d. max 0 (a + d)) v ds"

definition deltas_for :: "string \<Rightarrow> string \<Rightarrow> batch_event list \<Rightarrow> int list" where
  "deltas_for m f es = map be_delta (filter (\<lambda>e. event_member e = m \<and> index_name (be_index e) = f) es)"

lemma hash_int_hincr_clamped [simp]:
  "hash_int (ks_hincr_clamped k f d ks) k' f' =
    (if k' = k \<and> f' = f then max 0 (hash_int ks k f + d) else hash_int ks k' f')"
  by (simp add: ks_hincr_clamped_def)

lemma clamp_sum_simps [simp]:
  "clamp_sum v [] = v" "clamp_sum v (d # ds) = clamp_sum (max 0 (v + d)) ds"
  by (simp_all add: clamp_sum_def)

lemma clamp_sum_nonneg: "0 \<le> v \<Longrightarrow> 0 \<le> clamp_sum v ds"
  by (induction ds arbitrary: v) simp_all

text \<open>While no partial sum is negative the clamp does nothing.\<close>

lemma clamp_sum_exact:
  "0 \<le> v \<Longrightarrow> (\<And>j. j \<le> length ds \<Longrightarrow> 0 \<le> v + sum_list (take j ds)) \<Longrightarrow> clamp_sum v ds = v + sum_list ds"
proof (induction ds arbitrary: v)
  case Nil
  then show ?case by simp
next
  case (Cons d ds)
  have "0 \<le> v + d" using Cons.prems(2)[of 1] by simp
  moreover have "0 \<le> v + d + sum_list (take j ds)" if "j \<le> length ds" for j
    using Cons.prems(2)[of "Suc j"] that by (simp add: algebra_simps)
  ultimately show ?case using Cons.IH[of "v + d"] by (simp add: algebra_simps)
qed

definition no_rebuild :: "keyspace \<Rightarrow> bool" where
  "no_rebuild ks = (\<forall>x. \<not> ks_exists (rebuild_key_of (cnt_of x)) ks)"

lemma cnt_not_marker: "rebuild_key_of x \<noteq> cnt_of m"
  by (auto simp: rebuild_key_of_def rebuild_marker_key_def cnt_of_def split: option.splits)

lemma count_events_value:
  "no_rebuild ks \<Longrightarrow> hash_int (count_events es ks) (cnt_of m) f = clamp_sum (hash_int ks (cnt_of m) f) (deltas_for m f es)"
proof (induction es arbitrary: ks)
  case Nil
  then show ?case by (simp add: deltas_for_def)
next
  case (Cons e es)
  have "no_rebuild (count_event e ks)"
    using Cons.prems cnt_not_marker by (auto simp: no_rebuild_def count_event_def)
  moreover have "hash_int (count_event e ks) (cnt_of m) f =
      (if event_member e = m \<and> index_name (be_index e) = f
       then max 0 (hash_int ks (cnt_of m) f + be_delta e) else hash_int ks (cnt_of m) f)"
    using Cons.prems by (auto simp: count_event_def no_rebuild_def cnt_of_def)
  ultimately show ?case using Cons.IH[of "count_event e ks"] by (simp add: deltas_for_def)
qed

section \<open>A consumer over the in-memory server\<close>

definition mem_consumer :: "mem aggregation_consumer" where
  "mem_consumer = \<lparr>ac_service = faulty_service, ac_group_id = ''counter'', ac_topic = ''counter-events'',
     ac_batch_size = 2, ac_flush_interval = 1000, ac_flush_retry_delay = 1000, ac_flush_max_attempts = 3,
     ac_repair_enabled = True, ac_repair_interval = 60000, ac_repair_batch = 100,
     ac_commit = (\<lambda>ms s. (Inr (), s)), ac_parse = unmarshal_counter_event\<rparr>"

lemma mem_consumer_sel [simp]:
  "ac_service mem_consumer = faulty_service" "ac_group_id mem_consumer = ''counter''"
  "ac_topic mem_consumer = ''counter-events''" "ac_batch_size mem_consumer = 2"
  "ac_flush_max_attempts mem_consumer = 3" "ac_commit mem_consumer = (\<lambda>ms s. (Inr (), s))"
  "ac_parse mem_consumer = unmarshal_counter_event" "ac_repair_batch mem_consumer = 100"
  by (simp_all add: mem_consumer_def)

interpretation mem_cons: consumer_world mem_consumer fst
proof -
  have "counter_world (ac_service mem_consumer) fst" using faulty.counter_world_axioms by simp
  then show "consumer_world mem_consumer fst"
    by (auto simp: consumer_world_def consumer_world_axioms_def)
qed

section \<open>Properties\<close>

text \<open>
  C2: applying a batch is atomic and refines the abstract delivery: in every
  outcome of the call, a script error or a lost reply included, the keyspace is
  untouched or it is the one after counting exactly the events above the
  watermark and moving the watermark to the last of them; an answered call did
  the latter.
\<close>

theorem apply_batch_refines_deliver:
  assumes "consumer_world c view" "batch_ok b" "batch_clean b"
    and "consumer_offset_key c (cb_partition b) = Some k" "ks_watermark (view s) k = Some current"
    and "apply_batch c b s = (r, s')"
  shows "(view s' = view s \<or> view s' = deliver k (cb_events b) (view s)) \<and>
    (is_ok r \<longrightarrow> view s' = deliver k (cb_events b) (view s))"
  using consumer_world.apply_batch_view[OF assms(1-4) _ assms(6)] assms(5) by simp

definition one_event :: "int \<Rightarrow> int \<Rightarrow> batch_event" where
  "one_event off d = \<lparr>be_offset = off, be_entity_type = ''post'', be_entity_id = ''9'',
     be_index = 0, be_delta = d\<rparr>"

definition one_message :: "int \<Rightarrow> kafka_message" where
  "one_message off = \<lparr>km_partition = 0, km_offset = off, km_key = [], km_value = []\<rparr>"

definition two_events :: counter_batch where
  "two_events = \<lparr>cb_partition = 0, cb_opened_at = 0, cb_start_offset = 0, cb_end_offset = 1,
     cb_messages = [one_message 0, one_message 1], cb_events = [one_event 0 1, one_event 1 1],
     cb_entities = [''post:9'']\<rparr>"

definition mem_offset_key :: string where
  "mem_offset_key = applied_offset_key ''counter'' ''counter-events'' 0"

lemma member_post_9 [simp]: "dirty_member ''post'' ''9'' = ''post:9''"
  by (simp add: dirty_member_def colon_def)

lemma two_events_ok: "batch_ok two_events" "batch_clean two_events"
proof -
  show "batch_ok two_events"
    by (auto simp: two_events_def batch_ok_def one_event_def one_message_def event_ok_def SchemaLen_def)
  have "parse_dirty_member ''post:9'' \<noteq> None"
    using parse_dirty_member_iff[of "''post''" "''9''"] by simp
  then show "batch_clean two_events" by (simp add: two_events_def batch_clean_def)
qed

lemma mem_offset_scope [simp]: "consumer_offset_key mem_consumer 0 = Some mem_offset_key"
  by (simp add: consumer_offset_key_def mem_offset_key_def)

lemma watermark_empty [simp]: "ks_watermark empty_keyspace k = Some (-1)"
  by (simp add: ks_watermark_def)

lemma not_exists_empty [simp]: "\<not> ks_exists k empty_keyspace"
  by (simp add: ks_exists_def fun_eq_iff)

lemma no_rebuild_empty [simp]: "no_rebuild empty_keyspace"
  by (simp add: no_rebuild_def)

lemma deliver_two_events:
  "deliver mem_offset_key (cb_events two_events) empty_keyspace =
     ks_set_str mem_offset_key (format_int 1) None (count_events (cb_events two_events) empty_keyspace)"
  by (simp add: deliver_def two_events_def one_event_def)

lemma two_events_value:
  "hash_int (count_events (cb_events two_events) empty_keyspace) (cnt_of ''post:9'') ''like'' = 2"
  unfolding count_events_value[OF no_rebuild_empty]
  by (simp add: two_events_def deltas_for_def one_event_def index_name_def indexToName_def idx_defs)

theorem apply_batch_refines_deliver_witness:
  "\<exists>s'. apply_batch mem_consumer two_events (empty_keyspace, [ReplyLost (IoError ''eof'')]) = (Inl (Io (IoError ''eof'')), s') \<and>
     (fst s' = empty_keyspace \<or> hash_int (fst s') (cnt_of ''post:9'') ''like'' = 2)"
proof -
  let ?s = "(empty_keyspace, [ReplyLost (IoError ''eof'')])"
  obtain r s' where e: "apply_batch mem_consumer two_events ?s = (r, s')"
    by (cases "apply_batch mem_consumer two_events ?s")
  then have r: "r = Inl (Io (IoError ''eof''))"
    by (auto simp: apply_batch_def two_events_def batch_size_def run_script_def roundtrip_def mem_net_def
        split: prod.splits)
  have p: "consumer_offset_key mem_consumer (cb_partition two_events) = Some mem_offset_key"
    by (simp add: two_events_def)
  with apply_batch_refines_deliver[OF mem_cons.consumer_world_axioms two_events_ok p _ e, of "-1"]
  have "fst s' = empty_keyspace \<or> hash_int (fst s') (cnt_of ''post:9'') ''like'' = 2"
    by (auto simp: deliver_two_events two_events_value)
  with e r show ?thesis by blast
qed

text \<open>
  C1: exactly once. Kafka delivers the log of a partition at least once, in
  slices that may start again before the watermark but not after the next
  offset; calls fail, are retried and lose replies at will. In every state the
  consumer can reach, the counter hashes are the ones after counting, each
  once and in order, exactly the events up to the watermark.
\<close>

theorem every_event_counted_once:
  assumes "consumer_world c view" "redelivered c view k log s0 s" "log_ok log"
    and "ks_watermark (view s0) k = Some (-1)"
  shows "\<exists>w. w \<le> length log \<and> ks_watermark (view s) k = Some (int w - 1) \<and>
    ks_hash (view s) = ks_hash (count_events (take w log) (view s0))"
  using consumer_world.redelivered_counted[OF assms] by (auto simp: counted_def)

definition after_two :: mem where
  "after_two = snd (apply_batch mem_consumer two_events (empty_keyspace, [ReplyLost (IoError ''eof'')]))"

definition after_retry :: mem where
  "after_retry = snd (apply_batch mem_consumer two_events after_two)"

lemma two_events_log: "log_ok (cb_events two_events)"
  by (auto simp: log_ok_def two_events_def one_event_def less_Suc_eq)

lemma two_events_slice: "cb_events two_events = log_slice 0 2 (cb_events two_events)"
  by (simp add: log_slice_def two_events_def)

lemma after_retry_reached:
  "redelivered mem_consumer fst mem_offset_key (cb_events two_events)
     (empty_keyspace, [ReplyLost (IoError ''eof'')]) after_retry"
proof -
  let ?s = "(empty_keyspace, [ReplyLost (IoError ''eof'')])"
  have p: "consumer_offset_key mem_consumer (cb_partition two_events) = Some mem_offset_key"
    by (simp add: two_events_def)
  obtain r where r: "apply_batch mem_consumer two_events ?s = (r, after_two)"
    by (cases "apply_batch mem_consumer two_events ?s") (simp add: after_two_def)
  obtain q where q: "apply_batch mem_consumer two_events after_two = (q, after_retry)"
    by (cases "apply_batch mem_consumer two_events after_two") (simp add: after_retry_def)
  have one: "redelivered mem_consumer fst mem_offset_key (cb_events two_events) ?s after_two"
    using redelivered.step[OF redelivered.start two_events_ok p two_events_slice _ _ r, where current = "-1"] by simp
  obtain w where "ks_watermark (fst after_two) mem_offset_key = Some (int w - 1)"
    using mem_cons.redelivered_counted[OF one two_events_log] by (auto simp: counted_def)
  then show ?thesis
    using redelivered.step[OF one two_events_ok p two_events_slice _ _ q, where current = "int w - 1"] by simp
qed

theorem every_event_counted_once_witness:
  "\<exists>w \<le> 2. ks_watermark (fst after_retry) mem_offset_key = Some (int w - 1) \<and>
     ks_hash (fst after_retry) = ks_hash (count_events (take w (cb_events two_events)) empty_keyspace)"
  using every_event_counted_once[OF mem_cons.consumer_world_axioms after_retry_reached two_events_log]
  by (auto simp: two_events_def)

text \<open>
  With no rebuild of the entity under way, the value a counter ends up with
  is the sum of the deltas of its own entity and metric from the value before,
  clamped at zero after every step; where no intermediate sum is negative it is
  the exact sum.
\<close>

theorem counter_value_is_clamped_sum:
  assumes "no_rebuild ks" "0 \<le> hash_int ks (cnt_of m) f"
  shows "hash_int (count_events es ks) (cnt_of m) f = clamp_sum (hash_int ks (cnt_of m) f) (deltas_for m f es) \<and>
    0 \<le> hash_int (count_events es ks) (cnt_of m) f \<and>
    ((\<forall>j \<le> length (deltas_for m f es). 0 \<le> hash_int ks (cnt_of m) f + sum_list (take j (deltas_for m f es))) \<longrightarrow>
      hash_int (count_events es ks) (cnt_of m) f = hash_int ks (cnt_of m) f + sum_list (deltas_for m f es))"
  using count_events_value[OF assms(1)] clamp_sum_nonneg[OF assms(2)] clamp_sum_exact[OF assms(2)] by auto

theorem counter_value_is_clamped_sum_witness:
  "hash_int (count_events [one_event 0 (-1), one_event 1 1] empty_keyspace) (cnt_of ''post:9'') ''like'' = 1"
proof -
  have "deltas_for ''post:9'' ''like'' [one_event 0 (-1), one_event 1 1] = [-1, 1]"
    by (simp add: deltas_for_def one_event_def index_name_def indexToName_def idx_defs)
  then show ?thesis
    using counter_value_is_clamped_sum[OF no_rebuild_empty, of "''post:9''" "''like''"
        "[one_event 0 (-1), one_event 1 1]"]
    by simp
qed

end
