(* ===== verification/Counter_Consumer.thy ===== *)
theory Counter_Consumer
  imports Counter_Watermark
begin

text \<open>
  The consumer loop of \<open>internal/counter/consumer.go\<close>: routing a message to the
  batch of its partition (\<open>handleMessage\<close>), taking expired batches, and the
  flush of a batch with its retries (\<open>flushBatch\<close>, \<open>flushAndReset\<close>). The mutex
  makes each of these one step. A Go map is iterated in any order: where the
  order shows, it is the argument \<open>ps\<close>.
\<close>

type_synonym batches = "int \<Rightarrow> counter_batch option"

section \<open>Construction\<close>

record consumer_config =
  cc_batch_size :: int
  cc_flush_interval_ms :: int
  cc_repair_enabled :: bool
  cc_repair_interval_ms :: int
  cc_repair_batch_size :: int

definition default_batch_size :: int where "default_batch_size = 100"
definition default_flush_interval :: int where "default_flush_interval = 1000"
definition default_repair_interval :: int where "default_repair_interval = 60000"
definition default_flush_max_attempts :: int where "default_flush_max_attempts = 3"
definition default_flush_retry_delay :: int where "default_flush_retry_delay = 1000"

definition positive_or :: "int \<Rightarrow> int \<Rightarrow> int" where
  "positive_or v d = (if v > 0 then v else d)"

text \<open>The repair batch falls back to the default batch size, not to the configured one.\<close>

definition new_aggregation_consumer ::
  "'s counter_service \<Rightarrow> string \<Rightarrow> string \<Rightarrow> (kafka_message list \<Rightarrow> 's \<Rightarrow> (io_error + unit) \<times> 's) \<Rightarrow>
   (string \<Rightarrow> counter_event option) \<Rightarrow> consumer_config option \<Rightarrow> 's aggregation_consumer" where
  "new_aggregation_consumer svc grp topic commit parse cfg =
    (let base = \<lparr>ac_service = svc, ac_group_id = grp, ac_topic = topic,
       ac_batch_size = default_batch_size, ac_flush_interval = default_flush_interval,
       ac_flush_retry_delay = default_flush_retry_delay, ac_flush_max_attempts = default_flush_max_attempts,
       ac_repair_enabled = False, ac_repair_interval = default_repair_interval,
       ac_repair_batch = default_batch_size, ac_commit = commit, ac_parse = parse\<rparr>
     in case cfg of
          None \<Rightarrow> base
        | Some k \<Rightarrow> base\<lparr>
            ac_batch_size := positive_or (cc_batch_size k) default_batch_size,
            ac_flush_interval := positive_or (cc_flush_interval_ms k) default_flush_interval,
            ac_repair_enabled := cc_repair_enabled k,
            ac_repair_interval := positive_or (cc_repair_interval_ms k) default_repair_interval,
            ac_repair_batch := positive_or (cc_repair_batch_size k) default_batch_size\<rparr>)"

definition max_flush_attempts :: "'s aggregation_consumer \<Rightarrow> nat" where
  "max_flush_attempts c = nat (positive_or (ac_flush_max_attempts c) default_flush_max_attempts)"

definition retry_delay :: "'s aggregation_consumer \<Rightarrow> int" where
  "retry_delay c = positive_or (ac_flush_retry_delay c) default_flush_retry_delay"

section \<open>Routing\<close>

definition commit_messages :: "'s aggregation_consumer \<Rightarrow> kafka_message list \<Rightarrow> 's \<Rightarrow> (io_error + unit) \<times> 's" where
  "commit_messages c ms s = ac_commit c ms s"

definition skip_malformed_message :: "'s aggregation_consumer \<Rightarrow> kafka_message \<Rightarrow> 's \<Rightarrow> 's" where
  "skip_malformed_message c msg s =
    (case advance_applied_offset c (km_partition msg) (km_offset msg) s of
       (Inl e, s1) \<Rightarrow> s1
     | (Inr _, s1) \<Rightarrow> snd (commit_messages c [msg] s1))"

definition add_to_batch :: "batches \<Rightarrow> kafka_message \<Rightarrow> counter_event \<Rightarrow> int \<Rightarrow> batches" where
  "add_to_batch bs msg e now =
    (let b = (case bs (km_partition msg) of None \<Rightarrow> new_counter_batch | Some b \<Rightarrow> b) in
     case add_event b msg e now of
       Inl _ \<Rightarrow> bs(km_partition msg \<mapsto> b)
     | Inr b' \<Rightarrow> bs(km_partition msg \<mapsto> b'))"

definition handle_message ::
  "'s aggregation_consumer \<Rightarrow> batches \<Rightarrow> kafka_message \<Rightarrow> int \<Rightarrow> 's \<Rightarrow> counter_batch option \<times> batches \<times> 's" where
  "handle_message c bs msg now s =
    (let p = km_partition msg in
     case ac_parse c (km_value msg) of
       None \<Rightarrow>
         (case bs p of
            Some b \<Rightarrow> if batch_size b > 0 then (Some b, bs(p := None), skip_malformed_message c msg s)
                      else (None, bs, skip_malformed_message c msg s)
          | None \<Rightarrow> (None, bs, skip_malformed_message c msg s))
     | Some e \<Rightarrow>
         (case bs p of
            Some b \<Rightarrow>
              if batch_size b > 0 \<and> km_offset msg \<noteq> cb_end_offset b + 1
              then (Some b, add_to_batch (bs(p := None)) msg e now, s)
              else (case add_event b msg e now of
                 Inl err \<Rightarrow> if batch_size b > 0 then (Some b, bs(p := None), skip_malformed_message c msg s)
                            else (None, bs, skip_malformed_message c msg s)
               | Inr b' \<Rightarrow> if int (batch_size b') \<ge> ac_batch_size c then (Some b', bs(p := None), s)
                           else (None, bs(p \<mapsto> b'), s))
          | None \<Rightarrow>
              (case add_event new_counter_batch msg e now of
                 Inl err \<Rightarrow> (None, bs(p \<mapsto> new_counter_batch), skip_malformed_message c msg s)
               | Inr b' \<Rightarrow> if int (batch_size b') \<ge> ac_batch_size c then (Some b', bs(p := None), s)
                           else (None, bs(p \<mapsto> b'), s))))"

text \<open>Expired batches; empty batches met on the way are dropped.\<close>

fun take_expired_batch :: "int \<Rightarrow> int \<Rightarrow> int list \<Rightarrow> batches \<Rightarrow> counter_batch option \<times> batches" where
  "take_expired_batch interval now [] bs = (None, bs)"
| "take_expired_batch interval now (p # ps) bs =
    (case bs p of
       None \<Rightarrow> take_expired_batch interval now ps bs
     | Some b \<Rightarrow>
         if batch_size b = 0 then take_expired_batch interval now ps (bs(p := None))
         else if now \<ge> cb_opened_at b + interval then (Some b, bs(p := None))
         else take_expired_batch interval now ps bs)"

fun next_batch_deadline :: "int \<Rightarrow> batches \<Rightarrow> int list \<Rightarrow> int option" where
  "next_batch_deadline interval bs [] = None"
| "next_batch_deadline interval bs (p # ps) =
    (case bs p of
       None \<Rightarrow> next_batch_deadline interval bs ps
     | Some b \<Rightarrow>
         if batch_size b = 0 then next_batch_deadline interval bs ps
         else (case next_batch_deadline interval bs ps of
             None \<Rightarrow> Some (cb_opened_at b + interval)
           | Some d \<Rightarrow> Some (min d (cb_opened_at b + interval))))"

section \<open>Flushing\<close>

datatype flush_error = ApplyFailed script_error | CommitFailed io_error

definition flush_batch :: "'s aggregation_consumer \<Rightarrow> counter_batch \<Rightarrow> 's \<Rightarrow> (flush_error + unit) \<times> 's" where
  "flush_batch c b s =
    (if batch_size b = 0 then (Inr (), s)
     else (case apply_batch c b s of
         (Inl e, s1) \<Rightarrow> (Inl (ApplyFailed e), s1)
       | (Inr _, s1) \<Rightarrow> (case commit_messages c (cb_messages b) s1 of
             (Inl e, s2) \<Rightarrow> (Inl (CommitFailed e), s2)
           | (Inr _, s2) \<Rightarrow> (Inr (), s2))))"

definition failed_kafka_record ::
  "'s counter_service \<Rightarrow> string \<Rightarrow> io_error \<Rightarrow> kafka_message \<Rightarrow> counter_event \<Rightarrow> failed_message" where
  "failed_kafka_record svc stage cause msg e = \<lparr>
     fm_stage = stage, fm_topic = cs_failure_topic svc, fm_message_key = km_key msg,
     fm_entity_type = ce_entity_type e, fm_entity_id = ce_entity_id e, fm_metric = ce_metric e,
     fm_delta = ce_delta e, fm_payload = km_value msg,
     fm_error_message = failure_error_message (Some cause), fm_retry_count = 0, fm_status = ''pending''\<rparr>"

definition record_failed_kafka_messages ::
  "'s aggregation_consumer \<Rightarrow> string \<Rightarrow> kafka_message list \<Rightarrow> io_error \<Rightarrow> 's \<Rightarrow> (io_error + unit) \<times> 's" where
  "record_failed_kafka_messages c stage ms cause s =
    (case cs_recorder (ac_service c) of
       None \<Rightarrow> (Inr (), s)
     | Some fr \<Rightarrow>
         if ms = [] then (Inr (), s)
         else fr_create_batch fr
           (List.map_filter (\<lambda>m. map_option (failed_kafka_record (ac_service c) stage cause m) (ac_parse c (km_value m))) ms) s)"

text \<open>
  \<open>flushAndReset\<close>, from attempt number \<open>attempt\<close>: \<open>left\<close> attempts remain, \<open>msg\<close>
  gives the text of an error, and \<open>sleep i\<close> says whether the pause after
  attempt \<open>i\<close> ran to its end (the context was not done). The flag says
  whether the batch was reset.
\<close>

definition drop_exhausted ::
  "'s aggregation_consumer \<Rightarrow> counter_batch \<Rightarrow> io_error \<Rightarrow> 's \<Rightarrow> 's" where
  "drop_exhausted c b cause s =
    (let (_, s1) = record_failed_kafka_messages c ''flush'' (cb_messages b) cause s;
         (_, s2) = mark_dirty_members (ac_service c) (collect_dirty_members b) s1
     in s2)"

fun flush_attempts ::
  "'s aggregation_consumer \<Rightarrow> (flush_error \<Rightarrow> io_error) \<Rightarrow> (nat \<Rightarrow> bool) \<Rightarrow> counter_batch \<Rightarrow> nat \<Rightarrow> nat \<Rightarrow> 's \<Rightarrow> bool \<times> 's" where
  "flush_attempts c msg sleep b 0 attempt s = (True, s)"
| "flush_attempts c msg sleep b (Suc left) attempt s =
    (case flush_batch c b s of
       (Inr _, s1) \<Rightarrow> (True, s1)
     | (Inl e, s1) \<Rightarrow>
         if left = 0 then (True, drop_exhausted c b (msg e) s1)
         else if sleep attempt then flush_attempts c msg sleep b left (Suc attempt) s1
         else (False, s1))"

definition flush_and_reset ::
  "'s aggregation_consumer \<Rightarrow> (flush_error \<Rightarrow> io_error) \<Rightarrow> (nat \<Rightarrow> bool) \<Rightarrow> counter_batch \<Rightarrow> 's \<Rightarrow> counter_batch \<times> 's" where
  "flush_and_reset c msg sleep b s =
    (if batch_size b = 0 then (b, s)
     else (let (done, s1) = flush_attempts c msg sleep b (max_flush_attempts c) 1 s
           in (if done then reset_batch b else b, s1)))"

end
