(* ===== verification/Counter_Flow.thy ===== *)
theory Counter_Flow
  imports Counter_Consumer
begin

text \<open>
  The flow of messages through the consumer: what routing keeps, what a flush
  with retries does to the counters, and the two orders of events in which
  the watermark swallows a batch.
\<close>

section \<open>Deliveries and the watermark\<close>

lemma deliver_below:
  "ks_watermark ks k = Some current \<Longrightarrow> \<forall>e \<in> set es. be_offset e \<le> current \<Longrightarrow> deliver k es ks = ks"
  by (simp add: deliver_def filter_empty_conv leD)

lemma rising_last: "rising es \<Longrightarrow> e \<in> set es \<Longrightarrow> be_offset e \<le> be_offset (last es)"
  by (induction es) (auto simp: rising_def, force dest: last_in_set)

lemma rising_fresh: "rising es \<Longrightarrow> rising (fresh current es)"
  by (simp add: rising_def sorted_wrt_map sorted_wrt_filter)

lemma deliver_watermark:
  assumes "rising es" "ks_watermark ks k = Some current"
  shows "\<exists>w. ks_watermark (deliver k es ks) k = Some w \<and> current \<le> w \<and> (\<forall>e \<in> set es. be_offset e \<le> w)"
proof (cases "fresh current es = []")
  case True
  with assms show ?thesis by (auto simp: deliver_def filter_empty_conv not_less)
next
  case False
  let ?w = "be_offset (last (fresh current es))"
  have cur: "current < ?w" by (rule fresh_rising[OF assms(1) False])
  have "be_offset e \<le> ?w" if "e \<in> set es" for e
    using rising_last[OF rising_fresh[OF assms(1), of current], of e] that cur
    by (cases "current < be_offset e") auto
  with False assms cur show ?thesis
    by (auto simp: deliver_def Let_def ks_watermark_def)
qed

lemma deliver_again:
  assumes "rising es" "ks_watermark ks k \<noteq> None"
  shows "deliver k es (deliver k es ks) = deliver k es ks"
  using deliver_watermark[OF assms(1)] assms(2) deliver_below by fastforce

lemma deliver_sets [simp]: "ks_set (deliver k es ks) = ks_set ks" "ks_list (deliver k es ks) = ks_list ks"
  by (simp_all add: deliver_def Let_def split: option.splits)

section \<open>Routing\<close>

definition batches_ok :: "'s aggregation_consumer \<Rightarrow> batches \<Rightarrow> bool" where
  "batches_ok c bs = (\<forall>p b. bs p = Some b \<longrightarrow> batch_ok b \<and>
     (batch_size b > 0 \<longrightarrow> cb_partition b = p \<and> int (batch_size b) < ac_batch_size c))"

definition pending :: "batches \<Rightarrow> int \<Rightarrow> kafka_message list" where
  "pending bs p = (case bs p of None \<Rightarrow> [] | Some b \<Rightarrow> cb_messages b)"

definition emitted :: "counter_batch option \<Rightarrow> kafka_message list" where
  "emitted out = (case out of None \<Rightarrow> [] | Some b \<Rightarrow> cb_messages b)"

definition message_valid :: "'s aggregation_consumer \<Rightarrow> kafka_message \<Rightarrow> bool" where
  "message_valid c msg = (case ac_parse c (km_value msg) of None \<Rightarrow> False | Some e \<Rightarrow> event_error e = None)"

lemma batch_size_0 [simp]: "batch_size b = 0 \<longleftrightarrow> cb_messages b = []" "0 < batch_size b \<longleftrightarrow> cb_messages b \<noteq> []"
  by (simp_all add: batch_size_def)

lemma new_batch_messages [simp]: "cb_messages new_counter_batch = []"
  by (simp add: new_counter_batch_def)

text \<open>
  What routing one message promises: the invariant, a well-formed batch handed
  out, no message lost or duplicated, the other partitions left alone.
\<close>

definition routed ::
  "'s aggregation_consumer \<Rightarrow> batches \<Rightarrow> kafka_message \<Rightarrow> counter_batch option \<Rightarrow> batches \<Rightarrow> bool" where
  "routed c bs msg out bs' =
    (batches_ok c bs' \<and>
     (\<forall>b. out = Some b \<longrightarrow> batch_ok b \<and> cb_messages b \<noteq> [] \<and> cb_partition b = km_partition msg \<and>
        int (batch_size b) \<le> max 1 (ac_batch_size c)) \<and>
     emitted out @ pending bs' (km_partition msg) =
       pending bs (km_partition msg) @ (if message_valid c msg then [msg] else []) \<and>
     (\<forall>p. p \<noteq> km_partition msg \<longrightarrow> bs' p = bs p))"

lemmas route_defs = handle_message_def add_to_batch_def Let_def pending_def emitted_def message_valid_def routed_def

lemma batches_ok_del: "batches_ok c bs \<Longrightarrow> batches_ok c (bs(p := None))"
  by (simp add: batches_ok_def)

lemma batches_ok_put:
  "batches_ok c bs \<Longrightarrow> batch_ok b \<Longrightarrow>
   (cb_messages b \<noteq> [] \<Longrightarrow> cb_partition b = p \<and> int (batch_size b) < ac_batch_size c) \<Longrightarrow> batches_ok c (bs(p \<mapsto> b))"
  by (simp add: batches_ok_def)

lemma batches_okD:
  "batches_ok c bs \<Longrightarrow> bs p = Some b \<Longrightarrow> batch_ok b \<and>
   (cb_messages b \<noteq> [] \<longrightarrow> cb_partition b = p \<and> int (batch_size b) < ac_batch_size c)"
  by (simp add: batches_ok_def)

lemma add_event_Inl: "add_event b msg e now = Inl err \<Longrightarrow>
    cb_messages b = [] \<or> (km_partition msg = cb_partition b \<and> km_offset msg = cb_end_offset b + 1) \<Longrightarrow>
    event_error e \<noteq> None"
  using add_event_error_iff[of b msg e now] by auto

lemma add_event_Inr: "add_event b msg e now = Inr b' \<Longrightarrow> event_error e = None"
  using add_event_error_iff[of b msg e now] by auto

lemma route_unparsed:
  assumes "batches_ok c bs" "ac_parse c (km_value msg) = None" "handle_message c bs msg now s = (out, bs', s')"
  shows "routed c bs msg out bs'"
proof (cases "bs (km_partition msg)")
  case None
  with assms show ?thesis by (auto simp: route_defs)
next
  case (Some b)
  have "out = (if cb_messages b = [] then None else Some b)"
    "bs' = (if cb_messages b = [] then bs else bs(km_partition msg := None))"
    using assms(2,3) Some by (simp_all add: handle_message_def split: if_splits)
  with Some assms(1,2) batches_okD[OF assms(1) Some] show ?thesis
    by (auto simp: pending_def emitted_def message_valid_def routed_def batches_ok_del le_max_iff_disj)
qed

lemma route_first:
  assumes "batches_ok c bs" "ac_parse c (km_value msg) = Some e" "bs (km_partition msg) = None"
    and "handle_message c bs msg now s = (out, bs', s')"
  shows "routed c bs msg out bs'"
proof (cases "add_event new_counter_batch msg e now")
  case (Inl err)
  with assms add_event_Inl[OF Inl] show ?thesis
    by (auto simp: route_defs intro: batches_ok_put)
next
  case (Inr b')
  with assms add_event_Inr[OF Inr] add_event_ok[OF batch_ok_new Inr] show ?thesis
    by (auto simp: route_defs batches_ok_del intro: batches_ok_put split: if_splits)
qed

lemma route_gap:
  assumes "batches_ok c bs" "ac_parse c (km_value msg) = Some e" "bs (km_partition msg) = Some b"
    and "cb_messages b \<noteq> []" "km_offset msg \<noteq> cb_end_offset b + 1"
    and "handle_message c bs msg now s = (out, bs', s')"
  shows "routed c bs msg out bs'"
proof -
  note b = batches_okD[OF assms(1,3)]
  show ?thesis
  proof (cases "add_event new_counter_batch msg e now")
    case (Inl err)
    with assms b add_event_Inl[OF Inl] show ?thesis
      by (auto simp: route_defs intro: batches_ok_put batches_ok_del split: option.splits)
  next
    case (Inr b')
    have "1 < ac_batch_size c" using b assms(4) by (cases "cb_messages b") (auto simp: batch_size_def)
    with Inr assms b add_event_Inr[OF Inr] add_event_ok[OF batch_ok_new Inr] show ?thesis
      by (auto simp: route_defs intro!: batches_ok_put batches_ok_del)
  qed
qed

lemma route_extend:
  assumes "batches_ok c bs" "ac_parse c (km_value msg) = Some e" "bs (km_partition msg) = Some b"
    and "cb_messages b = [] \<or> km_offset msg = cb_end_offset b + 1"
    and "handle_message c bs msg now s = (out, bs', s')"
  shows "routed c bs msg out bs'"
proof -
  note b = batches_okD[OF assms(1,3)]
  show ?thesis
  proof (cases "add_event b msg e now")
    case (Inl err)
    with assms b add_event_Inl[OF Inl] show ?thesis
      by (auto simp: route_defs batches_ok_del split: if_splits option.splits)
  next
    case (Inr b')
    have "int (batch_size b') \<le> max 1 (ac_batch_size c)"
      using b add_event_ok(2)[OF _ Inr] by (cases "cb_messages b = []") (auto simp: batch_size_def)
    with Inr assms b add_event_Inr[OF Inr] add_event_ok[OF _ Inr] show ?thesis
      by (auto simp: route_defs batches_ok_del intro: batches_ok_put split: if_splits)
  qed
qed

lemma handle_message_routed:
  assumes "batches_ok c bs" "handle_message c bs msg now s = (out, bs', s')"
  shows "routed c bs msg out bs'"
proof (cases "ac_parse c (km_value msg)")
  case None
  then show ?thesis by (rule route_unparsed[OF assms(1) _ assms(2)])
next
  case (Some e)
  then show ?thesis
    using route_first[OF assms(1) Some _ assms(2)] route_gap[OF assms(1) Some _ _ _ assms(2)]
      route_extend[OF assms(1) Some _ _ assms(2)]
    by (cases "bs (km_partition msg)") auto
qed

section \<open>Flushing with retries\<close>

text \<open>Only the dirty set differs.\<close>

definition dirtier :: "keyspace \<Rightarrow> keyspace \<Rightarrow> bool" where
  "dirtier ks ks' = (\<exists>A. ks' = ks \<or> ks' = ks_supd dirty_set_key (\<lambda>S. S \<union> A) ks)"

lemma dirtier_frame:
  "dirtier ks ks' \<Longrightarrow> ks_hash ks' = ks_hash ks \<and> ks_str ks' = ks_str ks \<and> ks_zset ks' = ks_zset ks \<and>
   ks_set ks dirty_set_key \<subseteq> ks_set ks' dirty_set_key"
  by (auto simp: dirtier_def)

lemma dirtier_refl [simp]: "dirtier ks ks"
  by (simp add: dirtier_def)

context redis_sets
begin

lemma sadd_all_view:
  "view (fold (r_sadd R k) ms s) = (if ms = [] then view s else ks_supd k (\<lambda>S. S \<union> set ms) (view s))"
proof (induction ms arbitrary: s)
  case Nil
  then show ?case by simp
next
  case (Cons m ms)
  have "ks_supd k (\<lambda>S. S \<union> set ms) (ks_supd k (insert m) ks) = ks_supd k (\<lambda>S. S \<union> set (m # ms)) ks" for ks
    by (simp add: ks_supd_def)
  with Cons[of "r_sadd R k m s"] show ?case by (auto simp: ks_supd_def)
qed

end

context counter_world
begin

lemma mark_dirty_members_view:
  assumes "mark_dirty_members svc ms s = (r, s')"
  shows "dirtier (view s) (view s')" "is_ok r \<Longrightarrow> set ms \<subseteq> ks_set (view s') dirty_set_key"
  using assms
  by (auto simp: mark_dirty_members_def wr_def dirtier_def sadd_all_view
      elim!: roundtrip_cases split: if_splits)

end

context consumer_world
begin

lemma record_failed_view: "view (snd (record_failed_kafka_messages c st ms e s)) = view s"
  by (auto simp: record_failed_kafka_messages_def create_batch_view split: option.splits)

lemma drop_exhausted_dirtier: "dirtier (view s) (view (drop_exhausted c b e s))"
proof -
  obtain r s1 where r: "record_failed_kafka_messages c ''flush'' (cb_messages b) e s = (r, s1)"
    by (cases "record_failed_kafka_messages c ''flush'' (cb_messages b) e s")
  obtain q s2 where q: "mark_dirty_members (ac_service c) (collect_dirty_members b) s1 = (q, s2)"
    by (cases "mark_dirty_members (ac_service c) (collect_dirty_members b) s1")
  from r q record_failed_view[of "''flush''" "cb_messages b" e s] mark_dirty_members_view(1)[OF q]
  show ?thesis by (simp add: drop_exhausted_def)
qed

lemma flush_batch_view:
  assumes "batch_ok b" "batch_clean b" "consumer_offset_key c (cb_partition b) = Some k"
    and "ks_watermark (view s) k \<noteq> None" "flush_batch c b s = (r, s')"
  shows "view s' = view s \<or> view s' = deliver k (cb_events b) (view s)"
    and "is_ok r \<Longrightarrow> cb_messages b \<noteq> [] \<Longrightarrow> view s' = deliver k (cb_events b) (view s)"
proof -
  obtain q s1 where q: "apply_batch c b s = (q, s1)" by (cases "apply_batch c b s")
  note ab = apply_batch_view[OF assms(1-4) q]
  have "view (snd (commit_messages c (cb_messages b) s1)) = view s1"
    by (simp add: commit_messages_def commit_view)
  with assms(5) q ab show "view s' = view s \<or> view s' = deliver k (cb_events b) (view s)"
    "is_ok r \<Longrightarrow> cb_messages b \<noteq> [] \<Longrightarrow> view s' = deliver k (cb_events b) (view s)"
    by (auto simp: flush_batch_def split: if_splits sum.splits prod.splits)
qed

text \<open>However many attempts are made, the batch is counted at most once.\<close>

lemma flush_attempts_once:
  assumes "batch_ok b" "batch_clean b" "consumer_offset_key c (cb_partition b) = Some k"
    and "ks_watermark (view s0) k \<noteq> None"
  shows "flush_attempts c msg sleep b n i s = (done, s') \<Longrightarrow>
    view s = view s0 \<or> view s = deliver k (cb_events b) (view s0) \<Longrightarrow>
    dirtier (view s0) (view s') \<or> dirtier (deliver k (cb_events b) (view s0)) (view s')"
proof (induction n arbitrary: i s)
  case 0
  then show ?case by auto
next
  case (Suc n)
  let ?D = "deliver k (cb_events b) (view s0)"
  have again: "deliver k (cb_events b) ?D = ?D"
    using deliver_again[OF batch_rising[OF assms(1)]] assms(4) by blast
  have wm: "ks_watermark (view s) k \<noteq> None"
    using Suc.prems(2) assms(4) deliver_watermark[OF batch_rising[OF assms(1)], of "view s0" k] by auto
  obtain q s1 where q: "flush_batch c b s = (q, s1)" by (cases "flush_batch c b s")
  have s1: "view s1 = view s0 \<or> view s1 = ?D"
    using flush_batch_view(1)[OF assms(1-3) wm q] Suc.prems(2) again by auto
  show ?case
  proof (cases q)
    case (Inr u)
    with q Suc.prems(1) s1 show ?thesis by auto
  next
    case (Inl e)
    have "dirtier (view s1) (view (drop_exhausted c b (msg e) s1))" by (rule drop_exhausted_dirtier)
    with Inl q Suc.prems(1) s1 Suc.IH[of "Suc i" s1] show ?thesis
      by (auto split: if_splits)
  qed
qed

end

lemma max_flush_attempts_pos:
  obtains n where "max_flush_attempts c = Suc n"
  by (cases "max_flush_attempts c")
    (auto simp: max_flush_attempts_def positive_or_def default_flush_max_attempts_def split: if_splits)

section \<open>A consumer over a server that answers\<close>

locale consumer_up = consumer_world c view + redis_up "cs_redis (ac_service c)" view
  for c :: "'s aggregation_consumer" and view
begin

lemma run_script_up:
  assumes "\<And>s1. view s1 = view s \<Longrightarrow> is_ok (fst (f s1))"
  shows "is_ok (fst (run_script (ac_redis c) f s))"
proof -
  obtain s1 where s1: "view s1 = view s" "roundtrip (ac_redis c) f s = (Inr (fst (f s1)), snd (f s1))"
    by (rule roundtrip_upE)
  from assms[OF s1(1)] s1(2) show ?thesis by (auto simp: run_script_def split: sum.splits)
qed

lemma apply_batch_up:
  assumes "batch_ok b" "batch_clean b" "consumer_offset_key c (cb_partition b) = Some k"
    and "ks_watermark (view s) k \<noteq> None"
  shows "is_ok (fst (apply_batch c b s))"
proof -
  obtain keys idx where ck: "cnt_keys b = (keys, idx)" by (cases "cnt_keys b")
  let ?f = "apply_partition_batch_lua (ac_redis c) (k # keys @ map rebuild_key_of keys) (length keys)
    (map (lua_event_of idx) (cb_events b))"
  have "is_ok (fst (?f s1))" if "view s1 = view s" for s1
    using apply_partition_batch_view[OF batch_rising[OF assms(1)], of k "keys @ map rebuild_key_of keys"
        "length keys" idx s1] batch_finds_keys[OF assms(1,2) ck] assms(4) that by auto
  then have "is_ok (fst (run_script (ac_redis c) ?f s))" by (rule run_script_up)
  with assms(3) ck show ?thesis
    by (auto simp: apply_batch_def split: sum.splits prod.splits)
qed

lemma flush_attempts_counts:
  assumes "batch_ok b" "batch_clean b" "consumer_offset_key c (cb_partition b) = Some k" "cb_messages b \<noteq> []"
    and "ks_watermark (view s) k \<noteq> None" "flush_attempts c msg sleep b (Suc n) i s = (done, s')"
  shows "dirtier (deliver k (cb_events b) (view s)) (view s')"
proof -
  let ?D = "deliver k (cb_events b) (view s)"
  have rise: "rising (cb_events b)" by (rule batch_rising[OF assms(1)])
  obtain q s1 where q: "flush_batch c b s = (q, s1)" by (cases "flush_batch c b s")
  obtain x s2 where x: "apply_batch c b s = (x, s2)" by (cases "apply_batch c b s")
  with apply_batch_up[OF assms(1-3,5)] have ok: "is_ok x" by simp
  have "view s2 = ?D" using apply_batch_view(2)[OF assms(1-3,5) x] ok by simp
  with ok x q assms(4) commit_view[of "cb_messages b" s2] have s1: "view s1 = ?D"
    by (auto simp: flush_batch_def commit_messages_def split: sum.splits prod.splits)
  have wm: "ks_watermark (view s1) k \<noteq> None"
    using s1 deliver_watermark[OF rise, of "view s" k] assms(5) by auto
  have D: "deliver k (cb_events b) (view s1) = ?D"
    unfolding s1 by (rule deliver_again[OF rise assms(5)])
  show ?thesis
  proof (cases q)
    case (Inr u)
    with q assms(6) s1 show ?thesis by simp
  next
    case (Inl e)
    with q assms(6) s1 D drop_exhausted_dirtier[of s1 b "msg e"]
      flush_attempts_once[OF assms(1-3) wm, of msg sleep n "Suc i" s1 "done" s']
    show ?thesis by (auto split: if_splits)
  qed
qed

lemma advance_up:
  assumes "consumer_offset_key c p = Some k" "ks_watermark (view s) k = Some current" "current < off"
  shows "\<exists>s'. advance_applied_offset c p off s = (Inr off, s') \<and>
    view s' = ks_set_str k (format_int off) None (view s)"
proof -
  let ?f = "advance_applied_offset_lua (ac_redis c) k off"
  obtain s1 where s1: "view s1 = view s" "roundtrip (ac_redis c) ?f s = (Inr (fst (?f s1)), snd (?f s1))"
    by (rule roundtrip_upE)
  moreover have "?f s1 = (Inr off, r_set (ac_redis c) k (format_int off) None s1)"
    using s1(1) assms(2,3) by (simp add: advance_applied_offset_lua_def)
  ultimately show ?thesis using assms(1) by (simp add: advance_applied_offset_def run_script_def)
qed

lemma skip_malformed_up:
  assumes "consumer_offset_key c (km_partition msg) = Some k" "ks_watermark (view s) k = Some current"
    and "current < km_offset msg"
  shows "view (skip_malformed_message c msg s) = ks_set_str k (format_int (km_offset msg)) None (view s)"
  using advance_up[OF assms] commit_view by (auto simp: skip_malformed_message_def commit_messages_def)

text \<open>A batch below the watermark is flushed without counting anything.\<close>

lemma flush_below:
  assumes "batch_ok b" "batch_clean b" "consumer_offset_key c (cb_partition b) = Some k" "cb_messages b \<noteq> []"
    and "ks_watermark (view s) k = Some current" "\<forall>e \<in> set (cb_events b). be_offset e \<le> current"
    and "\<And>s. is_ok (fst (ac_commit c (cb_messages b) s))"
    and "flush_and_reset c msg sleep b s = (b', s')"
  shows "view s' = view s \<and> batch_size b' = 0"
proof -
  obtain n where n: "max_flush_attempts c = Suc n" by (rule max_flush_attempts_pos)
  obtain x s1 where x: "apply_batch c b s = (x, s1)" by (cases "apply_batch c b s")
  have "is_ok x" using apply_batch_up[OF assms(1-3)] assms(5) x by (metis fst_conv option.discI)
  moreover have "view s1 = view s"
    using apply_batch_view[OF assms(1-3) _ x] deliver_below[OF assms(5,6)] assms(5) by auto
  moreover obtain s2 where "ac_commit c (cb_messages b) s1 = (Inr (), s2)" "view s2 = view s1"
    using assms(7)[of s1] commit_view[of "cb_messages b" s1] by (cases "ac_commit c (cb_messages b) s1") auto
  ultimately have "flush_batch c b s = (Inr (), s2)" "view s2 = view s"
    using x assms(4) by (auto simp: flush_batch_def commit_messages_def split: sum.splits)
  with assms(4,8) n show ?thesis
    by (auto simp: flush_and_reset_def reset_batch_def)
qed

end

definition up_consumer :: "mem aggregation_consumer" where
  "up_consumer = mem_consumer\<lparr>ac_service := mem_service\<rparr>"

lemma up_consumer_sel [simp]:
  "ac_service up_consumer = mem_service" "ac_commit up_consumer = (\<lambda>ms s. (Inr (), s))"
  "ac_parse up_consumer = unmarshal_counter_event" "ac_batch_size up_consumer = 2"
  "ac_repair_batch up_consumer = 100"
  "consumer_offset_key up_consumer p = consumer_offset_key mem_consumer p"
  by (simp_all add: up_consumer_def consumer_offset_key_def)

interpretation up_cons: consumer_up up_consumer fst
proof -
  have "counter_world_up (ac_service up_consumer) fst" using mem_svc.counter_world_up_axioms by simp
  then show "consumer_up up_consumer fst"
    by (auto simp: consumer_up_def consumer_world_def consumer_world_axioms_def counter_world_up_def)
qed

section \<open>Properties\<close>

text \<open>
  C6: routing a message keeps every pending batch well formed (consecutive
  offsets of its own partition, one valid event per message, below the batch
  size), hands out only such batches, neither loses nor duplicates nor reorders
  a valid message, drops exactly the invalid ones, and leaves the other
  partitions alone.
\<close>

theorem routing_keeps_messages:
  assumes "batches_ok c bs" "handle_message c bs msg now s = (out, bs', s')"
  shows "batches_ok c bs' \<and>
    (\<forall>b. out = Some b \<longrightarrow> batch_ok b \<and> cb_messages b \<noteq> [] \<and> cb_partition b = km_partition msg \<and>
       int (batch_size b) \<le> max 1 (ac_batch_size c)) \<and>
    emitted out @ pending bs' (km_partition msg) =
      pending bs (km_partition msg) @ (if message_valid c msg then [msg] else []) \<and>
    (\<forall>p. p \<noteq> km_partition msg \<longrightarrow> bs' p = bs p)"
  using handle_message_routed[OF assms] by (simp add: routed_def)

definition like_message :: "int \<Rightarrow> kafka_message" where
  "like_message off = \<lparr>km_partition = 0, km_offset = off, km_key = [],
     km_value = marshal_counter_event (toggle_event 1 ''post'' ''9'' ''like'' 7 1)\<rparr>"

lemma like_message_valid: "message_valid mem_consumer (like_message off)"
proof -
  let ?e = "toggle_event 1 ''post'' ''9'' ''like'' 7 1"
  have "ce_index ?e = 0" "ce_delta ?e = 1"
    by (simp_all add: toggle_event_def NameToIdx_def nameToIdx_def idx_defs)
  then have "unmarshal_counter_event (marshal_counter_event ?e) = Some ?e" "event_error ?e = None"
    by (simp_all add: unmarshal_marshal in_int64_def int64_min_def int64_max_def event_error_def SchemaLen_def
        toggle_event_def)
  then show ?thesis by (simp add: message_valid_def like_message_def)
qed

definition gap_step :: "counter_batch option \<times> batches \<times> mem" where
  "gap_step = handle_message mem_consumer [0 \<mapsto> two_events\<lparr>cb_messages := [one_message 0],
      cb_events := [one_event 0 1], cb_end_offset := 0\<rparr>] (like_message 5) 0 (empty_keyspace, [])"

theorem routing_keeps_messages_witness:
  "emitted (fst gap_step) @ pending (fst (snd gap_step)) 0 = [one_message 0, like_message 5]"
proof -
  let ?b = "two_events\<lparr>cb_messages := [one_message 0], cb_events := [one_event 0 1], cb_end_offset := 0\<rparr>"
  obtain out bs' s' where g: "gap_step = (out, bs', s')" by (cases gap_step)
  have "batches_ok mem_consumer [0 \<mapsto> ?b]"
    using two_events_ok(1) by (auto simp: batches_ok_def batch_ok_def two_events_def one_event_def
        one_message_def batch_size_def split: if_splits)
  moreover have "message_valid mem_consumer (like_message 5)" by (rule like_message_valid)
  moreover have "km_partition (like_message 5) = 0" by (simp add: like_message_def)
  ultimately show ?thesis
    using routing_keeps_messages[OF _ g[unfolded gap_step_def]] unfolding g
    by (simp add: pending_def)
qed

text \<open>
  C4: a flush counts a batch at most once, however many attempts are made and
  whatever they answer (commits that fail after the counters moved included):
  afterwards the hashes, bitmaps and indexes are the ones before, or the ones
  after one delivery of the batch.
\<close>

theorem flush_counts_at_most_once:
  assumes "consumer_world c view" "batch_ok b" "batch_clean b"
    and "consumer_offset_key c (cb_partition b) = Some k" "ks_watermark (view s) k \<noteq> None"
    and "flush_and_reset c msg sleep b s = (b', s')"
  shows "\<exists>ks \<in> {view s, deliver k (cb_events b) (view s)}. ks_hash (view s') = ks_hash ks \<and>
    ks_str (view s') = ks_str ks \<and> ks_zset (view s') = ks_zset ks"
proof (cases "cb_messages b = []")
  case True
  with assms(6) show ?thesis by (simp add: flush_and_reset_def)
next
  case False
  obtain "done" s1 where f: "flush_attempts c msg sleep b (max_flush_attempts c) 1 s = (done, s1)"
    by (cases "flush_attempts c msg sleep b (max_flush_attempts c) 1 s")
  with False assms(6) have "s' = s1" by (simp add: flush_and_reset_def)
  with consumer_world.flush_attempts_once[OF assms(1-5) f] dirtier_frame show ?thesis by blast
qed

definition flaky_flush :: "counter_batch \<times> mem" where
  "flaky_flush = flush_and_reset mem_consumer (\<lambda>_. IoError ''apply'') (\<lambda>_. True) two_events
     (empty_keyspace, [ReplyLost (IoError ''eof''), NotSent (IoError ''refused'')])"

theorem flush_counts_at_most_once_witness:
  "hash_int (fst (snd flaky_flush)) (cnt_of ''post:9'') ''like'' \<in> {0, 2}"
proof -
  obtain b' s' where f: "flaky_flush = (b', s')" by (cases flaky_flush)
  have p: "consumer_offset_key mem_consumer (cb_partition two_events) = Some mem_offset_key"
    by (simp add: two_events_def)
  have "hash_int (deliver mem_offset_key (cb_events two_events) empty_keyspace) (cnt_of ''post:9'') ''like'' = 2"
    unfolding deliver_two_events by (simp add: two_events_value)
  with flush_counts_at_most_once[OF mem_cons.consumer_world_axioms two_events_ok p _ f[unfolded flaky_flush_def]]
  show ?thesis unfolding f by (auto simp: hash_int_def[of "fst s'"] hash_int_def split: option.splits)
qed

text \<open>
  C5: over a server that answers, a flush counts the batch exactly once, also
  when every commit to Kafka fails and the attempts are used up.
\<close>

theorem flush_counts_when_up:
  assumes "consumer_up c view" "batch_ok b" "batch_clean b" "cb_messages b \<noteq> []"
    and "consumer_offset_key c (cb_partition b) = Some k" "ks_watermark (view s) k \<noteq> None"
    and "flush_and_reset c msg sleep b s = (b', s')"
  shows "ks_hash (view s') = ks_hash (deliver k (cb_events b) (view s)) \<and>
    ks_str (view s') = ks_str (deliver k (cb_events b) (view s))"
proof -
  obtain n where n: "max_flush_attempts c = Suc n" by (rule max_flush_attempts_pos)
  obtain "done" s1 where f: "flush_attempts c msg sleep b (Suc n) 1 s = (done, s1)"
    by (cases "flush_attempts c msg sleep b (Suc n) 1 s")
  with n assms(4,7) have "s' = s1" by (simp add: flush_and_reset_def)
  with consumer_up.flush_attempts_counts[OF assms(1-3,5,4,6) f] dirtier_frame show ?thesis by blast
qed

definition good_flush :: "counter_batch \<times> mem" where
  "good_flush = flush_and_reset up_consumer (\<lambda>_. IoError ''apply'') (\<lambda>_. True) two_events (empty_keyspace, [])"

theorem flush_counts_when_up_witness:
  "hash_int (fst (snd good_flush)) (cnt_of ''post:9'') ''like'' = 2"
proof -
  obtain b' s' where f: "good_flush = (b', s')" by (cases good_flush)
  have p: "consumer_offset_key up_consumer (cb_partition two_events) = Some mem_offset_key"
    "cb_messages two_events \<noteq> []"
    by (simp_all add: two_events_def)
  have "hash_int (deliver mem_offset_key (cb_events two_events) empty_keyspace) (cnt_of ''post:9'') ''like'' = 2"
    unfolding deliver_two_events by (simp add: two_events_value)
  with flush_counts_when_up[OF up_cons.consumer_up_axioms two_events_ok p(2,1) _ f[unfolded good_flush_def]]
  show ?thesis unfolding f by (simp add: hash_int_def)
qed

text \<open>
  C7: a malformed message that arrives while a batch of its partition is
  pending moves the watermark past the pending batch before the batch is
  flushed: over servers that answer, the batch handed out is then flushed and
  committed without one of its events being counted, and none of its entities
  is marked dirty.
\<close>

theorem malformed_message_drops_pending_batch:
  assumes "consumer_up c view" "\<And>ms s. is_ok (fst (ac_commit c ms s))"
    and "ac_parse c (km_value msg) = None" "bs (km_partition msg) = Some b" "cb_messages b \<noteq> []"
    and "batch_ok b" "batch_clean b" "cb_partition b = km_partition msg"
    and "\<forall>e \<in> set (cb_events b). be_offset e < km_offset msg"
    and "consumer_offset_key c (km_partition msg) = Some k"
    and "ks_watermark (view s) k = Some current" "current < km_offset msg"
    and "handle_message c bs msg now s = (out, bs', s1)"
    and "flush_and_reset c err sleep b s1 = (b', s2)"
  shows "out = Some b \<and> bs' (km_partition msg) = None \<and> batch_size b' = 0 \<and>
    ks_hash (view s2) = ks_hash (view s) \<and> ks_set (view s2) = ks_set (view s)"
proof -
  have h: "out = Some b" "bs' = bs(km_partition msg := None)" "s1 = skip_malformed_message c msg s"
    using assms(3,4,5,13) by (auto simp: handle_message_def)
  have v: "view s1 = ks_set_str k (format_int (km_offset msg)) None (view s)"
    unfolding h(3) by (rule consumer_up.skip_malformed_up[OF assms(1,10,11,12)])
  then have "ks_watermark (view s1) k = Some (km_offset msg)" by (simp add: ks_watermark_def)
  with consumer_up.flush_below[OF assms(1,6,7) _ assms(5) this _ assms(2,14)] assms(8,9,10)
  have "view s2 = view s1 \<and> batch_size b' = 0" by (auto simp: less_imp_le)
  with h v show ?thesis by simp
qed

definition broken_message :: kafka_message where
  "broken_message = \<lparr>km_partition = 0, km_offset = 2, km_key = [], km_value = ''{''\<rparr>"

definition dropped_batch :: "counter_batch option \<times> batches \<times> mem" where
  "dropped_batch = handle_message up_consumer [0 \<mapsto> two_events] broken_message 0 (empty_keyspace, [])"

definition dropped_flush :: "counter_batch \<times> mem" where
  "dropped_flush = flush_and_reset up_consumer (\<lambda>_. IoError ''apply'') (\<lambda>_. True) two_events (snd (snd dropped_batch))"

theorem malformed_message_drops_pending_batch_witness:
  "fst dropped_batch = Some two_events \<and>
   hash_int (fst (snd dropped_flush)) (cnt_of ''post:9'') ''like'' = 0 \<and>
   ks_set (fst (snd dropped_flush)) dirty_set_key = {}"
proof -
  obtain out bs' s1 where d: "dropped_batch = (out, bs', s1)" by (cases dropped_batch)
  obtain b' s2 where f: "flush_and_reset up_consumer (\<lambda>_. IoError ''apply'') (\<lambda>_. True) two_events s1 = (b', s2)"
    by (cases "flush_and_reset up_consumer (\<lambda>_. IoError ''apply'') (\<lambda>_. True) two_events s1")
  have flush: "dropped_flush = (b', s2)" unfolding dropped_flush_def d using f by simp
  have "ac_parse up_consumer (km_value broken_message) = None"
    by (simp add: broken_message_def unmarshal_counter_event_def json_key_def)
  note * = malformed_message_drops_pending_batch[OF up_cons.consumer_up_axioms _ this _ _ two_events_ok _ _ _ _ _
      d[unfolded dropped_batch_def] f]
  have "out = Some two_events \<and> bs' (km_partition broken_message) = None \<and> batch_size b' = 0 \<and>
    ks_hash (fst s2) = ks_hash (fst ((empty_keyspace, []) :: mem)) \<and>
    ks_set (fst s2) = ks_set (fst ((empty_keyspace, []) :: mem))"
    by (rule *[where k = mem_offset_key and current = "-1"])
      (auto simp: broken_message_def two_events_def one_event_def)
  then show ?thesis unfolding d flush by (simp add: hash_int_def)
qed

text \<open>
  The watermark does not wait for an earlier batch of the partition. When
  two flush workers, or a retry, let a later batch be applied first, the earlier
  one is taken for a replay: applying it afterwards leaves the keyspace as it is.
\<close>

theorem overtaken_batch_is_lost:
  assumes "consumer_world c view" "batch_ok b1" "batch_clean b1" "batch_ok b2" "batch_clean b2"
    and "consumer_offset_key c (cb_partition b1) = Some k" "cb_partition b2 = cb_partition b1"
    and "cb_events b2 \<noteq> []" "\<forall>e1 \<in> set (cb_events b1). \<forall>e2 \<in> set (cb_events b2). be_offset e1 < be_offset e2"
    and "ks_watermark (view s) k \<noteq> None"
    and "apply_batch c b2 s = (Inr u2, s2)" "apply_batch c b1 s2 = (r1, s1)"
  shows "view s1 = view s2 \<and> view s2 = deliver k (cb_events b2) (view s)"
proof -
  have v2: "view s2 = deliver k (cb_events b2) (view s)"
    using consumer_world.apply_batch_view(2)[OF assms(1,4,5) _ _ assms(11)] assms(6,7,10) by simp
  obtain current where "ks_watermark (view s) k = Some current" using assms(10) by blast
  from deliver_watermark[OF batch_rising[OF assms(4)] this]
  obtain w where w: "ks_watermark (view s2) k = Some w" "\<forall>e \<in> set (cb_events b2). be_offset e \<le> w"
    unfolding v2 by blast
  with assms(8,9) have "\<forall>e \<in> set (cb_events b1). be_offset e \<le> w"
    by (metis hd_in_set less_imp_le order_trans)
  from deliver_below[OF w(1) this]
    consumer_world.apply_batch_view(1)[OF assms(1-3,6) _ assms(12)] w(1) v2
  show ?thesis by auto
qed

definition later_event :: counter_batch where
  "later_event = \<lparr>cb_partition = 0, cb_opened_at = 0, cb_start_offset = 2, cb_end_offset = 2,
     cb_messages = [one_message 2], cb_events = [one_event 2 1], cb_entities = [''post:9'']\<rparr>"

definition after_later :: mem where
  "after_later = snd (apply_batch up_consumer later_event (empty_keyspace, []))"

definition after_earlier :: mem where
  "after_earlier = snd (apply_batch up_consumer two_events after_later)"

theorem overtaken_batch_is_lost_witness:
  "hash_int (fst after_earlier) (cnt_of ''post:9'') ''like'' = 1"
proof -
  have ok: "batch_ok later_event" "batch_clean later_event"
    using two_events_ok(2) by (auto simp: later_event_def two_events_def batch_clean_def batch_ok_def one_event_def
        one_message_def event_ok_def SchemaLen_def)
  have p: "consumer_offset_key up_consumer (cb_partition later_event) = Some mem_offset_key"
    "consumer_offset_key up_consumer (cb_partition two_events) = Some mem_offset_key"
    by (simp_all add: later_event_def two_events_def)
  have "is_ok (fst (apply_batch up_consumer later_event (empty_keyspace, [])))"
    by (rule up_cons.apply_batch_up[OF ok p(1)]) simp
  then obtain u where l: "apply_batch up_consumer later_event (empty_keyspace, []) = (Inr u, after_later)"
    by (metis after_later_def is_okE prod.collapse)
  obtain r where e: "apply_batch up_consumer two_events after_later = (r, after_earlier)"
    by (metis after_earlier_def prod.collapse)
  have "fst after_earlier = deliver mem_offset_key (cb_events later_event) empty_keyspace"
    using overtaken_batch_is_lost[OF up_cons.consumer_world_axioms two_events_ok ok p(2) _ _ _ _ l e]
    by (auto simp: later_event_def two_events_def one_event_def)
  moreover have "deltas_for ''post:9'' ''like'' (cb_events later_event) = [1]"
    by (simp add: later_event_def deltas_for_def one_event_def index_name_def indexToName_def idx_defs)
  moreover have "fresh (-1) (cb_events later_event) = cb_events later_event" "cb_events later_event \<noteq> []"
    by (simp_all add: later_event_def one_event_def)
  ultimately show ?thesis
    by (simp add: deliver_def count_events_value Let_def)
qed

end
