(* ===== verification/Counter_Repair.thy ===== *)
theory Counter_Repair
  imports Counter_Flow Counter_Rebuild
begin

text \<open>
  The repair loop of \<open>internal/counter/consumer.go\<close>: the leader pops dirty
  members and rebuilds the hash of each from the bitmaps, under the lock of the
  entity and with its rebuild marker set. The watchdog of the marker only
  prolongs its time to live; it is the step \<open>marker_tick\<close>. The lock tokens
  are arguments.
\<close>

datatype repair_error =
    DropInvalid io_error | AcquireFailed io_error | LockNotAcquired
  | BuildSnapshot io_error | SetSds io_error | ClearDirty io_error | PopFailed io_error

definition repair_leader_lock_key :: string where
  "repair_leader_lock_key = ''lock:counter:repair''"

definition rebuild_marker_ttl :: int where "rebuild_marker_ttl = 30000"

definition marker_tick :: "'s redis \<Rightarrow> string \<Rightarrow> 's \<Rightarrow> 's" where
  "marker_tick R marker s = snd (wr R (r_expire R marker rebuild_marker_ttl) s)"

text \<open>From the snapshot to the cleared dirty member; the deferred clean-up follows.\<close>

definition repair_locked ::
  "'s counter_service \<Rightarrow> string \<Rightarrow> string \<Rightarrow> string \<Rightarrow> 's \<Rightarrow> (repair_error + unit) \<times> 's" where
  "repair_locked svc member et eid s =
    (case build_snapshot_from_bitmap svc et eid s of
       (Inl e, s1) \<Rightarrow> (Inl (BuildSnapshot e), s1)
     | (Inr m, s1) \<Rightarrow> (case write_snapshot (cs_redis svc) (sds_key et eid) m s1 of
           (Inl e, s2) \<Rightarrow> (Inl (SetSds e), s2)
         | (Inr _, s2) \<Rightarrow> (case clear_dirty_members svc [member] s2 of
               (Inl e, s3) \<Rightarrow> (Inl (ClearDirty e), s3)
             | (Inr _, s3) \<Rightarrow> (Inr (), reset_backoff svc et eid s3))))"

definition repair_dirty_member ::
  "'s aggregation_consumer \<Rightarrow> string \<Rightarrow> string \<Rightarrow> 's \<Rightarrow> (repair_error + unit) \<times> 's" where
  "repair_dirty_member c token member s =
    (let svc = ac_service c; R = cs_redis svc in
     case parse_dirty_member member of
       None \<Rightarrow> (case clear_dirty_members svc [member] s of
           (Inl e, s1) \<Rightarrow> (Inl (DropInvalid e), s1)
         | (Inr _, s1) \<Rightarrow> (Inr (), s1))
     | Some (et, eid) \<Rightarrow>
         (case try_acquire R (rebuild_lock_key et eid) (cs_lock_options svc) token s of
            (Inl e, s1) \<Rightarrow> (Inl (AcquireFailed e), s1)
          | (Inr None, s1) \<Rightarrow> (Inl LockNotAcquired, s1)
          | (Inr (Some l), s1) \<Rightarrow>
              (let marker = rebuild_marker_key et eid;
                   (_, s2) = wr R (r_set R marker ''1'' (Some rebuild_marker_ttl)) s1;
                   (r, s3) = repair_locked svc member et eid s2;
                   s4 = release R l s3;
                   (_, s5) = wr R (r_del R marker) s4
               in (r, s5))))"

definition list_dirty_members :: "'s aggregation_consumer \<Rightarrow> int \<Rightarrow> 's \<Rightarrow> (io_error + string list) \<times> 's" where
  "list_dirty_members c limit s =
    (if limit \<le> 0 then (Inr [], s)
     else roundtrip (ac_redis c) (r_spop (ac_redis c) dirty_set_key (nat limit)) s)"

text \<open>The loop over the popped members; the first error is the result.\<close>

fun repair_members ::
  "'s aggregation_consumer \<Rightarrow> (string \<Rightarrow> string) \<Rightarrow> string list \<Rightarrow> repair_error option \<Rightarrow> 's \<Rightarrow>
   (repair_error + unit) \<times> 's" where
  "repair_members c token [] err s = ((case err of None \<Rightarrow> Inr () | Some e \<Rightarrow> Inl e), s)"
| "repair_members c token (m # ms) err s =
    (case repair_dirty_member c (token m) m s of
       (Inr _, s1) \<Rightarrow> repair_members c token ms err s1
     | (Inl e, s1) \<Rightarrow>
         (let s2 = (if e \<noteq> LockNotAcquired
                    then snd (wr (ac_redis c) (r_sadd (ac_redis c) dirty_set_key m) s1) else s1)
          in repair_members c token ms (case err of None \<Rightarrow> Some e | Some e' \<Rightarrow> Some e') s2))"

definition repair_dirty_members ::
  "'s aggregation_consumer \<Rightarrow> (string \<Rightarrow> string) \<Rightarrow> 's \<Rightarrow> (repair_error + unit) \<times> 's" where
  "repair_dirty_members c token s =
    (case list_dirty_members c (ac_repair_batch c) s of
       (Inl e, s1) \<Rightarrow> (Inl (PopFailed e), s1)
     | (Inr ms, s1) \<Rightarrow> repair_members c token ms None s1)"

definition repair_as_leader ::
  "'s aggregation_consumer \<Rightarrow> (string \<Rightarrow> string) \<Rightarrow> string \<Rightarrow> 's \<Rightarrow> (repair_error + unit) \<times> 's" where
  "repair_as_leader c token leader_token s =
    (case try_acquire (ac_redis c) repair_leader_lock_key counter_repair_lock_options leader_token s of
       (Inl e, s1) \<Rightarrow> (Inl (AcquireFailed e), s1)
     | (Inr None, s1) \<Rightarrow> (Inr (), s1)
     | (Inr (Some l), s1) \<Rightarrow>
         (let (r, s2) = repair_dirty_members c token s1 in (r, release (ac_redis c) l s2)))"

section \<open>What a repaired hash holds\<close>

context counter_world
begin

lemma clear_dirty_same:
  "clear_dirty_members svc ms s = (r, s') \<Longrightarrow> same_counts (view s) (view s')"
proof -
  have "view (fold (r_srem (cs_redis svc) dirty_set_key) ms s) = view s \<or>
      (\<exists>g. view (fold (r_srem (cs_redis svc) dirty_set_key) ms s) = ks_supd dirty_set_key g (view s))" for s
  proof (induction ms arbitrary: s)
    case (Cons m ms)
    have "ks_supd k g (ks_supd k h ks) = ks_supd k (g \<circ> h) ks" for k g h ks
      by (simp add: ks_supd_def)
    with Cons[of "r_srem (cs_redis svc) dirty_set_key m s"] show ?case by auto
  qed simp
  then have "same_counts (view s) (view (fold (r_srem (cs_redis svc) dirty_set_key) ms s))" for s
    using same_counts_upd(5) same_counts_refl by metis
  then show "clear_dirty_members svc ms s = (r, s') \<Longrightarrow> same_counts (view s) (view s')"
    by (auto simp: clear_dirty_members_def split: if_splits intro: wr_same)
qed

lemma repair_locked_reports:
  assumes "repair_locked svc member et eid s = (Inr u, s')" "slots_clean et eid (view s)"
  shows "hash_reported (cs_redis svc) (view s) (view s') et eid \<and> (\<forall>f. liked_set (view s') f et eid = liked_set (view s) f et eid)"
proof -
  obtain q s1 where q: "build_snapshot_from_bitmap svc et eid s = (q, s1)"
    by (cases "build_snapshot_from_bitmap svc et eid s")
  with assms(1) obtain m where m: "q = Inr m" by (cases q) (simp_all add: repair_locked_def)
  have v1: "view s1 = view s" by (rule build_snapshot_reports(1)[OF q])
  note reports = build_snapshot_reports(2)[OF q m assms(2)]
  obtain w s2 where w: "write_snapshot (cs_redis svc) (sds_key et eid) m s1 = (w, s2)"
    by (cases "write_snapshot (cs_redis svc) (sds_key et eid) m s1")
  with assms(1) q m have wr: "w = Inr ()" by (cases w) (simp_all add: repair_locked_def)
  obtain d s3 where d: "clear_dirty_members svc [member] s2 = (d, s3)"
    by (cases "clear_dirty_members svc [member] s2")
  with assms(1) q m w wr have "s' = reset_backoff svc et eid s3"
    by (cases d) (simp_all add: repair_locked_def)
  with clear_dirty_same[OF d] reset_backoff_same have same: "same_counts (view s2) (view s')"
    using same_counts_trans by blast
  note ex = write_snapshot_reported[OF w[unfolded wr] conjunct1[OF reports] conjunct2[OF reports]]
  show ?thesis
    using hash_reported_same[OF same_counts_refl same ex(1)] same_counts_liked[OF same] ex(2) v1
    by (simp add: liked_set_def ks_bit_def)
qed

end

context consumer_world
begin

lemma repair_dirty_member_reports:
  assumes "repair_dirty_member c token member s = (Inr u, s')" "parse_dirty_member member = Some (et, eid)"
    and "slots_clean et eid (view s)"
  shows "hash_reported (ac_redis c) (view s) (view s') et eid \<and> (\<forall>f. liked_set (view s') f et eid = liked_set (view s) f et eid)"
proof -
  let ?R = "ac_redis c" and ?mk = "rebuild_marker_key et eid"
  obtain a s1 where a: "try_acquire ?R (rebuild_lock_key et eid) (cs_lock_options (ac_service c)) token s = (a, s1)"
    by (cases "try_acquire ?R (rebuild_lock_key et eid) (cs_lock_options (ac_service c)) token s")
  with assms(1,2) obtain l where l: "a = Inr (Some l)"
    by (cases a; auto simp: repair_dirty_member_def Let_def split: option.splits)
  have key: "lk_key l = rebuild_lock_key et eid"
    using a l by (auto simp: try_acquire_def Let_def split: prod.splits sum.splits bool.splits)
  obtain x s2 where x: "wr ?R (r_set ?R ?mk ''1'' (Some rebuild_marker_ttl)) s1 = (x, s2)"
    by (cases "wr ?R (r_set ?R ?mk ''1'' (Some rebuild_marker_ttl)) s1")
  obtain q s3 where q: "repair_locked (ac_service c) member et eid s2 = (q, s3)"
    by (cases "repair_locked (ac_service c) member et eid s2")
  obtain y s5 where y: "wr ?R (r_del ?R ?mk) (release ?R l s3) = (y, s5)"
    by (cases "wr ?R (r_del ?R ?mk) (release ?R l s3)")
  from assms(1,2) a l x q y have r: "q = Inr u" "s' = s5" by (auto simp: repair_dirty_member_def)
  have "same_counts (view s) (view s1)" by (rule try_acquire_same[OF _ a]) simp
  moreover have "same_counts (view s1) (view s2)" by (rule wr_same[OF x]) (simp add: same_counts_upd)
  ultimately have pre: "same_counts (view s) (view s2)" by (rule same_counts_trans)
  have "same_counts (view s3) (view (release ?R l s3))" using key by (intro release_same) simp
  moreover have "same_counts (view (release ?R l s3)) (view s')"
    unfolding r(2) by (rule wr_same[OF y]) (simp add: same_counts_upd)
  ultimately have post: "same_counts (view s3) (view s')" by (rule same_counts_trans)
  from repair_locked_reports[OF q[unfolded r(1)] slots_clean_same[OF pre assms(3)]]
  show ?thesis using hash_reported_same[OF pre post, of "ac_redis c" et eid] same_counts_liked[OF post] same_counts_liked[OF pre] by simp
qed

text \<open>A member whose lock is taken leaves the keyspace alone and reports \<open>LockNotAcquired\<close>.\<close>

lemma repair_contended:
  assumes "parse_dirty_member member = Some (et, eid)" "ks_exists (rebuild_lock_key et eid) (view s)"
    and "repair_dirty_member c token member s = (r, s')"
  shows "view s' = view s \<and> (r = Inl LockNotAcquired \<or> (\<exists>e. r = Inl (AcquireFailed e)))"
proof -
  obtain a s1 where a: "try_acquire (ac_redis c) (rebuild_lock_key et eid) (cs_lock_options (ac_service c)) token s = (a, s1)"
    by (cases "try_acquire (ac_redis c) (rebuild_lock_key et eid) (cs_lock_options (ac_service c)) token s")
  have "view s1 = view s" using try_acquire_view[OF a] assms(2) by auto
  moreover have "a \<noteq> Inr (Some l)" for l
    using a assms(2) by (auto simp: try_acquire_def Let_def set_nx_def
        split: prod.splits sum.splits bool.splits if_splits dest!: roundtrip_Inr)
  ultimately show ?thesis
    using assms(1,3) a by (auto simp: repair_dirty_member_def Let_def split: sum.splits option.splits)
qed

end

context consumer_up
begin

lemma try_acquire_up: "is_ok (fst (try_acquire (ac_redis c) key opts token s))"
proof -
  let ?f = "set_nx (ac_redis c) key token (lo_ttl (normalized opts))"
  obtain s1 where "roundtrip (ac_redis c) ?f s = (Inr (fst (?f s1)), snd (?f s1))" by (rule roundtrip_upE)
  then show ?thesis by (simp add: try_acquire_def Let_def split: bool.splits)
qed

lemma repair_contended_up:
  assumes "parse_dirty_member member = Some (et, eid)" "ks_exists (rebuild_lock_key et eid) (view s)"
    and "repair_dirty_member c token member s = (r, s')"
  shows "r = Inl LockNotAcquired \<and> view s' = view s"
proof -
  have "is_ok (fst (try_acquire (ac_redis c) (rebuild_lock_key et eid) (cs_lock_options (ac_service c)) token s))"
    by (rule try_acquire_up)
  then have "r \<noteq> Inl (AcquireFailed e)" for e
    using assms(1,3) by (auto simp: repair_dirty_member_def Let_def repair_locked_def
        split: prod.splits sum.splits option.splits)
  with repair_contended[OF assms] show ?thesis by auto
qed

lemma list_dirty_up:
  assumes "0 < ac_repair_batch c" "ks_set (view s) dirty_set_key = {member}"
  obtains ms s1 where "list_dirty_members c (ac_repair_batch c) s = (Inr ms, s1)" "ms = [member]"
    "view s1 = ks_supd dirty_set_key (\<lambda>S. S - {member}) (view s)"
proof -
  let ?f = "r_spop (ac_redis c) dirty_set_key (nat (ac_repair_batch c))"
  obtain s0 where s0: "view s0 = view s" "roundtrip (ac_redis c) ?f s = (Inr (fst (?f s0)), snd (?f s0))"
    by (rule roundtrip_upE)
  have sp: "distinct (fst (?f s0)) \<and> set (fst (?f s0)) \<subseteq> {member} \<and>
      length (fst (?f s0)) = min (nat (ac_repair_batch c)) (card {member}) \<and>
      view (snd (?f s0)) = ks_supd dirty_set_key (\<lambda>S. S - set (fst (?f s0))) (view s)"
    using spop_view[OF surjective_pairing[of "?f s0"]] assms(2) s0(1) by metis
  then have "length (fst (?f s0)) = 1" using assms(1) by simp
  with sp have "fst (?f s0) = [member]" by (auto simp: length_Suc_conv)
  with sp s0 assms(1) show thesis by (intro that) (simp_all add: list_dirty_members_def)
qed

end

section \<open>Toggles keep the shards clean\<close>

lemma prefix_of_shard:
  assumes "CHR '':'' \<notin> set m \<union> set et \<union> set eid \<union> set m' \<union> set et' \<union> set eid'"
    and "has_prefix (shard_prefix m' et' eid') (bitmap_key m et eid c)"
  shows "m = m' \<and> et = et' \<and> eid = eid'"
proof -
  obtain r where r: "bitmap_key m et eid c = shard_prefix m' et' eid' @ r"
    using assms(2) by (auto simp: has_prefix_iff)
  have e: "m @ CHR '':'' # et @ CHR '':'' # eid @ CHR '':'' # format_uint c =
      m' @ CHR '':'' # et' @ CHR '':'' # eid' @ CHR '':'' # r"
    using r by (simp add: bitmap_key_def shard_prefix_def colon_def)
  have m: "m = m'" and e2: "et @ CHR '':'' # eid @ CHR '':'' # format_uint c = et' @ CHR '':'' # eid' @ CHR '':'' # r"
    using colon_free_split[OF _ _ e] assms(1) by auto
  have et: "et = et'" and e3: "eid @ CHR '':'' # format_uint c = eid' @ CHR '':'' # r"
    using colon_free_split[OF _ _ e2] assms(1) by auto
  have "eid = eid'" using colon_free_split[OF _ _ e3] assms(1) by auto
  with m et show ?thesis by simp
qed

lemma shards_clean_setbit:
  assumes "CHR '':'' \<notin> set m \<union> set et \<union> set eid \<union> set m' \<union> set et' \<union> set eid'" "shards_clean ks m' et' eid'"
  shows "shards_clean (ks_setbit (bitmap_key m et eid (chunk_of u)) (unat (bit_of u)) b ks) m' et' eid'"
  unfolding shards_clean_def
proof (intro conjI allI impI)
  fix k
  assume "ks_str (ks_setbit (bitmap_key m et eid (chunk_of u)) (unat (bit_of u)) b ks) k \<noteq> None"
    and p: "has_prefix (shard_prefix m' et' eid') k"
  then have "k = bitmap_key m et eid (chunk_of u) \<or> ks_str ks k \<noteq> None"
    by (auto simp: ks_setbit_def split: if_splits)
  then show "\<exists>c. k = bitmap_key m' et' eid' c"
    using p assms(2) prefix_of_shard[OF assms(1)] unfolding shards_clean_def by blast
next
  fix c off
  assume "ks_bit (ks_setbit (bitmap_key m et eid (chunk_of u)) (unat (bit_of u)) b ks) (bitmap_key m' et' eid' c) off"
  then have "(bitmap_key m' et' eid' c = bitmap_key m et eid (chunk_of u) \<and> off = unat (bit_of u)) \<or>
      ks_bit ks (bitmap_key m' et' eid' c) off"
    by (auto split: if_splits)
  then show "\<exists>u. c = chunk_of u \<and> off = unat (bit_of u)"
    using assms(2) bitmap_key_inj[of m' et' eid' m et eid c "chunk_of u"] assms(1)
    unfolding shards_clean_def by auto
qed

lemma shards_clean_str_cong: "ks_str ks = ks_str ks' \<Longrightarrow> shards_clean ks m et eid = shards_clean ks' m et eid"
  by (simp add: shards_clean_def ks_bit_def)

context counter_world
begin

lemma toggle_shards_clean:
  assumes "CHR '':'' \<notin> set m \<union> set et \<union> set eid \<union> set m' \<union> set et' \<union> set eid'"
    and "shards_clean (view s) m' et' eid'" "toggle svc now u et eid m op s = (r, s')"
  shows "shards_clean (view s') m' et' eid'"
  using assms(3)
proof (cases rule: toggle_cases)
  case (ran s1 c s2)
  from toggle_lua_view(2)[OF ran(2)] shards_clean_setbit[OF assms(1,2)] assms(2) ran(1)
  have "shards_clean (view s2) m' et' eid'"
    by (auto simp: shards_clean_str_cong[of "ks_zupd k g ks" ks for k g ks])
  then show ?thesis using shards_clean_str_cong[OF ran(6)] by simp
next
  case (unsent e)
  with assms(2) show ?thesis by simp
qed

end

section \<open>An entity to read and to repair\<close>

lemma no_glob_post_9: "m \<in> set slot_names \<Longrightarrow> no_glob (shard_prefix m ''post'' ''9'')"
  by (auto simp: slot_names_eq no_glob_def shard_prefix_def colon_def)

lemma liked_nine_str: "ks_str (fst liked_nine) k \<noteq> None \<Longrightarrow> k = bitmap_key ''like'' ''post'' ''9'' (chunk_of 3)"
  by (simp add: liked_nine_def ks_setbit_def split: if_splits)

lemma liked_nine_slots: "slots_clean ''post'' ''9'' (fst liked_nine)"
proof -
  have "strings (fst liked_nine) \<subseteq> {bitmap_key ''like'' ''post'' ''9'' (chunk_of 3)}"
    using liked_nine_str by (auto simp: strings_def)
  then have "finite (strings (fst liked_nine))" by (rule finite_subset) simp
  moreover have "shards_clean (fst liked_nine) m ''post'' ''9''" if "m \<in> set slot_names" for m
  proof -
    have "CHR '':'' \<notin> set m" using that by (auto simp: slot_names_eq)
    moreover have "shards_clean empty_keyspace m ''post'' ''9''" by (simp add: shards_clean_def)
    ultimately show ?thesis unfolding liked_nine_def by (simp add: shards_clean_setbit)
  qed
  ultimately show ?thesis
    by (simp add: slots_clean_def no_glob_post_9)
qed

lemma liked_nine_set: "liked_set (fst liked_nine) ''like'' ''post'' ''9'' = {3}"
  by (auto simp: liked_nine_def member_liked_set dest: user_address_inj split: if_splits)

lemma backoff_shift:
  assumes "0 < base" "base * 2 ^ n < 2 ^ 63"
  shows "sint (push_bit n (of_int base :: 64 word)) = base * 2 ^ n"
proof -
  have "push_bit n (of_int base :: 64 word) = of_int (base * 2 ^ n)"
    by (simp add: push_bit_eq_mult)
  moreover have "sint (of_int (base * 2 ^ n) :: 64 word) = base * 2 ^ n"
  proof -
    have "0 < base * 2 ^ n" using assms(1) by simp
    then have "signed_take_bit 63 (base * 2 ^ n) = base * 2 ^ n"
      using assms(2) by (intro signed_take_bit_int_eq_self) linarith+
    then show ?thesis by (simp only: signed_of_int) simp
  qed
  ultimately show ?thesis by simp
qed

section \<open>Properties\<close>

text \<open>
  C10: a repair that reports success leaves in every slot of the hash what \<open>SCAN\<close> reported:
  the sum, as an int32, of the bits of the reported shards, each as often as it was
  reported. That is at least the number of users whose bit is set, and exactly this number
  if no shard was reported twice; no bit moved. The names must have no pattern signs, and
  the shards must be the only string keys behind the patterns.
\<close>

theorem repair_counts_what_scan_reports:
  assumes "consumer_world c view" "parse_dirty_member member = Some (et, eid)" "slots_clean et eid (view s)"
    and "repair_dirty_member c token member s = (Inr u, s')"
  shows "(\<forall>m \<in> set slot_names. \<exists>keys. scan_reports (ac_redis c) m et eid (view s) keys \<and>
      ks_hash (view s') (sds_key et eid) m = Some (sint (of_nat (reported_count (view s) keys) :: int32)) \<and>
      card (liked_set (view s) m et eid) \<le> reported_count (view s) keys \<and>
      (distinct keys \<longrightarrow> reported_count (view s) keys = card (liked_set (view s) m et eid))) \<and>
    (\<forall>f. liked_set (view s') f et eid = liked_set (view s) f et eid)"
proof -
  have "hash_reported (ac_redis c) (view s) (view s') et eid \<and> (\<forall>f. liked_set (view s') f et eid = liked_set (view s) f et eid)"
    by (rule consumer_world.repair_dirty_member_reports[OF assms(1,4,2,3)])
  moreover have "card (liked_set (view s) m et eid) \<le> reported_count (view s) keys"
      "distinct keys \<Longrightarrow> reported_count (view s) keys = card (liked_set (view s) m et eid)"
    if "m \<in> set slot_names" "scan_reports (ac_redis c) m et eid (view s) keys" for m keys
    using reported_bounds[of "view s" m et eid keys] that assms(3) by (simp_all add: slots_clean_def scan_reports_def strings_def)
  ultimately show ?thesis unfolding hash_reported_def by blast
qed

definition repaired_nine :: "(repair_error + unit) \<times> mem" where
  "repaired_nine = repair_dirty_member up_consumer ''t'' ''post:9'' liked_nine"

lemma parse_post_9: "parse_dirty_member ''post:9'' = Some (''post'', ''9'')"
  using parse_dirty_member_clean[of "''post''" "''9''"] by simp

lemma up_round [simp]: "roundtrip up_redis f m = (Inr (fst (f m)), snd (f m))"
  by (simp add: roundtrip_def split: prod.splits)

lemma count_pages_up [simp]:
  "count_pages up_redis pages m = (Inr (sum_list (map (ks_bitcount (fst m)) (concat pages))), m)"
  by (induction pages) (simp_all add: rd_def)

lemma build_snapshot_ok: "\<exists>v. build_snapshot mem_service et eid slots m = (Inr v, m)"
  by (induction slots) (auto simp: bit_count_shards_def)

lemma repair_locked_ok: "fst (repair_locked mem_service member et eid m) = Inr ()"
  using build_snapshot_ok[of et eid "map int [0..<SchemaLen]" m]
  by (auto simp: repair_locked_def build_snapshot_from_bitmap_def write_snapshot_def clear_dirty_members_def wr_def)

lemma repaired_nine_ok: "fst repaired_nine = Inr ()"
proof -
  have "\<not> ks_exists (rebuild_lock_key ''post'' ''9'') (fst liked_nine)"
    by (auto simp: ks_exists_def liked_nine_def ks_setbit_def rebuild_lock_key_def bitmap_key_def fun_eq_iff)
  then show ?thesis
    using repair_locked_ok
    by (simp add: repaired_nine_def repair_dirty_member_def parse_post_9 try_acquire_def set_nx_def Let_def wr_def
        split: prod.splits) (metis fst_conv)
qed

theorem repair_counts_what_scan_reports_witness:
  "hash_int (fst (snd repaired_nine)) (sds_key ''post'' ''9'') ''like'' = 1"
proof -
  obtain s' where s': "repaired_nine = (Inr (), s')" using repaired_nine_ok by (metis prod.collapse)
  have like: "''like'' \<in> set slot_names" by (simp add: slot_names_eq)
  from repair_counts_what_scan_reports[OF up_cons.consumer_world_axioms parse_post_9 liked_nine_slots s'[unfolded repaired_nine_def]] like
  obtain keys where keys: "scan_reports (ac_redis up_consumer) ''like'' ''post'' ''9'' (fst liked_nine) keys"
      "ks_hash (fst s') (sds_key ''post'' ''9'') ''like'' = Some (sint (of_nat (reported_count (fst liked_nine) keys) :: int32))"
      "distinct keys \<longrightarrow> reported_count (fst liked_nine) keys = card (liked_set (fst liked_nine) ''like'' ''post'' ''9'')"
    by blast
  have "distinct keys" using keys(1) by (auto simp: scan_reports_def mem_scan_def)
  with keys show ?thesis unfolding s' by (simp add: hash_int_def liked_nine_set)
qed

text \<open>
  A server that reports every key twice keeps what is promised of \<open>SCAN\<close>, and one user
  then counts as two.
\<close>

definition twice_redis :: "mem redis" where
  "twice_redis = up_redis\<lparr>r_scan := (\<lambda>p s. r_scan up_redis p s @ r_scan up_redis p s)\<rparr>"

lemma twice_round [simp]: "roundtrip twice_redis f m = (Inr (fst (f m)), snd (f m))"
  using up_round[of f m] by (simp add: roundtrip_def twice_redis_def)

lemma count_pages_twice [simp]:
  "count_pages twice_redis pages m = (Inr (sum_list (map (ks_bitcount (fst m)) (concat pages))), m)"
  by (induction pages) (simp_all add: rd_def, simp_all add: twice_redis_def)

lemma repeated_shard_counts_twice:
  assumes "fst (bit_count_shards mem_service m et eid s) = Inr n"
  shows "set (concat (r_scan twice_redis p s)) = set (concat (r_scan up_redis p s)) \<and>
    fst (bit_count_shards (mem_service\<lparr>cs_redis := twice_redis\<rparr>) m et eid s) = Inr (2 * n)"
  using assms by (simp add: bit_count_shards_def) (auto simp: twice_redis_def)

text \<open>
  C16: the shards of an entity stay countable: whatever toggles run on entities
  and metrics whose names have no colon, in whatever outcome, the only string
  keys behind the \<open>SCAN\<close> pattern of an entity are its own shards and every set
  bit is the bit of a user.
\<close>

theorem toggles_keep_shards_clean:
  assumes "counter_world svc view" "CHR '':'' \<notin> set m \<union> set et \<union> set eid \<union> set m' \<union> set et' \<union> set eid'"
    and "shards_clean (view s) m' et' eid'" "toggle svc now u et eid m op s = (r, s')"
  shows "shards_clean (view s') m' et' eid'"
  by (rule counter_world.toggle_shards_clean[OF assms])

theorem toggles_keep_shards_clean_witness:
  "shards_clean (fst (snd one_like)) ''like'' ''post'' ''10''"
proof -
  have "shards_clean (fst ((empty_keyspace, []) :: mem)) ''like'' ''post'' ''10''"
    by (simp add: shards_clean_def)
  moreover obtain r s' where e: "one_like = (r, s')" by (cases one_like)
  ultimately show ?thesis
    using toggles_keep_shards_clean[OF mem_svc.counter_world_axioms _ _ e[unfolded one_like_def], of "''like''" "''post''" "''10''"]
    unfolding e by simp
qed

text \<open>
  C20: with a colon in an entity id the pattern takes in the shards of another
  entity: after one user liked post \<open>1:2\<close>, the bitmaps of post \<open>1\<close>, which
  nobody liked, are counted as 1.
\<close>

definition liked_one_two :: mem where
  "liked_one_two = (ks_setbit (bitmap_key ''like'' ''post'' ''1:2'' (chunk_of 3)) (unat (bit_of 3)) True empty_keyspace, [])"

theorem prefix_entity_is_counted_too:
  "liked_set (fst liked_one_two) ''like'' ''post'' ''1'' = {} \<and>
   fst (bit_count_shards mem_service ''like'' ''post'' ''1'' liked_one_two) = Inr 1"
proof
  let ?k = "bitmap_key ''like'' ''post'' ''1:2'' (chunk_of 3)"
  have free: "CHR '':'' \<notin> set (format_uint c)" for c by (rule colon_notin_format)
  have "bitmap_key ''like'' ''post'' ''1'' c \<noteq> ?k" for c
    by (auto simp: bitmap_key_def colon_def) (metis free list.set_intros)
  then show "liked_set (fst liked_one_two) ''like'' ''post'' ''1'' = {}"
    by (auto simp: liked_one_two_def member_liked_set)
  have "has_prefix (shard_prefix ''like'' ''post'' ''1'') ?k"
    by (simp add: has_prefix_def shard_prefix_def bitmap_key_def colon_def)
  then have "{k. ks_str (fst liked_one_two) k \<noteq> None \<and> has_prefix (shard_prefix ''like'' ''post'' ''1'') k} = {?k}"
    by (auto simp: liked_one_two_def ks_setbit_def)
  moreover have "{off. ks_bit (fst liked_one_two) ?k off} = {unat (bit_of 3)}"
    by (auto simp: liked_one_two_def split: if_splits)
  ultimately show "fst (bit_count_shards mem_service ''like'' ''post'' ''1'' liked_one_two) = Inr 1"
    by (simp add: bit_count_shards_def mem_scan_def ks_bitcount_card rd_def)
qed

text \<open>
  A dirty member that the repair popped while the lock of its entity was
  taken is gone: over a server that answers, the repair reports an error, but
  the member is neither repaired nor put back into the dirty set.
\<close>

theorem contended_member_is_dropped:
  assumes "consumer_up c view" "0 < ac_repair_batch c"
    and "ks_set (view s) dirty_set_key = {member}" "parse_dirty_member member = Some (et, eid)"
    and "ks_exists (rebuild_lock_key et eid) (view s)" "rebuild_lock_key et eid \<noteq> dirty_set_key"
    and "repair_dirty_members c token s = (r, s')"
  shows "r = Inl LockNotAcquired \<and> ks_set (view s') dirty_set_key = {} \<and> ks_hash (view s') = ks_hash (view s)"
proof -
  obtain ms s1 where pop: "list_dirty_members c (ac_repair_batch c) s = (Inr ms, s1)"
      "ms = [member]" "view s1 = ks_supd dirty_set_key (\<lambda>S. S - {member}) (view s)"
    by (rule consumer_up.list_dirty_up[OF assms(1,2,3)])
  have ex: "ks_exists (rebuild_lock_key et eid) (view s1)"
    using assms(5,6) unfolding pop(3) by (auto simp: ks_exists_def)
  obtain q s2 where q: "repair_dirty_member c (token member) member s1 = (q, s2)"
    by (cases "repair_dirty_member c (token member) member s1")
  have "q = Inl LockNotAcquired" "view s2 = view s1"
    using consumer_up.repair_contended_up[OF assms(1,4) ex q] by simp_all
  with pop q assms(3,7) show ?thesis by (simp add: repair_dirty_members_def)
qed

definition contended_nine :: mem where
  "contended_nine = (ks_supd dirty_set_key (insert ''post:9'')
     (ks_set_str (rebuild_lock_key ''post'' ''9'') ''other'' None empty_keyspace), [])"

theorem contended_member_is_dropped_witness:
  "\<exists>s'. repair_dirty_members up_consumer (\<lambda>_. ''t'') contended_nine = (Inl LockNotAcquired, s') \<and>
     ks_set (fst s') dirty_set_key = {}"
proof -
  obtain r s' where r: "repair_dirty_members up_consumer (\<lambda>_. ''t'') contended_nine = (r, s')"
    by (cases "repair_dirty_members up_consumer (\<lambda>_. ''t'') contended_nine")
  have "ks_set (fst contended_nine) dirty_set_key = {''post:9''}"
    "ks_exists (rebuild_lock_key ''post'' ''9'') (fst contended_nine)"
    "rebuild_lock_key ''post'' ''9'' \<noteq> dirty_set_key" "0 < ac_repair_batch up_consumer"
    by (simp_all add: contended_nine_def ks_exists_def rebuild_lock_key_def dirty_set_key_def)
  with contended_member_is_dropped[OF up_cons.consumer_up_axioms _ _ parse_post_9 _ _ r] r show ?thesis by auto
qed

text \<open>
  C18: the backoff grows as documented, \<open>min (base * 2 ^ attempts) cap\<close>, as long
  as the shift stays inside int64; with the default base of 500 ms it then
  breaks: after 55 escalations in a row the wait is negative, and from 62 on it
  is zero, so that every later request may rebuild again.
\<close>

theorem backoff_grows_then_collapses:
  assumes "0 < base" "0 \<le> attempts" "attempts \<le> 62" "base * 2 ^ nat attempts < 2 ^ 63"
  shows "backoff_ms base cap attempts = min (base * 2 ^ nat attempts) cap \<and>
    (\<forall>a \<in> {55, 56, 57, 58, 59, 61}. backoff_ms 500 30000 a < 0) \<and>
    (\<forall>a \<ge> 62. backoff_ms 500 30000 a = 0)"
proof -
  have "sint (push_bit (nat attempts) (of_int base :: 64 word)) = base * 2 ^ nat attempts"
    by (rule backoff_shift[OF assms(1,4)])
  then have "backoff_ms base cap attempts = min (base * 2 ^ nat attempts) cap"
    using assms(3) by (simp add: backoff_ms_def Let_def min_def)
  moreover have "\<forall>a \<in> {55, 56, 57, 58, 59, 61}. backoff_ms 500 30000 a < 0"
    by (simp add: backoff_ms_def Let_def)
  moreover have "backoff_ms 500 30000 a = 0" if "62 \<le> a" for a
    using that by (simp add: backoff_ms_def Let_def)
  ultimately show ?thesis by blast
qed

theorem backoff_grows_then_collapses_witness:
  "backoff_ms 500 30000 3 = 4000 \<and> backoff_ms 500 30000 61 < 0"
  using backoff_grows_then_collapses[of 500 3 30000] by simp

end
