(* ===== verification/Counter_Liker_Index.thy ===== *)
theory Counter_Liker_Index
  imports Counter_Liker_Pages Counter_Repair
begin

text \<open>
  The time index behind the lists of likers: a page read by rank is a slice of
  the index from the newest like down, a page read by score after the member of
  the cursor has gone continues at the same place, and the cursors that pages
  return can be parsed back.
\<close>

section \<open>Cursors\<close>

lemma parse_time_cursor [simp]:
  "in_int64 ts \<Longrightarrow> parse_likers_cursor (encode_time_cursor ts u) = Some \<lparr>lc_by_time = True, lc_ts = ts, lc_user_id = u\<rparr>"
  by (simp add: parse_likers_cursor_def encode_time_cursor_def colon_def trim_prefix_def has_prefix_def)

lemma parse_uid_cursor [simp]: "parse_likers_cursor (encode_uid_cursor u) = Some (uid_cursor u)"
  by (simp add: parse_likers_cursor_def encode_uid_cursor_def has_prefix_def)

section \<open>Packing pages\<close>

lemma pack_loop_take:
  "length items \<le> limit \<Longrightarrow> pack_loop limit zs items = take (limit + 1) (items @ List.map_filter item_of zs)"
  by (induction zs arbitrary: items) (auto simp: map_filter_simps Suc_diff_le Suc_diff_Suc split: option.splits)

lemma filter_loop_pack: "filter_loop cur limit zs items = pack_loop limit (filter (\<lambda>z. \<not> skip_before cur z) zs) items"
  by (induction zs arbitrary: items) (auto split: option.splits)

lemma pack_liker_page_eq:
  "pack_liker_page zs limit = cut_page limit (take (limit + 1) (List.map_filter item_of zs))"
  by (simp add: pack_liker_page_def pack_loop_take)

lemma filter_liker_page_eq:
  "filter_liker_page zs cur limit = pack_liker_page (filter (\<lambda>z. \<not> skip_before cur z) zs) limit"
  by (simp add: filter_liker_page_def filter_loop_pack pack_liker_page_def)

text \<open>An index that the program writes: ordered, distinct users, scores that are seconds.\<close>

definition index_ok :: "zset \<Rightarrow> bool" where
  "index_ok z = (zs_ok z \<and> (\<forall>p \<in> set z. (\<exists>u. fst p = format_uint u) \<and> in_int64 (snd p)))"

definition like_of :: "string \<times> int \<Rightarrow> liker_item" where
  "like_of p = (case item_of p of None \<Rightarrow> \<lparr>li_user_id = 0, li_liked_at = snd p\<rparr> | Some it \<Rightarrow> it)"

text \<open>The likes of an entity, from the newest down.\<close>

definition newest_first :: "zset \<Rightarrow> liker_item list" where
  "newest_first z = map like_of (rev z)"

lemma item_of_member: "fst p = format_uint u \<Longrightarrow> item_of p = Some (like_of p) \<and> li_user_id (like_of p) = u \<and> li_liked_at (like_of p) = snd p"
  by (simp add: item_of_def like_of_def)

lemma map_filter_items:
  "(\<And>p. p \<in> set zs \<Longrightarrow> \<exists>u. fst p = format_uint u) \<Longrightarrow> List.map_filter item_of zs = map like_of zs"
proof (induction zs)
  case (Cons p zs)
  then have "item_of p = Some (like_of p)" using item_of_member by (meson list.set_intros(1))
  with Cons show ?case by simp
qed simp

lemma pack_page_items:
  assumes "\<And>p. p \<in> set zs \<Longrightarrow> \<exists>u. fst p = format_uint u"
  shows "pack_liker_page zs limit = (take limit (map like_of zs), limit < length zs)"
proof -
  have "List.map_filter item_of zs = map like_of zs" using assms by (rule map_filter_items)
  then show ?thesis unfolding pack_liker_page_eq by (simp only: cut_page_take length_map)
qed

lemma pack_page_prefix:
  assumes "\<And>p. p \<in> set zs \<Longrightarrow> \<exists>u. fst p = format_uint u"
  shows "pack_liker_page (take (limit + 1) zs) limit = (take limit (map like_of zs), limit < length zs)"
  using pack_page_items[of "take (limit + 1) zs" limit] assms
  by (auto simp: take_map dest: in_set_takeD)

section \<open>The rank of a member\<close>

lemma index_of_nth:
  "distinct (map f xs) \<Longrightarrow> k < length xs \<Longrightarrow> index_of (\<lambda>x. f x = f (xs ! k)) xs = Some k"
proof (induction xs arbitrary: k)
  case (Cons x xs)
  then show ?case
  proof (cases k)
    case (Suc j)
    with Cons.prems have "f (xs ! j) \<in> f ` set xs" by simp
    with Suc Cons show ?thesis by auto
  qed simp
qed simp

lemma index_of_absent: "\<forall>x \<in> set xs. \<not> P x \<Longrightarrow> index_of P xs = None"
  by (induction xs) auto

lemma rev_rank_nth:
  assumes "zs_ok z" "k < length z" "fst (rev z ! k) = m"
  shows "zs_rev_rank m z = Some k"
  using index_of_nth[of fst "rev z" k] assms by (auto simp: zs_rev_rank_def zs_ok_def simp flip: rev_map)

text \<open>Below a place of the order: what \<open>ZREVRANGEBYSCORE\<close> and the skip of the page leave.\<close>

definition below :: "int \<Rightarrow> string \<Rightarrow> zset \<Rightarrow> zset" where
  "below ts m z = filter (\<lambda>p. zless p (m, ts)) (rev z)"

lemma skip_is_prefix:
  assumes "sorted_wrt (\<lambda>p q. zless q p) xs" "\<And>p. p \<in> set xs \<Longrightarrow> snd p \<le> ts"
    and "length (filter (\<lambda>p. snd p = ts \<and> fst p \<ge> m) xs) \<le> d"
  shows "take n (filter (\<lambda>p. \<not> (snd p = ts \<and> fst p \<ge> m)) (take (n + d) xs)) =
    take n (filter (\<lambda>p. zless p (m, ts)) xs)"
  using assms
proof (induction xs arbitrary: d)
  case Nil
  then show ?case by simp
next
  case (Cons p xs)
  show ?case
  proof (cases "snd p = ts \<and> fst p \<ge> m")
    case True
    with Cons.prems(3) obtain e where d: "d = Suc e" by (cases d) auto
    have "\<not> zless p (m, ts)" using True by (auto simp: zless_def)
    moreover have "take n (filter (\<lambda>p. \<not> (snd p = ts \<and> fst p \<ge> m)) (take (n + e) xs)) =
        take n (filter (\<lambda>p. zless p (m, ts)) xs)"
      using Cons.prems True d by (intro Cons.IH) auto
    ultimately show ?thesis using True d by simp
  next
    case False
    have lt: "zless q (m, ts)" if "q \<in> set (p # xs)" for q
    proof -
      have "zless p (m, ts)" using False Cons.prems(2)[of p] by (auto simp: zless_def)
      moreover have "zless q p \<or> q = p" using Cons.prems(1) that by auto
      ultimately show ?thesis by (auto intro: zless_trans)
    qed
    have keep: "\<not> (snd q = ts \<and> fst q \<ge> m)" if "q \<in> set (p # xs)" for q
      using lt[OF that] by (auto simp: zless_def)
    have "filter (\<lambda>p. zless p (m, ts)) (p # xs) = p # xs" using lt by (auto simp: filter_id_conv)
    moreover have "filter (\<lambda>p. \<not> (snd p = ts \<and> fst p \<ge> m)) (take (n + d) (p # xs)) = take (n + d) (p # xs)"
      using keep by (auto simp: filter_id_conv dest: in_set_takeD)
    ultimately show ?thesis by simp
  qed
qed

section \<open>Pages over a server that answers\<close>

definition likers_index :: "keyspace \<Rightarrow> string \<Rightarrow> uint64 \<Rightarrow> string \<Rightarrow> zset" where
  "likers_index ks et eid metric =
    ks_zset ks (likers_zset_key (if metric = metric_favorite then prefix_fav else prefix_like) et (format_uint eid))"

definition time_cursor_after :: "liker_item list \<Rightarrow> string" where
  "time_cursor_after items = (if items = [] then [] else encode_time_cursor (li_liked_at (last items)) (li_user_id (last items)))"

lemma index_okD:
  assumes "index_ok z"
  shows "zs_ok z" "p \<in> set z \<Longrightarrow> \<exists>u. fst p = format_uint u" "p \<in> set z \<Longrightarrow> in_int64 (snd p)"
  using assms by (auto simp: index_ok_def)

lemma newest_first_nth:
  assumes "index_ok z" "k < length z"
  shows "fst (rev z ! k) = format_uint (li_user_id (newest_first z ! k))"
    "li_liked_at (newest_first z ! k) = snd (rev z ! k)" "in_int64 (li_liked_at (newest_first z ! k))"
proof -
  have "rev z ! k \<in> set z" using assms(2) nth_mem[of k "rev z"] by simp
  with index_okD[OF assms(1)] obtain u where u: "fst (rev z ! k) = format_uint u" and i: "in_int64 (snd (rev z ! k))" by blast
  from item_of_member[OF u] u i assms(2) show "fst (rev z ! k) = format_uint (li_user_id (newest_first z ! k))"
    "li_liked_at (newest_first z ! k) = snd (rev z ! k)" "in_int64 (li_liked_at (newest_first z ! k))"
    by (simp_all add: newest_first_def)
qed

context counter_world_up
begin

lemma first_index_page:
  assumes "index_ok (ks_zset (view s) zkey)" "ks_zset (view s) zkey \<noteq> []" "\<not> lc_by_time cur"
  shows "\<exists>s1. view s1 = view s \<and> read_likers_by_time svc zkey cur limit s =
    (Inr (Some (take limit (newest_first (ks_zset (view s) zkey)), limit < length (ks_zset (view s) zkey))), s1)"
proof -
  let ?z = "ks_zset (view s) zkey"
  obtain s1 where v: "view s1 = view s"
    and r: "rd (cs_redis svc) (r_zrevrangebyscore (cs_redis svc) zkey None (limit + 1)) s =
      (Inr (zs_rev_by_score None (limit + 1) ?z), s1)"
    by (metis rd_upE zrevrangebyscore_view)
  have zs: "zs_rev_by_score None (limit + 1) ?z = take (limit + 1) (rev ?z)" by (simp add: zs_rev_by_score_def)
  have page: "filter_liker_page (take (limit + 1) (rev ?z)) cur limit = (take limit (newest_first ?z), limit < length ?z)"
    using pack_page_prefix[of "rev ?z" limit] index_okD(2)[OF assms(1)] assms(3)
    by (simp add: filter_liker_page_eq skip_before_def newest_first_def)
  have ne: "take (limit + 1) (rev ?z) \<noteq> []" using assms(2) by simp
  show ?thesis
    unfolding read_likers_by_time_def read_likers_by_score_def using assms(3) r[unfolded zs] v ne page
    by (intro exI[of _ s1]) (simp add: Let_def)
qed

lemma next_index_page:
  assumes "index_ok (ks_zset (view s) zkey)" "k < length (ks_zset (view s) zkey)" "lc_by_time cur"
    and "lc_user_id cur = li_user_id (newest_first (ks_zset (view s) zkey) ! k)"
  shows "\<exists>s1. view s1 = view s \<and> read_likers_by_time svc zkey cur limit s =
    (Inr (Some (take limit (drop (Suc k) (newest_first (ks_zset (view s) zkey))),
      Suc k + limit < length (ks_zset (view s) zkey))), s1)"
proof -
  let ?z = "ks_zset (view s) zkey" and ?R = "cs_redis svc"
  have rank: "zs_rev_rank (format_uint (lc_user_id cur)) ?z = Some k"
    using rev_rank_nth[OF index_okD(1)[OF assms(1)] assms(2)] newest_first_nth(1)[OF assms(1,2)] assms(4) by simp
  obtain s1 where v1: "view s1 = view s"
    and r1: "rd ?R (r_zrevrank ?R zkey (format_uint (lc_user_id cur))) s = (Inr (Some k), s1)"
    using rank by (metis rd_upE zrevrank_view)
  obtain s2 where v2: "view s2 = view s1"
    and r2: "rd ?R (r_zrevrange ?R zkey (k + 1) (limit + 1)) s1 = (Inr (zs_rev_range (k + 1) (limit + 1) ?z), s2)"
    using v1 by (metis rd_upE zrevrange_view)
  have mem: "\<exists>u. fst p = format_uint u" if "p \<in> set (drop (Suc k) (rev ?z))" for p
    using index_okD(2)[OF assms(1)] that by (metis in_set_dropD set_rev)
  have "pack_liker_page (zs_rev_range (k + 1) (limit + 1) ?z) limit =
      (take limit (drop (Suc k) (newest_first ?z)), Suc k + limit < length ?z)"
    using pack_page_prefix[OF mem, where limit = limit]
    by (simp add: zs_rev_range_def newest_first_def drop_map less_diff_conv add.commute)
  then show ?thesis
    unfolding read_likers_by_time_def read_likers_by_rank_def using assms(3) r1 r2 v1 v2
    by (intro exI[of _ s2]) (simp add: Let_def)
qed

lemma unliked_cursor_page:
  assumes "index_ok (ks_zset (view s) zkey)" "lc_by_time cur"
    and "format_uint (lc_user_id cur) \<notin> fst ` set (ks_zset (view s) zkey)"
    and "length (filter (\<lambda>p. snd p = lc_ts cur \<and> fst p \<ge> format_uint (lc_user_id cur)) (ks_zset (view s) zkey)) \<le> 16"
  shows "\<exists>s1. view s1 = view s \<and> read_likers_by_time svc zkey cur limit s =
    (let rest = below (lc_ts cur) (format_uint (lc_user_id cur)) (ks_zset (view s) zkey)
     in (Inr (Some (take limit (map like_of rest), limit < length rest)), s1))"
proof -
  let ?z = "ks_zset (view s) zkey" and ?R = "cs_redis svc" and ?m = "format_uint (lc_user_id cur)" and ?ts = "lc_ts cur"
  let ?xs = "filter (\<lambda>p. snd p \<le> ?ts) (rev ?z)" and ?rest = "below ?ts ?m ?z"
  have "zs_rev_rank ?m ?z = None"
    using assms(3) unfolding zs_rev_rank_def by (intro index_of_absent) force
  then obtain s1 where v1: "view s1 = view s" and r1: "rd ?R (r_zrevrank ?R zkey ?m) s = (Inr None, s1)"
    by (metis rd_upE zrevrank_view)
  have byscore: "zs_rev_by_score (Some ?ts) (limit + 1 + 16) ?z = take (limit + 1 + 16) ?xs"
    by (simp add: zs_rev_by_score_def)
  obtain s2 where v2: "view s2 = view s1"
    and r2: "rd ?R (r_zrevrangebyscore ?R zkey (Some ?ts) (limit + 1 + 16)) s1 = (Inr (take (limit + 1 + 16) ?xs), s2)"
    using v1 byscore by (metis rd_upE zrevrangebyscore_view)
  have srt: "sorted_wrt (\<lambda>p q. zless q p) ?xs"
    using index_okD(1)[OF assms(1)] by (simp add: zs_ok_def sorted_wrt_filter sorted_wrt_rev)
  have ties: "length (filter (\<lambda>p. snd p = ?ts \<and> fst p \<ge> ?m) ?xs) \<le> 16"
  proof -
    have "filter (\<lambda>p. snd p \<le> ?ts \<and> snd p = ?ts \<and> fst p \<ge> ?m) ?z = filter (\<lambda>p. snd p = ?ts \<and> fst p \<ge> ?m) ?z"
      by (intro filter_cong) auto
    with assms(4) show ?thesis by (simp flip: rev_filter)
  qed
  have rest: "filter (\<lambda>p. zless p (?m, ?ts)) ?xs = ?rest"
    by (auto simp: below_def zless_def intro!: filter_cong)
  have skip: "take (limit + 1) (filter (\<lambda>z. \<not> skip_before cur z) (take (limit + 1 + 16) ?xs)) = take (limit + 1) ?rest"
    using skip_is_prefix[OF srt _ ties, of "limit + 1"] assms(2) unfolding rest by (simp add: skip_before_def)
  have mem: "\<exists>u. fst p = format_uint u" if "p \<in> set ?z" for p using index_okD(2)[OF assms(1) that] .
  have "filter_liker_page (take (limit + 1 + 16) ?xs) cur limit = (take limit (map like_of ?rest), limit < length ?rest)"
  proof -
    have "filter_liker_page (take (limit + 1 + 16) ?xs) cur limit =
        pack_liker_page (take (limit + 1) (filter (\<lambda>z. \<not> skip_before cur z) (take (limit + 1 + 16) ?xs))) limit"
      using mem unfolding filter_liker_page_eq
      by (subst pack_page_prefix, fastforce dest: in_set_takeD, subst pack_page_items) (fastforce dest: in_set_takeD)+
    also have "\<dots> = (take limit (map like_of ?rest), limit < length ?rest)"
      unfolding skip using mem by (intro pack_page_prefix) (auto simp: below_def)
    finally show ?thesis .
  qed
  moreover have "?rest = []" if "?xs = []" unfolding rest[symmetric] that by simp
  ultimately show ?thesis
    unfolding read_likers_by_time_def read_likers_by_rank_def read_likers_by_score_def
    using assms(2) r1 r2 v1 v2 by (intro exI[of _ s2]) (auto simp: Let_def)
qed

text \<open>The cursor at a place of the list, and the page that starts there.\<close>

end

definition cursor_at :: "zset \<Rightarrow> nat \<Rightarrow> string" where
  "cursor_at z k = time_cursor_after (take k (newest_first z))"

lemma cursor_at_0 [simp]: "cursor_at z 0 = []"
  by (simp add: cursor_at_def time_cursor_after_def)

lemma length_newest_first [simp]: "length (newest_first z) = length z"
  by (simp add: newest_first_def)

lemma parse_cursor_at:
  assumes "index_ok z" "k < length z"
  shows "parse_likers_cursor (cursor_at z (Suc k)) =
    Some \<lparr>lc_by_time = True, lc_ts = li_liked_at (newest_first z ! k), lc_user_id = li_user_id (newest_first z ! k)\<rparr>"
proof -
  have "take (Suc k) (newest_first z) = take k (newest_first z) @ [newest_first z ! k]"
    using assms(2) by (simp add: take_Suc_conv_app_nth)
  then show ?thesis using newest_first_nth(3)[OF assms] by (simp add: cursor_at_def time_cursor_after_def)
qed

lemma cursor_after_page:
  "k + l \<le> length z \<Longrightarrow> 0 < l \<Longrightarrow> time_cursor_after (take l (drop k (newest_first z))) = cursor_at z (k + l)"
  by (simp add: cursor_at_def time_cursor_after_def take_add last_append)

lemma clamp_pos [simp]: "0 < clamp_likers_limit limit"
  by (simp add: clamp_likers_limit_def)

text \<open>A client that follows the cursors while there is more.\<close>

fun likers_walk ::
  "'s counter_service \<Rightarrow> string \<Rightarrow> uint64 \<Rightarrow> string \<Rightarrow> int \<Rightarrow> nat \<Rightarrow> string \<Rightarrow> 's \<Rightarrow> likers_error + liker_item list" where
  "likers_walk svc et eid metric limit 0 cursor s = Inr []"
| "likers_walk svc et eid metric limit (Suc n) cursor s =
    (case GetLikers svc et eid metric cursor limit s of
       (Inl e, s1) \<Rightarrow> Inl e
     | (Inr r, s1) \<Rightarrow>
         if lr_has_more r then map_sum id ((@) (lr_items r)) (likers_walk svc et eid metric limit n (lr_cursor r) s1)
         else Inr (lr_items r))"

context counter_world_up
begin

lemma get_likers_page:
  fixes s et eid metric
  defines "z \<equiv> likers_index (view s) et eid metric"
  assumes "index_ok z" "k < length z"
  shows "\<exists>s1. view s1 = view s \<and> GetLikers svc et eid metric (cursor_at z k) limit s =
    (let page = take (clamp_likers_limit limit) (drop k (newest_first z))
     in (Inr \<lparr>lr_items = page, lr_cursor = time_cursor_after page,
           lr_has_more = (k + clamp_likers_limit limit < length z)\<rparr>, s1))"
proof (cases k)
  case 0
  have "z \<noteq> []" using assms(3) by auto
  then obtain s1 where "view s1 = view s"
    "read_likers_by_time svc (likers_zset_key (if metric = metric_favorite then prefix_fav else prefix_like) et (format_uint eid))
        first_page (clamp_likers_limit limit) s =
      (Inr (Some (take (clamp_likers_limit limit) (newest_first z), clamp_likers_limit limit < length z)), s1)"
    using first_index_page[of s "likers_zset_key (if metric = metric_favorite then prefix_fav else prefix_like) et (format_uint eid)"
        first_page "clamp_likers_limit limit"] assms(2)
    by (auto simp: z_def likers_index_def first_page_def)
  with 0 show ?thesis
    by (intro exI[of _ s1]) (simp add: GetLikers_def Let_def parse_likers_cursor_def first_page_def time_cursor_after_def)
next
  case (Suc j)
  let ?cur = "\<lparr>lc_by_time = True, lc_ts = li_liked_at (newest_first z ! j), lc_user_id = li_user_id (newest_first z ! j)\<rparr>"
  obtain s1 where "view s1 = view s"
    "read_likers_by_time svc (likers_zset_key (if metric = metric_favorite then prefix_fav else prefix_like) et (format_uint eid))
        ?cur (clamp_likers_limit limit) s =
      (Inr (Some (take (clamp_likers_limit limit) (drop (Suc j) (newest_first z)), Suc j + clamp_likers_limit limit < length z)), s1)"
    using next_index_page[of s "likers_zset_key (if metric = metric_favorite then prefix_fav else prefix_like) et (format_uint eid)"
        j ?cur "clamp_likers_limit limit"] assms(2,3) Suc
    by (auto simp: z_def likers_index_def)
  with Suc parse_cursor_at[OF assms(2), of j] assms(3) show ?thesis
    by (intro exI[of _ s1]) (simp add: GetLikers_def Let_def time_cursor_after_def)
qed

lemma likers_walk_rest:
  fixes s et eid metric
  defines "z \<equiv> likers_index (view s) et eid metric"
  assumes "index_ok z" "k < length z" "length z \<le> k + n * clamp_likers_limit limit"
  shows "likers_walk svc et eid metric limit n (cursor_at z k) s = Inr (drop k (newest_first z))"
  using assms(2-) unfolding z_def
proof (induction n arbitrary: k s)
  case 0
  then show ?case by simp
next
  case (Suc n)
  let ?z = "likers_index (view s) et eid metric" and ?l = "clamp_likers_limit limit"
  obtain s1 where v: "view s1 = view s" and g: "GetLikers svc et eid metric (cursor_at ?z k) limit s =
      (Inr \<lparr>lr_items = take ?l (drop k (newest_first ?z)), lr_cursor = time_cursor_after (take ?l (drop k (newest_first ?z))),
         lr_has_more = (k + ?l < length ?z)\<rparr>, s1)"
    using get_likers_page[OF Suc.prems(1,2), of limit] unfolding Let_def by blast
  show ?case
  proof (cases "k + ?l < length ?z")
    case True
    have "likers_walk svc et eid metric limit n (cursor_at ?z (k + ?l)) s1 = Inr (drop (k + ?l) (newest_first ?z))"
      using Suc.IH[of s1 "k + ?l"] Suc.prems True unfolding v by (simp add: algebra_simps)
    moreover have "take ?l (drop k (newest_first ?z)) @ drop (k + ?l) (newest_first ?z) = drop k (newest_first ?z)"
      by (metis add.commute append_take_drop_id drop_drop)
    ultimately show ?thesis using True g cursor_after_page[of k ?l ?z] by simp
  next
    case False
    with g show ?thesis by simp
  qed
qed

end

section \<open>The offline rebuild\<close>

lemma zupd_zupd: "ks_zupd k g (ks_zupd k f ks) = ks_zupd k (g \<circ> f) ks"
  by (simp add: ks_zupd_def)

lemma zupd_id [simp]: "ks_zupd k id ks = ks"
  by (simp add: ks_zupd_def)

definition add_missing :: "string list \<Rightarrow> zset \<Rightarrow> zset" where
  "add_missing ms z = fold (\<lambda>m. zs_add_nx m 0) ms z"

lemma add_missing_append: "add_missing (xs @ ys) = add_missing ys \<circ> add_missing xs"
  by (auto simp: add_missing_def)

lemma add_missing_Nil [simp]: "add_missing [] = id"
  by (auto simp: add_missing_def)

lemma zs_ok_add_nx: "zs_ok z \<Longrightarrow> zs_ok (zs_add_nx m sc z)"
  using sorted_zs_insert[of z "(m, sc)"] distinct_zs_insert[of z "(m, sc)"]
  by (simp add: zs_ok_def zs_add_nx_def)

lemma zs_ok_add_missing: "zs_ok z \<Longrightarrow> zs_ok (add_missing ms z)"
  unfolding add_missing_def by (induction ms arbitrary: z) (simp_all add: zs_ok_add_nx)

lemma set_add_missing:
  "set (add_missing ms z) = set z \<union> {(m, 0) | m. m \<in> set ms \<and> m \<notin> fst ` set z}"
proof (induction ms arbitrary: z)
  case (Cons m ms)
  have "set (zs_add_nx m 0 z) = set z \<union> (if m \<in> fst ` set z then {} else {(m, 0)})"
    by (simp add: zs_add_nx_def)
  moreover have "add_missing (m # ms) z = add_missing ms (zs_add_nx m 0 z)"
    by (simp add: add_missing_def)
  ultimately show ?case using Cons.IH[of "zs_add_nx m 0 z"] by (auto simp: image_iff split: if_splits)
qed simp

lemma length_add_missing: "length z \<le> length (add_missing ms z)"
proof (induction ms arbitrary: z)
  case (Cons m ms)
  have "length z \<le> length (zs_add_nx m 0 z)" by (simp add: zs_add_nx_def)
  also have "\<dots> \<le> length (add_missing ms (zs_add_nx m 0 z))" by (rule Cons.IH)
  finally show ?case by (simp add: add_missing_def)
qed simp

lemma length_users_between: "length (users_between L cursor lo hi) \<le> hi - lo"
  unfolding users_between_def by (rule order_trans[OF length_filter_le]) simp

lemma chunk_members_users:
  assumes "shards_clean ks prefix et eid" "to * 65536 \<le> (2 ^ 64 :: nat)"
  shows "c \<le> to \<Longrightarrow> chunk_members c (map (shard_content ks prefix et eid) [c..<to]) =
    map format_uint (users_between (liked_set ks prefix et eid) 0 (c * 65536) (to * 65536))"
proof (induction "to - c" arbitrary: c)
  case 0
  then show ?case by simp
next
  case (Suc n)
  let ?L = "liked_set ks prefix et eid" and ?bm = "shard_content ks prefix et eid c"
  have c: "c < to" "Suc c * 65536 \<le> to * 65536" using Suc.hyps(2) by (auto intro: mult_le_mono1)
  let ?U = "users_between ?L 0 (c * 65536) (Suc c * 65536)"
  have "unat (chunk_of 0) \<le> c" by (simp add: unat_chunk_of)
  then have "append_likers_from_chunk [] ?bm (of_nat c) 0 65536 = take 65536 (map scanned ?U)"
    using shard_users[OF assms(1), of 0 c "[]" 65536] c assms(2) by simp
  moreover have "length ?U \<le> 65536" using length_users_between[of ?L 0 "c * 65536" "Suc c * 65536"] by simp
  ultimately have one: "append_likers_from_chunk [] ?bm (of_nat c) 0 65536 = map scanned ?U" by simp
  have nil: "?U = []" if "?bm = []" using one unfolding that by simp
  have split: "users_between ?L 0 (c * 65536) (to * 65536) = ?U @ users_between ?L 0 (Suc c * 65536) (to * 65536)"
    using c by (intro users_between_split) simp_all
  have up: "[c..<to] = c # [Suc c..<to]" using c by (simp add: upt_conv_Cons)
  have "chunk_members (Suc c) (map (shard_content ks prefix et eid) [Suc c..<to]) =
      map format_uint (users_between ?L 0 (Suc c * 65536) (to * 65536))"
    using Suc.hyps(1)[of "Suc c"] Suc.hyps(2) c by simp
  then show ?case unfolding up split using one nil by (simp add: comp_def)
qed

context counter_world
begin

lemma zadd_nx_all_view:
  assumes "zadd_nx_all (cs_redis svc) k ms s = (n, s')"
  shows "view s' = ks_zupd k (add_missing ms) (view s)"
    "n = length (add_missing ms (ks_zset (view s) k)) - length (ks_zset (view s) k)"
proof -
  have f: "view (fold (r_zadd_nx (cs_redis svc) k 0) ms s) = ks_zupd k (add_missing ms) (view s)" for s
  proof (induction ms arbitrary: s)
    case (Cons m ms)
    have "add_missing (m # ms) = add_missing ms \<circ> zs_add_nx m 0" by (auto simp: add_missing_def)
    with Cons show ?case by (simp add: zupd_zupd comp_def)
  qed simp
  from assms f show "view s' = ks_zupd k (add_missing ms) (view s)"
    "n = length (add_missing ms (ks_zset (view s) k)) - length (ks_zset (view s) k)"
    by (auto simp: zadd_nx_all_def Let_def ks_zupd_def)
qed

lemma rebuild_loop_adds:
  fixes et eid prefix
  defines "k \<equiv> likers_zset_key prefix et (format_uint eid)"
  assumes "shards_clean (view s) prefix et (format_uint eid)" "cs_likers_max_chunk svc * 65536 \<le> (2 ^ 64 :: nat)"
    and "rebuild_loop svc et eid prefix c added s = (Inr n, s')"
  shows "let ms = map format_uint (users_between (liked_set (view s) prefix et (format_uint eid)) 0
        (c * 65536) (cs_likers_max_chunk svc * 65536))
    in view s' = ks_zupd k (add_missing ms) (view s) \<and>
       n = added + (length (add_missing ms (ks_zset (view s) k)) - length (ks_zset (view s) k))"
  using assms(2-)
proof (induction "cs_likers_max_chunk svc - c" arbitrary: c added s rule: less_induct)
  case less
  let ?M = "cs_likers_max_chunk svc" and ?L = "liked_set (view s) prefix et (format_uint eid)"
  let ?U = "\<lambda>lo hi. map format_uint (users_between ?L 0 (lo * 65536) (hi * 65536))"
  show ?case
  proof (cases "c \<ge> ?M")
    case True
    with less.prems(3) show ?thesis by (subst (asm) rebuild_loop.simps) (simp add: Let_def)
  next
    case False
    let ?to = "min (c + chunk_fetch_batch) ?M"
    have to: "c \<le> ?to" "?to \<le> ?M" "?to * 65536 \<le> ?M * 65536" using False by auto
    obtain bms s1 where fetch: "fetch_liker_bitmap_chunks svc et eid prefix c ?to s = (Inr bms, s1)"
      using less.prems(3) False by (subst (asm) rebuild_loop.simps) (auto simp: Let_def split: prod.splits sum.splits)
    have v1: "view s1 = view s" and bms: "bms = map (shard_content (view s) prefix et (format_uint eid)) [c..<?to]"
      using fetch_chunks_view[OF fetch] by auto
    have here: "chunk_members c bms = ?U c ?to"
      unfolding bms using less.prems(2) to by (intro chunk_members_users[OF less.prems(1)]) auto
    obtain d s2 where v2: "view s2 = ks_zupd k (add_missing (?U c ?to)) (view s)"
      and d: "d = length (add_missing (?U c ?to) (ks_zset (view s) k)) - length (ks_zset (view s) k)"
      and rest: "rebuild_loop svc et eid prefix (c + chunk_fetch_batch) (added + d) s2 = (Inr n, s')"
    proof (cases "?U c ?to = []")
      case True
      then have "rebuild_loop svc et eid prefix (c + chunk_fetch_batch) added s1 = (Inr n, s')"
        using less.prems(3) False fetch here by (subst (asm) rebuild_loop.simps) (simp add: Let_def)
      with True v1 show ?thesis by (intro that[of s1 0]) simp_all
    next
      case ne: False
      obtain d s2 where z: "roundtrip (cs_redis svc) (zadd_nx_all (cs_redis svc) k (?U c ?to)) s1 = (Inr d, s2)"
        and r: "rebuild_loop svc et eid prefix (c + chunk_fetch_batch) (added + d) s2 = (Inr n, s')"
        using less.prems(3) False fetch here ne
        by (subst (asm) rebuild_loop.simps) (auto simp: Let_def k_def split: prod.splits sum.splits)
      obtain t where t: "view t = view s1" "zadd_nx_all (cs_redis svc) k (?U c ?to) t = (d, s2)"
        using roundtrip_Inr[OF z] by blast
      show ?thesis using zadd_nx_all_view[OF t(2)] t(1) v1 r by (intro that[of s2 d]) simp_all
    qed
    have dec: "?M - (c + chunk_fetch_batch) < ?M - c" using False unfolding chunk_fetch_batch_def by linarith
    have bits: "ks_bit (view s2) = ks_bit (view s)" "ks_str (view s2) = ks_str (view s)" unfolding v2 by simp_all
    have clean: "shards_clean (view s2) prefix et (format_uint eid)"
      using less.prems(1) bits by (simp add: shards_clean_def)
    have L: "liked_set (view s2) prefix et (format_uint eid) = ?L" using bits by (simp add: liked_set_def)
    have z2: "ks_zset (view s2) k = add_missing (?U c ?to) (ks_zset (view s) k)" unfolding v2 by (simp add: ks_zupd_def)
    have IH: "view s' = ks_zupd k (add_missing (?U (c + chunk_fetch_batch) ?M)) (view s2) \<and>
        n = added + d + (length (add_missing (?U (c + chunk_fetch_batch) ?M) (ks_zset (view s2) k)) - length (ks_zset (view s2) k))"
      using less.hyps[OF dec clean less.prems(2) rest] unfolding L Let_def .
    have tail: "?U ?to ?M = ?U (c + chunk_fetch_batch) ?M"
      by (cases "c + chunk_fetch_batch \<le> ?M") (auto simp: min_def)
    have whole: "?U c ?M = ?U c ?to @ ?U (c + chunk_fetch_batch) ?M"
      unfolding tail[symmetric] map_append[symmetric] using to
      by (intro arg_cong[where f = "map format_uint"] users_between_split) auto
    have len: "length (ks_zset (view s) k) \<le> length (ks_zset (view s2) k)"
      "length (ks_zset (view s2) k) \<le> length (add_missing (?U (c + chunk_fetch_batch) ?M) (ks_zset (view s2) k))"
      unfolding z2 by (rule length_add_missing)+
    show ?thesis
      using IH len d unfolding Let_def whole add_missing_append v2 zupd_zupd by (simp add: ks_zupd_def)
  qed
qed

end

context counter_world_up
begin

lemma fetch_chunks_up: "\<exists>bms s1. fetch_liker_bitmap_chunks svc et eid prefix c to s = (Inr bms, s1)"
  unfolding fetch_liker_bitmap_chunks_def using rd_up by blast

lemma rebuild_loop_up: "is_ok (fst (rebuild_loop svc et eid prefix c added s))"
proof (induction "cs_likers_max_chunk svc - c" arbitrary: c added s rule: less_induct)
  case less
  let ?to = "min (c + chunk_fetch_batch) (cs_likers_max_chunk svc)"
  obtain bms s1 where f: "fetch_liker_bitmap_chunks svc et eid prefix c ?to s = (Inr bms, s1)"
    using fetch_chunks_up by blast
  obtain n s2 where z: "roundtrip (cs_redis svc) (zadd_nx_all (cs_redis svc)
      (likers_zset_key prefix et (format_uint eid)) (chunk_members c bms)) s1 = (Inr n, s2)"
    using roundtrip_up by blast
  have dec: "cs_likers_max_chunk svc - (c + chunk_fetch_batch) < cs_likers_max_chunk svc - c"
    if "\<not> c \<ge> cs_likers_max_chunk svc"
    using that unfolding chunk_fetch_batch_def by linarith
  show ?case
    using less[OF dec] f z by (subst rebuild_loop.simps) (simp add: Let_def)
qed

lemma scan_loop_up: "is_ok (fst (scan_loop svc et eid prefix cursor need c items s))"
proof (induction "cs_likers_max_chunk svc - c" arbitrary: c items s rule: less_induct)
  case less
  let ?to = "min (c + chunk_fetch_batch) (cs_likers_max_chunk svc)"
  obtain bms s1 where f: "fetch_liker_bitmap_chunks svc et eid prefix c ?to s = (Inr bms, s1)"
    using fetch_chunks_up by blast
  have dec: "cs_likers_max_chunk svc - (c + chunk_fetch_batch) < cs_likers_max_chunk svc - c"
    if "\<not> c \<ge> cs_likers_max_chunk svc"
    using that unfolding chunk_fetch_batch_def by linarith
  show ?case
    using less[OF dec] f by (subst scan_loop.simps) (simp add: Let_def)
qed

end

section \<open>The cache of scanned pages\<close>

abbreviation cached :: "uint64 \<Rightarrow> string \<times> int" where
  "cached u \<equiv> (format_uint u, uint u)"

lemma zs_insert_last: "\<forall>q \<in> set z. zless q p \<Longrightarrow> zs_insert p z = z @ [p]"
proof (induction z)
  case (Cons q z)
  then have "\<not> zless p q" by (metis list.set_intros(1) zless_irrefl zless_trans)
  with Cons show ?case by simp
qed simp

lemma cached_less: "zless (cached u) (cached v) \<longleftrightarrow> u < v"
  using word_uint_eq_iff[of u v] by (auto simp: zless_def word_less_def)

lemma fold_cached:
  "sorted_wrt (<) (us @ vs) \<Longrightarrow> fold (\<lambda>u. zs_add (format_uint u) (uint u)) vs (map cached us) = map cached (us @ vs)"
proof (induction vs arbitrary: us)
  case (Cons v vs)
  then have lt: "\<forall>u \<in> set us. u < v" by (simp add: sorted_wrt_append)
  then have "zs_rem (format_uint v) (map cached us) = map cached us"
    by (auto simp: zs_rem_def filter_id_conv)
  moreover have "zs_insert (cached v) (map cached us) = map cached us @ [cached v]"
    using lt by (intro zs_insert_last) (auto simp: cached_less)
  ultimately have "zs_add (format_uint v) (uint v) (map cached us) = map cached (us @ [v])" by (simp add: zs_add_def)
  with Cons.IH[of "us @ [v]"] Cons.prems show ?case by simp
qed simp

lemma map_filter_parse [simp]: "List.map_filter parse_uint (map format_uint us) = us"
  by (induction us) simp_all

lemma build_from_cached:
  "length us = Suc l \<Longrightarrow> map li_user_id (lr_items (build_likers_from_cache (map format_uint us) l)) = take l us"
  by (simp add: build_likers_from_cache_def cut_page_def Let_def take_map comp_def)

context counter_world_up
begin

lemma fill_cache_view:
  assumes "ks_zset (view s) key = []" "sorted_wrt (<) us" "length us \<le> likers_cache_max_size"
  shows "ks_zset (view (fill_likers_scan_cache svc key (map scanned us) s)) key = map cached us"
proof -
  let ?R = "cs_redis svc"
  obtain s1 where v: "view s1 = view s" and w: "wr ?R (\<lambda>s. r_zkeep_top ?R key likers_cache_max_size (r_expire ?R key likers_cache_ttl
      (fold (\<lambda>it. r_zadd ?R key (uint (li_user_id it)) (format_uint (li_user_id it))) (map scanned us) s))) s =
      (Inr (), r_zkeep_top ?R key likers_cache_max_size (r_expire ?R key likers_cache_ttl
      (fold (\<lambda>it. r_zadd ?R key (uint (li_user_id it)) (format_uint (li_user_id it))) (map scanned us) s1)))"
    by (rule wr_upE)
  have f: "ks_zset (view (fold (\<lambda>it. r_zadd ?R key (uint (li_user_id it)) (format_uint (li_user_id it))) (map scanned vs) t)) key =
      fold (\<lambda>u. zs_add (format_uint u) (uint u)) vs (ks_zset (view t) key)" for vs t
    by (induction vs arbitrary: t) (simp_all add: ks_zupd_def)
  have "fold (\<lambda>u. zs_add (format_uint u) (uint u)) us [] = map cached us" using fold_cached[of "[]" us] assms(2) by simp
  with f[of us s1] w v assms(1,3) show ?thesis
    by (simp add: fill_likers_scan_cache_def Let_def ks_zupd_def zs_keep_top_def)
qed

lemma cache_after_page:
  assumes "shards_clean (view s) prefix et (format_uint eid)" "cs_likers_max_chunk svc * 65536 \<le> (2 ^ 64 :: nat)"
    and "limit \<le> 50" "ks_zset (view s) (likers_scan_cache_key et eid prefix) = []"
    and "scan_bitmap_for_likers svc et eid prefix cursor limit s = (Inr r, s1)"
  shows "let us = take limit (users_after (liked_set (view s) prefix et (format_uint eid)) (cs_likers_max_chunk svc) cursor)
    in lr_items r = map scanned us \<and> (\<forall>u \<in> set us. cursor < u) \<and>
       (us \<noteq> [] \<longrightarrow> ks_zset (view s1) (likers_scan_cache_key et eid prefix) = map cached us)"
proof -
  let ?key = "likers_scan_cache_key et eid prefix" and ?M = "cs_likers_max_chunk svc"
  let ?U = "users_after (liked_set (view s) prefix et (format_uint eid)) ?M cursor"
  obtain t where t: "view t = view s" "try_likers_scan_cache svc ?key cursor limit s = (None, t)"
    using rd_up[of s "r_zrange_above (cs_redis svc) ?key (uint cursor) (limit + 1)"] assms(4)
    by (auto simp: try_likers_scan_cache_def)
  obtain found t2 where scan: "scan_liker_chunks svc et eid prefix cursor limit t = (Inr found, t2)"
    using assms(5) t(2) by (auto simp: scan_bitmap_for_likers_def Let_def split: prod.splits sum.splits)
  have v2: "view t2 = view s" and f: "found = take (limit + 1) (map scanned ?U)"
    using scan_page[OF _ assms(2) scan] assms(1) unfolding t(1) by simp_all
  let ?us = "take limit ?U"
  have found: "cut_page limit found = (map scanned ?us, limit < length ?U)"
    unfolding f cut_page_take by (simp add: take_map)
  have r: "lr_items r = map scanned ?us"
    using assms(5) t(2) scan found by (auto simp: scan_bitmap_for_likers_def Let_def split: if_splits)
  have srt: "sorted_wrt (<) ?us" using sorted_users_after[OF assms(2)] by (simp add: sorted_wrt_take)
  have "ks_zset (view s1) ?key = map cached ?us" if "?us \<noteq> []"
  proof -
    have "s1 = fill_likers_scan_cache svc ?key (map scanned ?us) t2"
      using assms(5) t(2) scan found that by (auto simp: scan_bitmap_for_likers_def Let_def split: if_splits)
    then show ?thesis
      using fill_cache_view[of t2 ?key ?us] v2 assms(3,4) srt by (simp add: likers_cache_max_size_def)
  qed
  moreover have "\<forall>u \<in> set ?us. cursor < u"
    using set_users_after[OF assms(2)] by (auto dest: in_set_takeD)
  ultimately show ?thesis using r by (simp add: Let_def)
qed

lemma cache_hit:
  assumes "ks_zset (view s) (likers_scan_cache_key et eid prefix) = map cached us" "\<forall>u \<in> set us. 0 < u" "l < length us"
  shows "\<exists>r s1. scan_bitmap_for_likers svc et eid prefix 0 l s = (Inr r, s1) \<and> map li_user_id (lr_items r) = take l us"
proof -
  let ?key = "likers_scan_cache_key et eid prefix"
  have pos: "0 < uint u" if "u \<in> set us" for u
  proof -
    from that assms(2) have "0 < u" by blast
    then show ?thesis by (simp add: word_less_def)
  qed
  have all: "filter (\<lambda>p. uint (0 :: uint64) < snd p) (map cached us) = map cached us"
    using pos by (auto simp: filter_id_conv)
  obtain s1 where "rd (cs_redis svc) (r_zrange_above (cs_redis svc) ?key (uint (0 :: uint64)) (l + 1)) s =
      (Inr (take (l + 1) (map cached us)), s1)"
    using rd_up[of s "r_zrange_above (cs_redis svc) ?key (uint (0 :: uint64)) (l + 1)"] assms(1) all by auto
  then have "try_likers_scan_cache svc ?key 0 l s =
      (Some (build_likers_from_cache (map format_uint (take (l + 1) us)) l), s1)"
    using assms(3) by (simp add: try_likers_scan_cache_def take_map comp_def)
  with build_from_cached[of "take (l + 1) us" l] assms(3) show ?thesis
    by (simp add: scan_bitmap_for_likers_def Let_def)
qed

lemma scan_bitmap_up: "is_ok (fst (scan_bitmap_for_likers svc et eid prefix cursor limit s))"
proof -
  have "is_ok (fst (scan_liker_chunks svc et eid prefix cursor limit t))" for t
    unfolding scan_liker_chunks_def by (rule scan_loop_up)
  then show ?thesis
    by (auto simp: scan_bitmap_for_likers_def Let_def is_ok_def split: prod.splits option.splits sum.splits)
      (metis fst_conv old.sum.simps(5))
qed

end

section \<open>What the lists of likers promise\<close>

text \<open>
  C11: a client that follows the cursors of the time index from the first page
  gets every like exactly once, from the newest to the oldest, however many
  likes share one second.
\<close>

theorem likers_walk_complete:
  assumes "counter_world_up svc view" "index_ok (likers_index (view s) et eid metric)"
    and "likers_index (view s) et eid metric \<noteq> []"
    and "length (likers_index (view s) et eid metric) \<le> pages * clamp_likers_limit limit"
  shows "likers_walk svc et eid metric limit pages [] s = Inr (newest_first (likers_index (view s) et eid metric))"
  using counter_world_up.likers_walk_rest[OF assms(1,2), of 0 pages limit] assms(3,4) by simp

definition three_likes :: mem where
  "three_likes = (ks_zupd (likers_zset_key ''like'' ''post'' (format_uint 9))
     (\<lambda>_. [(''5'', 0), (''6'', 0), (''7'', 9)]) empty_keyspace, [])"

lemma small_uints: "format_uint 5 = ''5''" "format_uint 6 = ''6''" "format_uint 7 = ''7''" "format_uint 9 = ''9''" "format_uint 3 = ''3''"
  by (simp_all add: format_uint_def format_nat.simps digit_char_def char_of_def bit_0)

lemma three_likes_index: "likers_index (fst three_likes) ''post'' 9 ''like'' = [(''5'', 0), (''6'', 0), (''7'', 9)]"
  by (simp add: likers_index_def three_likes_def ks_zupd_def metric_favorite_def prefix_like_def)

lemma small_members: "\<exists>u. ''5'' = format_uint u" "\<exists>u. ''6'' = format_uint u" "\<exists>u. ''7'' = format_uint u"
  using small_uints by metis+

lemma index_ok_three: "index_ok [(''5'', 0), (''6'', 0), (''7'', 9)]" "index_ok [(''5'', 0), (''7'', 9)]"
  using small_members by (simp_all add: index_ok_def zs_ok_def zless_def in_int64_def int64_min_def int64_max_def)

theorem likers_walk_complete_witness:
  "likers_walk mem_service ''post'' 9 ''like'' 2 2 [] three_likes =
     Inr (newest_first [(''5'', 0), (''6'', 0), (''7'', 9)])"
  using likers_walk_complete[OF mem_svc.counter_world_up_axioms, of three_likes "''post''" 9 "''like''" 2 2]
  by (simp add: three_likes_index index_ok_three clamp_likers_limit_def)

text \<open>
  When the user of the cursor has taken the like back, the page read by
  score starts at the likes below the place the cursor marks, as long as at most
  sixteen likes of that second come before it.
\<close>

theorem unliked_cursor_continues:
  assumes "counter_world_up svc view" "index_ok (likers_index (view s) et eid metric)" "in_int64 ts"
    and "format_uint u \<notin> fst ` set (likers_index (view s) et eid metric)"
    and "length (filter (\<lambda>p. snd p = ts \<and> fst p \<ge> format_uint u) (likers_index (view s) et eid metric)) \<le> 16"
  shows "\<exists>s1 r. GetLikers svc et eid metric (encode_time_cursor ts u) limit s = (Inr r, s1) \<and> view s1 = view s \<and>
    lr_items r = take (clamp_likers_limit limit) (map like_of (below ts (format_uint u) (likers_index (view s) et eid metric))) \<and>
    (lr_has_more r \<longleftrightarrow> clamp_likers_limit limit < length (below ts (format_uint u) (likers_index (view s) et eid metric)))"
proof -
  let ?k = "likers_zset_key (if metric = metric_favorite then prefix_fav else prefix_like) et (format_uint eid)"
  obtain s1 where "view s1 = view s" "read_likers_by_time svc ?k \<lparr>lc_by_time = True, lc_ts = ts, lc_user_id = u\<rparr>
      (clamp_likers_limit limit) s = (let rest = below ts (format_uint u) (ks_zset (view s) ?k)
     in (Inr (Some (take (clamp_likers_limit limit) (map like_of rest), clamp_likers_limit limit < length rest)), s1))"
    using counter_world_up.unliked_cursor_page[OF assms(1), of s ?k "\<lparr>lc_by_time = True, lc_ts = ts, lc_user_id = u\<rparr>"
        "clamp_likers_limit limit"] assms(2,4,5)
    by (auto simp: likers_index_def)
  with assms(3) show ?thesis by (simp add: GetLikers_def Let_def likers_index_def)
qed

definition two_likes :: mem where
  "two_likes = (ks_zupd (likers_zset_key ''like'' ''post'' (format_uint 9)) (\<lambda>_. [(''5'', 0), (''7'', 9)]) empty_keyspace, [])"

lemma two_likes_index: "likers_index (fst two_likes) ''post'' 9 ''like'' = [(''5'', 0), (''7'', 9)]"
  by (simp add: likers_index_def two_likes_def ks_zupd_def metric_favorite_def prefix_like_def)

theorem unliked_cursor_continues_witness:
  "\<exists>s1 r. GetLikers mem_service ''post'' 9 ''like'' (encode_time_cursor 0 6) 2 two_likes = (Inr r, s1) \<and>
     lr_items r = [like_of (''5'', 0)] \<and> \<not> lr_has_more r"
  using unliked_cursor_continues[OF mem_svc.counter_world_up_axioms, of two_likes "''post''" 9 "''like''" 0 6 2] small_uints
  by (auto simp: two_likes_index index_ok_three clamp_likers_limit_def below_def zless_def in_int64_def int64_min_def int64_max_def)

text \<open>
  The rebuild of the time index adds exactly the users of the bitmap that it
  lacks, all with score 0, keeps every time already recorded, and reports how
  many it added.
\<close>

theorem rebuild_index_adds_missing:
  assumes "counter_world svc view" "cs_likers_max_chunk svc * 65536 \<le> (2 ^ 64 :: nat)"
    and "shards_clean (view s) (if metric = metric_favorite \<or> metric = prefix_fav then prefix_fav else prefix_like) et (format_uint eid)"
    and "RebuildLikersTimeIndex svc et eid metric s = (Inr n, s')"
  shows "let prefix = (if metric = metric_favorite \<or> metric = prefix_fav then prefix_fav else prefix_like);
      zkey = likers_zset_key prefix et (format_uint eid);
      z = ks_zset (view s) zkey; z' = ks_zset (view s') zkey;
      users = {u \<in> liked_set (view s) prefix et (format_uint eid). 0 < u \<and> unat u < cs_likers_max_chunk svc * 65536}
    in set z' = set z \<union> {(format_uint u, 0) | u. u \<in> users \<and> format_uint u \<notin> fst ` set z} \<and>
       (zs_ok z \<longrightarrow> zs_ok z') \<and> n = length z' - length z \<and>
       view s' = (view s)\<lparr>ks_zset := (ks_zset (view s))(zkey := z')\<rparr>"
proof -
  let ?p = "if metric = metric_favorite \<or> metric = prefix_fav then prefix_fav else prefix_like"
  let ?ms = "map format_uint (users_after (liked_set (view s) ?p et (format_uint eid)) (cs_likers_max_chunk svc) 0)"
  note loop = counter_world.rebuild_loop_adds[OF assms(1,3,2) assms(4)[unfolded RebuildLikersTimeIndex_def],
      unfolded mult_0 users_after_def[symmetric] Let_def]
  show ?thesis
    using loop unfolding Let_def
    by (auto simp: ks_zupd_def set_add_missing set_users_after[OF assms(2)] zs_ok_add_missing)
qed

lemma nine_clean: "shards_clean (fst liked_nine) ''like'' ''post'' ''9''"
  unfolding liked_nine_def using shards_clean_setbit[of "''like''" "''post''" "''9''" "''like''" "''post''" "''9''" empty_keyspace]
  by (simp add: shards_clean_def)

theorem rebuild_index_adds_missing_witness:
  "\<exists>n s'. RebuildLikersTimeIndex mem_service ''post'' 9 ''like'' liked_nine = (Inr n, s') \<and>
    set (ks_zset (fst s') (likers_zset_key ''like'' ''post'' ''9'')) = {(''3'', 0)}"
proof -
  obtain n s' where e: "RebuildLikersTimeIndex mem_service ''post'' 9 ''like'' liked_nine = (Inr n, s')"
    using mem_svc.rebuild_loop_up unfolding RebuildLikersTimeIndex_def by (metis is_okE prod.collapse)
  have "ks_zset (fst liked_nine) k = []" for k by (simp add: liked_nine_def ks_setbit_def)
  with rebuild_index_adds_missing[OF mem_svc.counter_world_axioms _ _ e] nine_clean liked_nine_set e show ?thesis
    by (auto simp: small_uints metric_favorite_def prefix_fav_def prefix_like_def Let_def)
qed

text \<open>
  On the bitmap, a page holds the first users above the cursor in the
  scanned shards, ascending, says whether there are more, and the users above
  its last one are exactly the remaining ones: no user is skipped or repeated.
\<close>

theorem scan_page_exact:
  assumes "counter_world svc view" "shards_clean (view s) prefix et (format_uint eid)"
    and "cs_likers_max_chunk svc * 65536 \<le> (2 ^ 64 :: nat)"
    and "scan_liker_chunks svc et eid prefix cursor limit s = (Inr found, s')" "cut_page limit found = (items, has_more)"
  shows "let users = users_after (liked_set (view s) prefix et (format_uint eid)) (cs_likers_max_chunk svc)
    in sorted_wrt (<) (users cursor) \<and>
      set (users cursor) = {u \<in> liked_set (view s) prefix et (format_uint eid). cursor < u \<and> unat u < cs_likers_max_chunk svc * 65536} \<and>
      map li_user_id items = take limit (users cursor) \<and> (has_more \<longleftrightarrow> limit < length (users cursor)) \<and>
      (items \<noteq> [] \<longrightarrow> users (li_user_id (last items)) = drop limit (users cursor)) \<and> view s' = view s"
proof -
  let ?L = "liked_set (view s) prefix et (format_uint eid)" and ?M = "cs_likers_max_chunk svc"
  note page = counter_world.scan_page[OF assms(1,2,3,4)]
  have items: "items = map scanned (take limit (users_after ?L ?M cursor))" and more: "has_more = (limit < length (users_after ?L ?M cursor))"
    using assms(5) unfolding conjunct2[OF page] cut_page_take by (simp_all add: take_map)
  have "users_after ?L ?M (li_user_id (last items)) = drop limit (users_after ?L ?M cursor)" if "items \<noteq> []"
    using users_after_last[OF assms(3), of limit ?L cursor] that by (simp add: items last_map)
  with items more page show ?thesis
    by (simp add: Let_def sorted_users_after[OF assms(3)] set_users_after[OF assms(3)] comp_def)
qed

lemma sorted_singleton:
  fixes xs :: "'a :: linorder list"
  assumes "set xs = {x}" "sorted_wrt (<) xs"
  shows "xs = [x]"
proof (cases xs)
  case (Cons y ys)
  with assms have "y = x" "set ys \<subseteq> {x}" "\<forall>z \<in> set ys. y < z" by auto
  with Cons show ?thesis by (cases ys) auto
qed (use assms in simp)

theorem scan_page_exact_witness:
  "\<exists>found s' items. scan_liker_chunks mem_service ''post'' 9 ''like'' 0 20 liked_nine = (Inr found, s') \<and>
     cut_page 20 found = (items, False) \<and> map li_user_id items = [3]"
proof -
  obtain found s' where e: "scan_liker_chunks mem_service ''post'' 9 ''like'' 0 20 liked_nine = (Inr found, s')"
    using mem_svc.scan_loop_up unfolding scan_liker_chunks_def by (metis is_okE prod.collapse)
  obtain items more where c: "cut_page 20 found = (items, more)" by (cases "cut_page 20 found")
  let ?U = "users_after {3} 128 0"
  have "set ?U = {u \<in> {3}. 0 < u \<and> unat u < 128 * 65536}" by (rule set_users_after) simp
  also have "\<dots> = {3}" by auto
  finally have "?U = [3]" by (rule sorted_singleton) (rule sorted_users_after, simp)
  with scan_page_exact[OF mem_svc.counter_world_axioms _ _ e c] nine_clean liked_nine_set e c show ?thesis
    by (simp add: small_uints Let_def)
qed

text \<open>
  The page cache of the scan is not tied to the page it came from. After a
  page above some cursor was cached, a shorter first page is answered from the
  cache: it starts at the users above that cursor and lists none of those below,
  although the response says nothing of it.
\<close>

theorem scan_cache_skips_users:
  assumes "counter_world_up svc view" "shards_clean (view s) prefix et (format_uint eid)"
    and "cs_likers_max_chunk svc * 65536 \<le> (2 ^ 64 :: nat)" "limit \<le> 50"
    and "ks_zset (view s) (likers_scan_cache_key et eid prefix) = []"
    and "scan_bitmap_for_likers svc et eid prefix cursor limit s = (Inr r, s1)" "l < length (lr_items r)"
  shows "\<exists>r' s2. scan_bitmap_for_likers svc et eid prefix 0 l s1 = (Inr r', s2) \<and>
    map li_user_id (lr_items r') = take l (map li_user_id (lr_items r)) \<and>
    (\<forall>u \<in> set (map li_user_id (lr_items r')). cursor < u)"
proof -
  let ?us = "take limit (users_after (liked_set (view s) prefix et (format_uint eid)) (cs_likers_max_chunk svc) cursor)"
  have us: "lr_items r = map scanned ?us" "\<forall>u \<in> set ?us. cursor < u"
    "?us \<noteq> [] \<Longrightarrow> ks_zset (view s1) (likers_scan_cache_key et eid prefix) = map cached ?us"
    using counter_world_up.cache_after_page[OF assms(1-6)] unfolding Let_def by blast+
  have ne: "?us \<noteq> []" "l < length ?us" using us(1) assms(7) by auto
  have pos: "\<forall>u \<in> set ?us. 0 < u" using us(2) by (metis word_not_simps(1) word_neq_0_conv)
  obtain r' s2 where hit: "scan_bitmap_for_likers svc et eid prefix 0 l s1 = (Inr r', s2)"
    "map li_user_id (lr_items r') = take l ?us"
    using counter_world_up.cache_hit[OF assms(1) us(3)[OF ne(1)] pos ne(2)] by blast
  have above: "\<forall>u \<in> set (map li_user_id (lr_items r')). cursor < u"
    using us(2) unfolding hit(2) by (meson in_set_takeD)
  have rm: "map li_user_id (lr_items r) = ?us" using us(1) by (simp add: comp_def)
  show ?thesis unfolding rm using hit above by blast
qed

text \<open>Users 3, 5 and 6 like the entity: after the page above 4 was read, the first page of one user is user 5.\<close>

definition three_users :: mem where
  "three_users = (ks_setbit (bitmap_key ''like'' ''post'' ''9'' (chunk_of 6)) (unat (bit_of 6)) True
     (ks_setbit (bitmap_key ''like'' ''post'' ''9'' (chunk_of 5)) (unat (bit_of 5)) True (fst liked_nine)), [])"

lemma three_users_set: "liked_set (fst three_users) ''like'' ''post'' ''9'' = {3, 5, 6}"
  unfolding three_users_def fst_conv using mem_svc.liked_set_toggle liked_nine_set by auto

lemma three_users_clean: "shards_clean (fst three_users) ''like'' ''post'' ''9''"
  unfolding three_users_def fst_conv by (intro shards_clean_setbit nine_clean) simp_all

lemma three_users_above: "users_after {3, 5, 6} 128 4 = [5, 6]"
proof (rule strict_sorted_equal)
  have "set (users_after {3, 5, 6} 128 4) = {u \<in> {3, 5, 6}. 4 < u \<and> unat u < 128 * 65536}" by (rule set_users_after) simp
  also have "\<dots> = set [5, 6]" by auto
  finally show "set (users_after {3, 5, 6} 128 4) = set [5, 6]" .
  show "sorted_wrt (<) (users_after {3, 5, 6} 128 4)" by (rule sorted_users_after) simp
qed simp

theorem scan_cache_skips_users_witness:
  "\<exists>r s1 r' s2. scan_bitmap_for_likers mem_service ''post'' 9 ''like'' 4 2 three_users = (Inr r, s1) \<and>
     scan_bitmap_for_likers mem_service ''post'' 9 ''like'' 0 1 s1 = (Inr r', s2) \<and>
     map li_user_id (lr_items r') = [5]"
proof -
  have none: "ks_zset (fst three_users) k = []" for k by (simp add: three_users_def liked_nine_def ks_setbit_def)
  have "is_ok (fst (scan_bitmap_for_likers mem_service ''post'' 9 ''like'' 4 2 three_users))"
    by (rule mem_svc.scan_bitmap_up)
  then obtain r s1 where e: "scan_bitmap_for_likers mem_service ''post'' 9 ''like'' 4 2 three_users = (Inr r, s1)"
    by (metis is_okE prod.collapse)
  have items: "lr_items r = map scanned [5, 6]"
    using mem_svc.cache_after_page[OF _ _ _ none e] three_users_clean
    by (simp add: small_uints three_users_set three_users_above Let_def)
  have "\<exists>r' s2. scan_bitmap_for_likers mem_service ''post'' 9 ''like'' 0 1 s1 = (Inr r', s2) \<and>
      map li_user_id (lr_items r') = take 1 (map li_user_id (lr_items r)) \<and>
      (\<forall>u \<in> set (map li_user_id (lr_items r')). 4 < u)"
    by (rule scan_cache_skips_users[OF mem_svc.counter_world_up_axioms _ _ _ none e])
      (simp_all add: small_uints three_users_clean items)
  then obtain r' s2 where "scan_bitmap_for_likers mem_service ''post'' 9 ''like'' 0 1 s1 = (Inr r', s2)"
    "map li_user_id (lr_items r') = take 1 (map li_user_id (lr_items r))" by blast
  with e items show ?thesis by (intro exI conjI) simp_all
qed

end
