(* ===== verification/Follow_Events.thy ===== *)
theory Follow_Events
  imports Counter_Toggle
begin

text \<open>
  \<open>internal/counter/user_counter.go\<close> and \<open>internal/relation/event_processor.go\<close>,
  \<open>outbox_consumer.go\<close>: the events of follows and unfollows update the two
  cached lists and the two user counters. The lists are updated first, then one
  script sets the mark of the event and counts. \<open>json.Unmarshal\<close> of a payload
  is an argument of the row handler.
\<close>

section \<open>User counters\<close>

definition metric_following :: string where "metric_following = ''following''"
definition metric_follower :: string where "metric_follower = ''follower''"
definition user_counts_key :: "uint64 \<Rightarrow> string" where
  "user_counts_key u = sds_key ''user'' (format_uint u)"

text \<open>A nil counter, a missing or unreadable count and a Redis error are all unknown.\<close>

definition FollowerCount :: "'s counter_service option \<Rightarrow> uint64 \<Rightarrow> 's \<Rightarrow> (int \<times> bool) \<times> 's" where
  "FollowerCount uc u s = (case uc of
      None \<Rightarrow> ((0, False), s)
    | Some svc \<Rightarrow>
        (case rd (cs_redis svc) (r_hget (cs_redis svc) (user_counts_key u) metric_follower) s of
           (Inl e, s1) \<Rightarrow> ((0, False), s1)
         | (Inr v, s1) \<Rightarrow>
             ((case (case v of None \<Rightarrow> None | Some t \<Rightarrow> parse_int t) of
                 None \<Rightarrow> (0, False)
               | Some n \<Rightarrow> if n < 0 then (0, True) else (n, True)), s1)))"

definition apply_follow_delta_script ::
  "'s redis \<Rightarrow> string \<Rightarrow> string \<Rightarrow> string \<Rightarrow> int \<Rightarrow> int \<Rightarrow> 's \<Rightarrow> int \<times> 's" where
  "apply_follow_delta_script R dedupe from to ttl_sec delta s =
    (case set_nx R dedupe ''1'' (ttl_sec * 1000) s of
       (False, s1) \<Rightarrow> (0, s1)
     | (True, s1) \<Rightarrow>
         (1, r_hincrby R to metric_follower delta (r_hincrby R from metric_following delta s1)))"

definition ApplyFollowDeltaOnce ::
  "'s counter_service option \<Rightarrow> string \<Rightarrow> int \<Rightarrow> uint64 \<Rightarrow> uint64 \<Rightarrow> int \<Rightarrow> 's \<Rightarrow> (io_error + bool) \<times> 's" where
  "ApplyFollowDeltaOnce uc dedupe ttl a b delta s = (case uc of
      None \<Rightarrow> (Inr False, s)
    | Some svc \<Rightarrow>
        (case roundtrip (cs_redis svc) (apply_follow_delta_script (cs_redis svc) dedupe
                (user_counts_key a) (user_counts_key b) (ttl div 1000) delta) s of
           (Inl e, s1) \<Rightarrow> (Inl e, s1)
         | (Inr r, s1) \<Rightarrow> (Inr (r = 1), s1)))"

section \<open>The event processor\<close>

record relation_event =
  re_event_type :: string
  re_from_user_id :: uint64
  re_to_user_id :: uint64
  re_relation_id :: "uint64 option"

type_synonym 's follow_counter =
  "string \<Rightarrow> int \<Rightarrow> uint64 \<Rightarrow> uint64 \<Rightarrow> int \<Rightarrow> 's \<Rightarrow> (io_error + bool) \<times> 's"

record 's event_processor =
  ep_redis :: "'s redis"
  ep_counter :: "'s follow_counter option"

definition new_event_processor :: "'s redis option \<Rightarrow> 's follow_counter option \<Rightarrow> 's event_processor option" where
  "new_event_processor r c = map_option (\<lambda>R. \<lparr>ep_redis = R, ep_counter = c\<rparr>) r"

definition dedupe_ttl :: int where "dedupe_ttl = 10 * 60000"

definition relation_id_value :: "uint64 option \<Rightarrow> string" where
  "relation_id_value i = (case i of None \<Rightarrow> ''0'' | Some v \<Rightarrow> format_uint v)"

definition following_zset_key :: "uint64 \<Rightarrow> string" where
  "following_zset_key u = ''z:following:'' @ format_uint u"

definition followers_zset_key :: "uint64 \<Rightarrow> string" where
  "followers_zset_key u = ''z:followers:'' @ format_uint u"

definition dedupe_key :: "relation_event \<Rightarrow> string" where
  "dedupe_key e = ''dedup:rel:'' @ re_event_type e @ colon @ format_uint (re_from_user_id e) @ colon @
     format_uint (re_to_user_id e) @ colon @ relation_id_value (re_relation_id e)"

definition event_delta :: "string \<Rightarrow> int option" where
  "event_delta t = (if t = ''FollowCreated'' then Some 1 else if t = ''FollowCanceled'' then Some (- 1) else None)"

definition zset_commands :: "'s redis \<Rightarrow> relation_event \<Rightarrow> int \<Rightarrow> int \<Rightarrow> 's \<Rightarrow> 's" where
  "zset_commands R e delta now s =
    (let from_key = following_zset_key (re_from_user_id e); to_key = followers_zset_key (re_to_user_id e);
         from = format_uint (re_from_user_id e); to = format_uint (re_to_user_id e);
         s1 = (if delta > 0 then r_zadd R to_key now from (r_zadd R from_key now to s)
               else r_zrem R to_key from (r_zrem R from_key to s))
     in r_expire R to_key (2 * 3600000) (r_expire R from_key (2 * 3600000) s1))"

definition apply_zsets :: "'s redis \<Rightarrow> relation_event \<Rightarrow> int \<Rightarrow> int \<Rightarrow> 's \<Rightarrow> (io_error + unit) \<times> 's" where
  "apply_zsets R e delta now s = wr R (zset_commands R e delta now) s"

definition process :: "'s event_processor option \<Rightarrow> relation_event \<Rightarrow> int \<Rightarrow> 's \<Rightarrow> (io_error + unit) \<times> 's" where
  "process p e now s = (case p of
      None \<Rightarrow> (Inr (), s)
    | Some ep \<Rightarrow>
        (case event_delta (re_event_type e) of
           None \<Rightarrow> (Inr (), s)
         | Some delta \<Rightarrow>
             (case apply_zsets (ep_redis ep) e delta now s of
                (Inl err, s1) \<Rightarrow> (Inl err, s1)
              | (Inr _, s1) \<Rightarrow>
                  (case ep_counter ep of
                     None \<Rightarrow>
                       (case roundtrip (ep_redis ep) (set_nx (ep_redis ep) (dedupe_key e) ''1'' dedupe_ttl) s1 of
                          (Inl err, s2) \<Rightarrow> (Inl err, s2)
                        | (Inr _, s2) \<Rightarrow> (Inr (), s2))
                   | Some C \<Rightarrow>
                       (case C (dedupe_key e) dedupe_ttl (re_from_user_id e) (re_to_user_id e) delta s1 of
                          (Inl err, s2) \<Rightarrow> (Inl err, s2)
                        | (Inr _, s2) \<Rightarrow> (Inr (), s2))))))"

text \<open>A row of the outbox, as the consumer of the outbox topic hands it to its handler.\<close>

record outbox_row =
  row_aggregate_type :: string
  row_aggregate_id :: string
  row_type :: string
  row_payload :: string

definition relation_handle_row ::
  "(string \<Rightarrow> io_error + relation_event) \<Rightarrow> 's event_processor option \<Rightarrow> int \<Rightarrow> outbox_row \<Rightarrow> 's \<Rightarrow> (io_error + unit) \<times> 's" where
  "relation_handle_row unmarshal p now row s =
    (if row_payload row = [] \<or> row_aggregate_type row \<noteq> ''following'' then (Inr (), s)
     else if row_type row \<noteq> ''FollowCreated'' \<and> row_type row \<noteq> ''FollowCanceled'' then (Inr (), s)
     else (case unmarshal (row_payload row) of
         Inl err \<Rightarrow> (Inl err, s)
       | Inr e \<Rightarrow> process p e now s))"

section \<open>The contract of the counter\<close>

text \<open>Count the event behind the mark \<open>k\<close>, unless the mark is there.\<close>

definition count_follow_once :: "string \<Rightarrow> int \<Rightarrow> uint64 \<Rightarrow> uint64 \<Rightarrow> int \<Rightarrow> keyspace \<Rightarrow> keyspace" where
  "count_follow_once k ttl a b d ks =
    (if ks_exists k ks then ks
     else ks_hincrby (user_counts_key b) metric_follower d
       (ks_hincrby (user_counts_key a) metric_following d (ks_set_str k ''1'' (Some ttl) ks)))"

locale counts_once =
  fixes view :: "'s \<Rightarrow> keyspace" and C :: "'s follow_counter"
  assumes ran: "C k ttl a b d s = (Inr first, s') \<Longrightarrow>
      view s' = count_follow_once k (ttl div 1000 * 1000) a b d (view s) \<and> (first \<longleftrightarrow> \<not> ks_exists k (view s))"
    and failed: "C k ttl a b d s = (Inl e, s') \<Longrightarrow>
      view s' \<in> {view s, count_follow_once k (ttl div 1000 * 1000) a b d (view s)}"

context redis_hashes
begin

lemma follow_script_view:
  assumes "apply_follow_delta_script R k (user_counts_key a) (user_counts_key b) t d s = (r, s')"
  shows "view s' = count_follow_once k (t * 1000) a b d (view s)" "r = (if ks_exists k (view s) then 0 else 1)"
  using assms by (auto simp: apply_follow_delta_script_def count_follow_once_def set_nx_def split: if_splits)

end

context counter_world
begin

lemma apply_follow_counts_once: "counts_once view (ApplyFollowDeltaOnce (Some svc))"
proof
  fix k ttl a b d s first s'
  assume "ApplyFollowDeltaOnce (Some svc) k ttl a b d s = (Inr first, s')"
  then obtain r where r: "roundtrip (cs_redis svc) (apply_follow_delta_script (cs_redis svc) k
      (user_counts_key a) (user_counts_key b) (ttl div 1000) d) s = (Inr r, s')" and f: "first = (r = 1)"
    by (auto simp: ApplyFollowDeltaOnce_def split: prod.splits sum.splits)
  obtain s1 where v: "view s1 = view s" and e: "apply_follow_delta_script (cs_redis svc) k
      (user_counts_key a) (user_counts_key b) (ttl div 1000) d s1 = (r, s')"
    using roundtrip_Inr[OF r] by blast
  from follow_script_view[OF e] f show "view s' = count_follow_once k (ttl div 1000 * 1000) a b d (view s) \<and>
      (first \<longleftrightarrow> \<not> ks_exists k (view s))"
    unfolding v by simp
next
  fix k ttl a b d s e s'
  assume "ApplyFollowDeltaOnce (Some svc) k ttl a b d s = (Inl e, s')"
  then have "roundtrip (cs_redis svc) (apply_follow_delta_script (cs_redis svc) k
      (user_counts_key a) (user_counts_key b) (ttl div 1000) d) s = (Inl e, s')"
    by (auto simp: ApplyFollowDeltaOnce_def split: prod.splits sum.splits)
  then show "view s' \<in> {view s, count_follow_once k (ttl div 1000 * 1000) a b d (view s)}"
  proof (cases rule: roundtrip_cases)
    case (lost e s1 x)
    from follow_script_view(1)[OF lost(3)] show ?thesis unfolding lost(2) by simp
  qed simp_all
qed

end

interpretation mem_follow: counts_once fst "ApplyFollowDeltaOnce (Some mem_service)"
  by (rule mem_svc.apply_follow_counts_once)

interpretation faulty_follow: counts_once fst "ApplyFollowDeltaOnce (Some faulty_service)"
  by (rule faulty.apply_follow_counts_once)

section \<open>The processor over Redis and the counter\<close>

definition following_count :: "keyspace \<Rightarrow> uint64 \<Rightarrow> int" where
  "following_count ks u = hash_int ks (user_counts_key u) metric_following"

definition follower_count :: "keyspace \<Rightarrow> uint64 \<Rightarrow> int" where
  "follower_count ks u = hash_int ks (user_counts_key u) metric_follower"

definition list_members :: "keyspace \<Rightarrow> string \<Rightarrow> string set" where
  "list_members ks k = fst ` set (ks_zset ks k)"

text \<open>What the pipeline does to the two lists.\<close>

definition ks_lists :: "relation_event \<Rightarrow> int \<Rightarrow> int \<Rightarrow> keyspace \<Rightarrow> keyspace" where
  "ks_lists e d now ks =
    (let fk = following_zset_key (re_from_user_id e); tk = followers_zset_key (re_to_user_id e);
         from = format_uint (re_from_user_id e); to = format_uint (re_to_user_id e)
     in ks_expire tk (2 * 3600000) (ks_expire fk (2 * 3600000)
          (if d > 0 then ks_zupd tk (zs_add from now) (ks_zupd fk (zs_add to now) ks)
           else ks_zupd tk (zs_rem from) (ks_zupd fk (zs_rem to) ks))))"

lemma zset_zupd [simp]: "ks_zset (ks_zupd k g ks) k' = (if k' = k then g (ks_zset ks k) else ks_zset ks k')"
  by (simp add: ks_zupd_def)

lemma exists_expire [simp]: "ks_exists k (ks_expire k' t ks) = ks_exists k ks"
  by (simp add: ks_exists_def)

lemma exists_empty [simp]: "\<not> ks_exists k empty_keyspace"
  by (simp add: ks_exists_def fun_eq_iff)

lemma exists_zupd: "k \<noteq> k' \<Longrightarrow> ks_exists k (ks_zupd k' g ks) = ks_exists k ks"
  by (simp add: ks_exists_def)

lemma exists_hincrby: "k \<noteq> k' \<Longrightarrow> ks_exists k (ks_hincrby k' f d ks) = ks_exists k ks"
  by (simp add: ks_exists_def ks_hincrby_def ks_hset_def)

lemma exists_set_str [simp]: "ks_exists k (ks_set_str k v t ks)"
  by (simp add: ks_exists_def)

lemma exists_set_str_other: "k \<noteq> k' \<Longrightarrow> ks_exists k (ks_set_str k' v t ks) = ks_exists k ks"
  by (simp add: ks_exists_def)

lemma relation_keys_apart [simp]:
  "dedupe_key e \<noteq> following_zset_key u" "dedupe_key e \<noteq> followers_zset_key u" "dedupe_key e \<noteq> user_counts_key u"
  "following_zset_key u \<noteq> followers_zset_key v" "followers_zset_key v \<noteq> following_zset_key u"
  by (simp_all add: dedupe_key_def following_zset_key_def followers_zset_key_def user_counts_key_def sds_key_def)

lemma following_key_inj [simp]: "following_zset_key u = following_zset_key v \<longleftrightarrow> u = v"
  "followers_zset_key u = followers_zset_key v \<longleftrightarrow> u = v"
  by (simp_all add: following_zset_key_def followers_zset_key_def)

lemma user_counts_key_inj [simp]: "user_counts_key u = user_counts_key v \<longleftrightarrow> u = v"
  by (simp add: user_counts_key_def sds_key_def)

lemma metric_names_apart [simp]: "metric_following \<noteq> metric_follower" "metric_follower \<noteq> metric_following"
  by (simp_all add: metric_following_def metric_follower_def)

lemma exists_lists [simp]: "ks_exists (dedupe_key e) (ks_lists e' d now ks) = ks_exists (dedupe_key e) ks"
  by (simp add: ks_lists_def Let_def exists_zupd)

lemma counts_lists [simp]:
  "following_count (ks_lists e d now ks) = following_count ks" "follower_count (ks_lists e d now ks) = follower_count ks"
  by (simp_all add: ks_lists_def Let_def following_count_def follower_count_def fun_eq_iff)

lemma counts_count_once:
  "following_count (count_follow_once k ttl a b d ks) u =
     following_count ks u + (if \<not> ks_exists k ks \<and> u = a then d else 0)"
  "follower_count (count_follow_once k ttl a b d ks) u =
     follower_count ks u + (if \<not> ks_exists k ks \<and> u = b then d else 0)"
  by (simp_all add: count_follow_once_def following_count_def follower_count_def)

lemma exists_count_once: "ks_exists (dedupe_key e) (count_follow_once (dedupe_key e) ttl a b d ks)"
  by (simp add: count_follow_once_def exists_hincrby)

lemma exists_count_other:
  "dedupe_key e' \<noteq> dedupe_key e \<Longrightarrow>
   ks_exists (dedupe_key e') (count_follow_once (dedupe_key e) ttl a b d ks) = ks_exists (dedupe_key e') ks"
  by (simp add: count_follow_once_def exists_hincrby exists_set_str_other)

lemma lists_count_once [simp]: "ks_zset (count_follow_once k ttl a b d ks) = ks_zset ks"
  by (simp add: count_follow_once_def ks_hincrby_def)

lemma members_lists:
  "list_members (ks_lists e d now ks) (following_zset_key u) =
     (if u = re_from_user_id e
      then (if d > 0 then insert (format_uint (re_to_user_id e)) else (\<lambda>X. X - {format_uint (re_to_user_id e)}))
             (list_members ks (following_zset_key u))
      else list_members ks (following_zset_key u))"
  "list_members (ks_lists e d now ks) (followers_zset_key u) =
     (if u = re_to_user_id e
      then (if d > 0 then insert (format_uint (re_from_user_id e)) else (\<lambda>X. X - {format_uint (re_from_user_id e)}))
             (list_members ks (followers_zset_key u))
      else list_members ks (followers_zset_key u))"
  by (simp_all add: ks_lists_def Let_def list_members_def del: set_zs_rem)

locale relation_flow = redis_zsets R view + counts_once view C
  for R :: "'s redis" and view and C
begin

abbreviation processor :: "'s event_processor option" where
  "processor \<equiv> Some \<lparr>ep_redis = R, ep_counter = Some C\<rparr>"

lemma zset_commands_view: "view (zset_commands R e d now s) = ks_lists e d now (view s)"
  by (simp add: zset_commands_def ks_lists_def Let_def)

text \<open>Every outcome of one delivery.\<close>

lemma process_outcome:
  assumes "process processor e now s = (r, s')" "event_delta (re_event_type e) = Some d"
  shows "let L = ks_lists e d now (view s);
      K = count_follow_once (dedupe_key e) (dedupe_ttl div 1000 * 1000) (re_from_user_id e) (re_to_user_id e) d L
    in view s' \<in> {view s, L, K} \<and> (is_ok r \<longrightarrow> view s' = K)"
proof -
  obtain r1 s1 where z: "apply_zsets R e d now s = (r1, s1)" by (cases "apply_zsets R e d now s")
  let ?L = "ks_lists e d now (view s)"
  have zv: "view s1 = ?L \<or> view s1 = view s \<and> \<not> is_ok r1"
    using z unfolding apply_zsets_def wr_def
    by (cases rule: roundtrip_cases) (auto simp: zset_commands_view)
  show ?thesis
  proof (cases r1)
    case (Inl err)
    with z assms zv show ?thesis by (auto simp: process_def Let_def)
  next
    case (Inr u)
    with zv have L: "view s1 = ?L" by auto
    obtain r2 s2 where c: "C (dedupe_key e) dedupe_ttl (re_from_user_id e) (re_to_user_id e) d s1 = (r2, s2)"
      by (cases "C (dedupe_key e) dedupe_ttl (re_from_user_id e) (re_to_user_id e) d s1")
    show ?thesis
    proof (cases r2)
      case Err: (Inl err)
      from failed[OF c[unfolded Err]] Err Inr z c assms L show ?thesis by (auto simp: process_def Let_def)
    next
      case Ok: (Inr first)
      from ran[OF c[unfolded Ok]] Ok Inr z c assms L show ?thesis by (auto simp: process_def Let_def)
    qed
  qed
qed

text \<open>Deliveries of one event again and again, whatever each of them answers.\<close>

end

fun redeliver ::
  "'s event_processor option \<Rightarrow> relation_event \<Rightarrow> int list \<Rightarrow> 's \<Rightarrow> (io_error + unit) list \<times> 's" where
  "redeliver p e [] s = ([], s)"
| "redeliver p e (now # nows) s =
    (let (r, s1) = process p e now s; (rs, s2) = redeliver p e nows s1 in (r # rs, s2))"

definition counted_once :: "relation_event \<Rightarrow> int \<Rightarrow> keyspace \<Rightarrow> keyspace \<Rightarrow> bool" where
  "counted_once e d ks ks' =
    (let c = (\<lambda>u v. if ks_exists (dedupe_key e) ks' \<and> u = v then d else 0)
     in (\<forall>u. following_count ks' u = following_count ks u + c u (re_from_user_id e)) \<and>
        (\<forall>u. follower_count ks' u = follower_count ks u + c u (re_to_user_id e)))"

context relation_flow
begin

lemma counted_step:
  assumes "counted_once e d ks (view s)" "process processor e now s = (r, s')" "event_delta (re_event_type e) = Some d"
  shows "counted_once e d ks (view s')" "is_ok r \<or> ks_exists (dedupe_key e) (view s) \<Longrightarrow> ks_exists (dedupe_key e) (view s')"
proof -
  note o = process_outcome[OF assms(2,3), unfolded Let_def]
  from o assms(1) show "counted_once e d ks (view s')"
    by (auto simp: counted_once_def Let_def counts_count_once exists_count_once)
  show "ks_exists (dedupe_key e) (view s')" if "is_ok r \<or> ks_exists (dedupe_key e) (view s)"
  proof (cases "is_ok r")
    case True
    with o have "view s' = count_follow_once (dedupe_key e) (dedupe_ttl div 1000 * 1000)
      (re_from_user_id e) (re_to_user_id e) d (ks_lists e d now (view s))" by simp
    then show ?thesis by (simp only: exists_count_once)
  qed (use o that in \<open>auto simp: exists_count_once\<close>)
qed

lemma redeliver_counted:
  assumes "redeliver processor e nows s = (rs, s')" "event_delta (re_event_type e) = Some d" "counted_once e d ks (view s)"
  shows "counted_once e d ks (view s') \<and>
    (ks_exists (dedupe_key e) (view s) \<or> (\<exists>r \<in> set rs. is_ok r) \<longrightarrow> ks_exists (dedupe_key e) (view s'))"
  using assms(1,3)
proof (induction nows arbitrary: s rs)
  case Nil
  then show ?case by simp
next
  case (Cons now nows)
  obtain r s1 where p: "process processor e now s = (r, s1)" by (cases "process processor e now s")
  obtain rs1 where q: "redeliver processor e nows s1 = (rs1, s')" and rs: "rs = r # rs1"
    using Cons.prems(1) p by (auto split: prod.splits)
  from Cons.IH[OF q counted_step(1)[OF Cons.prems(2) p assms(2)]] counted_step(2)[OF Cons.prems(2) p assms(2)]
  show ?case unfolding rs by auto
qed

lemma process_ok_view:
  assumes "process processor e now s = (Inr u, s')" "event_delta (re_event_type e) = Some d"
  shows "view s' = count_follow_once (dedupe_key e) (dedupe_ttl div 1000 * 1000) (re_from_user_id e) (re_to_user_id e) d
    (ks_lists e d now (view s))"
  using process_outcome[OF assms] by (simp add: Let_def)

end

section \<open>Properties\<close>

text \<open>
  C12: however often an event is delivered and whatever its deliveries answer
  (lost requests, lost replies), both counters take it at most once, and exactly
  once as soon as one delivery succeeds while the mark lives.
\<close>

theorem follow_event_counts_once:
  assumes "relation_flow R view C" "event_delta (re_event_type e) = Some d" "\<not> ks_exists (dedupe_key e) (view s)"
    and "redeliver (Some \<lparr>ep_redis = R, ep_counter = Some C\<rparr>) e nows s = (rs, s')"
  shows "\<exists>n \<in> {0, d}. (\<forall>u. following_count (view s') u = following_count (view s) u + (if u = re_from_user_id e then n else 0)) \<and>
    (\<forall>u. follower_count (view s') u = follower_count (view s) u + (if u = re_to_user_id e then n else 0)) \<and>
    ((\<exists>r \<in> set rs. is_ok r) \<longrightarrow> n = d)"
proof -
  have "counted_once e d (view s) (view s)" using assms(3) by (simp add: counted_once_def Let_def)
  from relation_flow.redeliver_counted[OF assms(1,4,2) this] show ?thesis
    by (intro bexI[of _ "if ks_exists (dedupe_key e) (view s') then d else 0"]) (auto simp: counted_once_def Let_def)
qed

interpretation mem_flow: relation_flow up_redis fst "ApplyFollowDeltaOnce (Some mem_service)"
  by unfold_locales

interpretation faulty_flow: relation_flow mem_redis fst "ApplyFollowDeltaOnce (Some faulty_service)"
  by unfold_locales

definition follows :: "uint64 \<Rightarrow> uint64 \<Rightarrow> uint64 option \<Rightarrow> relation_event" where
  "follows a b i = \<lparr>re_event_type = ''FollowCreated'', re_from_user_id = a, re_to_user_id = b, re_relation_id = i\<rparr>"

definition unfollows :: "uint64 \<Rightarrow> uint64 \<Rightarrow> relation_event" where
  "unfollows a b = \<lparr>re_event_type = ''FollowCanceled'', re_from_user_id = a, re_to_user_id = b, re_relation_id = None\<rparr>"

text \<open>The reply of the first counting script is lost; the second delivery succeeds.\<close>

definition follow_redelivered :: "(io_error + unit) list \<times> mem" where
  "follow_redelivered = redeliver (Some \<lparr>ep_redis = mem_redis, ep_counter = Some (ApplyFollowDeltaOnce (Some faulty_service))\<rparr>)
     (follows 1 2 (Some 7)) [100, 200] (empty_keyspace, [Delivered, ReplyLost (IoError ''timeout'')])"

theorem follow_event_counts_once_witness:
  "\<exists>n. (\<forall>u. follower_count (fst (snd follow_redelivered)) u = (if u = 2 then n else 0)) \<and> n \<in> {0, 1}"
proof -
  obtain rs s' where e: "follow_redelivered = (rs, s')" by (cases follow_redelivered)
  have z: "follower_count empty_keyspace u = 0" for u by (simp add: follower_count_def)
  have d: "event_delta (re_event_type (follows 1 2 (Some 7))) = Some 1" "re_to_user_id (follows 1 2 (Some 7)) = 2"
    by (simp_all add: follows_def event_delta_def)
  from follow_event_counts_once[OF faulty_flow.relation_flow_axioms d(1) _ e[unfolded follow_redelivered_def]] d(2) z
  show ?thesis unfolding e by auto
qed

text \<open>
  A successful delivery leaves both lists in the state the event asks for,
  every other member of every list untouched, and repeating it changes no
  membership.
\<close>

theorem follow_event_sets_lists:
  assumes "relation_flow R view C" "event_delta (re_event_type e) = Some d"
    and "process (Some \<lparr>ep_redis = R, ep_counter = Some C\<rparr>) e now s = (Inr u, s')"
  shows "list_members (view s') (following_zset_key v) =
      (if v \<noteq> re_from_user_id e then list_members (view s) (following_zset_key v)
       else if re_event_type e = ''FollowCreated''
       then insert (format_uint (re_to_user_id e)) (list_members (view s) (following_zset_key v))
       else list_members (view s) (following_zset_key v) - {format_uint (re_to_user_id e)}) \<and>
    list_members (view s') (followers_zset_key v) =
      (if v \<noteq> re_to_user_id e then list_members (view s) (followers_zset_key v)
       else if re_event_type e = ''FollowCreated''
       then insert (format_uint (re_from_user_id e)) (list_members (view s) (followers_zset_key v))
       else list_members (view s) (followers_zset_key v) - {format_uint (re_from_user_id e)})"
proof -
  have d: "d > 0 \<longleftrightarrow> re_event_type e = ''FollowCreated''" using assms(2) by (auto simp: event_delta_def split: if_splits)
  have "list_members (count_follow_once k t a b d' ks) = list_members ks" for k t a b d' ks
    by (simp add: list_members_def fun_eq_iff)
  then show ?thesis
    unfolding relation_flow.process_ok_view[OF assms(1,3,2)] by (simp add: members_lists d)
qed

definition follow_done :: "(io_error + unit) \<times> mem" where
  "follow_done = process (Some \<lparr>ep_redis = up_redis, ep_counter = Some (ApplyFollowDeltaOnce (Some mem_service))\<rparr>)
     (follows 1 2 (Some 7)) 100 (empty_keyspace, [])"

context counter_world_up
begin

lemma follow_delta_up: "is_ok (fst (ApplyFollowDeltaOnce (Some svc) k ttl a b d s))"
proof -
  let ?f = "apply_follow_delta_script (cs_redis svc) k (user_counts_key a) (user_counts_key b) (ttl div 1000) d"
  obtain s1 where "roundtrip (cs_redis svc) ?f s = (Inr (fst (?f s1)), snd (?f s1))" by (rule roundtrip_upE)
  then show ?thesis by (simp add: ApplyFollowDeltaOnce_def)
qed

lemma process_up:
  "\<exists>u s'. process (Some \<lparr>ep_redis = cs_redis svc, ep_counter = Some (ApplyFollowDeltaOnce (Some svc))\<rparr>) e now s = (Inr u, s')"
proof -
  show ?thesis
  proof (cases "event_delta (re_event_type e)")
    case None
    then show ?thesis by (simp add: process_def)
  next
    case (Some d)
    obtain s1 where z: "apply_zsets (cs_redis svc) e d now s = (Inr (), s1)"
      unfolding apply_zsets_def using wr_up by blast
    obtain b s2 where "ApplyFollowDeltaOnce (Some svc) (dedupe_key e) dedupe_ttl (re_from_user_id e) (re_to_user_id e) d s1 = (Inr b, s2)"
      by (metis follow_delta_up is_okE prod.collapse)
    with z Some show ?thesis by (simp add: process_def)
  qed
qed

end

theorem follow_event_sets_lists_witness:
  "\<exists>u. fst follow_done = Inr u \<and> list_members (fst (snd follow_done)) (following_zset_key 1) = {format_uint 2}"
proof -
  obtain u s' where e: "follow_done = (Inr u, s')"
    using mem_svc.process_up unfolding follow_done_def by fastforce
  have d: "event_delta (re_event_type (follows 1 2 (Some 7))) = Some 1"
    "re_event_type (follows 1 2 (Some 7)) = ''FollowCreated''" "re_from_user_id (follows 1 2 (Some 7)) = 1" "re_to_user_id (follows 1 2 (Some 7)) = 2"
    by (simp_all add: follows_def event_delta_def)
  have "list_members empty_keyspace k = {}" for k by (simp add: list_members_def)
  with follow_event_sets_lists[OF mem_flow.relation_flow_axioms d(1) e[unfolded follow_done_def]] d(2-)
  show ?thesis unfolding e by simp
qed

text \<open>
  C13: an unfollow event carries no relation id, so all unfollows of one pair
  share one mark. When a user follows, unfollows, follows and unfollows again
  while the first mark lives, the last unfollow is taken for a repetition: the
  lists no longer hold the pair, but both counters stay one too high.
\<close>

theorem second_unfollow_not_counted:
  assumes "relation_flow R view C" "i \<noteq> j"
    and "\<not> ks_exists (dedupe_key (follows a b (Some i))) (view s)" "\<not> ks_exists (dedupe_key (follows a b (Some j))) (view s)"
    and "\<not> ks_exists (dedupe_key (unfollows a b)) (view s)"
    and "process (Some \<lparr>ep_redis = R, ep_counter = Some C\<rparr>) (follows a b (Some i)) t1 s = (Inr u1, s1)"
    and "process (Some \<lparr>ep_redis = R, ep_counter = Some C\<rparr>) (unfollows a b) t2 s1 = (Inr u2, s2)"
    and "process (Some \<lparr>ep_redis = R, ep_counter = Some C\<rparr>) (follows a b (Some j)) t3 s2 = (Inr u3, s3)"
    and "process (Some \<lparr>ep_redis = R, ep_counter = Some C\<rparr>) (unfollows a b) t4 s3 = (Inr u4, s4)"
  shows "following_count (view s4) a = following_count (view s) a + 1 \<and>
    follower_count (view s4) b = follower_count (view s) b + 1 \<and>
    format_uint b \<notin> list_members (view s4) (following_zset_key a) \<and>
    format_uint a \<notin> list_members (view s4) (followers_zset_key b)"
proof -
  have f: "event_delta (re_event_type (follows a b k)) = Some 1" "re_from_user_id (follows a b k) = a" "re_to_user_id (follows a b k) = b" for k
    by (simp_all add: follows_def event_delta_def)
  have c: "event_delta (re_event_type (unfollows a b)) = Some (- 1)" "re_from_user_id (unfollows a b) = a" "re_to_user_id (unfollows a b) = b"
    by (simp_all add: unfollows_def event_delta_def)
  have apart: "dedupe_key (unfollows a b) \<noteq> dedupe_key (follows a b k)" "dedupe_key (follows a b k) \<noteq> dedupe_key (unfollows a b)"
    "dedupe_key (follows a b (Some i)) \<noteq> dedupe_key (follows a b (Some j))" "dedupe_key (follows a b (Some j)) \<noteq> dedupe_key (follows a b (Some i))" for k
    using assms(2) by (simp_all add: dedupe_key_def follows_def unfollows_def relation_id_value_def)
  note v = relation_flow.process_ok_view[OF assms(1)]
  note v1 = v[OF assms(6) f(1), unfolded f] note v2 = v[OF assms(7) c(1), unfolded c]
  note v3 = v[OF assms(8) f(1), unfolded f] note v4 = v[OF assms(9) c(1), unfolded c]
  have lists: "list_members (count_follow_once k t a b d' ks) = list_members ks" for k t a b d' ks
    by (simp add: list_members_def fun_eq_iff)
  show ?thesis
    unfolding v4 v3 v2 v1 lists
    using assms(3-5) by (simp add: counts_count_once exists_count_once exists_count_other apart members_lists f c)
qed

theorem second_unfollow_not_counted_witness:
  "\<exists>s4 :: mem. following_count (fst s4) 1 = 1 \<and> format_uint 2 \<notin> list_members (fst s4) (following_zset_key 1)"
proof -
  let ?p = "Some \<lparr>ep_redis = up_redis, ep_counter = Some (ApplyFollowDeltaOnce (Some mem_service))\<rparr>"
  note up = mem_svc.process_up[unfolded mem_service_sel(1)]
  obtain u1 s1 where e1: "process ?p (follows 1 2 (Some 7)) 100 (empty_keyspace, []) = (Inr u1, s1)" using up by blast
  obtain u2 s2 where e2: "process ?p (unfollows 1 2) 200 s1 = (Inr u2, s2)" using up by blast
  obtain u3 s3 where e3: "process ?p (follows 1 2 (Some 8)) 300 s2 = (Inr u3, s3)" using up by blast
  obtain u4 s4 where e4: "process ?p (unfollows 1 2) 400 s3 = (Inr u4, s4)" using up by blast
  have "following_count empty_keyspace u = 0" for u by (simp add: following_count_def)
  with second_unfollow_not_counted[OF mem_flow.relation_flow_axioms _ _ _ _ e1 e2 e3 e4] show ?thesis
    by (intro exI[of _ s4]) simp
qed

end
