(* ===== verification/Http_Errors.thy ===== *)
theory Http_Errors
  imports Go_Strings
begin

text \<open>
  \<open>pkg/errcode\<close>, \<open>pkg/response\<close>, \<open>pkg/httputil\<close> and the error half of
  \<open>pkg/middleware/error_handler.go\<close>: business errors and what they become for a client;
  \<open>pkg/idgen\<close>: the node number of an id generator. The Chinese texts of the codes
  (\<open>Msg\<close>), which no answer carries, are left out.
\<close>

section \<open>Errors\<close>

text \<open>A text given by its bytes.\<close>

definition utf8 :: "nat list \<Rightarrow> string" where
  "utf8 bytes = map char_of bytes"

record app_error =
  ae_code :: int
  ae_message :: string

definition with_msg :: "app_error \<Rightarrow> string \<Rightarrow> app_error" where
  "with_msg e m = \<lparr>ae_code = ae_code e, ae_message = m\<rparr>"

definition ErrBadRequest :: app_error where "ErrBadRequest = \<lparr>ae_code = 400, ae_message = ''bad request''\<rparr>"
definition ErrUnauthorized :: app_error where "ErrUnauthorized = \<lparr>ae_code = 401, ae_message = ''unauthorized''\<rparr>"
definition ErrForbidden :: app_error where "ErrForbidden = \<lparr>ae_code = 403, ae_message = ''forbidden''\<rparr>"
definition ErrNotFound :: app_error where "ErrNotFound = \<lparr>ae_code = 404, ae_message = ''not found''\<rparr>"
definition ErrInternal :: app_error where "ErrInternal = \<lparr>ae_code = 500, ae_message = ''internal server error''\<rparr>"
definition ErrConflict :: app_error where "ErrConflict = \<lparr>ae_code = 409, ae_message = ''conflict''\<rparr>"
definition ErrTooManyRequests :: app_error where "ErrTooManyRequests = \<lparr>ae_code = 429, ae_message = ''too many requests''\<rparr>"
definition ErrServiceUnavailable :: app_error where "ErrServiceUnavailable = \<lparr>ae_code = 503, ae_message = ''service unavailable''\<rparr>"
definition ErrIdentifierExists :: app_error where "ErrIdentifierExists = \<lparr>ae_code = 40901, ae_message = ''identifier already exists''\<rparr>"
definition ErrIdentifierNotFound :: app_error where "ErrIdentifierNotFound = \<lparr>ae_code = 40401, ae_message = ''identifier not found''\<rparr>"
definition ErrInvalidCredentials :: app_error where "ErrInvalidCredentials = \<lparr>ae_code = 40101, ae_message = ''invalid credentials''\<rparr>"
definition ErrRefreshTokenInvalid :: app_error where "ErrRefreshTokenInvalid = \<lparr>ae_code = 40102, ae_message = ''invalid refresh token''\<rparr>"
definition ErrTermsNotAccepted :: app_error where "ErrTermsNotAccepted = \<lparr>ae_code = 40001, ae_message = ''terms not accepted''\<rparr>"
definition ErrVerificationNotFound :: app_error where "ErrVerificationNotFound = \<lparr>ae_code = 40402, ae_message = ''verification code not found''\<rparr>"
definition ErrVerificationMismatch :: app_error where "ErrVerificationMismatch = \<lparr>ae_code = 40002, ae_message = ''verification code mismatch''\<rparr>"
definition ErrVerificationTooManyAttempts :: app_error where
  "ErrVerificationTooManyAttempts = \<lparr>ae_code = 42901, ae_message = ''too many verification attempts''\<rparr>"
definition ErrFollowYourself :: app_error where "ErrFollowYourself = \<lparr>ae_code = 40003, ae_message = ''cannot follow yourself''\<rparr>"
definition ErrDailyLimitExceeded :: app_error where "ErrDailyLimitExceeded = \<lparr>ae_code = 42902, ae_message = ''daily limit exceeded''\<rparr>"
definition ErrPasswordResetFailed :: app_error where "ErrPasswordResetFailed = \<lparr>ae_code = 40004, ae_message = ''password reset failed''\<rparr>"
definition ErrLogoutFailed :: app_error where "ErrLogoutFailed = \<lparr>ae_code = 40005, ae_message = ''logout failed''\<rparr>"
definition ErrRelationTooManyRequests :: app_error where
  "ErrRelationTooManyRequests = \<lparr>ae_code = 42903, ae_message = ''too many relation requests''\<rparr>"

text \<open>Go divides towards zero; codes are not negative here before the division.\<close>

definition HTTPStatusFromCode :: "int \<Rightarrow> int" where
  "HTTPStatusFromCode code =
    (let c = (if code \<ge> 1000 then code div 100 else code) in
     if c = 0 then 200 else if c = 400 then 400 else if c = 401 then 401 else if c = 403 then 403
     else if c = 404 then 404 else if c = 409 then 409 else if c = 429 then 429 else if c = 503 then 503 else 500)"

text \<open>
  An error of a service: a business error as it is, one wrapped by \<open>fmt.Errorf\<close> with
  its full text, or any other with its text. \<open>errors.As\<close> looks through the wrapping,
  a type assertion does not.
\<close>

datatype service_error = AppErr app_error | WrappedApp app_error string | PlainErr string

definition ToAppError :: "service_error \<Rightarrow> app_error" where
  "ToAppError e = (case e of AppErr a \<Rightarrow> a | WrappedApp a _ \<Rightarrow> a | PlainErr t \<Rightarrow> with_msg ErrInternal t)"

definition ToAppErr :: "service_error option \<Rightarrow> app_error" where
  "ToAppErr e = (case e of None \<Rightarrow> with_msg ErrInternal ''nil error'' | Some (AppErr a) \<Rightarrow> a
     | Some _ \<Rightarrow> with_msg ErrInternal ''internal error'')"

section \<open>Answers\<close>

text \<open>Status and body; \<open>omitempty\<close> drops the data of an error.\<close>

datatype 'a api_response = APIResponse (ar_status: int) (ar_code: int) (ar_message: string) (ar_data: "'a option") | NoBody (ar_status: int)

definition SuccessResponse :: "'a \<Rightarrow> 'a api_response" where "SuccessResponse d = APIResponse 200 0 ''success'' (Some d)"
definition CreatedResponse :: "'a \<Rightarrow> 'a api_response" where "CreatedResponse d = APIResponse 201 0 ''created'' (Some d)"
definition NoContent :: "'a api_response" where "NoContent = NoBody 204"
definition ErrorResponse :: "app_error \<Rightarrow> 'a api_response" where
  "ErrorResponse e = APIResponse (HTTPStatusFromCode (ae_code e)) (ae_code e) (ae_message e) None"
definition FailResponse :: "int \<Rightarrow> string \<Rightarrow> 'a api_response" where "FailResponse st m = APIResponse st st m None"
definition AbortResponse :: "app_error \<Rightarrow> 'a api_response" where
  "AbortResponse e = APIResponse (HTTPStatusFromCode (ae_code e)) (ae_code e) (ae_message e) None"

section \<open>Query parameters\<close>

text \<open>An absent parameter is the empty text.\<close>

definition QueryInt :: "string \<Rightarrow> int \<Rightarrow> int" where
  "QueryInt t def = (if t = [] then def else case parse_int t of None \<Rightarrow> def | Some v \<Rightarrow> if v \<le> 0 then def else v)"

definition QueryUint64 :: "string \<Rightarrow> uint64 \<Rightarrow> uint64" where
  "QueryUint64 t def = (if t = [] then def else case parse_uint t of None \<Rightarrow> def | Some v \<Rightarrow> v)"

record pagination =
  pg_page :: int
  pg_size :: int

definition ParsePagination :: "string \<Rightarrow> string \<Rightarrow> int \<Rightarrow> int \<Rightarrow> pagination" where
  "ParsePagination page sz default_page default_size =
    (let p = QueryInt page default_page; n = QueryInt sz default_size
     in \<lparr>pg_page = if p \<le> 0 then 1 else p, pg_size = if n \<le> 0 then default_size else n\<rparr>)"

record limit_offset_query =
  lm_limit :: int
  lm_offset :: int

definition ParseLimitOffset :: "string \<Rightarrow> string \<Rightarrow> int \<Rightarrow> int \<Rightarrow> limit_offset_query" where
  "ParseLimitOffset limit offset default_limit default_offset =
    (let l = QueryInt limit default_limit; n = QueryInt offset default_offset
     in \<lparr>lm_limit = if l \<le> 0 then default_limit else l, lm_offset = if n < 0 then 0 else n\<rparr>)"

section \<open>The node of an id generator\<close>

record id_config =
  ic_machine :: int
  ic_worker :: int

record id_generator =
  ig_node :: int
  ig_machine :: int
  ig_worker :: int

text \<open>
  \<open>snowflake.NewNode\<close> answers an error for a number outside its ten bits, which is the
  argument \<open>new_node\<close>.
\<close>

definition NewSnowflakeGenerator :: "(int \<Rightarrow> string option) \<Rightarrow> id_config option \<Rightarrow> string + id_generator" where
  "NewSnowflakeGenerator new_node cfg = (case cfg of
      None \<Rightarrow> Inl ''id generator config is nil''
    | Some c \<Rightarrow>
        (if ic_machine c < 0 \<or> ic_machine c > 31 then Inl ''machine_id must be in [0,31]''
         else if ic_worker c < 0 \<or> ic_worker c > 31 then Inl ''worker_id must be in [0,31]''
         else let n = or (push_bit 5 (ic_machine c)) (ic_worker c) in
           case new_node n of
             Some e \<Rightarrow> Inl e
           | None \<Rightarrow> Inr \<lparr>ig_node = n, ig_machine = ic_machine c, ig_worker = ic_worker c\<rparr>))"

definition NodeID :: "id_generator option \<Rightarrow> int" where
  "NodeID g = (case g of None \<Rightarrow> -1 | Some g \<Rightarrow> ig_node g)"

definition MachineID :: "id_generator option \<Rightarrow> int" where
  "MachineID g = (case g of None \<Rightarrow> -1 | Some g \<Rightarrow> ig_machine g)"

definition WorkerID :: "id_generator option \<Rightarrow> int" where
  "WorkerID g = (case g of None \<Rightarrow> -1 | Some g \<Rightarrow> ig_worker g)"

lemma node_sum: "0 \<le> m \<Longrightarrow> 0 \<le> w \<Longrightarrow> w < 32 \<Longrightarrow> or (push_bit 5 m) w = 32 * m + (w :: int)"
proof -
  assume w: "0 \<le> w" "w < 32"
  have t: "take_bit 5 w = w" using w by (simp add: take_bit_int_eq_self)
  have b: "bit w n \<Longrightarrow> n < 5" for n using t by (metis bit_take_bit_iff)
  have "and (push_bit 5 m) w = 0" by (intro bit_eqI) (auto simp: bit_and_iff bit_push_bit_iff dest: b)
  then have "or (push_bit 5 m) w = push_bit 5 m + w" using disjunctive_add_eq_or by metis
  then show ?thesis by (simp add: push_bit_eq_mult)
qed

text \<open>
  Two generators have the same node number only with the same machine and worker,
  and every configuration in range gives a number of ten bits.
\<close>

theorem node_ids_distinct:
  assumes "NewSnowflakeGenerator new_node (Some a) = Inr g" "NewSnowflakeGenerator new_node (Some b) = Inr h"
  shows "0 \<le> NodeID (Some g) \<and> NodeID (Some g) < 1024 \<and>
    (NodeID (Some g) = NodeID (Some h) \<longleftrightarrow> MachineID (Some g) = MachineID (Some h) \<and> WorkerID (Some g) = WorkerID (Some h))"
proof -
  have r: "0 \<le> ic_machine c \<and> ic_machine c \<le> 31 \<and> 0 \<le> ic_worker c \<and> ic_worker c \<le> 31 \<and>
      ig_node x = 32 * ic_machine c + ic_worker c \<and> ig_machine x = ic_machine c \<and> ig_worker x = ic_worker c"
    if "NewSnowflakeGenerator new_node (Some c) = Inr x" for c x
    using that node_sum[of "ic_machine c" "ic_worker c"]
    by (auto simp: NewSnowflakeGenerator_def Let_def split: if_splits option.splits)
  have inj: "32 * i + j = 32 * k + l \<longleftrightarrow> i = k \<and> j = l" if "0 \<le> j" "j < 32" "0 \<le> l" "l < 32" for i j k l :: int
  proof -
    have "(32 * i + j) mod 32 = j" "(32 * k + l) mod 32 = l" using that by (simp_all only: mod_mult_self4 mod_pos_pos_trivial)
    then show ?thesis by (metis add.right_neutral add_diff_cancel_right' mult_cancel_left zero_neq_numeral)
  qed
  note g = r[OF assms(1)] and h = r[OF assms(2)]
  have "ig_node g = ig_node h \<longleftrightarrow> ig_machine g = ig_machine h \<and> ig_worker g = ig_worker h"
    using g h inj[of "ic_worker a" "ic_worker b" "ic_machine a" "ic_machine b"] by simp
  then show ?thesis using g unfolding NodeID_def MachineID_def WorkerID_def by simp
qed

theorem node_ids_distinct_witness:
  "NodeID (Some \<lparr>ig_node = 97, ig_machine = 3, ig_worker = 1\<rparr>) \<noteq> NodeID (Some \<lparr>ig_node = 35, ig_machine = 1, ig_worker = 3\<rparr>)"
proof -
  have a: "NewSnowflakeGenerator (\<lambda>_. None) (Some \<lparr>ic_machine = 3, ic_worker = 1\<rparr>) = Inr \<lparr>ig_node = 97, ig_machine = 3, ig_worker = 1\<rparr>"
    by (simp add: NewSnowflakeGenerator_def node_sum Let_def)
  have b: "NewSnowflakeGenerator (\<lambda>_. None) (Some \<lparr>ic_machine = 1, ic_worker = 3\<rparr>) = Inr \<lparr>ig_node = 35, ig_machine = 1, ig_worker = 3\<rparr>"
    by (simp add: NewSnowflakeGenerator_def node_sum Let_def)
  from node_ids_distinct[OF a b] show ?thesis by (simp add: MachineID_def)
qed

end
