(* ===== verification/Outbox_Tx.thy ===== *)
theory Outbox_Tx
  imports Redis_Server Http_Errors
begin

text \<open>
  The MySQL database as the program uses it, and \<open>internal/outbox/transaction.go\<close>:
  business changes and the rows of the outbox go in one transaction.

  MySQL is a service: a \<open>('t, 's) database\<close> over a world \<open>'s\<close> shows the committed
  tables \<open>'t\<close> of the program and decides for each call whether it works. The
  statements themselves are text of the repository and are modelled where they
  stand, as functions on the tables. Transactions of other clients run before
  or after one transaction, not during it.
\<close>

record ('t, 's) database =
  db_begin :: "'s \<Rightarrow> io_error option \<times> 's"
  db_tables :: "'s \<Rightarrow> 't"
  db_stmt :: "'s \<Rightarrow> io_error option \<times> 's"
  db_rollback :: "'s \<Rightarrow> io_error option \<times> 's"
  db_commit :: "'t \<Rightarrow> 's \<Rightarrow> io_error option \<times> 's"

text \<open>Inside a transaction: the tables as this transaction sees them, and the world.\<close>

type_synonym ('t, 's) tx = "'t \<times> 's"

definition tx_exec :: "('t, 's) database \<Rightarrow> ('t \<Rightarrow> 'a \<times> 't) \<Rightarrow> ('t, 's) tx \<Rightarrow> (io_error + 'a) \<times> ('t, 's) tx" where
  "tx_exec D f x = (case db_stmt D (snd x) of
      (Some e, s1) \<Rightarrow> (Inl e, (fst x, s1))
    | (None, s1) \<Rightarrow> (let (a, t1) = f (fst x) in (Inr a, (t1, s1))))"

text \<open>
  A read or a write outside of a transaction is its own transaction; of a write
  that answers with an error it is not known whether it took place.
\<close>

definition db_read :: "('t, 's) database \<Rightarrow> ('t \<Rightarrow> 'a) \<Rightarrow> 's \<Rightarrow> (io_error + 'a) \<times> 's" where
  "db_read D f s = (case db_stmt D s of
      (Some e, s1) \<Rightarrow> (Inl e, s1)
    | (None, s1) \<Rightarrow> (Inr (f (db_tables D s1)), s1))"

definition db_write :: "('t, 's) database \<Rightarrow> ('t \<Rightarrow> 'a \<times> 't) \<Rightarrow> 's \<Rightarrow> (io_error + 'a) \<times> 's" where
  "db_write D f s = (let (a, t1) = f (db_tables D s) in
     case db_commit D t1 s of
       (Some e, s1) \<Rightarrow> (Inl e, s1)
     | (None, s1) \<Rightarrow> (Inr a, s1))"

locale sql_database =
  fixes D :: "('t, 's) database"
  assumes begin_keeps: "db_tables D (snd (db_begin D s)) = db_tables D s"
    and stmt_keeps: "db_tables D (snd (db_stmt D s)) = db_tables D s"
    and rollback_keeps: "db_tables D (snd (db_rollback D s)) = db_tables D s"
    and committed: "db_commit D t s = (None, s') \<Longrightarrow> db_tables D s' = t"
    and commit_failed: "db_commit D t s = (Some e, s') \<Longrightarrow> db_tables D s' \<in> {db_tables D s, t}"

section \<open>The transaction with its events\<close>

record outbox_event =
  ob_id :: uint64
  ob_aggregate_type :: string
  ob_aggregate_id :: "uint64 option"
  ob_event_type :: string
  ob_payload :: string

text \<open>
  What comes out of the Go error chain: a MySQL error, a business error, the
  sentinels of the relation package, a rollback that failed (its text hides the
  error that caused it), a panic of the mutations.
\<close>

datatype tx_error = TxIo io_error | TxApp app_error | NothingToFollow | NothingToCancel | RollbackFailed io_error | Panicked

datatype tx_outcome = Done | Failed tx_error | Panic

definition rollback_after :: "('t, 's) database \<Rightarrow> tx_error \<Rightarrow> 's \<Rightarrow> (tx_error + unit) \<times> 's" where
  "rollback_after D err s = (case db_rollback D s of
      (Some rb, s1) \<Rightarrow> (Inl (RollbackFailed rb), s1)
    | (None, s1) \<Rightarrow> (Inl err, s1))"

fun insert_events ::
  "('t, 's) database \<Rightarrow> (string \<Rightarrow> io_error + string) \<Rightarrow> (outbox_event \<Rightarrow> 't \<Rightarrow> 't) \<Rightarrow> outbox_event list \<Rightarrow>
   ('t, 's) tx \<Rightarrow> (io_error + unit) \<times> ('t, 's) tx" where
  "insert_events D marshal ins [] x = (Inr (), x)"
| "insert_events D marshal ins (e # es) x =
    (case marshal (ob_payload e) of
       Inl err \<Rightarrow> (Inl err, x)
     | Inr payload \<Rightarrow>
         (case tx_exec D (\<lambda>t. ((), ins (e\<lparr>ob_payload := payload\<rparr>) t)) x of
            (Inl err, x1) \<Rightarrow> (Inl err, x1)
          | (Inr _, x1) \<Rightarrow> insert_events D marshal ins es x1))"

text \<open>\<open>RunInTx\<close>: a panic of the mutations is recovered, the transaction rolled back.\<close>

definition run_in_tx ::
  "('t, 's) database \<Rightarrow> (string \<Rightarrow> io_error + string) \<Rightarrow> (outbox_event \<Rightarrow> 't \<Rightarrow> 't) \<Rightarrow>
   (('t, 's) tx \<Rightarrow> tx_outcome \<times> ('t, 's) tx) \<Rightarrow> outbox_event list \<Rightarrow> 's \<Rightarrow> (tx_error + unit) \<times> 's" where
  "run_in_tx D marshal ins mutations events s =
    (case db_begin D s of
       (Some e, s1) \<Rightarrow> (Inl (TxIo e), s1)
     | (None, s1) \<Rightarrow>
         (case mutations (db_tables D s1, s1) of
            (Panic, x) \<Rightarrow> (Inl Panicked, snd (db_rollback D (snd x)))
          | (Failed err, x) \<Rightarrow> rollback_after D err (snd x)
          | (Done, x) \<Rightarrow>
              (case insert_events D marshal ins events x of
                 (Inl err, x1) \<Rightarrow> rollback_after D (TxIo err) (snd x1)
               | (Inr _, x1) \<Rightarrow>
                   (case db_commit D (fst x1) (snd x1) of
                      (Some e, s2) \<Rightarrow> (Inl (TxIo e), s2)
                    | (None, s2) \<Rightarrow> (Inr (), s2)))))"

section \<open>All or nothing\<close>

text \<open>
  What the mutations of one transaction may do: \<open>G\<close> relates the tables before and
  after when they succeed; when they fail the tables of the transaction may be
  anything. The committed tables stay.
\<close>

definition mutates :: "('t, 's) database \<Rightarrow> (('t, 's) tx \<Rightarrow> tx_outcome \<times> ('t, 's) tx) \<Rightarrow> ('t \<Rightarrow> 't \<Rightarrow> bool) \<Rightarrow> bool" where
  "mutates D m G = (\<forall>x r x'. m x = (r, x') \<longrightarrow>
     db_tables D (snd x') = db_tables D (snd x) \<and> (r = Done \<longrightarrow> G (fst x) (fst x')))"

definition with_events :: "(outbox_event \<Rightarrow> 't \<Rightarrow> 't) \<Rightarrow> (string \<Rightarrow> io_error + string) \<Rightarrow> outbox_event list \<Rightarrow> 't \<Rightarrow> 't" where
  "with_events ins marshal es t =
    fold (\<lambda>e. ins (case marshal (ob_payload e) of Inl _ \<Rightarrow> e | Inr p \<Rightarrow> e\<lparr>ob_payload := p\<rparr>)) es t"

context sql_database
begin

lemma tx_exec_keeps:
  "tx_exec D f x = (r, x') \<Longrightarrow> db_tables D (snd x') = db_tables D (snd x) \<and>
   (case r of Inr a \<Rightarrow> (a, fst x') = f (fst x) | Inl e \<Rightarrow> fst x' = fst x)"
  using stmt_keeps[of "snd x"] by (auto simp: tx_exec_def split: prod.splits option.splits)

lemma insert_events_keeps:
  "insert_events D marshal ins es x = (r, x') \<Longrightarrow> db_tables D (snd x') = db_tables D (snd x) \<and>
   (is_ok r \<longrightarrow> fst x' = with_events ins marshal es (fst x))"
proof (induction es arbitrary: x)
  case Nil
  then show ?case by (auto simp: with_events_def)
next
  case (Cons e es)
  show ?case
  proof (cases "marshal (ob_payload e)")
    case (Inl err)
    with Cons.prems show ?thesis by auto
  next
    case (Inr p)
    obtain r1 x1 where t: "tx_exec D (\<lambda>t. ((), ins (e\<lparr>ob_payload := p\<rparr>) t)) x = (r1, x1)"
      by (cases "tx_exec D (\<lambda>t. ((), ins (e\<lparr>ob_payload := p\<rparr>) t)) x")
    from tx_exec_keeps[OF t] Cons.IH[of x1] Cons.prems Inr t show ?thesis
      by (cases r1) (auto simp: with_events_def)
  qed
qed

lemma rollback_after_keeps:
  "rollback_after D err s = (r, s') \<Longrightarrow> db_tables D s' = db_tables D s \<and> \<not> is_ok r"
  using rollback_keeps[of s] by (auto simp: rollback_after_def split: prod.splits option.splits)

text \<open>
  Whatever happens, the committed tables are the old ones, or they hold the
  changes and all events together; an answer without error means the latter.
\<close>

lemma run_in_tx_atomic:
  assumes "mutates D m G" "run_in_tx D marshal ins m es s = (r, s')"
  shows "(db_tables D s' = db_tables D s \<and> \<not> is_ok r) \<or>
    (\<exists>t. G (db_tables D s) t \<and> db_tables D s' = with_events ins marshal es t)"
proof -
  obtain b s1 where b: "db_begin D s = (b, s1)" by (cases "db_begin D s")
  with begin_keeps[of s] have t1: "db_tables D s1 = db_tables D s" by simp
  obtain o1 x where m: "m (db_tables D s1, s1) = (o1, x)" by (cases "m (db_tables D s1, s1)")
  have x: "db_tables D (snd x) = db_tables D s" "o1 = Done \<longrightarrow> G (db_tables D s) (fst x)"
    using assms(1)[unfolded mutates_def, rule_format, OF m] t1 by simp_all
  show ?thesis
  proof (cases "b = None \<and> o1 = Done")
    case False
    then show ?thesis
      using assms(2) b m t1 x rollback_after_keeps rollback_keeps[of "snd x"]
      by (cases o1) (auto simp: run_in_tx_def split: option.splits)
  next
    case True
    obtain r1 x1 where i: "insert_events D marshal ins es x = (r1, x1)" by (cases "insert_events D marshal ins es x")
    note k = insert_events_keeps[OF i]
    obtain c s2 where c: "db_commit D (fst x1) (snd x1) = (c, s2)" by (cases "db_commit D (fst x1) (snd x1)")
    show ?thesis
    proof (cases r1)
      case (Inl err)
      with assms(2) b m i True k x rollback_after_keeps show ?thesis by (auto simp: run_in_tx_def)
    next
      case (Inr u)
      with assms(2) b m i True c have e: "r = (case c of None \<Rightarrow> Inr () | Some err \<Rightarrow> Inl (TxIo err))" "s' = s2"
        by (auto simp: run_in_tx_def split: option.splits)
      have full: "fst x1 = with_events ins marshal es (fst x)" using k Inr by simp
      show ?thesis
        using e k x True full committed[of "fst x1" "snd x1" s2] commit_failed[of "fst x1" "snd x1" _ s2] c
        by (cases c) auto
    qed
  qed
qed

text \<open>A sentinel that the mutations return comes out only when nothing was changed.\<close>

lemma run_in_tx_sentinel:
  assumes "mutates D m G" "run_in_tx D marshal ins m es s = (Inl err, s')" "\<forall>e. err \<noteq> TxIo e"
  shows "db_tables D s' = db_tables D s"
proof -
  obtain b s1 where b: "db_begin D s = (b, s1)" by (cases "db_begin D s")
  with begin_keeps[of s] have t1: "db_tables D s1 = db_tables D s" by simp
  obtain o1 x where m: "m (db_tables D s1, s1) = (o1, x)" by (cases "m (db_tables D s1, s1)")
  have x: "db_tables D (snd x) = db_tables D s"
    using assms(1)[unfolded mutates_def, rule_format, OF m] t1 by simp
  obtain r1 x1 where i: "insert_events D marshal ins es x = (r1, x1)" by (cases "insert_events D marshal ins es x")
  show ?thesis
    using assms(2,3) b m i x insert_events_keeps[OF i] rollback_after_keeps rollback_keeps[of "snd x"]
    by (auto simp: run_in_tx_def split: option.splits tx_outcome.splits sum.splits prod.splits)
qed

text \<open>A sentinel is an answer of the mutations to the committed tables.\<close>

lemma run_in_tx_sentinel_from:
  assumes "run_in_tx D marshal ins m es s = (Inl err, s')" "\<forall>e. err \<noteq> TxIo e \<and> err \<noteq> RollbackFailed e" "err \<noteq> Panicked"
  obtains s1 x where "m (db_tables D s, s1) = (Failed err, x)"
proof -
  obtain b s1 where b: "db_begin D s = (b, s1)" by (cases "db_begin D s")
  with begin_keeps[of s] have t1: "db_tables D s1 = db_tables D s" by simp
  obtain o1 x where m: "m (db_tables D s1, s1) = (o1, x)" by (cases "m (db_tables D s1, s1)")
  have "o1 = Failed err"
    using assms b m
    by (auto simp: run_in_tx_def rollback_after_def split: option.splits tx_outcome.splits sum.splits prod.splits)
  with m t1 that show ?thesis by simp
qed

end

end
