(* ===== verification/Redis_Product.thy ===== *)
theory Redis_Product
  imports Outbox_Tx Redis_Lock
begin

text \<open>
  Worlds with more than one service: a Redis server on the first component of a
  pair keeps its contract, and an in-memory database with scripted faults lives
  on the second. Witnesses of components that use both run on this world.
\<close>

section \<open>Redis on the first component\<close>

definition on_first :: "'a redis \<Rightarrow> ('a \<times> 'b) redis" where
  "on_first R = \<lparr>
     r_net = (\<lambda>s. let (v, x) = r_net R (fst s) in (v, (x, snd s))),
     r_get = (\<lambda>a s. r_get R a (fst s)),
     r_set = (\<lambda>a b c s. (r_set R a b c (fst s), snd s)),
     r_del = (\<lambda>a s. (r_del R a (fst s), snd s)),
     r_incr = (\<lambda>a s. (r_incr R a (fst s), snd s)),
     r_exists = (\<lambda>a s. r_exists R a (fst s)),
     r_expire = (\<lambda>a b s. (r_expire R a b (fst s), snd s)),
     r_ttl = (\<lambda>a s. r_ttl R a (fst s)),
     r_getbit = (\<lambda>a b s. r_getbit R a b (fst s)),
     r_setbit = (\<lambda>a b c s. (r_setbit R a b c (fst s), snd s)),
     r_bitcount = (\<lambda>a s. r_bitcount R a (fst s)),
     r_scan = (\<lambda>a s. r_scan R a (fst s)),
     r_hget = (\<lambda>a b s. r_hget R a b (fst s)),
     r_hgetall = (\<lambda>a s. r_hgetall R a (fst s)),
     r_hset = (\<lambda>a b c s. (r_hset R a b c (fst s), snd s)),
     r_hincrby = (\<lambda>a b c s. (r_hincrby R a b c (fst s), snd s)),
     r_hdel = (\<lambda>a b s. (r_hdel R a b (fst s), snd s)),
     r_zadd = (\<lambda>a b c s. (r_zadd R a b c (fst s), snd s)),
     r_zadd_nx = (\<lambda>a b c s. (r_zadd_nx R a b c (fst s), snd s)),
     r_zrem = (\<lambda>a b s. (r_zrem R a b (fst s), snd s)),
     r_zcard = (\<lambda>a s. r_zcard R a (fst s)),
     r_zrevrank = (\<lambda>a b s. r_zrevrank R a b (fst s)),
     r_zrevrange = (\<lambda>a b c s. r_zrevrange R a b c (fst s)),
     r_zrevrangebyscore = (\<lambda>a b c s. r_zrevrangebyscore R a b c (fst s)),
     r_zrange_above = (\<lambda>a b c s. r_zrange_above R a b c (fst s)),
     r_zkeep_top = (\<lambda>a b s. (r_zkeep_top R a b (fst s), snd s)),
     r_sadd = (\<lambda>a b s. (r_sadd R a b (fst s), snd s)),
     r_srem = (\<lambda>a b s. (r_srem R a b (fst s), snd s)),
     r_sismember = (\<lambda>a b s. r_sismember R a b (fst s)),
     r_spop = (\<lambda>k n s. let (ms, x) = r_spop R k n (fst s) in (ms, (x, snd s))),
     r_rpush = (\<lambda>a b s. (r_rpush R a b (fst s), snd s)),
     r_lrange = (\<lambda>a b s. r_lrange R a b (fst s)) \<rparr>"

lemma on_first_sel [simp]:
  "r_net (on_first R) s = (let (v, x) = r_net R (fst s) in (v, (x, snd s)))"
  "r_get (on_first R) a2 s = r_get R a2 (fst s)"
  "r_set (on_first R) a3 b3 c3 s = (r_set R a3 b3 c3 (fst s), snd s)"
  "r_del (on_first R) a4 s = (r_del R a4 (fst s), snd s)"
  "r_incr (on_first R) a5 s = (r_incr R a5 (fst s), snd s)"
  "r_exists (on_first R) a6 s = r_exists R a6 (fst s)"
  "r_expire (on_first R) a7 b7 s = (r_expire R a7 b7 (fst s), snd s)"
  "r_getbit (on_first R) a8 b8 s = r_getbit R a8 b8 (fst s)"
  "r_setbit (on_first R) a9 b9 c9 s = (r_setbit R a9 b9 c9 (fst s), snd s)"
  "r_bitcount (on_first R) a10 s = r_bitcount R a10 (fst s)"
  "r_scan (on_first R) a11 s = r_scan R a11 (fst s)"
  "r_hget (on_first R) a12 b12 s = r_hget R a12 b12 (fst s)"
  "r_hgetall (on_first R) a13 s = r_hgetall R a13 (fst s)"
  "r_hset (on_first R) a14 b14 c14 s = (r_hset R a14 b14 c14 (fst s), snd s)"
  "r_hincrby (on_first R) a15 b15 c15 s = (r_hincrby R a15 b15 c15 (fst s), snd s)"
  "r_ttl (on_first R) a29 s = r_ttl R a29 (fst s)"
  "r_hdel (on_first R) a30 b30 s = (r_hdel R a30 b30 (fst s), snd s)"
  "r_zadd (on_first R) a16 b16 c16 s = (r_zadd R a16 b16 c16 (fst s), snd s)"
  "r_zadd_nx (on_first R) a17 b17 c17 s = (r_zadd_nx R a17 b17 c17 (fst s), snd s)"
  "r_zrem (on_first R) a18 b18 s = (r_zrem R a18 b18 (fst s), snd s)"
  "r_zcard (on_first R) a19 s = r_zcard R a19 (fst s)"
  "r_zrevrank (on_first R) a20 b20 s = r_zrevrank R a20 b20 (fst s)"
  "r_zrevrange (on_first R) a21 b21 c21 s = r_zrevrange R a21 b21 c21 (fst s)"
  "r_zrevrangebyscore (on_first R) a22 b22 c22 s = r_zrevrangebyscore R a22 b22 c22 (fst s)"
  "r_zrange_above (on_first R) a23 b23 c23 s = r_zrange_above R a23 b23 c23 (fst s)"
  "r_zkeep_top (on_first R) a24 b24 s = (r_zkeep_top R a24 b24 (fst s), snd s)"
  "r_sadd (on_first R) a25 b25 s = (r_sadd R a25 b25 (fst s), snd s)"
  "r_srem (on_first R) a26 b26 s = (r_srem R a26 b26 (fst s), snd s)"
  "r_sismember (on_first R) a27 b27 s = r_sismember R a27 b27 (fst s)"
  "r_spop (on_first R) k28 n28 s = (let (ms, x) = r_spop R k28 n28 (fst s) in (ms, (x, snd s)))"
  "r_rpush (on_first R) a31 b31 s = (r_rpush R a31 b31 (fst s), snd s)"
  "r_lrange (on_first R) a32 b32 s = r_lrange R a32 b32 (fst s)"
  by (simp_all add: on_first_def)

context redis_server
begin

lemma on_first_server: "redis_server (on_first R :: ('s \<times> 'b) redis) (view \<circ> fst)"
proof unfold_locales
  fix p :: string and s :: "'s \<times> 'b"
  assume "no_glob p" "finite {k. ks_str ((view \<circ> fst) s) k \<noteq> None}"
  then show "set (concat (r_scan (on_first R) (p @ ''*'') s)) = {k. ks_str ((view \<circ> fst) s) k \<noteq> None \<and> has_prefix p k}"
    using scan_view[of p "fst s"] by simp
next
  fix k and s :: "'s \<times> 'b"
  assume "finite (dom (ks_hash ((view \<circ> fst) s) k))"
  then show "map_of (r_hgetall (on_first R) k s) = map_option format_int \<circ> ks_hash ((view \<circ> fst) s) k"
    using hgetall_view[of "fst s" k] by simp
next
  fix k :: string and n ms and s s' :: "'s \<times> 'b"
  assume "r_spop (on_first R) k n s = (ms, s')"
  then obtain x where x: "r_spop R k n (fst s) = (ms, x)" "fst s' = x" by (auto split: prod.splits)
  with spop_view[OF x(1)] show "distinct ms \<and> set ms \<subseteq> ks_set ((view \<circ> fst) s) k \<and>
      length ms = min n (card (ks_set ((view \<circ> fst) s) k)) \<and> (view \<circ> fst) s' = ks_supd k (\<lambda>S. S - set ms) ((view \<circ> fst) s)"
    by simp
next
  fix s :: "'s \<times> 'b"
  show "(view \<circ> fst) (snd (r_net (on_first R) s)) = (view \<circ> fst) s"
    using net_view[of "fst s"] by (cases "r_net R (fst s)") simp
qed (simp_all add: ttl_view)

end

context redis_up
begin

lemma on_first_up: "redis_up (on_first R :: ('s \<times> 'b) redis) (view \<circ> fst)"
proof -
  have "fst (r_net (on_first R) s) = Delivered" for s :: "'s \<times> 'b"
    using delivered[of "fst s"] by (cases "r_net R (fst s)") simp
  then show ?thesis using on_first_server by (simp add: redis_up_def redis_up_axioms_def)
qed

end

section \<open>A database on the second component\<close>

type_synonym 't store = "'t \<times> io_error option list"

definition next_fault :: "'t store \<Rightarrow> io_error option \<times> 't store" where
  "next_fault x = (case snd x of [] \<Rightarrow> (None, x) | f # fs \<Rightarrow> (f, (fst x, fs)))"

definition stored_db :: "('t, 'a \<times> 't store) database" where
  "stored_db = \<lparr>
     db_begin = (\<lambda>s. let (f, x) = next_fault (snd s) in (f, (fst s, x))),
     db_tables = (\<lambda>s. fst (snd s)),
     db_stmt = (\<lambda>s. let (f, x) = next_fault (snd s) in (f, (fst s, x))),
     db_rollback = (\<lambda>s. let (f, x) = next_fault (snd s) in (f, (fst s, x))),
     db_commit = (\<lambda>t s. case next_fault (snd s) of
         (None, x) \<Rightarrow> (None, (fst s, (t, snd x)))
       | (Some e, x) \<Rightarrow> (Some e, (fst s, x)))\<rparr>"

lemma next_fault_keeps: "next_fault x = (f, y) \<Longrightarrow> fst y = fst x"
  by (auto simp: next_fault_def split: list.splits)

lemma next_fault_up [simp]: "next_fault (t, []) = (None, (t, []))"
  by (simp add: next_fault_def)

lemma stored_db_sel [simp]:
  "db_tables stored_db s = fst (snd s)"
  "db_begin stored_db s = (let (f, x) = next_fault (snd s) in (f, (fst s, x)))"
  "db_stmt stored_db s = (let (f, x) = next_fault (snd s) in (f, (fst s, x)))"
  "db_rollback stored_db s = (let (f, x) = next_fault (snd s) in (f, (fst s, x)))"
  by (simp_all add: stored_db_def)

lemma stored_db_commit [simp]: "db_commit stored_db t (a, (t0, [])) = (None, (a, (t, [])))"
  by (simp add: stored_db_def)

interpretation stored: sql_database stored_db
  by unfold_locales (auto simp: stored_db_def Let_def dest: next_fault_keeps split: prod.splits option.splits)

section \<open>What the commands of a lock leave alone\<close>

text \<open>The commands that locks, limits and invalidation use keep a part of the world.\<close>

locale redis_frame =
  fixes R :: "'s redis" and part :: "'s \<Rightarrow> 'p"
  assumes frame_net [simp]: "part (snd (r_net R s)) = part s"
    and frame_set [simp]: "part (r_set R k v t s) = part s"
    and frame_del [simp]: "part (r_del R k s) = part s"
    and frame_expire [simp]: "part (r_expire R k ttl s) = part s"
    and frame_hset [simp]: "part (r_hset R k f x s) = part s"

context redis_frame
begin

lemma frame_roundtrip: "(\<And>s. part (snd (f s)) = part s) \<Longrightarrow> part (snd (roundtrip R f s)) = part s"
proof -
  assume f: "\<And>s. part (snd (f s)) = part s"
  obtain v s1 where n: "r_net R s = (v, s1)" by (cases "r_net R s")
  then have "part s1 = part s" using frame_net[of s] by (simp del: frame_net)
  with n f[of s1] show ?thesis by (cases v) (simp_all add: roundtrip_def case_prod_beta)
qed

lemma frame_wr: "(\<And>s. part (f s) = part s) \<Longrightarrow> part (snd (wr R f s)) = part s"
  unfolding wr_def by (rule frame_roundtrip) simp

lemma frame_set_nx [simp]: "part (snd (set_nx R k v t s)) = part s"
  by (simp add: set_nx_def)

lemma frame_try_acquire: "part (snd (try_acquire R k opts tok s)) = part s"
  using frame_roundtrip[of "set_nx R k tok (lo_ttl (normalized opts))" s]
  by (auto simp: try_acquire_def Let_def split: prod.splits sum.splits bool.splits)

lemma frame_release [simp]: "part (release R l s) = part s"
  unfolding release_def by (rule frame_roundtrip) (simp add: release_script_def)

lemma frame_acquire: "part (snd (acquire_with_retry R k opts tok n s)) = part s"
proof (induction n arbitrary: s)
  case 0
  show ?case using frame_try_acquire[of k opts "tok 0" s]
    by (subst acquire_with_retry.simps) (auto split: prod.splits sum.splits option.splits)
next
  case (Suc n)
  show ?case using frame_try_acquire[of k opts "tok (Suc n)" s] Suc.IH
    by (subst acquire_with_retry.simps) (auto split: prod.splits sum.splits option.splits)
qed

end

interpretation first_frame: redis_frame "on_first R" "\<lambda>s. fst (snd s)" for R
  by unfold_locales (auto split: prod.splits)

end
