(* ===== verification/Relation_Model.thy ===== *)
theory Relation_Model
  imports Follow_Events Redis_Product
begin

text \<open>
  \<open>internal/relation\<close>: the tables and statements of \<open>repository.go\<close>, the options of
  \<open>lock_policy.go\<close>, the token bucket, the service record and the follow and
  unfollow operations of \<open>service.go\<close> and \<open>follow.go\<close>, with the cache
  invalidation of \<open>cache.go\<close>. Times are in milliseconds, as the columns keep them.
\<close>

section \<open>Tables and statements\<close>

text \<open>
  One row of \<open>following\<close> (\<open>a\<close> follows \<open>b\<close>) or of \<open>follower\<close> (\<open>b\<close> follows \<open>a\<close>);
  the pair is the unique key. Rows stand in the order they were inserted.
\<close>

record rel_row =
  rr_id :: uint64
  rr_a :: uint64
  rr_b :: uint64
  rr_status :: int
  rr_created :: int
  rr_updated :: int

record rel_tables =
  rt_following :: "rel_row list"
  rt_follower :: "rel_row list"
  rt_outbox :: "outbox_event list"

definition pair_of :: "rel_row \<Rightarrow> uint64 \<times> uint64" where
  "pair_of r = (rr_a r, rr_b r)"

text \<open>
  \<open>INSERT \<dots> ON DUPLICATE KEY UPDATE\<close>: the affected rows are 1 for an insert, 2 for
  a change and 0 when the row already has these values.
\<close>

definition upsert_sql :: "uint64 \<Rightarrow> uint64 \<Rightarrow> uint64 \<Rightarrow> int \<Rightarrow> int \<Rightarrow> rel_row list \<Rightarrow> nat \<times> rel_row list" where
  "upsert_sql i a b st now rows =
    (if (a, b) \<in> set (map pair_of rows)
     then (2 * length (filter (\<lambda>r. pair_of r = (a, b) \<and> rr_status r \<noteq> st) rows),
           map (\<lambda>r. if pair_of r = (a, b) \<and> rr_status r \<noteq> st then r\<lparr>rr_updated := now, rr_status := st\<rparr> else r) rows)
     else (1, rows @ [\<lparr>rr_id = i, rr_a = a, rr_b = b, rr_status = st, rr_created = now, rr_updated = now\<rparr>]))"

definition cancel_sql :: "uint64 \<Rightarrow> uint64 \<Rightarrow> int \<Rightarrow> rel_row list \<Rightarrow> nat \<times> rel_row list" where
  "cancel_sql a b now rows =
    (length (filter (\<lambda>r. pair_of r = (a, b) \<and> rr_status r = 1) rows),
     map (\<lambda>r. if pair_of r = (a, b) \<and> rr_status r = 1 then r\<lparr>rr_status := 0, rr_updated := now\<rparr> else r) rows)"

definition on_following :: "(rel_row list \<Rightarrow> 'a \<times> rel_row list) \<Rightarrow> rel_tables \<Rightarrow> 'a \<times> rel_tables" where
  "on_following f t = (let (a, rows) = f (rt_following t) in (a, t\<lparr>rt_following := rows\<rparr>))"

definition on_follower :: "(rel_row list \<Rightarrow> 'a \<times> rel_row list) \<Rightarrow> rel_tables \<Rightarrow> 'a \<times> rel_tables" where
  "on_follower f t = (let (a, rows) = f (rt_follower t) in (a, t\<lparr>rt_follower := rows\<rparr>))"

definition insert_outbox :: "outbox_event \<Rightarrow> rel_tables \<Rightarrow> rel_tables" where
  "insert_outbox e t = t\<lparr>rt_outbox := rt_outbox t @ [e]\<rparr>"

type_synonym 's rel_db = "(rel_tables, 's) database"
type_synonym 's rel_tx = "(rel_tables, 's) tx"

definition UpsertFollowing :: "'s rel_db \<Rightarrow> uint64 \<Rightarrow> uint64 \<Rightarrow> uint64 \<Rightarrow> int \<Rightarrow> int \<Rightarrow> 's rel_tx \<Rightarrow> (io_error + bool) \<times> 's rel_tx" where
  "UpsertFollowing D i a b st now x = (case tx_exec D (on_following (upsert_sql i a b st now)) x of
      (Inl e, x1) \<Rightarrow> (Inl e, x1)
    | (Inr affected, x1) \<Rightarrow> (Inr (affected > 0), x1))"

definition UpsertFollower :: "'s rel_db \<Rightarrow> uint64 \<Rightarrow> uint64 \<Rightarrow> uint64 \<Rightarrow> int \<Rightarrow> int \<Rightarrow> 's rel_tx \<Rightarrow> (io_error + bool) \<times> 's rel_tx" where
  "UpsertFollower D i a b st now x = (case tx_exec D (on_follower (upsert_sql i a b st now)) x of
      (Inl e, x1) \<Rightarrow> (Inl e, x1)
    | (Inr affected, x1) \<Rightarrow> (Inr (affected > 0), x1))"

definition CancelFollowing :: "'s rel_db \<Rightarrow> uint64 \<Rightarrow> uint64 \<Rightarrow> int \<Rightarrow> 's rel_tx \<Rightarrow> (io_error + nat) \<times> 's rel_tx" where
  "CancelFollowing D a b now = tx_exec D (on_following (cancel_sql a b now))"

definition CancelFollower :: "'s rel_db \<Rightarrow> uint64 \<Rightarrow> uint64 \<Rightarrow> int \<Rightarrow> 's rel_tx \<Rightarrow> (io_error + nat) \<times> 's rel_tx" where
  "CancelFollower D a b now = tx_exec D (on_follower (cancel_sql a b now))"

definition ExistsFollowing :: "'s rel_db \<Rightarrow> uint64 \<Rightarrow> uint64 \<Rightarrow> 's \<Rightarrow> (io_error + nat) \<times> 's" where
  "ExistsFollowing D a b = db_read D (\<lambda>t.
     length (filter (\<lambda>r. pair_of r = (a, b) \<and> rr_status r = 1) (rt_following t)))"

section \<open>Options\<close>

text \<open>Zero or a missing section of the configuration means the default, so a missing one is all zeros.\<close>

record relation_config =
  rc_lock_ttl_ms :: int
  rc_lock_op_timeout_ms :: int
  rc_lock_retry_ms :: int
  rc_invalidate_wait_ms :: int
  rc_zset_warm_limit :: int
  rc_cache_ttl :: int
  rc_l1_ttl_seconds :: int
  rc_l1_fill_limit :: int
  rc_max_offset :: int
  rc_fallback_ttl_minutes :: int

definition or_default :: "int \<Rightarrow> int \<Rightarrow> int" where
  "or_default v d = (if v > 0 then v else d)"

definition relation_list_cache_lock_options :: "relation_config option \<Rightarrow> lock_options" where
  "relation_list_cache_lock_options c =
    (let ttl = (case c of None \<Rightarrow> 5000 | Some c \<Rightarrow> or_default (rc_lock_ttl_ms c) 5000);
         op_timeout = (case c of None \<Rightarrow> 1000 | Some c \<Rightarrow> or_default (rc_lock_op_timeout_ms c) 1000)
     in \<lparr>lo_ttl = ttl, lo_watchdog = ttl div 3, lo_op_timeout = op_timeout\<rparr>)"

definition relation_list_cache_lock_retry_interval :: "relation_config option \<Rightarrow> int" where
  "relation_list_cache_lock_retry_interval c = (case c of None \<Rightarrow> 50 | Some c \<Rightarrow> or_default (rc_lock_retry_ms c) 50)"

definition relation_invalidate_lock_wait_limit :: "relation_config option \<Rightarrow> int" where
  "relation_invalidate_lock_wait_limit c = (case c of None \<Rightarrow> 2000 | Some c \<Rightarrow> or_default (rc_invalidate_wait_ms c) 2000)"

definition relation_list_cache_warm_limit :: "relation_config option \<Rightarrow> int" where
  "relation_list_cache_warm_limit c = (case c of None \<Rightarrow> 2000 | Some c \<Rightarrow> or_default (rc_zset_warm_limit c) 2000)"

definition relation_list_cache_ttl :: "relation_config option \<Rightarrow> int" where
  "relation_list_cache_ttl c =
    (case c of None \<Rightarrow> 2 * 3600000 | Some c \<Rightarrow> if rc_cache_ttl c > 0 then rc_cache_ttl c * 1000 else 2 * 3600000)"

definition relation_l1_cache_ttl :: "relation_config option \<Rightarrow> int" where
  "relation_l1_cache_ttl c = (case c of None \<Rightarrow> 600 | Some c \<Rightarrow> or_default (rc_l1_ttl_seconds c) 600)"

definition relation_fill_l1_limit :: "relation_config option \<Rightarrow> int" where
  "relation_fill_l1_limit c = (case c of None \<Rightarrow> 500 | Some c \<Rightarrow> or_default (rc_l1_fill_limit c) 500)"

definition relation_max_offset :: "relation_config option \<Rightarrow> int" where
  "relation_max_offset c = (case c of None \<Rightarrow> 1000 | Some c \<Rightarrow> or_default (rc_max_offset c) 1000)"

definition relation_fallback_exhausted_ttl :: "relation_config option \<Rightarrow> int" where
  "relation_fallback_exhausted_ttl c =
    (case c of None \<Rightarrow> 10 * 60000 | Some c \<Rightarrow> if rc_fallback_ttl_minutes c > 0 then rc_fallback_ttl_minutes c * 60000 else 10 * 60000)"

section \<open>The service\<close>

text \<open>The in-process cache (\<open>freecache\<close>): a get may miss at any time, a set may be refused.\<close>

record 's l1_cache =
  l1_get :: "string \<Rightarrow> 's \<Rightarrow> string option \<times> 's"
  l1_set :: "string \<Rightarrow> string \<Rightarrow> int \<Rightarrow> 's \<Rightarrow> 's"
  l1_del :: "string \<Rightarrow> 's \<Rightarrow> 's"

record 's fanout_hooks =
  fh_on_follow :: "uint64 \<Rightarrow> uint64 \<Rightarrow> 's \<Rightarrow> (io_error + unit) \<times> 's"
  fh_on_unfollow :: "uint64 \<Rightarrow> uint64 \<Rightarrow> 's \<Rightarrow> (io_error + unit) \<times> 's"

type_synonym 's audit_log = "string \<Rightarrow> uint64 \<Rightarrow> string \<Rightarrow> string \<Rightarrow> string \<Rightarrow> 's \<Rightarrow> 's"

text \<open>
  \<open>rs_retries\<close> is the number of lock retries that fit before the context of a call
  is done, \<open>rs_token\<close> draws the random lock tokens.
\<close>

record 's relation_service =
  rs_db :: "'s rel_db"
  rs_redis :: "'s redis"
  rs_l1 :: "'s l1_cache"
  rs_next_id :: "'s \<Rightarrow> uint64 \<times> 's"
  rs_big_v_threshold :: int
  rs_token_bucket :: "(int \<times> int) option"
  rs_cfg :: "relation_config option"
  rs_audit :: "'s audit_log option"
  rs_hooks :: "'s fanout_hooks option"
  rs_retries :: nat
  rs_token :: "string \<Rightarrow> nat \<Rightarrow> string"

definition zset_key :: "string \<Rightarrow> uint64 \<Rightarrow> string" where
  "zset_key list_type u = ''z:'' @ list_type @ colon @ format_uint u"

definition l1_key_str :: "string \<Rightarrow> uint64 \<Rightarrow> string" where
  "l1_key_str list_type u = ''l1:'' @ list_type @ colon @ format_uint u"

definition fallback_key :: "uint64 \<Rightarrow> string" where
  "fallback_key u = ''follower:fallback:exhausted:'' @ format_uint u"

definition list_cache_lock_key :: "string \<Rightarrow> uint64 \<Rightarrow> string" where
  "list_cache_lock_key list_type u = ''lock:relation:list:'' @ list_type @ colon @ format_uint u"

subsection \<open>The token bucket\<close>

definition token_bucket_params :: "'s relation_service \<Rightarrow> int \<times> int" where
  "token_bucket_params S = (case rs_token_bucket S of
      Some (capacity, rate) \<Rightarrow> if capacity > 0 then (capacity, rate) else (10, 1)
    | None \<Rightarrow> (10, 1))"

text \<open>
  \<open>tokenBucketLua\<close>, with the server's clock in seconds as an argument; \<open>None\<close> is a
  script error (a field of the hash is missing or not a number).
\<close>

definition token_bucket_lua :: "'s redis \<Rightarrow> string \<Rightarrow> int \<Rightarrow> int \<Rightarrow> int \<Rightarrow> 's \<Rightarrow> int option \<times> 's" where
  "token_bucket_lua R key capacity rate now s =
    (let (last, tokens) = (case r_hget R key ''last'' s of
            None \<Rightarrow> (Some now, Some capacity)
          | Some l \<Rightarrow> (lua_tonumber l, case r_hget R key ''tokens'' s of None \<Rightarrow> None | Some t \<Rightarrow> lua_tonumber t))
     in case (last, tokens) of
       (Some l, Some t0) \<Rightarrow>
         (let t = min capacity (t0 + (now - l) * rate) in
          if t < 1 then (Some 0, r_hset R key ''tokens'' t (r_hset R key ''last'' now s))
          else (Some 1, r_expire R key 60000 (r_hset R key ''tokens'' (t - 1) (r_hset R key ''last'' now s))))
     | _ \<Rightarrow> (None, s))"

definition follow_limit_key :: "uint64 \<Rightarrow> string" where
  "follow_limit_key u = ''rl:follow:'' @ format_uint u"

text \<open>An error of the script is logged and counts as not allowed.\<close>

definition follow_allowed :: "'s relation_service \<Rightarrow> uint64 \<Rightarrow> int \<Rightarrow> 's \<Rightarrow> bool \<times> 's" where
  "follow_allowed S u sec s =
    (let (capacity, rate) = token_bucket_params S in
     case roundtrip (rs_redis S) (token_bucket_lua (rs_redis S) (follow_limit_key u) capacity rate sec) s of
       (Inr (Some allowed), s1) \<Rightarrow> (allowed \<noteq> 0, s1)
     | (_, s1) \<Rightarrow> (False, s1))"

subsection \<open>Invalidation\<close>

text \<open>The locks of several lists are taken in the order of their keys.\<close>

definition sort_targets :: "(string \<times> uint64) list \<Rightarrow> (string \<times> uint64) list" where
  "sort_targets ts = sort_key (\<lambda>(t, u). list_cache_lock_key t u) ts"

definition acquire_list_cache_lock :: "'s relation_service \<Rightarrow> string \<Rightarrow> uint64 \<Rightarrow> 's \<Rightarrow> (acquire_error + lock) \<times> 's" where
  "acquire_list_cache_lock S t u =
    acquire_with_retry (rs_redis S) (list_cache_lock_key t u) (relation_list_cache_lock_options (rs_cfg S))
      (rs_token S (list_cache_lock_key t u)) (rs_retries S)"

definition release_all :: "'s redis \<Rightarrow> lock list \<Rightarrow> 's \<Rightarrow> 's" where
  "release_all R ls s = fold (release R) (rev ls) s"

fun acquire_sorted :: "'s relation_service \<Rightarrow> (string \<times> uint64) list \<Rightarrow> lock list \<Rightarrow> 's \<Rightarrow> (acquire_error + lock list) \<times> 's" where
  "acquire_sorted S [] ls s = (Inr ls, s)"
| "acquire_sorted S ((t, u) # ts) ls s =
    (case acquire_list_cache_lock S t u s of
       (Inl e, s1) \<Rightarrow> (Inl e, release_all (rs_redis S) ls s1)
     | (Inr l, s1) \<Rightarrow> acquire_sorted S ts (ls @ [l]) s1)"

definition acquire_list_cache_locks :: "'s relation_service \<Rightarrow> (string \<times> uint64) list \<Rightarrow> 's \<Rightarrow> (acquire_error + lock list) \<times> 's" where
  "acquire_list_cache_locks S ts = acquire_sorted S (sort_targets ts) []"

definition drop_cached_lists :: "'s redis \<Rightarrow> uint64 \<Rightarrow> uint64 \<Rightarrow> 's \<Rightarrow> 's" where
  "drop_cached_lists R a b s =
    r_del R (fallback_key b) (r_del R (zset_key ''followers'' b) (r_del R (zset_key ''following'' a) s))"

definition invalidate_caches :: "'s relation_service \<Rightarrow> uint64 \<Rightarrow> uint64 \<Rightarrow> 's \<Rightarrow> 's" where
  "invalidate_caches S a b s =
    (case acquire_list_cache_locks S [(''following'', a), (''followers'', b)] s of
       (Inl e, s1) \<Rightarrow> s1
     | (Inr locks, s1) \<Rightarrow>
         (let s2 = snd (wr (rs_redis S) (drop_cached_lists (rs_redis S) a b) s1);
              s3 = l1_del (rs_l1 S) (l1_key_str ''followers'' b) (l1_del (rs_l1 S) (l1_key_str ''following'' a) s2)
          in release_all (rs_redis S) locks s3))"

section \<open>Follow and unfollow\<close>

text \<open>\<open>json.Marshal\<close> of a relation event; \<open>omitempty\<close> drops a missing relation id.\<close>

definition marshal_relation_event :: "relation_event \<Rightarrow> string" where
  "marshal_relation_event e =
     CHR 123 # json_key ''event_type'' @ write_json_string (re_event_type e)
     @ CHR '','' # json_key ''from_user_id'' @ format_uint (re_from_user_id e)
     @ CHR '','' # json_key ''to_user_id'' @ format_uint (re_to_user_id e)
     @ (case re_relation_id e of None \<Rightarrow> [] | Some i \<Rightarrow> CHR '','' # json_key ''relation_id'' @ format_uint i) @ [CHR 125]"

text \<open>A payload that \<open>json.Marshal\<close> wrote comes out of it again unchanged.\<close>

definition remarshal :: "string \<Rightarrow> io_error + string" where
  "remarshal payload = Inr payload"

text \<open>Each statement of the mutations reads the clock for itself.\<close>

definition follow_mutations ::
  "'s relation_service \<Rightarrow> uint64 \<Rightarrow> uint64 \<Rightarrow> uint64 \<Rightarrow> uint64 \<Rightarrow> int \<times> int \<Rightarrow> 's rel_tx \<Rightarrow> tx_outcome \<times> 's rel_tx" where
  "follow_mutations S i rev_id a b now x =
    (case UpsertFollowing (rs_db S) i a b 1 (fst now) x of
       (Inl e, x1) \<Rightarrow> (Failed (TxIo e), x1)
     | (Inr transitioned, x1) \<Rightarrow>
         (case UpsertFollower (rs_db S) rev_id b a 1 (snd now) x1 of
            (Inl e, x2) \<Rightarrow> (Failed (TxIo e), x2)
          | (Inr _, x2) \<Rightarrow> (if \<not> transitioned then Failed NothingToFollow else Done, x2)))"

definition notify :: "('s fanout_hooks \<Rightarrow> uint64 \<Rightarrow> uint64 \<Rightarrow> 's \<Rightarrow> (io_error + unit) \<times> 's) \<Rightarrow>
  's relation_service \<Rightarrow> uint64 \<Rightarrow> uint64 \<Rightarrow> 's \<Rightarrow> 's" where
  "notify hook S a b s = (case rs_hooks S of None \<Rightarrow> s | Some h \<Rightarrow> snd (hook h a b s))"

definition audit :: "'s relation_service \<Rightarrow> string \<Rightarrow> uint64 \<Rightarrow> string \<Rightarrow> string \<Rightarrow> 's \<Rightarrow> 's" where
  "audit S action u rid detail s = (case rs_audit S of None \<Rightarrow> s | Some log \<Rightarrow> log action u ''relation'' rid detail s)"

definition follow_event :: "uint64 \<Rightarrow> uint64 \<Rightarrow> uint64 \<Rightarrow> uint64 \<Rightarrow> outbox_event" where
  "follow_event outbox_id i a b = \<lparr>ob_id = outbox_id, ob_aggregate_type = ''following'', ob_aggregate_id = Some i,
     ob_event_type = ''FollowCreated'', ob_payload = marshal_relation_event (follows a b (Some i))\<rparr>"

definition Follow :: "'s relation_service \<Rightarrow> int \<Rightarrow> int \<times> int \<Rightarrow> uint64 \<Rightarrow> uint64 \<Rightarrow> 's \<Rightarrow> (tx_error + bool) \<times> 's" where
  "Follow S sec now a b s =
    (case follow_allowed S a sec s of
       (False, s1) \<Rightarrow> (Inr False, s1)
     | (True, s1) \<Rightarrow>
         (let (i, s2) = rs_next_id S s1; (rev_id, s3) = rs_next_id S s2; (outbox_id, s4) = rs_next_id S s3 in
          case run_in_tx (rs_db S) remarshal insert_outbox (follow_mutations S i rev_id a b now)
                 [follow_event outbox_id i a b] s4 of
            (Inl err, s5) \<Rightarrow> (if err = NothingToFollow then Inr False else Inl err, s5)
          | (Inr _, s5) \<Rightarrow>
              (Inr True, audit S ''follow'' a (format_uint i) (''follow user '' @ format_uint b)
                 (notify fh_on_follow S a b (invalidate_caches S a b s5)))))"

definition unfollow_mutations ::
  "'s relation_service \<Rightarrow> uint64 \<Rightarrow> uint64 \<Rightarrow> int \<times> int \<Rightarrow> 's rel_tx \<Rightarrow> tx_outcome \<times> 's rel_tx" where
  "unfollow_mutations S a b now x =
    (case CancelFollowing (rs_db S) a b (fst now) x of
       (Inl e, x1) \<Rightarrow> (Failed (TxIo e), x1)
     | (Inr affected, x1) \<Rightarrow>
         (if affected = 0 then (Failed NothingToCancel, x1)
          else (case CancelFollower (rs_db S) b a (snd now) x1 of
              (Inl e, x2) \<Rightarrow> (Failed (TxIo e), x2)
            | (Inr _, x2) \<Rightarrow> (Done, x2))))"

definition unfollow_event :: "uint64 \<Rightarrow> uint64 \<Rightarrow> uint64 \<Rightarrow> outbox_event" where
  "unfollow_event outbox_id a b = \<lparr>ob_id = outbox_id, ob_aggregate_type = ''following'', ob_aggregate_id = None,
     ob_event_type = ''FollowCanceled'', ob_payload = marshal_relation_event (unfollows a b)\<rparr>"

definition Unfollow :: "'s relation_service \<Rightarrow> int \<times> int \<Rightarrow> uint64 \<Rightarrow> uint64 \<Rightarrow> 's \<Rightarrow> (tx_error + bool) \<times> 's" where
  "Unfollow S now a b s =
    (let (outbox_id, s1) = rs_next_id S s in
     case run_in_tx (rs_db S) remarshal insert_outbox (unfollow_mutations S a b now) [unfollow_event outbox_id a b] s1 of
       (Inl err, s2) \<Rightarrow> (if err = NothingToCancel then Inr False else Inl err, s2)
     | (Inr _, s2) \<Rightarrow>
         (Inr True, audit S ''unfollow'' a (format_uint outbox_id) (''unfollow user '' @ format_uint b)
            (notify fh_on_unfollow S a b (invalidate_caches S a b s2))))"

definition IsFollowing :: "'s relation_service \<Rightarrow> uint64 \<Rightarrow> uint64 \<Rightarrow> 's \<Rightarrow> (io_error + bool) \<times> 's" where
  "IsFollowing S a b s = (case ExistsFollowing (rs_db S) a b s of
      (Inl e, s1) \<Rightarrow> (Inl e, s1)
    | (Inr cnt, s1) \<Rightarrow> (Inr (cnt > 0), s1))"

definition RelationStatus :: "'s relation_service \<Rightarrow> uint64 \<Rightarrow> uint64 \<Rightarrow> 's \<Rightarrow> (io_error + string) \<times> 's" where
  "RelationStatus S a b s = (case IsFollowing S a b s of
      (Inl e, s1) \<Rightarrow> (Inl e, s1)
    | (Inr following, s1) \<Rightarrow>
        (case IsFollowing S b a s1 of
           (Inl e, s2) \<Rightarrow> (Inl e, s2)
         | (Inr followed_by, s2) \<Rightarrow>
             (Inr (if following \<and> followed_by then ''mutual'' else if following then ''following''
                   else if followed_by then ''followed'' else ''none''), s2)))"

end
