(* ===== verification/Relation_Follow.thy ===== *)
theory Relation_Follow
  imports Relation_Model "HOL-Library.Sublist"
begin

text \<open>
  What follow and unfollow promise: the two tables mirror each other, every pair
  is in at most one row, and the outbox holds one event for each change of each
  pair, whatever errors the calls answer; the token bucket bounds the follows.
\<close>

section \<open>The statements on the rows\<close>

definition active :: "rel_row list \<Rightarrow> uint64 \<Rightarrow> uint64 \<Rightarrow> bool" where
  "active rows a b = (\<exists>r \<in> set rows. pair_of r = (a, b) \<and> rr_status r = 1)"

definition rows_ok :: "rel_row list \<Rightarrow> bool" where
  "rows_ok rows = (distinct (map pair_of rows) \<and> (\<forall>r \<in> set rows. rr_status r \<in> {0, 1}))"

lemma pair_of_upd [simp]: "pair_of (r\<lparr>rr_updated := now, rr_status := st\<rparr>) = pair_of r"
  "pair_of (r\<lparr>rr_status := st, rr_updated := now\<rparr>) = pair_of r"
  by (simp_all add: pair_of_def)

lemma rows_ok_update:
  assumes "rows_ok rows" "\<forall>r. pair_of (f r) = pair_of r" "\<forall>r \<in> set rows. rr_status (f r) \<in> {0, 1}"
  shows "rows_ok (map f rows)"
proof -
  have "map pair_of (map f rows) = map pair_of rows" using assms(2) by simp
  then show ?thesis using assms(1,3) by (simp add: rows_ok_def del: map_map)
qed

lemma rows_unique: "rows_ok rows \<Longrightarrow> r \<in> set rows \<Longrightarrow> r' \<in> set rows \<Longrightarrow> pair_of r = pair_of r' \<Longrightarrow> r = r'"
  by (auto simp: rows_ok_def distinct_map dest: inj_onD)

lemma active_update:
  assumes "\<forall>r. pair_of (f r) = pair_of r"
  shows "active (map f rows) c d = (\<exists>r \<in> set rows. pair_of r = (c, d) \<and> rr_status (f r) = 1)"
  using assms by (simp add: active_def)

lemma active_cong:
  assumes "\<forall>r. pair_of (f r) = pair_of r" "\<And>r. r \<in> set rows \<Longrightarrow> pair_of r = (c, d) \<Longrightarrow> f r = r"
  shows "active (map f rows) c d = active rows c d"
  unfolding active_update[OF assms(1)] unfolding active_def using assms(2) by (metis (no_types, lifting))

lemma upsert_active:
  assumes "rows_ok rows" "upsert_sql i a b 1 now rows = (n, rows')"
  shows "rows_ok rows' \<and> (active rows' c d \<longleftrightarrow> active rows c d \<or> (c, d) = (a, b)) \<and> (n > 0 \<longleftrightarrow> \<not> active rows a b)"
proof (cases "(a, b) \<in> set (map pair_of rows)")
  case True
  then obtain r where r: "r \<in> set rows" "pair_of r = (a, b)" by auto
  define f where "f = (\<lambda>r. if pair_of r = (a, b) \<and> rr_status r \<noteq> 1 then r\<lparr>rr_updated := now, rr_status := 1\<rparr> else r)"
  have f: "\<forall>r. pair_of (f r) = pair_of r" by (simp add: f_def)
  have 1: "rr_status (f q) = 1" if "pair_of q = (a, b)" for q using that by (simp add: f_def)
  have same: "q = r" if "q \<in> set rows" "pair_of q = (a, b)" for q
    using rows_unique[OF assms(1) that(1) r(1)] that(2) r(2) by simp
  from assms(2) True have e: "n = 2 * length (filter (\<lambda>r. pair_of r = (a, b) \<and> rr_status r \<noteq> 1) rows)" "rows' = map f rows"
    by (simp_all add: upsert_sql_def f_def)
  have act: "active rows a b \<longleftrightarrow> rr_status r = 1" using r same unfolding active_def by metis
  have "n > 0 \<longleftrightarrow> (\<exists>q \<in> set rows. pair_of q = (a, b) \<and> rr_status q \<noteq> 1)" unfolding e by (simp add: filter_empty_conv)
  then have n: "n > 0 \<longleftrightarrow> \<not> active rows a b" using r same unfolding act by metis
  have ok: "\<forall>q \<in> set rows. rr_status (f q) \<in> {0, 1}" using assms(1) by (simp add: rows_ok_def f_def)
  have "active rows' c d \<longleftrightarrow> active rows c d \<or> (c, d) = (a, b)"
  proof (cases "(c, d) = (a, b)")
    case True
    then show ?thesis using r 1[OF r(2)] unfolding e active_update[OF f] by (metis (no_types, lifting))
  next
    case False
    then have "active (map f rows) c d = active rows c d" by (intro active_cong f) (auto simp: f_def)
    then show ?thesis using False by (auto simp: e)
  qed
  then show ?thesis using n rows_ok_update[OF assms(1) f ok] e by simp
next
  case False
  then have n: "\<not> active rows a b" by (auto simp: active_def image_iff)
  from False assms(2) have e: "n = 1" "rows' = rows @ [\<lparr>rr_id = i, rr_a = a, rr_b = b, rr_status = 1, rr_created = now, rr_updated = now\<rparr>]"
    by (simp_all add: upsert_sql_def)
  have "rows_ok rows'" using False assms(1) unfolding e rows_ok_def by (simp add: pair_of_def)
  moreover have "active rows' c d \<longleftrightarrow> active rows c d \<or> (c, d) = (a, b)"
    unfolding e active_def by (auto simp: pair_of_def)
  ultimately show ?thesis using n e by simp
qed

lemma cancel_active:
  assumes "rows_ok rows" "cancel_sql a b now rows = (n, rows')"
  shows "rows_ok rows' \<and> (active rows' c d \<longleftrightarrow> active rows c d \<and> (c, d) \<noteq> (a, b)) \<and> (n > 0 \<longleftrightarrow> active rows a b)"
proof -
  define f where "f = (\<lambda>r. if pair_of r = (a, b) \<and> rr_status r = 1 then r\<lparr>rr_status := 0, rr_updated := now\<rparr> else r)"
  have f: "\<forall>r. pair_of (f r) = pair_of r" by (simp add: f_def)
  have 0: "rr_status (f q) \<noteq> 1" if "pair_of q = (a, b)" for q using that by (simp add: f_def)
  from assms(2) have e: "n = length (filter (\<lambda>r. pair_of r = (a, b) \<and> rr_status r = 1) rows)" "rows' = map f rows"
    by (simp_all add: cancel_sql_def f_def)
  have n: "n > 0 \<longleftrightarrow> active rows a b" unfolding e active_def by (simp add: filter_empty_conv)
  have ok: "\<forall>q \<in> set rows. rr_status (f q) \<in> {0, 1}" using assms(1) by (simp add: rows_ok_def f_def)
  have "active rows' c d \<longleftrightarrow> active rows c d \<and> (c, d) \<noteq> (a, b)"
  proof (cases "(c, d) = (a, b)")
    case True
    then show ?thesis using 0 unfolding e active_update[OF f] by simp
  next
    case False
    then have "active (map f rows) c d = active rows c d" by (intro active_cong f) (auto simp: f_def)
    then show ?thesis using False by (auto simp: e)
  qed
  then show ?thesis using n rows_ok_update[OF assms(1) f ok] e by simp
qed

section \<open>The tables and the log of changes\<close>

text \<open>
  The abstract state is the log of the changes: the outbox holds its events (less the
  rows that were cleaned), the two tables are what its replay gives. A log replays when
  a follow is only recorded of a pair that is not following, an unfollow only of
  one that is.
\<close>

datatype change = Created uint64 uint64 uint64 uint64 | Canceled uint64 uint64 uint64

fun event_row :: "change \<Rightarrow> outbox_event" where
  "event_row (Created oid i a b) = follow_event oid i a b"
| "event_row (Canceled oid a b) = unfollow_event oid a b"

type_synonym graph = "(uint64 \<times> uint64) set"

fun change_graph :: "change \<Rightarrow> graph \<Rightarrow> graph option" where
  "change_graph (Created oid i a b) G = (if (a, b) \<in> G then None else Some (insert (a, b) G))"
| "change_graph (Canceled oid a b) G = (if (a, b) \<in> G then Some (G - {(a, b)}) else None)"

fun replay :: "change list \<Rightarrow> graph \<Rightarrow> graph option" where
  "replay [] G = Some G"
| "replay (c # cs) G = (case change_graph c G of None \<Rightarrow> None | Some G1 \<Rightarrow> replay cs G1)"

lemma replay_append:
  "replay (cs @ ds) G = (case replay cs G of None \<Rightarrow> None | Some G1 \<Rightarrow> replay ds G1)"
  by (induction cs arbitrary: G) (auto split: option.splits)

definition graph_of :: "rel_row list \<Rightarrow> graph" where
  "graph_of rows = {(a, b). active rows a b}"

lemma mem_graph_of [simp]: "(a, b) \<in> graph_of rows \<longleftrightarrow> active rows a b"
  by (simp add: graph_of_def)

definition tables_ok :: "change list \<Rightarrow> rel_tables \<Rightarrow> bool" where
  "tables_ok log t = (rows_ok (rt_following t) \<and> rows_ok (rt_follower t) \<and>
     (\<forall>a b. active (rt_following t) a b \<longleftrightarrow> active (rt_follower t) b a) \<and>
     replay log {} = Some (graph_of (rt_following t)) \<and>
     subseq (rt_outbox t) (map event_row log))"

text \<open>What one call may do: nothing, or record one change and put its event in the outbox.\<close>

definition records :: "change \<Rightarrow> rel_tables \<Rightarrow> rel_tables \<Rightarrow> bool" where
  "records c t t' = (rt_outbox t' = rt_outbox t @ [event_row c] \<and> (\<forall>log. tables_ok log t \<longrightarrow> tables_ok (log @ [c]) t'))"

definition upserted :: "uint64 \<Rightarrow> uint64 \<Rightarrow> rel_tables \<Rightarrow> rel_tables \<Rightarrow> bool" where
  "upserted a b t t' = (\<exists>i1 n1 t1 i2 n2 t2. on_following (upsert_sql i1 a b 1 n1) t = (t1, t2) \<and> t1 > 0 \<and>
     t' = snd (on_follower (upsert_sql i2 b a 1 n2) t2))"

definition cancelled :: "uint64 \<Rightarrow> uint64 \<Rightarrow> rel_tables \<Rightarrow> rel_tables \<Rightarrow> bool" where
  "cancelled a b t t' = (\<exists>n1 t1 n2 t2. on_following (cancel_sql a b n1) t = (t1, t2) \<and> t1 > 0 \<and>
     t' = snd (on_follower (cancel_sql b a n2) t2))"

lemma upserted_records:
  assumes "upserted a b t t'"
  shows "records (Created oid i a b) t (insert_outbox (follow_event oid i a b) t')"
proof -
  from assms obtain i1 n1 k t2 i2 n2 where u: "on_following (upsert_sql i1 a b 1 n1) t = (k, t2)" "k > 0"
    "t' = snd (on_follower (upsert_sql i2 b a 1 n2) t2)" by (auto simp: upserted_def)
  obtain rows where r: "upsert_sql i1 a b 1 n1 (rt_following t) = (k, rows)" "t2 = t\<lparr>rt_following := rows\<rparr>"
    using u(1) by (auto simp: on_following_def split: prod.splits)
  obtain l rows' where q: "upsert_sql i2 b a 1 n2 (rt_follower t) = (l, rows')" "t' = t\<lparr>rt_following := rows, rt_follower := rows'\<rparr>"
    using u(3) r(2) by (auto simp: on_follower_def split: prod.splits)
  show ?thesis
    unfolding records_def
  proof (intro conjI allI impI)
    show "rt_outbox (insert_outbox (follow_event oid i a b) t') = rt_outbox t @ [event_row (Created oid i a b)]"
      by (simp add: q(2) insert_outbox_def)
    fix log
    assume ok: "tables_ok log t"
    note f = upsert_active[OF _ r(1)] and g = upsert_active[OF _ q(1)]
    have "graph_of rows = insert (a, b) (graph_of (rt_following t))" "(a, b) \<notin> graph_of (rt_following t)"
      using ok f u(2) by (auto simp: tables_ok_def graph_of_def)
    then show "tables_ok (log @ [Created oid i a b]) (insert_outbox (follow_event oid i a b) t')"
      using ok f g u(2) by (auto simp: tables_ok_def q(2) insert_outbox_def replay_append list_emb_append_mono)
  qed
qed

lemma cancelled_records:
  assumes "cancelled a b t t'"
  shows "records (Canceled oid a b) t (insert_outbox (unfollow_event oid a b) t')"
proof -
  from assms obtain n1 k t2 n2 where u: "on_following (cancel_sql a b n1) t = (k, t2)" "k > 0"
    "t' = snd (on_follower (cancel_sql b a n2) t2)" by (auto simp: cancelled_def)
  obtain rows where r: "cancel_sql a b n1 (rt_following t) = (k, rows)" "t2 = t\<lparr>rt_following := rows\<rparr>"
    using u(1) by (auto simp: on_following_def split: prod.splits)
  obtain l rows' where q: "cancel_sql b a n2 (rt_follower t) = (l, rows')" "t' = t\<lparr>rt_following := rows, rt_follower := rows'\<rparr>"
    using u(3) r(2) by (auto simp: on_follower_def split: prod.splits)
  show ?thesis
    unfolding records_def
  proof (intro conjI allI impI)
    show "rt_outbox (insert_outbox (unfollow_event oid a b) t') = rt_outbox t @ [event_row (Canceled oid a b)]"
      by (simp add: q(2) insert_outbox_def)
    fix log
    assume ok: "tables_ok log t"
    note f = cancel_active[OF _ r(1)] and g = cancel_active[OF _ q(1)]
    have "graph_of rows = graph_of (rt_following t) - {(a, b)}" "(a, b) \<in> graph_of (rt_following t)"
      using ok f u(2) by (auto simp: tables_ok_def graph_of_def)
    then show "tables_ok (log @ [Canceled oid a b]) (insert_outbox (unfollow_event oid a b) t')"
      using ok f g u(2) by (auto simp: tables_ok_def q(2) insert_outbox_def replay_append list_emb_append_mono)
  qed
qed

section \<open>The service on its world\<close>

text \<open>Redis, the in-process cache, the hooks, the audit log and the ids do not touch the tables.\<close>

locale relation_store = sql_database "rs_db S" + redis_frame "rs_redis S" "db_tables (rs_db S)"
  for S :: "'s relation_service" +
  assumes l1_del_keeps [simp]: "db_tables (rs_db S) (l1_del (rs_l1 S) k s) = db_tables (rs_db S) s"
    and next_id_keeps: "db_tables (rs_db S) (snd (rs_next_id S s)) = db_tables (rs_db S) s"
    and hooks_keep: "rs_hooks S = Some h \<Longrightarrow>
      db_tables (rs_db S) (snd (fh_on_follow h a b s)) = db_tables (rs_db S) s \<and>
      db_tables (rs_db S) (snd (fh_on_unfollow h a b s)) = db_tables (rs_db S) s"
    and audit_keeps: "rs_audit S = Some log \<Longrightarrow> db_tables (rs_db S) (log action u kind rid detail s) = db_tables (rs_db S) s"

context relation_store
begin

abbreviation (input) tabs :: "'s \<Rightarrow> rel_tables" where
  "tabs s \<equiv> db_tables (rs_db S) s"

lemma audit_frame [simp]: "tabs (audit S action u rid detail s) = tabs s"
  using audit_keeps by (simp add: audit_def split: option.split)

lemma notify_frame [simp]: "tabs (notify fh_on_follow S a b s) = tabs s" "tabs (notify fh_on_unfollow S a b s) = tabs s"
  using hooks_keep by (simp_all add: notify_def split: option.split)

lemma release_all_frame [simp]: "tabs (release_all (rs_redis S) ls s) = tabs s"
proof -
  have "tabs (fold (release (rs_redis S)) xs s) = tabs s" for xs by (induction xs arbitrary: s) simp_all
  then show ?thesis by (simp add: release_all_def)
qed

lemma acquire_sorted_frame: "acquire_sorted S ts ls s = (r, s') \<Longrightarrow> tabs s' = tabs s"
proof (induction ts arbitrary: ls s)
  case Nil
  then show ?case by simp
next
  case (Cons x ts)
  obtain t u where x: "x = (t, u)" by (cases x)
  obtain q s1 where a: "acquire_list_cache_lock S t u s = (q, s1)" by (cases "acquire_list_cache_lock S t u s")
  then have k: "tabs s1 = tabs s" using frame_acquire unfolding acquire_list_cache_lock_def by (metis snd_conv)
  show ?case using Cons.prems a k Cons.IH by (cases q) (auto simp: x)
qed

lemma invalidate_frame [simp]: "tabs (invalidate_caches S a b s) = tabs s"
proof -
  obtain q s1 where a: "acquire_list_cache_locks S [(''following'', a), (''followers'', b)] s = (q, s1)"
    by (cases "acquire_list_cache_locks S [(''following'', a), (''followers'', b)] s")
  then have "tabs s1 = tabs s" using acquire_sorted_frame unfolding acquire_list_cache_locks_def by blast
  moreover have "tabs (snd (wr (rs_redis S) (drop_cached_lists (rs_redis S) a b) s1)) = tabs s1"
    by (rule frame_wr) (simp add: drop_cached_lists_def)
  ultimately show ?thesis using a by (cases q) (simp_all add: invalidate_caches_def Let_def)
qed

lemma follow_allowed_frame: "follow_allowed S u sec s = (b, s') \<Longrightarrow> tabs s' = tabs s"
proof -
  assume a: "follow_allowed S u sec s = (b, s')"
  let ?f = "token_bucket_lua (rs_redis S) (follow_limit_key u) (fst (token_bucket_params S)) (snd (token_bucket_params S)) sec"
  have "tabs (snd (?f s)) = tabs s" for s
    by (auto simp: token_bucket_lua_def Let_def split: option.split prod.split)
  then have "tabs (snd (roundtrip (rs_redis S) ?f s)) = tabs s" by (rule frame_roundtrip)
  then show ?thesis using a
    by (auto simp: follow_allowed_def case_prod_beta split: sum.splits option.splits prod.splits)
qed

lemma follow_mutates: "mutates (rs_db S) (follow_mutations S i rev_id a b now) (upserted a b)"
  unfolding mutates_def
proof (intro allI impI)
  fix x r x'
  assume m: "follow_mutations S i rev_id a b now x = (r, x')"
  obtain q1 x1 where e1: "tx_exec (rs_db S) (on_following (upsert_sql i a b 1 (fst now))) x = (q1, x1)"
    by (cases "tx_exec (rs_db S) (on_following (upsert_sql i a b 1 (fst now))) x")
  obtain q2 x2 where e2: "tx_exec (rs_db S) (on_follower (upsert_sql rev_id b a 1 (snd now))) x1 = (q2, x2)"
    by (cases "tx_exec (rs_db S) (on_follower (upsert_sql rev_id b a 1 (snd now))) x1")
  note k1 = tx_exec_keeps[OF e1] and k2 = tx_exec_keeps[OF e2]
  have u: "upserted a b (fst x) (fst x2)" if "q1 = Inr n" "n > 0" "q2 = Inr m" for n m
  proof -
    have "on_following (upsert_sql i a b 1 (fst now)) (fst x) = (n, fst x1)" using k1 that by simp
    moreover have "fst x2 = snd (on_follower (upsert_sql rev_id b a 1 (snd now)) (fst x1))" using k2 that by (simp add: prod_eq_iff)
    ultimately show ?thesis unfolding upserted_def using that(2) by (intro exI conjI)
  qed
  show "tabs (snd x') = tabs (snd x) \<and> (r = Done \<longrightarrow> upserted a b (fst x) (fst x'))"
  proof (cases q1)
    case (Inl err)
    with m k1 show ?thesis by (auto simp: follow_mutations_def UpsertFollowing_def UpsertFollower_def e1)
  next
    case q1: (Inr n)
    show ?thesis
    proof (cases q2)
      case (Inl err)
      with m k1 k2 q1 show ?thesis by (auto simp: follow_mutations_def UpsertFollowing_def UpsertFollower_def e1 e2 split: if_splits)
    next
      case (Inr l)
      with m k1 k2 q1 u[of n l] show ?thesis by (cases "n > 0") (auto simp: follow_mutations_def UpsertFollowing_def UpsertFollower_def e1 e2)
    qed
  qed
qed

lemma unfollow_mutates: "mutates (rs_db S) (unfollow_mutations S a b now) (cancelled a b)"
  unfolding mutates_def
proof (intro allI impI)
  fix x r x'
  assume m: "unfollow_mutations S a b now x = (r, x')"
  obtain q1 x1 where e1: "tx_exec (rs_db S) (on_following (cancel_sql a b (fst now))) x = (q1, x1)"
    by (cases "tx_exec (rs_db S) (on_following (cancel_sql a b (fst now))) x")
  obtain q2 x2 where e2: "tx_exec (rs_db S) (on_follower (cancel_sql b a (snd now))) x1 = (q2, x2)"
    by (cases "tx_exec (rs_db S) (on_follower (cancel_sql b a (snd now))) x1")
  note k1 = tx_exec_keeps[OF e1] and k2 = tx_exec_keeps[OF e2]
  have u: "cancelled a b (fst x) (fst x2)" if "q1 = Inr n" "n > 0" "q2 = Inr m" for n m
  proof -
    have "on_following (cancel_sql a b (fst now)) (fst x) = (n, fst x1)" using k1 that by simp
    moreover have "fst x2 = snd (on_follower (cancel_sql b a (snd now)) (fst x1))" using k2 that by (simp add: prod_eq_iff)
    ultimately show ?thesis unfolding cancelled_def using that(2) by (intro exI conjI)
  qed
  show "tabs (snd x') = tabs (snd x) \<and> (r = Done \<longrightarrow> cancelled a b (fst x) (fst x'))"
  proof (cases q1)
    case (Inl err)
    with m k1 show ?thesis by (auto simp: unfollow_mutations_def CancelFollowing_def CancelFollower_def e1)
  next
    case q1: (Inr n)
    show ?thesis
    proof (cases q2)
      case (Inl err)
      with m k1 k2 q1 show ?thesis by (auto simp: unfollow_mutations_def CancelFollowing_def CancelFollower_def e1 e2 split: if_splits)
    next
      case (Inr l)
      with m k1 k2 q1 u[of n l] show ?thesis by (cases "n > 0") (auto simp: unfollow_mutations_def CancelFollowing_def CancelFollower_def e1 e2)
    qed
  qed
qed

lemma with_events_one [simp]: "with_events insert_outbox remarshal [e] t = insert_outbox e t"
  by (simp add: with_events_def remarshal_def)

lemma follow_outcome:
  assumes "Follow S sec now a b s = (r, s')"
  shows "tabs s' = tabs s \<and> r \<noteq> Inr True \<or> (\<exists>oid i. records (Created oid i a b) (tabs s) (tabs s')) \<and> r \<noteq> Inr False"
proof -
  obtain ok s1 where al: "follow_allowed S a sec s = (ok, s1)" by (cases "follow_allowed S a sec s")
  note k1 = follow_allowed_frame[OF al]
  show ?thesis
  proof (cases ok)
    case False
    with assms al k1 show ?thesis by (auto simp: Follow_def)
  next
    case True
    obtain i s2 where i: "rs_next_id S s1 = (i, s2)" by (cases "rs_next_id S s1")
    obtain rid s3 where rid: "rs_next_id S s2 = (rid, s3)" by (cases "rs_next_id S s2")
    obtain oid s4 where oid: "rs_next_id S s3 = (oid, s4)" by (cases "rs_next_id S s3")
    have k4: "tabs s4 = tabs s"
      using next_id_keeps[of s1] next_id_keeps[of s2] next_id_keeps[of s3] k1 i rid oid by simp
    obtain q s5 where tx: "run_in_tx (rs_db S) remarshal insert_outbox (follow_mutations S i rid a b now) [follow_event oid i a b] s4 = (q, s5)"
      by (cases "run_in_tx (rs_db S) remarshal insert_outbox (follow_mutations S i rid a b now) [follow_event oid i a b] s4")
    note at = run_in_tx_atomic[OF follow_mutates tx, unfolded with_events_one k4]
    have rec: "records (Created oid i a b) (tabs s) (tabs s5)" if "tabs s5 \<noteq> tabs s \<or> is_ok q"
      using at that upserted_records[of a b "tabs s" _ oid i] by auto
    have r: "r = (case q of Inl err \<Rightarrow> if err = NothingToFollow then Inr False else Inl err | Inr _ \<Rightarrow> Inr True)" "tabs s' = tabs s5"
      using assms al True i rid oid tx by (auto simp: Follow_def Let_def split: sum.splits)
    show ?thesis
    proof (cases q)
      case (Inr u)
      then show ?thesis using rec r by auto
    next
      case (Inl err)
      have "err = NothingToFollow \<Longrightarrow> tabs s5 = tabs s"
        using run_in_tx_sentinel[OF follow_mutates tx[unfolded Inl]] k4 by simp
      then show ?thesis using rec r Inl by (cases "tabs s5 = tabs s") auto
    qed
  qed
qed

lemma unfollow_outcome:
  assumes "Unfollow S now a b s = (r, s')"
  shows "tabs s' = tabs s \<and> r \<noteq> Inr True \<or> (\<exists>oid. records (Canceled oid a b) (tabs s) (tabs s')) \<and> r \<noteq> Inr False"
proof -
  obtain oid s1 where oid: "rs_next_id S s = (oid, s1)" by (cases "rs_next_id S s")
  then have k: "tabs s1 = tabs s" using next_id_keeps[of s] by simp
  obtain q s5 where tx: "run_in_tx (rs_db S) remarshal insert_outbox (unfollow_mutations S a b now) [unfollow_event oid a b] s1 = (q, s5)"
    by (cases "run_in_tx (rs_db S) remarshal insert_outbox (unfollow_mutations S a b now) [unfollow_event oid a b] s1")
  note at = run_in_tx_atomic[OF unfollow_mutates tx, unfolded with_events_one k]
  have rec: "records (Canceled oid a b) (tabs s) (tabs s5)" if "tabs s5 \<noteq> tabs s \<or> is_ok q"
    using at that cancelled_records[of a b "tabs s" _ oid] by auto
  have r: "r = (case q of Inl err \<Rightarrow> if err = NothingToCancel then Inr False else Inl err | Inr _ \<Rightarrow> Inr True)" "tabs s' = tabs s5"
    using assms oid tx by (auto simp: Unfollow_def Let_def split: sum.splits)
  show ?thesis
  proof (cases q)
    case (Inr u)
    then show ?thesis using rec r by auto
  next
    case (Inl err)
    have "err = NothingToCancel \<Longrightarrow> tabs s5 = tabs s"
      using run_in_tx_sentinel[OF unfollow_mutates tx[unfolded Inl]] k by simp
    then show ?thesis using rec r Inl by (cases "tabs s5 = tabs s") auto
  qed
qed

text \<open>An answer \<open>false\<close> without an error means the pair was already in that state.\<close>

lemma unfollow_false:
  assumes "Unfollow S now a b s = (Inr False, s')" "rows_ok (rt_following (tabs s))"
  shows "\<not> active (rt_following (tabs s)) a b"
proof -
  obtain oid s1 where oid: "rs_next_id S s = (oid, s1)" by (cases "rs_next_id S s")
  then have k: "tabs s1 = tabs s" using next_id_keeps[of s] by simp
  have "\<exists>s5. run_in_tx (rs_db S) remarshal insert_outbox (unfollow_mutations S a b now) [unfollow_event oid a b] s1 = (Inl NothingToCancel, s5)"
    using assms(1) oid by (auto simp: Unfollow_def Let_def split: prod.splits sum.splits if_splits)
  then obtain w where tx: "run_in_tx (rs_db S) remarshal insert_outbox (unfollow_mutations S a b now) [unfollow_event oid a b] s1 = (Inl NothingToCancel, w)"
    by blast
  obtain s2 x where m: "unfollow_mutations S a b now (tabs s, s2) = (Failed NothingToCancel, x)"
    by (rule run_in_tx_sentinel_from[OF tx]) (simp_all add: k)
  obtain q x1 where e: "tx_exec (rs_db S) (on_following (cancel_sql a b (fst now))) (tabs s, s2) = (q, x1)"
    by (cases "tx_exec (rs_db S) (on_following (cancel_sql a b (fst now))) (tabs s, s2)")
  with m have q: "q = Inr 0" by (auto simp: unfollow_mutations_def CancelFollowing_def split: sum.splits if_splits prod.splits)
  obtain rows where "cancel_sql a b (fst now) (rt_following (tabs s)) = (0, rows)"
    using tx_exec_keeps[OF e] q by (auto simp: on_following_def split: prod.splits)
  from cancel_active[OF assms(2) this] show ?thesis by simp
qed

lemma follow_false:
  assumes "Follow S sec now a b s = (Inr False, s')" "fst (follow_allowed S a sec s)" "rows_ok (rt_following (tabs s))"
  shows "active (rt_following (tabs s)) a b"
proof -
  obtain s1 where al: "follow_allowed S a sec s = (True, s1)" using assms(2) by (cases "follow_allowed S a sec s") auto
  obtain i s2 where i: "rs_next_id S s1 = (i, s2)" by (cases "rs_next_id S s1")
  obtain rid s3 where rid: "rs_next_id S s2 = (rid, s3)" by (cases "rs_next_id S s2")
  obtain oid s4 where oid: "rs_next_id S s3 = (oid, s4)" by (cases "rs_next_id S s3")
  have k: "tabs s4 = tabs s"
    using next_id_keeps[of s1] next_id_keeps[of s2] next_id_keeps[of s3] follow_allowed_frame[OF al] i rid oid by simp
  have "\<exists>s5. run_in_tx (rs_db S) remarshal insert_outbox (follow_mutations S i rid a b now) [follow_event oid i a b] s4 = (Inl NothingToFollow, s5)"
    using assms(1) al i rid oid by (auto simp: Follow_def split: prod.splits sum.splits if_splits)
  then obtain w where tx: "run_in_tx (rs_db S) remarshal insert_outbox (follow_mutations S i rid a b now) [follow_event oid i a b] s4 = (Inl NothingToFollow, w)"
    by blast
  obtain s5 x where m: "follow_mutations S i rid a b now (tabs s, s5) = (Failed NothingToFollow, x)"
    by (rule run_in_tx_sentinel_from[OF tx]) (simp_all add: k)
  obtain q x1 where e: "tx_exec (rs_db S) (on_following (upsert_sql i a b 1 (fst now))) (tabs s, s5) = (q, x1)"
    by (cases "tx_exec (rs_db S) (on_following (upsert_sql i a b 1 (fst now))) (tabs s, s5)")
  with m have q: "q = Inr 0"
    by (auto simp: follow_mutations_def UpsertFollowing_def split: sum.splits if_splits prod.splits)
  obtain rows where "upsert_sql i a b 1 (fst now) (rt_following (tabs s)) = (0, rows)"
    using tx_exec_keeps[OF e] q by (auto simp: on_following_def split: prod.splits)
  from upsert_active[OF assms(3) this] show ?thesis by simp
qed

end

section \<open>A service in memory\<close>

text \<open>Redis, a counter for ids and the in-process cache, beside the stored tables.\<close>

type_synonym rel_world = "(mem \<times> (uint64 \<times> (string \<rightharpoonup> string))) \<times> rel_tables store"

definition local_l1 :: "rel_world l1_cache" where
  "local_l1 = \<lparr>
     l1_get = (\<lambda>k s. (snd (snd (fst s)) k, s)),
     l1_set = (\<lambda>k v ttl s. ((fst (fst s), (fst (snd (fst s)), (snd (snd (fst s)))(k \<mapsto> v))), snd s)),
     l1_del = (\<lambda>k s. ((fst (fst s), (fst (snd (fst s)), (snd (snd (fst s)))(k := None))), snd s))\<rparr>"

definition counted_ids :: "rel_world \<Rightarrow> uint64 \<times> rel_world" where
  "counted_ids s = (fst (snd (fst s)), ((fst (fst s), (fst (snd (fst s)) + 1, snd (snd (fst s)))), snd s))"

definition mem_relation :: "mem redis \<Rightarrow> rel_world relation_service" where
  "mem_relation R = \<lparr>rs_db = stored_db, rs_redis = on_first (on_first R), rs_l1 = local_l1, rs_next_id = counted_ids,
     rs_big_v_threshold = 1000, rs_token_bucket = Some (100, 1), rs_cfg = None, rs_audit = None, rs_hooks = None,
     rs_retries = 3, rs_token = (\<lambda>k n. k)\<rparr>"

lemma mem_relation_sel [simp]:
  "rs_db (mem_relation R) = stored_db" "rs_redis (mem_relation R) = on_first (on_first R)" "rs_l1 (mem_relation R) = local_l1"
  "rs_next_id (mem_relation R) = counted_ids" "rs_token_bucket (mem_relation R) = Some (100, 1)" "rs_cfg (mem_relation R) = None"
  "rs_audit (mem_relation R) = None" "rs_hooks (mem_relation R) = None" "rs_retries (mem_relation R) = 3"
  "rs_token (mem_relation R) = (\<lambda>k n. k)" "rs_big_v_threshold (mem_relation R) = 1000"
  by (simp_all add: mem_relation_def)

lemma local_frames [simp]: "snd (l1_del local_l1 k s) = snd s" "snd (snd (counted_ids s)) = snd s"
  by (simp_all add: local_l1_def counted_ids_def)

lemma stored_tables: "db_tables stored_db = (\<lambda>s. fst (snd s))"
  by (simp add: fun_eq_iff)

interpretation mem_store: relation_store "mem_relation R" for R
  by (intro relation_store.intro relation_store_axioms.intro)
    (simp_all add: stored.sql_database_axioms stored_tables first_frame.redis_frame_axioms)

section \<open>Runs\<close>

text \<open>
  Calls from any clients with any outcome, cleaning of outbox rows, and everything
  that does not touch the tables, with all rows that the calls put in the outbox: of each
  call what its tables have behind the outbox of before.
\<close>

definition newly_sent :: "rel_tables \<Rightarrow> rel_tables \<Rightarrow> outbox_event list" where
  "newly_sent t t' = drop (length (rt_outbox t)) (rt_outbox t')"

inductive relation_run :: "'s relation_service \<Rightarrow> 's \<Rightarrow> outbox_event list \<Rightarrow> 's \<Rightarrow> bool" for S :: "'s relation_service" and s0 :: 's where
  start: "relation_run S s0 [] s0"
| follow: "relation_run S s0 sent s \<Longrightarrow> Follow S sec now a b s = (r, s') \<Longrightarrow>
    relation_run S s0 (sent @ newly_sent (db_tables (rs_db S) s) (db_tables (rs_db S) s')) s'"
| unfollow: "relation_run S s0 sent s \<Longrightarrow> Unfollow S now a b s = (r, s') \<Longrightarrow>
    relation_run S s0 (sent @ newly_sent (db_tables (rs_db S) s) (db_tables (rs_db S) s')) s'"
| clean: "relation_run S s0 sent s \<Longrightarrow> db_tables (rs_db S) s' = (db_tables (rs_db S) s)\<lparr>rt_outbox := rows\<rparr> \<Longrightarrow>
    subseq rows (rt_outbox (db_tables (rs_db S) s)) \<Longrightarrow> relation_run S s0 sent s'"
| elsewhere: "relation_run S s0 sent s \<Longrightarrow> db_tables (rs_db S) s' = db_tables (rs_db S) s \<Longrightarrow> relation_run S s0 sent s'"

definition no_relations :: rel_tables where
  "no_relations = \<lparr>rt_following = [], rt_follower = [], rt_outbox = []\<rparr>"

lemma no_relations_ok: "tables_ok [] no_relations"
  by (simp add: tables_ok_def no_relations_def rows_ok_def active_def graph_of_def)

context relation_store
begin

lemma recorded_sent:
  assumes "tables_ok log t" "t' = t \<or> (\<exists>c. records c t t')"
  shows "\<exists>log'. tables_ok log' t' \<and> map event_row log' = map event_row log @ newly_sent t t'"
  using assms(2)
proof
  assume "t' = t"
  then show ?thesis using assms(1) by (auto simp: newly_sent_def)
next
  assume "\<exists>c. records c t t'"
  then obtain c where c: "rt_outbox t' = rt_outbox t @ [event_row c]" "tables_ok (log @ [c]) t'"
    using assms(1) unfolding records_def by blast
  then show ?thesis by (intro exI[of _ "log @ [c]"]) (simp add: newly_sent_def)
qed

lemma run_tables_ok:
  assumes "relation_run S s0 sent s" "tables_ok [] (tabs s0)"
  shows "\<exists>log. tables_ok log (tabs s) \<and> map event_row log = sent"
  using assms(1)
proof (induction rule: relation_run.induct)
  case start
  then show ?case using assms(2) by blast
next
  case (follow sent s sec now a b r s')
  then obtain log where log: "tables_ok log (tabs s)" "map event_row log = sent" by blast
  have "tabs s' = tabs s \<or> (\<exists>c. records c (tabs s) (tabs s'))" using follow_outcome[OF follow.hyps(2)] by blast
  from recorded_sent[OF log(1) this] log(2) show ?case by simp
next
  case (unfollow sent s now a b r s')
  then obtain log where log: "tables_ok log (tabs s)" "map event_row log = sent" by blast
  have "tabs s' = tabs s \<or> (\<exists>c. records c (tabs s) (tabs s'))" using unfollow_outcome[OF unfollow.hyps(2)] by blast
  from recorded_sent[OF log(1) this] log(2) show ?case by simp
next
  case (clean sent s s' rows)
  then obtain log where "tables_ok log (tabs s)" "map event_row log = sent" by blast
  moreover from this have "tables_ok log (tabs s')" using clean.hyps subseq_order.trans by (auto simp: tables_ok_def)
  ultimately show ?case by blast
qed auto

end

text \<open>
  C14: from empty tables, whatever calls run in whatever order and whatever fails: no
  pair has two rows in a table and the two tables mirror each other. Take in order all
  rows that the calls put in the outbox. They are the events of a log of changes, each
  a follow of a pair that is not followed or an unfollow of one that is, and what is
  active in the tables is exactly the outcome of this log. The outbox holds of these
  rows what the cleaner has left.
\<close>

theorem relation_tables_replay:
  assumes "relation_store S" "db_tables (rs_db S) s0 = no_relations" "relation_run S s0 sent s"
  shows "let t = db_tables (rs_db S) s in
    distinct (map pair_of (rt_following t)) \<and> distinct (map pair_of (rt_follower t)) \<and>
    (\<forall>a b. active (rt_following t) a b = active (rt_follower t) b a) \<and> subseq (rt_outbox t) sent \<and>
    (\<exists>log. map event_row log = sent \<and> replay log {} = Some {(a, b). active (rt_following t) a b})"
proof -
  obtain log where "tables_ok log (db_tables (rs_db S) s)" "map event_row log = sent"
    using relation_store.run_tables_ok[OF assms(1,3)] no_relations_ok assms(2) by metis
  then show ?thesis unfolding tables_ok_def rows_ok_def graph_of_def Let_def by auto
qed

definition rel_start :: rel_world where
  "rel_start = (((empty_keyspace, []), (1, (\<lambda>_. None))), (no_relations, []))"

theorem relation_tables_replay_witness:
  "let S = mem_relation up_redis; s1 = snd (Follow S 100 (3, 4) 1 2 rel_start); s2 = snd (Unfollow S (5, 6) 1 2 s1);
       t0 = no_relations; t1 = fst (snd s1); t2 = fst (snd s2)
   in \<exists>log. map event_row log = newly_sent t0 t1 @ newly_sent t1 t2 \<and> replay log {} = Some {(a, b). active (rt_following t2) a b}"
proof -
  let ?S = "mem_relation up_redis"
  obtain r1 s1 where f: "Follow ?S 100 (3, 4) 1 2 rel_start = (r1, s1)" by (cases "Follow ?S 100 (3, 4) 1 2 rel_start")
  obtain r2 s2 where u: "Unfollow ?S (5, 6) 1 2 s1 = (r2, s2)" by (cases "Unfollow ?S (5, 6) 1 2 s1")
  have start: "db_tables (rs_db ?S) rel_start = no_relations" by (simp add: rel_start_def)
  from relation_tables_replay[OF mem_store.relation_store_axioms start
      relation_run.unfollow[OF relation_run.follow[OF relation_run.start f] u]]
  show ?thesis unfolding f u snd_conv Let_def start append_Nil by (simp only: mem_relation_sel stored_db_sel)
qed

text \<open>
  An unfollow that answers true recorded exactly one cancellation with its
  event; one that answers false found the pair not followed and changed nothing;
  one that fails did one or the other, never half of it. The same holds of a
  follow, whose answer false may also come from the rate limit.
\<close>

theorem follow_answers:
  assumes "relation_store S" "tables_ok log (db_tables (rs_db S) s)"
    and "Follow S sec now a b s = (r, s1)" "Unfollow S now a b s = (q, s2)"
  shows "(db_tables (rs_db S) s1 = db_tables (rs_db S) s \<and> r \<noteq> Inr True \<or>
      (\<exists>oid i. tables_ok (log @ [Created oid i a b]) (db_tables (rs_db S) s1)) \<and> r \<noteq> Inr False) \<and>
    (db_tables (rs_db S) s2 = db_tables (rs_db S) s \<and> q \<noteq> Inr True \<or>
      (\<exists>oid. tables_ok (log @ [Canceled oid a b]) (db_tables (rs_db S) s2)) \<and> q \<noteq> Inr False) \<and>
    (r = Inr False \<and> fst (follow_allowed S a sec s) \<longrightarrow> active (rt_following (db_tables (rs_db S) s)) a b) \<and>
    (q = Inr False \<longrightarrow> \<not> active (rt_following (db_tables (rs_db S) s)) a b)"
proof (intro conjI)
  have rows: "rows_ok (rt_following (db_tables (rs_db S) s))" using assms(2) by (simp add: tables_ok_def)
  show "r = Inr False \<and> fst (follow_allowed S a sec s) \<longrightarrow> active (rt_following (db_tables (rs_db S) s)) a b"
    using relation_store.follow_false[OF assms(1) _ _ rows] assms(3) by blast
  show "q = Inr False \<longrightarrow> \<not> active (rt_following (db_tables (rs_db S) s)) a b"
    using relation_store.unfollow_false[OF assms(1) _ rows] assms(4) by blast
qed (use relation_store.follow_outcome[OF assms(1,3)] relation_store.unfollow_outcome[OF assms(1,4)] assms(2)
  in \<open>auto simp: records_def\<close>)

theorem follow_answers_witness:
  "fst (snd (snd (Follow (mem_relation mem_redis) 100 (3, 4) 1 2 rel_start))) = no_relations \<or>
    (\<exists>c. tables_ok [c] (fst (snd (snd (Follow (mem_relation mem_redis) 100 (3, 4) 1 2 rel_start)))))"
proof -
  have ok: "tables_ok [] (db_tables (rs_db (mem_relation mem_redis)) rel_start)" by (simp add: rel_start_def no_relations_ok)
  from follow_answers[OF mem_store.relation_store_axioms ok prod.collapse[symmetric] prod.collapse[symmetric], of 100 "(3, 4)" 1 2]
  show ?thesis by (auto simp: rel_start_def)
qed

end
