(* ===== verification/Outbox_Transport.thy ===== *)
theory Outbox_Transport
  imports Relation_Follow
begin

text \<open>
  The way of an outbox row to its handler: \<open>internal/canal\<close> reads the binlog and
  writes Kafka messages (\<open>parser.go\<close>, \<open>bridge.go\<close>), \<open>internal/outbox/message_util.go\<close>
  picks the partition key, \<open>consumer.go\<close> unpacks the messages, retries and skips.
  The polling consumers \<open>poll_consumer.go\<close>, \<open>direct_poll.go\<close> read the table itself;
  \<open>cleaner.go\<close> empties it. The protobuf decoder, the JSON decoders, the Canal
  connector and the Kafka client are arguments.
\<close>

section \<open>Canal rows and envelopes\<close>

record canal_row =
  cr_id :: string
  cr_aggregate_type :: string
  cr_aggregate_id :: string
  cr_type :: string
  cr_payload :: string

record canal_envelope =
  en_table :: string
  en_type :: string
  en_data :: "canal_row list"

datatype binlog_event = InsertEvent | UpdateEvent | OtherEvent

record canal_column =
  col_name :: string
  col_value :: string

record row_change =
  ch_event :: binlog_event
  ch_rows :: "canal_column list list"

record canal_entry =
  et_rowdata :: bool
  et_table :: string
  et_store :: string

definition empty_canal_row :: canal_row where
  "empty_canal_row = \<lparr>cr_id = [], cr_aggregate_type = [], cr_aggregate_id = [], cr_type = [], cr_payload = []\<rparr>"

text \<open>Column names are ASCII; other bytes are left alone.\<close>

definition lower_char :: "char \<Rightarrow> char" where
  "lower_char c = (if CHR ''A'' \<le> c \<and> c \<le> CHR ''Z'' then char_of (of_char c + 32 :: nat) else c)"

definition assign_column :: "canal_column \<Rightarrow> canal_row \<Rightarrow> canal_row" where
  "assign_column col row =
    (let name = map lower_char (col_name col); v = col_value col in
     if name = ''id'' then row\<lparr>cr_id := v\<rparr>
     else if name = ''aggregate_type'' then row\<lparr>cr_aggregate_type := v\<rparr>
     else if name = ''aggregate_id'' then row\<lparr>cr_aggregate_id := v\<rparr>
     else if name = ''type'' then row\<lparr>cr_type := v\<rparr>
     else if name = ''payload'' then row\<lparr>cr_payload := v\<rparr>
     else row)"

definition event_type_name :: "binlog_event \<Rightarrow> string" where
  "event_type_name e = (case e of InsertEvent \<Rightarrow> ''INSERT'' | UpdateEvent \<Rightarrow> ''UPDATE'' | OtherEvent \<Rightarrow> [])"

text \<open>\<open>json.Marshal\<close> of an envelope; empty fields of a row are omitted.\<close>

definition json_object :: "string list \<Rightarrow> string" where
  "json_object fs = CHR 123 # join_with '','' fs @ [CHR 125]"

definition omit_empty :: "string \<Rightarrow> string \<Rightarrow> string list" where
  "omit_empty k v = (if v = [] then [] else [json_key k @ write_json_string v])"

definition marshal_canal_row :: "canal_row \<Rightarrow> string" where
  "marshal_canal_row r = json_object
     (omit_empty ''id'' (cr_id r) @ omit_empty ''aggregate_type'' (cr_aggregate_type r) @
      omit_empty ''aggregate_id'' (cr_aggregate_id r) @ omit_empty ''type'' (cr_type r) @ omit_empty ''payload'' (cr_payload r))"

definition marshal_envelope :: "canal_envelope \<Rightarrow> string" where
  "marshal_envelope e = json_object
     [json_key ''table'' @ write_json_string (en_table e), json_key ''type'' @ write_json_string (en_type e),
      json_key ''data'' @ CHR 91 # join_with '','' (map marshal_canal_row (en_data e)) @ [CHR 93]]"

fun parse_entries ::
  "(string \<Rightarrow> io_error + row_change) \<Rightarrow> canal_entry list \<Rightarrow> io_error + string list" where
  "parse_entries unproto [] = Inr []"
| "parse_entries unproto (e # es) =
    (if \<not> et_rowdata e then parse_entries unproto es
     else (case unproto (et_store e) of
         Inl err \<Rightarrow> Inl err
       | Inr ch \<Rightarrow>
           (if ch_event ch \<noteq> InsertEvent \<and> ch_event ch \<noteq> UpdateEvent then parse_entries unproto es
            else (case parse_entries unproto es of
                Inl err \<Rightarrow> Inl err
              | Inr bodies \<Rightarrow>
                  Inr (map (\<lambda>cols. marshal_envelope \<lparr>en_table = et_table e, en_type = event_type_name (ch_event ch),
                         en_data = [fold assign_column cols empty_canal_row]\<rparr>) (ch_rows ch) @ bodies)))))"

section \<open>Partition keys\<close>

type_synonym 'a decoder = "string \<Rightarrow> io_error + 'a"

definition extract_canal_rows :: "canal_envelope decoder \<Rightarrow> string \<Rightarrow> io_error + canal_row list" where
  "extract_canal_rows dec body = (case dec body of
      Inl err \<Rightarrow> Inl err
    | Inr en \<Rightarrow>
        (if en_table en \<noteq> ''outbox'' then Inr []
         else if en_type en \<noteq> ''INSERT'' \<and> en_type en \<noteq> ''UPDATE'' then Inr []
         else Inr (en_data en)))"

text \<open>What the two decoders of a payload read: entity and id, or the two users.\<close>

definition knowpost_message_key :: "(string \<times> uint64) decoder \<Rightarrow> canal_row \<Rightarrow> string \<Rightarrow> string option" where
  "knowpost_message_key dec row agg_id =
    (if agg_id \<noteq> [] then Some (''knowpost:'' @ agg_id)
     else (case dec (cr_payload row) of
         Inr (entity, i) \<Rightarrow> if entity = ''knowpost'' \<and> i \<noteq> 0 then Some (''knowpost:'' @ format_uint i) else None
       | Inl err \<Rightarrow> None))"

definition following_message_key :: "(uint64 \<times> uint64) decoder \<Rightarrow> canal_row \<Rightarrow> string \<Rightarrow> string option" where
  "following_message_key dec row agg_id =
    (case (case dec (cr_payload row) of
        Inr (a, b) \<Rightarrow> if a \<noteq> 0 \<and> b \<noteq> 0 then Some (''following:'' @ format_uint a @ colon @ format_uint b) else None
      | Inl err \<Rightarrow> None) of
       Some k \<Rightarrow> Some k
     | None \<Rightarrow> if agg_id \<noteq> [] then Some (''following:'' @ agg_id) else None)"

definition MessageKey :: "(string \<times> uint64) decoder \<Rightarrow> (uint64 \<times> uint64) decoder \<Rightarrow> canal_row \<Rightarrow> string" where
  "MessageKey dec_post dec_follow row =
    (let agg_type = trim_space (cr_aggregate_type row); agg_id = trim_space (cr_aggregate_id row);
         special = (if agg_type = ''knowpost'' then knowpost_message_key dec_post row agg_id
                    else if agg_type = ''following'' then following_message_key dec_follow row agg_id else None)
     in case special of
          Some k \<Rightarrow> k
        | None \<Rightarrow>
            (if agg_type \<noteq> [] \<and> agg_id \<noteq> [] then agg_type @ colon @ agg_id
             else if agg_type \<noteq> [] \<and> cr_type row \<noteq> [] then agg_type @ colon @ cr_type row
             else if cr_id row \<noteq> [] then ''outbox:'' @ cr_id row
             else cr_type row))"

section \<open>The bridge\<close>

record outbox_message =
  om_key :: string
  om_value :: string

text \<open>The Canal connection and the Kafka writer; the writer takes a whole batch.\<close>

record 's bridge =
  br_unproto :: "string \<Rightarrow> io_error + row_change"
  br_envelope :: "canal_envelope decoder"
  br_post :: "(string \<times> uint64) decoder"
  br_follow :: "(uint64 \<times> uint64) decoder"
  br_ack :: "int \<Rightarrow> 's \<Rightarrow> io_error option \<times> 's"
  br_rollback :: "int \<Rightarrow> 's \<Rightarrow> io_error option \<times> 's"
  br_write :: "outbox_message list \<Rightarrow> 's \<Rightarrow> io_error option \<times> 's"

datatype forward_result = Forwarded | ForwardFailed io_error | ForwardPanic

definition rollback_or_panic :: "'s bridge \<Rightarrow> int \<Rightarrow> io_error \<Rightarrow> 's \<Rightarrow> forward_result \<times> 's" where
  "rollback_or_panic B batch err s = (case br_rollback B batch s of
      (Some rb, s1) \<Rightarrow> (ForwardPanic, s1)
    | (None, s1) \<Rightarrow> (ForwardFailed err, s1))"

definition ack_batch :: "'s bridge \<Rightarrow> int \<Rightarrow> 's \<Rightarrow> forward_result \<times> 's" where
  "ack_batch B batch s = (case br_ack B batch s of
      (Some err, s1) \<Rightarrow> (ForwardFailed err, s1)
    | (None, s1) \<Rightarrow> (Forwarded, s1))"

fun keyed_messages :: "'s bridge \<Rightarrow> string list \<Rightarrow> io_error + outbox_message list" where
  "keyed_messages B [] = Inr []"
| "keyed_messages B (body # bodies) =
    (case extract_canal_rows (br_envelope B) body of
       Inl err \<Rightarrow> Inl err
     | Inr rows \<Rightarrow>
         (case keyed_messages B bodies of
            Inl err \<Rightarrow> Inl err
          | Inr ms \<Rightarrow>
              Inr (\<lparr>om_key = (case rows of [] \<Rightarrow> [] | row # _ \<Rightarrow> MessageKey (br_post B) (br_follow B) row), om_value = body\<rparr> # ms)))"

definition forward_batch :: "'s bridge \<Rightarrow> int \<Rightarrow> canal_entry list \<Rightarrow> 's \<Rightarrow> forward_result \<times> 's" where
  "forward_batch B batch entries s =
    (case parse_entries (br_unproto B) entries of
       Inl err \<Rightarrow> rollback_or_panic B batch err s
     | Inr bodies \<Rightarrow>
         (if bodies = [] then ack_batch B batch s
          else (case keyed_messages B bodies of
              Inl err \<Rightarrow> rollback_or_panic B batch err s
            | Inr ms \<Rightarrow>
                (case br_write B ms s of
                   (Some err, s1) \<Rightarrow> rollback_or_panic B batch err s1
                 | (None, s1) \<Rightarrow> ack_batch B batch s1))))"

section \<open>The consumer\<close>

type_synonym 's row_handler = "outbox_row \<Rightarrow> 's \<Rightarrow> (io_error + unit) \<times> 's"

definition extract_rows :: "canal_envelope decoder \<Rightarrow> string \<Rightarrow> io_error + outbox_row list" where
  "extract_rows dec value = (case dec value of
      Inl err \<Rightarrow> Inl err
    | Inr en \<Rightarrow>
        (if en_table en \<noteq> ''outbox'' then Inr []
         else if en_type en \<noteq> ''INSERT'' \<and> en_type en \<noteq> ''UPDATE'' then Inr []
         else Inr (map (\<lambda>d. \<lparr>row_aggregate_type = cr_aggregate_type d, row_aggregate_id = cr_aggregate_id d,
                       row_type = cr_type d, row_payload = cr_payload d\<rparr>) (en_data en))))"

fun handle_rows :: "'s row_handler \<Rightarrow> outbox_row list \<Rightarrow> 's \<Rightarrow> (io_error + unit) \<times> 's" where
  "handle_rows H [] s = (Inr (), s)"
| "handle_rows H (row # rows) s =
    (if row_payload row = [] then handle_rows H rows s
     else (case H row s of
         (Inl err, s1) \<Rightarrow> (Inl err, s1)
       | (Inr _, s1) \<Rightarrow> handle_rows H rows s1))"

definition handle_outbox_message :: "canal_envelope decoder \<Rightarrow> 's row_handler \<Rightarrow> string \<Rightarrow> 's \<Rightarrow> (io_error + unit) \<times> 's" where
  "handle_outbox_message dec H value s = (case extract_rows dec value of
      Inl err \<Rightarrow> (Inl err, s)
    | Inr rows \<Rightarrow> handle_rows H rows s)"

text \<open>
  The loop counts attempts from 1 to \<open>maxRetries\<close>; \<open>k\<close> attempts are left. The
  wait between two attempts answers \<open>False\<close> when the context is done.
\<close>

fun attempts :: "('s \<Rightarrow> (io_error + unit) \<times> 's) \<Rightarrow> ('s \<Rightarrow> bool \<times> 's) \<Rightarrow> nat \<Rightarrow> 's \<Rightarrow> (io_error + unit) \<times> 's" where
  "attempts h wait 0 s = (Inr (), s)"
| "attempts h wait (Suc k) s =
    (case h s of
       (Inr u, s1) \<Rightarrow> (Inr u, s1)
     | (Inl err, s1) \<Rightarrow>
         (if k = 0 then (Inl err, s1)
          else (case wait s1 of
              (False, s2) \<Rightarrow> (Inl err, s2)
            | (True, s2) \<Rightarrow> attempts h wait k s2)))"

record 's outbox_consumer =
  oc_envelope :: "canal_envelope decoder"
  oc_handler :: "'s row_handler"
  oc_recorder :: "(string \<Rightarrow> string \<Rightarrow> string \<Rightarrow> io_error \<Rightarrow> 's \<Rightarrow> io_error option \<times> 's) option"
  oc_commit :: "outbox_message \<Rightarrow> 's \<Rightarrow> io_error option \<times> 's"
  oc_wait :: "'s \<Rightarrow> bool \<times> 's"

definition max_retries :: nat where "max_retries = 3"

definition handle_message_with_retry :: "'s outbox_consumer \<Rightarrow> outbox_message \<Rightarrow> 's \<Rightarrow> (io_error + unit) \<times> 's" where
  "handle_message_with_retry c msg =
    attempts (handle_outbox_message (oc_envelope c) (oc_handler c) (om_value msg)) (oc_wait c) max_retries"

definition record_failed_message :: "'s outbox_consumer \<Rightarrow> outbox_message \<Rightarrow> io_error \<Rightarrow> 's \<Rightarrow> 's" where
  "record_failed_message c msg err s = (case oc_recorder c of
      None \<Rightarrow> s
    | Some create \<Rightarrow> snd (create ''canal-outbox'' [] (om_value msg) err s))"

text \<open>One turn of the loop of \<open>Start\<close>, after a message was fetched.\<close>

definition consume_message :: "'s outbox_consumer \<Rightarrow> outbox_message \<Rightarrow> 's \<Rightarrow> 's" where
  "consume_message c msg s = (case handle_message_with_retry c msg s of
      (Inl err, s1) \<Rightarrow> snd (oc_commit c msg (record_failed_message c msg err s1))
    | (Inr _, s1) \<Rightarrow> snd (oc_commit c msg s1))"

end
