(* ===== verification/Outbox_Poll.thy ===== *)
theory Outbox_Poll
  imports Outbox_Transport
begin

text \<open>
  The bridge never acknowledges what it did not write; the consumers that poll the
  outbox table (\<open>poll_consumer.go\<close>, \<open>direct_poll.go\<close>) and its cleaner (\<open>cleaner.go\<close>).
\<close>

section \<open>Canal and Kafka behind the bridge\<close>

text \<open>
  A write without error appends the batch; one with an error may have appended some
  of it. An acknowledgement with an error may or may not have arrived.
\<close>

locale canal_kafka =
  fixes B :: "'s bridge" and topic :: "'s \<Rightarrow> outbox_message list" and acked :: "'s \<Rightarrow> int set"
  assumes wrote: "br_write B ms s = (None, s') \<Longrightarrow> topic s' = topic s @ ms \<and> acked s' = acked s"
    and write_failed: "br_write B ms s = (Some e, s') \<Longrightarrow>
      (\<exists>part. set part \<subseteq> set ms \<and> topic s' = topic s @ part) \<and> acked s' = acked s"
    and ack: "br_ack B i s = (r, s') \<Longrightarrow>
      topic s' = topic s \<and> acked s' \<in> {acked s, insert i (acked s)} \<and> (r = None \<longrightarrow> i \<in> acked s')"
    and rolled_back: "br_rollback B i s = (r, s') \<Longrightarrow> topic s' = topic s \<and> acked s' = acked s"

lemma keyed_values: "keyed_messages B bodies = Inr ms \<Longrightarrow> map om_value ms = bodies"
  by (induction bodies arbitrary: ms) (auto split: sum.splits)

context canal_kafka
begin

lemma rollback_keeps:
  "rollback_or_panic B i e s = (r, s') \<Longrightarrow> topic s' = topic s \<and> acked s' = acked s \<and> r \<noteq> Forwarded"
  using rolled_back[of i s] by (auto simp: rollback_or_panic_def split: prod.splits option.splits)

lemma ack_result:
  "ack_batch B i s = (r, s') \<Longrightarrow> topic s' = topic s \<and> acked s' \<in> {acked s, insert i (acked s)} \<and> (r = Forwarded \<longrightarrow> i \<in> acked s')"
  using ack[of i s] by (auto simp: ack_batch_def split: prod.splits option.splits)

lemma forward_safe:
  assumes "forward_batch B i es s = (r, s')" "i \<notin> acked s"
  shows "(i \<in> acked s' \<longrightarrow> (\<exists>ms. parse_entries (br_unproto B) es = Inr (map om_value ms) \<and>
      keyed_messages B (map om_value ms) = Inr ms \<and> topic s' = topic s @ ms)) \<and> (r = Forwarded \<longrightarrow> i \<in> acked s')"
proof (cases "parse_entries (br_unproto B) es")
  case (Inl e)
  with assms rollback_keeps show ?thesis by (auto simp: forward_batch_def)
next
  case bodies: (Inr bodies)
  show ?thesis
  proof (cases "bodies = []")
    case True
    then have "ack_batch B i s = (r, s')" using assms(1) bodies by (simp add: forward_batch_def)
    from ack_result[OF this] bodies True show ?thesis by (auto intro: exI[of _ "[]"])
  next
    case False
    show ?thesis
    proof (cases "keyed_messages B bodies")
      case (Inl e)
      with assms bodies False rollback_keeps show ?thesis by (auto simp: forward_batch_def)
    next
      case ms: (Inr ms)
      note v = keyed_values[OF ms]
      obtain w s1 where w: "br_write B ms s = (w, s1)" by (cases "br_write B ms s")
      show ?thesis
      proof (cases w)
        case None
        then have a: "ack_batch B i s1 = (r, s')" using assms(1) bodies False ms w by (simp add: forward_batch_def)
        from ack_result[OF a] wrote[OF w[unfolded None]] bodies ms v show ?thesis by auto
      next
        case (Some e)
        then have a: "rollback_or_panic B i e s1 = (r, s')" using assms(1) bodies False ms w by (simp add: forward_batch_def)
        from rollback_keeps[OF a] write_failed[OF w[unfolded Some]] assms(2) show ?thesis by simp
      qed
    qed
  qed
qed

end

text \<open>A Canal connection and a topic in memory; the list holds what the next calls answer.\<close>

type_synonym wire = "outbox_message list \<times> int set \<times> io_error option list"

definition next_answer :: "io_error option list \<Rightarrow> io_error option \<times> io_error option list" where
  "next_answer fs = (case fs of [] \<Rightarrow> (None, []) | f # r \<Rightarrow> (f, r))"

definition mem_bridge :: "(string \<Rightarrow> io_error + row_change) \<Rightarrow> canal_envelope decoder \<Rightarrow> (uint64 \<times> uint64) decoder \<Rightarrow> wire bridge" where
  "mem_bridge unproto env users = \<lparr>br_unproto = unproto, br_envelope = env, br_post = (\<lambda>_. Inl (IoError [])), br_follow = users,
     br_ack = (\<lambda>i (t, a, fs). case next_answer fs of (None, r) \<Rightarrow> (None, (t, insert i a, r)) | (Some e, r) \<Rightarrow> (Some e, (t, a, r))),
     br_rollback = (\<lambda>i (t, a, fs). case next_answer fs of (f, r) \<Rightarrow> (f, (t, a, r))),
     br_write = (\<lambda>ms (t, a, fs). case next_answer fs of (None, r) \<Rightarrow> (None, (t @ ms, a, r)) | (Some e, r) \<Rightarrow> (Some e, (t @ take 1 ms, a, r)))\<rparr>"

interpretation mem_wire: canal_kafka "mem_bridge unproto env users" fst "\<lambda>w. fst (snd w)" for unproto env users
proof
  show "br_write (mem_bridge unproto env users) ms s = (Some e, s') \<Longrightarrow>
      (\<exists>part. set part \<subseteq> set ms \<and> fst s' = fst s @ part) \<and> fst (snd s') = fst (snd s)" for ms s e s'
    by (auto simp: mem_bridge_def split: prod.splits option.splits dest: in_set_takeD)
qed (auto simp: mem_bridge_def split: prod.splits option.splits)

section \<open>Polling the table\<close>

record poll_row =
  pr_id :: uint64
  pr_aggregate_type :: string
  pr_aggregate_id :: "uint64 option"
  pr_type :: string
  pr_payload :: string
  pr_created :: int

record 's poll_consumer =
  pc_db :: "(poll_row list, 's) database"
  pc_topic :: string
  pc_handler :: "'s row_handler"
  pc_batch :: nat
  pc_done :: "'s \<Rightarrow> bool"

definition new_poll_consumer ::
  "(poll_row list, 's) database option \<Rightarrow> string \<Rightarrow> 's row_handler option \<Rightarrow> int \<Rightarrow> ('s \<Rightarrow> bool) \<Rightarrow> 's poll_consumer option" where
  "new_poll_consumer db topic handler batch_size ctx_done = (case (db, handler) of
      (Some D, Some H) \<Rightarrow> Some \<lparr>pc_db = D, pc_topic = topic, pc_handler = H,
         pc_batch = nat (if batch_size \<le> 0 then 100 else batch_size), pc_done = ctx_done\<rparr>
    | _ \<Rightarrow> None)"

definition poll_sql :: "string \<Rightarrow> uint64 \<Rightarrow> nat \<Rightarrow> poll_row list \<Rightarrow> poll_row list" where
  "poll_sql topic after n rows = take n (sort_key pr_id (filter (\<lambda>r. pr_type r = topic \<and> after < pr_id r) rows))"

text \<open>The driver cannot scan a \<open>NULL\<close> aggregate id into a string: the whole select fails.\<close>

definition poll :: "'s poll_consumer \<Rightarrow> uint64 \<Rightarrow> 's \<Rightarrow> (io_error + poll_row list) \<times> 's" where
  "poll c after s = (case db_read (pc_db c) (poll_sql (pc_topic c) after (pc_batch c)) s of
      (Inl e, s1) \<Rightarrow> (Inl e, s1)
    | (Inr rows, s1) \<Rightarrow>
        (if list_ex (\<lambda>r. pr_aggregate_id r = None) rows
         then (Inl (IoError ''converting NULL to string is unsupported''), s1) else (Inr rows, s1)))"

definition delete_polled :: "'s poll_consumer \<Rightarrow> uint64 \<Rightarrow> 's \<Rightarrow> (io_error + unit) \<times> 's" where
  "delete_polled c i s = db_write (pc_db c) (\<lambda>rows. ((), filter (\<lambda>r. pr_id r \<noteq> i) rows)) s"

definition polled_row :: "poll_row \<Rightarrow> outbox_row" where
  "polled_row r = \<lparr>row_aggregate_type = pr_aggregate_type r,
     row_aggregate_id = (case pr_aggregate_id r of None \<Rightarrow> [] | Some i \<Rightarrow> format_uint i),
     row_type = pr_type r, row_payload = pr_payload r\<rparr>"

text \<open>The rows of one poll; the first component is \<open>False\<close> when the context is done.\<close>

fun handle_polled :: "'s poll_consumer \<Rightarrow> poll_row list \<Rightarrow> uint64 \<Rightarrow> 's \<Rightarrow> (bool \<times> uint64) \<times> 's" where
  "handle_polled c [] last_id s = ((True, last_id), s)"
| "handle_polled c (r # rs) last_id s =
    (if pc_done c s then ((False, last_id), s)
     else (case pc_handler c (polled_row r) s of
         (Inl e, s1) \<Rightarrow> handle_polled c rs last_id s1
       | (Inr _, s1) \<Rightarrow> handle_polled c rs (pr_id r) (snd (delete_polled c (pr_id r) s1))))"

text \<open>One turn of the loop of \<open>Start\<close>; waiting only passes time.\<close>

definition poll_turn :: "'s poll_consumer \<Rightarrow> uint64 \<Rightarrow> 's \<Rightarrow> (bool \<times> uint64) \<times> 's" where
  "poll_turn c last_id s = (case poll c last_id s of
      (Inl e, s1) \<Rightarrow> ((\<not> pc_done c s1, last_id), s1)
    | (Inr rows, s1) \<Rightarrow> (if rows = [] then ((\<not> pc_done c s1, last_id), s1) else handle_polled c rows last_id s1))"

text \<open>What the handler answers to each row of a pass, as long as the context lives.\<close>

fun poll_answers :: "'s poll_consumer \<Rightarrow> poll_row list \<Rightarrow> 's \<Rightarrow> bool list" where
  "poll_answers c [] s = []"
| "poll_answers c (r # rs) s =
    (if pc_done c s then []
     else (case pc_handler c (polled_row r) s of
         (Inl e, s1) \<Rightarrow> False # poll_answers c rs s1
       | (Inr _, s1) \<Rightarrow> True # poll_answers c rs (snd (delete_polled c (pr_id r) s1))))"

lemma length_poll_answers: "length (poll_answers c rows s) \<le> length rows"
  by (induction rows arbitrary: s) (auto split: prod.splits sum.splits)

text \<open>The position the pass ends at is that of its last success.\<close>

lemma handle_polled_last:
  "handle_polled c rows last_id s = ((g, l), s') \<Longrightarrow>
   (\<forall>j < length (poll_answers c rows s). poll_answers c rows s ! j \<longrightarrow> j < length rows \<and> sorted_wrt (<) (last_id # map pr_id rows) \<longrightarrow>
     pr_id (rows ! j) \<le> l) \<and> (sorted_wrt (<) (last_id # map pr_id rows) \<longrightarrow> last_id \<le> l)"
proof (induction rows arbitrary: last_id s)
  case Nil
  then show ?case by simp
next
  case (Cons r rows)
  show ?case
  proof (cases "pc_done c s")
    case True
    with Cons.prems show ?thesis by simp
  next
    case False
    obtain q s1 where h: "pc_handler c (polled_row r) s = (q, s1)" by (cases "pc_handler c (polled_row r) s")
    show ?thesis
    proof (cases q)
      case (Inl e)
      with Cons.prems False h have "handle_polled c rows last_id s1 = ((g, l), s')" by simp
      from Cons.IH[OF this] False h Inl show ?thesis by (auto simp: nth_Cons split: nat.splits)
    next
      case (Inr u)
      with Cons.prems False h have "handle_polled c rows (pr_id r) (snd (delete_polled c (pr_id r) s1)) = ((g, l), s')" by simp
      from Cons.IH[OF this] False h Inr show ?thesis by (auto simp: nth_Cons split: nat.splits)
    qed
  qed
qed

lemma poll_sql_above: "r \<in> set (poll_sql topic after n rows) \<Longrightarrow> after < pr_id r"
  by (auto simp: poll_sql_def dest: in_set_takeD)

lemma poll_sql_sorted:
  assumes "distinct (map pr_id rows)"
  shows "sorted_wrt (<) (after # map pr_id (poll_sql topic after n rows))"
proof -
  let ?rs = "sort_key pr_id (filter (\<lambda>r. pr_type r = topic \<and> after < pr_id r) rows)"
  have "sorted (map pr_id ?rs)" by simp
  moreover have "distinct (map pr_id ?rs)" using assms by (simp add: distinct_map inj_on_def)
  ultimately have "sorted_wrt (<) (map pr_id ?rs)" by (simp add: strict_sorted_iff)
  then have "sorted_wrt (<) (map pr_id (poll_sql topic after n rows))" by (simp add: poll_sql_def sorted_wrt_take take_map[symmetric])
  then show ?thesis using poll_sql_above by auto
qed

text \<open>A row without an aggregate id, as every unfollow writes one, blocks its topic.\<close>

lemma poll_null_fails:
  assumes "r \<in> set (poll_sql (pc_topic c) after (pc_batch c) (db_tables (pc_db c) s))" "pr_aggregate_id r = None"
    and "sql_database (pc_db c)" "poll c after s = (q, s')"
  shows "\<exists>e. q = Inl e"
proof -
  obtain f s1 where f: "db_stmt (pc_db c) s = (f, s1)" by (cases "db_stmt (pc_db c) s")
  then have "db_tables (pc_db c) s1 = db_tables (pc_db c) s" using sql_database.stmt_keeps[OF assms(3), of s] by simp
  then show ?thesis using assms f by (cases f) (auto simp: poll_def db_read_def list_ex_iff split: if_splits)
qed

section \<open>The direct poller\<close>

text \<open>
  \<open>pollOnce\<close> gets its query as an argument; what the cursor yields is the list
  (\<open>None\<close>: the row could not be scanned) and how the cursor ended.
\<close>

record 's direct_poller =
  dp_query :: "uint64 \<Rightarrow> 's \<Rightarrow> (io_error + ((uint64 \<times> string) option list \<times> io_error option)) \<times> 's"
  dp_delete :: "uint64 \<Rightarrow> 's \<Rightarrow> (io_error + unit) \<times> 's"
  dp_handler :: "'s row_handler"

fun direct_rows :: "'s direct_poller \<Rightarrow> (uint64 \<times> string) option list \<Rightarrow> uint64 \<Rightarrow> 's \<Rightarrow> uint64 \<times> 's" where
  "direct_rows c [] last_id s = (last_id, s)"
| "direct_rows c (None # rs) last_id s = direct_rows c rs last_id s"
| "direct_rows c (Some (i, payload) # rs) last_id s =
    (case dp_handler c \<lparr>row_aggregate_type = [], row_aggregate_id = [], row_type = [], row_payload = payload\<rparr> s of
       (Inl e, s1) \<Rightarrow> direct_rows c rs last_id s1
     | (Inr _, s1) \<Rightarrow> direct_rows c rs i (snd (dp_delete c i s1)))"

definition poll_once :: "'s direct_poller \<Rightarrow> uint64 \<Rightarrow> 's \<Rightarrow> (io_error option \<times> uint64) \<times> 's" where
  "poll_once c last_id s = (case dp_query c last_id s of
      (Inl e, s1) \<Rightarrow> ((Some e, last_id), s1)
    | (Inr (rows, ended), s1) \<Rightarrow> (let (l, s2) = direct_rows c rows last_id s1 in ((ended, l), s2)))"

text \<open>
  The row it hands out has neither a type nor an aggregate type, so the handler of
  the relation events ignores every event and the poller deletes it.
\<close>

lemma direct_poll_drops_follow_event:
  assumes "dp_handler c = relation_handle_row unmarshal p now"
  shows "direct_rows c (Some (i, payload) # rs) last_id s = direct_rows c rs i (snd (dp_delete c i s))"
  using assms by (simp add: relation_handle_row_def)

section \<open>The cleaner\<close>

definition delete_expired :: "int \<Rightarrow> nat \<Rightarrow> poll_row list \<Rightarrow> nat \<times> poll_row list" where
  "delete_expired cutoff n rows =
    (let old = take n (filter (\<lambda>r. pr_created r < cutoff) rows) in (length old, filter (\<lambda>r. r \<notin> set old) rows))"

text \<open>
  The loop of \<open>cleanOnce\<close>. The result is the number of deleted rows, with
  \<open>False\<close> when an error or the end of the context stopped it.
\<close>

partial_function (option) clean_loop ::
  "(poll_row list, 's) database \<Rightarrow> int \<Rightarrow> nat \<Rightarrow> ('s \<Rightarrow> bool \<times> 's) \<Rightarrow> nat \<Rightarrow> 's \<Rightarrow> ((bool \<times> nat) \<times> 's) option" where
  "clean_loop D cutoff n wait deleted s = (case db_write D (delete_expired cutoff n) s of
      (Inl e, s1) \<Rightarrow> Some ((False, deleted), s1)
    | (Inr k, s1) \<Rightarrow>
        (if k < n then Some ((True, deleted + k), s1)
         else (case wait s1 of (go_on, s2) \<Rightarrow>
             if go_on then clean_loop D cutoff n wait (deleted + k) s2 else Some ((False, deleted + k), s2))))"

definition clean_once ::
  "(poll_row list, 's) database \<Rightarrow> int \<Rightarrow> nat \<Rightarrow> ('s \<Rightarrow> bool \<times> 's) \<Rightarrow> int \<Rightarrow> 's \<Rightarrow> ((bool \<times> nat) \<times> 's) option" where
  "clean_once D retention n wait now s = clean_loop D (now - retention) n wait 0 s"

definition cleaner_retention :: "int \<Rightarrow> int" where
  "cleaner_retention r = (if r \<le> 0 then 7 * 24 * 3600000 else r)"

definition cleaner_batch :: "int \<Rightarrow> nat" where
  "cleaner_batch b = nat (if b \<le> 0 then 1000 else b)"

definition expired :: "int \<Rightarrow> poll_row list \<Rightarrow> poll_row list" where
  "expired cutoff rows = filter (\<lambda>r. pr_created r < cutoff) rows"

definition kept :: "int \<Rightarrow> poll_row list \<Rightarrow> poll_row list" where
  "kept cutoff rows = filter (\<lambda>r. \<not> pr_created r < cutoff) rows"

lemma filter_notin_prefix: "distinct (xs @ ys) \<Longrightarrow> filter (\<lambda>x. x \<notin> set xs) (xs @ ys) = ys"
  by (auto simp: filter_empty_conv intro!: filter_True)

lemma delete_expired_result:
  assumes "delete_expired cutoff n rows = (k, rows')" "distinct rows"
  shows "distinct rows'" "kept cutoff rows' = kept cutoff rows" "k = min n (length (expired cutoff rows))"
    "length (expired cutoff rows') = length (expired cutoff rows) - k" "set rows' \<subseteq> set rows"
proof -
  let ?old = "take n (expired cutoff rows)"
  have e: "k = length ?old" "rows' = filter (\<lambda>r. r \<notin> set ?old) rows"
    using assms(1) by (simp_all add: delete_expired_def Let_def expired_def)
  have sub: "set ?old \<subseteq> {r. pr_created r < cutoff}" by (auto simp: expired_def dest: in_set_takeD)
  have d: "distinct (expired cutoff rows)" using assms(2) by (simp add: expired_def)
  show "distinct rows'" "set rows' \<subseteq> set rows" using assms(2) by (auto simp: e)
  show "kept cutoff rows' = kept cutoff rows" using sub by (auto simp: e kept_def filter_filter intro!: filter_cong)
  show "k = min n (length (expired cutoff rows))" by (simp add: e(1) min.commute)
  have "expired cutoff rows' = filter (\<lambda>r. r \<notin> set ?old) (expired cutoff rows)"
    by (simp add: e expired_def filter_filter conj_commute)
  also have "\<dots> = drop n (expired cutoff rows)"
    using filter_notin_prefix[of ?old "drop n (expired cutoff rows)"] d by simp
  finally show "length (expired cutoff rows') = length (expired cutoff rows) - k" by (simp add: e(1))
qed

context sql_database
begin

lemma db_write_result:
  assumes "db_write D f s = (r, s')"
  shows "(case r of Inl e \<Rightarrow> db_tables D s' \<in> {db_tables D s, snd (f (db_tables D s))}
    | Inr a \<Rightarrow> (a, db_tables D s') = f (db_tables D s))"
  using assms committed commit_failed by (auto simp: db_write_def split: prod.splits option.splits)

end

text \<open>While the cleaner waits, other clients may insert rows that are not expired, or delete some.\<close>

lemma clean_loop_ends:
  assumes "0 < n" "\<And>s. distinct (db_tables D s) \<Longrightarrow> distinct (db_tables D (snd (wait s)))"
    and "\<And>s. length (expired cutoff (db_tables D (snd (wait s)))) \<le> length (expired cutoff (db_tables D s))"
    and "distinct (db_tables D s)" "sql_database D"
  shows "\<exists>b k s'. clean_loop D cutoff n wait deleted s = Some ((b, k), s') \<and> (b \<longrightarrow> expired cutoff (db_tables D s') = [])"
  using assms(4)
proof (induction "length (expired cutoff (db_tables D s))" arbitrary: s deleted rule: less_induct)
  case less
  obtain r s1 where w: "db_write D (delete_expired cutoff n) s = (r, s1)" by (cases "db_write D (delete_expired cutoff n) s")
  show ?case
  proof (cases r)
    case (Inl e)
    then show ?thesis using w by (subst clean_loop.simps) (simp add: ex_bool_eq)
  next
    case (Inr k)
    from sql_database.db_write_result[OF assms(5) w] Inr have d: "delete_expired cutoff n (db_tables D s) = (k, db_tables D s1)" by simp
    note res = delete_expired_result[OF d less.prems]
    show ?thesis
    proof (cases "k < n")
      case True
      then have "expired cutoff (db_tables D s1) = []" using res(3,4) by simp
      then show ?thesis using w Inr True by (subst clean_loop.simps) (simp add: ex_bool_eq)
    next
      case False
      obtain b s2 where b: "wait s1 = (b, s2)" by (cases "wait s1")
      show ?thesis
      proof (cases b)
        case False: False
        then show ?thesis using w Inr b \<open>\<not> k < n\<close> by (subst clean_loop.simps) (simp add: ex_bool_eq)
      next
        case True
        have "length (expired cutoff (db_tables D s2)) < length (expired cutoff (db_tables D s))"
          using assms(1) assms(3)[of s1] b res(3,4) False by simp
        moreover have "distinct (db_tables D s2)" using assms(2)[of s1] b res(1) by simp
        ultimately show ?thesis
          using less.hyps[of s2 "deleted + k"] w Inr b True False by (subst clean_loop.simps) simp
      qed
    qed
  qed
qed

section \<open>Properties\<close>

text \<open>
  C15: the bridge moves the position of the binlog past a batch only after all
  messages of the batch, in their order and with their keys, were appended to the
  topic; whatever fails, a batch that is not acknowledged comes again.
\<close>

theorem bridge_acks_after_write:
  assumes "canal_kafka B topic acked" "forward_batch B i es s = (r, s')" "i \<notin> acked s"
  shows "(i \<in> acked s' \<longrightarrow> (\<exists>ms. parse_entries (br_unproto B) es = Inr (map om_value ms) \<and>
      keyed_messages B (map om_value ms) = Inr ms \<and> topic s' = topic s @ ms)) \<and> (r = Forwarded \<longrightarrow> i \<in> acked s')"
  by (rule canal_kafka.forward_safe[OF assms])

text \<open>The write fails after its first message, then the rollback works.\<close>

theorem bridge_acks_after_write_witness:
  "let (r, (topic, acked, _)) = forward_batch (mem_bridge (\<lambda>_. Inr \<lparr>ch_event = InsertEvent, ch_rows = [[]]\<rparr>)
       (\<lambda>_. Inr \<lparr>en_table = ''outbox'', en_type = ''INSERT'', en_data = []\<rparr>) (\<lambda>_. Inl (IoError [])))
       7 [\<lparr>et_rowdata = True, et_table = ''outbox'', et_store = []\<rparr>] ([], {}, [Some (IoError ''down'')])
   in r \<noteq> Forwarded \<or> 7 \<in> acked"
proof -
  let ?B = "mem_bridge (\<lambda>_. Inr \<lparr>ch_event = InsertEvent, ch_rows = [[]]\<rparr>)
       (\<lambda>_. Inr \<lparr>en_table = ''outbox'', en_type = ''INSERT'', en_data = []\<rparr>) (\<lambda>_. Inl (IoError []))"
  let ?es = "[\<lparr>et_rowdata = True, et_table = ''outbox'', et_store = []\<rparr>]"
  obtain r t a fs where f: "forward_batch ?B 7 ?es ([], {}, [Some (IoError ''down'')]) = (r, (t, a, fs))"
    by (cases "forward_batch ?B 7 ?es ([], {}, [Some (IoError ''down'')])") auto
  from bridge_acks_after_write[OF mem_wire.canal_kafka_axioms f] show ?thesis by (auto simp: f)
qed

text \<open>
  C17: a pass of the polling consumer remembers the id of the last row it handled.
  A row whose handler failed is never read again once a later row of the pass
  succeeded, although it stays in the table.
\<close>

theorem poll_skips_failed_row:
  assumes "distinct (map pr_id tab)" "rows = poll_sql (pc_topic c) last_id (pc_batch c) tab"
    and "handle_polled c rows last_id s = ((g, l), s')" "i < j" "j < length (poll_answers c rows s)"
    and "\<not> poll_answers c rows s ! i" "poll_answers c rows s ! j" "l \<le> later"
  shows "rows ! i \<in> set tab \<and> rows ! i \<notin> set (poll_sql (pc_topic c) later n tab')"
proof -
  have len: "j < length rows" using assms(5) length_poll_answers[of c rows s] by simp
  note sorted = poll_sql_sorted[OF assms(1), of last_id "pc_topic c" "pc_batch c", folded assms(2)]
  have "pr_id (rows ! j) \<le> l" using handle_polled_last[OF assms(3)] assms(5,7) len sorted by blast
  moreover have "pr_id (rows ! i) < pr_id (rows ! j)"
    using sorted assms(4) len by (simp add: sorted_wrt_nth_less[of "(<)" "map pr_id rows" i j, simplified])
  ultimately have "rows ! i \<notin> set (poll_sql (pc_topic c) later n tab')"
    using poll_sql_above assms(8) by fastforce
  moreover have "rows ! i \<in> set rows" using assms(4) len by simp
  ultimately show ?thesis unfolding assms(2) by (auto simp: poll_sql_def dest: in_set_takeD)
qed

definition two_rows :: "poll_row list" where
  "two_rows = map (\<lambda>i. \<lparr>pr_id = i, pr_aggregate_type = ''following'', pr_aggregate_id = Some i, pr_type = ''t'',
     pr_payload = ''p'', pr_created = 0\<rparr>) [1, 2]"

definition picky_poller :: "(unit \<times> poll_row list store) poll_consumer" where
  "picky_poller = \<lparr>pc_db = stored_db, pc_topic = ''t'',
     pc_handler = (\<lambda>row s. (if row_aggregate_id row = format_uint 1 then Inl (IoError []) else Inr (), s)),
     pc_batch = 10, pc_done = (\<lambda>_. False)\<rparr>"

theorem poll_skips_failed_row_witness:
  "two_rows ! 0 \<notin> set (poll_sql ''t'' 2 10 two_rows)"
proof -
  have p: "poll_sql ''t'' 0 10 two_rows = two_rows" by code_simp
  let ?s = "((), (two_rows, []))"
  obtain g l s' where h: "handle_polled picky_poller two_rows 0 ?s = ((g, l), s')"
    by (cases "handle_polled picky_poller two_rows 0 ?s") auto
  have a: "poll_answers picky_poller two_rows ?s = [False, True]"
    by (simp add: two_rows_def picky_poller_def polled_row_def)
  have l: "l = 2" using h by (simp add: two_rows_def picky_poller_def polled_row_def)
  have d: "distinct (map pr_id two_rows)" by (simp add: two_rows_def)
  have sel: "pc_topic picky_poller = ''t''" "pc_batch picky_poller = 10" by (simp_all add: picky_poller_def)
  from poll_skips_failed_row[OF d _ h, of 0 1 2 10 two_rows] a l p sel show ?thesis by simp
qed

text \<open>
  C16: a round of the cleaner ends, whatever the statements answer and whatever
  unexpired rows are inserted meanwhile; if it ends without an error no expired row
  is left, and one deletion removes only expired rows.
\<close>

theorem clean_once_ends:
  assumes "sql_database D" "distinct (db_tables D s)" "\<And>s. distinct (db_tables D s) \<Longrightarrow> distinct (db_tables D (snd (wait s)))"
    and "\<And>s. length (expired (now - retention) (db_tables D (snd (wait s)))) \<le> length (expired (now - retention) (db_tables D s))"
  shows "(\<exists>b k s'. clean_once D retention (cleaner_batch batch) wait now s = Some ((b, k), s') \<and>
      (b \<longrightarrow> expired (now - retention) (db_tables D s') = [])) \<and>
    kept (now - retention) (snd (delete_expired (now - retention) (cleaner_batch batch) (db_tables D s))) = kept (now - retention) (db_tables D s)"
proof
  have "0 < cleaner_batch batch" by (simp add: cleaner_batch_def)
  from clean_loop_ends[OF this assms(3,4,2,1)]
  show "\<exists>b k s'. clean_once D retention (cleaner_batch batch) wait now s = Some ((b, k), s') \<and>
      (b \<longrightarrow> expired (now - retention) (db_tables D s') = [])"
    by (simp add: clean_once_def)
  show "kept (now - retention) (snd (delete_expired (now - retention) (cleaner_batch batch) (db_tables D s))) = kept (now - retention) (db_tables D s)"
    using delete_expired_result(2)[OF prod.collapse[symmetric] assms(2)] by simp
qed

theorem clean_once_ends_witness:
  "\<exists>b k s'. clean_once stored_db 5 (cleaner_batch 1) (\<lambda>s. (True, s)) 10 ((), (two_rows, [])) = Some ((b, k), s')"
proof -
  have "distinct (db_tables stored_db ((), (two_rows, [])))" by (simp add: two_rows_def)
  from clean_once_ends[OF stored.sql_database_axioms this, of "\<lambda>s. (True, s)" 10 5 1] show ?thesis by auto
qed

end
