(* ===== verification/Relation_Bucket.thy ===== *)
theory Relation_Bucket
  imports Relation_Follow
begin

text \<open>
  The token bucket of the follows: the script refines a bucket of numbers, and over any
  calls the allowed ones are bounded by the capacity and the time that passed. The script
  lets its key live for a minute after each call that it allows; time passes between the
  calls in milliseconds, and when the minute is over the key is gone and the bucket full.
\<close>

section \<open>The bucket\<close>

text \<open>The bucket holds the time of the last call and the tokens left; a new one is full.\<close>

definition bucket_step :: "int \<Rightarrow> int \<Rightarrow> int \<Rightarrow> (int \<times> int) option \<Rightarrow> bool \<times> (int \<times> int)" where
  "bucket_step capacity rate now b =
    (let (l, t0) = (case b of None \<Rightarrow> (now, capacity) | Some x \<Rightarrow> x);
         t = min capacity (t0 + (now - l) * rate)
     in if t < 1 then (False, (now, t)) else (True, (now, t - 1)))"

definition bucket_of :: "string \<Rightarrow> keyspace \<Rightarrow> (int \<times> int) option option" where
  "bucket_of k ks = (case (ks_hash ks k ''last'', ks_hash ks k ''tokens'') of
      (None, _) \<Rightarrow> Some None
    | (Some l, Some t) \<Rightarrow> Some (Some (l, t))
    | (Some l, None) \<Rightarrow> None)"

text \<open>What the passing of some milliseconds does to one key.\<close>

definition ks_pass :: "int \<Rightarrow> string \<Rightarrow> keyspace \<Rightarrow> keyspace" where
  "ks_pass d k ks = (case ks_ttl ks k of None \<Rightarrow> ks
     | Some n \<Rightarrow> if n \<le> d then ks_expired k ks else ks\<lparr>ks_ttl := (ks_ttl ks)(k := Some (n - d))\<rparr>)"

definition passes_time :: "('s \<Rightarrow> keyspace) \<Rightarrow> string \<Rightarrow> (int \<Rightarrow> 's \<Rightarrow> 's) \<Rightarrow> bool" where
  "passes_time view k pass = (\<forall>d s. ks_hash (view (pass d s)) k = ks_hash (ks_pass d k (view s)) k \<and>
     ks_ttl (view (pass d s)) k = ks_ttl (ks_pass d k (view s)) k)"

text \<open>
  The calls of one user after the given waits in milliseconds, from the time \<open>now\<close> on;
  the count of those allowed. Redis tells the script the whole seconds.
\<close>

fun follow_calls :: "'s relation_service \<Rightarrow> (int \<Rightarrow> 's \<Rightarrow> 's) \<Rightarrow> uint64 \<Rightarrow> int \<Rightarrow> int list \<Rightarrow> 's \<Rightarrow> nat \<times> 's" where
  "follow_calls S pass u now [] s = (0, s)"
| "follow_calls S pass u now (d # ds) s =
    (let (ok, s1) = follow_allowed S u ((now + d) div 1000) (pass d s); (n, s2) = follow_calls S pass u (now + d) ds s1
     in ((if ok then 1 else 0) + n, s2))"

text \<open>A bucket that was last used at \<open>l\<close> and never allowed more than it may.\<close>

definition bucket_ok :: "int \<Rightarrow> int \<Rightarrow> (int \<times> int) option \<Rightarrow> bool" where
  "bucket_ok capacity now b = (case b of None \<Rightarrow> True | Some (l, t) \<Rightarrow> l \<le> now \<and> 0 \<le> t \<and> t \<le> capacity)"

definition bucket_room :: "int \<Rightarrow> int \<Rightarrow> int \<Rightarrow> (int \<times> int) option \<Rightarrow> int" where
  "bucket_room capacity rate now b = (case b of None \<Rightarrow> capacity | Some (l, t) \<Rightarrow> min capacity (t + (now - l) * rate))"

lemma bucket_step_ok:
  assumes "bucket_step capacity rate now b = (ok, b')" "bucket_ok capacity now b" "0 \<le> rate" "0 < capacity"
  shows "bucket_ok capacity now (Some b')" "fst b' = now" "snd b' + (if ok then 1 else 0) = bucket_room capacity rate now b"
proof -
  have "0 \<le> bucket_room capacity rate now b"
    using assms(2-4) by (auto simp: bucket_ok_def bucket_room_def split: option.splits)
  moreover have "bucket_step capacity rate now b = (if bucket_room capacity rate now b < 1 then (False, (now, bucket_room capacity rate now b))
      else (True, (now, bucket_room capacity rate now b - 1)))"
    using assms(4) by (cases b) (auto simp: bucket_step_def bucket_room_def Let_def min_def)
  moreover have "bucket_room capacity rate now b \<le> capacity" by (simp add: bucket_room_def split: option.split)
  ultimately show "bucket_ok capacity now (Some b')" "fst b' = now" "snd b' + (if ok then 1 else 0) = bucket_room capacity rate now b"
    using assms(1) by (auto simp: bucket_ok_def split: if_splits)
qed

lemma bucket_room_later:
  assumes "0 \<le> rate" "now \<le> now'"
  shows "bucket_room capacity rate now' b \<le> bucket_room capacity rate now b + (now' - now) * rate"
proof -
  have "0 \<le> (now' - now) * rate" using assms by simp
  then show ?thesis by (auto simp: bucket_room_def min_def algebra_simps split: option.split)
qed

text \<open>
  What a bucket may still allow within the next \<open>span\<close> milliseconds: what is in it, what
  the rate adds, and a full bucket for each time the key may go away. \<open>left\<close> is what the
  key has to live; a key that is not there will live for a minute.
\<close>

definition bucket_budget :: "int \<Rightarrow> int \<Rightarrow> int \<Rightarrow> (int \<times> int) option \<Rightarrow> int \<Rightarrow> int \<Rightarrow> int" where
  "bucket_budget capacity rate now b left span = bucket_room capacity rate (now div 1000) b +
     ((now + span) div 1000 - now div 1000) * rate + capacity * ((span + 60000 - left) div 60000)"

lemma budget_passes:
  assumes "0 \<le> rate" "0 < capacity" "0 \<le> d" "0 \<le> span"
  shows "bucket_budget capacity rate (now + d) b (left - d) span \<le> bucket_budget capacity rate now b left (d + span)"
    "0 \<le> bucket_room capacity rate (now div 1000) b \<Longrightarrow> left \<le> d \<Longrightarrow>
      bucket_budget capacity rate (now + d) None 60000 span \<le> bucket_budget capacity rate now b left (d + span)"
    "bucket_budget capacity rate (now + d) None 60000 span \<le> bucket_budget capacity rate now None 60000 (d + span)"
proof -
  have le: "now div 1000 \<le> (now + d) div 1000" using assms(3) by (simp add: zdiv_mono1)
  have e: "now + d + span = now + (d + span)" by simp
  show "bucket_budget capacity rate (now + d) b (left - d) span \<le> bucket_budget capacity rate now b left (d + span)"
    using bucket_room_later[OF assms(1) le, of capacity b] unfolding bucket_budget_def e by (simp add: algebra_simps)
  have step: "0 \<le> ((now + d) div 1000 - now div 1000) * rate" using le assms(1) by simp
  show "bucket_budget capacity rate (now + d) None 60000 span \<le> bucket_budget capacity rate now b left (d + span)"
    if "0 \<le> bucket_room capacity rate (now div 1000) b" "left \<le> d"
  proof -
    have "span div 60000 + 1 \<le> (d + span + 60000 - left) div 60000" using that(2) by linarith
    from mult_left_mono[OF this, of capacity] assms(2) step that(1) show ?thesis
      unfolding bucket_budget_def e by (simp add: bucket_room_def algebra_simps)
  qed
  have "capacity * (span div 60000) \<le> capacity * ((d + span) div 60000)"
    using assms(2,3) by (intro mult_left_mono) (simp_all add: zdiv_mono1)
  from this step
  show "bucket_budget capacity rate (now + d) None 60000 span \<le> bucket_budget capacity rate now None 60000 (d + span)"
    unfolding bucket_budget_def e by (simp add: bucket_room_def algebra_simps)
qed

lemma budget_renewed:
  assumes "0 < capacity" "left \<le> 60000"
  shows "bucket_budget capacity rate now b 60000 span \<le> bucket_budget capacity rate now b left span"
proof -
  have "span div 60000 \<le> (span + 60000 - left) div 60000" using assms(2) by (simp add: zdiv_mono1)
  from mult_left_mono[OF this, of capacity] assms(1) show ?thesis by (simp add: bucket_budget_def)
qed

section \<open>The script refines the bucket\<close>

locale follow_limit = redis_hashes "rs_redis S" view for S :: "'s relation_service" and view :: "'s \<Rightarrow> keyspace"

context follow_limit
begin

lemma script_refines:
  assumes "token_bucket_lua (rs_redis S) k capacity rate now s = (r, s')" "bucket_of k (view s) = Some b"
  shows "r = Some (if fst (bucket_step capacity rate now b) then 1 else 0)"
    "bucket_of k (view s') = Some (Some (snd (bucket_step capacity rate now b)))"
    "ks_ttl (view s') k = (if fst (bucket_step capacity rate now b) then Some 60000 else ks_ttl (view s) k)"
proof -
  let ?L = "case b of None \<Rightarrow> now | Some x \<Rightarrow> fst x" and ?T = "case b of None \<Rightarrow> capacity | Some x \<Rightarrow> snd x"
  have fields: "(case r_hget (rs_redis S) k ''last'' s of None \<Rightarrow> (Some now, Some capacity)
      | Some l \<Rightarrow> (lua_tonumber l, case r_hget (rs_redis S) k ''tokens'' s of None \<Rightarrow> None | Some t \<Rightarrow> lua_tonumber t)) = (Some ?L, Some ?T)"
    using assms(2) by (auto simp: bucket_of_def split: option.splits)
  have e: "(r, s') = (let t = min capacity (?T + (now - ?L) * rate) in
      if t < 1 then (Some 0, r_hset (rs_redis S) k ''tokens'' t (r_hset (rs_redis S) k ''last'' now s))
      else (Some 1, r_expire (rs_redis S) k 60000 (r_hset (rs_redis S) k ''tokens'' (t - 1) (r_hset (rs_redis S) k ''last'' now s))))"
    unfolding assms(1)[symmetric] token_bucket_lua_def fields by simp
  have b: "bucket_step capacity rate now b = (let t = min capacity (?T + (now - ?L) * rate) in
      if t < 1 then (False, (now, t)) else (True, (now, t - 1)))"
    by (cases b) (simp_all add: bucket_step_def split: prod.split)
  show "r = Some (if fst (bucket_step capacity rate now b) then 1 else 0)"
    "bucket_of k (view s') = Some (Some (snd (bucket_step capacity rate now b)))"
    using e unfolding b by (auto simp: Let_def bucket_of_def ks_hset_def split: if_splits)
  have there: "ks_exists k (ks_hset k f x ks)" for f x ks by (auto simp: ks_exists_def ks_hset_def fun_eq_iff)
  have kept: "ks_ttl (ks_hset k f x ks) = ks_ttl ks" for f x ks by (simp add: ks_hset_def)
  show "ks_ttl (view s') k = (if fst (bucket_step capacity rate now b) then Some 60000 else ks_ttl (view s) k)"
    using e there kept unfolding b by (auto simp: Let_def ks_expire_def split: if_splits)
qed

text \<open>The bucket of a key and what the key has to live.\<close>

definition bucket_at :: "int \<Rightarrow> int \<Rightarrow> string \<Rightarrow> (int \<times> int) option \<Rightarrow> int \<Rightarrow> 's \<Rightarrow> bool" where
  "bucket_at capacity now k b left s = (bucket_of k (view s) = Some b \<and> bucket_ok capacity (now div 1000) b \<and> left \<le> 60000 \<and>
     (if b = None then left = 60000 else ks_ttl (view s) k = Some left))"

lemma allowed_spends:
  assumes "follow_allowed S u (now div 1000) s = (ok, s')" "bucket_at capacity now (follow_limit_key u) b left s"
    and "token_bucket_params S = (capacity, rate)" "0 \<le> rate" "0 < capacity"
  shows "\<exists>b' left'. bucket_at capacity now (follow_limit_key u) b' left' s' \<and>
    (if ok then 1 else 0) + bucket_budget capacity rate now b' left' span \<le> bucket_budget capacity rate now b left span"
proof -
  let ?k = "follow_limit_key u" and ?sec = "now div 1000"
  let ?f = "token_bucket_lua (rs_redis S) ?k capacity rate ?sec"
  obtain y b' where st: "bucket_step capacity rate ?sec b = (y, b')" by (cases "bucket_step capacity rate ?sec b")
  have at: "bucket_of ?k (view s) = Some b" "bucket_ok capacity ?sec b" "left \<le> 60000"
    "b \<noteq> None \<longrightarrow> ks_ttl (view s) ?k = Some left" "b = None \<longrightarrow> left = 60000"
    using assms(2) by (auto simp: bucket_at_def split: if_splits)
  note k = bucket_step_ok[OF st at(2) assms(4,5)]
  have fresh: "b = None \<Longrightarrow> y" using st assms(5) by (auto simp: bucket_step_def Let_def split: if_splits)
  obtain t where b': "b' = (?sec, t)" using k(2) by (cases b') auto
  have t: "t \<le> capacity" using k(1) b' by (simp add: bucket_ok_def)
  define left' where "left' = (if y then 60000 else left)"
  have room: "(if y then 1 else 0) + bucket_budget capacity rate now (Some b') left' span \<le> bucket_budget capacity rate now b left span"
    using k(3) b' t budget_renewed[OF assms(5) at(3), of rate now b span]
    by (auto simp: bucket_budget_def bucket_room_def left'_def split: if_splits)
  have ran: "bucket_at capacity now ?k (Some b') left' s1" "r = Some (if y then 1 else 0)"
    if "?f s0 = (r, s1)" "view s0 = view s" for s0 r s1
  proof -
    have b0: "bucket_of ?k (view s0) = Some b" using at(1) that(2) by simp
    note sc = script_refines[OF that(1) b0, unfolded st]
    show "r = Some (if y then 1 else 0)" using sc(1) by simp
    show "bucket_at capacity now ?k (Some b') left' s1"
      using sc(2,3) k(1) at(3,4) fresh that(2) by (cases y; cases "b = None") (simp_all add: bucket_at_def left'_def)
  qed
  obtain q s1 where q: "roundtrip (rs_redis S) ?f s = (q, s1)" by (cases "roundtrip (rs_redis S) ?f s")
  have s1: "s' = s1" "ok = (\<exists>x. q = Inr (Some x) \<and> x \<noteq> 0)"
    using assms(1,3) q by (auto simp: follow_allowed_def split: sum.splits option.splits)
  from q show ?thesis
  proof (cases rule: roundtrip_cases)
    case (ok x s0)
    then show ?thesis using ran[OF ok(3,2)] s1 room by (intro exI[of _ "Some b'"] exI[of _ left']) auto
  next
    case (unsent e)
    then show ?thesis using assms(2) s1 by (intro exI[of _ b] exI[of _ left]) (auto simp: bucket_at_def)
  next
    case (lost e s0 x)
    then show ?thesis using ran(1)[OF lost(3,2)] s1 room by (intro exI[of _ "Some b'"] exI[of _ left']) (auto split: if_splits)
  qed
qed

lemma time_passes:
  assumes "passes_time view (follow_limit_key u) pass" "bucket_at capacity now (follow_limit_key u) b left s" "0 \<le> d" "0 \<le> span"
    and "0 \<le> rate" "0 < capacity"
  shows "\<exists>b' left'. bucket_at capacity (now + d) (follow_limit_key u) b' left' (pass d s) \<and>
    bucket_budget capacity rate (now + d) b' left' span \<le> bucket_budget capacity rate now b left (d + span)"
proof -
  let ?k = "follow_limit_key u"
  have p: "ks_hash (view (pass d s)) ?k = ks_hash (ks_pass d ?k (view s)) ?k" "ks_ttl (view (pass d s)) ?k = ks_ttl (ks_pass d ?k (view s)) ?k"
    using assms(1) unfolding passes_time_def by blast+
  have at: "bucket_of ?k (view s) = Some b" "bucket_ok capacity (now div 1000) b" "left \<le> 60000"
    "b \<noteq> None \<longrightarrow> ks_ttl (view s) ?k = Some left" "b = None \<longrightarrow> left = 60000"
    using assms(2) by (auto simp: bucket_at_def split: if_splits)
  note g = budget_passes(1)[OF assms(5,6,3,4), of now b left] budget_passes(2)[OF assms(5,6,3,4), of now b left]
    budget_passes(3)[OF assms(5,6,3,4), of now]
  have le: "now div 1000 \<le> (now + d) div 1000" using assms(3) by (simp add: zdiv_mono1)
  show ?thesis
  proof (cases "b = None \<or> left \<le> d")
    case True
    have "ks_hash (view (pass d s)) ?k ''last'' = None"
      using True at p by (auto simp: ks_pass_def bucket_of_def split: option.splits)
    then have "bucket_at capacity (now + d) ?k None 60000 (pass d s)" by (simp add: bucket_at_def bucket_of_def bucket_ok_def)
    moreover have "0 \<le> bucket_room capacity rate (now div 1000) b"
      using at(2) assms(5,6) by (auto simp: bucket_ok_def bucket_room_def split: option.splits)
    ultimately show ?thesis using True g(2,3) at(5) by (intro exI[of _ None] exI[of _ 60000]) auto
  next
    case False
    then have "bucket_at capacity (now + d) ?k b (left - d) (pass d s)"
      using at p assms(3) le by (auto simp: bucket_at_def bucket_of_def ks_pass_def bucket_ok_def split: option.splits)
    then show ?thesis using g(1) by blast
  qed
qed

lemma calls_bounded:
  assumes "follow_calls S pass u now ds s = (n, s')" "\<forall>d \<in> set ds. 0 \<le> d" "bucket_at capacity now (follow_limit_key u) b left s"
    and "passes_time view (follow_limit_key u) pass" "token_bucket_params S = (capacity, rate)" "0 \<le> rate" "0 < capacity"
  shows "int n \<le> bucket_budget capacity rate now b left (sum_list ds)"
  using assms(1-3)
proof (induction ds arbitrary: now s n b left)
  case Nil
  have "0 \<le> bucket_room capacity rate (now div 1000) b"
    using Nil.prems(3) assms(6,7) by (auto simp: bucket_at_def bucket_ok_def bucket_room_def split: option.splits)
  moreover have "0 \<le> (60000 - left) div 60000" using Nil.prems(3) by (simp add: bucket_at_def pos_imp_zdiv_nonneg_iff)
  ultimately show ?case using Nil.prems(1) assms(7) by (simp add: bucket_budget_def)
next
  case (Cons d ds)
  obtain ok s1 where a: "follow_allowed S u ((now + d) div 1000) (pass d s) = (ok, s1)"
    by (cases "follow_allowed S u ((now + d) div 1000) (pass d s)")
  obtain m where r: "follow_calls S pass u (now + d) ds s1 = (m, s')" and n: "n = (if ok then 1 else 0) + m"
    using Cons.prems(1) a by (auto simp: Let_def split: prod.splits)
  have d: "0 \<le> d" "\<forall>d \<in> set ds. 0 \<le> d" "0 \<le> sum_list ds" using Cons.prems(2) by (auto intro: sum_list_nonneg)
  obtain b1 left1 where 1: "bucket_at capacity (now + d) (follow_limit_key u) b1 left1 (pass d s)"
    "bucket_budget capacity rate (now + d) b1 left1 (sum_list ds) \<le> bucket_budget capacity rate now b left (d + sum_list ds)"
    using time_passes[OF assms(4) Cons.prems(3) d(1,3) assms(6,7)] by blast
  obtain b2 left2 where 2: "bucket_at capacity (now + d) (follow_limit_key u) b2 left2 s1"
    "(if ok then 1 else 0) + bucket_budget capacity rate (now + d) b2 left2 (sum_list ds) \<le> bucket_budget capacity rate (now + d) b1 left1 (sum_list ds)"
    using allowed_spends[OF a 1(1) assms(5-7)] by blast
  from Cons.IH[OF r d(2) 2(1)] 1(2) 2(2) n show ?case by (auto split: if_splits)
qed

end

section \<open>Properties\<close>

text \<open>
  C19: over any calls of one user in the order of their times, whatever requests or
  replies are lost, no more follows are allowed than the rate adds in the seconds that
  pass, and the capacity once at the start and once more for each full minute: after a
  minute without an allowed follow the key expires, and the bucket is full whatever the
  rate would have added.
\<close>

theorem follows_bounded_by_bucket:
  assumes "redis_hashes (rs_redis S) view" "passes_time view (follow_limit_key u) pass"
    and "follow_calls S pass u now ds s = (n, s')" "\<forall>d \<in> set ds. 0 \<le> d"
    and "ks_hash (view s) (follow_limit_key u) ''last'' = None" "token_bucket_params S = (capacity, rate)" "0 \<le> rate"
  shows "int n \<le> capacity * (1 + sum_list ds div 60000) + rate * ((now + sum_list ds) div 1000 - now div 1000)"
proof -
  have cap: "0 < capacity" using assms(6) by (auto simp: token_bucket_params_def split: option.splits if_splits)
  note L = follow_limit.intro[OF assms(1)]
  have "follow_limit.bucket_at view capacity now (follow_limit_key u) None 60000 s"
    unfolding follow_limit.bucket_at_def[OF L] using assms(5) by (simp add: bucket_of_def bucket_ok_def)
  from follow_limit.calls_bounded[OF L assms(3,4) this assms(2,6,7) cap]
  show ?thesis by (simp add: bucket_budget_def bucket_room_def algebra_simps)
qed

text \<open>Requests of the witness go to a server in memory whose calls may be lost.\<close>

interpretation mem_limit: follow_limit "mem_relation mem_redis" "fst \<circ> fst \<circ> fst"
proof -
  have "redis_server (on_first (on_first mem_redis) :: rel_world redis) (fst \<circ> fst \<circ> fst)"
    by (rule redis_server.on_first_server[OF redis_server.on_first_server[OF mem.redis_server_axioms]])
  then show "follow_limit (mem_relation mem_redis) (fst \<circ> fst \<circ> fst)"
    by (simp add: follow_limit_def redis_server_def)
qed

definition mem_pass :: "string \<Rightarrow> int \<Rightarrow> rel_world \<Rightarrow> rel_world" where
  "mem_pass k d s = (((ks_pass d k (fst (fst (fst s))), snd (fst (fst s))), snd (fst s)), snd s)"

theorem follows_bounded_by_bucket_witness:
  "fst (follow_calls (mem_relation mem_redis) (mem_pass (follow_limit_key 1)) 1 5000 [0, 700, 400, 60000] rel_start) \<le> 261"
proof -
  let ?ds = "[0, 700, 400, 60000] :: int list"
  obtain n s' where f: "follow_calls (mem_relation mem_redis) (mem_pass (follow_limit_key 1)) 1 5000 ?ds rel_start = (n, s')"
    by (cases "follow_calls (mem_relation mem_redis) (mem_pass (follow_limit_key 1)) 1 5000 ?ds rel_start")
  have h: "redis_hashes (rs_redis (mem_relation mem_redis)) (fst \<circ> fst \<circ> fst)"
    using mem_limit.follow_limit_axioms by (simp add: follow_limit_def)
  have t: "passes_time (fst \<circ> fst \<circ> fst) (follow_limit_key 1) (mem_pass (follow_limit_key 1))"
    by (simp add: passes_time_def mem_pass_def)
  have e: "ks_hash ((fst \<circ> fst \<circ> fst) rel_start) (follow_limit_key 1) ''last'' = None" by (simp add: rel_start_def)
  have p: "token_bucket_params (mem_relation mem_redis) = (100, 1)" by (simp add: token_bucket_params_def)
  from follows_bounded_by_bucket[OF h t f _ e p] f show ?thesis by simp
qed

end
