(* ===== verification/Relation_Drive.thy ===== *)
theory Relation_Drive
  imports Outbox_Transport
begin

text \<open>
  The tables, the outbox and the event processor together: the events of the log
  of changes, each delivered until a delivery succeeds, bring the cached lists and
  the user counters to the graph of the tables, if nothing else touches the lists.
\<close>

section \<open>Delivering a log\<close>

fun event_of :: "change \<Rightarrow> relation_event" where
  "event_of (Created oid i a b) = follows a b (Some i)"
| "event_of (Canceled oid a b) = unfollows a b"

fun change_pair :: "change \<Rightarrow> uint64 \<times> uint64" where
  "change_pair (Created oid i a b) = (a, b)"
| "change_pair (Canceled oid a b) = (a, b)"

fun change_delta :: "change \<Rightarrow> int" where
  "change_delta (Created oid i a b) = 1"
| "change_delta (Canceled oid a b) = - 1"

lemma event_of_fields [simp]:
  "event_delta (re_event_type (event_of c)) = Some (change_delta c)"
  "re_from_user_id (event_of c) = fst (change_pair c)" "re_to_user_id (event_of c) = snd (change_pair c)"
  by (cases c; simp add: follows_def unfollows_def event_delta_def)+

section \<open>Lists and counters of a graph\<close>

definition lists_match :: "graph \<Rightarrow> keyspace \<Rightarrow> bool" where
  "lists_match G ks = (\<forall>u. list_members ks (following_zset_key u) = format_uint ` {b. (u, b) \<in> G} \<and>
     list_members ks (followers_zset_key u) = format_uint ` {a. (a, u) \<in> G})"

definition followees :: "graph \<Rightarrow> uint64 \<Rightarrow> int" where
  "followees G u = int (card {b. (u, b) \<in> G})"

definition fans :: "graph \<Rightarrow> uint64 \<Rightarrow> int" where
  "fans G u = int (card {a. (a, u) \<in> G})"

lemma inj_format_uint: "inj format_uint"
  by (rule injI) simp

lemma change_graphD:
  assumes "change_graph c G = Some G'"
  shows "G' = (if change_delta c > 0 then insert (change_pair c) G else G - {change_pair c})"
    "change_pair c \<in> G \<longleftrightarrow> change_delta c < 0"
  using assms by (cases c; simp split: if_splits)+

lemma lists_match_step:
  assumes "change_graph c G = Some G'" "lists_match G ks \<or> lists_match G' ks"
  shows "lists_match G' (ks_lists (event_of c) (change_delta c) now ks)"
proof -
  obtain a b where p: "change_pair c = (a, b)" by (cases "change_pair c")
  have img: "format_uint ` (X - {x}) = format_uint ` X - {format_uint x}" for X x
    using image_set_diff[OF inj_format_uint] by simp
  have s: "{y. (u, y) \<in> G'} = (if u \<noteq> a then {y. (u, y) \<in> G} else if change_delta c > 0 then insert b {y. (u, y) \<in> G} else {y. (u, y) \<in> G} - {b})"
    "{y. (y, u) \<in> G'} = (if u \<noteq> b then {y. (y, u) \<in> G} else if change_delta c > 0 then insert a {y. (y, u) \<in> G} else {y. (y, u) \<in> G} - {a})" for u
    using change_graphD(1)[OF assms(1)] p by auto
  show ?thesis
    using assms(2) unfolding lists_match_def members_lists s event_of_fields p
    by (auto simp: img)
qed

lemma card_change:
  assumes "change_graph c G = Some G'"
  shows "followees G' u = followees G u + (if u = fst (change_pair c) then change_delta c else 0)"
    "fans G' u = fans G u + (if u = snd (change_pair c) then change_delta c else 0)"
proof -
  obtain a b where p: "change_pair c = (a, b)" by (cases "change_pair c")
  have d: "change_delta c = 1 \<or> change_delta c = - 1" by (cases c) simp_all
  note g = change_graphD[OF assms, unfolded p]
  have f: "{y. (u, y) \<in> G'} = (if u \<noteq> a then {y. (u, y) \<in> G} else if change_delta c > 0 then insert b {y. (u, y) \<in> G} else {y. (u, y) \<in> G} - {b})"
    "{y. (y, u) \<in> G'} = (if u \<noteq> b then {y. (y, u) \<in> G} else if change_delta c > 0 then insert a {y. (y, u) \<in> G} else {y. (y, u) \<in> G} - {a})"
    using g(1) by auto
  have one: "card (X - {x}) = card X - 1" "card X > 0" if "x \<in> X" for x :: uint64 and X
    using that by (auto simp: card_gt_0_iff)
  show "followees G' u = followees G u + (if u = fst (change_pair c) then change_delta c else 0)"
    using d g(2) one[of b "{y. (a, y) \<in> G}"] unfolding followees_def f p by (auto simp: of_nat_diff)
  show "fans G' u = fans G u + (if u = snd (change_pair c) then change_delta c else 0)"
    using d g(2) one[of a "{y. (y, b) \<in> G}"] unfolding fans_def f p by (auto simp: of_nat_diff)
qed

context relation_flow
begin

lemma members_same: "ks_zset ks = ks_zset ks' \<Longrightarrow> lists_match G ks = lists_match G ks'"
  by (simp add: lists_match_def list_members_def)

lemma process_matches:
  assumes "change_graph c G = Some G'" "process processor (event_of c) now s = (r, s')"
    "lists_match G (view s) \<or> lists_match G' (view s)"
  shows "lists_match G (view s') \<or> lists_match G' (view s')" "is_ok r \<Longrightarrow> lists_match G' (view s')"
proof -
  note o = process_outcome[OF assms(2) event_of_fields(1), unfolded Let_def]
  let ?L = "ks_lists (event_of c) (change_delta c) now (view s)"
  note L = lists_match_step[OF assms(1,3), of now]
  then have K: "lists_match G' (count_follow_once k t a b d ?L)" for k t a b d
    by (subst members_same[of _ ?L]) simp_all
  show "lists_match G (view s') \<or> lists_match G' (view s')" using o assms(3) L K by auto
  show "is_ok r \<Longrightarrow> lists_match G' (view s')" using o K by auto
qed

text \<open>
  What holds while one event is delivered again and again (first), and after a
  delivery of it succeeded (second), relative to the state before.
\<close>

definition underway :: "change \<Rightarrow> graph \<Rightarrow> graph \<Rightarrow> keyspace \<Rightarrow> keyspace \<Rightarrow> bool" where
  "underway c G G' ks ks' = ((lists_match G ks' \<or> lists_match G' ks') \<and>
     counted_once (event_of c) (change_delta c) ks ks' \<and>
     (\<forall>e. dedupe_key e \<noteq> dedupe_key (event_of c) \<longrightarrow> ks_exists (dedupe_key e) ks' = ks_exists (dedupe_key e) ks))"

definition arrived :: "change \<Rightarrow> graph \<Rightarrow> graph \<Rightarrow> keyspace \<Rightarrow> keyspace \<Rightarrow> bool" where
  "arrived c G G' ks ks' = (underway c G G' ks ks' \<and> lists_match G' ks' \<and> ks_exists (dedupe_key (event_of c)) ks')"

lemma process_underway:
  assumes "change_graph c G = Some G'" "process processor (event_of c) now s = (r, s')" "underway c G G' ks (view s)"
  shows "underway c G G' ks (view s') \<and> (is_ok r \<longrightarrow> arrived c G G' ks (view s'))"
proof -
  have u: "lists_match G (view s) \<or> lists_match G' (view s)" "counted_once (event_of c) (change_delta c) ks (view s)"
    "\<forall>e. dedupe_key e \<noteq> dedupe_key (event_of c) \<longrightarrow> ks_exists (dedupe_key e) (view s) = ks_exists (dedupe_key e) ks"
    using assms(3) unfolding underway_def by blast+
  note m = process_matches[OF assms(1,2) u(1)]
  note c = counted_step[OF u(2) assms(2) event_of_fields(1)]
  have o: "ks_exists (dedupe_key e) (view s') = ks_exists (dedupe_key e) (view s)" if "dedupe_key e \<noteq> dedupe_key (event_of c)" for e
    using process_outcome[OF assms(2) event_of_fields(1), unfolded Let_def] exists_count_other[OF that] by auto
  show ?thesis using m c o u(3) unfolding arrived_def underway_def by simp
qed

end

section \<open>Messages of the log\<close>

text \<open>
  MySQL keeps a JSON column in its own normal form \<open>norm\<close>. Canal sends an inserted
  row with the text of its columns, a missing value as the empty text.
\<close>

definition insert_columns :: "(string \<Rightarrow> string) \<Rightarrow> outbox_event \<Rightarrow> canal_column list" where
  "insert_columns norm e =
    [\<lparr>col_name = ''id'', col_value = format_uint (ob_id e)\<rparr>,
     \<lparr>col_name = ''aggregate_type'', col_value = ob_aggregate_type e\<rparr>,
     \<lparr>col_name = ''aggregate_id'', col_value = (case ob_aggregate_id e of None \<Rightarrow> [] | Some i \<Rightarrow> format_uint i)\<rparr>,
     \<lparr>col_name = ''type'', col_value = ob_event_type e\<rparr>,
     \<lparr>col_name = ''payload'', col_value = norm (ob_payload e)\<rparr>]"

definition row_of_event :: "(string \<Rightarrow> string) \<Rightarrow> outbox_event \<Rightarrow> outbox_row" where
  "row_of_event norm e = \<lparr>row_aggregate_type = ob_aggregate_type e,
     row_aggregate_id = (case ob_aggregate_id e of None \<Rightarrow> [] | Some i \<Rightarrow> format_uint i),
     row_type = ob_event_type e, row_payload = norm (ob_payload e)\<rparr>"

definition insert_entry :: "string \<Rightarrow> canal_entry" where
  "insert_entry store = \<lparr>et_rowdata = True, et_table = ''outbox'', et_store = store\<rparr>"

definition envelope_of :: "(string \<Rightarrow> string) \<Rightarrow> outbox_event \<Rightarrow> canal_envelope" where
  "envelope_of norm e = \<lparr>en_table = ''outbox'', en_type = ''INSERT'',
     en_data = [\<lparr>cr_id = format_uint (ob_id e), cr_aggregate_type = ob_aggregate_type e,
       cr_aggregate_id = (case ob_aggregate_id e of None \<Rightarrow> [] | Some i \<Rightarrow> format_uint i),
       cr_type = ob_event_type e, cr_payload = norm (ob_payload e)\<rparr>]\<rparr>"

lemma lower_column_names [simp]:
  "map lower_char ''id'' = ''id''" "map lower_char ''aggregate_type'' = ''aggregate_type''"
  "map lower_char ''aggregate_id'' = ''aggregate_id''" "map lower_char ''type'' = ''type''" "map lower_char ''payload'' = ''payload''"
  by code_simp+

lemma assign_insert_columns:
  "fold assign_column (insert_columns norm e) empty_canal_row = hd (en_data (envelope_of norm e))"
  by (simp add: insert_columns_def assign_column_def empty_canal_row_def envelope_of_def Let_def del: list.map)

lemma parse_insert:
  assumes "unproto store = Inr \<lparr>ch_event = InsertEvent, ch_rows = [insert_columns norm e]\<rparr>"
  shows "parse_entries unproto [insert_entry store] = Inr [marshal_envelope (envelope_of norm e)]"
  using assms assign_insert_columns[of norm e] by (simp add: insert_entry_def event_type_name_def envelope_of_def)

lemma extract_insert:
  assumes "dec (marshal_envelope (envelope_of norm e)) = Inr (envelope_of norm e)"
  shows "extract_rows dec (marshal_envelope (envelope_of norm e)) = Inr [row_of_event norm e]"
  using assms by (simp add: extract_rows_def envelope_of_def row_of_event_def)

text \<open>
  The decoders give back what was encoded: the envelope, the event and its two
  users, from the text that MySQL keeps of the payload.
\<close>

definition reads_back ::
  "(string \<Rightarrow> string) \<Rightarrow> canal_envelope decoder \<Rightarrow> relation_event decoder \<Rightarrow> (uint64 \<times> uint64) decoder \<Rightarrow> change \<Rightarrow> bool" where
  "reads_back norm env ev users c =
    (let text = norm (marshal_relation_event (event_of c)); en = envelope_of norm (event_row c) in
     text \<noteq> [] \<and> env (marshal_envelope en) = Inr en \<and> ev text = Inr (event_of c) \<and> users text = Inr (change_pair c))"

lemma event_row_fields [simp]:
  "ob_payload (event_row c) = marshal_relation_event (event_of c)" "ob_aggregate_type (event_row c) = ''following''"
  "ob_event_type (event_row c) = re_event_type (event_of c)"
  by (cases c; simp add: follow_event_def unfollow_event_def follows_def unfollows_def)+

definition message_of :: "(string \<Rightarrow> string) \<Rightarrow> change \<Rightarrow> outbox_message" where
  "message_of norm c = \<lparr>om_key = ''following:'' @ format_uint (fst (change_pair c)) @ colon @ format_uint (snd (change_pair c)),
     om_value = marshal_envelope (envelope_of norm (event_row c))\<rparr>"

lemma trim_following [simp]: "trim_space ''following'' = ''following''"
  by code_simp

lemma keyed_message_of:
  assumes "reads_back norm (br_envelope B) ev (br_follow B) c" "fst (change_pair c) \<noteq> 0" "snd (change_pair c) \<noteq> 0"
  shows "keyed_messages B [om_value (message_of norm c)] = Inr [message_of norm c]"
  using assms
  by (cases "change_pair c")
    (simp add: reads_back_def Let_def message_of_def extract_canal_rows_def envelope_of_def MessageKey_def following_message_key_def)

section \<open>The consumer of the relation events\<close>

text \<open>Waiting and committing do not touch the keys of the lists and counters.\<close>

locale outbox_flow = relation_flow R view C
  for R :: "'s redis" and view and C +
  fixes c :: "'s outbox_consumer" and unmarshal :: "relation_event decoder" and clock :: "'s \<Rightarrow> int"
  assumes handler: "oc_handler c = (\<lambda>row s. relation_handle_row unmarshal (Some \<lparr>ep_redis = R, ep_counter = Some C\<rparr>) (clock s) row s)"
    and wait_keeps: "view (snd (oc_wait c s)) = view s"
    and commit_keeps: "view (snd (oc_commit c m s)) = view s"

lemma attempts_inv:
  assumes "attempts h wait k s = (r, s')" "0 < k" "I s"
    and "\<And>s r s'. I s \<Longrightarrow> h s = (r, s') \<Longrightarrow> I s' \<and> (is_ok r \<longrightarrow> D s')" "\<And>s. I s \<Longrightarrow> I (snd (wait s))"
  shows "I s' \<and> (is_ok r \<longrightarrow> D s')"
  using assms(1-3)
proof (induction k arbitrary: s)
  case 0
  then show ?case by simp
next
  case (Suc k)
  obtain q s1 where h: "h s = (q, s1)" by (cases "h s")
  note i = assms(4)[OF Suc.prems(3) h]
  obtain w s2 where w: "wait s1 = (w, s2)" by (cases "wait s1")
  show ?case
  proof (cases "is_ok q \<or> k = 0 \<or> \<not> w")
    case True
    then show ?thesis using Suc.prems(1) h w i assms(5)[of s1] by (cases q) (auto split: if_splits bool.splits)
  next
    case False
    then obtain e where q: "q = Inl e" by (cases q) auto
    have "attempts h wait k s2 = (r, s')" using Suc.prems(1) h w q False by simp
    moreover have "I s2" using assms(5)[of s1] i w by simp
    ultimately show ?thesis using Suc.IH False by simp
  qed
qed

fun all_handled :: "'s outbox_consumer \<Rightarrow> outbox_message list \<Rightarrow> 's \<Rightarrow> bool" where
  "all_handled c [] s = True"
| "all_handled c (m # ms) s = (is_ok (fst (handle_message_with_retry c m s)) \<and> all_handled c ms (consume_message c m s))"

context outbox_flow
begin

lemma handle_change:
  assumes "reads_back norm (oc_envelope c) unmarshal users ch"
  shows "handle_outbox_message (oc_envelope c) (oc_handler c) (om_value (message_of norm ch)) s =
    process processor (event_of ch) (clock s) s"
proof -
  have t: "re_event_type (event_of ch) \<in> {''FollowCreated'', ''FollowCanceled''}"
    by (cases ch) (simp_all add: follows_def unfollows_def)
  have e: "extract_rows (oc_envelope c) (om_value (message_of norm ch)) = Inr [row_of_event norm (event_row ch)]"
    using assms by (simp add: message_of_def extract_insert reads_back_def Let_def)
  obtain r s1 where p: "process processor (event_of ch) (clock s) s = (r, s1)" by (cases "process processor (event_of ch) (clock s) s")
  show ?thesis
    using t assms p unfolding handle_outbox_message_def e
    by (cases r) (auto simp: row_of_event_def handler relation_handle_row_def reads_back_def Let_def)
qed

lemma consume_change:
  assumes "change_graph ch G = Some G'" "reads_back norm (oc_envelope c) unmarshal users ch" "lists_match G (view s)"
    "\<not> ks_exists (dedupe_key (event_of ch)) (view s)" "is_ok (fst (handle_message_with_retry c (message_of norm ch) s))"
  shows "arrived ch G G' (view s) (view (consume_message c (message_of norm ch) s))"
proof -
  obtain r s' where h: "handle_message_with_retry c (message_of norm ch) s = (r, s')"
    by (cases "handle_message_with_retry c (message_of norm ch) s")
  have i: "underway ch G G' (view s) (view s)"
    using assms(3,4) by (simp add: underway_def counted_once_def Let_def)
  have at: "attempts (\<lambda>s. process processor (event_of ch) (clock s) s) (oc_wait c) max_retries s = (r, s')"
  proof -
    have "handle_outbox_message (oc_envelope c) (oc_handler c) (om_value (message_of norm ch)) = (\<lambda>s. process processor (event_of ch) (clock s) s)"
      by (rule ext) (rule handle_change[OF assms(2)])
    then show ?thesis using h by (simp add: handle_message_with_retry_def)
  qed
  have "underway ch G G' (view s) (view s') \<and> (is_ok r \<longrightarrow> arrived ch G G' (view s) (view s'))"
    by (rule attempts_inv[OF at, where I = "\<lambda>x. underway ch G G' (view s) (view x)"])
      (simp_all add: i max_retries_def process_underway[OF assms(1)] wait_keeps)
  then have "arrived ch G G' (view s) (view s')" using assms(5) h by simp
  then show ?thesis using assms(5) h commit_keeps by (cases r) (simp_all add: consume_message_def)
qed

lemma consume_log_drives:
  assumes "replay log G = Some G'" "\<forall>ch \<in> set log. reads_back norm (oc_envelope c) unmarshal users ch" "lists_match G (view s)"
    and "distinct (map (\<lambda>ch. dedupe_key (event_of ch)) log)" "\<forall>ch \<in> set log. \<not> ks_exists (dedupe_key (event_of ch)) (view s)"
    and "all_handled c (map (message_of norm) log) s"
  shows "let ks = view (fold (consume_message c) (map (message_of norm) log) s) in lists_match G' ks \<and>
    (\<forall>u. following_count ks u - following_count (view s) u = followees G' u - followees G u) \<and>
    (\<forall>u. follower_count ks u - follower_count (view s) u = fans G' u - fans G u)"
  using assms
proof (induction log arbitrary: G s)
  case Nil
  then show ?case by simp
next
  case (Cons ch log)
  obtain G1 where g: "change_graph ch G = Some G1" "replay log G1 = Some G'"
    using Cons.prems(1) by (auto split: option.splits)
  let ?s1 = "consume_message c (message_of norm ch) s"
  have rb: "reads_back norm (oc_envelope c) unmarshal users ch" "\<forall>ch \<in> set log. reads_back norm (oc_envelope c) unmarshal users ch"
    using Cons.prems(2) by simp_all
  have ok: "is_ok (fst (handle_message_with_retry c (message_of norm ch) s))" "all_handled c (map (message_of norm) log) ?s1"
    using Cons.prems(6) by simp_all
  have free: "\<not> ks_exists (dedupe_key (event_of ch)) (view s)" using Cons.prems(5) by simp
  have a: "arrived ch G G1 (view s) (view ?s1)" by (rule consume_change[OF g(1) rb(1) Cons.prems(3) free ok(1)])
  have marks: "\<forall>d \<in> set log. \<not> ks_exists (dedupe_key (event_of d)) (view ?s1)"
  proof
    fix d assume d: "d \<in> set log"
    then have "dedupe_key (event_of d) \<noteq> dedupe_key (event_of ch)" using Cons.prems(4) by (auto simp: rev_image_eqI)
    then show "\<not> ks_exists (dedupe_key (event_of d)) (view ?s1)" using a d Cons.prems(5) by (simp add: arrived_def underway_def)
  qed
  have m: "lists_match G1 (view ?s1)" using a by (simp add: arrived_def)
  have cnt: "counted_once (event_of ch) (change_delta ch) (view s) (view ?s1)" "ks_exists (dedupe_key (event_of ch)) (view ?s1)"
    using a by (simp_all add: arrived_def underway_def)
  have dist: "distinct (map (\<lambda>ch. dedupe_key (event_of ch)) log)" using Cons.prems(4) by simp
  from Cons.IH[OF g(2) rb(2) m dist marks ok(2)] cnt card_change[OF g(1)]
  show ?case by (simp add: counted_once_def Let_def)
qed

end

section \<open>Properties\<close>

text \<open>
  Consuming the messages of a log of changes, each handled after at most three attempts
  however many of them fail, brings both cached lists and both user counters of every user
  to the tables. The lists must be empty at the start and no one else may touch them
  meanwhile, although a follow that succeeds drops the cached lists; and no two events of
  the log may share a dedupe mark, as two cancellations of one pair do.
\<close>

theorem outbox_drives_lists_and_counts:
  assumes "outbox_flow R view C c unmarshal clock" "tables_ok log t"
    and "\<forall>ch \<in> set log. reads_back norm (oc_envelope c) unmarshal users ch" "\<forall>k. ks_zset (view s) k = []"
    and "distinct (map (\<lambda>ch. dedupe_key (event_of ch)) log)" "\<forall>ch \<in> set log. \<not> ks_exists (dedupe_key (event_of ch)) (view s)"
    and "all_handled c (map (message_of norm) log) s" "s' = fold (consume_message c) (map (message_of norm) log) s"
  shows "list_members (view s') (following_zset_key u) = format_uint ` {b. active (rt_following t) u b} \<and>
    list_members (view s') (followers_zset_key u) = format_uint ` {a. active (rt_follower t) u a} \<and>
    following_count (view s') u = following_count (view s) u + int (card {b. active (rt_following t) u b}) \<and>
    follower_count (view s') u = follower_count (view s) u + int (card {a. active (rt_follower t) u a})"
proof -
  have rep: "replay log {} = Some (graph_of (rt_following t))" and mirror: "\<And>a b. active (rt_following t) a b = active (rt_follower t) b a"
    using assms(2) by (auto simp: tables_ok_def)
  have empty: "lists_match {} (view s)" using assms(4) by (simp add: lists_match_def list_members_def)
  from outbox_flow.consume_log_drives[OF assms(1) rep assms(3) empty assms(5-7)]
  show ?thesis
    unfolding assms(8) Let_def lists_match_def followees_def fans_def mem_graph_of mirror by (simp add: algebra_simps)
qed

definition mem_consumer :: "mem outbox_consumer" where
  "mem_consumer = \<lparr>oc_envelope = (\<lambda>_. Inr (envelope_of id (event_row (Created 5 7 1 2)))),
     oc_handler = (\<lambda>row s. relation_handle_row (\<lambda>_. Inr (follows 1 2 (Some 7)))
        (Some \<lparr>ep_redis = up_redis, ep_counter = Some (ApplyFollowDeltaOnce (Some mem_service))\<rparr>) 100 row s),
     oc_recorder = None, oc_commit = (\<lambda>m s. (None, s)), oc_wait = (\<lambda>s. (True, s))\<rparr>"

interpretation mem_outbox: outbox_flow up_redis fst "ApplyFollowDeltaOnce (Some mem_service)" mem_consumer
  "\<lambda>_. Inr (follows 1 2 (Some 7))" "\<lambda>_. 100"
  by unfold_locales (simp_all add: mem_consumer_def)

definition one_follow :: rel_tables where
  "one_follow = \<lparr>rt_following = [\<lparr>rr_id = 7, rr_a = 1, rr_b = 2, rr_status = 1, rr_created = 3, rr_updated = 3\<rparr>],
     rt_follower = [\<lparr>rr_id = 8, rr_a = 2, rr_b = 1, rr_status = 1, rr_created = 3, rr_updated = 3\<rparr>],
     rt_outbox = [follow_event 5 7 1 2]\<rparr>"

lemma one_follow_ok: "tables_ok [Created 5 7 1 2] one_follow"
  by (auto simp: tables_ok_def one_follow_def rows_ok_def active_def pair_of_def graph_of_def)

lemma one_follow_reads: "reads_back id (oc_envelope mem_consumer) (\<lambda>_. Inr (follows 1 2 (Some 7))) (\<lambda>_. Inr (1, 2)) (Created 5 7 1 2)"
  by (simp add: reads_back_def mem_consumer_def Let_def marshal_relation_event_def)

lemma one_follow_handled: "all_handled mem_consumer [message_of id (Created 5 7 1 2)] (empty_keyspace, [])"
proof -
  obtain u s' where p: "process (Some \<lparr>ep_redis = up_redis, ep_counter = Some (ApplyFollowDeltaOnce (Some mem_service))\<rparr>)
      (event_of (Created 5 7 1 2)) 100 (empty_keyspace, []) = (Inr u, s')"
    using mem_svc.process_up[unfolded mem_service_sel(1)] by blast
  have h: "handle_outbox_message (oc_envelope mem_consumer) (oc_handler mem_consumer) (om_value (message_of id (Created 5 7 1 2))) (empty_keyspace, []) = (Inr u, s')"
    unfolding mem_outbox.handle_change[OF one_follow_reads] by (rule p)
  have three: "max_retries = Suc 2" by (simp add: max_retries_def)
  have "fst (handle_message_with_retry mem_consumer (message_of id (Created 5 7 1 2)) (empty_keyspace, [])) = Inr u"
    unfolding handle_message_with_retry_def three attempts.simps h by simp
  then show ?thesis by simp
qed

theorem outbox_drives_lists_and_counts_witness:
  "let s' = consume_message mem_consumer (message_of id (Created 5 7 1 2)) (empty_keyspace, []) in
    list_members (fst s') (following_zset_key 1) = {format_uint 2} \<and> follower_count (fst s') 2 = 1"
proof -
  have act: "{b. active (rt_following one_follow) 1 b} = {2}" "{a. active (rt_follower one_follow) 2 a} = {1}"
    by (auto simp: one_follow_def active_def pair_of_def)
  have z: "follower_count empty_keyspace 2 = 0" by (simp add: follower_count_def)
  note d = outbox_drives_lists_and_counts[OF mem_outbox.outbox_flow_axioms one_follow_ok, where norm = id and users = "\<lambda>_. Inr (1, 2)"
      and s = "(empty_keyspace, [])"]
  from d[of _ 1] d[of _ 2] one_follow_reads one_follow_handled act z show ?thesis by (simp add: Let_def)
qed

text \<open>
  The insert of an outbox row comes out of the bridge as one message whose
  partition key is made of the two users alone, and out of the consumer's decoder
  as the same row: all events of one pair share a partition, in their order.
\<close>

theorem insert_reaches_consumer:
  assumes "br_unproto B store = Inr \<lparr>ch_event = InsertEvent, ch_rows = [insert_columns norm (event_row c)]\<rparr>"
    and "reads_back norm (br_envelope B) ev (br_follow B) c" "change_pair c = (a, b)" "a \<noteq> 0" "b \<noteq> 0"
  shows "\<exists>m. parse_entries (br_unproto B) [insert_entry store] = Inr [om_value m] \<and> keyed_messages B [om_value m] = Inr [m] \<and>
    om_key m = ''following:'' @ format_uint a @ colon @ format_uint b \<and>
    extract_rows (br_envelope B) (om_value m) = Inr [row_of_event norm (event_row c)]"
proof (intro exI conjI)
  show "parse_entries (br_unproto B) [insert_entry store] = Inr [om_value (message_of norm c)]"
    using parse_insert[of "br_unproto B", OF assms(1)] by (simp add: message_of_def)
  show "keyed_messages B [om_value (message_of norm c)] = Inr [message_of norm c]"
    using keyed_message_of[OF assms(2)] assms(3-5) by simp
  show "om_key (message_of norm c) = ''following:'' @ format_uint a @ colon @ format_uint b"
    using assms(3) by (simp add: message_of_def)
  show "extract_rows (br_envelope B) (om_value (message_of norm c)) = Inr [row_of_event norm (event_row c)]"
    using assms(2) extract_insert[of "br_envelope B" norm "event_row c"] by (simp add: message_of_def reads_back_def Let_def)
qed

definition one_bridge :: "change \<Rightarrow> unit bridge" where
  "one_bridge c = \<lparr>br_unproto = (\<lambda>_. Inr \<lparr>ch_event = InsertEvent, ch_rows = [insert_columns id (event_row c)]\<rparr>),
     br_envelope = (\<lambda>_. Inr (envelope_of id (event_row c))), br_post = (\<lambda>_. Inl (IoError [])),
     br_follow = (\<lambda>_. Inr (change_pair c)), br_ack = (\<lambda>i s. (None, s)), br_rollback = (\<lambda>i s. (None, s)), br_write = (\<lambda>ms s. (None, s))\<rparr>"

theorem insert_reaches_consumer_witness:
  "\<exists>m. keyed_messages (one_bridge (Canceled 9 1 2)) [om_value m] = Inr [m] \<and>
    om_key m = ''following:'' @ format_uint 1 @ colon @ format_uint 2"
proof -
  have "reads_back id (br_envelope (one_bridge (Canceled 9 1 2))) (\<lambda>_. Inr (event_of (Canceled 9 1 2))) (br_follow (one_bridge (Canceled 9 1 2))) (Canceled 9 1 2)"
    by (simp add: reads_back_def one_bridge_def Let_def marshal_relation_event_def)
  from insert_reaches_consumer[OF _ this, of "[]" 1 2] show ?thesis by (auto simp: one_bridge_def)
qed

end
