(* ===== verification/Relation_Lists.thy ===== *)
theory Relation_Lists
  imports Relation_Drive
begin

text \<open>
  \<open>internal/relation/list.go\<close> and the reading half of \<open>cache.go\<close>: the lists of
  followees and followers, by offset and by cursor, from the in-process cache, the
  cached sorted sets and the tables. A limit or an offset comes unchecked from the
  request, so it is an integer; a slice out of bounds is the error \<open>ListPanic\<close>.
\<close>

section \<open>Statements\<close>

record list_entry =
  le_user :: uint64
  le_created :: int

datatype list_error = ListIo io_error | ListLock acquire_error | BadCursor | ListPanic

text \<open>
  The rows of one user, newest first. Where the statement leaves the order of equal
  times open, the table order is taken; a negative \<open>LIMIT\<close> is a syntax error.
\<close>

definition rows_of_user :: "uint64 \<Rightarrow> rel_row list \<Rightarrow> rel_row list" where
  "rows_of_user u rows = filter (\<lambda>r. rr_a r = u \<and> rr_status r = 1) rows"

definition limit_offset :: "int \<Rightarrow> int \<Rightarrow> 'a list \<Rightarrow> io_error + 'a list" where
  "limit_offset limit offset rows =
    (if limit < 0 \<or> offset < 0 then Inl (IoError ''syntax error'') else Inr (take (nat limit) (drop (nat offset) rows)))"

definition flatten :: "(io_error + (io_error + 'a)) \<times> 's \<Rightarrow> (io_error + 'a) \<times> 's" where
  "flatten x = (case x of (Inl e, s) \<Rightarrow> (Inl e, s) | (Inr r, s) \<Rightarrow> (r, s))"

definition newest_rows :: "rel_row list \<Rightarrow> rel_row list" where
  "newest_rows rows = sort_key (\<lambda>r. - rr_created r) rows"

definition ListFollowingRows :: "'s rel_db \<Rightarrow> uint64 \<Rightarrow> int \<Rightarrow> int \<Rightarrow> 's \<Rightarrow> (io_error + rel_row list) \<times> 's" where
  "ListFollowingRows D u limit offset s =
    flatten (db_read D (\<lambda>t. limit_offset limit offset (newest_rows (rows_of_user u (rt_following t)))) s)"

definition ListFollowerRows :: "'s rel_db \<Rightarrow> uint64 \<Rightarrow> int \<Rightarrow> int \<Rightarrow> 's \<Rightarrow> (io_error + rel_row list) \<times> 's" where
  "ListFollowerRows D u limit offset s =
    flatten (db_read D (\<lambda>t. limit_offset limit offset (newest_rows (rows_of_user u (rt_follower t)))) s)"

text \<open>The followers of \<open>u\<close> read from the other table; the pair of a row turns round.\<close>

definition turned :: "rel_row \<Rightarrow> rel_row" where
  "turned r = r\<lparr>rr_a := rr_b r, rr_b := rr_a r\<rparr>"

definition ListFollowerRowsFromFollowing :: "'s rel_db \<Rightarrow> uint64 \<Rightarrow> int \<Rightarrow> int \<Rightarrow> 's \<Rightarrow> (io_error + rel_row list) \<times> 's" where
  "ListFollowerRowsFromFollowing D u limit offset s =
    flatten (db_read D (\<lambda>t. limit_offset limit offset (newest_rows (rows_of_user u (map turned (rt_following t))))) s)"

definition before_sql :: "int \<Rightarrow> uint64 \<Rightarrow> rel_row list \<Rightarrow> rel_row list" where
  "before_sql before uid rows =
    sort_key (\<lambda>r. - rr_created r) (sort_key (\<lambda>r. - uint (rr_b r))
      (filter (\<lambda>r. rr_created r < before \<or> rr_created r = before \<and> rr_b r < uid) rows))"

definition ListFollowingRowsBefore :: "'s rel_db \<Rightarrow> uint64 \<Rightarrow> int \<Rightarrow> uint64 \<Rightarrow> int \<Rightarrow> 's \<Rightarrow> (io_error + rel_row list) \<times> 's" where
  "ListFollowingRowsBefore D u before uid limit s =
    flatten (db_read D (\<lambda>t. limit_offset limit 0 (before_sql before uid (rows_of_user u (rt_following t)))) s)"

definition ListFollowerRowsBefore :: "'s rel_db \<Rightarrow> uint64 \<Rightarrow> int \<Rightarrow> uint64 \<Rightarrow> int \<Rightarrow> 's \<Rightarrow> (io_error + rel_row list) \<times> 's" where
  "ListFollowerRowsBefore D u before uid limit s =
    flatten (db_read D (\<lambda>t. limit_offset limit 0 (before_sql before uid (rows_of_user u (rt_follower t)))) s)"

definition list_entry_of :: "rel_row \<Rightarrow> list_entry" where
  "list_entry_of r = \<lparr>le_user = rr_b r, le_created = rr_created r\<rparr>"

section \<open>Reading the tables\<close>

definition should_fallback_to_following :: "'s relation_service \<Rightarrow> uint64 \<Rightarrow> 's \<Rightarrow> bool \<times> 's" where
  "should_fallback_to_following S u s = (case rd (rs_redis S) (r_exists (rs_redis S) (fallback_key u)) s of
      (Inl e, s1) \<Rightarrow> (True, s1)
    | (Inr b, s1) \<Rightarrow> (\<not> b, s1))"

definition mark_follower_fallback_exhausted :: "'s relation_service \<Rightarrow> uint64 \<Rightarrow> 's \<Rightarrow> 's" where
  "mark_follower_fallback_exhausted S u s =
    snd (wr (rs_redis S) (r_set (rs_redis S) (fallback_key u) ''1'' (Some (relation_fallback_exhausted_ttl (rs_cfg S)))) s)"

definition read_follower_rows :: "'s relation_service \<Rightarrow> uint64 \<Rightarrow> int \<Rightarrow> int \<Rightarrow> 's \<Rightarrow> (io_error + rel_row list) \<times> 's" where
  "read_follower_rows S u limit offset s = (case ListFollowerRows (rs_db S) u limit offset s of
      (Inl e, s1) \<Rightarrow> (Inl e, s1)
    | (Inr rows, s1) \<Rightarrow>
        (if rows \<noteq> [] then (Inr rows, s1)
         else (case should_fallback_to_following S u s1 of
             (False, s2) \<Rightarrow> (Inr rows, s2)
           | (True, s2) \<Rightarrow>
               (case ListFollowerRowsFromFollowing (rs_db S) u limit offset s2 of
                  (Inl e, s3) \<Rightarrow> (Inl e, s3)
                | (Inr rows1, s3) \<Rightarrow>
                    (Inr rows1, if rows1 = [] then mark_follower_fallback_exhausted S u s3 else s3)))))"

definition map_ok :: "('a \<Rightarrow> 'b) \<Rightarrow> ('e + 'a) \<times> 's \<Rightarrow> ('e + 'b) \<times> 's" where
  "map_ok f x = (case x of (Inl e, s) \<Rightarrow> (Inl e, s) | (Inr a, s) \<Rightarrow> (Inr (f a), s))"

definition read_from_db :: "'s relation_service \<Rightarrow> string \<Rightarrow> uint64 \<Rightarrow> int \<Rightarrow> int \<Rightarrow> 's \<Rightarrow> (io_error + list_entry list) \<times> 's" where
  "read_from_db S t u limit offset s = map_ok (map list_entry_of)
    (if t = ''following'' then ListFollowingRows (rs_db S) u limit offset s else read_follower_rows S u limit offset s)"

definition list_from_db_before ::
  "'s relation_service \<Rightarrow> string \<Rightarrow> uint64 \<Rightarrow> int \<Rightarrow> uint64 \<Rightarrow> int \<Rightarrow> 's \<Rightarrow> (io_error + list_entry list) \<times> 's" where
  "list_from_db_before S t u before uid limit s = map_ok (map list_entry_of)
    (if t = ''following'' then ListFollowingRowsBefore (rs_db S) u before uid limit s
     else ListFollowerRowsBefore (rs_db S) u before uid limit s)"

section \<open>The caches\<close>

definition bigv_key :: "uint64 \<Rightarrow> string" where
  "bigv_key u = ''bigv:'' @ format_uint u"

definition big_v_of_zset :: "'s relation_service \<Rightarrow> uint64 \<Rightarrow> 's \<Rightarrow> bool \<times> 's" where
  "big_v_of_zset S u s = (case rd (rs_redis S) (r_zcard (rs_redis S) (zset_key ''followers'' u)) s of
      (Inl e, s1) \<Rightarrow> (False, s1)
    | (Inr n, s1) \<Rightarrow> (let b = int n \<ge> rs_big_v_threshold S in
        (b, l1_set (rs_l1 S) (bigv_key u) (if b then ''1'' else ''0'') (relation_l1_cache_ttl (rs_cfg S)) s1)))"

definition is_big_v :: "'s relation_service \<Rightarrow> uint64 \<Rightarrow> 's \<Rightarrow> bool \<times> 's" where
  "is_big_v S u s = (case l1_get (rs_l1 S) (bigv_key u) s of
      (Some data, s1) \<Rightarrow> if data \<noteq> [] then (data = ''1'', s1) else big_v_of_zset S u s1
    | (None, s1) \<Rightarrow> big_v_of_zset S u s1)"

definition to_long_list :: "string \<Rightarrow> uint64 list" where
  "to_long_list data = List.map_filter (\<lambda>p. parse_uint (trim_space p)) (split_on CHR '','' data)"

definition to_id_list :: "string list \<Rightarrow> uint64 list" where
  "to_id_list ms = List.map_filter parse_uint ms"

text \<open>\<open>xs[a:b]\<close> of a slice without spare capacity.\<close>

definition go_slice :: "'a list \<Rightarrow> int \<Rightarrow> int \<Rightarrow> 'a list option" where
  "go_slice xs a b = (if 0 \<le> a \<and> a \<le> b \<and> b \<le> int (length xs) then Some (take (nat (b - a)) (drop (nat a) xs)) else None)"

definition window :: "uint64 list \<Rightarrow> int \<Rightarrow> int \<Rightarrow> uint64 list option" where
  "window ids limit offset =
    (let e = offset + limit in go_slice ids offset (if e > int (length ids) then int (length ids) else e))"

datatype l1_answer = L1Miss | L1Hit "uint64 list" | L1Panic

definition read_offset_from_l1 :: "'s relation_service \<Rightarrow> string \<Rightarrow> uint64 \<Rightarrow> int \<Rightarrow> int \<Rightarrow> 's \<Rightarrow> l1_answer \<times> 's" where
  "read_offset_from_l1 S t u limit offset s = (case l1_get (rs_l1 S) (l1_key_str t u) s of
      (None, s1) \<Rightarrow> (L1Miss, s1)
    | (Some data, s1) \<Rightarrow>
        (let ids = to_long_list data in
         if offset \<ge> int (length ids) then (L1Miss, s1)
         else (case window ids limit offset of None \<Rightarrow> (L1Panic, s1) | Some page \<Rightarrow> (L1Hit page, s1))))"

definition fill_l1 :: "'s relation_service \<Rightarrow> string \<Rightarrow> uint64 \<Rightarrow> 's \<Rightarrow> 's" where
  "fill_l1 S t u s = (case read_from_db S t u (relation_fill_l1_limit (rs_cfg S)) 0 s of
      (Inl e, s1) \<Rightarrow> s1
    | (Inr entries, s1) \<Rightarrow>
        (if entries = [] then s1
         else l1_set (rs_l1 S) (l1_key_str t u) (join_with '','' (map (\<lambda>e. format_uint (le_user e)) entries))
                (relation_l1_cache_ttl (rs_cfg S)) s1))"

definition zadd_entries :: "'s redis \<Rightarrow> string \<Rightarrow> list_entry list \<Rightarrow> 's \<Rightarrow> 's" where
  "zadd_entries R k entries s = fold (\<lambda>e. r_zadd R k (le_created e) (format_uint (le_user e))) entries s"

definition fill_zset :: "'s relation_service \<Rightarrow> string \<Rightarrow> uint64 \<Rightarrow> 's \<Rightarrow> (list_error + bool) \<times> 's" where
  "fill_zset S t u s = (case read_from_db S t u (relation_list_cache_warm_limit (rs_cfg S)) 0 s of
      (Inl e, s1) \<Rightarrow> (Inl (ListIo e), s1)
    | (Inr entries, s1) \<Rightarrow>
        (if entries = [] then (Inr False, s1)
         else (case wr (rs_redis S) (\<lambda>s. r_expire (rs_redis S) (zset_key t u) (relation_list_cache_ttl (rs_cfg S))
                      (zadd_entries (rs_redis S) (zset_key t u) entries s)) s1 of
             (Inl e, s2) \<Rightarrow> (Inl (ListIo e), s2)
           | (Inr _, s2) \<Rightarrow> (Inr True, s2))))"

definition list_cached :: "'s relation_service \<Rightarrow> string \<Rightarrow> uint64 \<Rightarrow> 's \<Rightarrow> bool \<times> 's" where
  "list_cached S t u s = (case rd (rs_redis S) (r_exists (rs_redis S) (zset_key t u)) s of
      (Inl e, s1) \<Rightarrow> (False, s1)
    | (Inr b, s1) \<Rightarrow> (b, s1))"

definition ensure_list_cache_warm :: "'s relation_service \<Rightarrow> string \<Rightarrow> uint64 \<Rightarrow> 's \<Rightarrow> (list_error + bool) \<times> 's" where
  "ensure_list_cache_warm S t u s = (case list_cached S t u s of
      (True, s1) \<Rightarrow> (Inr True, s1)
    | (False, s1) \<Rightarrow>
        (case acquire_list_cache_lock S t u s1 of
           (Inl e, s2) \<Rightarrow> (Inl (ListLock e), s2)
         | (Inr l, s2) \<Rightarrow>
             (let (r, s3) = (case list_cached S t u s2 of
                  (True, s3) \<Rightarrow> (Inr True, s3)
                | (False, s3) \<Rightarrow> fill_zset S t u s3)
              in (r, release (rs_redis S) l s3))))"

definition cache_end_reached :: "'s relation_service \<Rightarrow> string \<Rightarrow> int \<Rightarrow> 's \<Rightarrow> bool \<times> 's" where
  "cache_end_reached S k offset s = (case rd (rs_redis S) (r_zcard (rs_redis S) k) s of
      (Inl e, s1) \<Rightarrow> (False, s1)
    | (Inr n, s1) \<Rightarrow>
        (if int n < relation_list_cache_warm_limit (rs_cfg S) then (offset \<ge> int n, s1) else (False, s1)))"

section \<open>Pages by offset\<close>

text \<open>\<open>ZREVRANGE\<close> with its two integer ends: a negative one counts from the end.\<close>

definition zrevrange_int :: "'s redis \<Rightarrow> string \<Rightarrow> int \<Rightarrow> int \<Rightarrow> 's \<Rightarrow> zset" where
  "zrevrange_int R k start stop s =
    (let n = int (r_zcard R k s);
         a = (if start < 0 then max 0 (start + n) else start);
         b = (if stop < 0 then stop + n else stop)
     in if a > b \<or> a \<ge> n then [] else r_zrevrange R k (nat a) (nat (min b (n - 1) - a + 1)) s)"

definition read_offset_from_db ::
  "'s relation_service \<Rightarrow> string \<Rightarrow> uint64 \<Rightarrow> int \<Rightarrow> int \<Rightarrow> 's \<Rightarrow> (list_error + uint64 list) \<times> 's" where
  "read_offset_from_db S t u limit offset s =
    (if offset > relation_max_offset (rs_cfg S) then (Inr [], s)
     else (case read_from_db S t u (limit + offset) 0 s of
         (Inl e, s1) \<Rightarrow> (Inl (ListIo e), s1)
       | (Inr rows, s1) \<Rightarrow>
           (let ids = map le_user rows in
            if offset \<ge> int (length ids) then (Inr [], s1)
            else (case window ids limit offset of None \<Rightarrow> (Inl ListPanic, s1) | Some page \<Rightarrow> (Inr page, s1)))))"

text \<open>The part after the cache is warm.\<close>

definition read_warm_offset ::
  "'s relation_service \<Rightarrow> string \<Rightarrow> uint64 \<Rightarrow> int \<Rightarrow> int \<Rightarrow> 's \<Rightarrow> (list_error + uint64 list) \<times> 's" where
  "read_warm_offset S t u limit offset s =
    (case rd (rs_redis S) (zrevrange_int (rs_redis S) (zset_key t u) offset (offset + limit - 1)) s of
       (q, s1) \<Rightarrow>
         (case q of
            Inr (z # zs) \<Rightarrow> (Inr (to_id_list (map fst (z # zs))), s1)
          | _ \<Rightarrow>
              (case cache_end_reached S (zset_key t u) offset s1 of
                 (True, s2) \<Rightarrow> (Inr [], s2)
               | (False, s2) \<Rightarrow> read_offset_from_db S t u limit offset s2)))"

definition get_list_with_offset ::
  "'s relation_service \<Rightarrow> uint64 \<Rightarrow> string \<Rightarrow> int \<Rightarrow> int \<Rightarrow> 's \<Rightarrow> (list_error + uint64 list) \<times> 's" where
  "get_list_with_offset S u t limit offset s =
    (let (big, s1) = is_big_v S u s;
         (l1, s2) = (if big then read_offset_from_l1 S t u limit offset s1 else (L1Miss, s1))
     in case l1 of
          L1Hit ids \<Rightarrow> (Inr ids, s2)
        | L1Panic \<Rightarrow> (Inl ListPanic, s2)
        | L1Miss \<Rightarrow>
            (case list_cached S t u s2 of
               (True, s3) \<Rightarrow> read_warm_offset S t u limit offset s3
             | (False, s3) \<Rightarrow>
                 (case ensure_list_cache_warm S t u s3 of
                    (Inl e, s4) \<Rightarrow> (Inl e, s4)
                  | (Inr False, s4) \<Rightarrow> (Inr [], s4)
                  | (Inr True, s4) \<Rightarrow> read_warm_offset S t u limit offset (if big then fill_l1 S t u s4 else s4))))"

definition Following :: "'s relation_service \<Rightarrow> uint64 \<Rightarrow> int \<Rightarrow> int \<Rightarrow> 's \<Rightarrow> (list_error + uint64 list) \<times> 's" where
  "Following S u limit offset = get_list_with_offset S u ''following'' limit offset"

definition Followers :: "'s relation_service \<Rightarrow> uint64 \<Rightarrow> int \<Rightarrow> int \<Rightarrow> 's \<Rightarrow> (list_error + uint64 list) \<times> 's" where
  "Followers S u limit offset = get_list_with_offset S u ''followers'' limit offset"

section \<open>Pages by cursor\<close>

record list_cursor =
  lcu_set :: bool
  lcu_score :: int
  lcu_member :: uint64
  lcu_legacy :: bool

definition no_list_cursor :: list_cursor where
  "no_list_cursor = \<lparr>lcu_set = False, lcu_score = 0, lcu_member = 0, lcu_legacy = False\<rparr>"

definition encode_list_cursor :: "int \<Rightarrow> uint64 \<Rightarrow> string" where
  "encode_list_cursor ms u = ''s:'' @ format_int ms @ colon @ format_uint u"

definition parse_list_cursor :: "string \<Rightarrow> list_cursor option" where
  "parse_list_cursor raw =
    (if raw = [] \<or> raw = ''0'' then Some no_list_cursor
     else (case cut_prefix ''s:'' raw of
         Some body \<Rightarrow>
           (case str_cut CHR '':'' body of
              None \<Rightarrow> None
            | Some (ts, uid) \<Rightarrow>
                (case (parse_int ts, parse_uint uid) of
                   (Some t, Some u) \<Rightarrow> Some \<lparr>lcu_set = True, lcu_score = t, lcu_member = u, lcu_legacy = False\<rparr>
                 | _ \<Rightarrow> None))
       | None \<Rightarrow>
           (case parse_int raw of
              Some t \<Rightarrow> if t > 0 then Some \<lparr>lcu_set = True, lcu_score = t, lcu_member = 0, lcu_legacy = True\<rparr> else None
            | None \<Rightarrow> None)))"

definition cursor_tie_slack :: int where "cursor_tie_slack = 8"

text \<open>The loop of \<open>readCursorPageFromZSet\<close>: the page so far and its last entry.\<close>

fun page_loop :: "list_cursor \<Rightarrow> nat \<Rightarrow> zset \<Rightarrow> uint64 list \<Rightarrow> int \<times> uint64 \<Rightarrow> uint64 list \<times> (int \<times> uint64)" where
  "page_loop cur limit [] res final = (res, final)"
| "page_loop cur limit ((m, sc) # zs) res final =
    (case parse_uint m of
       None \<Rightarrow> page_loop cur limit zs res final
     | Some u \<Rightarrow>
         (if lcu_set cur \<and> \<not> lcu_legacy cur \<and> sc = lcu_score cur \<and> m \<ge> format_uint (lcu_member cur)
          then page_loop cur limit zs res final
          else if length res + 1 = limit then (res @ [u], (sc, u))
          else page_loop cur limit zs (res @ [u]) (sc, u)))"

text \<open>
  \<open>make\<close> panics on a negative limit; a count of the command that is not positive
  means no limit, and with \<open>limit = 0\<close> the loop never reaches it.
\<close>

definition read_cursor_page ::
  "'s relation_service \<Rightarrow> string \<Rightarrow> list_cursor \<Rightarrow> int \<Rightarrow> 's \<Rightarrow> (list_error + uint64 list \<times> (int \<times> uint64)) \<times> 's" where
  "read_cursor_page S k cur limit s =
    (let mx = (if \<not> lcu_set cur then None else if lcu_legacy cur then Some (lcu_score cur - 1) else Some (lcu_score cur));
         fetch = (if lcu_set cur \<and> \<not> lcu_legacy cur then limit + cursor_tie_slack else limit)
     in case rd (rs_redis S) (\<lambda>s. r_zrevrangebyscore (rs_redis S) k mx
                (if fetch \<le> 0 then r_zcard (rs_redis S) k s else nat fetch) s) s of
       (Inl e, s1) \<Rightarrow> (Inl (ListIo e), s1)
     | (Inr zs, s1) \<Rightarrow> (if limit < 0 then (Inl ListPanic, s1) else (Inr (page_loop cur (nat limit) zs [] (0, 0)), s1)))"

fun append_new :: "list_entry list \<Rightarrow> uint64 list \<Rightarrow> uint64 list \<Rightarrow> int \<times> uint64 \<Rightarrow> uint64 list \<times> (int \<times> uint64)" where
  "append_new [] seen res final = (res, final)"
| "append_new (e # es) seen res final =
    (if le_user e \<in> set seen then append_new es seen res final
     else append_new es seen (res @ [le_user e]) (le_created e, le_user e))"

definition merge_db_tail ::
  "'s relation_service \<Rightarrow> string \<Rightarrow> uint64 \<Rightarrow> list_cursor \<Rightarrow> uint64 list \<Rightarrow> int \<times> uint64 \<Rightarrow> int \<Rightarrow> 's \<Rightarrow>
   (uint64 list \<times> (int \<times> uint64)) \<times> 's" where
  "merge_db_tail S t u cur res final limit s =
    (let (ms, uid) = (if res = [] then (lcu_score cur, lcu_member cur) else final) in
     case list_from_db_before S t u ms uid (limit - int (length res)) s of
       (Inl e, s1) \<Rightarrow> ((res, final), s1)
     | (Inr rows, s1) \<Rightarrow> (append_new rows res res final, s1))"

definition read_warm_cursor ::
  "'s relation_service \<Rightarrow> uint64 \<Rightarrow> string \<Rightarrow> int \<Rightarrow> list_cursor \<Rightarrow> 's \<Rightarrow> (list_error + uint64 list \<times> string) \<times> 's" where
  "read_warm_cursor S u t limit cur s = (case read_cursor_page S (zset_key t u) cur limit s of
      (Inl e, s1) \<Rightarrow> (Inl e, s1)
    | (Inr (res, final), s1) \<Rightarrow>
        (if int (length res) < limit \<and> res = [] \<and> \<not> lcu_set cur then (Inr (res, []), s1)
         else (let ((res1, final1), s2) = (if int (length res) < limit then merge_db_tail S t u cur res final limit s1 else ((res, final), s1))
               in (Inr (res1, if res1 = [] then [] else encode_list_cursor (fst final1) (snd final1)), s2))))"

definition get_list_with_cursor ::
  "'s relation_service \<Rightarrow> uint64 \<Rightarrow> string \<Rightarrow> int \<Rightarrow> string \<Rightarrow> 's \<Rightarrow> (list_error + uint64 list \<times> string) \<times> 's" where
  "get_list_with_cursor S u t limit raw s = (case parse_list_cursor raw of
      None \<Rightarrow> (Inl BadCursor, s)
    | Some cur \<Rightarrow>
        (case list_cached S t u s of
           (True, s1) \<Rightarrow> read_warm_cursor S u t limit cur s1
         | (False, s1) \<Rightarrow>
             (case ensure_list_cache_warm S t u s1 of
                (Inl e, s2) \<Rightarrow> (Inl e, s2)
              | (Inr False, s2) \<Rightarrow> (Inr ([], []), s2)
              | (Inr True, s2) \<Rightarrow> read_warm_cursor S u t limit cur s2)))"

definition FollowingCursor :: "'s relation_service \<Rightarrow> uint64 \<Rightarrow> int \<Rightarrow> string \<Rightarrow> 's \<Rightarrow> (list_error + uint64 list \<times> string) \<times> 's" where
  "FollowingCursor S u limit cursor = get_list_with_cursor S u ''following'' limit cursor"

definition FollowersCursor :: "'s relation_service \<Rightarrow> uint64 \<Rightarrow> int \<Rightarrow> string \<Rightarrow> 's \<Rightarrow> (list_error + uint64 list \<times> string) \<times> 's" where
  "FollowersCursor S u limit cursor = get_list_with_cursor S u ''followers'' limit cursor"

end
