(* ===== verification/Fanout_Model.thy ===== *)
theory Fanout_Model
  imports Relation_Lists
begin

text \<open>
  \<open>internal/fanout\<close>: the hybrid timeline. A post goes into the box of its author and,
  unless the author is a celebrity, into the inbox of every follower; a reader
  merges the inbox with the boxes of the celebrities followed. Times of posts are
  in seconds, durations of keys in milliseconds. Debug logs and metrics are left out.
\<close>

section \<open>Configuration and keys\<close>

record fanout_config =
  fc_celebrity_threshold :: int
  fc_batch_size :: int
  fc_max_fans :: int
  fc_timeline_max :: int
  fc_timeline_ttl :: int
  fc_box_max :: int
  fc_box_ttl :: int
  fc_backfill :: int
  fc_max_pull :: int

definition default_fanout_config :: fanout_config where
  "default_fanout_config = \<lparr>fc_celebrity_threshold = 5000, fc_batch_size = 500, fc_max_fans = 100000,
     fc_timeline_max = 1000, fc_timeline_ttl = 7 * 24 * 3600000, fc_box_max = 200, fc_box_ttl = 30 * 24 * 3600000,
     fc_backfill = 20, fc_max_pull = 200\<rparr>"

definition with_fanout_defaults :: "fanout_config \<Rightarrow> fanout_config" where
  "with_fanout_defaults c = (let d = default_fanout_config in \<lparr>
     fc_celebrity_threshold = or_default (fc_celebrity_threshold c) (fc_celebrity_threshold d),
     fc_batch_size = or_default (fc_batch_size c) (fc_batch_size d),
     fc_max_fans = or_default (fc_max_fans c) (fc_max_fans d),
     fc_timeline_max = or_default (fc_timeline_max c) (fc_timeline_max d),
     fc_timeline_ttl = or_default (fc_timeline_ttl c) (fc_timeline_ttl d),
     fc_box_max = or_default (fc_box_max c) (fc_box_max d),
     fc_box_ttl = or_default (fc_box_ttl c) (fc_box_ttl d),
     fc_backfill = (if fc_backfill c < 0 then 0 else fc_backfill c),
     fc_max_pull = or_default (fc_max_pull c) (fc_max_pull d)\<rparr>)"

definition timeline_key :: "uint64 \<Rightarrow> string" where
  "timeline_key u = ''timeline:'' @ format_uint u"

definition author_box_key :: "uint64 \<Rightarrow> string" where
  "author_box_key u = ''authorbox:'' @ format_uint u"

definition celebrity_set_key :: string where
  "celebrity_set_key = ''fanout:celeb''"

section \<open>The registry of celebrities\<close>

type_synonym 's follower_counter = "uint64 \<Rightarrow> 's \<Rightarrow> (int \<times> bool) \<times> 's"

record 's celebrity_registry =
  cg_redis :: "'s redis"
  cg_counter :: "'s follower_counter option"
  cg_threshold :: int

definition new_celebrity_registry :: "'s redis \<Rightarrow> 's follower_counter option \<Rightarrow> int \<Rightarrow> 's celebrity_registry" where
  "new_celebrity_registry R counter threshold = \<lparr>cg_redis = R, cg_counter = counter,
     cg_threshold = or_default threshold (fc_celebrity_threshold default_fanout_config)\<rparr>"

text \<open>The product of the hysteresis is an \<open>int\<close> of Go; thresholds are far below its range.\<close>

definition demote_line :: "'s celebrity_registry \<Rightarrow> int" where
  "demote_line r = cg_threshold r * 80 div 100"

definition demote :: "'s celebrity_registry \<Rightarrow> uint64 \<Rightarrow> 's \<Rightarrow> 's" where
  "demote r a s = snd (wr (cg_redis r) (r_srem (cg_redis r) celebrity_set_key (format_uint a)) s)"

definition mark_celebrity :: "'s celebrity_registry \<Rightarrow> uint64 \<Rightarrow> 's \<Rightarrow> 's" where
  "mark_celebrity r a s = snd (wr (cg_redis r) (r_sadd (cg_redis r) celebrity_set_key (format_uint a)) s)"

text \<open>The answer is \<open>(celebrity, known)\<close>.\<close>

definition IsCelebrity :: "'s celebrity_registry \<Rightarrow> uint64 \<Rightarrow> 's \<Rightarrow> (bool \<times> bool) \<times> 's" where
  "IsCelebrity r a s = (case rd (cg_redis r) (r_sismember (cg_redis r) celebrity_set_key (format_uint a)) s of
      (q, s1) \<Rightarrow>
        (if q = Inr True then
           (case cg_counter r of
              None \<Rightarrow> ((True, True), s1)
            | Some count \<Rightarrow>
                (case count a s1 of
                   ((n, ok), s2) \<Rightarrow> (if ok \<and> n < demote_line r then ((False, True), demote r a s2) else ((True, True), s2))))
         else (case cg_counter r of
              None \<Rightarrow> ((False, False), s1)
            | Some count \<Rightarrow>
                (case count a s1 of
                   ((n, ok), s2) \<Rightarrow> (if ok then ((n \<ge> cg_threshold r, True), s2) else ((False, False), s2))))))"

text \<open>\<open>SMISMEMBER\<close> answers for all authors at once.\<close>

definition among :: "'s celebrity_registry \<Rightarrow> uint64 list \<Rightarrow> 's \<Rightarrow> (io_error + uint64 list) \<times> 's" where
  "among r authors s =
    (if authors = [] then (Inr [], s)
     else rd (cg_redis r) (\<lambda>s. filter (\<lambda>a. r_sismember (cg_redis r) celebrity_set_key (format_uint a) s) authors) s)"

section \<open>The writing side\<close>

record fanout_event =
  fe_post :: uint64
  fe_creator :: uint64
  fe_created :: int

datatype fan_error = FanIo io_error | FanList list_error | BadTimelineCursor

type_synonym 's user_lister = "uint64 \<Rightarrow> int \<Rightarrow> string \<Rightarrow> 's \<Rightarrow> (list_error + uint64 list \<times> string) \<times> 's"

record 's fanout_service =
  fs_redis :: "'s redis"
  fs_followers :: "'s user_lister"
  fs_celebrities :: "'s celebrity_registry"
  fs_cfg :: fanout_config

definition new_fanout_service :: "'s redis \<Rightarrow> 's user_lister \<Rightarrow> 's follower_counter option \<Rightarrow> fanout_config \<Rightarrow> 's fanout_service" where
  "new_fanout_service R lister counter cfg = (let c = with_fanout_defaults cfg in
     \<lparr>fs_redis = R, fs_followers = lister,
      fs_celebrities = new_celebrity_registry R counter (fc_celebrity_threshold c), fs_cfg = c\<rparr>)"

text \<open>\<open>ZREMRANGEBYRANK key 0 -(n+1)\<close> keeps the \<open>n\<close> newest.\<close>

definition write_author_box :: "'s fanout_service \<Rightarrow> fanout_event \<Rightarrow> 's \<Rightarrow> (io_error + unit) \<times> 's" where
  "write_author_box S e s = (let R = fs_redis S; k = author_box_key (fe_creator e) in
     wr R (\<lambda>s. r_expire R k (fc_box_ttl (fs_cfg S)) (r_zkeep_top R k (nat (fc_box_max (fs_cfg S)))
       (r_zadd R k (fe_created e) (format_uint (fe_post e)) s))) s)"

definition push_one :: "'s fanout_service \<Rightarrow> string \<Rightarrow> int \<Rightarrow> uint64 \<Rightarrow> 's \<Rightarrow> 's" where
  "push_one S member sc fan s = (let R = fs_redis S; k = timeline_key fan in
     r_expire R k (fc_timeline_ttl (fs_cfg S)) (r_zkeep_top R k (nat (fc_timeline_max (fs_cfg S))) (r_zadd R k sc member s)))"

definition push_batch :: "'s fanout_service \<Rightarrow> uint64 list \<Rightarrow> string \<Rightarrow> int \<Rightarrow> 's \<Rightarrow> (io_error + unit) \<times> 's" where
  "push_batch S targets member sc s = wr (fs_redis S) (fold (push_one S member sc) targets) s"

text \<open>
  The loop counts the fans it reached; it ends because each page that lets it go on
  adds at least one, and the threshold stops it.
\<close>

function push_loop ::
  "'s fanout_service \<Rightarrow> fanout_event \<Rightarrow> string \<Rightarrow> int \<Rightarrow> 's \<Rightarrow> (fan_error + unit) \<times> 's" where
  "push_loop S e cursor reached s =
    (case fs_followers S (fe_creator e) (fc_batch_size (fs_cfg S)) cursor s of
       (Inl err, s1) \<Rightarrow> (Inl (FanList err), s1)
     | (Inr (targets, next_cursor), s1) \<Rightarrow>
         (if targets = [] then (Inr (), s1)
          else (case push_batch S targets (format_uint (fe_post e)) (fe_created e) s1 of
              (Inl err, s2) \<Rightarrow> (Inl (FanIo err), s2)
            | (Inr _, s2) \<Rightarrow>
                (if reached + int (length targets) \<ge> fc_celebrity_threshold (fs_cfg S)
                 then (Inr (), mark_celebrity (fs_celebrities S) (fe_creator e) s2)
                 else if reached + int (length targets) \<ge> fc_max_fans (fs_cfg S)
                 then (Inr (), mark_celebrity (fs_celebrities S) (fe_creator e) s2)
                 else if next_cursor = [] \<or> next_cursor = cursor \<or> int (length targets) < fc_batch_size (fs_cfg S)
                 then (Inr (), s2)
                 else push_loop S e next_cursor (reached + int (length targets)) s2))))"
  by pat_completeness auto

termination
  by (relation "measure (\<lambda>(S, e, cursor, reached, s). nat (fc_celebrity_threshold (fs_cfg S) - reached))")
    (auto simp: neq_Nil_conv)

declare push_loop.simps [simp del]

definition push_to_followers :: "'s fanout_service \<Rightarrow> fanout_event \<Rightarrow> 's \<Rightarrow> (fan_error + unit) \<times> 's" where
  "push_to_followers S e s = push_loop S e [] 0 s"

definition FanoutPost :: "'s fanout_service \<Rightarrow> fanout_event \<Rightarrow> 's \<Rightarrow> (fan_error + unit) \<times> 's" where
  "FanoutPost S e s = (case write_author_box S e s of
      (Inl err, s1) \<Rightarrow> (Inl (FanIo err), s1)
    | (Inr _, s1) \<Rightarrow>
        (case IsCelebrity (fs_celebrities S) (fe_creator e) s1 of
           ((celebrity, known), s2) \<Rightarrow> (if known \<and> celebrity then (Inr (), s2) else push_to_followers S e s2)))"

definition RemovePost :: "'s fanout_service \<Rightarrow> uint64 \<Rightarrow> uint64 \<Rightarrow> 's \<Rightarrow> (fan_error + unit) \<times> 's" where
  "RemovePost S author post s = (case wr (fs_redis S) (r_zrem (fs_redis S) (author_box_key author) (format_uint post)) s of
      (Inl e, s1) \<Rightarrow> (Inl (FanIo e), s1)
    | (Inr _, s1) \<Rightarrow> (Inr (), s1))"

section \<open>The hooks of the relation service\<close>

definition OnFollow :: "'s fanout_service \<Rightarrow> uint64 \<Rightarrow> uint64 \<Rightarrow> 's \<Rightarrow> (fan_error + unit) \<times> 's" where
  "OnFollow S fan author s =
    (if fc_backfill (fs_cfg S) \<le> 0 then (Inr (), s)
     else (case IsCelebrity (fs_celebrities S) author s of
         ((celebrity, known), s1) \<Rightarrow>
           (if known \<and> celebrity then (Inr (), s1)
            else (let R = fs_redis S; k = timeline_key fan in
              case rd R (r_zrevrange R (author_box_key author) 0 (nat (fc_backfill (fs_cfg S)))) s1 of
                (Inl e, s2) \<Rightarrow> (Inl (FanIo e), s2)
              | (Inr items, s2) \<Rightarrow>
                  (if items = [] then (Inr (), s2)
                   else (case wr R (\<lambda>s. r_expire R k (fc_timeline_ttl (fs_cfg S)) (r_zkeep_top R k (nat (fc_timeline_max (fs_cfg S)))
                               (fold (\<lambda>(m, sc). r_zadd R k sc m) items s))) s2 of
                       (Inl e, s3) \<Rightarrow> (Inl (FanIo e), s3)
                     | (Inr _, s3) \<Rightarrow> (Inr (), s3)))))))"

definition OnUnfollow :: "'s fanout_service \<Rightarrow> uint64 \<Rightarrow> uint64 \<Rightarrow> 's \<Rightarrow> (fan_error + unit) \<times> 's" where
  "OnUnfollow S fan author s = (let R = fs_redis S in
     case rd R (\<lambda>s. map fst (r_zrevrange R (author_box_key author) 0 (r_zcard R (author_box_key author) s) s)) s of
       (Inl e, s1) \<Rightarrow> (Inl (FanIo e), s1)
     | (Inr members, s1) \<Rightarrow>
         (if members = [] then (Inr (), s1)
          else (case wr R (fold (r_zrem R (timeline_key fan)) members) s1 of
              (Inl e, s2) \<Rightarrow> (Inl (FanIo e), s2)
            | (Inr _, s2) \<Rightarrow> (Inr (), s2))))"

section \<open>The events of posts\<close>

record publish_payload =
  pp_id :: uint64
  pp_creator :: uint64
  pp_published_at :: int
  pp_visible :: string

definition visible_in_feeds :: "string \<Rightarrow> bool" where
  "visible_in_feeds v = (v = ''public'' \<or> v = ''followers'')"

definition publish_handle_row ::
  "publish_payload decoder \<Rightarrow> 's fanout_service \<Rightarrow> outbox_row \<Rightarrow> 's \<Rightarrow> (fan_error + unit) \<times> 's" where
  "publish_handle_row dec S row s =
    (if row_type row \<notin> {''KnowPostPublished'', ''KnowPostDeleted'', ''KnowPostVisibilityUpdated''} \<or> row_payload row = [] then (Inr (), s)
     else (case dec (row_payload row) of
         Inl err \<Rightarrow> (Inr (), s)
       | Inr p \<Rightarrow>
           (if pp_id p = 0 \<or> pp_creator p = 0 then (Inr (), s)
            else if row_type row = ''KnowPostDeleted'' \<or> row_type row = ''KnowPostVisibilityUpdated'' \<and> \<not> visible_in_feeds (pp_visible p)
            then RemovePost S (pp_creator p) (pp_id p) s
            else if row_type row = ''KnowPostVisibilityUpdated'' then (Inr (), s)
            else if pp_published_at p \<le> 0 then (Inr (), s)
            else FanoutPost S \<lparr>fe_post = pp_id p, fe_creator = pp_creator p, fe_created = pp_published_at p\<rparr> s)))"

section \<open>The reading side\<close>

record timeline_entry =
  te_post :: uint64
  te_score :: int

record timeline_cursor =
  tc_set :: bool
  tc_score :: int
  tc_post :: uint64

record 's timeline_reader =
  tr_redis :: "'s redis"
  tr_following :: "'s user_lister"
  tr_celebrities :: "'s celebrity_registry"
  tr_cfg :: fanout_config

definition new_timeline_reader :: "'s redis \<Rightarrow> 's user_lister \<Rightarrow> 's celebrity_registry \<Rightarrow> fanout_config \<Rightarrow> 's timeline_reader" where
  "new_timeline_reader R lister reg cfg =
     \<lparr>tr_redis = R, tr_following = lister, tr_celebrities = reg, tr_cfg = with_fanout_defaults cfg\<rparr>"

definition encode_timeline_cursor :: "timeline_entry \<Rightarrow> string" where
  "encode_timeline_cursor e = ''t:'' @ format_int (te_score e) @ colon @ format_uint (te_post e)"

definition no_timeline_cursor :: timeline_cursor where
  "no_timeline_cursor = \<lparr>tc_set = False, tc_score = 0, tc_post = 0\<rparr>"

definition parse_timeline_cursor :: "string \<Rightarrow> timeline_cursor option" where
  "parse_timeline_cursor raw =
    (if raw = [] then Some no_timeline_cursor
     else (case cut_prefix ''t:'' raw of
         None \<Rightarrow> None
       | Some body \<Rightarrow>
           (case str_cut CHR '':'' body of
              None \<Rightarrow> None
            | Some (ts, i) \<Rightarrow>
                (case (parse_int ts, parse_uint i) of
                   (Some t, Some p) \<Rightarrow> Some \<lparr>tc_set = True, tc_score = t, tc_post = p\<rparr>
                 | _ \<Rightarrow> None))))"

definition after_cursor :: "timeline_cursor \<Rightarrow> timeline_entry \<Rightarrow> bool" where
  "after_cursor c e =
    (if \<not> tc_set c then True
     else if te_score e \<noteq> tc_score c then te_score e < tc_score c else te_post e < tc_post c)"

definition range_max :: "timeline_cursor \<Rightarrow> int option" where
  "range_max c = (if tc_set c then Some (tc_score c) else None)"

definition tie_slack :: nat where "tie_slack = 16"

definition to_entries :: "zset \<Rightarrow> timeline_entry list" where
  "to_entries items = List.map_filter (\<lambda>(m, sc). map_option (\<lambda>i. \<lparr>te_post = i, te_score = sc\<rparr>) (parse_uint m)) items"

definition read_inbox :: "'s timeline_reader \<Rightarrow> uint64 \<Rightarrow> timeline_cursor \<Rightarrow> nat \<Rightarrow> 's \<Rightarrow> (io_error + timeline_entry list) \<times> 's" where
  "read_inbox r u cur need s =
    map_ok to_entries (rd (tr_redis r) (r_zrevrangebyscore (tr_redis r) (timeline_key u) (range_max cur) need) s)"

definition following_scan_page_size :: int where "following_scan_page_size = 500"
definition following_scan_max_pages :: nat where "following_scan_max_pages = 40"

definition take_celebs :: "nat \<Rightarrow> uint64 list \<Rightarrow> uint64 list \<Rightarrow> uint64 list" where
  "take_celebs n celebs found = take (max n (length celebs)) (celebs @ found)"

text \<open>One call per page, at most \<open>pages\<close> more of them.\<close>

fun scan_following ::
  "'s timeline_reader \<Rightarrow> uint64 \<Rightarrow> nat \<Rightarrow> string \<Rightarrow> uint64 list \<Rightarrow> 's \<Rightarrow> (fan_error + uint64 list) \<times> 's" where
  "scan_following r u 0 cursor celebs s = (Inr celebs, s)"
| "scan_following r u (Suc pages) cursor celebs s =
    (case tr_following r u following_scan_page_size cursor s of
       (Inl e, s1) \<Rightarrow> (Inl (FanList e), s1)
     | (Inr (batch, next_cursor), s1) \<Rightarrow>
         (if batch = [] then (Inr celebs, s1)
          else (case among (tr_celebrities r) batch s1 of
              (Inl e, s2) \<Rightarrow> (Inl (FanIo e), s2)
            | (Inr found, s2) \<Rightarrow>
                (let celebs1 = take_celebs (nat (fc_max_pull (tr_cfg r))) celebs found in
                 if found \<noteq> [] \<and> int (length celebs1) \<ge> fc_max_pull (tr_cfg r) then (Inr celebs1, s2)
                 else if next_cursor = [] \<or> next_cursor = cursor \<or> int (length batch) < following_scan_page_size then (Inr celebs1, s2)
                 else scan_following r u pages next_cursor celebs1 s2))))"

definition followed_celebrities :: "'s timeline_reader \<Rightarrow> uint64 \<Rightarrow> 's \<Rightarrow> (fan_error + uint64 list) \<times> 's" where
  "followed_celebrities r u s = scan_following r u following_scan_max_pages [] [] s"

definition read_celebrity_boxes ::
  "'s timeline_reader \<Rightarrow> uint64 \<Rightarrow> timeline_cursor \<Rightarrow> nat \<Rightarrow> 's \<Rightarrow> (fan_error + timeline_entry list) \<times> 's" where
  "read_celebrity_boxes r u cur need s = (case followed_celebrities r u s of
      (Inl e, s1) \<Rightarrow> (Inl e, s1)
    | (Inr celebs, s1) \<Rightarrow>
        (if celebs = [] then (Inr [], s1)
         else (case rd (tr_redis r) (\<lambda>s. concat (map (\<lambda>c. to_entries (r_zrevrangebyscore (tr_redis r) (author_box_key c) (range_max cur) need s)) celebs)) s1 of
             (Inl e, s2) \<Rightarrow> (Inl (FanIo e), s2)
           | (Inr es, s2) \<Rightarrow> (Inr es, s2))))"

fun first_of_each :: "uint64 list \<Rightarrow> timeline_entry list \<Rightarrow> timeline_entry list" where
  "first_of_each seen [] = []"
| "first_of_each seen (e # es) =
    (if te_post e \<in> set seen then first_of_each seen es else e # first_of_each (te_post e # seen) es)"

text \<open>The order is total on the entries, which have different posts by then.\<close>

definition newest_entries :: "timeline_entry list \<Rightarrow> timeline_entry list" where
  "newest_entries es = sort_key (\<lambda>e. - te_score e) (sort_key (\<lambda>e. - uint (te_post e)) es)"

definition merge_timelines :: "timeline_entry list \<Rightarrow> timeline_entry list \<Rightarrow> nat \<Rightarrow> timeline_entry list" where
  "merge_timelines pushed pulled limit =
    (let merged = newest_entries (first_of_each [] (pushed @ pulled))
     in if limit > 0 \<and> length merged > limit then take limit merged else merged)"

definition HomeTimeline ::
  "'s timeline_reader \<Rightarrow> uint64 \<Rightarrow> string \<Rightarrow> int \<Rightarrow> 's \<Rightarrow> (fan_error + timeline_entry list \<times> string \<times> bool) \<times> 's" where
  "HomeTimeline r u cursor limit0 s = (let limit = nat (if limit0 \<le> 0 then 20 else limit0) in
     case parse_timeline_cursor cursor of
       None \<Rightarrow> (Inl BadTimelineCursor, s)
     | Some cur \<Rightarrow>
         (case read_inbox r u cur (limit + 1 + tie_slack) s of
            (Inl e, s1) \<Rightarrow> (Inl (FanIo e), s1)
          | (Inr pushed, s1) \<Rightarrow>
              (let (q, s2) = read_celebrity_boxes r u cur (limit + 1 + tie_slack) s1;
                   pulled = (case q of Inl _ \<Rightarrow> [] | Inr es \<Rightarrow> es);
                   page = take (limit + 1) (filter (after_cursor cur) (merge_timelines pushed pulled 0));
                   shown = take limit page
               in (Inr (shown, if shown = [] then [] else encode_timeline_cursor (last shown), length page > limit), s2))))"

definition HomeTimelinePage ::
  "'s timeline_reader \<Rightarrow> uint64 \<Rightarrow> string \<Rightarrow> int \<Rightarrow> 's \<Rightarrow> (fan_error + uint64 list \<times> string \<times> bool) \<times> 's" where
  "HomeTimelinePage r u cursor limit s =
    map_ok (\<lambda>(es, next_cursor, has_more). (map te_post es, next_cursor, has_more)) (HomeTimeline r u cursor limit s)"

end
