(* ===== verification/Fanout_Push.thy ===== *)
theory Fanout_Push
  imports Fanout_Model
begin

text \<open>
  The writing side of the timeline: what a publication leaves in the inboxes of the
  followers and in the registry of celebrities. The list of followers is read page
  by page through an interface, which \<open>Fanout_Lists\<close> interprets on the relation
  service.
\<close>

section \<open>The interface of a list of users\<close>

locale redis_lists_frame = redis_frame R part for R :: "'s redis" and part :: "'s \<Rightarrow> 'p" +
  assumes frame_zadd [simp]: "part (r_zadd R k sc m s) = part s"
    and frame_zkeep_top [simp]: "part (r_zkeep_top R k n s) = part s"
    and frame_zrem [simp]: "part (r_zrem R k m s) = part s"
    and frame_sadd [simp]: "part (r_sadd R k m s) = part s"
    and frame_srem [simp]: "part (r_srem R k m s) = part s"

text \<open>
  \<open>pos i\<close> is the cursor behind the first \<open>i\<close> users, \<open>ok\<close> what the pages need of the
  part of the world the list is read from and of its cached copy under \<open>key\<close>.
\<close>

locale user_pages = redis_up R view + redis_lists_frame R part
  for R :: "'s redis" and view :: "'s \<Rightarrow> keyspace" and part :: "'s \<Rightarrow> 'p" +
  fixes lister :: "int \<Rightarrow> string \<Rightarrow> 's \<Rightarrow> (list_error + uint64 list \<times> string) \<times> 's"
    and key :: string and ok :: "'p \<Rightarrow> zset \<Rightarrow> bool" and users :: "uint64 list" and pos :: "nat \<Rightarrow> string"
  assumes key_of_list: "has_prefix ''z:'' key"
    and pos_start: "pos 0 = []"
    and pos_new: "ok p z \<Longrightarrow> i < j \<Longrightarrow> j \<le> length users \<Longrightarrow> pos j \<noteq> [] \<and> pos j \<noteq> pos i"
    and users_distinct: "ok p z \<Longrightarrow> distinct users"
    and next_page: "ok (part s) (ks_zset (view s) key) \<Longrightarrow> i \<le> length users \<Longrightarrow> 0 < n \<Longrightarrow>
      \<exists>s1. lister (int n) (pos i) s = (Inr (take n (drop i users), if i = length users then [] else pos (min (i + n) (length users))), s1) \<and>
        part s1 = part s \<and> view s1 = view s"

section \<open>Inboxes after a push\<close>

lemma drop_take_split:
  assumes "i \<le> j" "j \<le> n" "j \<le> length xs"
  shows "drop i (take n xs) = drop i (take j xs) @ drop j (take n xs)"
proof -
  have "take n xs = take j xs @ drop j (take n xs)"
    using append_take_drop_id[of j "take n xs"] assms(2) by (simp add: min_absorb1)
  then have "drop i (take n xs) = drop i (take j xs @ drop j (take n xs))" by (rule arg_cong)
  then show ?thesis using assms by simp
qed

definition pushed_zset :: "nat \<Rightarrow> string \<Rightarrow> int \<Rightarrow> zset \<Rightarrow> zset" where
  "pushed_zset n m sc z = zs_keep_top n (zs_add m sc z)"

definition pushed_to :: "uint64 set \<Rightarrow> nat \<Rightarrow> string \<Rightarrow> int \<Rightarrow> (string \<Rightarrow> zset) \<Rightarrow> string \<Rightarrow> zset" where
  "pushed_to U n m sc Z k = (if k \<in> timeline_key ` U then pushed_zset n m sc (Z k) else Z k)"

lemma timeline_key_inj [simp]: "timeline_key u = timeline_key v \<longleftrightarrow> u = v"
  by (simp add: timeline_key_def)

lemma author_box_key_inj [simp]: "author_box_key u = author_box_key v \<longleftrightarrow> u = v"
  by (simp add: author_box_key_def)

lemma fanout_keys_differ [simp]: "timeline_key u \<noteq> author_box_key v" "author_box_key v \<noteq> timeline_key u"
  by (simp_all add: timeline_key_def author_box_key_def)

lemma list_key_differs:
  assumes "has_prefix ''z:'' key"
  shows "key \<noteq> timeline_key u" "key \<noteq> author_box_key u"
  using assms by (auto simp: has_prefix_iff timeline_key_def author_box_key_def)

lemma pushed_to_other [simp]:
  "k \<notin> timeline_key ` U \<Longrightarrow> pushed_to U n m sc Z k = Z k"
  by (simp add: pushed_to_def)

lemma pushed_to_empty [simp]: "pushed_to {} n m sc Z = Z"
  by (simp add: pushed_to_def fun_eq_iff)

lemma pushed_to_Un:
  "U \<inter> V = {} \<Longrightarrow> pushed_to V n m sc (pushed_to U n m sc Z) = pushed_to (U \<union> V) n m sc Z"
  by (auto simp: pushed_to_def fun_eq_iff)

lemma pushed_to_inbox: "pushed_to U n m sc Z (timeline_key f) = (if f \<in> U then pushed_zset n m sc (Z (timeline_key f)) else Z (timeline_key f))"
  by (auto simp: pushed_to_def)

lemma pushed_to_box [simp]: "pushed_to U n m sc Z (author_box_key a) = Z (author_box_key a)"
  by (rule pushed_to_other) auto

section \<open>The writing service\<close>

text \<open>The counter of followers does not make the author a celebrity while the hashes stay as they are.\<close>

definition not_counted_up :: "'s fanout_service \<Rightarrow> ('s \<Rightarrow> keyspace) \<Rightarrow> uint64 \<Rightarrow> 's \<Rightarrow> bool" where
  "not_counted_up F view a s = (\<forall>count x. cg_counter (fs_celebrities F) = Some count \<longrightarrow> ks_hash (view x) = ks_hash (view s) \<longrightarrow>
     snd (fst (count a x)) \<longrightarrow> fst (fst (count a x)) < fc_celebrity_threshold (fs_cfg F))"

locale fanout_writer = user_pages "fs_redis F" view part "fs_followers F author" key ok fans pos
  for F :: "'s fanout_service" and view :: "'s \<Rightarrow> keyspace" and part :: "'s \<Rightarrow> 'p"
    and author :: uint64 and key :: string and ok :: "'p \<Rightarrow> zset \<Rightarrow> bool" and fans :: "uint64 list" and pos :: "nat \<Rightarrow> string" +
  assumes same_redis: "cg_redis (fs_celebrities F) = fs_redis F"
    and same_threshold: "cg_threshold (fs_celebrities F) = fc_celebrity_threshold (fs_cfg F)"
    and limits_positive: "0 < fc_celebrity_threshold (fs_cfg F)" "0 < fc_batch_size (fs_cfg F)" "0 < fc_max_fans (fs_cfg F)"
    and count_reads: "cg_counter (fs_celebrities F) = Some count \<Longrightarrow> view (snd (count a s)) = view s \<and> part (snd (count a s)) = part s"

context fanout_writer
begin

abbreviation (input) inboxes :: "uint64 set \<Rightarrow> uint64 \<Rightarrow> int \<Rightarrow> (string \<Rightarrow> zset) \<Rightarrow> string \<Rightarrow> zset" where
  "inboxes U post sc \<equiv> pushed_to U (nat (fc_timeline_max (fs_cfg F))) (format_uint post) sc"

lemma push_one_view [simp]:
  "ks_zset (view (push_one F (format_uint post) sc f s)) = inboxes {f} post sc (ks_zset (view s))"
  "ks_set (view (push_one F m sc f s)) = ks_set (view s)" "part (push_one F m sc f s) = part s"
  by (auto simp: push_one_def Let_def pushed_to_def pushed_zset_def fun_eq_iff)

lemma push_fold_view:
  "distinct us \<Longrightarrow> ks_zset (view (fold (push_one F (format_uint post) sc) us s)) = inboxes (set us) post sc (ks_zset (view s))"
  "ks_set (view (fold (push_one F m sc) us s)) = ks_set (view s)" "part (fold (push_one F m sc) us s) = part s"
proof (induction us arbitrary: s)
  case (Cons f us)
  { case 1
    then show ?case using Cons.IH(1) by (simp add: pushed_to_Un) }
  { case 2 show ?case using Cons.IH(2) by simp }
  { case 3 show ?case using Cons.IH(3) by simp }
qed simp_all

lemma wr_up_part:
  assumes "\<And>s. part (f s) = part s"
  obtains s1 where "view s1 = view s" "part s1 = part s" "wr (fs_redis F) f s = (Inr (), f s1)"
proof -
  obtain s1 where s1: "view s1 = view s" "wr (fs_redis F) f s = (Inr (), f s1)" by (rule wr_upE)
  have "part (snd (wr (fs_redis F) f s)) = part s" by (rule frame_wr) (rule assms)
  with s1 assms[of s1] that show ?thesis by simp
qed

lemma mark_view [simp]:
  "ks_zset (view (mark_celebrity (fs_celebrities F) a s)) = ks_zset (view s)"
  "ks_set (view (mark_celebrity (fs_celebrities F) a s)) =
    (ks_set (view s))(celebrity_set_key := insert (format_uint a) (ks_set (view s) celebrity_set_key))"
proof -
  let ?f = "r_sadd (fs_redis F) celebrity_set_key (format_uint a)"
  obtain s1 where "view s1 = view s" "part s1 = part s" "wr (fs_redis F) ?f s = (Inr (), ?f s1)"
    using frame_sadd by (rule wr_up_part)
  then show "ks_zset (view (mark_celebrity (fs_celebrities F) a s)) = ks_zset (view s)"
    "ks_set (view (mark_celebrity (fs_celebrities F) a s)) =
      (ks_set (view s))(celebrity_set_key := insert (format_uint a) (ks_set (view s) celebrity_set_key))"
    by (simp_all add: mark_celebrity_def same_redis)
qed

text \<open>The loop from the \<open>i\<close>-th fan on.\<close>

lemma push_loop_reaches:
  assumes "ok (part s) (ks_zset (view s) key)" "i \<le> length fans" "fe_creator e = author"
    and "int i < min (fc_celebrity_threshold (fs_cfg F)) (fc_max_fans (fs_cfg F))" "push_loop F e (pos i) (int i) s = (r, s')"
  shows "r = Inr () \<and> (\<exists>n. i \<le> n \<and> n \<le> length fans \<and>
    ks_zset (view s') = inboxes (set (drop i (take n fans))) (fe_post e) (fe_created e) (ks_zset (view s)) \<and>
    (\<forall>a. a \<noteq> celebrity_set_key \<longrightarrow> ks_set (view s') a = ks_set (view s) a) \<and>
    ks_set (view s) celebrity_set_key \<subseteq> ks_set (view s') celebrity_set_key \<and>
    (n < length fans \<longrightarrow> format_uint author \<in> ks_set (view s') celebrity_set_key) \<and>
    int n < min (fc_celebrity_threshold (fs_cfg F)) (fc_max_fans (fs_cfg F)) + fc_batch_size (fs_cfg F))"
  using assms
proof (induction "length fans - i" arbitrary: i s rule: less_induct)
  case less
  define b where "b = nat (fc_batch_size (fs_cfg F))"
  have b: "fc_batch_size (fs_cfg F) = int b" "0 < b" using limits_positive(2) by (simp_all add: b_def)
  define us where "us = take b (drop i fans)"
  define j where "j = min (i + b) (length fans)"
  obtain s1 where s1: "fs_followers F author (int b) (pos i) s = (Inr (us, if i = length fans then [] else pos j), s1)"
    "part s1 = part s" "view s1 = view s"
    using next_page[OF less.prems(1,2) b(2)] unfolding us_def j_def by blast
  show ?case
  proof (cases "i = length fans")
    case True
    then have "push_loop F e (pos i) (int i) s = (Inr (), s1)"
      using less.prems(3) s1(1) b(1) by (subst push_loop.simps) (simp add: us_def)
    then have "r = Inr ()" "s' = s1" using less.prems(5) by simp_all
    then show ?thesis using True s1 b less.prems(4) by (intro conjI exI[of _ i]) auto
  next
    case False
    then have i: "i < length fans" using less.prems(2) by simp
    have dist: "distinct fans" using users_distinct less.prems(1) by blast
    have page: "us = drop i (take j fans)" "length us = j - i" "us \<noteq> []" "i < j" "j \<le> length fans" using i b(2)
      by (auto simp: us_def j_def drop_take min_def)
    obtain s2 where s2: "view s2 = view s1" "part s2 = part s1"
      "push_batch F us (format_uint (fe_post e)) (fe_created e) s1 = (Inr (), fold (push_one F (format_uint (fe_post e)) (fe_created e)) us s2)"
      unfolding push_batch_def by (rule wr_up_part[OF push_fold_view(3)])
    define s3 where "s3 = fold (push_one F (format_uint (fe_post e)) (fe_created e)) us s2"
    have dpage: "distinct us" using dist by (simp add: us_def)
    have v3: "ks_zset (view s3) = inboxes (set us) (fe_post e) (fe_created e) (ks_zset (view s))"
      "ks_set (view s3) = ks_set (view s)" "part s3 = part s"
      using push_fold_view(1)[OF dpage] push_fold_view(2,3) s1 s2 by (simp_all add: s3_def)
    have jb: "int j < min (fc_celebrity_threshold (fs_cfg F)) (fc_max_fans (fs_cfg F)) + fc_batch_size (fs_cfg F)"
    proof -
      have "int j \<le> int i + int b" by (simp add: j_def)
      then show ?thesis using less.prems(4) b by linarith
    qed
    let ?reached = "int i + int (length us)"
    have reached: "?reached = int j" using page(2,4) by simp
    have step: "push_loop F e (pos i) (int i) s =
        (if int j \<ge> fc_celebrity_threshold (fs_cfg F) then (Inr (), mark_celebrity (fs_celebrities F) author s3)
         else if int j \<ge> fc_max_fans (fs_cfg F) then (Inr (), mark_celebrity (fs_celebrities F) author s3)
         else if pos j = [] \<or> pos j = pos i \<or> int (length us) < int b then (Inr (), s3)
         else push_loop F e (pos j) (int j) s3)"
      using s1(1) s2(3) page(3) i less.prems(3) b(1)
      by (subst push_loop.simps) (simp add: reached s3_def)
    have new: "pos j \<noteq> []" "pos j \<noteq> pos i" using pos_new[OF less.prems(1) page(4,5)] by simp_all
    consider (stop) "int j \<ge> fc_celebrity_threshold (fs_cfg F) \<or> int j \<ge> fc_max_fans (fs_cfg F)"
      | (short) "int j < fc_celebrity_threshold (fs_cfg F)" "int j < fc_max_fans (fs_cfg F)" "length us < b"
      | (go) "int j < fc_celebrity_threshold (fs_cfg F)" "int j < fc_max_fans (fs_cfg F)" "\<not> length us < b"
      by linarith
    then show ?thesis
    proof cases
      case stop
      then have rs: "r = Inr ()" "s' = mark_celebrity (fs_celebrities F) author s3" using less.prems(5) step by (auto split: if_splits)
      then show ?thesis using rs v3 jb page(4,5) by (intro conjI exI[of _ j]) (simp_all add: subset_insertI flip: page(1))
    next
      case short
      then have rs: "r = Inr ()" "s' = s3" using less.prems(5) step by (auto split: if_splits)
      have j: "\<not> j < length fans" using short(3) page(2,4,5) by (simp add: j_def)
      then have rest: "drop i fans = us" using page(1) by simp
      then show ?thesis using rs v3 jb page(4,5) j by (intro conjI exI[of _ j]) (simp_all add: rest)
    next
      case go
      have rec: "push_loop F e (pos j) (int j) s3 = (r, s')" using less.prems(5) step new go by (auto split: if_splits)
      have ok3: "ok (part s3) (ks_zset (view s3) key)"
        using less.prems(1) v3 list_key_differs[OF key_of_list] by (simp add: pushed_to_def image_iff)
      obtain n where n: "r = Inr ()" "j \<le> n" "n \<le> length fans"
        "ks_zset (view s') = inboxes (set (drop j (take n fans))) (fe_post e) (fe_created e) (ks_zset (view s3))"
        "\<forall>a. a \<noteq> celebrity_set_key \<longrightarrow> ks_set (view s') a = ks_set (view s3) a"
        "ks_set (view s3) celebrity_set_key \<subseteq> ks_set (view s') celebrity_set_key"
        "n < length fans \<longrightarrow> format_uint author \<in> ks_set (view s') celebrity_set_key"
        "int n < min (fc_celebrity_threshold (fs_cfg F)) (fc_max_fans (fs_cfg F)) + fc_batch_size (fs_cfg F)"
      proof -
        have "length fans - j < length fans - i" "j \<le> length fans" using page(4,5) by linarith+
        from less.hyps[OF this(1) ok3 this(2) less.prems(3) _ rec] go(1,2) that show ?thesis by force
      qed
      have parts: "drop i (take n fans) = us @ drop j (take n fans)"
        unfolding page(1) using n(2,3) page(4) by (intro drop_take_split) linarith+
      have disj: "set us \<inter> set (drop j (take n fans)) = {}"
        using parts dist distinct_drop[OF distinct_take[OF dist], of i n] by simp
      have zs: "ks_zset (view s') = inboxes (set (drop i (take n fans))) (fe_post e) (fe_created e) (ks_zset (view s))"
        unfolding n(4) v3(1) parts set_append using disj by (rule pushed_to_Un)
      show ?thesis using n zs v3 page(4) by (intro conjI exI[of _ n]) auto
    qed
  qed
qed

text \<open>What the registry answers, and what it does to the set.\<close>

lemma registry_read:
  obtains s1 where "view s1 = view s" "part s1 = part s"
    "rd (fs_redis F) (r_sismember (fs_redis F) celebrity_set_key (format_uint a)) s =
      (Inr (format_uint a \<in> ks_set (view s) celebrity_set_key), s1)"
proof -
  obtain s1 where s1: "view s1 = view s" "rd (fs_redis F) (r_sismember (fs_redis F) celebrity_set_key (format_uint a)) s =
      (Inr (r_sismember (fs_redis F) celebrity_set_key (format_uint a) s1), s1)" by (rule rd_upE)
  have "part (snd (rd (fs_redis F) (r_sismember (fs_redis F) celebrity_set_key (format_uint a)) s)) = part s"
    unfolding rd_def by (rule frame_roundtrip) simp
  with s1 that show ?thesis by simp
qed

lemma demote_keeps:
  "ks_zset (view (demote (fs_celebrities F) a s)) = ks_zset (view s)" "part (demote (fs_celebrities F) a s) = part s"
proof -
  let ?f = "r_srem (fs_redis F) celebrity_set_key (format_uint a)"
  obtain s1 where "view s1 = view s" "part s1 = part s" "wr (fs_redis F) ?f s = (Inr (), ?f s1)"
    using frame_srem by (rule wr_up_part)
  then show "ks_zset (view (demote (fs_celebrities F) a s)) = ks_zset (view s)" "part (demote (fs_celebrities F) a s) = part s"
    by (simp_all add: demote_def same_redis)
qed

lemma is_celebrity_keeps:
  assumes "IsCelebrity (fs_celebrities F) a s = ((c, known), s')"
  shows "ks_zset (view s') = ks_zset (view s) \<and> part s' = part s"
proof -
  obtain s1 where s1: "view s1 = view s" "part s1 = part s"
    "rd (fs_redis F) (r_sismember (fs_redis F) celebrity_set_key (format_uint a)) s =
      (Inr (format_uint a \<in> ks_set (view s) celebrity_set_key), s1)" by (rule registry_read)
  show ?thesis
  proof (cases "cg_counter (fs_celebrities F)")
    case None
    then show ?thesis using assms s1 by (auto simp: IsCelebrity_def same_redis split: if_splits)
  next
    case (Some count)
    then show ?thesis using assms s1 count_reads[OF Some, of a s1]
      by (cases "count a s1") (auto simp: IsCelebrity_def same_redis demote_keeps split: if_splits prod.splits)
  qed
qed

text \<open>A celebrity that is known is in the set, or its followers were counted.\<close>

lemma is_celebrity_member:
  assumes "IsCelebrity (fs_celebrities F) a s = ((True, True), s')"
    and "not_counted_up F view a s"
  shows "format_uint a \<in> ks_set (view s') celebrity_set_key"
proof -
  obtain s1 where s1: "view s1 = view s" "part s1 = part s"
    "rd (fs_redis F) (r_sismember (fs_redis F) celebrity_set_key (format_uint a)) s =
      (Inr (format_uint a \<in> ks_set (view s) celebrity_set_key), s1)" by (rule registry_read)
  show ?thesis
  proof (cases "cg_counter (fs_celebrities F)")
    case None
    then show ?thesis using assms(1) s1 by (auto simp: IsCelebrity_def same_redis split: if_splits)
  next
    case (Some count)
    obtain n ok s2 where c: "count a s1 = ((n, ok), s2)" by (metis prod.exhaust)
    have "ok \<Longrightarrow> n < fc_celebrity_threshold (fs_cfg F)" using assms(2) Some c s1(1) by (metis not_counted_up_def fst_conv snd_conv)
    then show ?thesis using assms(1) s1 Some c count_reads[OF Some, of a s1]
      by (auto simp: IsCelebrity_def same_redis same_threshold split: if_splits)
  qed
qed

lemma author_box_written:
  obtains s1 where "write_author_box F e s = (Inr (), s1)" "part s1 = part s" "ks_set (view s1) = ks_set (view s)" "ks_hash (view s1) = ks_hash (view s)"
    "ks_zset (view s1) = (ks_zset (view s))(author_box_key (fe_creator e) :=
      pushed_zset (nat (fc_box_max (fs_cfg F))) (format_uint (fe_post e)) (fe_created e) (ks_zset (view s) (author_box_key (fe_creator e))))"
proof -
  let ?k = "author_box_key (fe_creator e)"
  let ?f = "\<lambda>s. r_expire (fs_redis F) ?k (fc_box_ttl (fs_cfg F)) (r_zkeep_top (fs_redis F) ?k (nat (fc_box_max (fs_cfg F)))
       (r_zadd (fs_redis F) ?k (fe_created e) (format_uint (fe_post e)) s))"
  have "part (?f s) = part s" for s by simp
  then obtain s1 where s1: "view s1 = view s" "part s1 = part s" "wr (fs_redis F) ?f s = (Inr (), ?f s1)" by (rule wr_up_part)
  show ?thesis by (rule that[of "?f s1"]) (use s1 in \<open>simp_all add: write_author_box_def Let_def pushed_zset_def fun_eq_iff\<close>)
qed

lemma fanout_post_result:
  assumes "ok (part s) (ks_zset (view s) key)" "fe_creator e = author" "FanoutPost F e s = (r, s')"
    and "not_counted_up F view author s"
  shows "r = Inr () \<and>
    ks_zset (view s') (author_box_key author) = pushed_zset (nat (fc_box_max (fs_cfg F))) (format_uint (fe_post e)) (fe_created e) (ks_zset (view s) (author_box_key author)) \<and>
    (\<exists>n \<le> length fans.
      (\<forall>f. ks_zset (view s') (timeline_key f) = (if f \<in> set (take n fans)
         then pushed_zset (nat (fc_timeline_max (fs_cfg F))) (format_uint (fe_post e)) (fe_created e) (ks_zset (view s) (timeline_key f))
         else ks_zset (view s) (timeline_key f))) \<and>
      (n < length fans \<longrightarrow> format_uint author \<in> ks_set (view s') celebrity_set_key) \<and>
      int n < min (fc_celebrity_threshold (fs_cfg F)) (fc_max_fans (fs_cfg F)) + fc_batch_size (fs_cfg F))"
proof -
  obtain s1 where s1: "write_author_box F e s = (Inr (), s1)" "part s1 = part s" "ks_set (view s1) = ks_set (view s)" "ks_hash (view s1) = ks_hash (view s)"
    "ks_zset (view s1) = (ks_zset (view s))(author_box_key author :=
      pushed_zset (nat (fc_box_max (fs_cfg F))) (format_uint (fe_post e)) (fe_created e) (ks_zset (view s) (author_box_key author)))"
    using author_box_written[of e s] assms(2) by metis
  obtain c known s2 where c: "IsCelebrity (fs_celebrities F) author s1 = ((c, known), s2)" by (metis prod.exhaust)
  note k2 = is_celebrity_keeps[OF c]
  have small: "int 0 < min (fc_celebrity_threshold (fs_cfg F)) (fc_max_fans (fs_cfg F)) + fc_batch_size (fs_cfg F)"
    "int 0 < min (fc_celebrity_threshold (fs_cfg F)) (fc_max_fans (fs_cfg F))" using limits_positive by simp_all
  show ?thesis
  proof (cases "known \<and> c")
    case True
    then have rs: "r = Inr ()" "s' = s2" using assms(2,3) s1(1) c by (auto simp: FanoutPost_def)
    have "format_uint author \<in> ks_set (view s2) celebrity_set_key"
      using is_celebrity_member[of author s1 s2] c True assms(4) s1(4) by (simp add: not_counted_up_def)
    then show ?thesis using rs k2 s1(5) small by (intro conjI exI[of _ 0]) auto
  next
    case False
    then have p: "push_loop F e (pos 0) (int 0) s2 = (r, s')"
      using assms(2,3) s1(1) c pos_start by (auto simp: FanoutPost_def push_to_followers_def)
    have "ok (part s2) (ks_zset (view s2) key)"
      using assms(1) k2 s1 list_key_differs[OF key_of_list] by simp
    from push_loop_reaches[OF this _ assms(2) small(2) p] obtain n where n: "r = Inr ()" "n \<le> length fans"
      "ks_zset (view s') = inboxes (set (drop 0 (take n fans))) (fe_post e) (fe_created e) (ks_zset (view s2))"
      "n < length fans \<longrightarrow> format_uint author \<in> ks_set (view s') celebrity_set_key"
      "int n < min (fc_celebrity_threshold (fs_cfg F)) (fc_max_fans (fs_cfg F)) + fc_batch_size (fs_cfg F)" by auto
    have "ks_zset (view s') (timeline_key f) = (if f \<in> set (take n fans)
         then pushed_zset (nat (fc_timeline_max (fs_cfg F))) (format_uint (fe_post e)) (fe_created e) (ks_zset (view s) (timeline_key f))
         else ks_zset (view s) (timeline_key f))" for f
      using n(3) k2 s1(5) by (simp add: pushed_to_inbox)
    then show ?thesis using n k2 s1(5) by (intro conjI exI[of _ n]) simp_all
  qed
qed

text \<open>A celebrity that only the counter knows: nothing is pushed, nothing is marked.\<close>

lemma fanout_post_counted:
  assumes "cg_counter (fs_celebrities F) = Some count" "\<And>x. ks_hash (view x) = ks_hash (view s) \<Longrightarrow> fst (count author x) = (n, True)" "fc_celebrity_threshold (fs_cfg F) \<le> n"
    and "format_uint author \<notin> ks_set (view s) celebrity_set_key" "fe_creator e = author" "FanoutPost F e s = (r, s')"
  shows "r = Inr () \<and> (\<forall>f. ks_zset (view s') (timeline_key f) = ks_zset (view s) (timeline_key f)) \<and> ks_set (view s') = ks_set (view s)"
proof -
  obtain s1 where s1: "write_author_box F e s = (Inr (), s1)" "part s1 = part s" "ks_set (view s1) = ks_set (view s)" "ks_hash (view s1) = ks_hash (view s)"
    "ks_zset (view s1) = (ks_zset (view s))(author_box_key author :=
      pushed_zset (nat (fc_box_max (fs_cfg F))) (format_uint (fe_post e)) (fe_created e) (ks_zset (view s) (author_box_key author)))"
    using author_box_written[of e s] assms(5) by metis
  obtain s2 where s2: "view s2 = view s1" "part s2 = part s1"
    "rd (fs_redis F) (r_sismember (fs_redis F) celebrity_set_key (format_uint author)) s1 =
      (Inr (format_uint author \<in> ks_set (view s1) celebrity_set_key), s2)" by (rule registry_read)
  obtain s3 where c: "count author s2 = ((n, True), s3)" using assms(2)[of s2] s2(1) s1(4) by (cases "count author s2") simp
  then have v: "view s3 = view s2" using count_reads[OF assms(1), of author s2] by simp
  have "IsCelebrity (fs_celebrities F) author s1 = ((True, True), s3)"
    using s2 s1(3) assms(1,3,4) c by (simp add: IsCelebrity_def same_redis same_threshold)
  then have "r = Inr ()" "s' = s3" using assms(5,6) s1(1) by (simp_all add: FanoutPost_def)
  then show ?thesis using v s2 s1 by simp
qed

lemma zrem_fold_view:
  "ks_zset (view (fold (r_zrem (fs_redis F) k) ms s)) = (ks_zset (view s))(k := filter (\<lambda>p. fst p \<notin> set ms) (ks_zset (view s) k))"
  by (induction ms arbitrary: s) (auto simp: zs_rem_def fun_eq_iff intro!: filter_cong)

lemma on_unfollow_result:
  assumes "OnUnfollow F fan a s = (r, s')"
  shows "r = Inr () \<and> ks_zset (view s') = (ks_zset (view s))(timeline_key fan :=
    filter (\<lambda>p. fst p \<notin> fst ` set (ks_zset (view s) (author_box_key a))) (ks_zset (view s) (timeline_key fan)))"
proof -
  let ?f = "\<lambda>s. map fst (r_zrevrange (fs_redis F) (author_box_key a) 0 (r_zcard (fs_redis F) (author_box_key a) s) s)"
  obtain s1 where s1: "view s1 = view s" "rd (fs_redis F) ?f s = (Inr (?f s1), s1)" by (rule rd_upE)
  have m: "?f s1 = map fst (rev (ks_zset (view s) (author_box_key a)))" using s1(1) by (simp add: zs_rev_range_def)
  show ?thesis
  proof (cases "ks_zset (view s) (author_box_key a) = []")
    case True
    then show ?thesis using assms s1 m by (simp add: OnUnfollow_def Let_def)
  next
    case False
    let ?g = "fold (r_zrem (fs_redis F) (timeline_key fan)) (map fst (rev (ks_zset (view s) (author_box_key a))))"
    obtain s2 where s2: "view s2 = view s1" "wr (fs_redis F) ?g s1 = (Inr (), ?g s2)" by (rule wr_upE)
    have "OnUnfollow F fan a s = (Inr (), ?g s2)"
      unfolding OnUnfollow_def Let_def s1(2) prod.case sum.case m s2(2) using False by simp
    then have "r = Inr ()" "s' = ?g s2" using assms by simp_all
    then show ?thesis using s1(1) s2(1) by (simp only: zrem_fold_view) (simp add: zrem_fold_view)
  qed
qed

end

end
