(* ===== verification/Relation_Pages.thy ===== *)
theory Relation_Pages
  imports Relation_Lists
begin

text \<open>
  The pages by cursor: the cached part and the rest from the tables fit together
  without a gap or a repetition, as long as the texts of the user ids are ordered
  like the ids; the pages by offset trust a cached list that may hold one entry.
\<close>

section \<open>The rows in the order of the pages\<close>

definition page_rows :: "uint64 \<Rightarrow> rel_row list \<Rightarrow> rel_row list" where
  "page_rows u rows = sort_key (\<lambda>r. - rr_created r) (sort_key (\<lambda>r. - uint (rr_b r)) (rows_of_user u rows))"

definition row_before :: "rel_row \<Rightarrow> rel_row \<Rightarrow> bool" where
  "row_before q r = (rr_created r < rr_created q \<or> rr_created r = rr_created q \<and> rr_b r < rr_b q)"

definition entry_of :: "rel_row \<Rightarrow> string \<times> int" where
  "entry_of r = (format_uint (rr_b r), rr_created r)"

text \<open>Redis orders equal scores by the text of the member.\<close>

definition ids_sort_alike :: "rel_row list \<Rightarrow> bool" where
  "ids_sort_alike rows = (\<forall>q \<in> set rows. \<forall>r \<in> set rows. format_uint (rr_b q) < format_uint (rr_b r) \<longleftrightarrow> rr_b q < rr_b r)"

definition cursor_at :: "rel_row list \<Rightarrow> nat \<Rightarrow> list_cursor" where
  "cursor_at rs i = (if i = 0 then no_list_cursor
     else \<lparr>lcu_set = True, lcu_score = rr_created (rs ! (i - 1)), lcu_member = rr_b (rs ! (i - 1)), lcu_legacy = False\<rparr>)"

lemma sorted_stable:
  "sorted_wrt P xs \<Longrightarrow> sorted_wrt (\<lambda>x y. f x < f y \<or> f x = f y \<and> P x y) (sort_key (f :: 'a \<Rightarrow> int) xs)"
proof (induction xs)
  case Nil
  then show ?case by simp
next
  case (Cons x xs)
  let ?Q = "\<lambda>x y. f x < f y \<or> f x = f y \<and> P x y"
  have ins: "sorted_wrt ?Q (insort_key f x ys)" if "sorted_wrt ?Q ys" "\<forall>y \<in> set ys. P x y" for ys
    using that
  proof (induction ys)
    case Nil
    then show ?case by simp
  next
    case (Cons y ys)
    then show ?case by (auto simp: set_insort_key)
  qed
  from Cons show ?case using ins[of "sort_key f xs"] by simp
qed

lemma page_rows_distinct:
  assumes "distinct (map pair_of rows)"
  shows "distinct (map rr_b (page_rows u rows))"
proof -
  have "inj_on rr_b (set (rows_of_user u rows))"
    using assms by (auto simp: rows_of_user_def inj_on_def distinct_map pair_of_def)
  moreover have "distinct (rows_of_user u rows)" using assms by (simp add: rows_of_user_def distinct_map)
  ultimately show ?thesis by (simp add: page_rows_def distinct_map)
qed

lemma distinct_map_take_drop: "distinct (map f xs) \<Longrightarrow> distinct (map f (take n (drop i xs)))"
  by (simp add: take_map[symmetric] drop_map[symmetric])

lemma page_rows_sorted:
  assumes "distinct (map pair_of rows)"
  shows "sorted_wrt row_before (page_rows u rows)"
proof -
  let ?us = "sort_key (\<lambda>r. - uint (rr_b r)) (rows_of_user u rows)"
  have "inj_on rr_b (set (rows_of_user u rows))"
    using assms by (auto simp: rows_of_user_def inj_on_def distinct_map pair_of_def)
  moreover have "distinct (rows_of_user u rows)" using assms by (simp add: rows_of_user_def distinct_map)
  ultimately have "distinct (map (\<lambda>r. - uint (rr_b r)) ?us)"
    by (simp add: distinct_map inj_on_def flip: word_uint_eq_iff)
  moreover have "sorted (map (\<lambda>r. - uint (rr_b r)) ?us)" by simp
  ultimately have "sorted_wrt (<) (map (\<lambda>r. - uint (rr_b r)) ?us)" by (simp add: strict_sorted_iff)
  then have "sorted_wrt (\<lambda>x y. rr_b y < rr_b x) ?us" by (simp add: sorted_wrt_map word_less_def)
  then have "sorted_wrt (\<lambda>x y. - rr_created x < - rr_created y \<or> - rr_created x = - rr_created y \<and> rr_b y < rr_b x) (page_rows u rows)"
    unfolding page_rows_def by (rule sorted_stable)
  then show ?thesis by (rule sorted_wrt_mono_rel[rotated]) (auto simp: row_before_def)
qed

lemma row_before_linear: "row_before q r \<Longrightarrow> \<not> row_before r q"
  by (auto simp: row_before_def)

lemma row_before_irrefl: "\<not> row_before r r"
  by (simp add: row_before_def)

lemma filter_sorted_drop:
  assumes "sorted_wrt P xs" "\<And>x y. P x y \<Longrightarrow> \<not> P y x" "\<And>x. \<not> P x x" "0 < i" "i \<le> length xs"
  shows "filter (P (xs ! (i - 1))) xs = drop i xs"
proof -
  let ?x = "xs ! (i - 1)"
  have no: "\<not> P ?x y" if "y \<in> set (take i xs)" for y
  proof -
    from that obtain j where j: "j < i" "y = xs ! j" using assms(5) by (auto simp: in_set_conv_nth)
    show ?thesis
    proof (cases "j = i - 1")
      case True
      then show ?thesis using j assms(3) by simp
    next
      case False
      then have "P y ?x" using sorted_wrt_nth_less[OF assms(1), of j "i - 1"] j assms(4,5) by simp
      then show ?thesis by (rule assms(2))
    qed
  qed
  have yes: "P ?x y" if "y \<in> set (drop i xs)" for y
  proof -
    from that obtain j where j: "j < length xs - i" "y = xs ! (i + j)" by (auto simp: in_set_conv_nth)
    then show ?thesis using sorted_wrt_nth_less[OF assms(1), of "i - 1" "i + j"] assms(4) by simp
  qed
  have "filter (P ?x) (take i xs @ drop i xs) = drop i xs"
    using no yes by (simp del: append_take_drop_id add: filter_empty_conv filter_id_conv)
  then show ?thesis by simp
qed

lemma before_sql_drop:
  assumes "distinct (map pair_of rows)" "0 < i" "i \<le> length (page_rows u rows)"
  shows "before_sql (rr_created (page_rows u rows ! (i - 1))) (rr_b (page_rows u rows ! (i - 1))) (rows_of_user u rows) = drop i (page_rows u rows)"
proof -
  have "before_sql (rr_created q) (rr_b q) (rows_of_user u rows) = filter (row_before q) (page_rows u rows)" for q
    by (simp add: before_sql_def page_rows_def filter_sort row_before_def[abs_def])
  then show ?thesis
    using filter_sorted_drop[OF page_rows_sorted[OF assms(1)] row_before_linear row_before_irrefl assms(2,3)] by simp
qed

section \<open>The cached part of a page\<close>

definition skipped :: "list_cursor \<Rightarrow> string \<times> int \<Rightarrow> bool" where
  "skipped cur z = (lcu_set cur \<and> \<not> lcu_legacy cur \<and> snd z = lcu_score cur \<and> fst z \<ge> format_uint (lcu_member cur))"

lemma page_loop_rows:
  assumes "length res < limit"
  shows "page_loop cur limit (map entry_of rs) res final =
    (let ys = take (limit - length res) (filter (\<lambda>r. \<not> skipped cur (entry_of r)) rs) in
      (res @ map rr_b ys, if ys = [] then final else (rr_created (last ys), rr_b (last ys))))"
  using assms
proof (induction rs arbitrary: res final)
  case Nil
  then show ?case by simp
next
  case (Cons r rs)
  show ?case
  proof (cases "skipped cur (entry_of r)")
    case True
    then have "page_loop cur limit (map entry_of (r # rs)) res final = page_loop cur limit (map entry_of rs) res final"
      by (simp add: entry_of_def skipped_def)
    then show ?thesis using Cons.IH[OF Cons.prems, of final] True by simp
  next
    case False
    then have n: "\<not> (lcu_set cur \<and> \<not> lcu_legacy cur \<and> rr_created r = lcu_score cur \<and> format_uint (rr_b r) \<ge> format_uint (lcu_member cur))"
      by (simp add: skipped_def entry_of_def)
    obtain d where d: "limit - length res = Suc d" using Cons.prems by (metis Suc_diff_Suc)
    show ?thesis
    proof (cases "length res + 1 = limit")
      case True
      then have "page_loop cur limit (map entry_of (r # rs)) res final = (res @ [rr_b r], (rr_created r, rr_b r))"
        using n by (auto simp: entry_of_def)
      then show ?thesis using False True by auto
    next
      case more: False
      then have "page_loop cur limit (map entry_of (r # rs)) res final = page_loop cur limit (map entry_of rs) (res @ [rr_b r]) (rr_created r, rr_b r)"
        using n by (auto simp: entry_of_def)
      moreover have "length (res @ [rr_b r]) < limit" "limit - length (res @ [rr_b r]) = d" using Cons.prems more d by simp_all
      ultimately show ?thesis using Cons.IH[of "res @ [rr_b r]" "(rr_created r, rr_b r)"] False d by (simp add: Let_def)
    qed
  qed
qed

lemma filter_take_prefix: "\<exists>m. filter P (take n xs) = take m (filter P xs)"
proof (induction xs arbitrary: n)
  case Nil
  then show ?case by simp
next
  case (Cons x xs)
  show ?case
  proof (cases n)
    case 0
    then show ?thesis by (auto intro: exI[of _ 0])
  next
    case (Suc k)
    obtain m where "filter P (take k xs) = take m (filter P xs)" using Cons.IH by blast
    then show ?thesis using Suc by (cases "P x") (auto intro: exI[of _ "Suc m"] exI[of _ m])
  qed
qed

text \<open>What the command returns and the loop keeps are the rows after the cursor.\<close>

lemma kept_after_cursor:
  assumes "distinct (map pair_of rows)" "ids_sort_alike (page_rows u rows)" "i \<le> length (page_rows u rows)" "k \<le> length (page_rows u rows)"
  shows "filter (\<lambda>r. \<not> skipped (cursor_at (page_rows u rows) i) (entry_of r))
      (filter (\<lambda>r. i = 0 \<or> rr_created r \<le> lcu_score (cursor_at (page_rows u rows) i)) (take k (page_rows u rows)))
    = take (k - i) (drop i (page_rows u rows))"
proof (cases "i = 0")
  case True
  then show ?thesis by (simp add: cursor_at_def skipped_def no_list_cursor_def)
next
  case False
  let ?L = "page_rows u rows" and ?c = "cursor_at (page_rows u rows) i"
  let ?q = "?L ! (i - 1)"
  have q: "?q \<in> set ?L" using False assms(3) by simp
  have "(rr_created r \<le> lcu_score ?c \<and> \<not> skipped ?c (entry_of r)) = row_before ?q r" if "r \<in> set ?L" for r
  proof -
    have "format_uint (rr_b r) < format_uint (rr_b ?q) \<longleftrightarrow> rr_b r < rr_b ?q"
      using assms(2) that q unfolding ids_sort_alike_def by blast
    then show ?thesis using False by (auto simp: cursor_at_def skipped_def entry_of_def row_before_def)
  qed
  then have e: "filter (\<lambda>r. \<not> skipped ?c (entry_of r)) (filter (\<lambda>r. i = 0 \<or> rr_created r \<le> lcu_score ?c) (take k ?L)) = filter (row_before ?q) (take k ?L)"
    using False by (auto simp: filter_filter dest: in_set_takeD intro!: filter_cong)
  have "filter (row_before ?q) (take k ?L) = take (k - i) (drop i ?L)"
  proof (cases "i \<le> k")
    case True
    have "take k ?L ! (i - 1) = ?q" using True False by simp
    with filter_sorted_drop[OF sorted_wrt_take[OF page_rows_sorted[OF assms(1)]] row_before_linear row_before_irrefl, of i k u] True False assms(4)
    show ?thesis by (simp add: drop_take)
  next
    case False': False
    have "\<not> row_before ?q r" if "r \<in> set (take k ?L)" for r
    proof -
      from that obtain j where j: "j < k" "r = ?L ! j" using assms(4) by (auto simp: in_set_conv_nth)
      have "j < i - 1" "i - 1 < length ?L" using j(1) False' assms(3) by linarith+
      then have "row_before r ?q" using sorted_wrt_nth_less[OF page_rows_sorted[OF assms(1)]] j(2) by blast
      then show ?thesis by (rule row_before_linear)
    qed
    then have "filter (row_before ?q) (take k ?L) = []" by (simp add: filter_empty_conv)
    then show ?thesis using False' by simp
  qed
  then show ?thesis unfolding e .
qed

lemma append_new_fresh:
  assumes "\<forall>e \<in> set es. le_user e \<notin> set seen"
  shows "append_new es seen res final = (res @ map le_user es, if es = [] then final else (le_created (last es), le_user (last es)))"
  using assms by (induction es arbitrary: res final) auto

section \<open>A page of the service\<close>

definition list_rows :: "string \<Rightarrow> uint64 \<Rightarrow> rel_tables \<Rightarrow> rel_row list" where
  "list_rows t u tab = page_rows u (if t = ''following'' then rt_following tab else rt_follower tab)"

text \<open>The cached list holds the newest \<open>k\<close> rows of the table.\<close>

definition caches_newest :: "nat \<Rightarrow> string \<Rightarrow> uint64 \<Rightarrow> rel_tables \<Rightarrow> keyspace \<Rightarrow> bool" where
  "caches_newest k t u tab ks = (0 < k \<and> k \<le> length (list_rows t u tab) \<and>
     rev (ks_zset ks (zset_key t u)) = map entry_of (take k (list_rows t u tab)))"

definition cursor_text :: "rel_row list \<Rightarrow> nat \<Rightarrow> string" where
  "cursor_text rs i = (if i = 0 then [] else encode_list_cursor (rr_created (rs ! (i - 1))) (rr_b (rs ! (i - 1))))"

locale list_world = redis_up "rs_redis S" view + relation_store S
  for S :: "'s relation_service" and view :: "'s \<Rightarrow> keyspace" +
  assumes l1_get_view: "view (snd (l1_get (rs_l1 S) k s)) = view s"
    and l1_set_view [simp]: "view (l1_set (rs_l1 S) k v ttl s) = view s"

context list_world
begin

lemma rd_up_tabs:
  obtains s1 where "view s1 = view s" "tabs s1 = tabs s" "rd (rs_redis S) f s = (Inr (f s1), s1)"
proof -
  obtain s1 where s1: "view s1 = view s" "rd (rs_redis S) f s = (Inr (f s1), s1)" by (rule rd_upE)
  have "tabs (snd (rd (rs_redis S) f s)) = tabs s" unfolding rd_def by (rule frame_roundtrip) simp
  with s1 that show ?thesis by simp
qed

lemma db_read_result:
  assumes "db_read (rs_db S) f s = (r, s')"
  shows "tabs s' = tabs s \<and> (case r of Inl e \<Rightarrow> fst (db_stmt (rs_db S) s) \<noteq> None | Inr x \<Rightarrow> x = f (tabs s))"
  using assms stmt_keeps[of s] by (auto simp: db_read_def split: prod.splits option.splits)

lemma before_from_db:
  assumes "list_from_db_before S t u (rr_created (list_rows t u (tabs s) ! (j - 1))) (rr_b (list_rows t u (tabs s) ! (j - 1))) (int n) s = (r, s')"
    and "rows_ok (rt_following (tabs s))" "rows_ok (rt_follower (tabs s))" "0 < j" "j \<le> length (list_rows t u (tabs s))"
  shows "case r of Inl e \<Rightarrow> fst (db_stmt (rs_db S) s) \<noteq> None
    | Inr es \<Rightarrow> es = map list_entry_of (take n (drop j (list_rows t u (tabs s))))"
proof -
  let ?q = "list_rows t u (tabs s) ! (j - 1)"
  let ?rows = "if t = ''following'' then rt_following (tabs s) else rt_follower (tabs s)"
  have b: "before_sql (rr_created ?q) (rr_b ?q) (rows_of_user u ?rows) = drop j (list_rows t u (tabs s))"
    using before_sql_drop[of ?rows j u] assms(2-5) by (auto simp: list_rows_def rows_ok_def)
  let ?f = "\<lambda>tab. limit_offset (int n) 0 (before_sql (rr_created ?q) (rr_b ?q)
      (rows_of_user u (if t = ''following'' then rt_following tab else rt_follower tab)))"
  obtain q s1 where d: "db_read (rs_db S) ?f s = (q, s1)" by (cases "db_read (rs_db S) ?f s")
  have f: "?f (tabs s) = Inr (take n (drop j (list_rows t u (tabs s))))"
    using b by (auto simp: limit_offset_def)
  show ?thesis
    using assms(1) db_read_result[OF d] d f
    by (cases "t = ''following''")
      (auto simp: list_from_db_before_def ListFollowingRowsBefore_def ListFollowerRowsBefore_def flatten_def map_ok_def split: sum.splits)
qed

lemma zset_page:
  assumes "caches_newest k t u (tabs s) (view s)" "rows_ok (rt_following (tabs s))" "rows_ok (rt_follower (tabs s))"
    and "ids_sort_alike (list_rows t u (tabs s))" "i \<le> length (list_rows t u (tabs s))" "0 < limit"
  obtains s1 m where "read_cursor_page S (zset_key t u) (cursor_at (list_rows t u (tabs s)) i) (int limit) s =
      (Inr (map rr_b (take m (drop i (list_rows t u (tabs s)))),
        if m = 0 then (0, 0) else (rr_created (list_rows t u (tabs s) ! (i + m - 1)), rr_b (list_rows t u (tabs s) ! (i + m - 1)))), s1)"
    "tabs s1 = tabs s" "m \<le> limit" "i + m \<le> length (list_rows t u (tabs s))" "i = 0 \<longrightarrow> 0 < m"
proof -
  let ?L = "list_rows t u (tabs s)" and ?c = "cursor_at (list_rows t u (tabs s)) i"
  let ?rows = "if t = ''following'' then rt_following (tabs s) else rt_follower (tabs s)"
  have dist: "distinct (map pair_of ?rows)" using assms(2,3) by (simp add: rows_ok_def)
  have L: "?L = page_rows u ?rows" by (simp add: list_rows_def)
  define mx where "mx = (if i = 0 then None else Some (lcu_score ?c))"
  define fetch where "fetch = (if i = 0 then limit else limit + 8)"
  have mxc: "(if \<not> lcu_set ?c then None else if lcu_legacy ?c then Some (lcu_score ?c - 1) else Some (lcu_score ?c)) = mx"
    "(if lcu_set ?c \<and> \<not> lcu_legacy ?c then int limit + cursor_tie_slack else int limit) = int fetch" "0 < fetch"
    using assms(6) by (auto simp: mx_def fetch_def cursor_at_def no_list_cursor_def cursor_tie_slack_def)
  obtain s1 where s1: "view s1 = view s" "tabs s1 = tabs s"
    "rd (rs_redis S) (\<lambda>s. r_zrevrangebyscore (rs_redis S) (zset_key t u) mx (if int fetch \<le> 0 then r_zcard (rs_redis S) (zset_key t u) s else nat (int fetch)) s) s =
      (Inr (r_zrevrangebyscore (rs_redis S) (zset_key t u) mx (if int fetch \<le> 0 then r_zcard (rs_redis S) (zset_key t u) s1 else nat (int fetch)) s1), s1)"
    by (rule rd_up_tabs)
  let ?keep = "\<lambda>r. \<not> skipped ?c (entry_of r)" and ?le = "\<lambda>r. i = 0 \<or> rr_created r \<le> lcu_score ?c"
  have "zs_rev_by_score mx fetch (ks_zset (view s1) (zset_key t u)) = map entry_of (take fetch (filter ?le (take k ?L)))"
    using assms(1) s1(1) by (auto simp: zs_rev_by_score_def caches_newest_def mx_def filter_map comp_def entry_of_def take_map)
  then have page: "read_cursor_page S (zset_key t u) ?c (int limit) s = (Inr (page_loop ?c limit (map entry_of (take fetch (filter ?le (take k ?L)))) [] (0, 0)), s1)"
    using s1(3) mxc by (simp add: read_cursor_page_def)
  obtain n where n: "filter ?keep (take fetch (filter ?le (take k ?L))) = take n (take (k - i) (drop i ?L))"
    using filter_take_prefix[of ?keep fetch "filter ?le (take k ?L)"]
      kept_after_cursor[OF dist, of u i k] assms(1,4,5) unfolding L caches_newest_def by auto
  define ys where "ys = take limit (filter ?keep (take fetch (filter ?le (take k ?L))))"
  define m where "m = min limit (length ys)"
  have ys: "ys = take m (drop i ?L)" "m = length ys" "i + m \<le> length ?L"
    using assms(1,5) unfolding ys_def m_def n by (auto simp: caches_newest_def min_def)
  have pos: "0 < m" if "i = 0"
  proof -
    have all: "filter ?le xs = xs" "filter ?keep xs = xs" for xs
      using that by (simp_all add: cursor_at_def no_list_cursor_def skipped_def)
    show ?thesis using assms(1,6) mxc(3) unfolding ys(2) ys_def all by (auto simp: caches_newest_def)
  qed
  have lastm: "last ys = ?L ! (i + m - 1)" if "m \<noteq> 0"
  proof -
    have "ys \<noteq> []" using that by (simp add: m_def)
    then have "last ys = ys ! (m - 1)" by (simp add: last_conv_nth ys(2)[symmetric])
    also have "\<dots> = take m (drop i ?L) ! (m - 1)" by (rule arg_cong[OF ys(1), where f = "\<lambda>zs. zs ! (m - 1)"])
    finally show ?thesis using that ys(3) by simp
  qed
  have "ys = [] \<longleftrightarrow> m = 0" unfolding ys(2) by simp
  then have "page_loop ?c limit (map entry_of (take fetch (filter ?le (take k ?L)))) [] (0, 0) =
      (map rr_b (take m (drop i ?L)), if m = 0 then (0, 0) else (rr_created (?L ! (i + m - 1)), rr_b (?L ! (i + m - 1))))"
    using page_loop_rows[of "[]" limit ?c "take fetch (filter ?le (take k ?L))" "(0, 0)"] assms(6) lastm
    unfolding ys(1)[symmetric] Let_def list.size diff_zero ys_def[symmetric] by simp
  with page have "read_cursor_page S (zset_key t u) ?c (int limit) s = (Inr (map rr_b (take m (drop i ?L)),
      if m = 0 then (0, 0) else (rr_created (?L ! (i + m - 1)), rr_b (?L ! (i + m - 1)))), s1)" by simp
  then show ?thesis by (rule that) (use s1(2) ys(3) pos in \<open>simp_all add: m_def\<close>)
qed

lemma warm_cursor_page:
  assumes "caches_newest k t u (tabs s) (view s)" "rows_ok (rt_following (tabs s))" "rows_ok (rt_follower (tabs s))"
    and "ids_sort_alike (list_rows t u (tabs s))" "i \<le> length (list_rows t u (tabs s))" "0 < limit"
    and "read_warm_cursor S u t (int limit) (cursor_at (list_rows t u (tabs s)) i) s = (r, s')"
  shows "\<exists>m \<le> limit. i + m \<le> length (list_rows t u (tabs s)) \<and>
    r = Inr (map rr_b (take m (drop i (list_rows t u (tabs s)))), if m = 0 then [] else cursor_text (list_rows t u (tabs s)) (i + m)) \<and>
    ((\<forall>x. fst (db_stmt (rs_db S) x) = None) \<longrightarrow> m = min limit (length (list_rows t u (tabs s)) - i))"
proof -
  let ?L = "list_rows t u (tabs s)" and ?c = "cursor_at (list_rows t u (tabs s)) i"
  let ?last = "\<lambda>n. if n = 0 then (0, 0) else (rr_created (?L ! (i + n - 1)), rr_b (?L ! (i + n - 1)))"
  obtain s1 m where p: "read_cursor_page S (zset_key t u) ?c (int limit) s = (Inr (map rr_b (take m (drop i ?L)), ?last m), s1)"
    "tabs s1 = tabs s" "m \<le> limit" "i + m \<le> length ?L" "i = 0 \<longrightarrow> 0 < m"
    by (rule zset_page[OF assms(1-6)])
  have len: "length (map rr_b (take m (drop i ?L))) = m" using p(4) by simp
  have enc: "encode_list_cursor (fst (?last n)) (snd (?last n)) = cursor_text ?L (i + n)" if "0 < n" for n
    using that by (simp add: cursor_text_def)
  show ?thesis
  proof (cases "m < limit")
    case False
    then have "r = Inr (map rr_b (take m (drop i ?L)), cursor_text ?L (i + m))"
      using assms(6,7) p(1,3,4) enc[of m] by (auto simp: read_warm_cursor_def Let_def cursor_text_def)
    then show ?thesis using False p(3,4) assms(6) by (intro exI[of _ m]) auto
  next
    case True
    have j: "0 < i + m" using p(5) by (cases "i = 0") auto
    have boundary: "(if map rr_b (take m (drop i ?L)) = [] then (lcu_score ?c, lcu_member ?c) else ?last m) =
        (rr_created (?L ! (i + m - 1)), rr_b (?L ! (i + m - 1)))"
      using len j by (cases "m = 0") (auto simp: cursor_at_def)
    obtain q s2 where q: "list_from_db_before S t u (rr_created (?L ! (i + m - 1))) (rr_b (?L ! (i + m - 1))) (int (limit - m)) s1 = (q, s2)"
      by (cases "list_from_db_before S t u (rr_created (?L ! (i + m - 1))) (rr_b (?L ! (i + m - 1))) (int (limit - m)) s1")
    note db = before_from_db[of t u s1 "i + m" "limit - m" q s2, unfolded p(2), OF q assms(2,3) j p(4)]
    have merged: "merge_db_tail S t u ?c (map rr_b (take m (drop i ?L))) (?last m) (int limit) s1 =
        (case q of Inl e \<Rightarrow> (map rr_b (take m (drop i ?L)), ?last m)
         | Inr es \<Rightarrow> append_new es (map rr_b (take m (drop i ?L))) (map rr_b (take m (drop i ?L))) (?last m), s2)"
      using q True len unfolding merge_db_tail_def boundary by (cases q) (simp_all add: of_nat_diff)
    have first: "\<not> (int (length (map rr_b (take m (drop i ?L)))) < int limit \<and> map rr_b (take m (drop i ?L)) = [] \<and> \<not> lcu_set ?c)"
      using len p(5) by (cases "i = 0") (auto simp: cursor_at_def)
    have res: "r = (let (res1, final1) = fst (merge_db_tail S t u ?c (map rr_b (take m (drop i ?L))) (?last m) (int limit) s1) in
        Inr (res1, if res1 = [] then [] else encode_list_cursor (fst final1) (snd final1)))"
      using assms(7) first True len unfolding read_warm_cursor_def p(1)
      by (auto simp: Let_def case_prod_beta split: if_splits)
    show ?thesis
    proof (cases q)
      case (Inl e)
      then have "r = Inr (map rr_b (take m (drop i ?L)), if m = 0 then [] else cursor_text ?L (i + m))"
        using res merged len enc[of m] by (cases "m = 0") (auto simp: Let_def)
      then show ?thesis using Inl db p(3,4) by (intro exI[of _ m]) auto
    next
      case (Inr es)
      define n where "n = min (limit - m) (length ?L - (i + m))"
      have es: "es = map list_entry_of (take (limit - m) (drop (i + m) ?L))" using db Inr by simp
      have d: "distinct (map rr_b ?L)" using assms(2,3) by (simp add: list_rows_def page_rows_distinct rows_ok_def)
      let ?B = "take (limit - m) (drop (i + m) ?L)"
      have whole: "take m (drop i ?L) @ ?B = take (m + n) (drop i ?L)" "length ?B = n"
        by (simp_all add: n_def take_add add.commute min_def)
      have "distinct (map rr_b (take m (drop i ?L) @ ?B))"
        unfolding whole using d by (simp add: distinct_map_take_drop)
      then have fresh: "\<forall>e \<in> set es. le_user e \<notin> set (map rr_b (take m (drop i ?L)))"
        unfolding es by (auto simp: list_entry_of_def)
      have users: "map le_user es = map rr_b ?B" unfolding es by (simp add: list_entry_of_def comp_def)
      have "(if es = [] then ?last m else (le_created (last es), le_user (last es))) = ?last (m + n)"
      proof (cases "?B = []")
        case True
        then have "n = 0" "es = []" using whole(2)[symmetric] es by (metis list.size(3), simp)
        then show ?thesis by simp
      next
        case False
        then have n0: "0 < n" using whole(2) by (metis length_greater_0_conv)
        have ix: "i + (m + n) - 1 = i + m + (n - 1)" using n0 by simp
        from False have "last ?B = ?B ! (n - 1)" by (simp add: last_conv_nth whole(2)[symmetric])
        also have "\<dots> = ?L ! (i + (m + n) - 1)"
        proof -
          have "n - 1 < limit - m" using n0 unfolding n_def by linarith
          then show ?thesis unfolding ix using p(4) by simp
        qed
        finally have l: "last ?B = ?L ! (i + (m + n) - 1)" .
        have "es \<noteq> []" "last es = list_entry_of (last ?B)" using False whole(2) es by (simp_all add: last_map)
        then show ?thesis using n0 by (simp add: l list_entry_of_def)
      qed
      then have app: "append_new es (map rr_b (take m (drop i ?L))) (map rr_b (take m (drop i ?L))) (?last m) =
          (map rr_b (take (m + n) (drop i ?L)), ?last (m + n))"
        unfolding append_new_fresh[OF fresh] users whole(1)[symmetric] by simp
      have nil: "map rr_b (take (m + n) (drop i ?L)) = [] \<longleftrightarrow> m + n = 0"
        using whole len by (auto simp flip: whole(1) length_greater_0_conv)
      from app have "r = Inr (map rr_b (take (m + n) (drop i ?L)), if m + n = 0 then [] else cursor_text ?L (i + (m + n)))"
        using res merged Inr enc[of "m + n"] nil by (cases "m + n = 0") (auto simp: Let_def)
      then show ?thesis using p(3,4) True by (intro exI[of _ "m + n"]) (auto simp: n_def)
    qed
  qed
qed

lemma cached_nonempty:
  assumes "ks_zset (view s) (zset_key t u) \<noteq> []"
  obtains s1 where "view s1 = view s" "tabs s1 = tabs s" "list_cached S t u s = (True, s1)"
proof -
  obtain s1 where s1: "view s1 = view s" "tabs s1 = tabs s"
    "rd (rs_redis S) (r_exists (rs_redis S) (zset_key t u)) s = (Inr (r_exists (rs_redis S) (zset_key t u) s1), s1)"
    by (rule rd_up_tabs)
  then show ?thesis using that assms by (simp add: list_cached_def ks_exists_def)
qed

lemma warm_offset_first:
  assumes "ks_zset (view s) (zset_key t u) = [(format_uint b, now)]" "0 < limit"
  shows "fst (read_warm_offset S t u limit 0 s) = Inr [b]"
proof -
  let ?f = "zrevrange_int (rs_redis S) (zset_key t u) 0 (limit - 1)"
  obtain s1 where s1: "view s1 = view s" "rd (rs_redis S) ?f s = (Inr (?f s1), s1)" by (rule rd_upE)
  have "?f s1 = [(format_uint b, now)]"
    using assms s1(1) by (simp add: zrevrange_int_def Let_def zs_rev_range_def)
  then show ?thesis using s1(2) by (simp add: read_warm_offset_def to_id_list_def map_filter_simps)
qed

lemma not_big_v:
  assumes "fst (l1_get (rs_l1 S) (bigv_key u) s) = None"
    and "int (length (ks_zset (view s) (zset_key ''followers'' u))) < rs_big_v_threshold S"
  shows "fst (is_big_v S u s) = False \<and> view (snd (is_big_v S u s)) = view s"
proof -
  obtain s1 where g: "l1_get (rs_l1 S) (bigv_key u) s = (None, s1)" using assms(1) by (cases "l1_get (rs_l1 S) (bigv_key u) s") auto
  then have v: "view s1 = view s" using l1_get_view[of "bigv_key u" s] by simp
  let ?f = "r_zcard (rs_redis S) (zset_key ''followers'' u)"
  obtain s2 where s2: "view s2 = view s1" "rd (rs_redis S) ?f s1 = (Inr (?f s2), s2)" by (rule rd_upE)
  then show ?thesis using g v assms(2) by (simp add: is_big_v_def big_v_of_zset_def Let_def)
qed

end

lemma parse_list_cursor_at:
  assumes "in_int64 (rr_created (rs ! (i - 1)))"
  shows "parse_list_cursor (cursor_text rs i) = Some (cursor_at rs i)"
proof (cases "i = 0")
  case True
  then show ?thesis by (simp add: cursor_text_def cursor_at_def parse_list_cursor_def)
next
  case False
  then show ?thesis
    using assms by (simp add: cursor_text_def cursor_at_def parse_list_cursor_def encode_list_cursor_def colon_def)
qed

interpretation mem_lists: list_world "mem_relation up_redis" "fst \<circ> fst \<circ> fst"
proof -
  have "redis_up (on_first (on_first up_redis) :: rel_world redis) (fst \<circ> fst \<circ> fst)"
    by (rule redis_up.on_first_up[OF redis_up.on_first_up[OF up.redis_up_axioms]])
  then show "list_world (mem_relation up_redis) (fst \<circ> fst \<circ> fst)"
    using mem_store.relation_store_axioms[of up_redis]
    by (simp add: list_world_def list_world_axioms_def local_l1_def)
qed

section \<open>Properties\<close>

text \<open>
  C18: a page by cursor of a list whose newest part is cached is the next entries
  of the table from the cursor on, the rest of the table filling it where the cache
  ends; no entry is skipped or repeated, times that are equal included, its cursor
  points right behind it, and only an error of the database makes it shorter.
\<close>

theorem list_cursor_page:
  assumes "list_world S view" "caches_newest k t u (db_tables (rs_db S) s) (view s)"
    and "rows_ok (rt_following (db_tables (rs_db S) s))" "rows_ok (rt_follower (db_tables (rs_db S) s))"
    and "L = list_rows t u (db_tables (rs_db S) s)" "ids_sort_alike L" "i \<le> length L" "in_int64 (rr_created (L ! (i - 1)))" "0 < limit"
    and "get_list_with_cursor S u t (int limit) (cursor_text L i) s = (r, s')"
  shows "\<exists>m \<le> limit. i + m \<le> length L \<and>
    r = Inr (map rr_b (take m (drop i L)), if m = 0 then [] else cursor_text L (i + m)) \<and>
    ((\<forall>x. fst (db_stmt (rs_db S) x) = None) \<longrightarrow> m = min limit (length L - i))"
proof -
  have "length (ks_zset (view s) (zset_key t u)) = length (map entry_of (take k L))"
    using assms(2,5) by (metis caches_newest_def length_rev)
  then have "ks_zset (view s) (zset_key t u) \<noteq> []" using assms(2,5) by (auto simp: caches_newest_def)
  from list_world.cached_nonempty[OF assms(1) this] obtain s1 where s1: "view s1 = view s"
    "db_tables (rs_db S) s1 = db_tables (rs_db S) s" "list_cached S t u s = (True, s1)" by blast
  have "read_warm_cursor S u t (int limit) (cursor_at L i) s1 = (r, s')"
    using assms(10) s1(3) parse_list_cursor_at[OF assms(8)] by (simp add: get_list_with_cursor_def)
  from list_world.warm_cursor_page[OF assms(1), of k t u s1, unfolded s1, folded assms(5), OF assms(2-4,6,7,9) this]
  show ?thesis .
qed

text \<open>User 1 follows 7 and, since before that, 5; only the newer one is cached.\<close>

definition two_followees :: rel_world where
  "two_followees = (((empty_keyspace\<lparr>ks_zset := (\<lambda>k. if k = zset_key ''following'' 1 then [(format_uint 7, 20)] else [])\<rparr>, []),
     (1, (\<lambda>_. None))),
     (no_relations\<lparr>rt_following := [\<lparr>rr_id = 1, rr_a = 1, rr_b = 5, rr_status = 1, rr_created = 10, rr_updated = 10\<rparr>,
       \<lparr>rr_id = 2, rr_a = 1, rr_b = 7, rr_status = 1, rr_created = 20, rr_updated = 20\<rparr>]\<rparr>, []))"

lemma two_followees_rows:
  "list_rows ''following'' 1 (fst (snd two_followees)) = [\<lparr>rr_id = 2, rr_a = 1, rr_b = 7, rr_status = 1, rr_created = 20, rr_updated = 20\<rparr>,
     \<lparr>rr_id = 1, rr_a = 1, rr_b = 5, rr_status = 1, rr_created = 10, rr_updated = 10\<rparr>]"
  by (simp add: two_followees_def list_rows_def page_rows_def rows_of_user_def)

theorem list_cursor_page_witness:
  "\<exists>m \<le> 2. \<exists>cur. fst (FollowingCursor (mem_relation up_redis) 1 2 [] two_followees) = Inr (take m [7, 5], cur)"
proof -
  let ?S = "mem_relation up_redis" and ?L = "list_rows ''following'' 1 (db_tables (rs_db (mem_relation up_redis)) two_followees)"
  have L: "?L = [\<lparr>rr_id = 2, rr_a = 1, rr_b = 7, rr_status = 1, rr_created = 20, rr_updated = 20\<rparr>,
     \<lparr>rr_id = 1, rr_a = 1, rr_b = 5, rr_status = 1, rr_created = 10, rr_updated = 10\<rparr>]"
    using two_followees_rows by simp
  have f: "format_uint 7 = ''7''" "format_uint 5 = ''5''" by code_simp+
  have c: "caches_newest 1 ''following'' 1 (db_tables (rs_db ?S) two_followees) ((fst \<circ> fst \<circ> fst) two_followees)"
    unfolding caches_newest_def L by (simp add: two_followees_def entry_of_def)
  have ok: "rows_ok (rt_following (db_tables (rs_db ?S) two_followees))" "rows_ok (rt_follower (db_tables (rs_db ?S) two_followees))"
    by (simp_all add: two_followees_def rows_ok_def pair_of_def no_relations_def)
  have sorted: "ids_sort_alike ?L" unfolding L by (simp add: ids_sort_alike_def f)
  obtain r s' where g: "get_list_with_cursor ?S 1 ''following'' (int 2) (cursor_text ?L 0) two_followees = (r, s')"
    by (cases "get_list_with_cursor ?S 1 ''following'' (int 2) (cursor_text ?L 0) two_followees")
  have e: "FollowingCursor ?S 1 2 [] two_followees = (r, s')" using g by (simp add: FollowingCursor_def cursor_text_def)
  have i: "in_int64 (rr_created (?L ! (0 - 1)))" unfolding L by (simp add: in_int64_def int64_min_def int64_max_def)
  from list_cursor_page[OF mem_lists.list_world_axioms c ok refl sorted _ i _ g]
  obtain m where m: "m \<le> 2" "r = Inr (map rr_b (take m ?L), if m = 0 then [] else cursor_text ?L (0 + m))" by force
  have "map rr_b (take m ?L) = take m [7, 5]" unfolding L by (simp add: take_map[symmetric])
  then show ?thesis using m unfolding e fst_conv by metis
qed

text \<open>
  C20: a follow drops the cached list of the follower, and the event then adds the
  new followee to a list that is no longer there. From then on, and until the list
  expires, the first page by offset is that one followee, whatever else the user
  follows.
\<close>

theorem offset_page_after_follow:
  assumes "list_world S view" "relation_flow (rs_redis S) view C" "ks_zset (view s) (following_zset_key a) = []" "a \<noteq> b"
    and "process (Some \<lparr>ep_redis = rs_redis S, ep_counter = Some C\<rparr>) (follows a b i) now s = (Inr x, s1)"
    and "fst (l1_get (rs_l1 S) (bigv_key a) s1) = None"
    and "int (length (ks_zset (view s) (followers_zset_key a))) < rs_big_v_threshold S"
    and "0 < limit" "Following S a limit 0 s1 = (r, s2)"
  shows "r = Inr [b]"
proof -
  have keys: "zset_key ''following'' u = following_zset_key u" "zset_key ''followers'' u = followers_zset_key u" for u
    by (simp_all add: zset_key_def following_zset_key_def followers_zset_key_def colon_def)
  have f: "event_delta (re_event_type (follows a b i)) = Some 1" "re_from_user_id (follows a b i) = a" "re_to_user_id (follows a b i) = b"
    by (simp_all add: follows_def event_delta_def)
  have v1: "ks_zset (view s1) = ks_zset (ks_lists (follows a b i) 1 now (view s))"
    unfolding relation_flow.process_ok_view[OF assms(2,5) f(1)] by simp
  have z: "ks_zset (view s1) (zset_key ''following'' a) = [(format_uint b, now)]"
    "ks_zset (view s1) (zset_key ''followers'' a) = ks_zset (view s) (followers_zset_key a)"
    unfolding v1 keys using assms(3,4) by (simp_all add: ks_lists_def Let_def f zs_add_def zs_rem_def)
  obtain s3 where big: "is_big_v S a s1 = (False, s3)" and v3: "view s3 = view s1"
    using list_world.not_big_v[OF assms(1,6)] assms(7) z(2) by (cases "is_big_v S a s1") auto
  have z3: "ks_zset (view s3) (zset_key ''following'' a) = [(format_uint b, now)]" using z(1) v3 by simp
  then have "ks_zset (view s3) (zset_key ''following'' a) \<noteq> []" by simp
  from list_world.cached_nonempty[OF assms(1) this] obtain s4 where s4: "view s4 = view s3" "list_cached S ''following'' a s3 = (True, s4)"
    by blast
  have "get_list_with_offset S a ''following'' limit 0 s1 = read_warm_offset S ''following'' a limit 0 s4"
    by (simp add: get_list_with_offset_def big s4(2))
  then show ?thesis
    using list_world.warm_offset_first[OF assms(1), of s4 "''following''" a b now limit] z3 s4(1) assms(8,9)
    by (simp add: Following_def)
qed

text \<open>The user counter of the witness shares the Redis of the relation service.\<close>

definition rel_counter :: "rel_world counter_service" where
  "rel_counter = \<lparr>cs_redis = on_first (on_first up_redis), cs_producer = Some None, cs_recorder = None,
     cs_failure_topic = ''counter-events'', cs_next_id = None, cs_backoff_base = 500,
     cs_backoff_max = 30000, cs_rate = Some (10, 3), cs_likers_max_chunk = 128,
     cs_lock_options = \<lparr>lo_ttl = 10000, lo_watchdog = 3333, lo_op_timeout = 1000\<rparr>\<rparr>"

interpretation rel_svc: counter_world_up rel_counter "fst \<circ> fst \<circ> fst"
proof -
  have "redis_up (cs_redis rel_counter) (fst \<circ> fst \<circ> fst)"
    using mem_lists.redis_up_axioms by (simp add: rel_counter_def)
  then show "counter_world_up rel_counter (fst \<circ> fst \<circ> fst)"
    by (simp add: counter_world_up_def counter_world_def counter_world_axioms_def redis_up_def rel_counter_def)
qed

interpretation rel_flow: relation_flow "rs_redis (mem_relation up_redis)" "fst \<circ> fst \<circ> fst" "ApplyFollowDeltaOnce (Some rel_counter)"
  using mem_lists.redis_zsets_axioms rel_svc.apply_follow_counts_once by (simp add: relation_flow_def)

text \<open>The in-process cache may miss whenever it likes.\<close>

definition missing_l1 :: "rel_world relation_service" where
  "missing_l1 = (mem_relation up_redis)\<lparr>rs_l1 := \<lparr>l1_get = (\<lambda>k s. (None, s)), l1_set = (\<lambda>k v ttl s. s), l1_del = (\<lambda>k s. s)\<rparr>\<rparr>"

lemma missing_world: "list_world missing_l1 (fst \<circ> fst \<circ> fst)"
  using mem_lists.redis_up_axioms mem_store.relation_store_axioms[of up_redis]
  by (simp add: missing_l1_def list_world_def list_world_axioms_def relation_store_def relation_store_axioms_def)

lemma rel_flow_missing: "relation_flow (rs_redis missing_l1) (fst \<circ> fst \<circ> fst) (ApplyFollowDeltaOnce (Some rel_counter))"
  using rel_flow.relation_flow_axioms by (simp add: missing_l1_def)

text \<open>User 1 follows 5 and 7 already, nothing is cached, and now follows 2.\<close>

theorem offset_page_after_follow_witness:
  "\<exists>s1. fst (Following missing_l1 1 20 0 s1) = Inr [2] \<and>
    process (Some \<lparr>ep_redis = on_first (on_first up_redis), ep_counter = Some (ApplyFollowDeltaOnce (Some rel_counter))\<rparr>)
      (follows 1 2 (Some 9)) 100 (((empty_keyspace, []), (1, (\<lambda>_. None))), snd two_followees) = (Inr (), s1)"
proof -
  let ?s = "(((empty_keyspace, []), (1, (\<lambda>_. None))), snd two_followees) :: rel_world"
  obtain s1 where p: "process (Some \<lparr>ep_redis = on_first (on_first up_redis), ep_counter = Some (ApplyFollowDeltaOnce (Some rel_counter))\<rparr>)
      (follows 1 2 (Some 9)) 100 ?s = (Inr (), s1)"
    using rel_svc.process_up[of "follows 1 2 (Some 9)" 100 ?s] by (auto simp: rel_counter_def)
  obtain r s2 where f: "Following missing_l1 1 20 0 s1 = (r, s2)" by (cases "Following missing_l1 1 20 0 s1")
  have "r = Inr [2]"
    by (rule offset_page_after_follow[where S = missing_l1, OF missing_world rel_flow_missing _ _ _ _ _ _ f, where b = 2 and s = ?s and now = 100 and i = "Some 9" and x = "()"])
      (simp_all add: missing_l1_def p)
  then show ?thesis using f p by (intro exI[of _ s1]) simp
qed

end
