(* ===== verification/Fanout_Lists.thy ===== *)
theory Fanout_Lists
  imports Fanout_Push Relation_Pages
begin

text \<open>
  The lists of the relation service keep the interface the timeline reads them
  through: over a database without faults, a list whose newest part is cached is
  paged without gaps, and reading it changes nothing.
\<close>

locale steady_lists = list_world S view + redis_lists_frame "rs_redis S" "db_tables (rs_db S)"
  for S :: "'s relation_service" and view :: "'s \<Rightarrow> keyspace" +
  assumes no_fault: "fst (db_stmt (rs_db S) s) = None"
    and stmt_view: "view (snd (db_stmt (rs_db S) s)) = view s"

definition cached_list :: "string \<Rightarrow> uint64 \<Rightarrow> nat \<Rightarrow> rel_row list \<Rightarrow> rel_tables \<Rightarrow> zset \<Rightarrow> bool" where
  "cached_list t u k L tab z = (list_rows t u tab = L \<and> rows_ok (rt_following tab) \<and> rows_ok (rt_follower tab) \<and>
     ids_sort_alike L \<and> (\<forall>r \<in> set L. in_int64 (rr_created r)) \<and> 0 < k \<and> k \<le> length L \<and> rev z = map entry_of (take k L))"

lemma cached_list_newest:
  "cached_list t u k L tab (ks_zset ks (zset_key t u)) \<Longrightarrow> caches_newest k t u tab ks"
  by (auto simp: cached_list_def caches_newest_def)

lemma zset_key_prefix: "has_prefix ''z:'' (zset_key t u)"
  by (auto simp: has_prefix_iff zset_key_def)

lemma cursor_text_new:
  assumes "distinct (map rr_b L)" "\<forall>r \<in> set L. in_int64 (rr_created r)" "i < j" "j \<le> length L"
  shows "cursor_text L j \<noteq> [] \<and> cursor_text L j \<noteq> cursor_text L i"
proof
  have int: "in_int64 (rr_created (L ! (l - 1)))" if "l \<le> length L" for l
    using assms that by (cases L) (auto simp: nth_Cons')
  show ne: "cursor_text L j \<noteq> []" using assms(3) by (simp add: cursor_text_def encode_list_cursor_def)
  show "cursor_text L j \<noteq> cursor_text L i"
  proof
    assume e: "cursor_text L j = cursor_text L i"
    then have i: "0 < i" using ne by (cases i) (simp_all add: cursor_text_def)
    have "cursor_at L j = cursor_at L i"
      using parse_list_cursor_at[OF int[of j]] parse_list_cursor_at[OF int[of i]] assms(3,4) e by simp
    then have "map rr_b L ! (j - 1) = map rr_b L ! (i - 1)"
      using i assms(3,4) by (auto simp: cursor_at_def)
    then have "j - 1 = i - 1" using assms(1,3,4) nth_eq_iff_index_eq[OF assms(1), of "j - 1" "i - 1"] by auto
    then show False using assms(3) i by simp
  qed
qed

context steady_lists
begin

lemma db_read_steady:
  "\<exists>s1. db_read (rs_db S) f s = (Inr (f (tabs s)), s1) \<and> tabs s1 = tabs s \<and> view s1 = view s"
proof -
  obtain s1 where s1: "db_stmt (rs_db S) s = (None, s1)" using no_fault[of s] by (cases "db_stmt (rs_db S) s") simp
  then have "view s1 = view s" "tabs s1 = tabs s" using stmt_view[of s] stmt_keeps[of s] by simp_all
  then show ?thesis using s1 by (simp add: db_read_def)
qed

lemma before_view:
  assumes "list_from_db_before S t u ms v n s = (r, s')"
  shows "view s' = view s \<and> tabs s' = tabs s"
proof -
  let ?f = "\<lambda>tab. limit_offset n 0 (before_sql ms v (rows_of_user u (rt_following tab)))"
  let ?g = "\<lambda>tab. limit_offset n 0 (before_sql ms v (rows_of_user u (rt_follower tab)))"
  show ?thesis
    using assms db_read_steady[of ?f s] db_read_steady[of ?g s]
    by (auto simp: list_from_db_before_def ListFollowingRowsBefore_def ListFollowerRowsBefore_def flatten_def map_ok_def split: if_splits sum.splits)
qed

lemma merge_view: "merge_db_tail S t u cur res final n s = (q, s') \<Longrightarrow> view s' = view s \<and> tabs s' = tabs s"
  by (auto simp: merge_db_tail_def Let_def split: prod.splits sum.splits if_splits dest!: before_view)

lemma warm_cursor_view:
  assumes "read_warm_cursor S u t n cur s = (r, s')"
  shows "view s' = view s \<and> tabs s' = tabs s"
proof -
  obtain q s1 where q: "read_cursor_page S (zset_key t u) cur n s = (q, s1)" by (cases "read_cursor_page S (zset_key t u) cur n s")
  have v1: "view s1 = view s" "tabs s1 = tabs s"
  proof -
    let ?mx = "if \<not> lcu_set cur then None else if lcu_legacy cur then Some (lcu_score cur - 1) else Some (lcu_score cur)"
    let ?n = "if lcu_set cur \<and> \<not> lcu_legacy cur then n + cursor_tie_slack else n"
    obtain s2 where "view s2 = view s" "tabs s2 = tabs s"
      "rd (rs_redis S) (\<lambda>s. r_zrevrangebyscore (rs_redis S) (zset_key t u) ?mx (if ?n \<le> 0 then r_zcard (rs_redis S) (zset_key t u) s else nat ?n) s) s
        = (Inr (r_zrevrangebyscore (rs_redis S) (zset_key t u) ?mx (if ?n \<le> 0 then r_zcard (rs_redis S) (zset_key t u) s2 else nat ?n) s2), s2)"
      by (rule rd_up_tabs)
    then show "view s1 = view s" "tabs s1 = tabs s"
      using q by (auto simp: read_cursor_page_def Let_def split: if_splits)
  qed
  show ?thesis using assms q v1
    by (auto simp: read_warm_cursor_def split: sum.splits if_splits prod.splits dest!: merge_view)
qed

lemma cached_cursor_page:
  assumes "cached_list t u k L (tabs s) (ks_zset (view s) (zset_key t u))" "i \<le> length L" "0 < n"
  shows "\<exists>s1. get_list_with_cursor S u t (int n) (cursor_text L i) s =
      (Inr (take n (drop i (map rr_b L)), if i = length L then [] else cursor_text L (min (i + n) (length L))), s1) \<and>
    tabs s1 = tabs s \<and> view s1 = view s"
proof -
  have c: "caches_newest k t u (tabs s) (view s)" using assms(1) by (rule cached_list_newest)
  have L: "list_rows t u (tabs s) = L" "rows_ok (rt_following (tabs s))" "rows_ok (rt_follower (tabs s))" "ids_sort_alike L"
    "\<forall>r \<in> set L. in_int64 (rr_created r)" "L \<noteq> []" "ks_zset (view s) (zset_key t u) \<noteq> []"
    using assms(1) by (auto simp: cached_list_def)
  obtain s1 where s1: "view s1 = view s" "tabs s1 = tabs s" "list_cached S t u s = (True, s1)"
    using cached_nonempty[OF L(7)] by blast
  obtain r s2 where w: "read_warm_cursor S u t (int n) (cursor_at L i) s1 = (r, s2)"
    by (cases "read_warm_cursor S u t (int n) (cursor_at L i) s1")
  have int: "in_int64 (rr_created (L ! (i - 1)))" using L(5,6) assms(2) by (cases L) (auto simp: nth_Cons')
  have g: "get_list_with_cursor S u t (int n) (cursor_text L i) s = (r, s2)"
    using s1(3) w parse_list_cursor_at[OF int] by (simp add: get_list_with_cursor_def)
  obtain m where m: "r = Inr (map rr_b (take m (drop i L)), if m = 0 then [] else cursor_text L (i + m))"
    "m = min n (length L - i)"
    using warm_cursor_page[of k t u s1 i n r s2, unfolded s1 L(1), OF c L(2-4) assms(2,3) w] no_fault by auto
  have "map rr_b (take m (drop i L)) = take n (drop i (map rr_b L))"
    by (simp add: m(2) take_map drop_map min_def)
  moreover have "(if m = 0 then [] else cursor_text L (i + m)) = (if i = length L then [] else cursor_text L (min (i + n) (length L)))"
    using m(2) assms(2,3) by (auto simp: min_def)
  ultimately show ?thesis using g m(1) warm_cursor_view[OF w] s1 by simp
qed

end

sublocale steady_lists \<subseteq> pages: user_pages "rs_redis S" view "db_tables (rs_db S)" "get_list_with_cursor S u t" "zset_key t u"
    "cached_list t u k L" "map rr_b L" "cursor_text L" for t u k L
proof unfold_locales
  show "has_prefix ''z:'' (zset_key t u)" by (rule zset_key_prefix)
  show "cursor_text L 0 = []" by (simp add: cursor_text_def)
next
  fix p z
  assume c: "cached_list t u k L p z"
  then show d: "distinct (map rr_b L)"
    using page_rows_distinct by (auto simp: cached_list_def list_rows_def rows_ok_def)
  fix i j :: nat
  assume "i < j" "j \<le> length (map rr_b L)"
  then show "cursor_text L j \<noteq> [] \<and> cursor_text L j \<noteq> cursor_text L i"
    using c d by (intro cursor_text_new) (auto simp: cached_list_def)
next
  fix s :: 's and i n :: nat
  assume c: "cached_list t u k L (tabs s) (ks_zset (view s) (zset_key t u))" and i: "i \<le> length (map rr_b L)" and n: "0 < n"
  show "\<exists>s1. get_list_with_cursor S u t (int n) (cursor_text L i) s =
      (Inr (take n (drop i (map rr_b L)), if i = length (map rr_b L) then [] else cursor_text L (min (i + n) (length (map rr_b L)))), s1) \<and>
    tabs s1 = tabs s \<and> view s1 = view s"
    using cached_cursor_page[OF c _ n] i unfolding length_map .
qed

section \<open>A database without faults\<close>

definition steady_db :: "(rel_tables, rel_world) database" where
  "steady_db = \<lparr>db_begin = (\<lambda>s. (None, s)), db_tables = (\<lambda>s. fst (snd s)), db_stmt = (\<lambda>s. (None, s)),
     db_rollback = (\<lambda>s. (None, s)), db_commit = (\<lambda>t s. (None, (fst s, (t, snd (snd s)))))\<rparr>"

definition steady_relation :: "rel_world relation_service" where
  "steady_relation = (mem_relation up_redis)\<lparr>rs_db := steady_db\<rparr>"

lemma steady_sel [simp]:
  "db_stmt steady_db s = (None, s)" "db_tables steady_db = (\<lambda>s. fst (snd s))"
  "rs_db steady_relation = steady_db" "rs_redis steady_relation = on_first (on_first up_redis)"
  "rs_l1 steady_relation = local_l1" "rs_next_id steady_relation = counted_ids" "rs_audit steady_relation = None" "rs_hooks steady_relation = None"
  by (simp_all add: steady_db_def steady_relation_def)

interpretation steady: steady_lists steady_relation "fst \<circ> fst \<circ> fst"
proof -
  have f: "redis_frame (on_first (on_first up_redis)) (\<lambda>s :: rel_world. fst (snd s))"
    by unfold_locales (auto split: prod.splits)
  have d: "sql_database steady_db" by unfold_locales (auto simp: steady_db_def)
  have "relation_store steady_relation"
    using f d by (simp add: relation_store_def relation_store_axioms_def)
  then have "list_world steady_relation (fst \<circ> fst \<circ> fst)"
    using mem_lists.redis_up_axioms mem_lists.l1_get_view by (simp add: list_world_def list_world_axioms_def local_l1_def)
  moreover have "redis_lists_frame (on_first (on_first up_redis)) (\<lambda>s :: rel_world. fst (snd s))"
    using f by (simp add: redis_lists_frame_def redis_lists_frame_axioms_def)
  ultimately show "steady_lists steady_relation (fst \<circ> fst \<circ> fst)"
    by (simp add: steady_lists_def steady_lists_axioms_def)
qed

end
