(* ===== verification/Fanout_Timeline.thy ===== *)
theory Fanout_Timeline
  imports Fanout_Lists
begin

text \<open>
  The reading side of the timeline: a page merged from the newest entries of every
  source is the page of the merged sources themselves.
\<close>

section \<open>Lists in a strict order\<close>

lemma sorted_wrt_unique:
  assumes "\<And>x y. P x y \<Longrightarrow> \<not> P y x" "sorted_wrt P xs" "sorted_wrt P ys" "set xs = set ys"
  shows "xs = ys"
  using assms(2-4)
proof (induction xs arbitrary: ys)
  case Nil
  then show ?case by simp
next
  case (Cons x xs)
  then obtain y ys' where ys: "ys = y # ys'" by (cases ys) auto
  have irr: "\<not> P z z" for z using assms(1)[of z z] by blast
  have "x = y"
  proof (rule ccontr)
    assume "x \<noteq> y"
    then have "y \<in> set xs" "x \<in> set ys'" using Cons.prems(3) ys by auto
    then have "P x y" "P y x" using Cons.prems(1,2) ys by auto
    then show False using assms(1) by blast
  qed
  moreover have "x \<notin> set xs" "y \<notin> set ys'" using Cons.prems(1,2) ys irr by auto
  ultimately have "set xs = set ys'" using Cons.prems(3) ys by auto
  then show ?case using Cons.IH[of ys'] Cons.prems(1,2) ys \<open>x = y\<close> by simp
qed

lemma sorted_wrt_sublist_filter:
  assumes "\<And>x y. P x y \<Longrightarrow> \<not> P y x" "sorted_wrt P xs" "sorted_wrt P ys" "set xs \<subseteq> set ys"
  shows "xs = filter (\<lambda>x. x \<in> set xs) ys"
  using assms by (intro sorted_wrt_unique[of P]) (auto simp: sorted_wrt_filter)

lemma set_filter_take: "set (filter P (take n xs)) \<subseteq> set (take n (filter P xs))"
proof (induction xs arbitrary: n)
  case (Cons x xs)
  show ?case
  proof (cases n)
    case (Suc m)
    have "set (filter P (take m xs)) \<subseteq> set (take n (filter P xs))"
      using Cons.IH[of m] set_take_subset_set_take[of m n "filter P xs"] Suc by auto
    then show ?thesis using Cons.IH[of m] Suc by auto
  qed simp
qed simp

lemma take_filter_all: "\<forall>x \<in> set (take n xs). P x \<Longrightarrow> take n (filter P xs) = take n xs"
proof (induction xs arbitrary: n)
  case (Cons x xs)
  then show ?case by (cases n) auto
qed simp

lemma take_filter_slack:
  "length (filter (\<lambda>x. \<not> P x) xs) \<le> k \<Longrightarrow> take n (filter P (take (n + k) xs)) = take n (filter P xs)"
proof (induction xs arbitrary: n k)
  case (Cons x xs)
  show ?case
  proof (cases "P x")
    case True
    then show ?thesis using Cons by (cases n) auto
  next
    case False
    then obtain k' where "k = Suc k'" using Cons.prems by (cases k) auto
    then show ?thesis using False Cons by simp
  qed
qed simp

section \<open>The order of the timeline\<close>

definition newer :: "timeline_entry \<Rightarrow> timeline_entry \<Rightarrow> bool" where
  "newer e f = (te_score f < te_score e \<or> te_score f = te_score e \<and> te_post f < te_post e)"

lemma newer_asym: "newer e f \<Longrightarrow> \<not> newer f e"
  by (auto simp: newer_def)

definition same_scores :: "timeline_entry list \<Rightarrow> bool" where
  "same_scores es = (\<forall>e \<in> set es. \<forall>f \<in> set es. te_post e = te_post f \<longrightarrow> te_score e = te_score f)"

lemma same_scoresD:
  assumes "same_scores es" "e \<in> set es" "f \<in> set es" "te_post e = te_post f"
  shows "e = f"
proof -
  have "te_score e = te_score f" using assms unfolding same_scores_def by blast
  then show ?thesis using assms(4) by (cases e; cases f) simp
qed

lemma same_scores_subset: "same_scores es \<Longrightarrow> set fs \<subseteq> set es \<Longrightarrow> same_scores fs"
  unfolding same_scores_def by blast

lemma first_of_each_distinct: "distinct (map te_post (first_of_each seen es)) \<and> te_post ` set (first_of_each seen es) \<inter> set seen = {}"
proof (induction es arbitrary: seen)
  case (Cons e es)
  show ?case using Cons.IH[of seen] Cons.IH[of "te_post e # seen"] by auto
qed simp

lemma set_first_of_each: "same_scores es \<Longrightarrow> set (first_of_each seen es) = {e \<in> set es. te_post e \<notin> set seen}"
proof (induction es arbitrary: seen)
  case (Cons e es)
  have s: "same_scores es" using Cons.prems by (rule same_scores_subset) auto
  have "f = e" if "f \<in> set es" "te_post f = te_post e" for f
    using same_scoresD[OF Cons.prems, of f e] that by simp
  then show ?case using Cons.IH[OF s] by auto
qed simp

lemma newest_entries_sorted:
  assumes "distinct (map te_post es)"
  shows "sorted_wrt newer (newest_entries es)" "set (newest_entries es) = set es"
proof -
  let ?us = "sort_key (\<lambda>e. - uint (te_post e)) es"
  have "distinct (map te_post ?us)" using assms by (simp add: distinct_map)
  then have "distinct (map (\<lambda>e. - uint (te_post e)) ?us)"
    by (auto simp add: distinct_map inj_on_def simp flip: word_uint_eq_iff)
  moreover have "sorted (map (\<lambda>e. - uint (te_post e)) ?us)" by simp
  ultimately have "sorted_wrt (<) (map (\<lambda>e. - uint (te_post e)) ?us)" by (simp add: strict_sorted_iff)
  then have "sorted_wrt (\<lambda>x y. te_post y < te_post x) ?us" by (simp add: sorted_wrt_map word_less_def)
  then have "sorted_wrt (\<lambda>x y. - te_score x < - te_score y \<or> - te_score x = - te_score y \<and> te_post y < te_post x) (newest_entries es)"
    unfolding newest_entries_def by (rule sorted_stable)
  then show "sorted_wrt newer (newest_entries es)" by (rule sorted_wrt_mono_rel[rotated]) (auto simp: newer_def)
  show "set (newest_entries es) = set es" by (simp add: newest_entries_def)
qed

text \<open>The reference: all sources in full, each post once, newest first.\<close>

definition home_feed :: "timeline_entry list list \<Rightarrow> timeline_entry list" where
  "home_feed sources = newest_entries (first_of_each [] (concat sources))"

lemma home_feed_sorted: "sorted_wrt newer (home_feed sources)"
  using newest_entries_sorted(1) first_of_each_distinct by (simp add: home_feed_def)

lemma set_home_feed: "same_scores (concat sources) \<Longrightarrow> set (home_feed sources) = set (concat sources)"
  using newest_entries_sorted(2) first_of_each_distinct[of "[]"] set_first_of_each[of "concat sources" "[]"]
  unfolding home_feed_def by auto

section \<open>A page from the newest of every source\<close>

definition at_or_below :: "timeline_cursor \<Rightarrow> timeline_entry \<Rightarrow> bool" where
  "at_or_below cur e = (\<not> tc_set cur \<or> te_score e \<le> tc_score cur)"

lemma after_at_or_below: "after_cursor cur e \<Longrightarrow> at_or_below cur e"
  by (auto simp: after_cursor_def at_or_below_def split: if_splits)

text \<open>Entries at the time of the cursor that do not come after it.\<close>

definition ties_before :: "timeline_cursor \<Rightarrow> timeline_entry list \<Rightarrow> nat" where
  "ties_before cur es = length (filter (\<lambda>e. at_or_below cur e \<and> \<not> after_cursor cur e) es)"

lemma fetched_part:
  assumes "ties_before cur es \<le> k"
  shows "take n (filter (after_cursor cur) (take (n + k) (filter (at_or_below cur) es))) = take n (filter (after_cursor cur) es)"
proof -
  have "length (filter (\<lambda>e. \<not> after_cursor cur e) (filter (at_or_below cur) es)) \<le> k"
    using assms by (simp add: ties_before_def conj_commute)
  then have "take n (filter (after_cursor cur) (take (n + k) (filter (at_or_below cur) es))) =
      take n (filter (after_cursor cur) (filter (at_or_below cur) es))" by (rule take_filter_slack)
  also have "filter (after_cursor cur) (filter (at_or_below cur) es) = filter (after_cursor cur) es"
    by (simp add: filter_filter) (rule filter_cong, auto dest: after_at_or_below)
  finally show ?thesis .
qed

lemma merged_page:
  assumes "\<forall>es \<in> set sources. sorted_wrt newer es \<and> ties_before cur es \<le> k" "same_scores (concat sources)"
  shows "take n (filter (after_cursor cur) (home_feed (map (\<lambda>es. take (n + k) (filter (at_or_below cur) es)) sources))) =
    take n (filter (after_cursor cur) (home_feed sources))"
proof -
  let ?cut = "\<lambda>es. take (n + k) (filter (at_or_below cur) es)"
  let ?X = "filter (after_cursor cur) (home_feed sources)" and ?Y = "filter (after_cursor cur) (home_feed (map ?cut sources))"
  have sub: "set (concat (map ?cut sources)) \<subseteq> set (concat sources)" by (auto dest!: in_set_takeD)
  have sX: "sorted_wrt newer ?X" and sY: "sorted_wrt newer ?Y" by (simp_all add: sorted_wrt_filter home_feed_sorted)
  have X: "set ?X = {e \<in> set (concat sources). after_cursor cur e}" using set_home_feed[OF assms(2)] by auto
  have Y: "set ?Y = {e \<in> set (concat (map ?cut sources)). after_cursor cur e}"
    using set_home_feed[OF same_scores_subset[OF assms(2) sub]] by auto
  have "set ?Y \<subseteq> set ?X" unfolding X Y using sub by blast
  then have YX: "?Y = filter (\<lambda>e. e \<in> set ?Y) ?X" using sX sY newer_asym by (intro sorted_wrt_sublist_filter[of newer]) blast+
  have "e \<in> set ?Y" if e: "e \<in> set (take n ?X)" for e
  proof -
    from e have "e \<in> set ?X" by (rule in_set_takeD)
    then obtain es where es: "es \<in> set sources" "e \<in> set (filter (after_cursor cur) es)" unfolding X by auto
    let ?A = "filter (after_cursor cur) es"
    have sA: "sorted_wrt newer ?A" using assms(1) es(1) by (simp add: sorted_wrt_filter)
    have "set ?A \<subseteq> set ?X" unfolding X using es(1) by auto
    then have A: "?A = filter (\<lambda>e. e \<in> set ?A) ?X" using sA sX newer_asym by (intro sorted_wrt_sublist_filter[of newer]) blast+
    have "e \<in> set (filter (\<lambda>e. e \<in> set ?A) (take n ?X))" using e es(2) by simp
    then have "e \<in> set (take n ?A)" using set_filter_take[of "\<lambda>e. e \<in> set ?A" n ?X] A by auto
    also have "take n ?A = take n (filter (after_cursor cur) (?cut es))" using fetched_part[of cur es k n] assms(1) es(1) by simp
    finally have "e \<in> set (filter (after_cursor cur) (?cut es))" by (rule in_set_takeD)
    then show ?thesis unfolding Y using es(1) by auto
  qed
  then have "take n (filter (\<lambda>e. e \<in> set ?Y) ?X) = take n ?X" by (intro take_filter_all) blast
  then show ?thesis using YX by simp
qed

section \<open>Reading the sources\<close>

definition member_of :: "timeline_entry \<Rightarrow> string \<times> int" where
  "member_of e = (format_uint (te_post e), te_score e)"

text \<open>
  A sorted set holds a list of entries; that its members sort like the posts is part
  of it, since Redis orders equal scores by the text of the member.
\<close>

definition box_holds :: "timeline_entry list \<Rightarrow> zset \<Rightarrow> bool" where
  "box_holds es z = (sorted_wrt newer es \<and> rev z = map member_of es)"

lemma to_entries_members [simp]: "to_entries (map member_of es) = es"
  by (induction es) (simp_all add: to_entries_def member_of_def map_filter_simps)

lemma read_box:
  assumes "box_holds es z"
  shows "to_entries (zs_rev_by_score (range_max cur) n z) = take n (filter (at_or_below cur) es)"
proof -
  have "filter (\<lambda>p. case range_max cur of None \<Rightarrow> True | Some m \<Rightarrow> snd p \<le> m) (rev z) = map member_of (filter (at_or_below cur) es)"
    using assms by (auto simp: box_holds_def filter_map comp_def range_max_def at_or_below_def member_of_def intro!: arg_cong[of _ _ "map _"] filter_cong)
  then show ?thesis by (simp add: zs_rev_by_score_def take_map)
qed

text \<open>The author is in the set of celebrities.\<close>

definition marked :: "keyspace \<Rightarrow> uint64 \<Rightarrow> bool" where
  "marked ks a = (format_uint a \<in> ks_set ks celebrity_set_key)"

definition timeline_text :: "timeline_entry list \<Rightarrow> nat \<Rightarrow> string" where
  "timeline_text feed i = (if i = 0 then [] else encode_timeline_cursor (feed ! (i - 1)))"

definition timeline_cursor_at :: "timeline_entry list \<Rightarrow> nat \<Rightarrow> timeline_cursor" where
  "timeline_cursor_at feed i = (if i = 0 then no_timeline_cursor
     else \<lparr>tc_set = True, tc_score = te_score (feed ! (i - 1)), tc_post = te_post (feed ! (i - 1))\<rparr>)"

lemma parse_timeline_text:
  assumes "in_int64 (te_score (feed ! (i - 1)))"
  shows "parse_timeline_cursor (timeline_text feed i) = Some (timeline_cursor_at feed i)"
proof (cases "i = 0")
  case True
  then show ?thesis by (simp add: timeline_text_def timeline_cursor_at_def parse_timeline_cursor_def)
next
  case False
  then show ?thesis
    using assms by (simp add: timeline_text_def timeline_cursor_at_def parse_timeline_cursor_def encode_timeline_cursor_def colon_def)
qed

lemma after_cursor_at:
  assumes "sorted_wrt newer feed" "i \<le> length feed"
  shows "filter (after_cursor (timeline_cursor_at feed i)) feed = drop i feed"
proof (cases "i = 0")
  case True
  then show ?thesis by (simp add: timeline_cursor_at_def no_timeline_cursor_def after_cursor_def)
next
  case False
  have "after_cursor (timeline_cursor_at feed i) = newer (feed ! (i - 1))"
    using False by (auto simp: fun_eq_iff timeline_cursor_at_def after_cursor_def newer_def)
  then show ?thesis
    using filter_sorted_drop[OF assms(1) newer_asym _ _ assms(2)] False newer_asym by (metis gr0I)
qed

locale fanout_reader = user_pages "tr_redis T" view part "tr_following T reader" key ok followees pos
  for T :: "'s timeline_reader" and view :: "'s \<Rightarrow> keyspace" and part :: "'s \<Rightarrow> 'p"
    and reader :: uint64 and key :: string and ok :: "'p \<Rightarrow> zset \<Rightarrow> bool" and followees :: "uint64 list" and pos :: "nat \<Rightarrow> string" +
  assumes same_redis: "cg_redis (tr_celebrities T) = tr_redis T"
    and pulls: "0 < fc_max_pull (tr_cfg T)"

context fanout_reader
begin

lemma rd_up_part:
  obtains s1 where "view s1 = view s" "part s1 = part s" "rd (tr_redis T) f s = (Inr (f s1), s1)"
proof -
  obtain s1 where s1: "view s1 = view s" "rd (tr_redis T) f s = (Inr (f s1), s1)" by (rule rd_upE)
  have "part (snd (rd (tr_redis T) f s)) = part s" unfolding rd_def by (rule frame_roundtrip) simp
  with s1 that show ?thesis by simp
qed

lemma among_marked:
  "\<exists>s1. among (tr_celebrities T) us s = (Inr (filter (marked (view s)) us), s1) \<and> view s1 = view s \<and> part s1 = part s"
proof (cases "us = []")
  case False
  obtain s1 where "view s1 = view s" "part s1 = part s"
    "rd (tr_redis T) (\<lambda>s. filter (\<lambda>a. r_sismember (tr_redis T) celebrity_set_key (format_uint a) s) us) s =
      (Inr (filter (\<lambda>a. r_sismember (tr_redis T) celebrity_set_key (format_uint a) s1) us), s1)" by (rule rd_up_part)
  then show ?thesis using False by (simp add: among_def same_redis marked_def[abs_def])
qed (simp add: among_def)

lemma scan_following_marked:
  assumes "ok (part s) (ks_zset (view s) key)" "i \<le> length followees" "length followees \<le> i + 500 * pages"
    and "int (length celebs) < fc_max_pull (tr_cfg T)" "scan_following T reader pages (pos i) celebs s = (q, s')"
  shows "q = Inr (take (nat (fc_max_pull (tr_cfg T))) (celebs @ filter (marked (view s)) (drop i followees))) \<and> view s' = view s \<and> part s' = part s"
  using assms
proof (induction pages arbitrary: i celebs s)
  case 0
  then show ?case by auto
next
  case (Suc pages)
  define us where "us = take 500 (drop i followees)"
  define j where "j = min (i + 500) (length followees)"
  define mp where "mp = nat (fc_max_pull (tr_cfg T))"
  have mp: "fc_max_pull (tr_cfg T) = int mp" "length celebs < mp" using pulls Suc.prems(4) by (simp_all add: mp_def)
  obtain s1 where s1: "tr_following T reader 500 (pos i) s = (Inr (us, if i = length followees then [] else pos j), s1)"
    "part s1 = part s" "view s1 = view s"
    using next_page[OF Suc.prems(1,2), of 500] unfolding us_def j_def by auto
  obtain s2 where s2: "among (tr_celebrities T) us s1 = (Inr (filter (marked (view s1)) us), s2)" "view s2 = view s1" "part s2 = part s1"
    using among_marked by blast
  have m: "marked (view s1) = marked (view s)" "marked (view s2) = marked (view s)" using s1(3) s2(2) by (simp_all add: marked_def fun_eq_iff)
  have split: "filter (marked (view s)) (drop i followees) = filter (marked (view s)) us @ filter (marked (view s)) (drop j followees)"
  proof -
    have "drop i followees = us @ drop j followees"
      using append_take_drop_id[of 500 "drop i followees"] by (auto simp: us_def j_def min_def add.commute)
    then show ?thesis by simp
  qed
  define found where "found = filter (marked (view s)) us"
  define c1 where "c1 = take mp (celebs @ found)"
  have tc: "take_celebs mp celebs found = c1" using mp(2) by (simp add: take_celebs_def c1_def)
  note call = scan_following.simps(2) following_scan_page_size_def s1(1) prod.case sum.case s2(1) m(1) found_def[symmetric] Let_def mp(1) nat_int tc
  show ?case
  proof (cases "us = []")
    case True
    then have "i = length followees" using Suc.prems(2) by (auto simp: us_def)
    then show ?thesis using Suc.prems(5) True s1(2,3) mp unfolding call by auto
  next
    case False
    then have i: "i \<noteq> length followees" by (auto simp: us_def)
    then have j: "i < j" "j \<le> length followees" "length us = j - i" using Suc.prems(2) by (auto simp: us_def j_def)
    have step: "scan_following T reader (Suc pages) (pos i) celebs s =
     (if found \<noteq> [] \<and> mp \<le> length c1 then (Inr c1, s2)
      else if pos j = [] \<or> pos j = pos i \<or> length us < 500 then (Inr c1, s2)
      else scan_following T reader pages (pos j) c1 s2)"
      unfolding call using False i by simp
    note new = pos_new[OF Suc.prems(1) j(1,2)]
    consider (full) "found \<noteq> []" "mp \<le> length c1"
      | (short) "found = [] \<or> \<not> mp \<le> length c1" "length us < 500"
      | (go) "found = [] \<or> \<not> mp \<le> length c1" "\<not> length us < 500" by blast
    then show ?thesis
    proof cases
      case full
      then have r: "q = Inr c1" "s' = s2" using Suc.prems(5) step False by auto
      have "mp \<le> length (celebs @ found)" using full(2) by (simp add: c1_def)
      then show ?thesis using r s1 s2 split by (simp add: mp_def[symmetric] found_def[symmetric] c1_def)
    next
      case short
      then have r: "q = Inr c1" "s' = s2" using Suc.prems(5) step False by auto
      have "j = length followees" using short(2) j by (auto simp: j_def)
      then show ?thesis using r s1 s2 split by (simp add: mp_def[symmetric] found_def[symmetric] c1_def)
    next
      case go
      have rec: "scan_following T reader pages (pos j) c1 s2 = (q, s')"
        using Suc.prems(5) step False go new by auto
      have lt: "length (celebs @ found) < mp" using go(1) mp(2) by (auto simp: c1_def)
      have "length followees \<le> j + 500 * pages" using Suc.prems(3) by (auto simp: j_def)
      from Suc.IH[OF _ j(2) this _ rec] Suc.prems(1) s1 s2 lt mp
      have "q = Inr (take mp (c1 @ filter (marked (view s2)) (drop j followees))) \<and> view s' = view s2 \<and> part s' = part s2"
        by (simp add: mp_def[symmetric] c1_def)
      then show ?thesis using s1 s2 split lt m by (simp add: mp_def[symmetric] found_def[symmetric] c1_def)
    qed
  qed
qed

lemma read_inbox_entries:
  assumes "box_holds es (ks_zset (view s) (timeline_key reader))"
  shows "\<exists>s1. read_inbox T reader cur n s = (Inr (take n (filter (at_or_below cur) es)), s1) \<and> view s1 = view s \<and> part s1 = part s"
proof -
  obtain s1 where "view s1 = view s" "part s1 = part s"
    "rd (tr_redis T) (r_zrevrangebyscore (tr_redis T) (timeline_key reader) (range_max cur) n) s =
      (Inr (r_zrevrangebyscore (tr_redis T) (timeline_key reader) (range_max cur) n s1), s1)" by (rule rd_up_part)
  then show ?thesis using read_box[OF assms] by (simp add: read_inbox_def map_ok_def)
qed

lemma read_boxes_entries:
  assumes "ok (part s) (ks_zset (view s) key)" "length followees \<le> 20000"
    and "celebs = take (nat (fc_max_pull (tr_cfg T))) (filter (marked (view s)) followees)"
    and "\<forall>c \<in> set celebs. box_holds (box c) (ks_zset (view s) (author_box_key c))"
  shows "\<exists>s1. read_celebrity_boxes T reader cur n s =
    (Inr (concat (map (\<lambda>c. take n (filter (at_or_below cur) (box c))) celebs)), s1)"
proof -
  obtain q s1 where q: "followed_celebrities T reader s = (q, s1)" by (cases "followed_celebrities T reader s")
  then have "scan_following T reader 40 (pos 0) [] s = (q, s1)"
    by (simp add: followed_celebrities_def following_scan_max_pages_def pos_start)
  then have r: "q = Inr celebs" "view s1 = view s"
    using scan_following_marked[of s 0 40 "[]" q s1] assms(1-3) pulls by auto
  show ?thesis
  proof (cases "celebs = []")
    case True
    then show ?thesis using q r by (simp add: read_celebrity_boxes_def)
  next
    case False
    let ?f = "\<lambda>s. concat (map (\<lambda>c. to_entries (r_zrevrangebyscore (tr_redis T) (author_box_key c) (range_max cur) n s)) celebs)"
    obtain s2 where s2: "view s2 = view s1" "part s2 = part s1" "rd (tr_redis T) ?f s1 = (Inr (?f s2), s2)" by (rule rd_up_part)
    have "to_entries (r_zrevrangebyscore (tr_redis T) (author_box_key c) (range_max cur) n s2) = take n (filter (at_or_below cur) (box c))"
      if "c \<in> set celebs" for c
      using read_box assms(4) that s2(1) r(2) by simp
    then have "?f s2 = concat (map (\<lambda>c. take n (filter (at_or_below cur) (box c))) celebs)"
      by (intro arg_cong[of _ _ concat] map_cong) auto
    then show ?thesis using q r False s2 by (simp add: read_celebrity_boxes_def)
  qed
qed

lemma home_timeline_slice:
  assumes "ok (part s) (ks_zset (view s) key)" "length followees \<le> 20000"
    and "celebs = take (nat (fc_max_pull (tr_cfg T))) (filter (marked (view s)) followees)"
    and "box_holds inbox (ks_zset (view s) (timeline_key reader))" "\<forall>c \<in> set celebs. box_holds (box c) (ks_zset (view s) (author_box_key c))"
    and "feed = home_feed (inbox # map box celebs)" "same_scores (concat (inbox # map box celebs))"
    and "i \<le> length feed" "in_int64 (te_score (feed ! (i - 1)))" "0 < limit"
    and "\<forall>es \<in> set (inbox # map box celebs). ties_before (timeline_cursor_at feed i) es \<le> 16"
    and "HomeTimeline T reader (timeline_text feed i) (int limit) s = (r, s')"
  shows "r = Inr (take limit (drop i feed), if i = length feed then [] else timeline_text feed (min (i + limit) (length feed)), i + limit < length feed)"
proof -
  let ?c = "timeline_cursor_at feed i" and ?n = "limit + 1 + 16"
  let ?cut = "\<lambda>es. take ?n (filter (at_or_below ?c) es)"
  obtain s1 where s1: "read_inbox T reader ?c ?n s = (Inr (?cut inbox), s1)" "view s1 = view s" "part s1 = part s"
    using read_inbox_entries[OF assms(4)] by blast
  obtain s2 where s2: "read_celebrity_boxes T reader ?c ?n s1 = (Inr (concat (map (\<lambda>c. ?cut (box c)) celebs)), s2)"
    using read_boxes_entries[of s1 celebs box ?c ?n] s1(2,3) assms(1-3,5) by auto
  have merged: "merge_timelines (?cut inbox) (concat (map (\<lambda>c. ?cut (box c)) celebs)) 0 = home_feed (map ?cut (inbox # map box celebs))"
    by (simp add: merge_timelines_def home_feed_def comp_def)
  have sorted: "\<forall>es \<in> set (inbox # map box celebs). sorted_wrt newer es \<and> ties_before ?c es \<le> 16"
    using assms(4,5,11) by (auto simp: box_holds_def)
  have page: "take (limit + 1) (filter (after_cursor ?c) (home_feed (map ?cut (inbox # map box celebs)))) = take (limit + 1) (drop i feed)"
    using merged_page[OF sorted assms(7), of "limit + 1"] after_cursor_at[OF home_feed_sorted, of i "inbox # map box celebs"] assms(6,8)
    by simp
  have lim: "nat (if int limit \<le> 0 then 20 else int limit) = limit" using assms(10) by simp
  have h: "HomeTimeline T reader (timeline_text feed i) (int limit) s =
     (let page = take (limit + 1) (drop i feed); shown = take limit page
      in (Inr (shown, if shown = [] then [] else encode_timeline_cursor (last shown), length page > limit), s2))"
    unfolding HomeTimeline_def parse_timeline_text[OF assms(9)] option.case tie_slack_def Let_def lim s1(1) prod.case sum.case s2 merged page
    by (rule refl)
  have last: "encode_timeline_cursor (last (take limit (drop i feed))) = timeline_text feed (min (i + limit) (length feed))" if "i < length feed"
  proof -
    let ?m = "min (i + limit) (length feed)"
    have ne: "take limit (drop i feed) \<noteq> []" using that assms(10) by simp
    have len: "length (take limit (drop i feed)) = ?m - i" using that by auto
    have "last (take limit (drop i feed)) = take limit (drop i feed) ! (?m - i - 1)"
      using ne len by (simp add: last_conv_nth)
    also have "\<dots> = feed ! (?m - 1)" using that assms(10) by (auto simp: min_def)
    finally show ?thesis using that assms(10) by (simp add: timeline_text_def)
  qed
  have "take limit (take (limit + 1) (drop i feed)) = take limit (drop i feed)" by (simp add: min_def)
  then show ?thesis using assms(8,10,12) h last by (cases "i = length feed") (auto simp: Let_def)
qed

end

end
