(* ===== verification/Fanout_Props.thy ===== *)
theory Fanout_Props
  imports Fanout_Timeline
begin

text \<open>
  The timeline on the lists of the relation service: what a publication reaches,
  what a page of a reader shows, what an unfollow takes away, and the authors no
  reader sees.
\<close>

section \<open>The services of the witnesses\<close>

text \<open>One Redis for the relation service, the user counters and the timeline.\<close>

definition fan_service :: "rel_world follower_counter option \<Rightarrow> rel_world fanout_service" where
  "fan_service counter = new_fanout_service (on_first (on_first up_redis)) (FollowersCursor steady_relation) counter default_fanout_config"

definition fan_reader :: "rel_world timeline_reader" where
  "fan_reader = new_timeline_reader (on_first (on_first up_redis)) (FollowingCursor steady_relation)
     (fs_celebrities (fan_service None)) default_fanout_config"

lemma fan_service_sel [simp]:
  "fs_redis (fan_service c) = on_first (on_first up_redis)" "fs_followers (fan_service c) = FollowersCursor steady_relation"
  "cg_redis (fs_celebrities (fan_service c)) = on_first (on_first up_redis)" "cg_counter (fs_celebrities (fan_service c)) = c"
  "cg_threshold (fs_celebrities (fan_service c)) = 5000" "fc_celebrity_threshold (fs_cfg (fan_service c)) = 5000"
  "fc_batch_size (fs_cfg (fan_service c)) = 500" "fc_max_fans (fs_cfg (fan_service c)) = 100000"
  "fc_timeline_max (fs_cfg (fan_service c)) = 1000" "fc_box_max (fs_cfg (fan_service c)) = 200"
  by (simp_all add: fan_service_def new_fanout_service_def new_celebrity_registry_def with_fanout_defaults_def
      default_fanout_config_def or_default_def Let_def)

lemma fan_reader_sel [simp]:
  "tr_redis fan_reader = on_first (on_first up_redis)" "tr_following fan_reader = FollowingCursor steady_relation"
  "cg_redis (tr_celebrities fan_reader) = on_first (on_first up_redis)" "fc_max_pull (tr_cfg fan_reader) = 200"
  by (simp_all add: fan_reader_def new_timeline_reader_def with_fanout_defaults_def default_fanout_config_def or_default_def Let_def)

lemma cursor_lists: "FollowersCursor S u = get_list_with_cursor S u ''followers''" "FollowingCursor S u = get_list_with_cursor S u ''following''"
  by (simp_all add: fun_eq_iff FollowersCursor_def FollowingCursor_def)

abbreviation (input) world_view :: "rel_world \<Rightarrow> keyspace" where
  "world_view \<equiv> fst \<circ> fst \<circ> fst"

lemma follower_count_reads:
  "fst (FollowerCount (Some rel_counter) a s) = (case ks_hash (world_view s) (user_counts_key a) metric_follower of
      None \<Rightarrow> (0, False) | Some n \<Rightarrow> (case parse_int (format_int n) of None \<Rightarrow> (0, False) | Some m \<Rightarrow> if m < 0 then (0, True) else (m, True))) \<and>
   world_view (snd (FollowerCount (Some rel_counter) a s)) = world_view s \<and>
   fst (snd (snd (FollowerCount (Some rel_counter) a s))) = fst (snd s)"
proof -
  let ?R = "on_first (on_first up_redis) :: rel_world redis"
  obtain s1 where s1: "world_view s1 = world_view s" "fst (snd s1) = fst (snd s)"
    "rd ?R (r_hget ?R (user_counts_key a) metric_follower) s = (Inr (r_hget ?R (user_counts_key a) metric_follower s1), s1)"
    using steady.rd_up_tabs[of s "r_hget ?R (user_counts_key a) metric_follower"] unfolding steady_sel by blast
  have "r_hget ?R (user_counts_key a) metric_follower s1 = map_option format_int (ks_hash (world_view s) (user_counts_key a) metric_follower)"
    using mem_lists.hget_view s1(1) steady.hget_view[of "user_counts_key a" metric_follower s1] by (simp only: steady_sel)
  then show ?thesis using s1
    by (auto simp: FollowerCount_def rel_counter_def split: option.splits)
qed

interpretation steady_writer: fanout_writer "fan_service None" world_view "\<lambda>s. fst (snd s)" a "zset_key ''followers'' a"
    "cached_list ''followers'' a k L" "map rr_b L" "cursor_text L" for a k L
proof -
  have "user_pages (on_first (on_first up_redis)) world_view (\<lambda>s. fst (snd s)) (FollowersCursor steady_relation a)
      (zset_key ''followers'' a) (cached_list ''followers'' a k L) (map rr_b L) (cursor_text L)"
    using steady.pages.user_pages_axioms[of a "''followers''" k L] by (simp add: cursor_lists)
  then show "fanout_writer (fan_service None) world_view (\<lambda>s. fst (snd s)) a (zset_key ''followers'' a)
      (cached_list ''followers'' a k L) (map rr_b L) (cursor_text L)"
    by (simp add: fanout_writer_def fanout_writer_axioms_def)
qed

interpretation counted_writer: fanout_writer "fan_service (Some (FollowerCount (Some rel_counter)))" world_view "\<lambda>s. fst (snd s)" a
    "zset_key ''followers'' a" "cached_list ''followers'' a k L" "map rr_b L" "cursor_text L" for a k L
proof -
  have "user_pages (on_first (on_first up_redis)) world_view (\<lambda>s. fst (snd s)) (FollowersCursor steady_relation a)
      (zset_key ''followers'' a) (cached_list ''followers'' a k L) (map rr_b L) (cursor_text L)"
    using steady.pages.user_pages_axioms[of a "''followers''" k L] by (simp add: cursor_lists)
  then show "fanout_writer (fan_service (Some (FollowerCount (Some rel_counter)))) world_view (\<lambda>s. fst (snd s)) a (zset_key ''followers'' a)
      (cached_list ''followers'' a k L) (map rr_b L) (cursor_text L)"
    using follower_count_reads by (simp add: fanout_writer_def fanout_writer_axioms_def)
qed

interpretation steady_reader: fanout_reader fan_reader world_view "\<lambda>s. fst (snd s)" u "zset_key ''following'' u"
    "cached_list ''following'' u k L" "map rr_b L" "cursor_text L" for u k L
proof -
  have "user_pages (on_first (on_first up_redis)) world_view (\<lambda>s. fst (snd s)) (FollowingCursor steady_relation u)
      (zset_key ''following'' u) (cached_list ''following'' u k L) (map rr_b L) (cursor_text L)"
    using steady.pages.user_pages_axioms[of u "''following''" k L] by (simp add: cursor_lists)
  then show "fanout_reader fan_reader world_view (\<lambda>s. fst (snd s)) u (zset_key ''following'' u)
      (cached_list ''following'' u k L) (map rr_b L) (cursor_text L)"
    by (simp add: fanout_reader_def fanout_reader_axioms_def)
qed

text \<open>User 1 follows 7, and both lists are cached; 7 is marked and has a post 40, the inbox of 1 a post 30.\<close>

definition one_reader :: "uint64 set \<Rightarrow> rel_world" where
  "one_reader celebs = (((empty_keyspace\<lparr>
       ks_zset := (\<lambda>k. if k = zset_key ''following'' 1 then [(format_uint 7, 20)] else if k = zset_key ''followers'' 7 then [(format_uint 1, 20)]
         else if k = timeline_key 1 then [(format_uint 30, 300)] else if k = author_box_key 7 then [(format_uint 40, 400)] else []),
       ks_hash := (\<lambda>k f. if k = user_counts_key 7 \<and> f = metric_follower then Some 6000 else None),
       ks_set := (\<lambda>k. if k = celebrity_set_key then format_uint ` celebs else {})\<rparr>, []), (1, (\<lambda>_. None))),
     (no_relations\<lparr>rt_following := [\<lparr>rr_id = 1, rr_a = 1, rr_b = 7, rr_status = 1, rr_created = 20, rr_updated = 20\<rparr>],
        rt_follower := [\<lparr>rr_id = 2, rr_a = 7, rr_b = 1, rr_status = 1, rr_created = 20, rr_updated = 20\<rparr>]\<rparr>, []))"

definition follower_row :: rel_row where
  "follower_row = \<lparr>rr_id = 2, rr_a = 7, rr_b = 1, rr_status = 1, rr_created = 20, rr_updated = 20\<rparr>"

definition followee_row :: rel_row where
  "followee_row = \<lparr>rr_id = 1, rr_a = 1, rr_b = 7, rr_status = 1, rr_created = 20, rr_updated = 20\<rparr>"

lemma one_reader_sel [simp]:
  "ks_zset (fst (fst (fst (one_reader c)))) (timeline_key u) = (if u = 1 then [(format_uint 30, 300)] else [])"
  "ks_zset (fst (fst (fst (one_reader c)))) (author_box_key a) = (if a = 7 then [(format_uint 40, 400)] else [])"
  "ks_hash (fst (fst (fst (one_reader c)))) (user_counts_key 7) metric_follower = Some 6000"
  "ks_set (fst (fst (fst (one_reader c)))) celebrity_set_key = format_uint ` c"
  by (auto simp: one_reader_def zset_key_def timeline_key_def author_box_key_def)

lemma one_reader_lists:
  "cached_list ''followers'' 7 1 [follower_row] (fst (snd (one_reader c))) (ks_zset (world_view (one_reader c)) (zset_key ''followers'' 7))"
  "cached_list ''following'' 1 1 [followee_row] (fst (snd (one_reader c))) (ks_zset (world_view (one_reader c)) (zset_key ''following'' 1))"
  by (simp_all add: cached_list_def one_reader_def follower_row_def followee_row_def zset_key_def list_rows_def page_rows_def rows_of_user_def
      rows_ok_def pair_of_def ids_sort_alike_def entry_of_def in_int64_def int64_min_def int64_max_def no_relations_def)

section \<open>Properties\<close>

text \<open>
  C22: a publication whose author no count makes a celebrity succeeds over a Redis
  that answers: the post enters the box of the author and the inboxes of the first
  followers of the list, each cut to its newest entries, and no other inbox changes;
  when it stops before the end of the list, at most one batch past the smaller limit,
  the author is in the set of celebrities, whose posts readers pull.
\<close>

theorem fanout_post_reaches:
  assumes "fanout_writer F view part (fe_creator e) key ok listed pos" "ok (part s) (ks_zset (view s) key)"
    and "not_counted_up F view (fe_creator e) s" "FanoutPost F e s = (r, s')"
  shows "r = Inr () \<and>
    ks_zset (view s') (author_box_key (fe_creator e)) = zs_keep_top (nat (fc_box_max (fs_cfg F)))
      (zs_add (format_uint (fe_post e)) (fe_created e) (ks_zset (view s) (author_box_key (fe_creator e)))) \<and>
    (\<exists>n \<le> length listed.
      (\<forall>f. ks_zset (view s') (timeline_key f) = (if f \<in> set (take n listed)
         then zs_keep_top (nat (fc_timeline_max (fs_cfg F))) (zs_add (format_uint (fe_post e)) (fe_created e) (ks_zset (view s) (timeline_key f)))
         else ks_zset (view s) (timeline_key f))) \<and>
      (n < length listed \<longrightarrow> marked (view s') (fe_creator e)) \<and>
      int n < min (fc_celebrity_threshold (fs_cfg F)) (fc_max_fans (fs_cfg F)) + fc_batch_size (fs_cfg F))"
  using fanout_writer.fanout_post_result[OF assms(1,2) refl assms(4,3)] unfolding pushed_zset_def marked_def by blast

theorem fanout_post_reaches_witness:
  "\<exists>s'. FanoutPost (fan_service None) \<lparr>fe_post = 50, fe_creator = 7, fe_created = 500\<rparr> (one_reader {}) = (Inr (), s') \<and>
    (ks_zset (world_view s') (timeline_key 1) = zs_keep_top 1000 (zs_add (format_uint 50) 500 [(format_uint 30, 300)]) \<or> marked (world_view s') 7)"
proof -
  let ?e = "\<lparr>fe_post = 50, fe_creator = 7, fe_created = 500\<rparr>"
  obtain r s' where f: "FanoutPost (fan_service None) ?e (one_reader {}) = (r, s')" by (cases "FanoutPost (fan_service None) ?e (one_reader {})")
  have c: "not_counted_up (fan_service None) world_view (fe_creator ?e) (one_reader {})" by (simp add: not_counted_up_def)
  have "fanout_writer (fan_service None) world_view (\<lambda>s. fst (snd s)) (fe_creator ?e) (zset_key ''followers'' 7)
      (cached_list ''followers'' 7 1 [follower_row]) (map rr_b [follower_row]) (cursor_text [follower_row])"
    using steady_writer.fanout_writer_axioms[of 7 1 "[follower_row]"] by simp
  note reached = fanout_post_reaches[where F = "fan_service None" and view = world_view and part = "\<lambda>s. fst (snd s)" and e = ?e
    and key = "zset_key ''followers'' 7" and ok = "cached_list ''followers'' 7 1 [follower_row]" and listed = "map rr_b [follower_row]"
    and pos = "cursor_text [follower_row]" and s = "one_reader {}", OF this one_reader_lists(1) c f]
  obtain n where n: "\<forall>f. ks_zset (world_view s') (timeline_key f) = (if f \<in> set (take n (map rr_b [follower_row]))
         then zs_keep_top (nat (fc_timeline_max (fs_cfg (fan_service None)))) (zs_add (format_uint (fe_post ?e)) (fe_created ?e) (ks_zset (world_view (one_reader {})) (timeline_key f)))
         else ks_zset (world_view (one_reader {})) (timeline_key f))"
      "n < length (map rr_b [follower_row]) \<longrightarrow> marked (world_view s') (fe_creator ?e)"
    using reached by blast
  show ?thesis
  proof (cases n)
    case 0
    then show ?thesis using f reached n(2) by (intro exI[of _ s']) simp
  next
    case (Suc m)
    then show ?thesis using f reached n(1)[rule_format, of 1] by (intro exI[of _ s']) (simp add: follower_row_def)
  qed
qed

text \<open>
  C23: an author whose counted followers reach the threshold, but who is not in the
  set of celebrities, is not seen any more: the publication pushes the post into no
  inbox, and does not put the author into the set that readers pull from.
\<close>

theorem counted_celebrity_unreachable:
  assumes "fanout_writer F view part (fe_creator e) key ok listed pos" "cg_counter (fs_celebrities F) = Some count"
    and "\<And>x. ks_hash (view x) = ks_hash (view s) \<Longrightarrow> fst (count (fe_creator e) x) = (n, True)" "fc_celebrity_threshold (fs_cfg F) \<le> n"
    and "\<not> marked (view s) (fe_creator e)" "FanoutPost F e s = (r, s')"
  shows "r = Inr () \<and> (\<forall>f. ks_zset (view s') (timeline_key f) = ks_zset (view s) (timeline_key f)) \<and> \<not> marked (view s') (fe_creator e)"
  using fanout_writer.fanout_post_counted[OF assms(1-4) _ refl assms(6)] assms(5) by (simp add: marked_def)

theorem counted_celebrity_unreachable_witness:
  "\<exists>s'. FanoutPost (fan_service (Some (FollowerCount (Some rel_counter)))) \<lparr>fe_post = 50, fe_creator = 7, fe_created = 500\<rparr> (one_reader {}) = (Inr (), s') \<and>
    ks_zset (world_view s') (timeline_key 1) = [(format_uint 30, 300)] \<and> \<not> marked (world_view s') 7"
proof -
  let ?e = "\<lparr>fe_post = 50, fe_creator = 7, fe_created = 500\<rparr>" and ?F = "fan_service (Some (FollowerCount (Some rel_counter)))"
  obtain r s' where f: "FanoutPost ?F ?e (one_reader {}) = (r, s')" by (cases "FanoutPost ?F ?e (one_reader {})")
  have w: "fanout_writer ?F world_view (\<lambda>s. fst (snd s)) (fe_creator ?e) (zset_key ''followers'' 7)
      (cached_list ''followers'' 7 1 [follower_row]) (map rr_b [follower_row]) (cursor_text [follower_row])"
    using counted_writer.fanout_writer_axioms[of 7 1 "[follower_row]"] by simp
  have h: "ks_hash (world_view (one_reader {})) (user_counts_key 7) metric_follower = Some 6000" by simp
  have c: "fst (FollowerCount (Some rel_counter) (fe_creator ?e) x) = (6000, True)"
    if "ks_hash (world_view x) = ks_hash (world_view (one_reader {}))" for x
    using follower_count_reads[of 7 x] h that by (simp add: in_int64_def int64_min_def int64_max_def)
  have "\<not> marked (world_view (one_reader {})) (fe_creator ?e)" by (simp add: marked_def)
  from counted_celebrity_unreachable[where view = world_view and s = "one_reader {}" and count = "FollowerCount (Some rel_counter)" and n = 6000, OF w _ c _ this f]
  show ?thesis using f by (intro exI[of _ s']) simp
qed

text \<open>
  C21: a page of the home timeline is the slice of the reference feed at its cursor:
  the inbox and the boxes of the followed celebrities in full, each post once, newest
  first. Fetching only the newest entries of every source loses nothing, provided no
  source has more than 16 entries at the time of the cursor that do not come after it.
\<close>

theorem home_timeline_page:
  assumes "fanout_reader T view part u key ok listed pos" "ok (part s) (ks_zset (view s) key)" "length listed \<le> 20000"
    and "celebs = take (nat (fc_max_pull (tr_cfg T))) (filter (marked (view s)) listed)"
    and "box_holds inbox (ks_zset (view s) (timeline_key u))" "\<forall>c \<in> set celebs. box_holds (box c) (ks_zset (view s) (author_box_key c))"
    and "feed = home_feed (inbox # map box celebs)" "same_scores (concat (inbox # map box celebs))"
    and "i \<le> length feed" "in_int64 (te_score (feed ! (i - 1)))" "0 < limit"
    and "\<forall>es \<in> set (inbox # map box celebs). ties_before (timeline_cursor_at feed i) es \<le> 16"
    and "HomeTimeline T u (timeline_text feed i) (int limit) s = (r, s')"
  shows "r = Inr (take limit (drop i feed), if i = length feed then [] else timeline_text feed (min (i + limit) (length feed)), i + limit < length feed)"
  by (rule fanout_reader.home_timeline_slice[OF assms])

theorem home_timeline_page_witness:
  "fst (HomeTimeline fan_reader 1 [] 1 (one_reader {7})) = Inr ([\<lparr>te_post = 40, te_score = 400\<rparr>], encode_timeline_cursor \<lparr>te_post = 40, te_score = 400\<rparr>, True)"
proof -
  let ?s = "one_reader {7}" and ?in = "[\<lparr>te_post = 30, te_score = 300\<rparr>]" and ?box = "\<lambda>_ :: uint64. [\<lparr>te_post = 40, te_score = 400\<rparr>]"
  let ?feed = "home_feed (?in # map ?box [7])"
  obtain r s' where f: "HomeTimeline fan_reader 1 (timeline_text ?feed 0) (int 1) ?s = (r, s')"
    by (cases "HomeTimeline fan_reader 1 (timeline_text ?feed 0) (int 1) ?s")
  have feed: "?feed = [\<lparr>te_post = 40, te_score = 400\<rparr>, \<lparr>te_post = 30, te_score = 300\<rparr>]"
    by (simp add: home_feed_def newest_entries_def)
  have celebs: "[7] = take (nat (fc_max_pull (tr_cfg fan_reader))) (filter (marked (world_view ?s)) (map rr_b [followee_row]))"
    by (simp add: followee_row_def marked_def)
  have boxes: "box_holds ?in (ks_zset (world_view ?s) (timeline_key 1))"
    "\<forall>c \<in> set [7]. box_holds (?box c) (ks_zset (world_view ?s) (author_box_key c))"
    by (simp_all add: box_holds_def member_of_def)
  have same: "same_scores (concat (?in # map ?box [7 :: uint64]))" by (simp add: same_scores_def)
  have int: "in_int64 (te_score (?feed ! (0 - 1)))" unfolding feed by (simp add: in_int64_def int64_min_def int64_max_def)
  have ties: "\<forall>es \<in> set (?in # map ?box [7 :: uint64]). ties_before (timeline_cursor_at ?feed 0) es \<le> 16"
    by (simp add: ties_before_def)
  from home_timeline_page[where T = fan_reader and view = world_view and part = "\<lambda>s. fst (snd s)" and u = 1 and s = ?s and inbox = ?in and box = ?box
      and celebs = "[7]" and feed = ?feed and i = 0 and limit = 1 and key = "zset_key ''following'' 1" and ok = "cached_list ''following'' 1 1 [followee_row]"
      and listed = "map rr_b [followee_row]" and pos = "cursor_text [followee_row]", OF steady_reader.fanout_reader_axioms one_reader_lists(2) _ celebs boxes refl same _ int _ ties f]
  have "r = Inr (take 1 (drop 0 ?feed), if 0 = length ?feed then [] else timeline_text ?feed (min (0 + 1) (length ?feed)), 0 + 1 < length ?feed)"
    by simp
  then show ?thesis using f unfolding feed by (simp add: timeline_text_def)
qed

text \<open>
  An unfollow takes exactly the posts in the box of the author out of the inbox
  of the follower, and touches no other sorted set.
\<close>

theorem unfollow_cleans_inbox:
  assumes "fanout_writer F view part author key ok listed pos" "OnUnfollow F fan author s = (r, s')"
  shows "r = Inr () \<and> ks_zset (view s') = (ks_zset (view s))(timeline_key fan :=
    filter (\<lambda>p. fst p \<notin> fst ` set (ks_zset (view s) (author_box_key author))) (ks_zset (view s) (timeline_key fan)))"
  by (rule fanout_writer.on_unfollow_result[OF assms])

theorem unfollow_cleans_inbox_witness:
  "ks_zset (world_view (snd (OnUnfollow (fan_service None) 1 7 (one_reader {})))) (timeline_key 1) = [(format_uint 30, 300)]"
proof -
  obtain r s' where f: "OnUnfollow (fan_service None) 1 7 (one_reader {}) = (r, s')" by (cases "OnUnfollow (fan_service None) 1 7 (one_reader {})")
  from unfollow_cleans_inbox[OF steady_writer.fanout_writer_axioms[of 7 1 "[follower_row]"] f]
  show ?thesis using f by simp
qed

end
