(* ===== verification/Cache_Tiered.thy ===== *)
theory Cache_Tiered
  imports Relation_Model
begin

text \<open>
  \<open>internal/cache\<close> (prefix cache, versions, the tiered read-through cache) and
  \<open>pkg/cacheutil\<close>. The in-process cache is \<open>freecache\<close>, the argument \<open>l1_cache\<close>;
  encoders, loaders and the state of the context are arguments too. Times to live are
  in milliseconds for Redis and in seconds for the in-process cache. Warnings are
  not modelled.
\<close>

section \<open>One pool, many prefixes\<close>

definition prefixed :: "string \<Rightarrow> string \<Rightarrow> string" where
  "prefixed p k = p @ k"

definition prefix_cache :: "string \<Rightarrow> 's l1_cache \<Rightarrow> 's l1_cache" where
  "prefix_cache p c = \<lparr>
     l1_get = (\<lambda>k. l1_get c (prefixed p k)),
     l1_set = (\<lambda>k v ttl. l1_set c (prefixed p k) v ttl),
     l1_del = (\<lambda>k. l1_del c (prefixed p k))\<rparr>"

section \<open>Versions\<close>

record 's versions =
  vs_redis :: "'s redis option"
  vs_local :: "'s l1_cache option"
  vs_local_ttl :: int
  vs_prefix :: string
  vs_default :: int

text \<open>The number a version key holds, if it is a positive \<open>int64\<close>; every failure is no number.\<close>

definition stored_version :: "string option \<Rightarrow> int option" where
  "stored_version x = (case x of None \<Rightarrow> None
     | Some t \<Rightarrow> (case parse_int t of None \<Rightarrow> None | Some n \<Rightarrow> if n > 0 then Some n else None))"

definition read_version :: "'s versions \<Rightarrow> string \<Rightarrow> 's \<Rightarrow> int \<times> 's" where
  "read_version v k s = (case vs_redis v of
      None \<Rightarrow> (vs_default v, s)
    | Some R \<Rightarrow>
        (case rd R (r_get R k) s of
           (Inl e, s1) \<Rightarrow> (vs_default v, s1)
         | (Inr x, s1) \<Rightarrow> (case stored_version x of None \<Rightarrow> (vs_default v, s1) | Some n \<Rightarrow> (n, s1))))"

definition local_version :: "'s versions \<Rightarrow> string \<Rightarrow> 's \<Rightarrow> int option \<times> 's" where
  "local_version v k s = (case vs_local v of
      Some c \<Rightarrow> if vs_local_ttl v > 0
        then (case l1_get c (vs_prefix v @ k) s of
            (None, s1) \<Rightarrow> (None, s1)
          | (Some raw, s1) \<Rightarrow> (parse_int raw, s1))
        else (None, s)
    | None \<Rightarrow> (None, s))"

definition get_version :: "'s versions option \<Rightarrow> string \<Rightarrow> 's \<Rightarrow> int \<times> 's" where
  "get_version vs k s = (case vs of
      None \<Rightarrow> (0, s)
    | Some v \<Rightarrow>
        (case local_version v k s of
           (Some n, s1) \<Rightarrow> (n, s1)
         | (None, s1) \<Rightarrow>
             (case read_version v k s1 of
                (n, s2) \<Rightarrow>
                  (case vs_local v of
                     Some c \<Rightarrow> if vs_local_ttl v > 0 then (n, l1_set c (vs_prefix v @ k) (format_int n) (vs_local_ttl v) s2) else (n, s2)
                   | None \<Rightarrow> (n, s2)))))"

definition drop_version :: "'s versions option \<Rightarrow> string \<Rightarrow> 's \<Rightarrow> 's" where
  "drop_version vs k s = (case vs of
      None \<Rightarrow> s
    | Some v \<Rightarrow> (case vs_local v of None \<Rightarrow> s | Some c \<Rightarrow> l1_del c (vs_prefix v @ k) s))"

section \<open>Lock, look again, load\<close>

text \<open>What ends a read other than a value; \<open>Upstream\<close> is an error of the loader or of the check before it.\<close>

datatype 'e cache_error = NullCached | Upstream 'e | LockFailed io_error | ContextDone | NilRedis

text \<open>
  One pass takes a fresh token; a pass without the lock looks into the cache and
  waits. \<open>wait\<close> answers \<open>False\<close> when the context ended; other clients act meanwhile,
  which is a change of the state.
\<close>

partial_function (option) cache_read_through ::
  "'s redis \<Rightarrow> string \<Rightarrow> lock_options \<Rightarrow> ('s \<Rightarrow> string \<times> 's) \<Rightarrow> ('s \<Rightarrow> bool \<times> 's) \<Rightarrow>
   ('s \<Rightarrow> ('e cache_error + 'r option) \<times> 's) \<Rightarrow> ('s \<Rightarrow> ('e cache_error + 'r) \<times> 's) \<Rightarrow> 's \<Rightarrow>
   (('e cache_error + 'r) \<times> 's) option" where
  "cache_read_through R key opts token wait check load s =
    (case try_acquire R key opts (fst (token s)) (snd (token s)) of
       (Inl e, s1) \<Rightarrow> Some (Inl (LockFailed e), s1)
     | (Inr None, s1) \<Rightarrow>
         (case check s1 of
            (Inl e, s2) \<Rightarrow> Some (Inl e, s2)
          | (Inr (Some r), s2) \<Rightarrow> Some (Inr r, s2)
          | (Inr None, s2) \<Rightarrow>
              (case wait s2 of
                 (more_time, s3) \<Rightarrow>
                   if more_time then cache_read_through R key opts token wait check load s3 else Some (Inl ContextDone, s3)))
     | (Inr (Some l), s1) \<Rightarrow>
         (case check s1 of
            (Inl e, s2) \<Rightarrow> Some (Inl e, release R l s2)
          | (Inr (Some r), s2) \<Rightarrow> Some (Inr r, release R l s2)
          | (Inr None, s2) \<Rightarrow> (case load s2 of (r, s3) \<Rightarrow> Some (r, release R l s3))))"

section \<open>The tiered cache\<close>

datatype hit_level = HitL1 | HitL2 | HitLoad

record ('t, 'e, 's) tiered =
  ti_l1 :: "'s l1_cache option"
  ti_redis :: "'s redis option"
  ti_encode :: "'t \<Rightarrow> string option"
  ti_decode :: "string \<Rightarrow> 't option"
  ti_l1_ttl :: int
  ti_l2_ttl :: "('s \<Rightarrow> int \<times> 's) option"
  ti_null_sentinel :: string
  ti_null_ttl :: "('s \<Rightarrow> int \<times> 's) option"
  ti_preload :: "('s \<Rightarrow> 'e option \<times> 's) option"
  ti_lock_key :: string
  ti_lock_options :: lock_options
  ti_token :: "'s \<Rightarrow> string \<times> 's"
  ti_wait :: "'s \<Rightarrow> bool \<times> 's"

text \<open>The answer of a loader: an error, a value, or that there is none.\<close>

type_synonym ('t, 'e, 's) loader = "'s \<Rightarrow> ('e + 't option) \<times> 's"

definition fill_l1_raw :: "('t, 'e, 's) tiered \<Rightarrow> string \<Rightarrow> string \<Rightarrow> 's \<Rightarrow> 's" where
  "fill_l1_raw T key raw s = (case ti_l1 T of None \<Rightarrow> s | Some c \<Rightarrow> l1_set c key raw (ti_l1_ttl T) s)"

definition get_l2 :: "('t, 'e, 's) tiered \<Rightarrow> string \<Rightarrow> 's \<Rightarrow> ('e cache_error + 't option) \<times> 's" where
  "get_l2 T key s = (case ti_redis T of
      None \<Rightarrow> (Inr None, s)
    | Some R \<Rightarrow>
        (case rd R (r_get R key) s of
           (Inl e, s1) \<Rightarrow> (Inr None, s1)
         | (Inr None, s1) \<Rightarrow> (Inr None, s1)
         | (Inr (Some cached), s1) \<Rightarrow>
             (if cached = [] then (Inr None, s1)
              else if ti_null_sentinel T \<noteq> [] \<and> cached = ti_null_sentinel T then (Inl NullCached, s1)
              else (case ti_decode T cached of
                  None \<Rightarrow> (Inr None, s1)
                | Some v \<Rightarrow> (Inr (Some v), fill_l1_raw T key cached s1)))))"

text \<open>A write to Redis that fails only leaves a warning.\<close>

definition set_l2 :: "('t, 'e, 's) tiered \<Rightarrow> string \<Rightarrow> string \<Rightarrow> ('s \<Rightarrow> int \<times> 's) option \<Rightarrow> 's \<Rightarrow> 's" where
  "set_l2 T key raw ttl s = (case (ti_redis T, ttl) of
      (Some R, Some t) \<Rightarrow> (case t s of (ms, s1) \<Rightarrow> snd (wr R (r_set R key raw (Some ms)) s1))
    | _ \<Rightarrow> s)"

definition load_and_fill :: "('t, 'e, 's) tiered \<Rightarrow> string \<Rightarrow> ('t, 'e, 's) loader \<Rightarrow> 's \<Rightarrow> ('e cache_error + 't) \<times> 's" where
  "load_and_fill T key load s = (case load s of
      (Inl e, s1) \<Rightarrow> (Inl (Upstream e), s1)
    | (Inr None, s1) \<Rightarrow>
        (Inl NullCached, if ti_null_sentinel T \<noteq> [] then set_l2 T key (ti_null_sentinel T) (ti_null_ttl T) s1 else s1)
    | (Inr (Some v), s1) \<Rightarrow>
        (case ti_encode T v of
           None \<Rightarrow> (Inr v, s1)
         | Some raw \<Rightarrow> (Inr v, fill_l1_raw T key raw (set_l2 T key raw (ti_l2_ttl T) s1))))"

definition get_l1 :: "('t, 'e, 's) tiered \<Rightarrow> string \<Rightarrow> 's \<Rightarrow> 't option \<times> 's" where
  "get_l1 T key s = (case ti_l1 T of
      None \<Rightarrow> (None, s)
    | Some c \<Rightarrow> (case l1_get c key s of (None, s1) \<Rightarrow> (None, s1) | (Some raw, s1) \<Rightarrow> (ti_decode T raw, s1)))"

definition run_preload :: "('t, 'e, 's) tiered \<Rightarrow> 's \<Rightarrow> 'e option \<times> 's" where
  "run_preload T s = (case ti_preload T of None \<Rightarrow> (None, s) | Some f \<Rightarrow> f s)"

definition with_level :: "hit_level \<Rightarrow> ('x + 'a) \<times> 's \<Rightarrow> ('x + 'a \<times> hit_level) \<times> 's" where
  "with_level l x = (case x of (Inl e, s) \<Rightarrow> (Inl e, s) | (Inr a, s) \<Rightarrow> (Inr (a, l), s))"

text \<open>The check inside the lock.\<close>

definition locked_check :: "('t, 'e, 's) tiered \<Rightarrow> string \<Rightarrow> 's \<Rightarrow> ('e cache_error + ('t \<times> hit_level) option) \<times> 's" where
  "locked_check T key s = (case get_l2 T key s of
      (Inl e, s1) \<Rightarrow> (Inl e, s1)
    | (Inr x, s1) \<Rightarrow> (Inr (map_option (\<lambda>v. (v, HitL2)) x), s1))"

definition locked_load :: "('t, 'e, 's) tiered \<Rightarrow> string \<Rightarrow> ('t, 'e, 's) loader \<Rightarrow> 's \<Rightarrow> (('e cache_error + 't \<times> hit_level) \<times> 's) option" where
  "locked_load T key load s =
    (if ti_lock_key T = [] then Some (with_level HitLoad (load_and_fill T key load s))
     else (case ti_redis T of
         None \<Rightarrow> Some (Inl NilRedis, s)
       | Some R \<Rightarrow> cache_read_through R (ti_lock_key T) (ti_lock_options T) (ti_token T) (ti_wait T)
           (locked_check T key) (\<lambda>s. with_level HitLoad (load_and_fill T key load s)) s))"

definition tiered_get :: "('t, 'e, 's) tiered \<Rightarrow> string \<Rightarrow> ('t, 'e, 's) loader \<Rightarrow> 's \<Rightarrow> (('e cache_error + 't \<times> hit_level) \<times> 's) option" where
  "tiered_get T key load s = (case get_l1 T key s of
      (Some v, s1) \<Rightarrow> Some (Inr (v, HitL1), s1)
    | (None, s1) \<Rightarrow>
        (case get_l2 T key s1 of
           (Inl e, s2) \<Rightarrow> Some (Inl e, s2)
         | (Inr (Some v), s2) \<Rightarrow> Some (Inr (v, HitL2), s2)
         | (Inr None, s2) \<Rightarrow>
             (case run_preload T s2 of
                (Some e, s3) \<Rightarrow> Some (Inl (Upstream e), s3)
              | (None, s3) \<Rightarrow> locked_load T key load s3)))"

end
