(* ===== verification/Cache_Coherence.thy ===== *)
theory Cache_Coherence
  imports Cache_Tiered
begin

text \<open>
  The tiered cache shows what its loader would: whatever is cached under a key stays
  an image of the loaded value, whoever else reads or writes meanwhile, and a read
  ends once its context does.
\<close>

section \<open>The interface of the two caches\<close>

text \<open>
  \<open>held s k\<close> is the entry of the in-process cache, \<open>time_left s\<close> bounds how often a read
  may still wait. The cache may refuse or evict any entry at any time.
\<close>

locale cache_world = redis_core R view + redis_frame R "\<lambda>s. (held s, time_left s)"
  for R :: "'s redis" and view :: "'s \<Rightarrow> keyspace" and held :: "'s \<Rightarrow> string \<Rightarrow> string option" and time_left :: "'s \<Rightarrow> nat" +
  fixes C :: "'s l1_cache"
  assumes l1_get_entry: "l1_get C k s = (x, s1) \<Longrightarrow> x = None \<or> x = held s k"
    and l1_get_keeps: "view (snd (l1_get C k s)) = view s \<and> time_left (snd (l1_get C k s)) = time_left s \<and> held (snd (l1_get C k s)) k' \<in> {held s k', None}"
    and l1_set_keeps: "view (l1_set C k v ttl s) = view s \<and> time_left (l1_set C k v ttl s) = time_left s"
    and l1_set_entry: "held (l1_set C k v ttl s) k' \<in> (if k' = k then {Some v, held s k, None} else {held s k', None})"
    and l1_del_keeps: "view (l1_del C k s) = view s \<and> time_left (l1_del C k s) = time_left s"
    and l1_del_entry: "held (l1_del C k s) k = None \<and> held (l1_del C k s) k' \<in> {held s k', None}"

section \<open>Coherence of a key\<close>

text \<open>What Redis and the process hold under the key decodes to the value, or says that there is none.\<close>

definition l2_shows :: "('t, 'e, 's) tiered \<Rightarrow> 't option \<Rightarrow> string option \<Rightarrow> bool" where
  "l2_shows T truth x = (case x of None \<Rightarrow> True
     | Some raw \<Rightarrow> raw = [] \<or> (if ti_null_sentinel T \<noteq> [] \<and> raw = ti_null_sentinel T then truth = None
         else ti_decode T raw = None \<or> ti_decode T raw = truth))"

definition l1_shows :: "('t, 'e, 's) tiered \<Rightarrow> 't option \<Rightarrow> string option \<Rightarrow> bool" where
  "l1_shows T truth x = (case x of None \<Rightarrow> True | Some raw \<Rightarrow> ti_decode T raw = None \<or> ti_decode T raw = truth)"

definition coherent :: "('t, 'e, 's) tiered \<Rightarrow> string \<Rightarrow> 't option \<Rightarrow> ('s \<Rightarrow> keyspace) \<Rightarrow> ('s \<Rightarrow> string \<Rightarrow> string option) \<Rightarrow> 's \<Rightarrow> bool" where
  "coherent T key truth view held s = (l2_shows T truth (ks_str (view s) key) \<and> l1_shows T truth (held s key))"

text \<open>The codec loses nothing, and no value looks like the sentinel.\<close>

definition codec_ok :: "('t, 'e, 's) tiered \<Rightarrow> bool" where
  "codec_ok T = (\<forall>v raw. ti_encode T v = Some raw \<longrightarrow> ti_decode T raw = Some v \<and> raw \<noteq> ti_null_sentinel T)"

text \<open>The read-only parts of a configuration keep both caches and the time.\<close>

definition keeps_caches :: "('s \<Rightarrow> keyspace) \<Rightarrow> ('s \<Rightarrow> string \<Rightarrow> string option) \<Rightarrow> ('s \<Rightarrow> nat) \<Rightarrow> ('s \<Rightarrow> 'a \<times> 's) \<Rightarrow> bool" where
  "keeps_caches view held time_left f = (\<forall>s. view (snd (f s)) = view s \<and> held (snd (f s)) = held s \<and> time_left (snd (f s)) = time_left s)"

text \<open>A loader that answers with the value, or fails, and leaves the caches alone.\<close>

definition loads :: "('s \<Rightarrow> keyspace) \<Rightarrow> ('s \<Rightarrow> string \<Rightarrow> string option) \<Rightarrow> ('s \<Rightarrow> nat) \<Rightarrow> ('t, 'e, 's) loader \<Rightarrow> 't option \<Rightarrow> bool" where
  "loads view held time_left load truth =
    (keeps_caches view held time_left load \<and> (\<forall>s. case fst (load s) of Inl _ \<Rightarrow> True | Inr x \<Rightarrow> x = truth))"

text \<open>
  The configuration the services use: both caches, a lock of its own, a codec that
  loses nothing; while a read waits, others keep the key coherent and time passes.
\<close>

definition tiered_ok :: "'s redis \<Rightarrow> 's l1_cache \<Rightarrow> ('s \<Rightarrow> keyspace) \<Rightarrow> ('s \<Rightarrow> string \<Rightarrow> string option) \<Rightarrow> ('s \<Rightarrow> nat) \<Rightarrow>
    ('t, 'e, 's) tiered \<Rightarrow> string \<Rightarrow> 't option \<Rightarrow> bool" where
  "tiered_ok R C view held time_left T key truth =
    (ti_redis T = Some R \<and> ti_l1 T = Some C \<and> codec_ok T \<and> ti_lock_key T \<noteq> key \<and>
     (\<forall>f. ti_l2_ttl T = Some f \<longrightarrow> keeps_caches view held time_left f) \<and> (\<forall>f. ti_null_ttl T = Some f \<longrightarrow> keeps_caches view held time_left f) \<and>
     (\<forall>f. ti_preload T = Some f \<longrightarrow> keeps_caches view held time_left f) \<and> keeps_caches view held time_left (ti_token T) \<and>
     (\<forall>s. coherent T key truth view held s \<longrightarrow> coherent T key truth view held (snd (ti_wait T s))) \<and>
     (\<forall>s. fst (ti_wait T s) \<longrightarrow> time_left (snd (ti_wait T s)) < time_left s))"

text \<open>What an answer may say.\<close>

definition answers :: "'t option \<Rightarrow> ('e cache_error + 't \<times> hit_level) \<Rightarrow> bool" where
  "answers truth r = (case r of Inr (v, _) \<Rightarrow> truth = Some v | Inl NullCached \<Rightarrow> truth = None | Inl _ \<Rightarrow> True)"

context cache_world
begin

abbreviation (input) coh where "coh T key truth \<equiv> coherent T key truth view held"

lemma coh_same:
  "coh T key truth s \<Longrightarrow> ks_str (view s') key = ks_str (view s) key \<Longrightarrow> held s' key \<in> {held s key, None} \<Longrightarrow> coh T key truth s'"
  by (auto simp: coherent_def l1_shows_def)

lemma roundtrip_held: "(\<And>s. held (snd (f s)) = held s \<and> time_left (snd (f s)) = time_left s) \<Longrightarrow>
    held (snd (roundtrip R f s)) = held s \<and> time_left (snd (roundtrip R f s)) = time_left s"
  using frame_roundtrip[of f s] by simp

lemma rd_keeps: "rd R f s = (r, s1) \<Longrightarrow> view s1 = view s \<and> held s1 = held s \<and> time_left s1 = time_left s"
  using rd_view[of f s r s1] roundtrip_held[of "\<lambda>s. (f s, s)" s] unfolding rd_def by simp

lemma set_held [simp]: "held (r_set R k v t s) = held s" "time_left (r_set R k v t s) = time_left s"
  using frame_set unfolding prod.inject by blast+

lemma del_held [simp]: "held (r_del R k s) = held s" "time_left (r_del R k s) = time_left s"
  using frame_del unfolding prod.inject by blast+

lemma acquire_coh:
  assumes "try_acquire R lk opts tok s = (r, s1)" "lk \<noteq> key"
  shows "ks_str (view s1) key = ks_str (view s) key \<and> held s1 = held s \<and> time_left s1 = time_left s"
proof -
  let ?f = "set_nx R lk tok (lo_ttl (normalized opts))"
  obtain q s2 where q: "roundtrip R ?f s = (q, s2)" by (cases "roundtrip R ?f s")
  have h: "held s2 = held s \<and> time_left s2 = time_left s"
    using roundtrip_held[of ?f s] q by (simp add: set_nx_def)
  have v: "ks_str (view (snd (?f x))) key = ks_str (view x) key" for x using assms(2) by (simp add: set_nx_def)
  from q have "ks_str (view s2) key = ks_str (view s) key"
  proof (cases rule: roundtrip_cases)
    case (ok x s3)
    then show ?thesis using v[of s3] by simp
  next
    case (lost e s3 x)
    then show ?thesis using v[of s3] by simp
  qed simp
  then show ?thesis using assms(1) q h by (auto simp: try_acquire_def Let_def split: sum.splits bool.splits)
qed

lemma release_coh:
  assumes "lk_key l \<noteq> key"
  shows "ks_str (view (release R l s)) key = ks_str (view s) key \<and> held (release R l s) = held s \<and> time_left (release R l s) = time_left s"
proof -
  let ?f = "release_script R (lk_key l) (lk_token l)"
  have h: "held (release R l s) = held s \<and> time_left (release R l s) = time_left s"
    unfolding release_def by (rule roundtrip_held) (simp add: release_script_def)
  have v: "ks_str (view (snd (?f x))) key = ks_str (view x) key" for x using assms by (simp add: release_script_def)
  obtain q s2 where q: "roundtrip R ?f s = (q, s2)" by (cases "roundtrip R ?f s")
  then have "ks_str (view s2) key = ks_str (view s) key"
  proof (cases rule: roundtrip_cases)
    case (ok x s3)
    then show ?thesis using v[of s3] by simp
  next
    case (lost e s3 x)
    then show ?thesis using v[of s3] by simp
  qed simp
  then show ?thesis using h q by (simp add: release_def)
qed

lemma acquired_key: "try_acquire R lk opts tok s = (Inr (Some l), s1) \<Longrightarrow> lk_key l = lk"
  by (auto simp: try_acquire_def Let_def split: prod.splits sum.splits bool.splits)

lemma get_l2_result:
  assumes "get_l2 T key s = (q, s1)" "ti_redis T = Some R" "ti_l1 T = Some C" "coh T key truth s"
  shows "coh T key truth s1 \<and> time_left s1 = time_left s \<and>
    (case q of Inl e \<Rightarrow> e = NullCached \<and> truth = None | Inr None \<Rightarrow> True | Inr (Some v) \<Rightarrow> truth = Some v)"
proof -
  obtain x s2 where x: "rd R (r_get R key) s = (x, s2)" by (cases "rd R (r_get R key) s")
  note k = rd_keeps[OF x]
  have c2: "coh T key truth s2" using coh_same[OF assms(4), of s2] k by simp
  have e: "y = ks_str (view s) key" if "x = Inr y" for y using x that rd_Inr[of "r_get R key" s y s2] by auto
  show ?thesis
  proof (cases x)
    case (Inl a)
    then show ?thesis using assms(1,2) x c2 k by (auto simp: get_l2_def)
  next
    case (Inr y)
    show ?thesis
    proof (cases y)
      case None
      then show ?thesis using assms(1,2) x Inr c2 k by (auto simp: get_l2_def)
    next
      case (Some raw)
      have sh: "l2_shows T truth (Some raw)" using assms(4) e[OF Inr] Some by (simp add: coherent_def)
      have fill: "coh T key truth (l1_set C key raw (ti_l1_ttl T) s2)" if "ti_decode T raw = truth"
        using c2 l1_set_keeps[of key raw "ti_l1_ttl T" s2] l1_set_entry[of key raw "ti_l1_ttl T" s2 key] that
        by (auto simp: coherent_def l1_shows_def)
      show ?thesis
        using assms(1-3) x Inr Some c2 k sh fill l1_set_keeps[of key raw "ti_l1_ttl T" s2]
        by (auto simp: get_l2_def l2_shows_def fill_l1_raw_def split: if_splits option.splits)
    qed
  qed
qed

lemma set_l2_coh:
  assumes "coh T key truth s" "ti_redis T = Some R" "\<And>f. ttl = Some f \<Longrightarrow> keeps_caches view held time_left f" "l2_shows T truth (Some raw)"
  shows "coh T key truth (set_l2 T key raw ttl s) \<and> time_left (set_l2 T key raw ttl s) = time_left s"
proof (cases ttl)
  case None
  then show ?thesis using assms(1,2) by (simp add: set_l2_def)
next
  case (Some f)
  obtain ms s1 where f: "f s = (ms, s1)" by (cases "f s")
  have k1: "view s1 = view s" "held s1 = held s" "time_left s1 = time_left s"
    using assms(3)[OF Some] f by (auto simp: keeps_caches_def dest: spec[of _ s])
  let ?g = "r_set R key raw (Some ms)"
  obtain q s2 where q: "wr R ?g s1 = (q, s2)" by (cases "wr R ?g s1")
  have h: "held s2 = held s1 \<and> time_left s2 = time_left s1"
    using roundtrip_held[of "\<lambda>s. ((), ?g s)" s1] q by (simp add: wr_def)
  have v: "ks_str (view s2) key \<in> {ks_str (view s1) key, Some raw}"
    using q unfolding wr_def by (cases rule: roundtrip_cases) auto
  have "l2_shows T truth (ks_str (view s2) key)" using v assms(1,4) k1 by (auto simp: coherent_def)
  then have "coh T key truth s2" using assms(1) h k1 by (simp add: coherent_def)
  then show ?thesis using Some assms(2) f q h k1 by (simp add: set_l2_def)
qed

lemma load_and_fill_result:
  assumes "tiered_ok R C view held time_left T key truth" "loads view held time_left load truth" "coh T key truth s"
    and "load_and_fill T key load s = (r, s1)"
  shows "coh T key truth s1 \<and> time_left s1 = time_left s \<and>
    (case r of Inl NullCached \<Rightarrow> truth = None | Inl _ \<Rightarrow> True | Inr v \<Rightarrow> truth = Some v)"
proof -
  have T: "ti_redis T = Some R" "ti_l1 T = Some C" "codec_ok T"
    "\<And>f. ti_l2_ttl T = Some f \<Longrightarrow> keeps_caches view held time_left f" "\<And>f. ti_null_ttl T = Some f \<Longrightarrow> keeps_caches view held time_left f"
    using assms(1) by (simp_all add: tiered_ok_def)
  obtain q s2 where q: "load s = (q, s2)" by (cases "load s")
  have k: "view s2 = view s" "held s2 = held s" "time_left s2 = time_left s" "case q of Inl _ \<Rightarrow> True | Inr x \<Rightarrow> x = truth"
    using assms(2) q by (auto simp: loads_def keeps_caches_def dest: spec[of _ s])
  then have c2: "coh T key truth s2" using coh_same[OF assms(3), of s2] by simp
  show ?thesis
  proof (cases q)
    case (Inl e)
    then show ?thesis using assms(4) q c2 k by (auto simp: load_and_fill_def)
  next
    case (Inr x)
    show ?thesis
    proof (cases x)
      case None
      have "l2_shows T truth (Some (ti_null_sentinel T))" if "ti_null_sentinel T \<noteq> []" using k(4) Inr None that by (simp add: l2_shows_def)
      then show ?thesis using assms(4) q Inr None c2 k set_l2_coh[OF c2 T(1) T(5)] by (auto simp: load_and_fill_def split: if_splits)
    next
      case (Some v)
      show ?thesis
      proof (cases "ti_encode T v")
        case None
        then show ?thesis using assms(4) q Inr Some c2 k by (auto simp: load_and_fill_def)
      next
        case raw: (Some raw)
        have d: "ti_decode T raw = truth" "raw \<noteq> ti_null_sentinel T" using T(3) raw k(4) Inr Some by (auto simp: codec_ok_def)
        let ?s3 = "set_l2 T key raw (ti_l2_ttl T) s2"
        have c3: "coh T key truth ?s3" "time_left ?s3 = time_left s2"
          using set_l2_coh[OF c2 T(1) T(4), where raw = raw] d by (auto simp: l2_shows_def)
        have "coh T key truth (l1_set C key raw (ti_l1_ttl T) ?s3)"
          using c3(1) l1_set_keeps[of key raw "ti_l1_ttl T" ?s3] l1_set_entry[of key raw "ti_l1_ttl T" ?s3 key] d
          by (auto simp: coherent_def l1_shows_def)
        then show ?thesis
          using assms(4) q Inr Some raw k c3(2) T(2) l1_set_keeps[of key raw "ti_l1_ttl T" ?s3] by (auto simp: load_and_fill_def fill_l1_raw_def)
      qed
    qed
  qed
qed

lemma read_through_result:
  assumes "tiered_ok R C view held time_left T key truth" "loads view held time_left load truth" "coh T key truth s"
  shows "\<exists>r s'. cache_read_through R (ti_lock_key T) (ti_lock_options T) (ti_token T) (ti_wait T)
      (locked_check T key) (\<lambda>s. with_level HitLoad (load_and_fill T key load s)) s = Some (r, s') \<and> coh T key truth s' \<and> answers truth r"
  using assms(3)
proof (induction "time_left s" arbitrary: s rule: less_induct)
  case less
  let ?lk = "ti_lock_key T" and ?load = "\<lambda>s. with_level HitLoad (load_and_fill T key load s)"
  have T: "ti_redis T = Some R" "ti_l1 T = Some C" "?lk \<noteq> key" "keeps_caches view held time_left (ti_token T)"
    "coh T key truth x \<Longrightarrow> coh T key truth (snd (ti_wait T x))" "fst (ti_wait T x) \<Longrightarrow> time_left (snd (ti_wait T x)) < time_left x" for x
    using assms(1) by (simp_all add: tiered_ok_def)
  obtain tok s0 where tok: "ti_token T s = (tok, s0)" by (cases "ti_token T s")
  have k0: "view s0 = view s" "held s0 = held s" "time_left s0 = time_left s"
    using T(4) tok by (auto simp: keeps_caches_def dest: spec[of _ s])
  obtain q s1 where q: "try_acquire R ?lk (ti_lock_options T) tok s0 = (q, s1)" by (cases "try_acquire R ?lk (ti_lock_options T) tok s0")
  note k1 = acquire_coh[OF q T(3)]
  have c1: "coh T key truth s1" using coh_same[OF less.prems, of s1] k0 k1 by simp
  obtain c s2 where c: "get_l2 T key s1 = (c, s2)" by (cases "get_l2 T key s1")
  note k2 = get_l2_result[OF c T(1,2) c1]
  have check: "locked_check T key s1 = (case c of Inl e \<Rightarrow> (Inl e, s2) | Inr x \<Rightarrow> (Inr (map_option (\<lambda>v. (v, HitL2)) x), s2))"
    using c by (simp add: locked_check_def split: sum.splits)
  have ans: "answers truth (Inl e)" if "c = Inl e" for e using k2 that by (simp add: answers_def)
  have ansv: "answers truth (Inr (v, HitL2))" if "c = Inr (Some v)" for v using k2 that by (simp add: answers_def)
  have rel: "coh T key truth (release R l x)" if "coh T key truth x" "lk_key l = ?lk" for l x
    using coh_same[OF that(1), of "release R l x"] release_coh[of l key x] that(2) T(3) by simp
  show ?case
  proof (cases q)
    case (Inl e)
    then show ?thesis using q tok c1 by (subst cache_read_through.simps) (simp add: answers_def)
  next
    case (Inr lo)
    show ?thesis
    proof (cases lo)
      case None
      show ?thesis
      proof (cases c)
        case (Inl e)
        then show ?thesis using q tok \<open>q = Inr lo\<close> None check k2 ans by (subst cache_read_through.simps) auto
      next
        case c': (Inr x)
        show ?thesis
        proof (cases x)
          case (Some v)
          then show ?thesis using q tok \<open>q = Inr lo\<close> \<open>lo = None\<close> c' check k2 ansv by (subst cache_read_through.simps) auto
        next
          case x: None
          obtain w s3 where w: "ti_wait T s2 = (w, s3)" by (cases "ti_wait T s2")
          have c3: "coh T key truth s3" using T(5)[of s2] w k2 by simp
          show ?thesis
          proof (cases w)
            case True
            then have "time_left s3 < time_left s" using T(6)[of s2] w k0 k1 k2 by simp
            from less.hyps[OF this c3] show ?thesis
              using q tok \<open>q = Inr lo\<close> \<open>lo = None\<close> c' x check w True by (subst cache_read_through.simps) simp
          next
            case False
            then show ?thesis using q tok \<open>q = Inr lo\<close> \<open>lo = None\<close> c' x check w c3
              by (subst cache_read_through.simps) (simp add: answers_def)
          qed
        qed
      qed
    next
      case (Some l)
      have lk: "lk_key l = ?lk" using acquired_key q Inr Some by blast
      obtain r s3 where r: "load_and_fill T key load s2 = (r, s3)" by (cases "load_and_fill T key load s2")
      note k3 = load_and_fill_result[OF assms(1,2) _ r]
      show ?thesis
      proof (cases c)
        case (Inl e)
        then show ?thesis using q tok \<open>q = Inr lo\<close> Some check k2 ans rel[OF _ lk] by (subst cache_read_through.simps) auto
      next
        case c': (Inr x)
        show ?thesis
        proof (cases x)
          case (Some v)
          then show ?thesis using q tok \<open>q = Inr lo\<close> \<open>lo = Some l\<close> c' check k2 ansv rel[OF _ lk] by (subst cache_read_through.simps) auto
        next
          case x: None
          have "answers truth (fst (with_level HitLoad (r, s3)))" "snd (with_level HitLoad (r, s3)) = s3"
            using k3 k2 by (auto simp: answers_def with_level_def split: sum.splits cache_error.splits)
          then show ?thesis using q tok \<open>q = Inr lo\<close> \<open>lo = Some l\<close> c' x check k2 k3 r rel[OF _ lk]
            by (subst cache_read_through.simps) (simp add: case_prod_beta)
        qed
      qed
    qed
  qed
qed

lemma tiered_get_result:
  assumes "tiered_ok R C view held time_left T key truth" "loads view held time_left load truth" "coh T key truth s"
  shows "\<exists>r s'. tiered_get T key load s = Some (r, s') \<and> coh T key truth s' \<and> answers truth r"
proof -
  have T: "ti_redis T = Some R" "ti_l1 T = Some C" "\<And>f. ti_preload T = Some f \<Longrightarrow> keeps_caches view held time_left f"
    using assms(1) by (simp_all add: tiered_ok_def)
  obtain x s1 where x: "l1_get C key s = (x, s1)" by (cases "l1_get C key s")
  have k1: "coh T key truth s1" using coh_same[OF assms(3), of s1] l1_get_keeps[of key s key] x by auto
  obtain q s2 where q: "get_l2 T key s1 = (q, s2)" by (cases "get_l2 T key s1")
  note k2 = get_l2_result[OF q T(1,2) k1]
  have g1: "get_l1 T key s = ((case x of None \<Rightarrow> None | Some raw \<Rightarrow> ti_decode T raw), s1)"
    using x T(2) by (simp add: get_l1_def split: option.splits)
  show ?thesis
  proof (cases "fst (get_l1 T key s)")
    case (Some v)
    then have "truth = Some v" using g1 l1_get_entry[OF x] assms(3) by (auto simp: coherent_def l1_shows_def split: option.splits)
    then show ?thesis using Some g1 k1 by (simp add: tiered_get_def answers_def)
  next
    case None
    then have g: "get_l1 T key s = (None, s1)" using g1 by simp
    show ?thesis
    proof (cases q)
      case (Inl e)
      then show ?thesis using g q k2 by (auto simp: tiered_get_def answers_def)
    next
      case (Inr y)
      show ?thesis
      proof (cases y)
        case (Some v)
        then show ?thesis using g q Inr k2 by (auto simp: tiered_get_def answers_def)
      next
        case None
        obtain p s3 where p: "run_preload T s2 = (p, s3)" by (cases "run_preload T s2")
        have "view s3 = view s2 \<and> held s3 = held s2"
          using p T(3) by (cases "ti_preload T") (auto simp: run_preload_def keeps_caches_def dest: spec[of _ s2])
        then have c3: "coh T key truth s3" using coh_same[of T key truth s2 s3] k2 by simp
        show ?thesis
        proof (cases p)
          case (Some e)
          then show ?thesis using g q Inr None p c3 by (simp add: tiered_get_def answers_def)
        next
          case p': None
          obtain r s4 where r: "load_and_fill T key load s3 = (r, s4)" by (cases "load_and_fill T key load s3")
          have "answers truth (fst (with_level HitLoad (r, s4)))" "snd (with_level HitLoad (r, s4)) = s4"
            using load_and_fill_result[OF assms(1,2) c3 r] by (auto simp: answers_def with_level_def split: sum.splits cache_error.splits)
          moreover note load_and_fill_result[OF assms(1,2) c3 r]
          moreover note read_through_result[OF assms(1,2) c3]
          ultimately show ?thesis using g q Inr None p p' T(1) r
            by (simp add: tiered_get_def locked_load_def) (metis prod.collapse)
        qed
      qed
    qed
  qed
qed

end

text \<open>A prefix cuts a cache of its own out of the shared pool.\<close>

context cache_world
begin

lemma part_of_pool: "cache_world R view (\<lambda>s k. held s (prefixed p k)) time_left (prefix_cache p C)"
proof -
  have "redis_frame R (\<lambda>s. (\<lambda>(h, t). (\<lambda>k. h (prefixed p k), t)) (held s, time_left s))"
    using redis_frame_axioms unfolding redis_frame_def by (elim conjE, intro conjI) (simp_all only: refl simp_thms)
  then have f: "redis_frame R (\<lambda>s. ((\<lambda>k. held s (prefixed p k)), time_left s))" by simp
  show ?thesis
  proof (rule cache_world.intro[OF redis_core_axioms f], unfold_locales)
    fix k s x s1
    assume "l1_get (prefix_cache p C) k s = (x, s1)"
    then show "x = None \<or> x = held s (prefixed p k)" using l1_get_entry by (auto simp: prefix_cache_def)
  next
    fix k k' v ttl s
    show "view (snd (l1_get (prefix_cache p C) k s)) = view s \<and> time_left (snd (l1_get (prefix_cache p C) k s)) = time_left s \<and>
        held (snd (l1_get (prefix_cache p C) k s)) (prefixed p k') \<in> {held s (prefixed p k'), None}"
      using l1_get_keeps by (simp add: prefix_cache_def)
    show "view (l1_set (prefix_cache p C) k v ttl s) = view s \<and> time_left (l1_set (prefix_cache p C) k v ttl s) = time_left s"
      using l1_set_keeps by (simp add: prefix_cache_def)
    show "held (l1_set (prefix_cache p C) k v ttl s) (prefixed p k') \<in> (if k' = k then {Some v, held s (prefixed p k), None} else {held s (prefixed p k'), None})"
      using l1_set_entry[of "prefixed p k" v ttl s "prefixed p k'"] by (auto simp: prefix_cache_def prefixed_def)
    show "view (l1_del (prefix_cache p C) k s) = view s \<and> time_left (l1_del (prefix_cache p C) k s) = time_left s"
      using l1_del_keeps by (simp add: prefix_cache_def)
    show "held (l1_del (prefix_cache p C) k s) (prefixed p k) = None \<and>
        held (l1_del (prefix_cache p C) k s) (prefixed p k') \<in> {held s (prefixed p k'), None}"
      using l1_del_entry by (simp add: prefix_cache_def)
  qed
qed

end

section \<open>Two caches in memory\<close>

type_synonym cached_world = "(mem \<times> (string \<rightharpoonup> string)) \<times> nat"

definition pool :: "cached_world l1_cache" where
  "pool = \<lparr>
     l1_get = (\<lambda>k s. (snd (fst s) k, s)),
     l1_set = (\<lambda>k v ttl s. ((fst (fst s), (snd (fst s))(k \<mapsto> v)), snd s)),
     l1_del = (\<lambda>k s. ((fst (fst s), (snd (fst s))(k := None)), snd s))\<rparr>"

interpretation pooled: cache_world "on_first (on_first up_redis)" "fst \<circ> fst \<circ> fst" "\<lambda>s. snd (fst s)" snd pool
proof -
  have "redis_up (on_first (on_first up_redis) :: cached_world redis) (fst \<circ> fst \<circ> fst)"
    by (rule redis_up.on_first_up[OF redis_up.on_first_up[OF up.redis_up_axioms]])
  then have "redis_core (on_first (on_first up_redis) :: cached_world redis) (fst \<circ> fst \<circ> fst)"
    by (simp add: redis_up_def redis_server_def redis_scan_def)
  moreover have "redis_frame (on_first (on_first up_redis)) (\<lambda>s :: cached_world. (snd (fst s), snd s))"
    by unfold_locales (auto split: prod.splits)
  ultimately show "cache_world (on_first (on_first up_redis)) (fst \<circ> fst \<circ> fst) (\<lambda>s. snd (fst s)) snd pool"
    by (simp add: cache_world_def cache_world_axioms_def pool_def)
qed

definition text_cache :: "(string, unit, cached_world) tiered" where
  "text_cache = \<lparr>ti_l1 = Some pool, ti_redis = Some (on_first (on_first up_redis)), ti_encode = (\<lambda>v. Some (CHR ''{'' # v)),
     ti_decode = (\<lambda>raw. case raw of [] \<Rightarrow> None | c # v \<Rightarrow> if c = CHR ''{'' then Some v else None), ti_l1_ttl = 10,
     ti_l2_ttl = Some (\<lambda>s. (60000, s)), ti_null_sentinel = ''NULL'', ti_null_ttl = Some (\<lambda>s. (30000, s)), ti_preload = None,
     ti_lock_key = ''lock:k'', ti_lock_options = \<lparr>lo_ttl = 5000, lo_watchdog = 1666, lo_op_timeout = 1000\<rparr>, ti_token = (\<lambda>s. (''t'', s)),
     ti_wait = (\<lambda>s. (0 < snd s, (fst s, snd s - 1)))\<rparr>"

section \<open>Property\<close>

text \<open>
  C24: a read of the tiered cache ends, and shows what its loader would: on every path,
  with the lock free or taken, and with Redis failing at any call, a value returned is
  the loaded one, an answer that nothing is there is true, and afterwards both caches
  still hold nothing else under the key.
\<close>

theorem tiered_get_coherent:
  assumes "cache_world R view held time_left C" "tiered_ok R C view held time_left T key truth"
    and "loads view held time_left load truth" "coherent T key truth view held s"
  shows "\<exists>r s'. tiered_get T key load s = Some (r, s') \<and> coherent T key truth view held s' \<and> answers truth r"
  by (rule cache_world.tiered_get_result[OF assms])

text \<open>Another client holds the lock, and gives up nothing while this one waits.\<close>

theorem tiered_get_coherent_witness:
  "\<exists>r s'. tiered_get text_cache ''k'' (\<lambda>s. (Inr (Some ''x''), s)) (((ks_set_str ''lock:k'' ''o'' None empty_keyspace, []), (\<lambda>_. None)), 3) = Some (r, s') \<and> answers (Some ''x'') r"
proof -
  let ?s = "(((ks_set_str ''lock:k'' ''o'' None empty_keyspace, []), (\<lambda>_. None)), 3) :: cached_world"
  have c: "coherent text_cache ''k'' (Some ''x'') (fst \<circ> fst \<circ> fst) (\<lambda>s. snd (fst s)) ?s"
    by (simp add: coherent_def l2_shows_def l1_shows_def)
  have l: "loads (fst \<circ> fst \<circ> fst) (\<lambda>s. snd (fst s)) snd (\<lambda>s. (Inr (Some ''x''), s)) (Some ''x'')"
    by (simp add: loads_def keeps_caches_def)
  have t: "tiered_ok (on_first (on_first up_redis)) pool (fst \<circ> fst \<circ> fst) (\<lambda>s. snd (fst s)) snd text_cache ''k'' (Some ''x'')"
    by (auto simp: tiered_ok_def text_cache_def codec_ok_def keeps_caches_def coherent_def l2_shows_def l1_shows_def)
  from tiered_get_coherent[OF pooled.cache_world_axioms t l c] show ?thesis by blast
qed

end
