(* ===== verification/Auth_Verification.thy ===== *)
theory Auth_Verification
  imports Redis_Product
begin

text \<open>
  \<open>internal/auth/verification.go\<close>, \<open>verification_lua.go\<close>, \<open>lock_policy.go\<close> and
  \<open>random.go\<close>: codes sent to an identifier and checked once. Durations are in
  milliseconds. Random digits, lock tokens and the calendar day are arguments; how many
  lock retries fit before the context ends is \<open>ve_retries\<close>. \<open>Cmd.StringSlice\<close> of go-redis,
  which reads the reply of a script as a list of texts, is the argument \<open>ve_slice\<close>.
\<close>

section \<open>Configuration and keys\<close>

record verification_config =
  vc_code_length :: nat
  vc_ttl :: int
  vc_max_attempts :: int
  vc_send_interval :: int
  vc_daily_limit :: int
  vc_operation_timeout :: int
  vc_lock_ttl :: int
  vc_lock_watchdog :: int
  vc_lock_retry :: int

definition duration_or_default :: "int \<Rightarrow> int \<Rightarrow> int" where
  "duration_or_default ms fallback = (if ms \<le> 0 then fallback else ms)"

definition verification_send_lock_options :: "verification_config option \<Rightarrow> lock_options" where
  "verification_send_lock_options c = (case c of
      None \<Rightarrow> \<lparr>lo_ttl = 5000, lo_watchdog = 15000, lo_op_timeout = 0\<rparr>
    | Some c \<Rightarrow> \<lparr>lo_ttl = duration_or_default (vc_lock_ttl c) 5000,
        lo_watchdog = duration_or_default (vc_lock_watchdog c) 15000, lo_op_timeout = 0\<rparr>)"

definition verification_send_retry_interval :: "verification_config option \<Rightarrow> int" where
  "verification_send_retry_interval c = (case c of None \<Rightarrow> 100 | Some c \<Rightarrow> duration_or_default (vc_lock_retry c) 100)"

definition verification_operation_timeout :: "verification_config option \<Rightarrow> int" where
  "verification_operation_timeout c = (case c of None \<Rightarrow> 0 | Some c \<Rightarrow> if vc_operation_timeout c \<le> 0 then 0 else vc_operation_timeout c)"

text \<open>What a script returns: a number of Lua arrives as an integer, a string as a text.\<close>

datatype redis_reply = ReplyInt int | ReplyText string

record 's verification_service =
  ve_redis :: "'s redis"
  ve_config :: verification_config
  ve_retries :: nat
  ve_token :: "string \<Rightarrow> nat \<Rightarrow> string"
  ve_digit :: "'s \<Rightarrow> nat option \<times> 's"
  ve_slice :: "redis_reply list \<Rightarrow> string list option"

definition verification_flow_lock_key :: "string \<Rightarrow> string \<Rightarrow> string" where
  "verification_flow_lock_key scene ident = ''lock:auth:verification:send:'' @ scene @ CHR '':'' # ident"

definition code_key :: "string \<Rightarrow> string \<Rightarrow> string" where
  "code_key scene ident = ''vc:code:'' @ scene @ CHR '':'' # ident"

definition interval_key :: "string \<Rightarrow> string \<Rightarrow> string" where
  "interval_key scene ident = ''vc:interval:'' @ scene @ CHR '':'' # ident"

definition daily_key :: "string \<Rightarrow> string \<Rightarrow> string \<Rightarrow> string" where
  "daily_key scene ident day = ''vc:daily:'' @ scene @ CHR '':'' # ident @ CHR '':'' # day"

definition attempts_key :: "string \<Rightarrow> string \<Rightarrow> string" where
  "attempts_key scene ident = ''vc:attempts:'' @ scene @ CHR '':'' # ident"

section \<open>Scripts\<close>

definition stored_number :: "'s redis \<Rightarrow> string \<Rightarrow> 's \<Rightarrow> int option" where
  "stored_number R k s = (case r_get R k s of None \<Rightarrow> Some 0 | Some t \<Rightarrow> lua_tonumber t)"

text \<open>\<open>INCR\<close>, and \<open>EXPIRE\<close> with the first one; the answer is the new value.\<close>

definition incr_and_expire :: "'s redis \<Rightarrow> string \<Rightarrow> int \<Rightarrow> 's \<Rightarrow> int \<times> 's" where
  "incr_and_expire R k seconds s =
    (let s1 = r_incr R k s; v = (case stored_number R k s1 of None \<Rightarrow> 0 | Some v \<Rightarrow> v)
     in (v, if v = 1 then r_expire R k (seconds * 1000) s1 else s1))"

text \<open>\<open>None\<close> is an error of the script: the counter holds no number.\<close>

definition verify_and_count :: "'s redis \<Rightarrow> string \<Rightarrow> string \<Rightarrow> int \<Rightarrow> int \<Rightarrow> 's \<Rightarrow> redis_reply list option \<times> 's" where
  "verify_and_count R attempt_key key max_attempts seconds s = (case stored_number R attempt_key s of
      None \<Rightarrow> (None, s)
    | Some attempts \<Rightarrow>
        (if attempts \<ge> max_attempts then (Some [ReplyInt (-1), ReplyText []], s)
         else case incr_and_expire R attempt_key seconds s of
           (val, s1) \<Rightarrow> (Some [ReplyInt val, ReplyText (case r_get R key s1 of None \<Rightarrow> [] | Some code \<Rightarrow> code)], s1)))"

section \<open>Sending\<close>

datatype send_error = SendLock acquire_error | SendIo io_error | BadDailyCount | DailyLimitReached

record send_result =
  sr_identifier :: string
  sr_scene :: string
  sr_expire_seconds :: int

text \<open>A digit that cannot be drawn becomes 0.\<close>

fun generate_code :: "'s verification_service \<Rightarrow> nat \<Rightarrow> 's \<Rightarrow> string \<times> 's" where
  "generate_code V 0 s = ([], s)"
| "generate_code V (Suc n) s = (case ve_digit V s of (d, s1) \<Rightarrow>
     (case generate_code V n s1 of (ds, s2) \<Rightarrow> (digit_char (case d of None \<Rightarrow> 0 | Some i \<Rightarrow> i) # ds, s2)))"

definition sent :: "'s verification_service \<Rightarrow> string \<Rightarrow> string \<Rightarrow> send_result" where
  "sent V scene ident = \<lparr>sr_identifier = ident, sr_scene = scene, sr_expire_seconds = vc_ttl (ve_config V) div 1000\<rparr>"

definition put_code :: "'s verification_service \<Rightarrow> string \<Rightarrow> string \<Rightarrow> string \<Rightarrow> 's \<Rightarrow> 's" where
  "put_code V scene ident code s =
    (let R = ve_redis V in
     r_set R (interval_key scene ident) ''1'' (Some (vc_send_interval (ve_config V)))
       (r_set R (code_key scene ident) code (Some (vc_ttl (ve_config V))) s))"

definition store_code :: "'s verification_service \<Rightarrow> string \<Rightarrow> string \<Rightarrow> string \<Rightarrow> 's \<Rightarrow> (send_error + send_result) \<times> 's" where
  "store_code V scene ident day s =
    (let R = ve_redis V in
     case generate_code V (vc_code_length (ve_config V)) s of (code, s1) \<Rightarrow>
       (case wr R (put_code V scene ident code) s1 of
          (Inl e, s2) \<Rightarrow> (Inl (SendIo e), s2)
        | (Inr _, s2) \<Rightarrow>
            (case roundtrip R (incr_and_expire R (daily_key scene ident day) 86400) s2 of
               (Inl e, s3) \<Rightarrow> (Inl (SendIo e), s3)
             | (Inr _, s3) \<Rightarrow> (Inr (sent V scene ident), snd (wr R (r_del R (attempts_key scene ident)) s3)))))"

definition send_locked :: "'s verification_service \<Rightarrow> string \<Rightarrow> string \<Rightarrow> string \<Rightarrow> 's \<Rightarrow> (send_error + send_result) \<times> 's" where
  "send_locked V scene ident day s =
    (let R = ve_redis V in
     case rd R (r_exists R (interval_key scene ident)) s of
       (Inl e, s1) \<Rightarrow> (Inl (SendIo e), s1)
     | (Inr True, s1) \<Rightarrow> (Inr (sent V scene ident), s1)
     | (Inr False, s1) \<Rightarrow>
         (case rd R (r_get R (daily_key scene ident day)) s1 of
            (Inl e, s2) \<Rightarrow> (Inl (SendIo e), s2)
          | (Inr raw, s2) \<Rightarrow>
              (case (case raw of None \<Rightarrow> Some 0 | Some t \<Rightarrow> parse_int t) of
                 None \<Rightarrow> (Inl BadDailyCount, s2)
               | Some n \<Rightarrow>
                   (if n \<ge> vc_daily_limit (ve_config V) then (Inl DailyLimitReached, s2)
                    else store_code V scene ident day s2))))"

definition flow_lock :: "'s verification_service \<Rightarrow> string \<Rightarrow> string \<Rightarrow> 's \<Rightarrow> (acquire_error + lock) \<times> 's" where
  "flow_lock V scene ident =
    (let k = verification_flow_lock_key scene ident in
     acquire_with_retry (ve_redis V) k (verification_send_lock_options (Some (ve_config V))) (ve_token V k) (ve_retries V))"

definition SendCode :: "'s verification_service \<Rightarrow> string \<Rightarrow> string \<Rightarrow> string \<Rightarrow> 's \<Rightarrow> (send_error + send_result) \<times> 's" where
  "SendCode V scene ident day s = (case flow_lock V scene ident s of
      (Inl e, s1) \<Rightarrow> (Inl (SendLock e), s1)
    | (Inr l, s1) \<Rightarrow> (case send_locked V scene ident day s1 of (r, s2) \<Rightarrow> (r, release (ve_redis V) l s2)))"

section \<open>Checking\<close>

datatype code_status = StatusNotFound | StatusExpired | StatusMismatch | StatusTooManyAttempts | StatusSuccess

record check_result =
  cr_success :: bool
  cr_status :: code_status

definition check_failed :: "code_status \<Rightarrow> check_result" where
  "check_failed st = \<lparr>cr_success = False, cr_status = st\<rparr>"

definition check_succeeded :: check_result where
  "check_succeeded = \<lparr>cr_success = True, cr_status = StatusSuccess\<rparr>"

definition drop_code :: "'s verification_service \<Rightarrow> string \<Rightarrow> string \<Rightarrow> 's \<Rightarrow> 's" where
  "drop_code V scene ident s =
    (let R = ve_redis V in r_del R (attempts_key scene ident) (r_del R (code_key scene ident) s))"

definition verify_locked :: "'s verification_service \<Rightarrow> string \<Rightarrow> string \<Rightarrow> string \<Rightarrow> 's \<Rightarrow> check_result \<times> 's" where
  "verify_locked V scene ident code s =
    (let R = ve_redis V; c = ve_config V in
     case roundtrip R (verify_and_count R (attempts_key scene ident) (code_key scene ident) (vc_max_attempts c) (vc_ttl c div 1000)) s of
       (Inl e, s1) \<Rightarrow> (check_failed StatusNotFound, s1)
     | (Inr None, s1) \<Rightarrow> (check_failed StatusNotFound, s1)
     | (Inr (Some reply), s1) \<Rightarrow> (case ve_slice V reply of
           None \<Rightarrow> (check_failed StatusNotFound, s1)
         | Some ws \<Rightarrow>
             (if length ws < 1 \<or> ws ! 0 = ''-1'' then (check_failed StatusTooManyAttempts, s1)
              else if length ws < 2 \<or> ws ! 1 = [] then (check_failed StatusNotFound, s1)
              else if ws ! 1 \<noteq> code then (check_failed StatusMismatch, s1)
              else (check_succeeded, snd (wr R (drop_code V scene ident) s1)))))"

definition Verify :: "'s verification_service \<Rightarrow> string \<Rightarrow> string \<Rightarrow> string \<Rightarrow> 's \<Rightarrow> check_result \<times> 's" where
  "Verify V scene ident code s = (case flow_lock V scene ident s of
      (Inl e, s1) \<Rightarrow> (check_failed StatusNotFound, s1)
    | (Inr l, s1) \<Rightarrow> (case verify_locked V scene ident code s1 of (r, s2) \<Rightarrow> (r, release (ve_redis V) l s2)))"

end
