(* ===== verification/Auth_Service.thy ===== *)
theory Auth_Service
  imports Auth_Verification Outbox_Tx
begin

text \<open>
  \<open>internal/auth\<close> (\<open>service.go\<close>, \<open>repository.go\<close>, \<open>token_store.go\<close>, \<open>jwt.go\<close>) and
  \<open>pkg/middleware/auth.go\<close>: accounts, logins and tokens. The JWT library, bcrypt, random
  numbers, uuids and the tables of Unicode are arguments. Durations are in milliseconds,
  times of claims in seconds. Texts in Chinese stand as their UTF-8 bytes; logs and
  the columns \<open>created_at\<close> and \<open>updated_at\<close> are left out. Column values compare byte by byte.
\<close>

section \<open>Tables\<close>

record user =
  us_id :: uint64
  us_zg_id :: "string option"
  us_phone :: "string option"
  us_email :: "string option"
  us_password_hash :: "string option"
  us_nickname :: string
  us_avatar :: "string option"
  us_tags_json :: "string option"
  us_birthday :: "int option"
  us_gender :: "string option"
  us_bio :: "string option"
  us_school :: "string option"

record login_log =
  ll_user_id :: "uint64 option"
  ll_identifier :: string
  ll_channel :: string
  ll_ip :: "string option"
  ll_user_agent :: "string option"
  ll_status :: string

record user_tables =
  ut_users :: "user list"
  ut_logs :: "login_log list"
  ut_next_id :: uint64

type_synonym 's user_db = "(user_tables, 's) database"

text \<open>
  \<open>INSERT INTO users\<close>: the unique columns are the phone, the email and the public name;
  the answer is the new id, or nothing for a duplicate.
\<close>

definition clashes :: "user \<Rightarrow> user \<Rightarrow> bool" where
  "clashes u v = (us_phone u \<noteq> None \<and> us_phone u = us_phone v \<or> us_email u \<noteq> None \<and> us_email u = us_email v \<or>
     us_zg_id u \<noteq> None \<and> us_zg_id u = us_zg_id v)"

definition insert_user :: "user \<Rightarrow> user_tables \<Rightarrow> uint64 option \<times> user_tables" where
  "insert_user u t =
    (if \<exists>v \<in> set (ut_users t). clashes u v then (None, t)
     else (Some (ut_next_id t), t\<lparr>ut_users := ut_users t @ [u\<lparr>us_id := ut_next_id t\<rparr>], ut_next_id := ut_next_id t + 1\<rparr>))"

definition CreateUser :: "'s user_db \<Rightarrow> user \<Rightarrow> 's \<Rightarrow> (io_error + user) \<times> 's" where
  "CreateUser D u s = (case db_write D (insert_user u) s of
      (Inl e, s1) \<Rightarrow> (Inl e, s1)
    | (Inr None, s1) \<Rightarrow> (Inl (IoError ''Duplicate entry''), s1)
    | (Inr (Some i), s1) \<Rightarrow> (Inr (u\<lparr>us_id := i\<rparr>), s1))"

definition find_row :: "(user \<Rightarrow> bool) \<Rightarrow> user_tables \<Rightarrow> user option" where
  "find_row P t = find P (ut_users t)"

definition get_row :: "'s user_db \<Rightarrow> (user \<Rightarrow> bool) \<Rightarrow> 's \<Rightarrow> (io_error + user) \<times> 's" where
  "get_row D P s = (case db_read D (find_row P) s of
      (Inl e, s1) \<Rightarrow> (Inl e, s1)
    | (Inr None, s1) \<Rightarrow> (Inl (IoError ''sql: no rows in result set''), s1)
    | (Inr (Some u), s1) \<Rightarrow> (Inr u, s1))"

definition FindUserByID :: "'s user_db \<Rightarrow> uint64 \<Rightarrow> 's \<Rightarrow> (io_error + user) \<times> 's" where
  "FindUserByID D i = get_row D (\<lambda>u. us_id u = i)"

definition has_identifier :: "string \<Rightarrow> string \<Rightarrow> user \<Rightarrow> bool" where
  "has_identifier kind ident u = (if kind = ''PHONE'' then us_phone u = Some ident else us_email u = Some ident)"

definition FindUserByIdentifier :: "'s user_db \<Rightarrow> string \<Rightarrow> string \<Rightarrow> 's \<Rightarrow> (io_error + user) \<times> 's" where
  "FindUserByIdentifier D kind ident s =
    (if kind \<in> {''PHONE'', ''EMAIL''} then get_row D (has_identifier kind ident) s
     else (Inl (IoError ''sql: no rows in result set''), s))"

text \<open>An error of the count is taken for \<open>False\<close>.\<close>

definition IdentifierExists :: "'s user_db \<Rightarrow> string \<Rightarrow> string \<Rightarrow> 's \<Rightarrow> bool \<times> 's" where
  "IdentifierExists D kind ident s =
    (if kind \<in> {''PHONE'', ''EMAIL''} then
       (case db_read D (\<lambda>t. length (filter (has_identifier kind ident) (ut_users t))) s of
          (Inl e, s1) \<Rightarrow> (False, s1)
        | (Inr n, s1) \<Rightarrow> (n > 0, s1))
     else (False, s))"

definition set_password :: "uint64 \<Rightarrow> string \<Rightarrow> user_tables \<Rightarrow> unit \<times> user_tables" where
  "set_password i h t = ((), t\<lparr>ut_users := map (\<lambda>u. if us_id u = i then u\<lparr>us_password_hash := Some h\<rparr> else u) (ut_users t)\<rparr>)"

definition UpdatePassword :: "'s user_db \<Rightarrow> uint64 \<Rightarrow> string \<Rightarrow> 's \<Rightarrow> (io_error + unit) \<times> 's" where
  "UpdatePassword D i h = db_write D (set_password i h)"

definition RecordLoginLog :: "'s user_db \<Rightarrow> login_log \<Rightarrow> 's \<Rightarrow> 's" where
  "RecordLoginLog D l s = snd (db_write D (\<lambda>t. ((), t\<lparr>ut_logs := ut_logs t @ [l]\<rparr>)) s)"

section \<open>Refresh tokens\<close>

definition refresh_key :: "uint64 \<Rightarrow> string \<Rightarrow> string" where
  "refresh_key u tid = ''rt:'' @ format_uint u @ CHR '':'' # tid"

definition StoreToken :: "'s redis \<Rightarrow> uint64 \<Rightarrow> string \<Rightarrow> int \<Rightarrow> 's \<Rightarrow> (io_error + unit) \<times> 's" where
  "StoreToken R u tid ttl = wr R (r_set R (refresh_key u tid) ''1'' (Some ttl))"

definition IsTokenValid :: "'s redis \<Rightarrow> uint64 \<Rightarrow> string \<Rightarrow> 's \<Rightarrow> bool \<times> 's" where
  "IsTokenValid R u tid s = (case rd R (r_exists R (refresh_key u tid)) s of (r, s1) \<Rightarrow> (r = Inr True, s1))"

definition RevokeToken :: "'s redis \<Rightarrow> uint64 \<Rightarrow> string \<Rightarrow> 's \<Rightarrow> (io_error + unit) \<times> 's" where
  "RevokeToken R u tid = wr R (r_del R (refresh_key u tid))"

text \<open>Every page is one call of \<open>SCAN\<close>; a key whose deletion fails is only logged.\<close>

definition delete_keys :: "'s redis \<Rightarrow> string list \<Rightarrow> 's \<Rightarrow> 's" where
  "delete_keys R ks s = fold (\<lambda>k s. snd (wr R (r_del R k) s)) ks s"

fun revoke_pages :: "'s redis \<Rightarrow> string list list \<Rightarrow> 's \<Rightarrow> (io_error + unit) \<times> 's" where
  "revoke_pages R [] s = (Inr (), s)"
| "revoke_pages R (ks # pages) s = (case rd R (\<lambda>_. ()) s of
      (Inl e, s1) \<Rightarrow> (Inl e, s1)
    | (Inr _, s1) \<Rightarrow> revoke_pages R pages (delete_keys R ks s1))"

definition RevokeAll :: "'s redis \<Rightarrow> uint64 \<Rightarrow> 's \<Rightarrow> (io_error + unit) \<times> 's" where
  "RevokeAll R u s = revoke_pages R (r_scan R (''rt:'' @ format_uint u @ '':*'') s) s"

section \<open>Signed tokens\<close>

record jwt_claims =
  cl_issuer :: string
  cl_issued_at :: int
  cl_expires_at :: int
  cl_subject :: string
  cl_id :: string
  cl_uid :: uint64
  cl_kind :: string
  cl_nickname :: string

text \<open>
  \<open>jw_parse accepts text\<close> parses and checks a token whose signing method is accepted: an
  error, or the claims and whether the token is valid now.
\<close>

record 's jwt_service =
  jw_issuer :: string
  jw_access_ttl :: int
  jw_refresh_ttl :: int
  jw_sign :: "jwt_claims \<Rightarrow> 's \<Rightarrow> io_error + string"
  jw_parse :: "(string \<Rightarrow> bool) \<Rightarrow> string \<Rightarrow> 's \<Rightarrow> io_error + (jwt_claims \<times> bool)"
  jw_uuid :: "'s \<Rightarrow> string \<times> 's"
  jw_now :: "'s \<Rightarrow> int"

record token_pair =
  tp_access :: string
  tp_access_expires :: int
  tp_refresh :: string
  tp_refresh_expires :: int
  tp_refresh_id :: string

definition encode_token :: "'s jwt_service \<Rightarrow> user \<Rightarrow> int \<Rightarrow> int \<Rightarrow> string \<Rightarrow> string \<Rightarrow> 's \<Rightarrow> io_error + string" where
  "encode_token J u issued expires kind tid s =
    jw_sign J \<lparr>cl_issuer = jw_issuer J, cl_issued_at = issued, cl_expires_at = expires, cl_subject = format_uint (us_id u),
      cl_id = tid, cl_uid = us_id u, cl_kind = kind, cl_nickname = us_nickname u\<rparr> s"

definition IssueTokenPair :: "'s jwt_service \<Rightarrow> user \<Rightarrow> 's \<Rightarrow> (io_error + token_pair) \<times> 's" where
  "IssueTokenPair J u s =
    (case jw_uuid J s of (rid, s1) \<Rightarrow>
       (let now = jw_now J s1; a_exp = now + jw_access_ttl J; r_exp = now + jw_refresh_ttl J in
        case jw_uuid J s1 of (aid, s2) \<Rightarrow>
          (case encode_token J u now a_exp ''access'' aid s2 of
             Inl e \<Rightarrow> (Inl e, s2)
           | Inr access \<Rightarrow>
               (case encode_token J u now r_exp ''refresh'' rid s2 of
                  Inl e \<Rightarrow> (Inl e, s2)
                | Inr refresh \<Rightarrow> (Inr \<lparr>tp_access = access, tp_access_expires = a_exp, tp_refresh = refresh,
                    tp_refresh_expires = r_exp, tp_refresh_id = rid\<rparr>, s2)))))"

definition is_rsa :: "string \<Rightarrow> bool" where
  "is_rsa alg = (alg \<in> {''RS256'', ''RS384'', ''RS512''})"

definition ValidateToken :: "'s jwt_service \<Rightarrow> string \<Rightarrow> 's \<Rightarrow> jwt_claims option" where
  "ValidateToken J t s = (case jw_parse J is_rsa t s of
      Inl e \<Rightarrow> None
    | Inr (c, valid) \<Rightarrow> if valid then Some c else None)"

section \<open>Checks of the input\<close>

definition is_letter :: "char \<Rightarrow> bool" where
  "is_letter c = (let n = (of_char c :: nat) in 65 \<le> n \<and> n \<le> 90 \<or> 97 \<le> n \<and> n \<le> 122)"

definition normalize_identifier :: "unicode \<Rightarrow> string \<Rightarrow> string \<Rightarrow> string" where
  "normalize_identifier U kind ident = (let t = trim_space ident in if kind = ''EMAIL'' then to_lower U t else t)"

text \<open>\<open>^1[3-9]\d{9}$\<close>.\<close>

definition phone_matches :: "string \<Rightarrow> bool" where
  "phone_matches t = (length t = 11 \<and> t ! 0 = CHR ''1'' \<and> is_digit (t ! 1) \<and> digit_val (t ! 1) \<ge> 3 \<and> list_all is_digit (drop 2 t))"

definition local_char :: "char \<Rightarrow> bool" where
  "local_char c = (is_letter c \<or> is_digit c \<or> c \<in> set ''._%+-'')"

definition domain_char :: "char \<Rightarrow> bool" where
  "domain_char c = (is_letter c \<or> is_digit c \<or> c \<in> set ''.-'')"

text \<open>
  \<open>^[a-zA-Z0-9._%+\-]+@[a-zA-Z0-9.\-]+\.[a-zA-Z]{2,}$\<close>: letters after the last dot, and
  something before it.
\<close>

definition email_matches :: "string \<Rightarrow> bool" where
  "email_matches t = (case str_cut CHR ''@'' t of None \<Rightarrow> False | Some (l, d) \<Rightarrow>
     (let tld = takeWhile (\<lambda>c. c \<noteq> CHR ''.'') (rev d); rest = dropWhile (\<lambda>c. c \<noteq> CHR ''.'') (rev d) in
      l \<noteq> [] \<and> list_all local_char l \<and> length tld \<ge> 2 \<and> list_all is_letter tld \<and> length rest \<ge> 2 \<and> list_all domain_char rest))"

definition validate_identifier :: "string \<Rightarrow> string \<Rightarrow> string option" where
  "validate_identifier kind ident =
    (if kind = ''PHONE'' then if phone_matches ident then None else Some (utf8 [0xE6, 0x89, 0x8B, 0xE6, 0x9C, 0xBA, 0xE5, 0x8F, 0xB7, 0xE6, 0xA0, 0xBC, 0xE5, 0xBC, 0x8F, 0xE6, 0x97, 0xA0, 0xE6, 0x95, 0x88])
     else if kind = ''EMAIL'' then if email_matches ident then None else Some (utf8 [0xE9, 0x82, 0xAE, 0xE7, 0xAE, 0xB1, 0xE6, 0xA0, 0xBC, 0xE5, 0xBC, 0x8F, 0xE6, 0x97, 0xA0, 0xE6, 0x95, 0x88])
     else None)"

definition validate_password :: "unicode \<Rightarrow> int \<Rightarrow> string \<Rightarrow> string option" where
  "validate_password U min_length p =
    (if int (length p) < min_length then Some (utf8 [0xE5, 0xAF, 0x86, 0xE7, 0xA0, 0x81, 0xE9, 0x95, 0xBF, 0xE5, 0xBA, 0xA6, 0xE8, 0x87, 0xB3, 0xE5, 0xB0, 0x91, 0xE4, 0xB8, 0xBA, 0x20] @ format_int min_length @ utf8 [0x20, 0xE4, 0xB8, 0xAA, 0xE5, 0xAD, 0x97, 0xE7, 0xAC, 0xA6])
     else if \<not> (list_ex is_letter p \<or> un_letter U p) then Some (utf8 [0xE5, 0xAF, 0x86, 0xE7, 0xA0, 0x81, 0xE5, 0xBF, 0x85, 0xE9, 0xA1, 0xBB, 0xE5, 0x8C, 0x85, 0xE5, 0x90, 0xAB, 0xE8, 0x87, 0xB3, 0xE5, 0xB0, 0x91, 0xE4, 0xB8, 0x80, 0xE4, 0xB8, 0xAA, 0xE5, 0xAD, 0x97, 0xE6, 0xAF, 0x8D])
     else if \<not> (list_ex is_digit p \<or> un_digit U p) then Some (utf8 [0xE5, 0xAF, 0x86, 0xE7, 0xA0, 0x81, 0xE5, 0xBF, 0x85, 0xE9, 0xA1, 0xBB, 0xE5, 0x8C, 0x85, 0xE5, 0x90, 0xAB, 0xE8, 0x87, 0xB3, 0xE5, 0xB0, 0x91, 0xE4, 0xB8, 0x80, 0xE4, 0xB8, 0xAA, 0xE6, 0x95, 0xB0, 0xE5, 0xAD, 0x97])
     else None)"

definition ensure_verification_success :: "check_result \<Rightarrow> app_error option" where
  "ensure_verification_success r = (if cr_success r then None else case cr_status r of
      StatusNotFound \<Rightarrow> Some ErrVerificationNotFound
    | StatusExpired \<Rightarrow> Some ErrVerificationNotFound
    | StatusMismatch \<Rightarrow> Some ErrVerificationMismatch
    | StatusTooManyAttempts \<Rightarrow> Some ErrVerificationTooManyAttempts
    | StatusSuccess \<Rightarrow> Some ErrVerificationNotFound)"

end
