(* ===== verification/Auth_Account.thy ===== *)
theory Auth_Account
  imports Auth_Service
begin

text \<open>
  The operations of \<open>AuthService\<close> (\<open>internal/auth/service.go\<close>) and what the middleware
  of \<open>pkg/middleware/auth.go\<close> takes for a user.
\<close>

record auth_config =
  ac_min_length :: int
  ac_bcrypt_cost :: int
  ac_refresh_lock_ttl :: int
  ac_refresh_lock_watchdog :: int
  ac_refresh_lock_retry :: int
  ac_refresh_timeout :: int

definition refresh_session_lock_key :: "uint64 \<Rightarrow> string" where
  "refresh_session_lock_key u = ''lock:auth:refresh:user:'' @ format_uint u"

definition refresh_session_lock_options :: "auth_config option \<Rightarrow> lock_options" where
  "refresh_session_lock_options c = (case c of
      None \<Rightarrow> \<lparr>lo_ttl = 5000, lo_watchdog = 15000, lo_op_timeout = 0\<rparr>
    | Some c \<Rightarrow> \<lparr>lo_ttl = duration_or_default (ac_refresh_lock_ttl c) 5000,
        lo_watchdog = duration_or_default (ac_refresh_lock_watchdog c) 15000, lo_op_timeout = 0\<rparr>)"

definition refresh_session_retry_interval :: "auth_config option \<Rightarrow> int" where
  "refresh_session_retry_interval c = (case c of None \<Rightarrow> 100 | Some c \<Rightarrow> duration_or_default (ac_refresh_lock_retry c) 100)"

definition refresh_session_lock_timeout :: "auth_config option \<Rightarrow> int" where
  "refresh_session_lock_timeout c = (case c of None \<Rightarrow> 0 | Some c \<Rightarrow> if ac_refresh_timeout c \<le> 0 then 0 else ac_refresh_timeout c)"

text \<open>
  \<open>au_hash\<close> and \<open>au_matches\<close> are bcrypt; \<open>au_random n\<close> draws a number below \<open>n\<close>; \<open>au_day\<close>
  is the date of a state. The token store works on the Redis client of the service.
\<close>

record 's auth_service =
  au_db :: "'s user_db"
  au_redis :: "'s redis option"
  au_tokens :: "'s redis"
  au_verification :: "'s verification_service"
  au_jwt :: "'s jwt_service"
  au_cfg :: auth_config
  au_retries :: nat
  au_lock_token :: "string \<Rightarrow> nat \<Rightarrow> string"
  au_unicode :: unicode
  au_hash :: "string \<Rightarrow> int \<Rightarrow> 's \<Rightarrow> (io_error + string) \<times> 's"
  au_matches :: "string \<Rightarrow> string \<Rightarrow> bool"
  au_random :: "nat \<Rightarrow> 's \<Rightarrow> nat option \<times> 's"
  au_day :: "'s \<Rightarrow> string"

record client_info =
  ci_ip :: string
  ci_user_agent :: string

record auth_user_response =
  ur_id :: uint64
  ur_nickname :: string
  ur_avatar :: "string option"
  ur_phone :: "string option"
  ur_zg_id :: "string option"
  ur_birthday :: "int option"
  ur_school :: "string option"
  ur_bio :: "string option"
  ur_gender :: "string option"
  ur_tags_json :: "string option"

record token_response =
  tk_access :: string
  tk_access_expires :: int
  tk_refresh :: string
  tk_refresh_expires :: int

type_synonym auth_response = "auth_user_response \<times> token_response"

definition map_user_to_response :: "user \<Rightarrow> auth_user_response" where
  "map_user_to_response u = \<lparr>ur_id = us_id u, ur_nickname = us_nickname u, ur_avatar = us_avatar u, ur_phone = us_phone u,
     ur_zg_id = us_zg_id u, ur_birthday = us_birthday u, ur_school = us_school u, ur_bio = us_bio u, ur_gender = us_gender u,
     ur_tags_json = us_tags_json u\<rparr>"

definition map_token_to_response :: "token_pair \<Rightarrow> token_response" where
  "map_token_to_response p = \<lparr>tk_access = tp_access p, tk_access_expires = tp_access_expires p, tk_refresh = tp_refresh p,
     tk_refresh_expires = tp_refresh_expires p\<rparr>"

section \<open>Codes and logs\<close>

definition AuthSendCode :: "'s auth_service \<Rightarrow> string \<Rightarrow> string \<Rightarrow> string \<Rightarrow> 's \<Rightarrow> (app_error + send_result) \<times> 's" where
  "AuthSendCode A kind ident scene s =
    (let i = normalize_identifier (au_unicode A) kind ident in
     case validate_identifier kind i of
       Some e \<Rightarrow> (Inl (with_msg ErrBadRequest e), s)
     | None \<Rightarrow>
         (case IdentifierExists (au_db A) kind i s of (there, s1) \<Rightarrow>
            (if scene = ''REGISTER'' \<and> there then (Inl ErrIdentifierExists, s1)
             else if scene \<in> {''LOGIN'', ''RESET_PASSWORD''} \<and> \<not> there then (Inl ErrIdentifierNotFound, s1)
             else (case SendCode (au_verification A) scene i (au_day A s1) s1 of
                 (Inl e, s2) \<Rightarrow> (Inl (with_msg ErrInternal (utf8 [0xE5, 0x8F, 0x91, 0xE9, 0x80, 0x81, 0xE9, 0xAA, 0x8C, 0xE8, 0xAF, 0x81, 0xE7, 0xA0, 0x81, 0xE5, 0xA4, 0xB1, 0xE8, 0xB4, 0xA5])), s2)
               | (Inr r, s2) \<Rightarrow> (Inr r, s2)))))"

definition or_null :: "string \<Rightarrow> string option" where
  "or_null t = (if t = [] then None else Some t)"

definition record_login_log :: "'s auth_service \<Rightarrow> uint64 \<Rightarrow> string \<Rightarrow> string \<Rightarrow> string \<Rightarrow> client_info \<Rightarrow> 's \<Rightarrow> 's" where
  "record_login_log A u ident channel status c =
    RecordLoginLog (au_db A) \<lparr>ll_user_id = if u \<noteq> 0 then Some u else None, ll_identifier = ident, ll_channel = channel,
      ll_ip = or_null (ci_ip c), ll_user_agent = or_null (ci_user_agent c), ll_status = status\<rparr>"

fun nickname_suffix :: "'s auth_service \<Rightarrow> nat \<Rightarrow> 's \<Rightarrow> string \<times> 's" where
  "nickname_suffix A 0 s = ([], s)"
| "nickname_suffix A (Suc n) s = (case au_random A 36 s of (r, s1) \<Rightarrow>
     (case nickname_suffix A n s1 of (cs, s2) \<Rightarrow>
        ((''abcdefghijklmnopqrstuvwxyz0123456789'' ! (case r of None \<Rightarrow> 0 | Some i \<Rightarrow> i)) # cs, s2)))"

definition generate_nickname :: "'s auth_service \<Rightarrow> 's \<Rightarrow> string \<times> 's" where
  "generate_nickname A s = (case nickname_suffix A 8 s of (cs, s1) \<Rightarrow> (utf8 [0xE7, 0x9F, 0xA5, 0xE5, 0x85, 0x89, 0xE7, 0x94, 0xA8, 0xE6, 0x88, 0xB7] @ cs, s1))"

section \<open>Sessions\<close>

text \<open>A pair of tokens for a user, its refresh token stored.\<close>

definition open_session :: "'s auth_service \<Rightarrow> user \<Rightarrow> 's \<Rightarrow> (app_error + token_pair) \<times> 's" where
  "open_session A u s = (case IssueTokenPair (au_jwt A) u s of
      (Inl e, s1) \<Rightarrow> (Inl (with_msg ErrInternal (utf8 [0xE9, 0xA2, 0x81, 0xE5, 0x8F, 0x91, 0xE4, 0xBB, 0xA4, 0xE7, 0x89, 0x8C, 0xE5, 0xA4, 0xB1, 0xE8, 0xB4, 0xA5])), s1)
    | (Inr p, s1) \<Rightarrow>
        (case StoreToken (au_tokens A) (us_id u) (tp_refresh_id p) (jw_refresh_ttl (au_jwt A) * 1000) s1 of
           (Inl e, s2) \<Rightarrow> (Inl (with_msg ErrInternal (utf8 [0xE6, 0x8C, 0x81, 0xE4, 0xB9, 0x85, 0xE5, 0x8C, 0x96, 0xE5, 0x88, 0xB7, 0xE6, 0x96, 0xB0, 0xE4, 0xBB, 0xA4, 0xE7, 0x89, 0x8C, 0xE5, 0xA4, 0xB1, 0xE8, 0xB4, 0xA5])), s2)
         | (Inr _, s2) \<Rightarrow> (Inr p, s2)))"

definition answer_session :: "user \<Rightarrow> token_pair \<Rightarrow> auth_response" where
  "answer_session u p = (map_user_to_response u, map_token_to_response p)"

definition hash_password :: "'s auth_service \<Rightarrow> string \<Rightarrow> 's \<Rightarrow> (app_error + string) \<times> 's" where
  "hash_password A p s = (case validate_password (au_unicode A) (ac_min_length (au_cfg A)) p of
      Some e \<Rightarrow> (Inl (with_msg ErrBadRequest e), s)
    | None \<Rightarrow>
        (case au_hash A p (ac_bcrypt_cost (au_cfg A)) s of
           (Inl e, s1) \<Rightarrow> (Inl (with_msg ErrInternal (utf8 [0xE5, 0xAF, 0x86, 0xE7, 0xA0, 0x81, 0xE5, 0x93, 0x88, 0xE5, 0xB8, 0x8C, 0xE5, 0xA4, 0xB1, 0xE8, 0xB4, 0xA5])), s1)
         | (Inr h, s1) \<Rightarrow> (Inr h, s1)))"

definition new_user :: "string \<Rightarrow> string \<Rightarrow> string \<Rightarrow> string option \<Rightarrow> user" where
  "new_user kind ident nick h = \<lparr>us_id = 0, us_zg_id = None, us_phone = if kind = ''PHONE'' then Some ident else None,
     us_email = if kind = ''EMAIL'' then Some ident else None, us_password_hash = h, us_nickname = nick, us_avatar = None,
     us_tags_json = None, us_birthday = None, us_gender = None, us_bio = None, us_school = None\<rparr>"

record register_request =
  rg_identifier :: string
  rg_kind :: string
  rg_code :: string
  rg_password :: string
  rg_agree_terms :: bool

definition Register :: "'s auth_service \<Rightarrow> register_request \<Rightarrow> client_info \<Rightarrow> 's \<Rightarrow> (app_error + auth_response) \<times> 's" where
  "Register A req c s =
    (if \<not> rg_agree_terms req then (Inl ErrTermsNotAccepted, s)
     else let i = normalize_identifier (au_unicode A) (rg_kind req) (rg_identifier req) in
     case validate_identifier (rg_kind req) i of
       Some e \<Rightarrow> (Inl (with_msg ErrBadRequest e), s)
     | None \<Rightarrow>
     (case IdentifierExists (au_db A) (rg_kind req) i s of
       (True, s1) \<Rightarrow> (Inl ErrIdentifierExists, s1)
     | (False, s1) \<Rightarrow>
     (case Verify (au_verification A) ''REGISTER'' i (rg_code req) s1 of (check, s2) \<Rightarrow>
     (case ensure_verification_success check of
       Some e \<Rightarrow> (Inl e, s2)
     | None \<Rightarrow>
     (case (if rg_password req = [] then (Inr None, s2)
            else case hash_password A (rg_password req) s2 of (Inl e, s3) \<Rightarrow> (Inl e, s3) | (Inr h, s3) \<Rightarrow> (Inr (Some h), s3)) of
       (Inl e, s3) \<Rightarrow> (Inl e, s3)
     | (Inr h, s3) \<Rightarrow>
     (case generate_nickname A s3 of (nick, s4) \<Rightarrow>
     (case CreateUser (au_db A) (new_user (rg_kind req) i nick h) s4 of
       (Inl e, s5) \<Rightarrow> (Inl (with_msg ErrInternal (utf8 [0xE5, 0x88, 0x9B, 0xE5, 0xBB, 0xBA, 0xE7, 0x94, 0xA8, 0xE6, 0x88, 0xB7, 0xE5, 0xA4, 0xB1, 0xE8, 0xB4, 0xA5])), s5)
     | (Inr u, s5) \<Rightarrow>
     (case open_session A u s5 of
       (Inl e, s6) \<Rightarrow> (Inl e, s6)
     | (Inr p, s6) \<Rightarrow> (Inr (answer_session u p), record_login_log A (us_id u) i ''REGISTER'' ''SUCCESS'' c s6)))))))))"

record login_request =
  lr_identifier :: string
  lr_kind :: string
  lr_password :: string
  lr_code :: string

text \<open>The second factor of a login: the channel, and an error or nothing.\<close>

definition check_login :: "'s auth_service \<Rightarrow> login_request \<Rightarrow> string \<Rightarrow> user \<Rightarrow> 's \<Rightarrow> (string \<times> app_error option) \<times> 's" where
  "check_login A req i u s =
    (if lr_code req \<noteq> [] then
       (case Verify (au_verification A) ''LOGIN'' i (lr_code req) s of (check, s1) \<Rightarrow> ((''CODE'', ensure_verification_success check), s1))
     else case us_password_hash u of
       None \<Rightarrow> ((''PASSWORD'', Some ErrInvalidCredentials), s)
     | Some h \<Rightarrow> ((''PASSWORD'', if lr_password req = [] \<or> \<not> au_matches A h (lr_password req) then Some ErrInvalidCredentials else None), s))"

definition Login :: "'s auth_service \<Rightarrow> login_request \<Rightarrow> client_info \<Rightarrow> 's \<Rightarrow> (app_error + auth_response) \<times> 's" where
  "Login A req c s =
    (let i = normalize_identifier (au_unicode A) (lr_kind req) (lr_identifier req) in
     case validate_identifier (lr_kind req) i of
       Some e \<Rightarrow> (Inl (with_msg ErrBadRequest e), s)
     | None \<Rightarrow>
     (case FindUserByIdentifier (au_db A) (lr_kind req) i s of
       (Inl e, s1) \<Rightarrow> (Inl ErrIdentifierNotFound, s1)
     | (Inr u, s1) \<Rightarrow>
     (case check_login A req i u s1 of
       ((channel, Some e), s2) \<Rightarrow> (Inl e, record_login_log A (us_id u) i channel ''FAILED'' c s2)
     | ((channel, None), s2) \<Rightarrow>
     (case open_session A u s2 of
       (Inl e, s3) \<Rightarrow> (Inl e, s3)
     | (Inr p, s3) \<Rightarrow> (Inr (answer_session u p), record_login_log A (us_id u) i channel ''SUCCESS'' c s3)))))"

definition acquire_refresh_session_lock :: "'s auth_service \<Rightarrow> uint64 \<Rightarrow> 's \<Rightarrow> (app_error + ('s \<Rightarrow> 's)) \<times> 's" where
  "acquire_refresh_session_lock A u s = (case au_redis A of
      None \<Rightarrow> (Inl (with_msg ErrInternal (utf8 [0x52, 0x65, 0x64, 0x69, 0x73, 0x20, 0xE5, 0xAE, 0xA2, 0xE6, 0x88, 0xB7, 0xE7, 0xAB, 0xAF, 0xE4, 0xB8, 0x8D, 0xE5, 0x8F, 0xAF, 0xE7, 0x94, 0xA8])), s)
    | Some R \<Rightarrow>
        (case acquire_with_retry R (refresh_session_lock_key u) (refresh_session_lock_options (Some (au_cfg A)))
            (au_lock_token A (refresh_session_lock_key u)) (au_retries A) s of
           (Inl e, s1) \<Rightarrow> (Inl (with_msg ErrInternal (utf8 [0xE8, 0x8E, 0xB7, 0xE5, 0x8F, 0x96, 0xE5, 0x88, 0xB7, 0xE6, 0x96, 0xB0, 0xE4, 0xBC, 0x9A, 0xE8, 0xAF, 0x9D, 0xE9, 0x94, 0x81, 0xE5, 0xA4, 0xB1, 0xE8, 0xB4, 0xA5])), s1)
         | (Inr l, s1) \<Rightarrow> (Inr (release R l), s1)))"

text \<open>What happens under the lock of the session: the token is used up before a new one is given.\<close>

definition rotate :: "'s auth_service \<Rightarrow> jwt_claims \<Rightarrow> 's \<Rightarrow> (app_error + auth_response) \<times> 's" where
  "rotate A c s = (case IsTokenValid (au_tokens A) (cl_uid c) (cl_id c) s of
      (False, s1) \<Rightarrow> (Inl ErrRefreshTokenInvalid, s1)
    | (True, s1) \<Rightarrow>
        (case RevokeToken (au_tokens A) (cl_uid c) (cl_id c) s1 of
           (Inl e, s2) \<Rightarrow> (Inl (with_msg ErrInternal (utf8 [0xE5, 0x90, 0x8A, 0xE9, 0x94, 0x80, 0xE5, 0x88, 0xB7, 0xE6, 0x96, 0xB0, 0xE4, 0xBB, 0xA4, 0xE7, 0x89, 0x8C, 0xE5, 0xA4, 0xB1, 0xE8, 0xB4, 0xA5])), s2)
         | (Inr _, s2) \<Rightarrow>
             (case FindUserByID (au_db A) (cl_uid c) s2 of
                (Inl e, s3) \<Rightarrow> (Inl ErrIdentifierNotFound, s3)
              | (Inr u, s3) \<Rightarrow>
                  (case open_session A u s3 of
                     (Inl e, s4) \<Rightarrow> (Inl e, s4)
                   | (Inr p, s4) \<Rightarrow> (Inr (answer_session u p), s4)))))"

definition Refresh :: "'s auth_service \<Rightarrow> string \<Rightarrow> 's \<Rightarrow> (app_error + auth_response) \<times> 's" where
  "Refresh A t s = (case ValidateToken (au_jwt A) t s of
      None \<Rightarrow> (Inl ErrRefreshTokenInvalid, s)
    | Some c \<Rightarrow>
        (if cl_kind c \<noteq> ''refresh'' then (Inl ErrRefreshTokenInvalid, s)
         else case acquire_refresh_session_lock A (cl_uid c) s of
           (Inl e, s1) \<Rightarrow> (Inl e, s1)
         | (Inr unlock, s1) \<Rightarrow> (case rotate A c s1 of (r, s2) \<Rightarrow> (r, unlock s2))))"

definition Logout :: "'s auth_service \<Rightarrow> string \<Rightarrow> 's \<Rightarrow> 's" where
  "Logout A t s = (case ValidateToken (au_jwt A) t s of
      None \<Rightarrow> s
    | Some c \<Rightarrow> if cl_kind c \<noteq> ''refresh'' then s else snd (RevokeToken (au_tokens A) (cl_uid c) (cl_id c) s))"

record reset_request =
  rq_identifier :: string
  rq_kind :: string
  rq_code :: string
  rq_new_password :: string

definition replace_password :: "'s auth_service \<Rightarrow> uint64 \<Rightarrow> string \<Rightarrow> 's \<Rightarrow> (app_error + unit) \<times> 's" where
  "replace_password A u h s = (case UpdatePassword (au_db A) u h s of
      (Inl e, s1) \<Rightarrow> (Inl (with_msg ErrInternal (utf8 [0xE6, 0x9B, 0xB4, 0xE6, 0x96, 0xB0, 0xE5, 0xAF, 0x86, 0xE7, 0xA0, 0x81, 0xE5, 0xA4, 0xB1, 0xE8, 0xB4, 0xA5])), s1)
    | (Inr _, s1) \<Rightarrow>
        (case RevokeAll (au_tokens A) u s1 of
           (Inl e, s2) \<Rightarrow> (Inl (with_msg ErrInternal (utf8 [0xE5, 0x90, 0x8A, 0xE9, 0x94, 0x80, 0xE5, 0x88, 0xB7, 0xE6, 0x96, 0xB0, 0xE4, 0xBB, 0xA4, 0xE7, 0x89, 0x8C, 0xE5, 0xA4, 0xB1, 0xE8, 0xB4, 0xA5])), s2)
         | (Inr _, s2) \<Rightarrow> (Inr (), s2)))"

definition ResetPassword :: "'s auth_service \<Rightarrow> reset_request \<Rightarrow> 's \<Rightarrow> (app_error + unit) \<times> 's" where
  "ResetPassword A req s =
    (let i = normalize_identifier (au_unicode A) (rq_kind req) (rq_identifier req) in
     case validate_identifier (rq_kind req) i of
       Some e \<Rightarrow> (Inl (with_msg ErrBadRequest e), s)
     | None \<Rightarrow>
     (case FindUserByIdentifier (au_db A) (rq_kind req) i s of
       (Inl e, s1) \<Rightarrow> (Inl ErrIdentifierNotFound, s1)
     | (Inr u, s1) \<Rightarrow>
     (case Verify (au_verification A) ''RESET_PASSWORD'' i (rq_code req) s1 of (check, s2) \<Rightarrow>
     (case ensure_verification_success check of
       Some e \<Rightarrow> (Inl e, s2)
     | None \<Rightarrow>
     (case hash_password A (rq_new_password req) s2 of
       (Inl e, s3) \<Rightarrow> (Inl e, s3)
     | (Inr h, s3) \<Rightarrow>
     (case acquire_refresh_session_lock A (us_id u) s3 of
       (Inl e, s4) \<Rightarrow> (Inl e, s4)
     | (Inr unlock, s4) \<Rightarrow> (case replace_password A (us_id u) h s4 of (r, s5) \<Rightarrow> (r, unlock s5))))))))"

definition CurrentUser :: "'s auth_service \<Rightarrow> uint64 \<Rightarrow> 's \<Rightarrow> (app_error + auth_user_response) \<times> 's" where
  "CurrentUser A u s = (case FindUserByID (au_db A) u s of
      (Inl e, s1) \<Rightarrow> (Inl ErrIdentifierNotFound, s1)
    | (Inr v, s1) \<Rightarrow> (Inr (map_user_to_response v), s1))"

section \<open>The middleware\<close>

definition extract_bearer_token :: "string \<Rightarrow> string" where
  "extract_bearer_token header = (if header = [] then [] else case str_cut CHR '' '' header of
      None \<Rightarrow> []
    | Some (scheme, rest) \<Rightarrow> if map ascii_lower scheme = ''bearer'' then trim_space rest else [])"

text \<open>The user and the kind of token of a request, or the answer that ends it.\<close>

definition auth_middleware :: "'s jwt_service \<Rightarrow> string \<Rightarrow> 's \<Rightarrow> app_error + uint64 \<times> string" where
  "auth_middleware J header s = (let t = extract_bearer_token header in
     if t = [] then Inl (with_msg ErrUnauthorized ''missing authorization header'')
     else case ValidateToken J t s of
       None \<Rightarrow> Inl (with_msg ErrUnauthorized ''invalid or expired token'')
     | Some c \<Rightarrow> Inr (cl_uid c, cl_kind c))"

definition optional_auth_middleware :: "'s jwt_service \<Rightarrow> string \<Rightarrow> 's \<Rightarrow> (uint64 \<times> string) option" where
  "optional_auth_middleware J header s = (let t = extract_bearer_token header in
     if t = [] then None else map_option (\<lambda>c. (cl_uid c, cl_kind c)) (ValidateToken J t s))"

section \<open>The handlers\<close>

text \<open>A body that cannot be bound is \<open>None\<close>; \<open>answer\<close> turns a result into the response.\<close>

definition bad_body :: "'a api_response" where
  "bad_body = ErrorResponse (with_msg ErrBadRequest (utf8 [0xE6, 0x97, 0xA0, 0xE6, 0x95, 0x88, 0xE7, 0x9A, 0x84, 0xE8, 0xAF, 0xB7, 0xE6, 0xB1, 0x82]))"

definition answer :: "('a \<Rightarrow> 'a api_response) \<Rightarrow> app_error + 'a \<Rightarrow> 'a api_response" where
  "answer ok r = (case r of Inl e \<Rightarrow> ErrorResponse (ToAppError (AppErr e)) | Inr x \<Rightarrow> ok x)"

definition bound :: "('s \<Rightarrow> 'a api_response \<times> 's) option \<Rightarrow> 's \<Rightarrow> 'a api_response \<times> 's" where
  "bound f s = (case f of None \<Rightarrow> (bad_body, s) | Some g \<Rightarrow> g s)"

definition handle_send_code :: "'s auth_service \<Rightarrow> (string \<times> string \<times> string) option \<Rightarrow> 's \<Rightarrow> send_result api_response \<times> 's" where
  "handle_send_code A req = bound (map_option (\<lambda>(kind, ident, scene) s.
     case AuthSendCode A kind ident scene s of (r, s1) \<Rightarrow> (answer SuccessResponse r, s1)) req)"

definition handle_register :: "'s auth_service \<Rightarrow> register_request option \<Rightarrow> client_info \<Rightarrow> 's \<Rightarrow> auth_response api_response \<times> 's" where
  "handle_register A req c = bound (map_option (\<lambda>q s. case Register A q c s of (r, s1) \<Rightarrow> (answer CreatedResponse r, s1)) req)"

definition handle_login :: "'s auth_service \<Rightarrow> login_request option \<Rightarrow> client_info \<Rightarrow> 's \<Rightarrow> auth_response api_response \<times> 's" where
  "handle_login A req c = bound (map_option (\<lambda>q s. case Login A q c s of (r, s1) \<Rightarrow> (answer SuccessResponse r, s1)) req)"

definition handle_refresh :: "'s auth_service \<Rightarrow> string option \<Rightarrow> 's \<Rightarrow> auth_response api_response \<times> 's" where
  "handle_refresh A req = bound (map_option (\<lambda>t s. case Refresh A t s of (r, s1) \<Rightarrow> (answer SuccessResponse r, s1)) req)"

definition handle_logout :: "'s auth_service \<Rightarrow> string option \<Rightarrow> 's \<Rightarrow> string api_response \<times> 's" where
  "handle_logout A req = bound (map_option (\<lambda>t s. (SuccessResponse (utf8 [0xE7, 0x99, 0xBB, 0xE5, 0x87, 0xBA, 0xE6, 0x88, 0x90, 0xE5, 0x8A, 0x9F]), Logout A t s)) req)"

definition handle_reset :: "'s auth_service \<Rightarrow> reset_request option \<Rightarrow> 's \<Rightarrow> string api_response \<times> 's" where
  "handle_reset A req = bound (map_option (\<lambda>q s. case ResetPassword A q s of
      (Inl e, s1) \<Rightarrow> (ErrorResponse (ToAppError (AppErr e)), s1)
    | (Inr _, s1) \<Rightarrow> (SuccessResponse (utf8 [0xE5, 0xAF, 0x86, 0xE7, 0xA0, 0x81, 0xE9, 0x87, 0x8D, 0xE7, 0xBD, 0xAE, 0xE6, 0x88, 0x90, 0xE5, 0x8A, 0x9F]), s1)) req)"

definition handle_me :: "'s auth_service \<Rightarrow> uint64 option \<Rightarrow> 's \<Rightarrow> auth_user_response api_response \<times> 's" where
  "handle_me A u s = (case u of
      None \<Rightarrow> (ErrorResponse ErrUnauthorized, s)
    | Some u \<Rightarrow> (case CurrentUser A u s of (r, s1) \<Rightarrow> (answer SuccessResponse r, s1)))"

end
