(* ===== verification/Auth_Checks.thy ===== *)
theory Auth_Checks
  imports Auth_Verification
begin

text \<open>
  What a check of a code answers. The script of \<open>Verify\<close> returns the number of attempts as
  an integer, and the client library refuses to read an integer as a text: whatever the
  code, whatever fails, a check says that there is none.
\<close>

section \<open>The client library\<close>

text \<open>
  \<open>Cmd.StringSlice\<close> of go-redis, as documented: it reads a list of texts, and one element of
  another type is an error.
\<close>

locale go_redis_slice =
  fixes slice :: "redis_reply list \<Rightarrow> string list option"
  assumes texts_read: "slice (map ReplyText ts) = Some ts"
    and number_refused: "ReplyInt n \<in> set rs \<Longrightarrow> slice rs = None"

fun reply_text :: "redis_reply \<Rightarrow> string option" where
  "reply_text (ReplyInt n) = None"
| "reply_text (ReplyText t) = Some t"

definition cmd_string_slice :: "redis_reply list \<Rightarrow> string list option" where
  "cmd_string_slice rs = those (map reply_text rs)"

interpretation go_slice: go_redis_slice cmd_string_slice
proof
  show "cmd_string_slice (map ReplyText ts) = Some ts" for ts
    by (induction ts) (simp_all add: cmd_string_slice_def)
  show "ReplyInt n \<in> set rs \<Longrightarrow> cmd_string_slice rs = None" for n rs
    by (induction rs) (auto simp: cmd_string_slice_def split: option.split)
qed

section \<open>Locks and counters leave other keys alone\<close>

context redis_core
begin

lemma acquire_str:
  "acquire_with_retry R key opts tok n s = (r, s') \<Longrightarrow> k \<noteq> key \<Longrightarrow> ks_str (view s') k = ks_str (view s) k"
proof (induction n arbitrary: s)
  case 0
  obtain q s1 where q: "try_acquire R key opts (tok 0) s = (q, s1)" by (cases "try_acquire R key opts (tok 0) s")
  from "0.prems" q try_acquire_view[OF q] show ?case
    by (subst (asm) acquire_with_retry.simps) (auto split: sum.splits option.splits)
next
  case (Suc n)
  obtain q s1 where q: "try_acquire R key opts (tok (Suc n)) s = (q, s1)" by (cases "try_acquire R key opts (tok (Suc n)) s")
  have k: "ks_str (view s1) k = ks_str (view s) k" using try_acquire_view[OF q] Suc.prems(2) by auto
  from Suc.prems q k Suc.IH[of s1] show ?case
    by (auto simp: acquire_with_retry.simps[of R key opts tok "Suc n"] split: sum.splits option.splits)
qed

lemma acquired_lock_key: "acquire_with_retry R key opts tok n s = (Inr l, s') \<Longrightarrow> lk_key l = key"
proof (induction n arbitrary: s)
  case 0
  then show ?case by (subst (asm) acquire_with_retry.simps)
      (auto simp: try_acquire_def Let_def split: sum.splits option.splits prod.splits bool.splits)
next
  case (Suc n)
  then show ?case
    by (auto simp: acquire_with_retry.simps[of R key opts tok "Suc n"] try_acquire_def Let_def split: sum.splits option.splits prod.splits bool.splits)
qed

lemma release_str: "k \<noteq> lk_key l \<Longrightarrow> ks_str (view (release R l s)) k = ks_str (view s) k"
  using release_view[of l s] by auto

lemma incr_and_expire_str:
  assumes "incr_and_expire R k sec s = (v, s')" "stored_number R k s = Some n"
  shows "v = n + 1" "ks_str (view s') = (ks_str (view s))(k \<mapsto> format_int (n + 1))"
  using assms by (auto simp: incr_and_expire_def stored_number_def str_int_def Let_def split: option.splits if_splits)

end

section \<open>One check\<close>

lemma check_keys [simp]:
  "code_key sc i \<noteq> attempts_key sc' i'" "attempts_key sc i \<noteq> code_key sc' i'"
  "code_key sc i \<noteq> verification_flow_lock_key sc' i'" "attempts_key sc i \<noteq> verification_flow_lock_key sc' i'"
  by (simp_all add: code_key_def attempts_key_def verification_flow_lock_key_def)

lemma script_reply: "fst (verify_and_count R a k m n s) = Some reply \<Longrightarrow> \<exists>v. ReplyInt v \<in> set reply"
  by (auto simp: verify_and_count_def case_prod_beta split: option.splits if_splits)

context go_redis_slice
begin

lemma locked_fails:
  assumes "ve_slice V = slice"
  shows "verify_locked V scene ident code s = (check_failed StatusNotFound, snd (roundtrip (ve_redis V)
      (verify_and_count (ve_redis V) (attempts_key scene ident) (code_key scene ident) (vc_max_attempts (ve_config V)) (vc_ttl (ve_config V) div 1000)) s))"
proof -
  let ?f = "verify_and_count (ve_redis V) (attempts_key scene ident) (code_key scene ident) (vc_max_attempts (ve_config V)) (vc_ttl (ve_config V) div 1000)"
  obtain q s1 where q: "roundtrip (ve_redis V) ?f s = (q, s1)" by (cases "roundtrip (ve_redis V) ?f s")
  have "slice reply = None" if "q = Inr (Some reply)" for reply
  proof -
    have "\<exists>x. fst (?f x) = Some reply"
      using q that by (auto simp: roundtrip_def case_prod_beta Let_def split: prod.splits verdict.splits intro: exI)
    then show ?thesis using script_reply number_refused by metis
  qed
  then show ?thesis using q assms by (simp add: verify_locked_def Let_def split: sum.split option.split)
qed

lemma check_fails:
  assumes "ve_slice V = slice"
  shows "fst (Verify V scene ident code s) = check_failed StatusNotFound"
  by (simp add: Verify_def locked_fails[OF assms] split: prod.split sum.split)

end

locale code_checks = redis_core "ve_redis V" view + go_redis_slice "ve_slice V"
  for V :: "'s verification_service" and view

context code_checks
begin

lemma count_keeps_code: "ks_str (view (snd (verify_and_count (ve_redis V) (attempts_key sc i) k m n s))) (code_key sc' i') = ks_str (view s) (code_key sc' i')"
  by (simp add: verify_and_count_def incr_and_expire_def Let_def split: option.split)

lemma check_keeps_code: "ks_str (view (snd (Verify V sc i code s))) (code_key sc' i') = ks_str (view s) (code_key sc' i')"
proof -
  let ?k = "verification_flow_lock_key sc i" and ?c = "code_key sc' i'"
  let ?f = "verify_and_count (ve_redis V) (attempts_key sc i) (code_key sc i) (vc_max_attempts (ve_config V)) (vc_ttl (ve_config V) div 1000)"
  obtain q s1 where q: "flow_lock V sc i s = (q, s1)" by (cases "flow_lock V sc i s")
  have a: "ks_str (view s1) ?c = ks_str (view s) ?c" using q acquire_str[where key = ?k and k = ?c] by (auto simp: flow_lock_def Let_def)
  show ?thesis
  proof (cases q)
    case (Inl e)
    then show ?thesis using q a by (simp add: Verify_def)
  next
    case (Inr l)
    have l: "lk_key l = ?k" using q Inr acquired_lock_key[where key = ?k] by (auto simp: flow_lock_def Let_def)
    obtain x s2 where x: "roundtrip (ve_redis V) ?f s1 = (x, s2)" by (cases "roundtrip (ve_redis V) ?f s1")
    then have "ks_str (view s2) ?c = ks_str (view s1) ?c"
    proof (cases rule: roundtrip_cases)
      case (ok y s3)
      then show ?thesis using count_keeps_code[of sc i "code_key sc i" _ _ s3 sc' i'] by (metis snd_conv)
    next
      case (lost e s3 y)
      then show ?thesis using count_keeps_code[of sc i "code_key sc i" _ _ s3 sc' i'] by (metis snd_conv)
    qed simp
    moreover have "ks_str (view (release (ve_redis V) l s2)) ?c = ks_str (view s2) ?c" by (rule release_str) (simp add: l)
    ultimately show ?thesis using q Inr x a by (simp add: Verify_def locked_fails[OF refl])
  qed
qed

end

section \<open>Property\<close>

text \<open>Checks one after the other, with their answers.\<close>

fun check_all :: "'s verification_service \<Rightarrow> string \<Rightarrow> string \<Rightarrow> string list \<Rightarrow> 's \<Rightarrow> check_result list \<times> 's" where
  "check_all V scene ident [] s = ([], s)"
| "check_all V scene ident (code # codes) s = (case Verify V scene ident code s of
      (r, s1) \<Rightarrow> (case check_all V scene ident codes s1 of (rs, s2) \<Rightarrow> (r # rs, s2)))"

text \<open>
  No code is ever accepted: whatever codes are tried, also the one that was sent, and
  whatever calls fail, every check answers that there is no code, never a mismatch or too
  many attempts, and leaves the code where it is.
\<close>

theorem no_code_is_accepted:
  assumes "redis_core (ve_redis V) view" "go_redis_slice (ve_slice V)" "check_all V scene ident codes s = (rs, s')"
  shows "rs = replicate (length codes) (check_failed StatusNotFound) \<and>
    ks_str (view s') (code_key scene ident) = ks_str (view s) (code_key scene ident)"
proof -
  have c: "code_checks V view" using assms(1,2) by (simp add: code_checks_def)
  show ?thesis using assms(3)
  proof (induction codes arbitrary: s rs)
    case (Cons code codes)
    obtain r s1 where r: "Verify V scene ident code s = (r, s1)" by (cases "Verify V scene ident code s")
    then show ?case using Cons go_redis_slice.check_fails[OF assms(2) refl, of scene ident code s]
        code_checks.check_keeps_code[OF c, of scene ident code s scene ident] by (auto split: prod.splits)
  qed simp
qed

definition mem_verification :: "mem redis \<Rightarrow> mem verification_service" where
  "mem_verification R = \<lparr>ve_redis = R, ve_config = \<lparr>vc_code_length = 6, vc_ttl = 300000, vc_max_attempts = 2, vc_send_interval = 60000,
     vc_daily_limit = 10, vc_operation_timeout = 0, vc_lock_ttl = 0, vc_lock_watchdog = 0, vc_lock_retry = 0\<rparr>, ve_retries = 1,
     ve_token = (\<lambda>k n. ''t''), ve_digit = (\<lambda>s. (Some 7, s)), ve_slice = cmd_string_slice\<rparr>"

interpretation mem_checks: code_checks "mem_verification up_redis" fst
  by (simp add: code_checks_def mem_verification_def up.redis_core_axioms go_slice.go_redis_slice_axioms)

definition sent_code :: mem where
  "sent_code = (ks_set_str (code_key ''LOGIN'' ''a@b.cn'') ''042137'' (Some 300000) empty_keyspace, [])"

theorem no_code_is_accepted_witness:
  "\<exists>s'. check_all (mem_verification up_redis) ''LOGIN'' ''a@b.cn'' [''042137'', ''111111''] sent_code =
     ([check_failed StatusNotFound, check_failed StatusNotFound], s') \<and>
     ks_str (fst s') (code_key ''LOGIN'' ''a@b.cn'') = Some ''042137''"
proof -
  obtain rs s' where r: "check_all (mem_verification up_redis) ''LOGIN'' ''a@b.cn'' [''042137'', ''111111''] sent_code = (rs, s')"
    by (cases "check_all (mem_verification up_redis) ''LOGIN'' ''a@b.cn'' [''042137'', ''111111''] sent_code")
  from no_code_is_accepted[OF mem_checks.redis_core_axioms mem_checks.go_redis_slice_axioms r] r show ?thesis
    by (simp add: sent_code_def)
qed

end
