(* ===== verification/Auth_Sessions.thy ===== *)
theory Auth_Sessions
  imports Auth_Account Auth_Checks
begin

text \<open>
  What every operation of the service keeps: a condition on the world that its calls of
  Redis and the database keep.
\<close>

section \<open>What the operations keep\<close>

text \<open>
  A condition on the world that survives what the operations are made of: calls of the
  database and of Redis on the keys of locks and codes, deletions, and the token of a
  new session.
\<close>

definition auth_key :: "string \<Rightarrow> bool" where
  "auth_key k = (has_prefix ''lock:'' k \<or> has_prefix ''vc:'' k)"

locale auth_keeps =
  fixes A :: "'s auth_service" and R :: "'s redis" and I :: "'s \<Rightarrow> bool"
  assumes one_redis: "au_redis A = Some R" "au_tokens A = R" "ve_redis (au_verification A) = R"
    and net_keeps: "I s \<Longrightarrow> I (snd (r_net R s))"
    and set_keeps: "auth_key k \<Longrightarrow> I s \<Longrightarrow> I (r_set R k v t s)"
    and del_keeps: "I s \<Longrightarrow> I (r_del R k s)"
    and incr_keeps: "auth_key k \<Longrightarrow> I s \<Longrightarrow> I (r_incr R k s)"
    and expire_keeps: "auth_key k \<Longrightarrow> I s \<Longrightarrow> I (r_expire R k n s)"
    and stmt_keeps_it: "I s \<Longrightarrow> I (snd (db_stmt (au_db A) s))"
    and commit_keeps_it: "I s \<Longrightarrow> I (snd (db_commit (au_db A) tabs s))"
    and digit_keeps: "I s \<Longrightarrow> I (snd (ve_digit (au_verification A) s))"
    and random_keeps: "I s \<Longrightarrow> I (snd (au_random A m s))"
    and hash_keeps: "I s \<Longrightarrow> I (snd (au_hash A p n s))"
    and uuid_keeps: "I s \<Longrightarrow> I (snd (jw_uuid (au_jwt A) s))"
    and new_token_keeps: "I s \<Longrightarrow> I s2 \<Longrightarrow> I (r_set R (refresh_key u (fst (jw_uuid (au_jwt A) s))) v t s2)"

context auth_keeps
begin

lemma rt_keeps: "(\<And>s. I s \<Longrightarrow> I (snd (f s))) \<Longrightarrow> I s \<Longrightarrow> I (snd (roundtrip R f s))"
  using net_keeps[of s] by (auto simp: roundtrip_def case_prod_beta split: verdict.split)

lemma rd_keeps: "I s \<Longrightarrow> I (snd (rd R f s))"
  unfolding rd_def by (rule rt_keeps) simp_all

lemma wr_keeps: "(\<And>s. I s \<Longrightarrow> I (f s)) \<Longrightarrow> I s \<Longrightarrow> I (snd (wr R f s))"
  unfolding wr_def by (rule rt_keeps) simp_all

lemma read_keeps: "I s \<Longrightarrow> I (snd (db_read (au_db A) f s))"
  using stmt_keeps_it[of s] by (auto simp: db_read_def split: prod.splits option.splits)

lemma write_keeps: "I s \<Longrightarrow> I (snd (db_write (au_db A) f s))"
  using commit_keeps_it[of s "snd (f (db_tables (au_db A) s))"]
  by (auto simp: db_write_def Let_def case_prod_beta split: option.splits)

lemma try_keeps: "auth_key k \<Longrightarrow> I s \<Longrightarrow> I (snd (try_acquire R k opts tok s))"
proof -
  assume k: "auth_key k" and s: "I s"
  have "I (snd (roundtrip R (set_nx R k tok (lo_ttl (normalized opts))) s))"
    by (rule rt_keeps[OF _ s]) (simp add: set_nx_def set_keeps[OF k])
  then show ?thesis by (auto simp: try_acquire_def Let_def split: prod.splits sum.splits bool.splits)
qed

lemma acquire_keeps: "auth_key k \<Longrightarrow> I s \<Longrightarrow> I (snd (acquire_with_retry R k opts tok n s))"
proof (induction n arbitrary: s)
  case 0
  then show ?case using try_keeps[of k s opts "tok 0"]
    by (subst acquire_with_retry.simps) (auto split: prod.splits sum.splits option.splits)
next
  case (Suc n)
  then show ?case using try_keeps[of k s opts "tok (Suc n)"]
    by (auto simp: acquire_with_retry.simps[of R k opts tok "Suc n"] split: prod.splits sum.splits option.splits)
qed

lemma release_keeps: "I s \<Longrightarrow> I (release R l s)"
  unfolding release_def by (rule rt_keeps) (auto simp: release_script_def del_keeps)

lemma auth_keys [simp]:
  "auth_key (verification_flow_lock_key sc i)" "auth_key (code_key sc i)" "auth_key (interval_key sc i)"
  "auth_key (daily_key sc i d)" "auth_key (attempts_key sc i)" "auth_key (refresh_session_lock_key u)"
  by (simp_all add: auth_key_def has_prefix_iff verification_flow_lock_key_def code_key_def interval_key_def
      daily_key_def attempts_key_def refresh_session_lock_key_def)

lemma incr_and_expire_keeps: "auth_key k \<Longrightarrow> I s \<Longrightarrow> I (snd (incr_and_expire R k n s))"
  by (simp add: incr_and_expire_def Let_def incr_keeps expire_keeps)

lemma generate_keeps: "I s \<Longrightarrow> I (snd (generate_code (au_verification A) n s))"
proof (induction n arbitrary: s)
  case (Suc n)
  then show ?case using digit_keeps[of s] by (auto split: prod.splits) (metis snd_conv)
qed simp

lemma flow_lock_keeps_it: "I s \<Longrightarrow> I (snd (flow_lock (au_verification A) sc i s))"
  by (simp add: flow_lock_def Let_def one_redis acquire_keeps)

lemma pair_keeps: "I (snd x) \<Longrightarrow> x = (a, b) \<Longrightarrow> I b"
  by simp

lemma put_code_keeps: "I s \<Longrightarrow> I (put_code (au_verification A) sc i c s)"
  by (simp add: put_code_def Let_def one_redis set_keeps)

lemma store_code_keeps: "I s \<Longrightarrow> I (snd (store_code (au_verification A) sc i d s))"
proof -
  assume x: "I s"
  let ?V = "au_verification A"
  obtain c x1 where c: "generate_code ?V (vc_code_length (ve_config ?V)) s = (c, x1)"
    by (cases "generate_code ?V (vc_code_length (ve_config ?V)) s")
  obtain q2 x2 where w: "wr R (put_code ?V sc i c) x1 = (q2, x2)" by (cases "wr R (put_code ?V sc i c) x1")
  obtain q3 x3 where r: "roundtrip R (incr_and_expire R (daily_key sc i d) 86400) x2 = (q3, x3)"
    by (cases "roundtrip R (incr_and_expire R (daily_key sc i d) 86400) x2")
  have "I x1" by (rule pair_keeps[OF generate_keeps[OF x] c])
  then have x2: "I x2" by (rule pair_keeps[OF wr_keeps w, rotated]) (rule put_code_keeps)
  then have x3: "I x3" by (rule pair_keeps[OF rt_keeps r, rotated]) (rule incr_and_expire_keeps[OF auth_keys(4)])
  then have "I (snd (wr R (r_del R (attempts_key sc i)) x3))" by (rule wr_keeps[rotated]) (rule del_keeps)
  then show ?thesis using x2 x3 by (cases q2; cases q3) (simp_all add: store_code_def Let_def one_redis c w r)
qed

lemma send_locked_keeps: "I s \<Longrightarrow> I (snd (send_locked (au_verification A) sc i d s))"
proof -
  assume s: "I s"
  obtain q s1 where q: "rd R (r_exists R (interval_key sc i)) s = (q, s1)" by (cases "rd R (r_exists R (interval_key sc i)) s")
  obtain p s2 where p: "rd R (r_get R (daily_key sc i d)) s1 = (p, s2)" by (cases "rd R (r_get R (daily_key sc i d)) s1")
  have s1: "I s1" by (rule pair_keeps[OF rd_keeps[OF s] q])
  then have s2: "I s2" by (rule pair_keeps[OF rd_keeps p])
  note st = store_code_keeps[OF s2, of sc i d]
  show ?thesis using s1 s2 st
    by (simp add: send_locked_def Let_def one_redis q p split: sum.split bool.split option.split)
qed

lemma send_keeps: "I s \<Longrightarrow> I (snd (SendCode (au_verification A) sc i d s))"
proof -
  assume s: "I s"
  obtain q s1 where q: "flow_lock (au_verification A) sc i s = (q, s1)" by (cases "flow_lock (au_verification A) sc i s")
  obtain p s2 where p: "send_locked (au_verification A) sc i d s1 = (p, s2)" by (cases "send_locked (au_verification A) sc i d s1")
  have s1: "I s1" by (rule pair_keeps[OF flow_lock_keeps_it[OF s] q])
  then have "I s2" by (rule pair_keeps[OF send_locked_keeps p])
  then show ?thesis using s1 by (cases q) (simp_all add: SendCode_def one_redis q p release_keeps)
qed

lemma count_keeps: "auth_key a \<Longrightarrow> I s \<Longrightarrow> I (snd (verify_and_count R a k m n s))"
  using incr_and_expire_keeps[of a s n] by (auto simp: verify_and_count_def case_prod_beta split: option.split)

lemma verify_keeps: "I s \<Longrightarrow> I (snd (Verify (au_verification A) sc i c s))"
proof -
  assume s: "I s"
  let ?V = "au_verification A"
  let ?f = "verify_and_count R (attempts_key sc i) (code_key sc i) (vc_max_attempts (ve_config ?V)) (vc_ttl (ve_config ?V) div 1000)"
  obtain q s1 where q: "flow_lock ?V sc i s = (q, s1)" by (cases "flow_lock ?V sc i s")
  obtain p s2 where p: "roundtrip R ?f s1 = (p, s2)" by (cases "roundtrip R ?f s1")
  have s1: "I s1" by (rule pair_keeps[OF flow_lock_keeps_it[OF s] q])
  then have s2: "I s2" by (rule pair_keeps[OF rt_keeps p, rotated]) (rule count_keeps[OF auth_keys(5)])
  have "I (drop_code ?V sc i x)" if "I x" for x using that by (simp add: drop_code_def Let_def one_redis del_keeps)
  then have s3: "I (snd (wr R (drop_code ?V sc i) s2))" using s2 by (rule wr_keeps)
  have "I (snd (verify_locked ?V sc i c s1))"
    using s2 s3 by (simp add: verify_locked_def Let_def one_redis p split: sum.split option.split)
  then show ?thesis using s1 by (cases q) (simp_all add: Verify_def q one_redis release_keeps case_prod_beta)
qed

lemma get_row_keeps: "I s \<Longrightarrow> I (snd (get_row (au_db A) P s))"
  using read_keeps[of s "find_row P"]
  by (cases "db_read (au_db A) (find_row P) s") (simp add: get_row_def split: sum.split option.split)

lemma find_keeps: "I s \<Longrightarrow> I (snd (FindUserByID (au_db A) u s))" "I s \<Longrightarrow> I (snd (FindUserByIdentifier (au_db A) k i s))"
  by (simp_all add: FindUserByID_def FindUserByIdentifier_def get_row_keeps)

lemma exists_keeps: "I s \<Longrightarrow> I (snd (IdentifierExists (au_db A) k i s))"
  using read_keeps[of s "\<lambda>t. length (filter (has_identifier k i) (ut_users t))"]
  by (cases "db_read (au_db A) (\<lambda>t. length (filter (has_identifier k i) (ut_users t))) s") (simp add: IdentifierExists_def split: sum.split)

lemma create_keeps: "I s \<Longrightarrow> I (snd (CreateUser (au_db A) u s))"
  using write_keeps[of s "insert_user u"]
  by (cases "db_write (au_db A) (insert_user u) s") (simp add: CreateUser_def split: sum.split option.split)

lemma log_keeps: "I s \<Longrightarrow> I (record_login_log A u i ch st c s)"
  by (simp add: record_login_log_def RecordLoginLog_def write_keeps)

lemma nickname_keeps: "I s \<Longrightarrow> I (snd (generate_nickname A s))"
proof -
  have "I (snd (nickname_suffix A n s))" if "I s" for n s
    using that
  proof (induction n arbitrary: s)
    case (Suc n)
    then show ?case using random_keeps[of s 36] by (simp add: case_prod_beta)
  qed simp
  then show "I s \<Longrightarrow> I (snd (generate_nickname A s))" by (simp add: generate_nickname_def case_prod_beta)
qed

lemma hash_password_keeps: "I s \<Longrightarrow> I (snd (hash_password A p s))"
  using hash_keeps[of s p "ac_bcrypt_cost (au_cfg A)"]
  by (cases "au_hash A p (ac_bcrypt_cost (au_cfg A)) s") (simp add: hash_password_def split: option.split sum.split)

lemma open_session_keeps: "I s \<Longrightarrow> I (snd (open_session A u s))"
proof -
  assume s: "I s"
  let ?J = "au_jwt A"
  obtain q s1 where q: "IssueTokenPair ?J u s = (q, s1)" by (cases "IssueTokenPair ?J u s")
  have s1: "I s1" and tid: "tp_refresh_id p = fst (jw_uuid ?J s)" if "q = Inr p" for p
    using q that uuid_keeps[OF uuid_keeps[OF s]] by (auto simp: IssueTokenPair_def Let_def case_prod_beta split: sum.splits)
  have e: "I s1" using q uuid_keeps[OF uuid_keeps[OF s]] by (auto simp: IssueTokenPair_def Let_def case_prod_beta split: sum.splits)
  show ?thesis
  proof (cases q)
    case (Inl err)
    then show ?thesis using q e by (simp add: open_session_def)
  next
    case (Inr p)
    have "I (snd (StoreToken R (us_id u) (tp_refresh_id p) t s1))" for t
      unfolding StoreToken_def by (rule wr_keeps[OF _ e]) (simp add: tid[OF Inr] new_token_keeps[OF s])
    then show ?thesis using q Inr by (simp add: open_session_def one_redis case_prod_beta split: sum.split)
  qed
qed

lemma revoke_keeps: "I s \<Longrightarrow> I (snd (RevokeToken R u t s))"
  unfolding RevokeToken_def by (rule wr_keeps[OF del_keeps])

lemma revoke_all_keeps: "I s \<Longrightarrow> I (snd (RevokeAll R u s))"
proof -
  have d: "I (delete_keys R ks s)" if "I s" for ks s
    using that by (induction ks arbitrary: s) (simp_all add: delete_keys_def wr_keeps[OF del_keeps])
  have "I (snd (revoke_pages R pages s))" if "I s" for pages s
    using that
  proof (induction pages arbitrary: s)
    case (Cons ks pages)
    then show ?case using rd_keeps[of s "\<lambda>_. ()"] d by (cases "rd R (\<lambda>_. ()) s") (simp split: sum.split)
  qed simp
  then show "I s \<Longrightarrow> I (snd (RevokeAll R u s))" by (simp add: RevokeAll_def)
qed

lemma session_lock_keeps:
  assumes "I s" "acquire_refresh_session_lock A u s = (q, s')"
  shows "I s'" and "q = Inr unlock \<Longrightarrow> I x \<Longrightarrow> I (unlock x)"
proof -
  let ?k = "refresh_session_lock_key u" and ?o = "refresh_session_lock_options (Some (au_cfg A))"
  obtain l s1 where l: "acquire_with_retry R ?k ?o (au_lock_token A ?k) (au_retries A) s = (l, s1)"
    by (cases "acquire_with_retry R ?k ?o (au_lock_token A ?k) (au_retries A) s")
  have "I s1" by (rule pair_keeps[OF acquire_keeps[OF auth_keys(6) assms(1)] l])
  then show "I s'" "q = Inr unlock \<Longrightarrow> I x \<Longrightarrow> I (unlock x)"
    using assms(2) l by (auto simp: acquire_refresh_session_lock_def one_redis release_keeps split: sum.splits)
qed

lemma send_code_keeps: "I s \<Longrightarrow> I (snd (AuthSendCode A k i sc s))"
proof -
  assume s: "I s"
  let ?i = "normalize_identifier (au_unicode A) k i"
  obtain b s1 where b: "IdentifierExists (au_db A) k ?i s = (b, s1)" by (cases "IdentifierExists (au_db A) k ?i s")
  obtain q s2 where q: "SendCode (au_verification A) sc ?i (au_day A s1) s1 = (q, s2)"
    by (cases "SendCode (au_verification A) sc ?i (au_day A s1) s1")
  have s1: "I s1" by (rule pair_keeps[OF exists_keeps[OF s] b])
  then have "I s2" by (rule pair_keeps[OF send_keeps q])
  then show ?thesis using s s1 by (simp add: AuthSendCode_def Let_def b q split: option.split sum.split)
qed

lemma register_keeps: "I s \<Longrightarrow> I (snd (Register A req c s))"
proof -
  assume s: "I s"
  let ?i = "normalize_identifier (au_unicode A) (rg_kind req) (rg_identifier req)"
  obtain b s1 where b: "IdentifierExists (au_db A) (rg_kind req) ?i s = (b, s1)" by (cases "IdentifierExists (au_db A) (rg_kind req) ?i s")
  obtain v s2 where v: "Verify (au_verification A) ''REGISTER'' ?i (rg_code req) s1 = (v, s2)"
    by (cases "Verify (au_verification A) ''REGISTER'' ?i (rg_code req) s1")
  define hp where "hp = (if rg_password req = [] then (Inr None, s2)
            else case hash_password A (rg_password req) s2 of (Inl e, s3) \<Rightarrow> (Inl e, s3) | (Inr h, s3) \<Rightarrow> (Inr (Some h), s3))"
  obtain h s3 where h: "hp = (h, s3)" by (cases hp)
  obtain nick s4 where n: "generate_nickname A s3 = (nick, s4)" by (cases "generate_nickname A s3")
  have s1: "I s1" by (rule pair_keeps[OF exists_keeps[OF s] b])
  then have s2: "I s2" by (rule pair_keeps[OF verify_keeps v])
  have s3: "I s3" using s2 hash_password_keeps[OF s2, of "rg_password req"] h
    by (cases "hash_password A (rg_password req) s2") (auto simp: hp_def split: if_splits sum.splits)
  then have s4: "I s4" by (rule pair_keeps[OF nickname_keeps n])
  have session: "I (snd (case open_session A u x of (Inl e, s6) \<Rightarrow> (Inl e, s6)
      | (Inr p, s6) \<Rightarrow> (Inr (answer_session u p), record_login_log A (us_id u) ?i ''REGISTER'' ''SUCCESS'' c s6)))" if "I x" for u x
    using open_session_keeps[OF that, of u] log_keeps by (cases "open_session A u x") (simp split: sum.split)
  have create: "I (snd (case CreateUser (au_db A) (new_user (rg_kind req) ?i nick hh) s4 of
       (Inl e, s5) \<Rightarrow> (Inl e5, s5)
     | (Inr u, s5) \<Rightarrow> (case open_session A u s5 of (Inl e, s6) \<Rightarrow> (Inl e, s6)
      | (Inr p, s6) \<Rightarrow> (Inr (answer_session u p), record_login_log A (us_id u) ?i ''REGISTER'' ''SUCCESS'' c s6))))" for hh e5
    using create_keeps[OF s4, of "new_user (rg_kind req) ?i nick hh"] session
    by (cases "CreateUser (au_db A) (new_user (rg_kind req) ?i nick hh) s4") (simp split: sum.split)
  show ?thesis
    unfolding Register_def Let_def b v prod.case hp_def[symmetric] h n
    using s s1 s2 s3 create by (simp split: option.split sum.split bool.split)
qed

lemma login_keeps: "I s \<Longrightarrow> I (snd (Login A req c s))"
proof -
  assume s: "I s"
  let ?i = "normalize_identifier (au_unicode A) (lr_kind req) (lr_identifier req)"
  obtain q s1 where q: "FindUserByIdentifier (au_db A) (lr_kind req) ?i s = (q, s1)"
    by (cases "FindUserByIdentifier (au_db A) (lr_kind req) ?i s")
  have s1: "I s1" by (rule pair_keeps[OF find_keeps(2)[OF s] q])
  have check: "I (snd (check_login A req ?i u s1))" for u
    using s1 verify_keeps[OF s1, of "''LOGIN''" ?i "lr_code req"] by (simp add: check_login_def case_prod_beta split: option.split)
  have session: "I (snd (case open_session A u x of (Inl e, s6) \<Rightarrow> (Inl e, s6)
      | (Inr p, s6) \<Rightarrow> (Inr (answer_session u p), record_login_log A (us_id u) ?i ch ''SUCCESS'' c s6)))" if "I x" for u x ch
    using open_session_keeps[OF that, of u] log_keeps by (cases "open_session A u x") (simp split: sum.split)
  have "I (snd (case check_login A req ?i u s1 of
       ((channel, Some e), s2) \<Rightarrow> (Inl e, record_login_log A (us_id u) ?i channel ''FAILED'' c s2)
     | ((channel, None), s2) \<Rightarrow> (case open_session A u s2 of
       (Inl e, s3) \<Rightarrow> (Inl e, s3)
     | (Inr p, s3) \<Rightarrow> (Inr (answer_session u p), record_login_log A (us_id u) ?i channel ''SUCCESS'' c s3))))" for u
  proof -
    obtain ch e s2 where e: "check_login A req ?i u s1 = ((ch, e), s2)" by (metis surj_pair)
    have "I s2" by (rule pair_keeps[OF check e])
    then show ?thesis using e session[of s2 u ch] log_keeps by (cases e) simp_all
  qed
  then show ?thesis
    unfolding Login_def Let_def q prod.case using s s1 by (simp split: option.split sum.split)
qed

lemma rotate_keeps: "I s \<Longrightarrow> I (snd (rotate A c s))"
proof -
  assume s: "I s"
  obtain b s1 where b: "IsTokenValid R (cl_uid c) (cl_id c) s = (b, s1)" by (cases "IsTokenValid R (cl_uid c) (cl_id c) s")
  obtain q s2 where q: "RevokeToken R (cl_uid c) (cl_id c) s1 = (q, s2)" by (cases "RevokeToken R (cl_uid c) (cl_id c) s1")
  obtain f s3 where f: "FindUserByID (au_db A) (cl_uid c) s2 = (f, s3)" by (cases "FindUserByID (au_db A) (cl_uid c) s2")
  have s1: "I s1" using rd_keeps[OF s, of "r_exists R (refresh_key (cl_uid c) (cl_id c))"] b by (auto simp: IsTokenValid_def case_prod_beta)
  then have s2: "I s2" by (rule pair_keeps[OF revoke_keeps q])
  then have s3: "I s3" by (rule pair_keeps[OF find_keeps(1) f])
  have "I (snd (case open_session A u s3 of (Inl e, s4) \<Rightarrow> (Inl e, s4) | (Inr p, s4) \<Rightarrow> (Inr (answer_session u p), s4)))" for u
    using open_session_keeps[OF s3, of u] by (cases "open_session A u s3") (simp split: sum.split)
  then show ?thesis unfolding rotate_def one_redis b prod.case q f using s1 s2 s3 by (simp split: bool.split sum.split)
qed

lemma refresh_keeps: "I s \<Longrightarrow> I (snd (Refresh A t s))"
proof -
  assume s: "I s"
  have "I (snd (case acquire_refresh_session_lock A (cl_uid c) s of (Inl e, s1) \<Rightarrow> (Inl e, s1)
      | (Inr unlock, s1) \<Rightarrow> (case rotate A c s1 of (r, s2) \<Rightarrow> (r, unlock s2))))" for c
  proof -
    obtain q s1 where q: "acquire_refresh_session_lock A (cl_uid c) s = (q, s1)" by (cases "acquire_refresh_session_lock A (cl_uid c) s")
    note k = session_lock_keeps[OF s q]
    show ?thesis using k rotate_keeps[OF k(1), of c] q by (cases q) (auto simp: case_prod_beta)
  qed
  then show ?thesis unfolding Refresh_def using s by (simp split: option.split)
qed

lemma logout_keeps: "I s \<Longrightarrow> I (Logout A t s)"
  by (simp add: Logout_def one_redis revoke_keeps split: option.split)

lemma replace_keeps: "I s \<Longrightarrow> I (snd (replace_password A u h s))"
proof -
  assume s: "I s"
  obtain q s1 where q: "UpdatePassword (au_db A) u h s = (q, s1)" by (cases "UpdatePassword (au_db A) u h s")
  have s1: "I s1" by (rule pair_keeps[OF write_keeps[OF s] q[unfolded UpdatePassword_def]])
  then show ?thesis using revoke_all_keeps[OF s1, of u] q
    by (simp add: replace_password_def one_redis case_prod_beta split: sum.split)
qed

lemma reset_keeps: "I s \<Longrightarrow> I (snd (ResetPassword A req s))"
proof -
  assume s: "I s"
  let ?i = "normalize_identifier (au_unicode A) (rq_kind req) (rq_identifier req)"
  obtain q s1 where q: "FindUserByIdentifier (au_db A) (rq_kind req) ?i s = (q, s1)"
    by (cases "FindUserByIdentifier (au_db A) (rq_kind req) ?i s")
  obtain v s2 where v: "Verify (au_verification A) ''RESET_PASSWORD'' ?i (rq_code req) s1 = (v, s2)"
    by (cases "Verify (au_verification A) ''RESET_PASSWORD'' ?i (rq_code req) s1")
  obtain h s3 where h: "hash_password A (rq_new_password req) s2 = (h, s3)" by (cases "hash_password A (rq_new_password req) s2")
  have s1: "I s1" by (rule pair_keeps[OF find_keeps(2)[OF s] q])
  then have s2: "I s2" by (rule pair_keeps[OF verify_keeps v])
  then have s3: "I s3" by (rule pair_keeps[OF hash_password_keeps h])
  have lock: "I (snd (case acquire_refresh_session_lock A u s3 of (Inl e, s4) \<Rightarrow> (Inl e, s4)
      | (Inr unlock, s4) \<Rightarrow> (case replace_password A u hh s4 of (r, s5) \<Rightarrow> (r, unlock s5))))" for u hh
  proof -
    obtain l s4 where l: "acquire_refresh_session_lock A u s3 = (l, s4)" by (cases "acquire_refresh_session_lock A u s3")
    note k = session_lock_keeps[OF s3 l]
    show ?thesis using k replace_keeps[OF k(1), of u hh] l by (cases l) (auto simp: case_prod_beta)
  qed
  show ?thesis unfolding ResetPassword_def Let_def q prod.case v h using s s1 s2 s3 lock by (simp split: option.split sum.split)
qed

end

end
