(* ===== verification/Auth_Tokens.thy ===== *)
theory Auth_Tokens
  imports Auth_Sessions
begin

text \<open>
  The worlds of the sessions: the ids of tokens handed out are remembered in
  \<open>used_ids\<close>, so a new one is none of them. On them a refresh token is used up by the first
  refresh, and by a logout.
\<close>

locale auth_world = redis_core R view + redis_frame R used_ids
  for A :: "'s auth_service" and R :: "'s redis" and view :: "'s \<Rightarrow> keyspace" and used_ids :: "'s \<Rightarrow> string set" +
  assumes shared_redis: "au_redis A = Some R" "au_tokens A = R" "ve_redis (au_verification A) = R"
    and frame_incr [simp]: "used_ids (r_incr R k s) = used_ids s"
    and stmt_world: "view (snd (db_stmt (au_db A) s)) = view s \<and> used_ids (snd (db_stmt (au_db A) s)) = used_ids s"
    and commit_world: "view (snd (db_commit (au_db A) tabs s)) = view s \<and> used_ids (snd (db_commit (au_db A) tabs s)) = used_ids s"
    and digit_world: "view (snd (ve_digit (au_verification A) s)) = view s \<and> used_ids (snd (ve_digit (au_verification A) s)) = used_ids s"
    and random_world: "view (snd (au_random A m s)) = view s \<and> used_ids (snd (au_random A m s)) = used_ids s"
    and hash_world: "view (snd (au_hash A p n s)) = view s \<and> used_ids (snd (au_hash A p n s)) = used_ids s"
    and uuid_world: "jw_uuid (au_jwt A) s = (tid, s1) \<Longrightarrow> tid \<notin> used_ids s \<and> used_ids s \<subseteq> used_ids s1 \<and> view s1 = view s"

section \<open>Conditions the operations keep\<close>

lemma auth_key_not_refresh: "auth_key k \<Longrightarrow> k \<noteq> refresh_key u t"
  by (auto simp: auth_key_def has_prefix_iff refresh_key_def)

lemma refresh_not_auth [simp]: "\<not> auth_key (refresh_key u t)"
  using auth_key_not_refresh by blast

lemma refresh_key_inj: "refresh_key u t = refresh_key v t' \<longleftrightarrow> u = v \<and> t = t'"
proof
  assume "refresh_key u t = refresh_key v t'"
  then have e: "format_uint u @ CHR '':'' # t = format_uint v @ CHR '':'' # t'" by (simp add: refresh_key_def)
  have "str_cut CHR '':'' (format_uint u @ CHR '':'' # t) = Some (format_uint u, t)"
    "str_cut CHR '':'' (format_uint v @ CHR '':'' # t') = Some (format_uint v, t')" by (rule cut_append; simp)+
  then have "Some (format_uint u, t) = Some (format_uint v, t')" unfolding e by (rule trans[OF sym])
  then show "u = v \<and> t = t'" by (simp only: option.inject prod.inject format_uint_inj)
qed simp

lemma exists_after [simp]:
  "ks_exists k (ks_set_str k' v t ks) = (k = k' \<or> ks_exists k ks)"
  "ks_exists k (ks_del k' ks) = (k \<noteq> k' \<and> ks_exists k ks)"
  "ks_exists k (ks_incr k' ks) = (k = k' \<or> ks_exists k ks)"
  "ks_exists k (ks_expire k' n ks) = ks_exists k ks"
  by (auto simp: ks_exists_def)

definition token_known :: "('s \<Rightarrow> string set) \<Rightarrow> string \<Rightarrow> 's \<Rightarrow> bool" where
  "token_known used_ids tid s = (tid \<in> used_ids s)"

definition token_spent :: "('s \<Rightarrow> keyspace) \<Rightarrow> ('s \<Rightarrow> string set) \<Rightarrow> uint64 \<Rightarrow> string \<Rightarrow> 's \<Rightarrow> bool" where
  "token_spent view used_ids u tid s = (tid \<in> used_ids s \<and> \<not> ks_exists (refresh_key u tid) (view s))"

context auth_world
begin

lemma uuid_keeps_world [simp]:
  "view (snd (jw_uuid (au_jwt A) s)) = view s" "tid \<in> used_ids s \<Longrightarrow> tid \<in> used_ids (snd (jw_uuid (au_jwt A) s))"
  "fst (jw_uuid (au_jwt A) s) \<notin> used_ids s"
  using uuid_world[OF surjective_pairing, of s] by auto

lemma known_kept: "auth_keeps A R (token_known used_ids tid)"
  by unfold_locales
    (use stmt_world commit_world digit_world random_world hash_world  in
      \<open>auto simp: token_known_def shared_redis\<close>)

lemma spent_kept: "auth_keeps A R (token_spent view used_ids u tid)"
proof unfold_locales
  fix s s2 v t u'
  assume "token_spent view used_ids u tid s" "token_spent view used_ids u tid s2"
  moreover have "fst (jw_uuid (au_jwt A) s) \<notin> used_ids s" by simp
  ultimately show "token_spent view used_ids u tid (r_set R (refresh_key u' (fst (jw_uuid (au_jwt A) s))) v t s2)"
    by (auto simp: token_spent_def refresh_key_inj)
qed (use stmt_world commit_world digit_world random_world hash_world in
      \<open>auto simp: token_spent_def shared_redis\<close>)

end

sublocale auth_world \<subseteq> known: auth_keeps A R "token_known used_ids tid" for tid by (rule known_kept)
sublocale auth_world \<subseteq> spent: auth_keeps A R "token_spent view used_ids u tid" for u tid by (rule spent_kept)

section \<open>One refresh\<close>

context auth_world
begin

lemma rotate_spends:
  assumes "token_known used_ids (cl_id c) s" "rotate A c s = (Inr x, s')"
  shows "token_spent view used_ids (cl_uid c) (cl_id c) s'"
proof -
  obtain b s1 where b: "IsTokenValid R (cl_uid c) (cl_id c) s = (b, s1)" by (cases "IsTokenValid R (cl_uid c) (cl_id c) s")
  obtain q s2 where q: "RevokeToken R (cl_uid c) (cl_id c) s1 = (q, s2)" by (cases "RevokeToken R (cl_uid c) (cl_id c) s1")
  obtain f s3 where f: "FindUserByID (au_db A) (cl_uid c) s2 = (f, s3)" by (cases "FindUserByID (au_db A) (cl_uid c) s2")
  obtain u where u: "q = Inr ()" "f = Inr u" and o: "(case open_session A u s3 of (Inl e, s4) \<Rightarrow> (Inl e, s4) | (Inr p, s4) \<Rightarrow> (Inr (answer_session u p), s4)) = (Inr x, s')"
    using assms(2) by (simp add: rotate_def shared_redis b q f split: bool.splits sum.splits)
  have "token_known used_ids (cl_id c) s1"
    using known.rd_keeps[OF assms(1), of "r_exists R (refresh_key (cl_uid c) (cl_id c))"] b by (auto simp: IsTokenValid_def case_prod_beta)
  then have k: "token_known used_ids (cl_id c) s2" by (rule known.pair_keeps[OF known.revoke_keeps q])
  have "\<not> ks_exists (refresh_key (cl_uid c) (cl_id c)) (view s2)"
    using q u(1) by (auto simp: RevokeToken_def dest!: wr_view)
  then have "token_spent view used_ids (cl_uid c) (cl_id c) s2" using k by (simp add: token_spent_def token_known_def)
  then have "token_spent view used_ids (cl_uid c) (cl_id c) s3" by (rule spent.pair_keeps[OF spent.find_keeps(1) f])
  then have "token_spent view used_ids (cl_uid c) (cl_id c) (snd (open_session A u s3))" by (rule spent.open_session_keeps)
  with o show ?thesis by (cases "open_session A u s3") (auto split: sum.splits)
qed

lemma rotate_refused: "token_spent view used_ids (cl_uid c) (cl_id c) s \<Longrightarrow> \<not> is_ok (fst (rotate A c s))"
proof -
  assume s: "token_spent view used_ids (cl_uid c) (cl_id c) s"
  obtain q s1 where q: "rd R (r_exists R (refresh_key (cl_uid c) (cl_id c))) s = (q, s1)" by (cases "rd R (r_exists R (refresh_key (cl_uid c) (cl_id c))) s")
  then have "q \<noteq> Inr True" using s by (auto simp: token_spent_def dest!: rd_Inr)
  then show ?thesis using q by (simp add: rotate_def shared_redis IsTokenValid_def)
qed

lemma refresh_once_step:
  assumes "token_known used_ids (cl_id c) s" "Refresh A t s = (r, s')" "\<And>c'. ValidateToken (au_jwt A) t s = Some c' \<Longrightarrow> c' = c"
  shows "is_ok r \<Longrightarrow> token_spent view used_ids (cl_uid c) (cl_id c) s'"
    and "token_spent view used_ids (cl_uid c) (cl_id c) s \<Longrightarrow> \<not> is_ok r"
proof -
  obtain l s1 where l: "acquire_refresh_session_lock A (cl_uid c) s = (l, s1)" by (cases "acquire_refresh_session_lock A (cl_uid c) s")
  obtain r2 s2 where r2: "rotate A c s1 = (r2, s2)" by (cases "rotate A c s1")
  have e: "r = r2 \<and> (\<exists>unlock. l = Inr unlock \<and> s' = unlock s2)" if "is_ok r"
    using assms(2,3) that l r2 by (auto simp: Refresh_def split: option.splits if_splits sum.splits)
  show "token_spent view used_ids (cl_uid c) (cl_id c) s'" if ok: "is_ok r"
  proof -
    obtain unlock x where x: "l = Inr unlock" "s' = unlock s2" "r2 = Inr x" using e[OF ok] ok by auto
    have "token_known used_ids (cl_id c) s1" by (rule known.session_lock_keeps(1)[OF assms(1) l])
    then have "token_spent view used_ids (cl_uid c) (cl_id c) s2" by (rule rotate_spends) (simp add: r2 x)
    moreover have "token_spent view used_ids (cl_uid c) (cl_id c) (unlock y)" if "token_spent view used_ids (cl_uid c) (cl_id c) y" for y
      using that l x(1) by (auto simp: acquire_refresh_session_lock_def shared_redis spent.release_keeps split: sum.splits prod.splits)
    ultimately show ?thesis using x by simp
  qed
  assume s: "token_spent view used_ids (cl_uid c) (cl_id c) s"
  then have "token_spent view used_ids (cl_uid c) (cl_id c) s1" by (rule spent.session_lock_keeps(1)[OF _ l])
  then show "\<not> is_ok r" using rotate_refused[of c s1] r2 e by auto
qed

end

context auth_world
begin

lemma refresh_refused:
  assumes "token_spent view used_ids (cl_uid c) (cl_id c) s" "ValidateToken (au_jwt A) t s = Some c"
  shows "\<not> is_ok (fst (Refresh A t s))"
proof -
  obtain l s1 where l: "acquire_refresh_session_lock A (cl_uid c) s = (l, s1)" by (cases "acquire_refresh_session_lock A (cl_uid c) s")
  have "token_spent view used_ids (cl_uid c) (cl_id c) s1" by (rule spent.session_lock_keeps(1)[OF assms(1) l])
  from rotate_refused[OF this] show ?thesis using assms(2) l by (auto simp: Refresh_def split: sum.splits prod.splits)
qed

end

text \<open>
  Any operations of the service, by any users, with the number of refreshes that the
  token \<open>t\<close> bought; meanwhile keys may expire, and nobody else makes tokens.
\<close>

inductive session_run :: "'s auth_service \<Rightarrow> ('s \<Rightarrow> keyspace) \<Rightarrow> ('s \<Rightarrow> string set) \<Rightarrow> string \<Rightarrow> 's \<Rightarrow> nat \<Rightarrow> 's \<Rightarrow> bool"
  for A view used_ids t s0 where
  session_start: "session_run A view used_ids t s0 0 s0"
| session_refresh: "session_run A view used_ids t s0 n s \<Longrightarrow> Refresh A t s = (r, s') \<Longrightarrow>
    session_run A view used_ids t s0 (if is_ok r then Suc n else n) s'"
| session_other: "session_run A view used_ids t s0 n s \<Longrightarrow> t2 \<noteq> t \<Longrightarrow> session_run A view used_ids t s0 n (snd (Refresh A t2 s))"
| session_send: "session_run A view used_ids t s0 n s \<Longrightarrow> session_run A view used_ids t s0 n (snd (AuthSendCode A k i sc s))"
| session_register: "session_run A view used_ids t s0 n s \<Longrightarrow> session_run A view used_ids t s0 n (snd (Register A req ci s))"
| session_login: "session_run A view used_ids t s0 n s \<Longrightarrow> session_run A view used_ids t s0 n (snd (Login A lreq ci s))"
| session_logout: "session_run A view used_ids t s0 n s \<Longrightarrow> session_run A view used_ids t s0 n (Logout A t2 s)"
| session_reset: "session_run A view used_ids t s0 n s \<Longrightarrow> session_run A view used_ids t s0 n (snd (ResetPassword A rreq s))"
| session_else: "session_run A view used_ids t s0 n s \<Longrightarrow> used_ids s \<subseteq> used_ids s' \<Longrightarrow>
    (\<And>u tid. ks_exists (refresh_key u tid) (view s') \<Longrightarrow> ks_exists (refresh_key u tid) (view s)) \<Longrightarrow> session_run A view used_ids t s0 n s'"

context auth_world
begin

lemma session_run_once:
  assumes "session_run A view used_ids t s0 n s" "token_known used_ids (cl_id c) s0"
    and "\<And>s c'. ValidateToken (au_jwt A) t s = Some c' \<Longrightarrow> c' = c"
  shows "token_known used_ids (cl_id c) s \<and> (n = 0 \<or> n = 1 \<and> token_spent view used_ids (cl_uid c) (cl_id c) s)"
  using assms(1)
proof (induction rule: session_run.induct)
  case session_start
  then show ?case using assms(2) by simp
next
  case (session_refresh n s r s')
  note st = refresh_once_step[OF conjunct1[OF session_refresh.IH] session_refresh.hyps(2) assms(3)]
  have "token_known used_ids (cl_id c) s'"
    by (rule known.pair_keeps[OF known.refresh_keeps session_refresh.hyps(2)]) (rule conjunct1[OF session_refresh.IH])
  moreover have "n = 1 \<Longrightarrow> token_spent view used_ids (cl_uid c) (cl_id c) s'"
    by (rule spent.pair_keeps[OF spent.refresh_keeps session_refresh.hyps(2)]) (use session_refresh.IH in simp)
  ultimately show ?case using st session_refresh.IH by auto
next
  case (session_other n s t2)
  then show ?case using known.refresh_keeps spent.refresh_keeps by blast
next
  case (session_send n s k i sc)
  then show ?case using known.send_code_keeps spent.send_code_keeps by blast
next
  case (session_register n s req ci)
  then show ?case using known.register_keeps spent.register_keeps by blast
next
  case (session_login n s lreq ci)
  then show ?case using known.login_keeps spent.login_keeps by blast
next
  case (session_logout n s t2)
  then show ?case using known.logout_keeps spent.logout_keeps by blast
next
  case (session_reset n s rreq)
  then show ?case using known.reset_keeps spent.reset_keeps by blast
next
  case (session_else n s s')
  then show ?case by (auto simp: token_known_def token_spent_def)
qed

end

section \<open>A logout\<close>

context auth_world
begin

lemma logout_spends:
  assumes "redis_up R view" "ValidateToken (au_jwt A) t s = Some c" "cl_kind c = ''refresh''" "cl_id c \<in> used_ids s"
  shows "token_spent view used_ids (cl_uid c) (cl_id c) (Logout A t s)"
proof -
  obtain s1 where s1: "wr R (r_del R (refresh_key (cl_uid c) (cl_id c))) s = (Inr (), r_del R (refresh_key (cl_uid c) (cl_id c)) s1)"
    by (rule redis_up.wr_upE[OF assms(1)])
  have e: "Logout A t s = r_del R (refresh_key (cl_uid c) (cl_id c)) s1"
    using assms(2,3) s1 by (simp add: Logout_def shared_redis RevokeToken_def)
  have "token_known used_ids (cl_id c) (Logout A t s)" by (rule known.logout_keeps) (simp add: token_known_def assms(4))
  then show ?thesis by (simp add: token_spent_def token_known_def e)
qed

end

end
