(* ===== verification/Auth_Props.thy ===== *)
theory Auth_Props
  imports Auth_Tokens
begin

text \<open>
  The sessions of a service in memory, and the properties: one refresh per token, a logout
  that ends the session but not the requests that carry its token, and requests with a
  code, which are all refused.
\<close>

section \<open>A service in memory\<close>

type_synonym auth_mem = "(mem \<times> nat) \<times> user_tables store"

definition auth_redis :: "auth_mem redis" where
  "auth_redis = on_first (on_first up_redis)"

text \<open>A token is its kind, its user and its id; it never expires.\<close>

definition plain_sign :: "jwt_claims \<Rightarrow> string" where
  "plain_sign c = cl_kind c @ CHR '':'' # format_uint (cl_uid c) @ CHR '':'' # cl_id c"

definition plain_parse :: "string \<Rightarrow> io_error + (jwt_claims \<times> bool)" where
  "plain_parse t = (case str_cut CHR '':'' t of None \<Rightarrow> Inl (IoError ''token'') | Some (kind, rest) \<Rightarrow>
     (case str_cut CHR '':'' rest of None \<Rightarrow> Inl (IoError ''token'') | Some (u, tid) \<Rightarrow>
       (case parse_uint u of None \<Rightarrow> Inl (IoError ''token'') | Some n \<Rightarrow>
          Inr (\<lparr>cl_issuer = [], cl_issued_at = 0, cl_expires_at = 0, cl_subject = u, cl_id = tid, cl_uid = n, cl_kind = kind, cl_nickname = []\<rparr>, True))))"

definition mem_jwt :: "auth_mem jwt_service" where
  "mem_jwt = \<lparr>jw_issuer = ''zhiguang'', jw_access_ttl = 900, jw_refresh_ttl = 604800, jw_sign = (\<lambda>c s. Inr (plain_sign c)),
     jw_parse = (\<lambda>accepts t s. if accepts ''RS256'' then plain_parse t else Inl (IoError ''alg'')),
     jw_uuid = (\<lambda>s. (format_nat (snd (fst s)), ((fst (fst s), Suc (snd (fst s))), snd s))), jw_now = (\<lambda>s. 0)\<rparr>"

definition mem_unicode :: unicode where
  "mem_unicode = \<lparr>un_lower = (\<lambda>t. t), un_letter = (\<lambda>t. False), un_digit = (\<lambda>t. False)\<rparr>"

definition mem_auth :: "auth_mem auth_service" where
  "mem_auth = \<lparr>au_db = stored_db, au_redis = Some auth_redis, au_tokens = auth_redis,
     au_verification = \<lparr>ve_redis = auth_redis, ve_config = \<lparr>vc_code_length = 6, vc_ttl = 300000, vc_max_attempts = 5,
       vc_send_interval = 60000, vc_daily_limit = 10, vc_operation_timeout = 0, vc_lock_ttl = 0, vc_lock_watchdog = 0, vc_lock_retry = 0\<rparr>,
       ve_retries = 1, ve_token = (\<lambda>k n. ''t''), ve_digit = (\<lambda>s. (Some 7, s)), ve_slice = cmd_string_slice\<rparr>,
     au_jwt = mem_jwt, au_cfg = \<lparr>ac_min_length = 8, ac_bcrypt_cost = 12, ac_refresh_lock_ttl = 0, ac_refresh_lock_watchdog = 0,
       ac_refresh_lock_retry = 0, ac_refresh_timeout = 0\<rparr>, au_retries = 1, au_lock_token = (\<lambda>k n. ''t''),
     au_unicode = mem_unicode,
     au_hash = (\<lambda>p n s. (Inr (''h'' @ p), s)), au_matches = (\<lambda>h p. h = ''h'' @ p), au_random = (\<lambda>n s. (Some 3, s)),
     au_day = (\<lambda>s. ''20250101'')\<rparr>"

lemma mem_auth_sel [simp]:
  "au_db mem_auth = stored_db" "au_redis mem_auth = Some auth_redis" "au_tokens mem_auth = auth_redis"
  "ve_redis (au_verification mem_auth) = auth_redis" "au_jwt mem_auth = mem_jwt"
  "ve_digit (au_verification mem_auth) = (\<lambda>s. (Some 7, s))" "au_random mem_auth = (\<lambda>n s. (Some 3, s))"
  "au_hash mem_auth = (\<lambda>p n s. (Inr (''h'' @ p), s))"
  "au_unicode mem_auth = mem_unicode" "ac_min_length (au_cfg mem_auth) = 8" "au_retries mem_auth = 1" "au_lock_token mem_auth = (\<lambda>k n. ''t'')"
  "vc_max_attempts (ve_config (au_verification mem_auth)) = 5" "ve_retries (au_verification mem_auth) = 1"
  "ve_token (au_verification mem_auth) = (\<lambda>k n. ''t'')"
  "jw_uuid mem_jwt = (\<lambda>s. (format_nat (snd (fst s)), ((fst (fst s), Suc (snd (fst s))), snd s)))"
  by (simp_all add: mem_auth_def mem_jwt_def)

abbreviation auth_view :: "auth_mem \<Rightarrow> keyspace" where
  "auth_view \<equiv> fst \<circ> fst \<circ> fst"

definition handed_out :: "auth_mem \<Rightarrow> string set" where
  "handed_out s = format_nat ` {..<snd (fst s)}"

lemma auth_redis_up: "redis_up auth_redis auth_view"
  unfolding auth_redis_def by (rule redis_up.on_first_up[OF redis_up.on_first_up[OF up.redis_up_axioms]])

interpretation mem_sessions: auth_world mem_auth auth_redis auth_view handed_out
proof -
  have core: "redis_core auth_redis auth_view" using auth_redis_up by (simp add: redis_up_def redis_server_def redis_scan_def)
  have frame: "redis_frame auth_redis handed_out" "redis_frame auth_redis (db_tables (au_db mem_auth))"
    unfolding auth_redis_def by unfold_locales (auto simp: handed_out_def split: prod.splits)
  have st: "auth_view (snd (db_stmt stored_db s)) = auth_view s \<and> handed_out (snd (db_stmt stored_db s)) = handed_out s"
    and co: "auth_view (snd (db_commit stored_db tabs s)) = auth_view s \<and> handed_out (snd (db_commit stored_db tabs s)) = handed_out s" for s tabs
    by (simp_all add: stored_db_def handed_out_def Let_def case_prod_beta split: option.split)
  have uu: "jw_uuid (au_jwt mem_auth) s = (tid, s1) \<Longrightarrow> tid \<notin> handed_out s \<and> handed_out s \<subseteq> handed_out s1 \<and> auth_view s1 = auth_view s" for s tid s1
    by (auto simp: handed_out_def)
  show "auth_world mem_auth auth_redis auth_view handed_out"
    by (rule auth_world.intro[OF core frame(1)], unfold_locales)
      (use st co uu in \<open>auto simp: auth_redis_def handed_out_def\<close>)
qed

lemma one_mem_token: "ValidateToken mem_jwt ''refresh:1:0'' s = Some c \<Longrightarrow>
  c = \<lparr>cl_issuer = [], cl_issued_at = 0, cl_expires_at = 0, cl_subject = ''1'', cl_id = ''0'', cl_uid = 1, cl_kind = ''refresh'', cl_nickname = []\<rparr>"
proof -
  have "parse_uint ''1'' = Some 1" by (simp add: parse_uint_def parse_nat_def is_digit_def digit_val_def)
  then show "ValidateToken mem_jwt ''refresh:1:0'' s = Some c \<Longrightarrow> ?thesis"
    by (simp add: ValidateToken_def mem_jwt_def is_rsa_def plain_parse_def split: if_splits)
qed

definition one_session :: auth_mem where
  "one_session = (((ks_set_str (refresh_key 1 ''0'') ''1'' (Some 604800000) empty_keyspace, []), 1),
     (\<lparr>ut_users = [(new_user ''EMAIL'' ''a@b.cn'' ''n'' (Some ''hold''))\<lparr>us_id := 1\<rparr>], ut_logs = [], ut_next_id = 2\<rparr>, []))"

lemma mem_auth_slice: "ve_slice (au_verification mem_auth) = cmd_string_slice"
  by (simp add: mem_auth_def)

section \<open>Requests with a code\<close>

locale code_world = go_redis_slice "ve_slice (au_verification A)" + redis_frame "ve_redis (au_verification A)" "db_tables (au_db A)" + sql_database "au_db A"
  for A :: "'s auth_service" +
  assumes incr_frame: "db_tables (au_db A) (r_incr (ve_redis (au_verification A)) k s) = db_tables (au_db A) s"

context code_world
begin

lemma check_tables: "db_tables (au_db A) (snd (Verify (au_verification A) sc i code s)) = db_tables (au_db A) s"
proof -
  let ?V = "au_verification A"
  let ?f = "verify_and_count (ve_redis ?V) (attempts_key sc i) (code_key sc i) (vc_max_attempts (ve_config ?V)) (vc_ttl (ve_config ?V) div 1000)"
  have "db_tables (au_db A) (snd (?f s)) = db_tables (au_db A) s" for s
    by (simp add: verify_and_count_def incr_and_expire_def Let_def incr_frame split: option.split)
  then have r: "db_tables (au_db A) (snd (roundtrip (ve_redis ?V) ?f s)) = db_tables (au_db A) s" for s by (rule frame_roundtrip)
  have l: "db_tables (au_db A) (snd (flow_lock ?V sc i s)) = db_tables (au_db A) s" by (simp add: flow_lock_def Let_def frame_acquire)
  show ?thesis using l r by (cases "flow_lock ?V sc i s") (simp add: Verify_def locked_fails[OF refl] split: sum.split)
qed

lemma check_refused: "ensure_verification_success (fst (Verify (au_verification A) sc i code s)) = Some ErrVerificationNotFound"
  by (simp add: check_fails[OF refl] ensure_verification_success_def check_failed_def)

lemma read_tables: "db_tables (au_db A) (snd (db_read (au_db A) f s)) = db_tables (au_db A) s"
  using stmt_keeps[of s] by (auto simp: db_read_def split: prod.splits option.splits)

lemma find_tables: "db_tables (au_db A) (snd (FindUserByIdentifier (au_db A) k i s)) = db_tables (au_db A) s"
  using read_tables[of "find_row (has_identifier k i)" s]
  by (auto simp: FindUserByIdentifier_def get_row_def split: prod.splits sum.splits option.splits)

lemma exists_tables: "db_tables (au_db A) (snd (IdentifierExists (au_db A) k i s)) = db_tables (au_db A) s"
  using read_tables[of "\<lambda>t. length (filter (has_identifier k i) (ut_users t))" s]
  by (auto simp: IdentifierExists_def split: prod.splits sum.splits)

lemma log_users: "ut_users (db_tables (au_db A) (record_login_log A u i ch st ci s)) = ut_users (db_tables (au_db A) s)"
  by (auto simp: record_login_log_def RecordLoginLog_def db_write_def split: prod.splits option.splits dest!: committed commit_failed)

lemma register_refused:
  "\<not> is_ok (fst (Register A req ci s)) \<and> ut_users (db_tables (au_db A) (snd (Register A req ci s))) = ut_users (db_tables (au_db A) s)"
proof -
  let ?i = "normalize_identifier (au_unicode A) (rg_kind req) (rg_identifier req)"
  obtain b s1 where b: "IdentifierExists (au_db A) (rg_kind req) ?i s = (b, s1)" by (cases "IdentifierExists (au_db A) (rg_kind req) ?i s")
  obtain r s2 where r: "Verify (au_verification A) ''REGISTER'' ?i (rg_code req) s1 = (r, s2)"
    by (cases "Verify (au_verification A) ''REGISTER'' ?i (rg_code req) s1")
  have t: "db_tables (au_db A) s1 = db_tables (au_db A) s" "db_tables (au_db A) s2 = db_tables (au_db A) s1"
    using exists_tables[of "rg_kind req" ?i s] b check_tables[of "''REGISTER''" ?i "rg_code req" s1] r by simp_all
  have e: "ensure_verification_success r = Some ErrVerificationNotFound"
    using check_refused[of "''REGISTER''" ?i "rg_code req" s1] r by simp
  show ?thesis unfolding Register_def Let_def b r e prod.case using t by (simp split: option.split bool.split)
qed

lemma reset_refused:
  "\<not> is_ok (fst (ResetPassword A req s)) \<and> ut_users (db_tables (au_db A) (snd (ResetPassword A req s))) = ut_users (db_tables (au_db A) s)"
proof -
  let ?i = "normalize_identifier (au_unicode A) (rq_kind req) (rq_identifier req)"
  obtain q s1 where q: "FindUserByIdentifier (au_db A) (rq_kind req) ?i s = (q, s1)" by (cases "FindUserByIdentifier (au_db A) (rq_kind req) ?i s")
  obtain r s2 where r: "Verify (au_verification A) ''RESET_PASSWORD'' ?i (rq_code req) s1 = (r, s2)"
    by (cases "Verify (au_verification A) ''RESET_PASSWORD'' ?i (rq_code req) s1")
  have t: "db_tables (au_db A) s1 = db_tables (au_db A) s" "db_tables (au_db A) s2 = db_tables (au_db A) s1"
    using find_tables[of "rq_kind req" ?i s] q check_tables[of "''RESET_PASSWORD''" ?i "rq_code req" s1] r by simp_all
  have e: "ensure_verification_success r = Some ErrVerificationNotFound"
    using check_refused[of "''RESET_PASSWORD''" ?i "rq_code req" s1] r by simp
  show ?thesis unfolding ResetPassword_def Let_def q r e prod.case using t by (simp split: option.split sum.split)
qed

lemma code_login_refused:
  "lr_code req \<noteq> [] \<Longrightarrow> \<not> is_ok (fst (Login A req ci s)) \<and> ut_users (db_tables (au_db A) (snd (Login A req ci s))) = ut_users (db_tables (au_db A) s)"
proof -
  assume code: "lr_code req \<noteq> []"
  let ?i = "normalize_identifier (au_unicode A) (lr_kind req) (lr_identifier req)"
  obtain q s1 where q: "FindUserByIdentifier (au_db A) (lr_kind req) ?i s = (q, s1)" by (cases "FindUserByIdentifier (au_db A) (lr_kind req) ?i s")
  obtain r s2 where r: "Verify (au_verification A) ''LOGIN'' ?i (lr_code req) s1 = (r, s2)"
    by (cases "Verify (au_verification A) ''LOGIN'' ?i (lr_code req) s1")
  have t: "db_tables (au_db A) s1 = db_tables (au_db A) s" "db_tables (au_db A) s2 = db_tables (au_db A) s1"
    using find_tables[of "lr_kind req" ?i s] q check_tables[of "''LOGIN''" ?i "lr_code req" s1] r by simp_all
  have e: "check_login A req ?i u s1 = ((''CODE'', Some ErrVerificationNotFound), s2)" for u
    using check_refused[of "''LOGIN''" ?i "lr_code req" s1] r code by (simp add: check_login_def)
  show ?thesis unfolding Login_def Let_def q e prod.case using t log_users by (simp split: option.split sum.split)
qed

end

section \<open>Properties\<close>

text \<open>
  C25: a refresh token buys at most one new pair, over any calls of any users with Redis
  and MySQL failing at any point: once a refresh with it has been answered with tokens,
  no later one is.
\<close>

theorem refresh_token_used_once:
  assumes "auth_world A R view used_ids" "session_run A view used_ids t s0 n s"
    and "\<And>s c'. ValidateToken (au_jwt A) t s = Some c' \<Longrightarrow> c' = c" "cl_id c \<in> used_ids s0"
  shows "n \<le> 1 \<and> (n = 1 \<longrightarrow> \<not> is_ok (fst (Refresh A t s)))"
proof -
  have k: "token_known used_ids (cl_id c) s0" using assms(4) by (simp add: token_known_def)
  have r: "token_known used_ids (cl_id c) s \<and> (n = 0 \<or> n = 1 \<and> token_spent view used_ids (cl_uid c) (cl_id c) s)"
    by (rule auth_world.session_run_once[OF assms(1,2) k assms(3)])
  have "\<not> is_ok (fst (Refresh A t s))" if "n = 1"
    using auth_world.refresh_once_step(2)[OF assms(1) conjunct1[OF r] surjective_pairing assms(3)] r that by simp
  with r show ?thesis by auto
qed

theorem refresh_token_used_once_witness:
  "length (filter is_ok [fst (Refresh mem_auth ''refresh:1:0'' one_session),
     fst (Refresh mem_auth ''refresh:1:0'' (snd (Refresh mem_auth ''refresh:1:0'' one_session)))]) \<le> 1"
proof -
  obtain r1 s1 where r1: "Refresh mem_auth ''refresh:1:0'' one_session = (r1, s1)" by (cases "Refresh mem_auth ''refresh:1:0'' one_session")
  obtain r2 s2 where r2: "Refresh mem_auth ''refresh:1:0'' s1 = (r2, s2)" by (cases "Refresh mem_auth ''refresh:1:0'' s1")
  have c: "c' = \<lparr>cl_issuer = [], cl_issued_at = 0, cl_expires_at = 0, cl_subject = ''1'', cl_id = ''0'', cl_uid = 1, cl_kind = ''refresh'', cl_nickname = []\<rparr>"
    if "ValidateToken (au_jwt mem_auth) ''refresh:1:0'' s = Some c'" for s c'
    using one_mem_token[of s c'] that by simp
  have run: "session_run mem_auth auth_view handed_out ''refresh:1:0'' one_session (if is_ok r2 then Suc (if is_ok r1 then Suc 0 else 0) else (if is_ok r1 then Suc 0 else 0)) s2"
    by (rule session_refresh[OF session_refresh[OF session_start r1] r2])
  have "format_nat 0 = ''0''" by code_simp
  then have "''0'' \<in> handed_out one_session" by (simp add: handed_out_def one_session_def lessThan_Suc)
  then have "cl_id \<lparr>cl_issuer = [], cl_issued_at = 0, cl_expires_at = 0, cl_subject = ''1'', cl_id = ''0'', cl_uid = 1, cl_kind = ''refresh'', cl_nickname = []\<rparr> \<in> handed_out one_session" by simp
  from refresh_token_used_once[OF mem_sessions.auth_world_axioms run c this] r1 r2 show ?thesis by (auto split: if_splits)
qed

text \<open>
  A logout ends the session of a refresh token, which is good for no refresh any more;
  while it lasts it still enters as a bearer token, since the middleware takes every kind.
\<close>

theorem logout_leaves_bearer:
  assumes "auth_world A R view used_ids" "redis_up R view" "ValidateToken (au_jwt A) t s = Some c" "cl_kind c = ''refresh''"
    and "cl_id c \<in> used_ids s" "ValidateToken (au_jwt A) t (Logout A t s) = Some c" "t \<noteq> []" "trim_space t = t"
  shows "\<not> is_ok (fst (Refresh A t (Logout A t s))) \<and>
    auth_middleware (au_jwt A) (''Bearer '' @ t) (Logout A t s) = Inr (cl_uid c, ''refresh'')"
proof
  show "\<not> is_ok (fst (Refresh A t (Logout A t s)))"
    by (rule auth_world.refresh_refused[OF assms(1) auth_world.logout_spends[OF assms(1-5)] assms(6)])
  have "map ascii_lower ''Bearer'' = ''bearer''" by code_simp
  moreover have "str_cut CHR '' '' (''Bearer '' @ t) = Some (''Bearer'', t)" by simp
  ultimately have "extract_bearer_token (''Bearer '' @ t) = t" using assms(8) by (simp add: extract_bearer_token_def)
  then show "auth_middleware (au_jwt A) (''Bearer '' @ t) (Logout A t s) = Inr (cl_uid c, ''refresh'')"
    using assms(4,6,7) by (simp add: auth_middleware_def Let_def)
qed

definition one_claims :: jwt_claims where
  "one_claims = \<lparr>cl_issuer = [], cl_issued_at = 0, cl_expires_at = 0, cl_subject = ''1'', cl_id = ''0'', cl_uid = 1, cl_kind = ''refresh'', cl_nickname = []\<rparr>"

lemma one_claims_valid: "ValidateToken (au_jwt mem_auth) ''refresh:1:0'' s = Some one_claims"
proof -
  have "parse_uint ''1'' = Some 1" by (simp add: parse_uint_def parse_nat_def is_digit_def digit_val_def)
  then show ?thesis by (simp add: ValidateToken_def mem_jwt_def is_rsa_def plain_parse_def one_claims_def)
qed

theorem logout_leaves_bearer_witness:
  "auth_middleware mem_jwt (''Bearer '' @ ''refresh:1:0'') (Logout mem_auth ''refresh:1:0'' one_session) = Inr (1, ''refresh'')"
proof -
  have "format_nat 0 = ''0''" by code_simp
  then have c: "cl_kind one_claims = ''refresh''" "cl_id one_claims \<in> handed_out one_session"
    by (simp_all add: one_claims_def handed_out_def one_session_def lessThan_Suc)
  have t: "trim_space ''refresh:1:0'' = ''refresh:1:0''" by code_simp
  from logout_leaves_bearer[OF mem_sessions.auth_world_axioms auth_redis_up one_claims_valid c one_claims_valid _ t] show ?thesis
    by (simp add: one_claims_def)
qed

text \<open>
  C37: every request that needs a code is refused: nobody registers, resets a password or
  logs in by code, whatever code is given and whatever calls fail, and no row of a user
  changes.
\<close>

theorem code_requests_refused:
  assumes "go_redis_slice (ve_slice (au_verification A))" "redis_frame (ve_redis (au_verification A)) (db_tables (au_db A))"
    and "sql_database (au_db A)" "\<And>k s. db_tables (au_db A) (r_incr (ve_redis (au_verification A)) k s) = db_tables (au_db A) s"
    and "lr_code lreq \<noteq> []"
  shows "\<not> is_ok (fst (Register A req ci s)) \<and> ut_users (db_tables (au_db A) (snd (Register A req ci s))) = ut_users (db_tables (au_db A) s) \<and>
    \<not> is_ok (fst (ResetPassword A rreq s)) \<and> ut_users (db_tables (au_db A) (snd (ResetPassword A rreq s))) = ut_users (db_tables (au_db A) s) \<and>
    \<not> is_ok (fst (Login A lreq ci s)) \<and> ut_users (db_tables (au_db A) (snd (Login A lreq ci s))) = ut_users (db_tables (au_db A) s)"
proof -
  have c: "code_world A" using assms(1-4) by (simp add: code_world_def code_world_axioms_def)
  show ?thesis
    using code_world.register_refused[OF c] code_world.reset_refused[OF c] code_world.code_login_refused[OF c assms(5)] by blast
qed

interpretation mem_codes: code_world mem_auth
proof -
  have "redis_frame auth_redis (db_tables stored_db)"
    unfolding auth_redis_def by unfold_locales (auto split: prod.splits)
  then show "code_world mem_auth"
    by (simp add: code_world_def code_world_axioms_def mem_auth_slice go_slice.go_redis_slice_axioms stored.sql_database_axioms)
      (simp add: auth_redis_def stored_db_def)
qed

definition register_world :: auth_mem where
  "register_world = (((ks_set_str (code_key ''REGISTER'' ''a@b.cn'') ''123456'' (Some 300000) empty_keyspace, []), 0),
     (\<lparr>ut_users = [], ut_logs = [], ut_next_id = 1\<rparr>, []))"

definition good_req :: register_request where
  "good_req = \<lparr>rg_identifier = ''a@b.cn'', rg_kind = ''EMAIL'', rg_code = ''123456'', rg_password = ''newpass12'', rg_agree_terms = True\<rparr>"

theorem code_requests_refused_witness:
  "\<not> is_ok (fst (Register mem_auth good_req \<lparr>ci_ip = ''::1'', ci_user_agent = []\<rparr> register_world)) \<and>
   ks_str (auth_view register_world) (code_key ''REGISTER'' ''a@b.cn'') = Some (rg_code good_req)"
  using code_requests_refused[OF mem_codes.go_redis_slice_axioms mem_codes.redis_frame_axioms mem_codes.sql_database_axioms mem_codes.incr_frame,
      of "\<lparr>lr_identifier = ''a@b.cn'', lr_kind = ''EMAIL'', lr_password = [], lr_code = ''123456''\<rparr>" good_req _ register_world]
  by (simp add: register_world_def good_req_def)

end
