(* ===== verification/Cache_Bloom.thy ===== *)
theory Cache_Bloom
  imports Complex_Main Redis_Product "HOL-Library.AList"
begin

text \<open>
  \<open>internal/cache/bloom.go\<close>: the filter that knows which posts may exist. The filter
  itself is the RedisBloom module, a service: \<open>bl_do\<close> carries one \<open>CF.*\<close> command and
  \<open>bl_exists\<close> the \<open>EXISTS\<close> of its key. The flags of the client are process memory,
  part of the world behind \<open>bl_flags\<close> and \<open>bl_set_flags\<close>. A \<open>float64\<close> is the rational it
  denotes; warnings are not modelled.
\<close>

section \<open>The client\<close>

datatype cf_command =
    CfReserve string int int int int
  | CfAdd string string
  | CfDel string string
  | CfExists string string
  | CfInfo string

text \<open>Replies as \<open>go-redis\<close> hands them on; \<open>CfOther\<close> is any other value, as \<open>fmt.Sprint\<close> prints it.\<close>

datatype cf_value = CfBool bool | CfInt int | CfText string | CfBytes string | CfOther string

datatype cf_reply = CfScalar cf_value | CfArray "cf_value list" | CfMap "(cf_value \<times> cf_value) list"

record bloom_config =
  bc_enabled :: bool
  bc_expected :: uint64
  bc_rate :: rat
  bc_key :: string
  bc_bucket_size :: int
  bc_max_kicks :: int
  bc_expansion :: int

record bloom_flags =
  bf_ensured :: bool
  bf_module_ok :: bool
  bf_module_fail :: bool

record 's bloom =
  bl_do :: "cf_command \<Rightarrow> 's \<Rightarrow> (io_error + cf_reply) \<times> 's"
  bl_exists :: "string \<Rightarrow> 's \<Rightarrow> (io_error + int) \<times> 's"
  bl_unicode :: unicode
  bl_key :: string
  bl_capacity :: int
  bl_bucket_size :: int
  bl_max_iter :: int
  bl_expansion :: int
  bl_flags :: "'s \<Rightarrow> bloom_flags"
  bl_set_flags :: "bloom_flags \<Rightarrow> 's \<Rightarrow> 's"

definition DefaultBloomConfig :: bloom_config where
  "DefaultBloomConfig = \<lparr>bc_enabled = True, bc_expected = 1000000, bc_rate = 1 / 100, bc_key = ''cf:knowpost:ids'',
     bc_bucket_size = 2, bc_max_kicks = 20, bc_expansion = 1\<rparr>"

text \<open>The constant \<open>0.001\<close> is the nearest \<open>float64\<close>.\<close>

definition thousandth :: rat where
  "thousandth = 1152921504606847 / 2 ^ 60"

definition NewRedisBloom :: "'s bloom option \<Rightarrow> bloom_config \<Rightarrow> 's bloom option" where
  "NewRedisBloom client cfg = (case client of None \<Rightarrow> None | Some b \<Rightarrow>
     (if \<not> bc_enabled cfg then None
      else let expected = (if bc_expected cfg = 0 then 1000000 else bc_expected cfg);
               rate = (if bc_rate cfg \<le> 0 \<or> bc_rate cfg \<ge> 1 then 1 / 100 else bc_rate cfg);
               bs = (if bc_bucket_size cfg \<le> 0 then if rate \<le> thousandth then 4 else 2 else bc_bucket_size cfg)
           in Some (b\<lparr>bl_key := if bc_key cfg = [] then ''cf:knowpost:ids'' else bc_key cfg,
                bl_capacity := sint expected, bl_bucket_size := min bs 8,
                bl_max_iter := if bc_max_kicks cfg \<le> 0 then 20 else bc_max_kicks cfg,
                bl_expansion := if bc_expansion cfg \<le> 0 then 1 else bc_expansion cfg\<rparr>)))"

section \<open>Error texts and replies\<close>

fun error_text :: "io_error \<Rightarrow> string" where
  "error_text (IoError t) = t"

definition isUnknownCommandErr :: "unicode \<Rightarrow> io_error \<Rightarrow> bool" where
  "isUnknownCommandErr U e = (let t = to_lower U (error_text e) in
     str_contains ''unknown command'' t \<or> str_contains ''err unknown command'' t)"

definition isAlreadyExistsErr :: "unicode \<Rightarrow> io_error \<Rightarrow> bool" where
  "isAlreadyExistsErr U e = (let t = to_lower U (error_text e) in
     str_contains ''item exists'' t \<or> str_contains ''already exists'' t \<or> str_contains ''busykey'' t)"

text \<open>\<open>redis.Nil\<close>, the error for an empty reply, is the one with this text.\<close>

definition isNotExistErr :: "unicode \<Rightarrow> io_error \<Rightarrow> bool" where
  "isNotExistErr U e = (let t = to_lower U (error_text e) in
     str_contains ''not found'' t \<or> str_contains ''does not exist'' t \<or> e = IoError ''redis: nil'')"

text \<open>\<open>strconv.ParseInt\<close> with its error ignored: out of range it is the nearest bound.\<close>

definition parse_int_ignored :: "string \<Rightarrow> int" where
  "parse_int_ignored t = (case parse_int t of Some n \<Rightarrow> n
     | None \<Rightarrow> (case t of [] \<Rightarrow> 0 | c # cs \<Rightarrow>
         (let neg = (c = CHR ''-''); body = (if neg \<or> c = CHR ''+'' then cs else t)
          in case parse_nat body of None \<Rightarrow> 0 | Some _ \<Rightarrow> if neg then int64_min else int64_max)))"

definition toInt64 :: "cf_value \<Rightarrow> int" where
  "toInt64 v = (case v of CfInt n \<Rightarrow> n | CfText t \<Rightarrow> parse_int_ignored t | CfBytes t \<Rightarrow> parse_int_ignored t
     | CfBool b \<Rightarrow> 0 | CfOther t \<Rightarrow> parse_int_ignored t)"

definition truthy_text :: "string \<Rightarrow> bool" where
  "truthy_text t = (t = ''1'' \<or> map ascii_lower t = ''true'')"

text \<open>A list or map prints with a bracket in front, which is no number.\<close>

definition redisTruthy :: "cf_reply \<Rightarrow> bool" where
  "redisTruthy r = (case r of
      CfScalar v \<Rightarrow> (case v of CfBool b \<Rightarrow> b | CfInt n \<Rightarrow> n \<noteq> 0 | CfText t \<Rightarrow> truthy_text t | CfBytes t \<Rightarrow> truthy_text t
        | CfOther _ \<Rightarrow> toInt64 v \<noteq> 0)
    | _ \<Rightarrow> False)"

definition cf_sprint :: "cf_value \<Rightarrow> string" where
  "cf_sprint v = (case v of CfInt n \<Rightarrow> format_int n | CfText t \<Rightarrow> t | CfBool b \<Rightarrow> if b then ''true'' else ''false''
     | CfBytes t \<Rightarrow> CHR ''['' # join_with '' '' (map (\<lambda>c. format_nat (of_char c)) t) @ '']'' | CfOther t \<Rightarrow> t)"

fun cf_pairs :: "cf_value list \<Rightarrow> (cf_value \<times> cf_value) list" where
  "cf_pairs (k # v # r) = (k, v) # cf_pairs r"
| "cf_pairs r = []"

text \<open>A later entry of the same name replaces an earlier one.\<close>

definition parseCFInfo :: "cf_reply \<Rightarrow> (string \<times> int) list" where
  "parseCFInfo r = fold (\<lambda>(k, v). AList.update (cf_sprint k) (toInt64 v))
     (case r of CfArray vs \<Rightarrow> cf_pairs vs | CfMap m \<Rightarrow> m | CfScalar _ \<Rightarrow> []) []"

section \<open>Operations\<close>

definition markModuleError :: "'s bloom \<Rightarrow> io_error \<Rightarrow> 's \<Rightarrow> 's" where
  "markModuleError b e s =
    (if isUnknownCommandErr (bl_unicode b) e then bl_set_flags b ((bl_flags b s)\<lparr>bf_module_fail := True\<rparr>) s else s)"

definition mark_ready :: "'s bloom \<Rightarrow> 's \<Rightarrow> 's" where
  "mark_ready b s = bl_set_flags b ((bl_flags b s)\<lparr>bf_ensured := True, bf_module_ok := True\<rparr>) s"

definition ensureReady :: "'s bloom \<Rightarrow> 's \<Rightarrow> bool \<times> 's" where
  "ensureReady b s =
    (if bf_module_fail (bl_flags b s) then (False, s)
     else if bf_ensured (bl_flags b s) \<and> bf_module_ok (bl_flags b s) then (True, s)
     else (case bl_exists b (bl_key b) s of
         (Inl e, s1) \<Rightarrow> (False, markModuleError b e s1)
       | (Inr n, s1) \<Rightarrow>
           (if n > 0 then (True, mark_ready b s1)
            else (case bl_do b (CfReserve (bl_key b) (bl_capacity b) (bl_bucket_size b) (bl_max_iter b) (bl_expansion b)) s1 of
                (Inl e, s2) \<Rightarrow>
                  (if isAlreadyExistsErr (bl_unicode b) e then (True, mark_ready b s2) else (False, markModuleError b e s2))
              | (Inr _, s2) \<Rightarrow> (True, mark_ready b s2)))))"

definition Add :: "'s bloom option \<Rightarrow> string \<Rightarrow> 's \<Rightarrow> 's" where
  "Add client m s = (case client of None \<Rightarrow> s | Some b \<Rightarrow>
     (if m = [] then s
      else (case ensureReady b s of
          (False, s1) \<Rightarrow> s1
        | (True, s1) \<Rightarrow>
            (case bl_do b (CfAdd (bl_key b) m) s1 of
               (Inl e, s2) \<Rightarrow> markModuleError b e s2
             | (Inr _, s2) \<Rightarrow> s2))))"

definition AddUint64 :: "'s bloom option \<Rightarrow> uint64 \<Rightarrow> 's \<Rightarrow> 's" where
  "AddUint64 client i = Add client (format_uint i)"

definition Delete_member :: "'s bloom option \<Rightarrow> string \<Rightarrow> 's \<Rightarrow> 's" where
  "Delete_member client m s = (case client of None \<Rightarrow> s | Some b \<Rightarrow>
     (if m = [] then s
      else (case ensureReady b s of
          (False, s1) \<Rightarrow> s1
        | (True, s1) \<Rightarrow>
            (case bl_do b (CfDel (bl_key b) m) s1 of
               (Inl e, s2) \<Rightarrow> if isNotExistErr (bl_unicode b) e then s2 else markModuleError b e s2
             | (Inr _, s2) \<Rightarrow> s2))))"

definition DeleteUint64 :: "'s bloom option \<Rightarrow> uint64 \<Rightarrow> 's \<Rightarrow> 's" where
  "DeleteUint64 client i = Delete_member client (format_uint i)"

definition IsWarm :: "'s bloom option \<Rightarrow> 's \<Rightarrow> bool \<times> 's" where
  "IsWarm client s = (case client of None \<Rightarrow> (False, s) | Some b \<Rightarrow>
     (if bf_module_fail (bl_flags b s) then (False, s)
      else (case bl_exists b (bl_key b) s of
          (Inl e, s1) \<Rightarrow> (False, s1)
        | (Inr n, s1) \<Rightarrow> (n > 0, s1))))"

text \<open>The answer and the error that goes with it.\<close>

definition MightContain :: "'s bloom option \<Rightarrow> string \<Rightarrow> 's \<Rightarrow> (bool \<times> io_error option) \<times> 's" where
  "MightContain client m s = (case client of None \<Rightarrow> ((True, None), s) | Some b \<Rightarrow>
     (if m = [] \<or> bf_module_fail (bl_flags b s) then ((True, None), s)
      else (case IsWarm client s of
          (False, s1) \<Rightarrow> ((True, None), s1)
        | (True, s1) \<Rightarrow>
            (case bl_do b (CfExists (bl_key b) m) s1 of
               (Inl e, s2) \<Rightarrow> ((True, Some e), markModuleError b e s2)
             | (Inr r, s2) \<Rightarrow> ((redisTruthy r, None), s2)))))"

definition MightContainUint64 :: "'s bloom option \<Rightarrow> uint64 \<Rightarrow> 's \<Rightarrow> (bool \<times> io_error option) \<times> 's" where
  "MightContainUint64 client i = MightContain client (format_uint i)"

definition Stats :: "'s bloom option \<Rightarrow> string \<times> uint64 \<times> int" where
  "Stats client = (case client of None \<Rightarrow> ([], 0, 0) | Some b \<Rightarrow> (bl_key b, word_of_int (bl_capacity b), bl_bucket_size b))"

datatype info_error = NilClient | ModuleUnavailable | InfoFailed io_error

definition Info :: "'s bloom option \<Rightarrow> 's \<Rightarrow> (info_error + (string \<times> int) list) \<times> 's" where
  "Info client s = (case client of None \<Rightarrow> (Inl NilClient, s) | Some b \<Rightarrow>
     (case ensureReady b s of
        (False, s1) \<Rightarrow> (Inl ModuleUnavailable, s1)
      | (True, s1) \<Rightarrow>
          (case bl_do b (CfInfo (bl_key b)) s1 of
             (Inl e, s2) \<Rightarrow> (Inl (InfoFailed e), s2)
           | (Inr r, s2) \<Rightarrow> (Inr (parseCFInfo r), s2))))"

section \<open>What the module promises\<close>

text \<open>
  \<open>count s m\<close> is how often \<open>m\<close> was added and not deleted; \<open>there s\<close> says that the filter
  has been made. A member is never denied, as long as nothing is deleted that is not in:
  the documented reply to \<open>CF.EXISTS\<close> for an item that may be there is the integer 1
  (protocol RESP2) or the boolean true (RESP3). For an item that was not added the reply
  may be anything.
\<close>

definition cf_found :: "cf_reply set" where
  "cf_found = {CfScalar (CfInt 1), CfScalar (CfBool True)}"

lemma cf_found_truthy [simp]: "x \<in> cf_found \<Longrightarrow> redisTruthy x"
  by (auto simp: cf_found_def redisTruthy_def)

locale cuckoo_filter =
  fixes b :: "'s bloom" and count :: "'s \<Rightarrow> string \<Rightarrow> nat" and there :: "'s \<Rightarrow> bool"
  assumes flags_set [simp]: "bl_flags b (bl_set_flags b f s) = f"
    and set_keeps [simp]: "count (bl_set_flags b f s) = count s" "there (bl_set_flags b f s) = there s"
    and exists_keeps: "bl_exists b k s = (ans, s1) \<Longrightarrow> bl_flags b s1 = bl_flags b s \<and> count s1 = count s \<and> there s1 = there s"
    and exists_there: "bl_exists b (bl_key b) s = (Inr n, s1) \<Longrightarrow> (n > 0) = there s"
    and do_keeps: "bl_do b c s = (r, s1) \<Longrightarrow> bl_flags b s1 = bl_flags b s \<and> (there s \<longrightarrow> there s1)"
    and reserve_keeps: "bl_do b (CfReserve k i j l n) s = (r, s1) \<Longrightarrow> count s1 = count s \<and> (k = bl_key b \<and> is_ok r \<longrightarrow> there s1)"
    and add_counts: "bl_do b (CfAdd (bl_key b) m) s = (r, s1) \<Longrightarrow>
      (is_ok r \<longrightarrow> there s1 \<and> count s1 = (count s)(m := count s m + 1)) \<and>
      (\<not> is_ok r \<longrightarrow> count s1 = count s \<or> count s1 = (count s)(m := count s m + 1))"
    and del_counts: "bl_do b (CfDel (bl_key b) m) s = (r, s1) \<Longrightarrow> count s m > 0 \<Longrightarrow>
      count s1 = (count s)(m := count s m - 1) \<or> \<not> is_ok r \<and> count s1 = count s"
    and member_found: "bl_do b (CfExists (bl_key b) m) s = (Inr x, s1) \<Longrightarrow> count s m > 0 \<Longrightarrow> x \<in> cf_found"
    and ask_keeps: "bl_do b (CfExists k m) s = (r, s1) \<Longrightarrow> count s1 = count s"

text \<open>A module that is there and answers.\<close>

locale cuckoo_filter_up = cuckoo_filter b count there for b :: "'s bloom" and count there +
  assumes exists_up: "is_ok (fst (bl_exists b k s))" and reserve_up: "\<not> there s \<Longrightarrow> is_ok (fst (bl_do b (CfReserve k i j l n) s))"
    and add_up: "is_ok (fst (bl_do b (CfAdd (bl_key b) m) s))"
    and del_up: "count s m > 0 \<Longrightarrow> is_ok (fst (bl_do b (CfDel (bl_key b) m) s))"

context cuckoo_filter
begin

lemma mark_error_keeps [simp]: "count (markModuleError b e s) = count s" "there (markModuleError b e s) = there s"
  by (simp_all add: markModuleError_def)

lemma member_not_denied:
  assumes "count s m > 0"
  shows "fst (fst (MightContain (Some b) m s))"
proof -
  obtain w s1 where w: "IsWarm (Some b) s = (w, s1)" by (cases "IsWarm (Some b) s")
  then have k: "count s1 = count s" by (auto simp: IsWarm_def split: if_splits prod.splits sum.splits dest: exists_keeps)
  obtain r s2 where d: "bl_do b (CfExists (bl_key b) m) s1 = (r, s2)" by (cases "bl_do b (CfExists (bl_key b) m) s1")
  have "redisTruthy x" if "r = Inr x" for x using d that member_found[of m s1 x s2] k assms by simp
  with w d show ?thesis by (cases w; cases r) (simp_all add: MightContain_def)
qed

text \<open>Whoever is denied was asked for in a filter that is there, and the module said no.\<close>

lemma denied_by_module:
  assumes "MightContain (Some b) m s = ((False, e), s')"
  shows "e = None \<and> m \<noteq> [] \<and> \<not> bf_module_fail (bl_flags b s) \<and> there s \<and> count s m = 0"
  using assms member_not_denied[of s m]
  by (auto simp: MightContain_def IsWarm_def split: prod.splits sum.splits if_splits bool.splits dest: exists_there)

end

context cuckoo_filter_up
begin

lemma ready:
  assumes "\<not> bf_module_fail (bl_flags b s)"
  obtains s1 where "ensureReady b s = (True, s1)" "count s1 = count s" "\<not> bf_module_fail (bl_flags b s1)"
proof (cases "bf_ensured (bl_flags b s) \<and> bf_module_ok (bl_flags b s)")
  case True
  with assms that[of s] show ?thesis by (simp add: ensureReady_def)
next
  case False
  obtain n s1 where e: "bl_exists b (bl_key b) s = (Inr n, s1)"
    using exists_up[of "bl_key b" s] by (cases "bl_exists b (bl_key b) s") auto
  note k = exists_keeps[OF e]
  show ?thesis
  proof (cases "n > 0")
    case True
    with False e k assms that[of "mark_ready b s1"] show ?thesis by (auto simp: ensureReady_def mark_ready_def)
  next
    case n: False
    let ?c = "CfReserve (bl_key b) (bl_capacity b) (bl_bucket_size b) (bl_max_iter b) (bl_expansion b)"
    obtain r s2 where d: "bl_do b ?c s1 = (Inr r, s2)" using reserve_up[of s1 "bl_key b" "bl_capacity b" "bl_bucket_size b" "bl_max_iter b" "bl_expansion b"] exists_there[OF e] k n by (cases "bl_do b ?c s1") auto
    with False n e k assms that[of "mark_ready b s2"] do_keeps[OF d] reserve_keeps[OF d]
    show ?thesis by (auto simp: ensureReady_def mark_ready_def)
  qed
qed

lemma added:
  assumes "\<not> bf_module_fail (bl_flags b s)" "m \<noteq> []"
  shows "count (Add (Some b) m s) = (count s)(m := count s m + 1) \<and> \<not> bf_module_fail (bl_flags b (Add (Some b) m s))"
proof -
  obtain s1 where r: "ensureReady b s = (True, s1)" "count s1 = count s" "\<not> bf_module_fail (bl_flags b s1)"
    using ready[OF assms(1)] .
  obtain x s2 where d: "bl_do b (CfAdd (bl_key b) m) s1 = (Inr x, s2)"
    using add_up[of m s1] by (cases "bl_do b (CfAdd (bl_key b) m) s1") auto
  show ?thesis using r d assms(2) add_counts[OF d] do_keeps[OF d] by (simp add: Add_def)
qed

lemma deleted:
  assumes "\<not> bf_module_fail (bl_flags b s)" "m \<noteq> []" "count s m > 0"
  shows "count (Delete_member (Some b) m s) = (count s)(m := count s m - 1) \<and>
    \<not> bf_module_fail (bl_flags b (Delete_member (Some b) m s))"
proof -
  obtain s1 where r: "ensureReady b s = (True, s1)" "count s1 = count s" "\<not> bf_module_fail (bl_flags b s1)"
    using ready[OF assms(1)] .
  obtain x s2 where d: "bl_do b (CfDel (bl_key b) m) s1 = (Inr x, s2)"
    using del_up[of s1 m] r(2) assms(3) by (cases "bl_do b (CfDel (bl_key b) m) s1") auto
  show ?thesis using r d assms(2,3) del_counts[OF d] do_keeps[OF d] by (simp add: Delete_member_def)
qed

end

section \<open>Histories\<close>

datatype filter_step = Added string | Deleted string

definition filter_apply :: "'s bloom \<Rightarrow> filter_step \<Rightarrow> 's \<Rightarrow> 's" where
  "filter_apply b st s = (case st of Added m \<Rightarrow> Add (Some b) m s | Deleted m \<Rightarrow> Delete_member (Some b) m s)"

lemma filter_apply_simps [simp]:
  "filter_apply b (Added m) = Add (Some b) m" "filter_apply b (Deleted m) = Delete_member (Some b) m"
  by (simp_all add: filter_apply_def fun_eq_iff)

text \<open>Every deletion is of a member that is in; \<open>None\<close> when one is not.\<close>

fun members_after :: "filter_step list \<Rightarrow> (string \<Rightarrow> nat) \<Rightarrow> (string \<Rightarrow> nat) option" where
  "members_after [] c = Some c"
| "members_after (Added m # h) c = (if m = [] then None else members_after h (c(m := c m + 1)))"
| "members_after (Deleted m # h) c = (if m = [] \<or> c m = 0 then None else members_after h (c(m := c m - 1)))"

context cuckoo_filter_up
begin

lemma history_counts:
  "\<not> bf_module_fail (bl_flags b s) \<Longrightarrow> members_after h (count s) = Some c \<Longrightarrow>
   count (fold (filter_apply b) h s) = c"
proof (induction h arbitrary: s)
  case Nil
  then show ?case by simp
next
  case (Cons st h)
  show ?case
  proof (cases st)
    case (Added m)
    with Cons.prems have m: "m \<noteq> []" by (auto split: if_splits)
    have k: "count (Add (Some b) m s) = (count s)(m := count s m + 1)" "\<not> bf_module_fail (bl_flags b (Add (Some b) m s))"
      using added[OF Cons.prems(1) m] by auto
    have "members_after h ((count s)(m := count s m + 1)) = Some c" using Cons.prems(2) Added m by simp
    then have "count (fold (filter_apply b) h (Add (Some b) m s)) = c" by (intro Cons.IH k(2)) (simp only: k(1))
    then show ?thesis using Added by simp
  next
    case (Deleted m)
    with Cons.prems have m: "m \<noteq> []" "count s m > 0" by (auto split: if_splits)
    have k: "count (Delete_member (Some b) m s) = (count s)(m := count s m - 1)" "\<not> bf_module_fail (bl_flags b (Delete_member (Some b) m s))"
      using deleted[OF Cons.prems(1) m] by auto
    have "members_after h ((count s)(m := count s m - 1)) = Some c" using Cons.prems(2) Deleted m by simp
    then have "count (fold (filter_apply b) h (Delete_member (Some b) m s)) = c" by (intro Cons.IH k(2)) (simp only: k(1))
    then show ?thesis using Deleted by simp
  qed
qed

end

section \<open>A filter in memory\<close>

text \<open>
  It replies in RESP3, the protocol \<open>go-redis\<close> asks for. The members with their counts
  once the filter is made, the flags of the client and the faults of the next calls; \<open>part\<close> and \<open>put\<close> place it in a larger world.
\<close>

type_synonym cf_store = "(string \<Rightarrow> nat) option \<times> bloom_flags \<times> io_error option list"

definition cf_fault :: "cf_store \<Rightarrow> io_error option \<times> cf_store" where
  "cf_fault x = (case x of (c, f, []) \<Rightarrow> (None, x) | (c, f, v # vs) \<Rightarrow> (v, (c, f, vs)))"

fun cf_run :: "cf_command \<Rightarrow> (string \<Rightarrow> nat) option \<Rightarrow> (io_error + cf_reply) \<times> (string \<Rightarrow> nat) option" where
  "cf_run (CfReserve k i j l n) c = (case c of None \<Rightarrow> (Inr (CfScalar (CfText ''OK'')), Some (\<lambda>_. 0))
     | Some _ \<Rightarrow> (Inl (IoError ''ERR item exists''), c))"
| "cf_run (CfAdd k m) c = (let f = (case c of None \<Rightarrow> (\<lambda>_. 0) | Some f \<Rightarrow> f) in
     (Inr (CfScalar (CfBool True)), Some (f(m := f m + 1))))"
| "cf_run (CfDel k m) c = (case c of None \<Rightarrow> (Inl (IoError ''ERR not found''), c)
     | Some f \<Rightarrow> (Inr (CfScalar (CfBool (f m > 0))), Some (f(m := f m - 1))))"
| "cf_run (CfExists k m) c = (case c of None \<Rightarrow> (Inr (CfScalar (CfBool False)), c)
     | Some f \<Rightarrow> (Inr (CfScalar (CfBool (f m > 0))), c))"
| "cf_run (CfInfo k) c = (Inr (CfMap []), c)"

definition mem_bloom :: "('s \<Rightarrow> cf_store) \<Rightarrow> (cf_store \<Rightarrow> 's \<Rightarrow> 's) \<Rightarrow> 's bloom" where
  "mem_bloom part put = \<lparr>
     bl_do = (\<lambda>c s. case cf_fault (part s) of
         (Some e, x) \<Rightarrow> (Inl e, put x s)
       | (None, x) \<Rightarrow> (case cf_run c (fst x) of (r, m) \<Rightarrow> (r, put (m, snd x) s))),
     bl_exists = (\<lambda>k s. case cf_fault (part s) of
         (Some e, x) \<Rightarrow> (Inl e, put x s)
       | (None, x) \<Rightarrow> (Inr (if fst x = None then 0 else 1), put x s)),
     bl_unicode = \<lparr>un_lower = (\<lambda>t. t), un_letter = (\<lambda>t. False), un_digit = (\<lambda>t. False)\<rparr>,
     bl_key = ''cf:knowpost:ids'', bl_capacity = 1000000, bl_bucket_size = 2, bl_max_iter = 20, bl_expansion = 1,
     bl_flags = (\<lambda>s. fst (snd (part s))),
     bl_set_flags = (\<lambda>f s. put (fst (part s), f, snd (snd (part s))) s)\<rparr>"

definition cf_count :: "cf_store \<Rightarrow> string \<Rightarrow> nat" where
  "cf_count x = (case fst x of None \<Rightarrow> (\<lambda>_. 0) | Some f \<Rightarrow> f)"

lemma cf_fault_keeps: "cf_fault x = (v, y) \<Longrightarrow> fst y = fst x \<and> fst (snd y) = fst (snd x)"
  by (auto simp: cf_fault_def split: prod.splits list.splits)

lemma cf_fault_store: "cf_fault x = (v, c, f, vs) \<Longrightarrow> fst x = c \<and> fst (snd x) = f"
  using cf_fault_keeps[of x v "(c, f, vs)"] by simp

lemma cf_fault_up [simp]: "cf_fault (c, f, []) = (None, (c, f, []))"
  by (simp add: cf_fault_def)

lemma mem_bloom_filter:
  assumes "\<And>x s. fst (part (put x s)) = fst x" "\<And>x s. fst (snd (part (put x s))) = fst (snd x)"
  shows "cuckoo_filter (mem_bloom part put) (\<lambda>s. cf_count (part s)) (\<lambda>s. fst (part s) \<noteq> None)"
proof unfold_locales
  show "bl_flags (mem_bloom part put) s1 = bl_flags (mem_bloom part put) s \<and> (fst (part s) \<noteq> None \<longrightarrow> fst (part s1) \<noteq> None)"
    if "bl_do (mem_bloom part put) c s = (r, s1)" for c r s s1
    using that assms cf_fault_keeps[of "part s"]
    by (cases c) (auto simp: mem_bloom_def split: prod.splits option.splits sum.splits)
qed (auto simp: mem_bloom_def assms cf_count_def cf_found_def Let_def split: prod.splits option.splits if_splits dest: cf_fault_store)

interpretation mem_filter: cuckoo_filter "mem_bloom id (\<lambda>x _. x)" "\<lambda>s. cf_count (id s)" "\<lambda>s. fst (id s) \<noteq> None"
  by (rule mem_bloom_filter) simp_all

text \<open>The same without faults: a module that is up.\<close>

definition up_bloom :: "((string \<Rightarrow> nat) option \<times> bloom_flags) bloom" where
  "up_bloom = mem_bloom (\<lambda>s. (fst s, snd s, [])) (\<lambda>x s. (fst x, fst (snd x)))"

interpretation up_filter: cuckoo_filter_up up_bloom "\<lambda>s. cf_count (fst s, snd s, [])" "\<lambda>s. fst (fst s, snd s, []) \<noteq> None"
  unfolding up_bloom_def
proof (rule cuckoo_filter_up.intro)
  show "cuckoo_filter (mem_bloom (\<lambda>s. (fst s, snd s, [])) (\<lambda>x s. (fst x, fst (snd x)))) (\<lambda>s. cf_count (fst s, snd s, []))
      (\<lambda>s. fst (fst s, snd s, []) \<noteq> None)"
    using mem_bloom_filter[of "\<lambda>s. (fst s, snd s, [])" "\<lambda>x s. (fst x, fst (snd x))"] by simp
qed (unfold_locales, auto simp: mem_bloom_def cf_count_def Let_def split: option.splits prod.splits)

text \<open>
  C26: the filter never denies a post that is there: over a module that answers and
  reports a member by the integer 1 or the boolean true, after any history of additions
  and deletions in which only members are deleted, whatever was added more often than
  deleted is answered "may exist".
\<close>

theorem filter_never_hides:
  assumes "cuckoo_filter_up b count there" "\<not> bf_module_fail (bl_flags b s)"
    and "members_after h (count s) = Some c" "c m > 0"
  shows "fst (fst (MightContain (Some b) m (fold (filter_apply b) h s)))"
proof -
  have "count (fold (filter_apply b) h s) = c" by (rule cuckoo_filter_up.history_counts[OF assms(1-3)])
  then show ?thesis using cuckoo_filter.member_not_denied[of b count there] assms(1,4) by (simp add: cuckoo_filter_up_def)
qed

theorem filter_never_hides_witness:
  "fst (fst (MightContain (Some up_bloom) ''7''
     (fold (filter_apply up_bloom) [Added ''7'', Added ''8'', Deleted ''8'']
        (None, \<lparr>bf_ensured = False, bf_module_ok = False, bf_module_fail = False\<rparr>))))"
  by (rule filter_never_hides[OF up_filter.cuckoo_filter_up_axioms, where c = "(\<lambda>_. 0)(''7'' := 1)"])
    (simp_all add: fun_eq_iff cf_count_def up_bloom_def mem_bloom_def)

end
