(* ===== verification/Cache_HotKey.thy ===== *)
theory Cache_HotKey
  imports Redis_Product "HOL-Library.AList"
begin

text \<open>
  \<open>internal/cache/hotkey.go\<close>: accesses are counted in process memory, per key and time
  bucket, and flushed to Redis hashes, where the counts of all instances meet; the sum
  over the last buckets gives a key its level, which lengthens its time to live. The
  buffer and the levels are process memory behind \<open>hd_state\<close> and \<open>hd_put\<close>; the order in
  which Go visits a map is the argument \<open>hd_order\<close>. Times are in seconds. The defaults
  of the configuration keep the bucket length positive. Warnings are not modelled.
\<close>

section \<open>The detector\<close>

datatype hot_level = LevelCold | LevelLow | LevelMedium | LevelHigh

fun level_number :: "hot_level \<Rightarrow> int" where
  "level_number LevelCold = 0" | "level_number LevelLow = 1" | "level_number LevelMedium = 2" | "level_number LevelHigh = 3"

fun level_string :: "hot_level \<Rightarrow> string" where
  "level_string LevelCold = ''cold''" | "level_string LevelLow = ''low''"
| "level_string LevelMedium = ''medium''" | "level_string LevelHigh = ''high''"

record hotkey_config =
  hc_bucket_seconds :: int
  hc_bucket_count :: int
  hc_flush_seconds :: int
  hc_stat_ttl :: int
  hc_mark_ttl :: int
  hc_max_local_keys :: int
  hc_level_low :: int
  hc_level_medium :: int
  hc_level_high :: int
  hc_extend_low :: int
  hc_extend_medium :: int
  hc_extend_high :: int

type_synonym bucket_counts = "(int \<times> int) list"

record hotkey_state =
  hk_buf :: "(string \<times> bucket_counts) list"
  hk_levels :: "(string \<times> hot_level) list"
  hk_max_keys :: int
  hk_started :: bool

record 's hotkey =
  hd_config :: hotkey_config
  hd_redis :: "'s redis"
  hd_state :: "'s \<Rightarrow> hotkey_state"
  hd_put :: "hotkey_state \<Rightarrow> 's \<Rightarrow> 's"
  hd_now :: "'s \<Rightarrow> int"
  hd_order :: "string list \<Rightarrow> 's \<Rightarrow> string list"
  hd_tick :: "'s \<Rightarrow> bool \<times> 's"

definition hotwin_key :: "string \<Rightarrow> string" where "hotwin_key k = ''hotwin:'' @ k"
definition hotkey_active_key :: "string \<Rightarrow> string" where "hotkey_active_key k = ''hotkey:active:'' @ k"

definition new_hotkey_state :: "hotkey_config \<Rightarrow> hotkey_state" where
  "new_hotkey_state c = \<lparr>hk_buf = [], hk_levels = [],
     hk_max_keys = if hc_max_local_keys c > 0 then hc_max_local_keys c else 100000, hk_started = False\<rparr>"

section \<open>Counting\<close>

definition currentBucket :: "'s hotkey \<Rightarrow> 's \<Rightarrow> int" where
  "currentBucket H s = hd_now H s div hc_bucket_seconds (hd_config H)"

definition newest_bucket :: "bucket_counts \<Rightarrow> int" where
  "newest_bucket bs = fold (\<lambda>(b, _) n. if b > n then b else n) bs int64_min"

text \<open>First every key outside of the window goes; when that is not a tenth, any others go too.\<close>

definition evict_oldest :: "'s hotkey \<Rightarrow> 's \<Rightarrow> (string \<times> bucket_counts) list \<Rightarrow> (string \<times> bucket_counts) list" where
  "evict_oldest H s buf =
    (if buf = [] then buf
     else let target = max 1 (length buf div 10);
              stale_before = currentBucket H s - hc_bucket_count (hd_config H);
              kept = filter (\<lambda>(k, bs). \<not> newest_bucket bs < stale_before) buf;
              evicted = length buf - length kept
          in if evicted \<ge> target then kept
             else let gone = take (target - evicted) (hd_order H (map fst kept) s)
                  in filter (\<lambda>(k, bs). k \<notin> set gone) kept)"

definition bump :: "int \<Rightarrow> bucket_counts \<Rightarrow> bucket_counts" where
  "bump b bs = AList.update b ((case map_of bs b of None \<Rightarrow> 0 | Some n \<Rightarrow> n) + 1) bs"

definition Record :: "'s hotkey \<Rightarrow> string \<Rightarrow> 's \<Rightarrow> 's" where
  "Record H k s =
    (let bucket = currentBucket H s; st = hd_state H s; buf = hk_buf st;
         room = (if map_of buf k = None \<and> int (length buf) \<ge> hk_max_keys st then evict_oldest H s buf else buf);
         bs = (case map_of room k of None \<Rightarrow> [] | Some bs \<Rightarrow> bs)
     in hd_put H (st\<lparr>hk_buf := AList.update k (bump bucket bs) room\<rparr>) s)"

definition SetMaxKeys :: "'s hotkey \<Rightarrow> int \<Rightarrow> 's \<Rightarrow> 's" where
  "SetMaxKeys H n s = (if n \<le> 0 then s else hd_put H ((hd_state H s)\<lparr>hk_max_keys := n\<rparr>) s)"

definition snapshotAndReset :: "'s hotkey \<Rightarrow> 's \<Rightarrow> (string \<times> bucket_counts) list \<times> 's" where
  "snapshotAndReset H s = (let st = hd_state H s in (hk_buf st, hd_put H (st\<lparr>hk_buf := []\<rparr>) s))"

definition replaceLevels :: "'s hotkey \<Rightarrow> (string \<times> hot_level) list \<Rightarrow> 's \<Rightarrow> 's" where
  "replaceLevels H ls s = hd_put H ((hd_state H s)\<lparr>hk_levels := ls\<rparr>) s"

section \<open>Levels\<close>

definition staleBucketFields :: "hotkey_config \<Rightarrow> int \<Rightarrow> string list" where
  "staleBucketFields c now =
    (let newest = now - hc_bucket_count c in
     if newest < 0 then []
     else let n = (if hc_bucket_seconds c > 0 then hc_flush_seconds c div hc_bucket_seconds c else 1);
              slack = (if n > 1 then n else 1)
          in map format_int (rev [max (newest - slack) 0..newest]))"

definition in_window :: "hotkey_config \<Rightarrow> int \<Rightarrow> int \<Rightarrow> bool" where
  "in_window c now b = (max 0 (now - hc_bucket_count c + 1) \<le> b \<and> b \<le> now)"

text \<open>The fields of a hash arrive as a map; one that is no number is passed over.\<close>

definition field_count :: "hotkey_config \<Rightarrow> int \<Rightarrow> string \<times> string \<Rightarrow> int" where
  "field_count c now = (\<lambda>(f, v). case parse_int f of None \<Rightarrow> 0
     | Some b \<Rightarrow> if in_window c now b then (case parse_int v of None \<Rightarrow> 0 | Some n \<Rightarrow> n) else 0)"

definition sumBucketsInWindow :: "hotkey_config \<Rightarrow> (string \<times> string) list \<Rightarrow> int \<Rightarrow> int" where
  "sumBucketsInWindow c vals now = sum_list (map (field_count c now) (AList.clearjunk vals))"

definition calcLevel :: "hotkey_config \<Rightarrow> int \<Rightarrow> hot_level" where
  "calcLevel c hits =
    (if hits \<ge> hc_level_high c then LevelHigh else if hits \<ge> hc_level_medium c then LevelMedium
     else if hits \<ge> hc_level_low c then LevelLow else LevelCold)"

definition parseMarkLevel :: "string \<Rightarrow> hot_level" where
  "parseMarkLevel t = (case parse_int t of None \<Rightarrow> LevelMedium
     | Some n \<Rightarrow> if n = 1 then LevelLow else if n = 3 then LevelHigh else LevelMedium)"

definition ttlForLevel :: "hotkey_config \<Rightarrow> int \<Rightarrow> hot_level \<Rightarrow> int" where
  "ttlForLevel c base l = (case l of LevelHigh \<Rightarrow> base + hc_extend_high c | LevelMedium \<Rightarrow> base + hc_extend_medium c
     | LevelLow \<Rightarrow> base + hc_extend_low c | LevelCold \<Rightarrow> base)"

section \<open>Flushing\<close>

definition write_stats :: "'s hotkey \<Rightarrow> string list \<Rightarrow> string \<times> bucket_counts \<Rightarrow> 's \<Rightarrow> 's" where
  "write_stats H stale = (\<lambda>(k, bs) s.
     let R = hd_redis H; key = hotwin_key k in
     r_expire R key (hc_stat_ttl (hd_config H) * 1000)
       (fold (\<lambda>f. r_hdel R key f) stale (fold (\<lambda>(b, n). r_hincrby R key (format_int b) n) bs s)))"

definition read_levels :: "'s hotkey \<Rightarrow> string list \<Rightarrow> int \<Rightarrow> 's \<Rightarrow> (string \<times> hot_level) list \<times> 's" where
  "read_levels H ks now s = (let c = hd_config H; R = hd_redis H in
     case rd R (\<lambda>s. map (\<lambda>k. r_hgetall R (hotwin_key k) s) ks) s of
       (Inl e, s1) \<Rightarrow> ([], s1)
     | (Inr vs, s1) \<Rightarrow> (map2 (\<lambda>k v. (k, calcLevel c (sumBucketsInWindow c v now))) ks vs, s1))"

text \<open>A pipeline without commands is not sent.\<close>

definition mark_hot :: "'s hotkey \<Rightarrow> (string \<times> hot_level) list \<Rightarrow> 's \<Rightarrow> 's" where
  "mark_hot H ls s = (let R = hd_redis H; hot = filter (\<lambda>(k, l). l \<noteq> LevelCold) ls in
     if hot = [] then s
     else snd (wr R (fold (\<lambda>(k, l). r_set R (hotkey_active_key k) (format_int (level_number l)) (Some (hc_mark_ttl (hd_config H) * 1000))) hot) s))"

definition flushOnce :: "'s hotkey \<Rightarrow> 's \<Rightarrow> 's" where
  "flushOnce H s = (case snapshotAndReset H s of
      (snapshot, s1) \<Rightarrow>
        (if snapshot = [] then replaceLevels H [] s1
         else let now = currentBucket H s1; stale = staleBucketFields (hd_config H) now in
           case wr (hd_redis H) (fold (write_stats H stale) snapshot) s1 of
             (Inl e, s2) \<Rightarrow> s2
           | (Inr _, s2) \<Rightarrow>
               (case read_levels H (map fst snapshot) now s2 of
                  (ls, s3) \<Rightarrow> replaceLevels H ls (mark_hot H ls s3))))"

partial_function (option) flushLoop :: "'s hotkey \<Rightarrow> 's \<Rightarrow> 's option" where
  "flushLoop H s = (case hd_tick H s of (ticked, s1) \<Rightarrow> if ticked then flushLoop H (flushOnce H s1) else Some s1)"

text \<open>Only the first start runs; when the context ends, a last flush follows.\<close>

definition RunUntilDone :: "'s hotkey \<Rightarrow> 's \<Rightarrow> 's option" where
  "RunUntilDone H s =
    (let st = hd_state H s in
     if hk_started st then Some s
     else map_option (flushOnce H) (flushLoop H (hd_put H (st\<lparr>hk_started := True\<rparr>) s)))"

section \<open>Asking\<close>

definition remember_level :: "string \<Rightarrow> hot_level \<Rightarrow> hotkey_state \<Rightarrow> hotkey_state" where
  "remember_level k l st = (if int (length (hk_levels st)) < hk_max_keys st then st\<lparr>hk_levels := AList.update k l (hk_levels st)\<rparr> else st)"

definition getLevel :: "'s hotkey \<Rightarrow> string \<Rightarrow> 's \<Rightarrow> hot_level \<times> 's" where
  "getLevel H k s = (case map_of (hk_levels (hd_state H s)) k of
      Some l \<Rightarrow> (l, s)
    | None \<Rightarrow>
        (case rd (hd_redis H) (r_get (hd_redis H) (hotkey_active_key k)) s of
           (Inl e, s1) \<Rightarrow> (LevelCold, s1)
         | (Inr None, s1) \<Rightarrow> (LevelCold, s1)
         | (Inr (Some t), s1) \<Rightarrow>
             (parseMarkLevel t, hd_put H (remember_level k (parseMarkLevel t) (hd_state H s1)) s1)))"

definition TTLForPublic :: "'s hotkey \<Rightarrow> int \<Rightarrow> string \<Rightarrow> 's \<Rightarrow> int \<times> 's" where
  "TTLForPublic H base k s = (case getLevel H k s of (l, s1) \<Rightarrow> (ttlForLevel (hd_config H) base l, s1))"

definition batch_ttl :: "'s hotkey \<Rightarrow> int \<Rightarrow> (string \<times> hot_level) list \<Rightarrow> (string \<Rightarrow> string option) \<Rightarrow> string \<Rightarrow> int" where
  "batch_ttl H base levels marks k = (case map_of levels k of
      Some l \<Rightarrow> ttlForLevel (hd_config H) base l
    | None \<Rightarrow> (case marks k of None \<Rightarrow> base | Some t \<Rightarrow> ttlForLevel (hd_config H) base (parseMarkLevel t)))"

definition TTLForPublicBatch :: "'s hotkey \<Rightarrow> int \<Rightarrow> string list \<Rightarrow> 's \<Rightarrow> int list \<times> 's" where
  "TTLForPublicBatch H base ks s =
    (let R = hd_redis H; levels = hk_levels (hd_state H s); missing = filter (\<lambda>k. map_of levels k = None) ks in
     if missing = [] then (map (batch_ttl H base levels (\<lambda>_. None)) ks, s)
     else (case rd R (\<lambda>s. map (\<lambda>k. r_get R (hotkey_active_key k) s) missing) s of
         (Inl e, s1) \<Rightarrow> (map (batch_ttl H base levels (\<lambda>_. None)) ks, s1)
       | (Inr marks, s1) \<Rightarrow>
           (let mark = (\<lambda>k. case map_of (zip missing marks) k of None \<Rightarrow> None | Some m \<Rightarrow> m);
                st = fold (\<lambda>(k, m) st. case m of None \<Rightarrow> st | Some t \<Rightarrow> remember_level k (parseMarkLevel t) st)
                       (zip missing marks) (hd_state H s1)
            in (map (batch_ttl H base levels mark) ks, hd_put H st s1))))"
end
