(* ===== verification/Cache_Hot_Props.thy ===== *)
theory Cache_Hot_Props
  imports Cache_HotKey
begin

text \<open>
  What the hot key detector keeps and answers: the buffer and the levels stay within
  their limit, the batched question gives the answers of the single ones, and a
  flush adds the local counts to those of all instances.
\<close>

section \<open>The world of a detector\<close>

text \<open>Process memory and Redis do not touch each other; a map is visited in some order, each key once.\<close>

locale hot_memory =
  fixes H :: "'s hotkey" and view :: "'s \<Rightarrow> keyspace"
  assumes state_put [simp]: "hd_state H (hd_put H st s) = st"
    and put_view [simp]: "view (hd_put H st s) = view s"
    and net_state [simp]: "hd_state H (snd (r_net (hd_redis H) s)) = hd_state H s"
    and set_state [simp]: "hd_state H (r_set (hd_redis H) k v t s) = hd_state H s"
    and expire_state [simp]: "hd_state H (r_expire (hd_redis H) k n s) = hd_state H s"
    and hincrby_state [simp]: "hd_state H (r_hincrby (hd_redis H) k f d s) = hd_state H s"
    and hdel_state [simp]: "hd_state H (r_hdel (hd_redis H) k f s) = hd_state H s"
    and order_perm: "distinct ks \<Longrightarrow> distinct (hd_order H ks s) \<and> set (hd_order H ks s) = set ks"

locale hot_world = hot_memory H view + redis_up "hd_redis H" view for H :: "'s hotkey" and view

section \<open>Limits\<close>

definition hot_bounded :: "hotkey_state \<Rightarrow> bool" where
  "hot_bounded st = (distinct (map fst (hk_buf st)) \<and> 0 < hk_max_keys st \<and>
     int (length (hk_buf st)) \<le> hk_max_keys st \<and> int (length (hk_levels st)) \<le> hk_max_keys st)"

lemma length_update: "length (AList.update k v xs) = (if map_of xs k = None then Suc (length xs) else length xs)"
  by (induction xs) auto

lemma update_present: "map_of xs k = Some v \<Longrightarrow> AList.update k v xs = xs"
  by (induction xs) (auto split: if_splits)

lemma map_of_filter_key: "map_of (filter (\<lambda>(k, v). P k) xs) x = (if P x then map_of xs x else None)"
  by (induction xs) auto

lemma distinct_keys_filter: "distinct (map fst xs) \<Longrightarrow> distinct (map fst (filter P xs))"
  by (induction xs) auto

lemma remember_bounded [simp]:
  "hot_bounded st \<Longrightarrow> hot_bounded (remember_level k l st)"
  "hk_buf (remember_level k l st) = hk_buf st" "hk_max_keys (remember_level k l st) = hk_max_keys st"
  by (auto simp: hot_bounded_def remember_level_def length_update)

context hot_memory
begin

lemma evict_makes_room:
  assumes "distinct (map fst buf)" "buf \<noteq> []"
  shows "length (evict_oldest H s buf) < length buf \<and> distinct (map fst (evict_oldest H s buf)) \<and>
    set (evict_oldest H s buf) \<subseteq> set buf"
proof -
  let ?target = "max 1 (length buf div 10)"
  define kept where "kept = filter (\<lambda>(k, bs). \<not> newest_bucket bs < currentBucket H s - hc_bucket_count (hd_config H)) buf"
  have e: "evict_oldest H s buf = (if length buf - length kept \<ge> ?target then kept
      else filter (\<lambda>(k, bs). k \<notin> set (take (?target - (length buf - length kept)) (hd_order H (map fst kept) s))) kept)"
    unfolding evict_oldest_def kept_def Let_def using assms(2) by (simp only: if_False)
  have le: "length kept \<le> length buf" and d: "distinct (map fst kept)" and sub: "set kept \<subseteq> set buf"
    using assms(1) by (auto simp: kept_def distinct_keys_filter)
  show ?thesis
  proof (cases "length buf - length kept \<ge> ?target")
    case True
    then have "length kept < length buf" using assms(2) by (cases buf) auto
    with True d sub show ?thesis by (simp add: e)
  next
    case False
    let ?gone = "take (?target - (length buf - length kept)) (hd_order H (map fst kept) s)"
    let ?out = "filter (\<lambda>(k, bs). k \<notin> set ?gone) kept"
    have o: "distinct (hd_order H (map fst kept) s)" "set (hd_order H (map fst kept) s) = fst ` set kept"
      using order_perm[OF d, of s] by auto
    have "buf \<noteq> [] \<Longrightarrow> ?target \<le> length buf" by (cases buf) auto
    then have "kept \<noteq> []" using False assms(2) by auto
    then have "hd_order H (map fst kept) s \<noteq> []" using o(2) by auto
    then obtain x where x: "x \<in> set ?gone" using False by (metis diff_is_0_eq length_greater_0_conv linorder_not_le list.set_sel(1) take_eq_Nil)
    then have "x \<in> fst ` set kept" using o(2) in_set_takeD by fastforce
    with x have "length ?out < length kept" by (auto intro!: length_filter_less)
    moreover have "evict_oldest H s buf = ?out" using False by (simp only: e if_False)
    ultimately show ?thesis using le d sub by (auto simp: distinct_keys_filter)
  qed
qed

lemma record_bounded:
  assumes "hot_bounded (hd_state H s)"
  shows "hot_bounded (hd_state H (Record H k s))"
proof -
  let ?st = "hd_state H s"
  let ?buf = "hk_buf ?st"
  let ?full = "map_of ?buf k = None \<and> int (length ?buf) \<ge> hk_max_keys ?st"
  define room where "room = (if ?full then evict_oldest H s ?buf else ?buf)"
  have b: "distinct (map fst ?buf)" "0 < hk_max_keys ?st" "int (length ?buf) \<le> hk_max_keys ?st"
    using assms by (auto simp: hot_bounded_def)
  have "length room < length ?buf" "distinct (map fst room)" if ?full
    using evict_makes_room[of ?buf s] b that by (auto simp: room_def)
  then have "distinct (map fst room)" "int (length room) + (if map_of room k = None then 1 else 0) \<le> hk_max_keys ?st"
    using b by (cases ?full; auto simp: room_def)+
  then show ?thesis using assms
    by (auto simp: Record_def Let_def hot_bounded_def room_def[symmetric] length_update distinct_update)
qed

lemma redis_state [simp]:
  assumes "\<And>s. hd_state H (snd (f s)) = hd_state H s"
  shows "hd_state H (snd (roundtrip (hd_redis H) f s)) = hd_state H s"
proof -
  obtain v s1 where n: "r_net (hd_redis H) s = (v, s1)" by (cases "r_net (hd_redis H) s")
  then have "hd_state H s1 = hd_state H s" using net_state[of s] by (simp del: net_state)
  with n assms[of s1] show ?thesis by (cases v) (simp_all add: roundtrip_def case_prod_beta)
qed

lemma rd_state: "rd (hd_redis H) f s = (r, s1) \<Longrightarrow> hd_state H s1 = hd_state H s"
  using redis_state[of "\<lambda>s. (f s, s)" s] by (simp add: rd_def)

lemma wr_state: "(\<And>s. hd_state H (f s) = hd_state H s) \<Longrightarrow> wr (hd_redis H) f s = (r, s1) \<Longrightarrow> hd_state H s1 = hd_state H s"
  using redis_state[of "\<lambda>s. ((), f s)" s] by (simp add: wr_def)

lemma get_level_bounded:
  assumes "hot_bounded (hd_state H s)"
  shows "hot_bounded (hd_state H (snd (getLevel H k s)))"
  using assms by (auto simp: getLevel_def split: option.splits prod.splits sum.splits dest: rd_state)

lemma remember_all_bounded:
  "hot_bounded st \<Longrightarrow> hot_bounded (fold (\<lambda>(k, m) st. case m of None \<Rightarrow> st | Some t \<Rightarrow> remember_level k (parseMarkLevel t) st) ms st)"
  by (induction ms arbitrary: st) (auto split: option.splits)

lemma batch_bounded:
  assumes "hot_bounded (hd_state H s)"
  shows "hot_bounded (hd_state H (snd (TTLForPublicBatch H base ks s)))"
  using assms by (auto simp: TTLForPublicBatch_def Let_def remember_all_bounded split: prod.splits sum.splits dest: rd_state)

lemma write_stats_state [simp]: "hd_state H (write_stats H stale x s) = hd_state H s"
proof -
  have "hd_state H (fold (\<lambda>f. r_hdel (hd_redis H) key f) fs s) = hd_state H s" for key fs s
    by (induction fs arbitrary: s) auto
  moreover have "hd_state H (fold (\<lambda>(b, n). r_hincrby (hd_redis H) key (format_int b) n) bs s) = hd_state H s" for key bs s
    by (induction bs arbitrary: s) auto
  ultimately show ?thesis by (cases x) (simp add: write_stats_def Let_def)
qed

lemma write_all_state [simp]: "hd_state H (fold (write_stats H stale) xs s) = hd_state H s"
  by (induction xs arbitrary: s) auto

lemma mark_hot_state [simp]: "hd_state H (mark_hot H ls s) = hd_state H s"
proof -
  have f: "hd_state H (fold (\<lambda>(k, l). r_set (hd_redis H) (hotkey_active_key k) (format_int (level_number l)) t) xs s) = hd_state H s"
    for xs t s
    by (induction xs arbitrary: s) auto
  have "hd_state H (snd (wr (hd_redis H) g s)) = hd_state H s" if "\<And>s. hd_state H (g s) = hd_state H s" for g
    using wr_state[OF that surjective_pairing] .
  then show ?thesis by (simp add: mark_hot_def Let_def f)
qed

lemma read_levels_state: "read_levels H ks now s = (ls, s1) \<Longrightarrow> hd_state H s1 = hd_state H s \<and> length ls \<le> length ks"
  by (auto simp: read_levels_def Let_def split: prod.splits sum.splits dest: rd_state)

lemma flush_state:
  "hk_buf (hd_state H (flushOnce H s)) = [] \<and> hk_max_keys (hd_state H (flushOnce H s)) = hk_max_keys (hd_state H s) \<and>
   (length (hk_levels (hd_state H (flushOnce H s))) \<le> length (hk_buf (hd_state H s)) \<or>
    hk_levels (hd_state H (flushOnce H s)) = hk_levels (hd_state H s))"
proof -
  let ?st = "hd_state H s"
  let ?s1 = "hd_put H (?st\<lparr>hk_buf := []\<rparr>) s"
  show ?thesis
  proof (cases "hk_buf ?st = []")
    case True
    then show ?thesis by (simp add: flushOnce_def snapshotAndReset_def Let_def replaceLevels_def)
  next
    case False
    let ?now = "currentBucket H ?s1"
    obtain r s2 where w: "wr (hd_redis H) (fold (write_stats H (staleBucketFields (hd_config H) ?now)) (hk_buf ?st)) ?s1 = (r, s2)"
      by (cases "wr (hd_redis H) (fold (write_stats H (staleBucketFields (hd_config H) ?now)) (hk_buf ?st)) ?s1")
    have s2: "hd_state H s2 = ?st\<lparr>hk_buf := []\<rparr>" using wr_state[OF _ w] by simp
    obtain ls s3 where l: "read_levels H (map fst (hk_buf ?st)) ?now s2 = (ls, s3)"
      by (cases "read_levels H (map fst (hk_buf ?st)) ?now s2")
    show ?thesis using False w s2 l read_levels_state[OF l]
      by (cases r) (simp_all add: flushOnce_def snapshotAndReset_def Let_def replaceLevels_def)
  qed
qed

lemma hot_limits:
  "hk_max_keys (hd_state H (Record H k s)) = hk_max_keys (hd_state H s)"
  "hk_max_keys (hd_state H (flushOnce H s)) = hk_max_keys (hd_state H s)"
  "hk_max_keys (hd_state H (snd (getLevel H k s))) = hk_max_keys (hd_state H s)"
  "hk_max_keys (hd_state H (snd (TTLForPublicBatch H base ks s))) = hk_max_keys (hd_state H s)"
proof -
  have "hk_max_keys (fold (\<lambda>(k, m) st. case m of None \<Rightarrow> st | Some t \<Rightarrow> remember_level k (parseMarkLevel t) st) ms st) = hk_max_keys st" for ms st
    by (induction ms arbitrary: st) (auto split: option.splits)
  then show "hk_max_keys (hd_state H (snd (TTLForPublicBatch H base ks s))) = hk_max_keys (hd_state H s)"
    by (auto simp: TTLForPublicBatch_def Let_def split: prod.splits sum.splits dest: rd_state)
qed (use flush_state in \<open>auto simp: Record_def Let_def getLevel_def split: option.splits prod.splits sum.splits dest: rd_state\<close>)

lemma flush_bounded: "hot_bounded (hd_state H s) \<Longrightarrow> hot_bounded (hd_state H (flushOnce H s))"
  using flush_state[of s] by (auto simp: hot_bounded_def)

end

text \<open>What a process does with its detector, in any order.\<close>

datatype hot_step = Access string | Flush | Ask int string | AskAll int "string list"

fun hot_apply :: "'s hotkey \<Rightarrow> hot_step \<Rightarrow> 's \<Rightarrow> 's" where
  "hot_apply H (Access k) s = Record H k s"
| "hot_apply H Flush s = flushOnce H s"
| "hot_apply H (Ask base k) s = snd (TTLForPublic H base k s)"
| "hot_apply H (AskAll base ks) s = snd (TTLForPublicBatch H base ks s)"

text \<open>
  C27: the memory of the hot key detector is bounded: whatever is accessed, asked and
  flushed, in any order, neither the buffer of counts nor the levels ever hold more
  keys than the limit.
\<close>

theorem hot_memory_bounded:
  assumes "hot_memory H view" "hd_state H s = new_hotkey_state cfg"
  shows "int (length (hk_buf (hd_state H (fold (hot_apply H) steps s)))) \<le> hk_max_keys (new_hotkey_state cfg) \<and>
    int (length (hk_levels (hd_state H (fold (hot_apply H) steps s)))) \<le> hk_max_keys (new_hotkey_state cfg)"
proof -
  have step: "hot_bounded (hd_state H (hot_apply H st s)) \<and> hk_max_keys (hd_state H (hot_apply H st s)) = hk_max_keys (hd_state H s)"
    if "hot_bounded (hd_state H s)" for st s
    using that hot_memory.record_bounded[OF assms(1)] hot_memory.flush_bounded[OF assms(1)]
      hot_memory.get_level_bounded[OF assms(1)] hot_memory.batch_bounded[OF assms(1)] hot_memory.hot_limits[OF assms(1)]
    by (cases st) (auto simp: TTLForPublic_def case_prod_beta)
  have "hot_bounded (hd_state H (fold (hot_apply H) steps s)) \<and>
      hk_max_keys (hd_state H (fold (hot_apply H) steps s)) = hk_max_keys (hd_state H s)" if "hot_bounded (hd_state H s)" for s
    using that by (induction steps arbitrary: s) (use step in auto)
  note run = this
  have "hot_bounded (new_hotkey_state cfg)" by (simp add: hot_bounded_def new_hotkey_state_def)
  with run[of s] assms(2) show ?thesis by (simp add: hot_bounded_def)
qed

section \<open>One question for many keys\<close>

fun ask_each :: "'s hotkey \<Rightarrow> int \<Rightarrow> string list \<Rightarrow> 's \<Rightarrow> int list \<times> 's" where
  "ask_each H base [] s = ([], s)"
| "ask_each H base (k # ks) s = (case TTLForPublic H base k s of (t, s1) \<Rightarrow>
     (case ask_each H base ks s1 of (ts, s2) \<Rightarrow> (t # ts, s2)))"

definition mark_of :: "keyspace \<Rightarrow> string \<Rightarrow> string option" where
  "mark_of ks k = ks_str ks (hotkey_active_key k)"

definition take_mark :: "keyspace \<Rightarrow> string \<Rightarrow> hotkey_state \<Rightarrow> hotkey_state" where
  "take_mark ks k st = (case mark_of ks k of None \<Rightarrow> st | Some t \<Rightarrow> remember_level k (parseMarkLevel t) st)"

definition learn_mark :: "keyspace \<Rightarrow> string \<Rightarrow> hotkey_state \<Rightarrow> hotkey_state" where
  "learn_mark ks k st = (if map_of (hk_levels st) k = None then take_mark ks k st else st)"

lemma map_of_remember: "map_of (hk_levels (remember_level k l st)) x =
  (if x = k \<and> int (length (hk_levels st)) < hk_max_keys st then Some l else map_of (hk_levels st) x)"
  by (simp add: remember_level_def update_conv')

lemma learn_same_ttl [simp]: "batch_ttl H base (hk_levels (learn_mark v k st)) (mark_of v) = batch_ttl H base (hk_levels st) (mark_of v)"
  by (auto simp: fun_eq_iff batch_ttl_def learn_mark_def take_mark_def map_of_remember split: option.splits)

lemma take_marks_learn:
  assumes "\<And>k l. map_of L k = Some l \<Longrightarrow> map_of (hk_levels st) k \<noteq> None"
    and "\<And>k l. map_of L k = None \<Longrightarrow> map_of (hk_levels st) k = Some l \<Longrightarrow> \<exists>t. mark_of v k = Some t \<and> l = parseMarkLevel t"
  shows "fold (take_mark v) (filter (\<lambda>k. map_of L k = None) ks) st = fold (learn_mark v) ks st"
  using assms
proof (induction ks arbitrary: st)
  case Nil
  then show ?case by simp
next
  case (Cons k ks)
  have "take_mark v k st = learn_mark v k st" if "map_of L k = None"
    using Cons.prems(2)[OF that] by (auto simp: take_mark_def learn_mark_def remember_level_def update_present split: option.splits)
  moreover have "learn_mark v k st = st" if n: "map_of L k \<noteq> None"
  proof -
    obtain l where "map_of L k = Some l" using n by auto
    with Cons.prems(1)[of k l] show ?thesis by (auto simp: learn_mark_def)
  qed
  moreover have "fold (take_mark v) (filter (\<lambda>k. map_of L k = None) ks) (learn_mark v k st) = fold (learn_mark v) ks (learn_mark v k st)"
    using Cons.prems
    by (intro Cons.IH) (auto simp: learn_mark_def take_mark_def map_of_remember split: option.splits if_splits)
  ultimately show ?case by (cases "map_of L k = None") auto
qed

context hot_world
begin

lemma ask_one:
  assumes "TTLForPublic H base k s = (t, s1)"
  shows "t = batch_ttl H base (hk_levels (hd_state H s)) (mark_of (view s)) k \<and> view s1 = view s \<and>
    hd_state H s1 = learn_mark (view s) k (hd_state H s)"
proof -
  obtain s2 where r: "rd (hd_redis H) (r_get (hd_redis H) (hotkey_active_key k)) s = (Inr (mark_of (view s) k), s2)" "view s2 = view s"
    using rd_up[where s = s and f = "r_get (hd_redis H) (hotkey_active_key k)"] by (auto simp: mark_of_def)
  show ?thesis using assms r rd_state[OF r(1)]
    by (auto simp: TTLForPublic_def getLevel_def batch_ttl_def learn_mark_def take_mark_def ttlForLevel_def split: option.splits)
qed

lemma ask_each_result:
  "ask_each H base ks s = (ts, s1) \<Longrightarrow> ts = map (batch_ttl H base (hk_levels (hd_state H s)) (mark_of (view s))) ks \<and>
   view s1 = view s \<and> hd_state H s1 = fold (learn_mark (view s)) ks (hd_state H s)"
proof (induction ks arbitrary: s ts s1)
  case Nil
  then show ?case by simp
next
  case (Cons k ks)
  obtain t s2 where t: "TTLForPublic H base k s = (t, s2)" by (cases "TTLForPublic H base k s")
  obtain ts2 s3 where e: "ask_each H base ks s2 = (ts2, s3)" by (cases "ask_each H base ks s2")
  from Cons.prems t e Cons.IH[OF e] ask_one[OF t] show ?case by auto
qed

lemma ask_all_result:
  assumes "TTLForPublicBatch H base ks s = (ts, s1)"
  shows "ts = map (batch_ttl H base (hk_levels (hd_state H s)) (mark_of (view s))) ks \<and>
   view s1 = view s \<and> hd_state H s1 = fold (learn_mark (view s)) ks (hd_state H s)"
proof -
  let ?L = "hk_levels (hd_state H s)" and ?R = "hd_redis H"
  let ?missing = "filter (\<lambda>k. map_of ?L k = None) ks"
  have st: "fold (take_mark (view s)) ?missing (hd_state H s) = fold (learn_mark (view s)) ks (hd_state H s)"
    by (rule take_marks_learn) auto
  show ?thesis
  proof (cases "?missing = []")
    case True
    then have "\<forall>k \<in> set ks. map_of ?L k \<noteq> None" by (simp add: filter_empty_conv)
    then have "map (batch_ttl H base ?L (\<lambda>_. None)) ks = map (batch_ttl H base ?L (mark_of (view s))) ks"
      by (intro map_cong) (auto simp: batch_ttl_def)
    then show ?thesis using assms True st by (auto simp: TTLForPublicBatch_def Let_def)
  next
    case False
    obtain s2 where r: "rd ?R (\<lambda>s. map (\<lambda>k. r_get ?R (hotkey_active_key k) s) ?missing) s = (Inr (map (mark_of (view s)) ?missing), s2)"
        "view s2 = view s"
      using rd_up[where s = s and f = "\<lambda>s. map (\<lambda>k. r_get ?R (hotkey_active_key k) s) ?missing"] by (auto simp: mark_of_def)
    have z: "map_of (zip ?missing (map (mark_of (view s)) ?missing)) k = (if k \<in> set ?missing then Some (mark_of (view s) k) else None)" for k
      by (simp add: map_of_zip_map)
    have f: "fold (\<lambda>(k, m) st. case m of None \<Rightarrow> st | Some t \<Rightarrow> remember_level k (parseMarkLevel t) st) (zip xs (map (mark_of v) xs)) st =
        fold (take_mark v) xs st" for xs v st
      by (induction xs arbitrary: st) (simp_all add: take_mark_def)
    have m: "map (batch_ttl H base ?L (\<lambda>k. case map_of (zip ?missing (map (mark_of (view s)) ?missing)) k of None \<Rightarrow> None | Some m \<Rightarrow> m)) ks =
        map (batch_ttl H base ?L (mark_of (view s))) ks"
      by (rule map_cong) (simp_all add: batch_ttl_def z split: option.splits)
    show ?thesis using assms False r rd_state[OF r(1)] st m
      by (auto simp add: TTLForPublicBatch_def Let_def f simp del: map_eq_conv)
  qed
qed

end

section \<open>A flush\<close>

text \<open>The count the buffer holds for a key and a bucket.\<close>

definition buffered :: "hotkey_state \<Rightarrow> string \<Rightarrow> int \<Rightarrow> int" where
  "buffered st k b = (case map_of (hk_buf st) k of None \<Rightarrow> 0
     | Some bs \<Rightarrow> (case map_of bs b of None \<Rightarrow> 0 | Some n \<Rightarrow> n))"

definition buffer_ok :: "hotkey_state \<Rightarrow> bool" where
  "buffer_ok st = (distinct (map fst (hk_buf st)) \<and> (\<forall>(k, bs) \<in> set (hk_buf st). distinct (map fst bs)))"

text \<open>Fields are bucket numbers and counts fit \<open>int64\<close>, which the commands keep.\<close>

definition stats_ok :: "keyspace \<Rightarrow> string \<Rightarrow> bool" where
  "stats_ok ks k = (finite (dom (ks_hash ks k)) \<and>
     (\<forall>f v. ks_hash ks k f = Some v \<longrightarrow> in_int64 v \<and> (\<exists>b. in_int64 b \<and> f = format_int b)))"

lemma format_int_eq [simp]: "format_int a = format_int b \<longleftrightarrow> a = b"
  by (metis option.inject tonumber_format_int)

lemma hotwin_key_inj [simp]: "hotwin_key a = hotwin_key b \<longleftrightarrow> a = b"
  by (simp add: hotwin_key_def)

lemma window_sum:
  assumes "map_of vals = map_option format_int \<circ> h" "finite (dom h)"
    and "\<And>f v. h f = Some v \<Longrightarrow> in_int64 v \<and> (\<exists>b. in_int64 b \<and> f = format_int b)"
  shows "sumBucketsInWindow c vals now = (\<Sum>b | in_window c now b. case h (format_int b) of None \<Rightarrow> 0 | Some v \<Rightarrow> v)"
proof -
  let ?xs = "AList.clearjunk vals" and ?W = "{b. in_window c now b}"
  let ?B = "{b \<in> ?W. h (format_int b) \<noteq> None}"
  let ?p = "\<lambda>b. (format_int b, format_int (the (h (format_int b))))"
  have W: "finite ?W" by (rule finite_subset[of _ "{0..now}"]) (auto simp: in_window_def)
  have d: "distinct ?xs" using distinct_clearjunk[of vals] by (simp add: distinct_map)
  have mem: "(f, t) \<in> set ?xs \<longleftrightarrow> (\<exists>v. h f = Some v \<and> t = format_int v)" for f t
  proof -
    have "(f, t) \<in> set ?xs \<longleftrightarrow> map_of ?xs f = Some t"
      using distinct_clearjunk[of vals] by (auto dest: map_of_SomeD)
    then show ?thesis using fun_cong[OF assms(1), of f] by (auto simp: map_of_clearjunk)
  qed
  have "sumBucketsInWindow c vals now = sum (field_count c now) (set ?xs)"
    by (simp add: sumBucketsInWindow_def sum_list_distinct_conv_sum_set[OF d])
  also have "\<dots> = sum (field_count c now) (?p ` ?B)"
  proof (rule sum.mono_neutral_right)
    show "\<forall>x \<in> set ?xs - ?p ` ?B. field_count c now x = 0"
    proof
      fix x assume x: "x \<in> set ?xs - ?p ` ?B"
      obtain f t where ft: "x = (f, t)" by (cases x)
      with x obtain v where v: "h f = Some v" "t = format_int v" by (auto simp: mem)
      with assms(3) obtain b where b: "in_int64 b" "f = format_int b" by blast
      have "\<not> in_window c now b"
      proof
        assume "in_window c now b"
        with v b ft have "x = ?p b" "b \<in> ?B" by auto
        with x show False by blast
      qed
      with ft b show "field_count c now x = 0" by (simp add: field_count_def)
    qed
  qed (use mem in auto)
  also have "\<dots> = (\<Sum>b \<in> ?B. field_count c now (?p b))"
    by (rule sum.reindex_cong[of ?p]) (auto intro: inj_onI)
  also have "\<dots> = (\<Sum>b \<in> ?B. case h (format_int b) of None \<Rightarrow> 0 | Some v \<Rightarrow> v)"
  proof (rule sum.cong[OF refl])
    fix b assume b: "b \<in> ?B"
    then obtain v where v: "h (format_int b) = Some v" by auto
    with assms(3)[OF v] b show "field_count c now (?p b) = (case h (format_int b) of None \<Rightarrow> 0 | Some v \<Rightarrow> v)"
      by (auto simp: field_count_def)
  qed
  also have "\<dots> = (\<Sum>b \<in> ?W. case h (format_int b) of None \<Rightarrow> 0 | Some v \<Rightarrow> v)"
    by (rule sum.mono_neutral_left) (use W in \<open>auto split: option.splits\<close>)
  finally show ?thesis .
qed

lemma hash_hdel: "hash_int (ks_hdel k f ks) k' f' = (if k' = k \<and> f' = f then 0 else hash_int ks k' f')"
  by (simp add: hash_int_def)

text \<open>What one flush adds to a field of a hash.\<close>

definition added_count :: "string list \<Rightarrow> bucket_counts \<Rightarrow> string \<Rightarrow> int \<Rightarrow> int" where
  "added_count stale bs f v = (if f \<in> set stale then 0 else v + sum_list (map snd (filter (\<lambda>(b, n). format_int b = f) bs)))"

locale hot_server = hot_memory H view + redis_server "hd_redis H" view for H :: "'s hotkey" and view

sublocale hot_world \<subseteq> served: hot_server H view ..

context hot_server
begin

lemma write_stats_hash:
  "hash_int (view (write_stats H stale (k, bs) s)) k' f =
    (if k' = hotwin_key k then added_count stale bs f (hash_int (view s) k' f) else hash_int (view s) k' f)"
proof -
  let ?R = "hd_redis H" and ?k = "hotwin_key k"
  have i: "hash_int (view (fold (\<lambda>(b, n). r_hincrby ?R ?k (format_int b) n) bs s)) k' f =
      hash_int (view s) k' f + (if k' = ?k then sum_list (map snd (filter (\<lambda>(b, n). format_int b = f) bs)) else 0)" for s k'
    by (induction bs arbitrary: s) auto
  have d: "hash_int (view (fold (\<lambda>f. r_hdel ?R ?k f) stale s)) k' f = (if k' = ?k \<and> f \<in> set stale then 0 else hash_int (view s) k' f)" for s k'
    by (induction stale arbitrary: s) (auto simp: hash_hdel)
  show ?thesis by (simp add: write_stats_def Let_def i d added_count_def)
qed

lemma write_all_hash:
  "distinct (map fst buf) \<Longrightarrow> hash_int (view (fold (write_stats H stale) buf s)) (hotwin_key k) f =
    (case map_of buf k of None \<Rightarrow> hash_int (view s) (hotwin_key k) f | Some bs \<Rightarrow> added_count stale bs f (hash_int (view s) (hotwin_key k) f))"
proof (induction buf arbitrary: s)
  case Nil
  then show ?case by simp
next
  case (Cons x buf)
  obtain k0 bs where x: "x = (k0, bs)" by (cases x)
  have "map_of buf k = None" if "k = k0" using Cons.prems x that by (auto simp: map_of_eq_None_iff)
  with Cons x show ?case by (auto simp: write_stats_hash split: option.splits)
qed

lemma mark_hot_hash [simp]: "ks_hash (view (mark_hot H ls s)) = ks_hash (view s)"
proof -
  have f: "ks_hash (view (fold (\<lambda>(k, l). r_set (hd_redis H) (hotkey_active_key k) (format_int (level_number l)) t) xs s)) = ks_hash (view s)"
    for xs t s
    by (induction xs arbitrary: s) auto
  have "ks_hash (view (snd (wr (hd_redis H) g s))) = ks_hash (view s)" if "\<And>s. ks_hash (view (g s)) = ks_hash (view s)" for g
  proof -
    obtain r s1 where w: "wr (hd_redis H) g s = (r, s1)" by (cases "wr (hd_redis H) g s")
    have "ks_hash (view s1) = ks_hash (view s)" using w that unfolding wr_def by (elim roundtrip_cases) auto
    with w show ?thesis by simp
  qed
  then show ?thesis by (simp add: mark_hot_def Let_def f)
qed

end

lemma stale_before_window: "in_window c now b \<Longrightarrow> format_int b \<notin> set (staleBucketFields c now)"
  by (auto simp: staleBucketFields_def in_window_def Let_def)

lemma buffered_sum:
  assumes "buffer_ok st" "map_of (hk_buf st) k = Some bs"
  shows "sum_list (map snd (filter (\<lambda>(b', n). format_int b' = format_int b) bs)) = buffered st k b"
proof -
  have d: "distinct (map fst bs)" using assms by (auto simp: buffer_ok_def dest!: map_of_SomeD)
  then have "sum_list (map snd (filter (\<lambda>(b', n). b' = b) bs)) = (case map_of bs b of None \<Rightarrow> 0 | Some n \<Rightarrow> n)"
  proof (induction bs)
    case (Cons x bs)
    have "filter (\<lambda>(b', n). b' = b) bs = [] \<and> map_of bs b = None" if "b \<notin> fst ` set bs"
      using that by (force simp: filter_empty_conv map_of_eq_None_iff)
    with Cons show ?case by (cases x) auto
  qed simp
  then show ?thesis using assms(2) by (simp add: buffered_def)
qed

lemma map2_same: "map2 g xs (map h xs) = map (\<lambda>k. g k (h k)) xs"
  by (induction xs) auto

lemma map_of_tagged: "map_of (map (\<lambda>k. (k, g k)) xs) x = (if x \<in> set xs then Some (g x) else None)"
  by (induction xs) auto

context hot_world
begin

lemma flush_result:
  assumes "buffer_ok (hd_state H s)" "map_of (hk_buf (hd_state H s)) k = Some bs"
    and "\<And>k. k \<in> fst ` set (hk_buf (hd_state H s)) \<Longrightarrow> stats_ok (view (flushOnce H s)) (hotwin_key k)"
    and now: "now = hd_now H (hd_put H ((hd_state H s)\<lparr>hk_buf := []\<rparr>) s) div hc_bucket_seconds (hd_config H)"
  shows "map_of (hk_levels (hd_state H (flushOnce H s))) k =
      Some (calcLevel (hd_config H) (\<Sum>b | in_window (hd_config H) now b. hash_int (view s) (hotwin_key k) (format_int b) + buffered (hd_state H s) k b))"
    and "in_window (hd_config H) now b \<Longrightarrow>
      hash_int (view (flushOnce H s)) (hotwin_key k) (format_int b) = hash_int (view s) (hotwin_key k) (format_int b) + buffered (hd_state H s) k b"
proof -
  let ?st = "hd_state H s" and ?R = "hd_redis H" and ?c = "hd_config H"
  let ?buf = "hk_buf ?st"
  let ?s1 = "hd_put H (?st\<lparr>hk_buf := []\<rparr>) s"
  let ?push = "fold (write_stats H (staleBucketFields ?c now)) ?buf"
  have ne: "?buf \<noteq> []" using assms(2) by auto
  have cur: "currentBucket H ?s1 = now" by (simp add: currentBucket_def now)
  obtain s2 where s2: "view s2 = view ?s1" "wr ?R ?push ?s1 = (Inr (), ?push s2)" by (rule wr_upE)
  let ?ask = "\<lambda>s. map (\<lambda>k. r_hgetall ?R (hotwin_key k) s) (map fst ?buf)"
  obtain s3 where s3: "view s3 = view (?push s2)" "rd ?R ?ask (?push s2) = (Inr (?ask s3), s3)" by (rule rd_upE)
  define ls where "ls = map2 (\<lambda>k v. (k, calcLevel ?c (sumBucketsInWindow ?c v now))) (map fst ?buf) (?ask s3)"
  have flush: "flushOnce H s = replaceLevels H ls (mark_hot H ls s3)"
    using ne s2(2) s3(2) by (simp add: flushOnce_def snapshotAndReset_def Let_def cur read_levels_def ls_def)
  have hash: "ks_hash (view (flushOnce H s)) = ks_hash (view (?push s2))" by (simp add: flush replaceLevels_def s3(1))
  have at: "hash_int (view (flushOnce H s)) (hotwin_key k) (format_int b) = hash_int (view s) (hotwin_key k) (format_int b) + buffered ?st k b"
    if "in_window ?c now b" for b
  proof -
    have "hash_int (view (flushOnce H s)) = hash_int (view (?push s2))" using hash by (simp add: hash_int_def fun_eq_iff)
    then show ?thesis using served.write_all_hash[of ?buf "staleBucketFields ?c now" s2 k "format_int b"] assms(1,2)
        stale_before_window[OF that] buffered_sum[OF assms(1,2), of b] s2(1)
      by (simp add: buffer_ok_def added_count_def)
  qed
  then show "in_window ?c now b \<Longrightarrow>
      hash_int (view (flushOnce H s)) (hotwin_key k) (format_int b) = hash_int (view s) (hotwin_key k) (format_int b) + buffered ?st k b" .
  have ls: "ls = map (\<lambda>k. (k, calcLevel ?c (sumBucketsInWindow ?c (r_hgetall ?R (hotwin_key k) s3) now))) (map fst ?buf)"
    unfolding ls_def by (rule map2_same)
  have kin: "k \<in> fst ` set ?buf" using assms(2) by (metis domI dom_map_of_conv_image_fst)
  have so: "stats_ok (view s3) (hotwin_key k)" using assms(3)[OF kin] hash s3(1) by (simp add: stats_ok_def)
  have "sumBucketsInWindow ?c (r_hgetall ?R (hotwin_key k) s3) now =
      (\<Sum>b | in_window ?c now b. case ks_hash (view s3) (hotwin_key k) (format_int b) of None \<Rightarrow> 0 | Some v \<Rightarrow> v)"
    by (rule window_sum) (use so in \<open>auto simp: stats_ok_def hgetall_view\<close>)
  also have "\<dots> = (\<Sum>b | in_window ?c now b. hash_int (view s) (hotwin_key k) (format_int b) + buffered ?st k b)"
    by (rule sum.cong) (use at hash s3(1) in \<open>auto simp: hash_int_def\<close>)
  finally show "map_of (hk_levels (hd_state H (flushOnce H s))) k =
      Some (calcLevel ?c (\<Sum>b | in_window ?c now b. hash_int (view s) (hotwin_key k) (format_int b) + buffered ?st k b))"
    using kin by (simp add: flush replaceLevels_def ls map_of_tagged del: map_map)
qed

end

text \<open>
  C28: asking for the times to live of a whole page at once gives exactly the answers of
  asking key by key, and leaves the detector with the same levels.
\<close>

theorem batch_asks_as_singles:
  assumes "hot_world H view"
  shows "fst (TTLForPublicBatch H base ks s) = fst (ask_each H base ks s) \<and>
    hd_state H (snd (TTLForPublicBatch H base ks s)) = hd_state H (snd (ask_each H base ks s))"
  using hot_world.ask_all_result[OF assms surjective_pairing, of base ks s] hot_world.ask_each_result[OF assms surjective_pairing, of base ks s]
  by simp

section \<open>A detector in memory\<close>

type_synonym hot_mem = "(mem \<times> hotkey_state) \<times> int"

definition hot_cfg :: hotkey_config where
  "hot_cfg = \<lparr>hc_bucket_seconds = 6, hc_bucket_count = 10, hc_flush_seconds = 6, hc_stat_ttl = 70, hc_mark_ttl = 60,
     hc_max_local_keys = 2, hc_level_low = 8, hc_level_medium = 20, hc_level_high = 50,
     hc_extend_low = 20, hc_extend_medium = 60, hc_extend_high = 120\<rparr>"

definition mem_hot :: "hot_mem hotkey" where
  "mem_hot = \<lparr>hd_config = hot_cfg, hd_redis = on_first (on_first up_redis),
     hd_state = (\<lambda>s. snd (fst s)), hd_put = (\<lambda>st s. ((fst (fst s), st), snd s)), hd_now = snd,
     hd_order = (\<lambda>ks s. ks), hd_tick = (\<lambda>s. (False, s))\<rparr>"

lemma mem_hot_sel [simp]:
  "hd_config mem_hot = hot_cfg" "hd_redis mem_hot = on_first (on_first up_redis)" "hd_state mem_hot s = snd (fst s)"
  "hd_put mem_hot st s = ((fst (fst s), st), snd s)" "hd_now mem_hot = snd" "hd_order mem_hot ks s = ks"
  by (simp_all add: mem_hot_def)

interpretation memory_hot: hot_world mem_hot "fst \<circ> fst \<circ> fst"
proof -
  have "redis_up (on_first (on_first up_redis) :: hot_mem redis) (fst \<circ> fst \<circ> fst)"
    using redis_up.on_first_up[OF up.on_first_up] by (simp add: comp_assoc)
  moreover have "hot_memory mem_hot (fst \<circ> fst \<circ> fst)"
    by unfold_locales (auto split: prod.splits)
  ultimately show "hot_world mem_hot (fst \<circ> fst \<circ> fst)" by (simp add: hot_world_def)
qed

theorem hot_memory_bounded_witness:
  "length (hk_buf (hd_state mem_hot (fold (hot_apply mem_hot) [Access ''a'', Access ''b'', Access ''c'', AskAll 60 [''a'', ''d'']]
     (((empty_keyspace, []), new_hotkey_state hot_cfg), 600)))) \<le> 2"
  using hot_memory_bounded[OF memory_hot.hot_memory_axioms, of "(((empty_keyspace, []), new_hotkey_state hot_cfg), 600)" hot_cfg
      "[Access ''a'', Access ''b'', Access ''c'', AskAll 60 [''a'', ''d'']]"]
  by (simp add: new_hotkey_state_def hot_cfg_def)

theorem batch_asks_as_singles_witness:
  "fst (TTLForPublicBatch mem_hot 60 [''a'', ''b'', ''a''] (((empty_keyspace, []), new_hotkey_state hot_cfg), 600)) =
   fst (ask_each mem_hot 60 [''a'', ''b'', ''a''] (((empty_keyspace, []), new_hotkey_state hot_cfg), 600))"
  using batch_asks_as_singles[OF memory_hot.hot_world_axioms] by blast

text \<open>
  C29: after a flush the level of a key is that of all accesses in the window: those any
  instance flushed before and those this one had counted, each added once; and the
  counts in Redis are these sums.
\<close>

theorem flush_counts_all:
  assumes "hot_world H view" "buffer_ok (hd_state H s)" "map_of (hk_buf (hd_state H s)) k = Some bs"
    and "\<And>k. k \<in> fst ` set (hk_buf (hd_state H s)) \<Longrightarrow> stats_ok (view (flushOnce H s)) (hotwin_key k)"
    and "now = hd_now H (hd_put H ((hd_state H s)\<lparr>hk_buf := []\<rparr>) s) div hc_bucket_seconds (hd_config H)"
  shows "map_of (hk_levels (hd_state H (flushOnce H s))) k =
      Some (calcLevel (hd_config H)
        (\<Sum>b | in_window (hd_config H) now b. hash_int (view s) (hotwin_key k) (format_int b) + buffered (hd_state H s) k b)) \<and>
    (\<forall>b. in_window (hd_config H) now b \<longrightarrow> hash_int (view (flushOnce H s)) (hotwin_key k) (format_int b) =
      hash_int (view s) (hotwin_key k) (format_int b) + buffered (hd_state H s) k b)"
  using hot_world.flush_result[OF assms] by blast

text \<open>Another instance has counted five accesses of \<open>a\<close>, this one three.\<close>

definition hot_five_three :: hot_mem where
  "hot_five_three = (((ks_hset (hotwin_key ''a'') (format_int 10) 5 empty_keyspace, []),
     (new_hotkey_state hot_cfg)\<lparr>hk_buf := [(''a'', [(10, 3)])]\<rparr>), 63)"

theorem flush_counts_all_witness:
  "map_of (hk_levels (hd_state mem_hot (flushOnce mem_hot hot_five_three))) ''a'' = Some LevelLow"
proof -
  let ?s = "flushOnce mem_hot hot_five_three"
  have stale: "staleBucketFields hot_cfg (63 div hc_bucket_seconds hot_cfg) = [format_int 0]"
    by (simp add: staleBucketFields_def hot_cfg_def)
  have mark: "ks_hash (fst (fst (fst (mark_hot mem_hot ls s)))) = ks_hash (fst (fst (fst s)))" for ls s
    using memory_hot.served.mark_hot_hash[of ls s] by simp
  have h: "ks_hash (fst (fst (fst ?s))) (hotwin_key ''a'') = [format_int 10 \<mapsto> 8]"
    by (simp add: hot_five_three_def flushOnce_def snapshotAndReset_def currentBucket_def wr_def rd_def roundtrip_def
        write_stats_def read_levels_def replaceLevels_def Let_def stale mark fun_eq_iff)
  have ok: "stats_ok ((fst \<circ> fst \<circ> fst) ?s) (hotwin_key k)" if "k \<in> fst ` set (hk_buf (hd_state mem_hot hot_five_three))" for k
    using that h by (auto simp: hot_five_three_def stats_ok_def in_int64_def int64_min_def int64_max_def split: if_splits)
  have sum: "(\<Sum>b | in_window hot_cfg 10 b. hash_int (fst (fst (fst hot_five_three))) (hotwin_key ''a'') (format_int b) +
      buffered (hd_state mem_hot hot_five_three) ''a'' b) = 8"
  proof -
    have w: "{b. in_window hot_cfg 10 b} = {1..10}" by (auto simp: in_window_def hot_cfg_def)
    have t: "hash_int (fst (fst (fst hot_five_three))) (hotwin_key ''a'') (format_int b) +
        buffered (hd_state mem_hot hot_five_three) ''a'' b = (if b = 10 then 8 else 0)" for b
      by (simp add: hot_five_three_def buffered_def)
    show ?thesis unfolding t w by simp
  qed
  have b: "buffer_ok (hd_state mem_hot hot_five_three)" by (simp add: hot_five_three_def buffer_ok_def)
  have m: "map_of (hk_buf (hd_state mem_hot hot_five_three)) ''a'' = Some [(10, 3)]" by (simp add: hot_five_three_def)
  have n: "10 = hd_now mem_hot (hd_put mem_hot ((hd_state mem_hot hot_five_three)\<lparr>hk_buf := []\<rparr>) hot_five_three) div
      hc_bucket_seconds (hd_config mem_hot)"
    by (simp add: hot_five_three_def hot_cfg_def)
  have l: "calcLevel hot_cfg 8 = LevelLow" by (simp add: calcLevel_def hot_cfg_def)
  show ?thesis
    using conjunct1[OF flush_counts_all[OF memory_hot.hot_world_axioms b m ok n]] sum l by (simp only: mem_hot_sel(1) comp_apply)
qed

end
