(* ===== verification/Knowpost_Model.thy ===== *)
theory Knowpost_Model
  imports Cache_Tiered Cache_Bloom Auth_Service
begin

text \<open>
  \<open>internal/knowpost\<close>: the posts, their table and statements (\<open>model.go\<close>,
  \<open>repository.go\<close>), the cache keys (\<open>keys.go\<close>) and the writing operations with their
  outbox events (\<open>service.go\<close>, \<open>write_service.go\<close>, \<open>write_helper.go\<close>, \<open>cache.go\<close>). Times
  are Unix milliseconds; the columns keep seconds. \<open>encoding/json\<close> on a list of texts
  and the form in which MySQL keeps a JSON text are arguments.
\<close>

section \<open>Posts\<close>

definition KnowPostStatusDraft :: string where "KnowPostStatusDraft = ''draft''"
definition KnowPostStatusPublished :: string where "KnowPostStatusPublished = ''published''"
definition KnowPostStatusDeleted :: string where "KnowPostStatusDeleted = ''deleted''"

lemmas post_status_defs = KnowPostStatusDraft_def KnowPostStatusPublished_def KnowPostStatusDeleted_def

definition KnowPostVisibilityPublic :: string where "KnowPostVisibilityPublic = ''public''"
definition KnowPostVisibilityFollowers :: string where "KnowPostVisibilityFollowers = ''followers''"
definition KnowPostVisibilitySchool :: string where "KnowPostVisibilitySchool = ''school''"
definition KnowPostVisibilityPrivate :: string where "KnowPostVisibilityPrivate = ''private''"
definition KnowPostVisibilityUnlisted :: string where "KnowPostVisibilityUnlisted = ''unlisted''"

lemmas post_visibility_defs = KnowPostVisibilityPublic_def KnowPostVisibilityFollowers_def KnowPostVisibilitySchool_def
  KnowPostVisibilityPrivate_def KnowPostVisibilityUnlisted_def

record know_post =
  kp_id :: uint64
  kp_tag_id :: "uint64 option"
  kp_tags :: "string option"
  kp_title :: "string option"
  kp_description :: "string option"
  kp_content_url :: "string option"
  kp_object_key :: "string option"
  kp_etag :: "string option"
  kp_content_size :: "uint64 option"
  kp_sha256 :: "string option"
  kp_creator :: uint64
  kp_is_top :: bool
  kp_type :: string
  kp_visible :: string
  kp_img_urls :: "string option"
  kp_video_url :: "string option"
  kp_status :: string
  kp_create_time :: int
  kp_update_time :: int
  kp_publish_time :: "int option"

record post_tables =
  pt_posts :: "know_post list"
  pt_users :: "user list"
  pt_outbox :: "outbox_event list"

type_synonym 's post_db = "(post_tables, 's) database"

section \<open>Statements\<close>

text \<open>A \<open>TIMESTAMP\<close> column rounds to the second.\<close>

definition column_time :: "int \<Rightarrow> int" where
  "column_time ms = (ms + 500) div 1000"

text \<open>MySQL counts the rows an update really changes.\<close>

definition update_posts :: "(know_post \<Rightarrow> bool) \<Rightarrow> (know_post \<Rightarrow> know_post) \<Rightarrow> post_tables \<Rightarrow> nat \<times> post_tables" where
  "update_posts p f t = (length (filter (\<lambda>r. p r \<and> f r \<noteq> r) (pt_posts t)),
     t\<lparr>pt_posts := map (\<lambda>r. if p r then f r else r) (pt_posts t)\<rparr>)"

definition owned :: "uint64 \<Rightarrow> uint64 \<Rightarrow> know_post \<Rightarrow> bool" where
  "owned i creator r = (kp_id r = i \<and> kp_creator r = creator)"

text \<open>A second row of the same id, or one of a user that is not there, is refused.\<close>

definition insert_post :: "know_post \<Rightarrow> post_tables \<Rightarrow> bool \<times> post_tables" where
  "insert_post r t =
    (if kp_id r \<in> kp_id ` set (pt_posts t) \<or> kp_creator r \<notin> us_id ` set (pt_users t) then (False, t)
     else (True, t\<lparr>pt_posts := pt_posts t @ [r\<lparr>kp_create_time := column_time (kp_create_time r),
       kp_update_time := column_time (kp_update_time r)\<rparr>]\<rparr>))"

definition insert_post_event :: "outbox_event \<Rightarrow> post_tables \<Rightarrow> post_tables" where
  "insert_post_event e t = t\<lparr>pt_outbox := pt_outbox t @ [e]\<rparr>"

definition refused_row :: io_error where
  "refused_row = IoError ''constraint violation''"

definition InsertDraft :: "'s post_db \<Rightarrow> know_post \<Rightarrow> 's \<Rightarrow> (io_error + unit) \<times> 's" where
  "InsertDraft D r s = (case db_write D (insert_post r) s of
      (Inl e, s1) \<Rightarrow> (Inl e, s1)
    | (Inr ok, s1) \<Rightarrow> (if ok then Inr () else Inl refused_row, s1))"

definition set_content :: "know_post \<Rightarrow> int \<Rightarrow> know_post \<Rightarrow> know_post" where
  "set_content p now r = r\<lparr>kp_object_key := kp_object_key p, kp_etag := kp_etag p, kp_content_size := kp_content_size p,
     kp_sha256 := kp_sha256 p, kp_content_url := kp_content_url p, kp_update_time := column_time now\<rparr>"

definition UpdateContent :: "'s post_db \<Rightarrow> int \<Rightarrow> know_post \<Rightarrow> 's \<Rightarrow> (io_error + nat) \<times> 's" where
  "UpdateContent D now p = db_write D (update_posts (owned (kp_id p) (kp_creator p)) (set_content p now))"

datatype sql_value = SqlText string | SqlJson string | SqlUint uint64 | SqlInt int

definition knowPostUpdateFields :: "string list" where
  "knowPostUpdateFields = [''title'', ''tag_id'', ''tags'', ''img_urls'', ''visible'', ''description'', ''is_top'']"

definition metadata_updates :: "know_post \<Rightarrow> (string \<times> sql_value) list" where
  "metadata_updates p =
     (case kp_title p of None \<Rightarrow> [] | Some t \<Rightarrow> [(''title'', SqlText t)])
   @ (case kp_tag_id p of None \<Rightarrow> [] | Some i \<Rightarrow> [(''tag_id'', SqlUint i)])
   @ (case kp_tags p of None \<Rightarrow> [] | Some t \<Rightarrow> [(''tags'', SqlJson t)])
   @ (case kp_img_urls p of None \<Rightarrow> [] | Some t \<Rightarrow> [(''img_urls'', SqlJson t)])
   @ (if kp_visible p \<noteq> [] then [(''visible'', SqlText (kp_visible p))] else [])
   @ (case kp_description p of None \<Rightarrow> [] | Some t \<Rightarrow> [(''description'', SqlText t)])
   @ (if kp_is_top p then [(''is_top'', SqlInt 1)] else [])"

text \<open>\<open>json_column\<close> is the form in which MySQL keeps a JSON text.\<close>

fun set_column :: "(string \<Rightarrow> string) \<Rightarrow> string \<times> sql_value \<Rightarrow> know_post \<Rightarrow> know_post" where
  "set_column json_column (c, SqlText t) r =
     (if c = ''title'' then r\<lparr>kp_title := Some t\<rparr> else if c = ''visible'' then r\<lparr>kp_visible := t\<rparr>
      else if c = ''description'' then r\<lparr>kp_description := Some t\<rparr> else r)"
| "set_column json_column (c, SqlJson t) r =
     (if c = ''tags'' then r\<lparr>kp_tags := Some (json_column t)\<rparr>
      else if c = ''img_urls'' then r\<lparr>kp_img_urls := Some (json_column t)\<rparr> else r)"
| "set_column json_column (c, SqlUint i) r = (if c = ''tag_id'' then r\<lparr>kp_tag_id := Some i\<rparr> else r)"
| "set_column json_column (c, SqlInt i) r = (if c = ''is_top'' then r\<lparr>kp_is_top := (i \<noteq> 0)\<rparr> else r)"

definition unknown_field :: "(string \<times> sql_value) list \<Rightarrow> string option" where
  "unknown_field us = map_option fst (find (\<lambda>u. fst u \<notin> set knowPostUpdateFields) us)"

definition UpdateMetadata_tx :: "'s post_db \<Rightarrow> (string \<Rightarrow> string) \<Rightarrow> int \<Rightarrow> know_post \<Rightarrow> (post_tables, 's) tx \<Rightarrow>
  (io_error + nat) \<times> (post_tables, 's) tx" where
  "UpdateMetadata_tx D json_column now p x =
    (let us = metadata_updates p in
     case unknown_field us of
       Some c \<Rightarrow> (Inl (IoError (''unknown field: '' @ c)), x)
     | None \<Rightarrow> tx_exec D (update_posts (owned (kp_id p) (kp_creator p))
         (\<lambda>r. fold (set_column json_column) us (r\<lparr>kp_update_time := column_time now\<rparr>))) x)"

definition Publish_tx :: "'s post_db \<Rightarrow> int \<Rightarrow> uint64 \<Rightarrow> uint64 \<Rightarrow> (post_tables, 's) tx \<Rightarrow> (io_error + nat) \<times> (post_tables, 's) tx" where
  "Publish_tx D now i creator = tx_exec D (update_posts (\<lambda>r. owned i creator r \<and> kp_status r = KnowPostStatusDraft)
     (\<lambda>r. r\<lparr>kp_status := KnowPostStatusPublished, kp_publish_time := Some (column_time now), kp_update_time := column_time now\<rparr>))"

definition UpdateTop_tx :: "'s post_db \<Rightarrow> int \<Rightarrow> uint64 \<Rightarrow> uint64 \<Rightarrow> bool \<Rightarrow> (post_tables, 's) tx \<Rightarrow> (io_error + nat) \<times> (post_tables, 's) tx" where
  "UpdateTop_tx D now i creator flag = tx_exec D (update_posts (owned i creator)
     (\<lambda>r. r\<lparr>kp_is_top := flag, kp_update_time := column_time now\<rparr>))"

definition UpdateVisibility_tx :: "'s post_db \<Rightarrow> int \<Rightarrow> uint64 \<Rightarrow> uint64 \<Rightarrow> string \<Rightarrow> (post_tables, 's) tx \<Rightarrow> (io_error + nat) \<times> (post_tables, 's) tx" where
  "UpdateVisibility_tx D now i creator visible = tx_exec D (update_posts (owned i creator)
     (\<lambda>r. r\<lparr>kp_visible := visible, kp_update_time := column_time now\<rparr>))"

definition SoftDelete_tx :: "'s post_db \<Rightarrow> int \<Rightarrow> uint64 \<Rightarrow> uint64 \<Rightarrow> (post_tables, 's) tx \<Rightarrow> (io_error + nat) \<times> (post_tables, 's) tx" where
  "SoftDelete_tx D now i creator = tx_exec D (update_posts (owned i creator)
     (\<lambda>r. r\<lparr>kp_status := KnowPostStatusDeleted, kp_update_time := column_time now\<rparr>))"

section \<open>Cache keys\<close>

definition detailLayoutVer :: int where "detailLayoutVer = 1"

definition detailVersionKey :: "uint64 \<Rightarrow> string" where
  "detailVersionKey i = ''knowpost:ver:'' @ format_uint i"

definition detail_prefix :: "uint64 \<Rightarrow> string" where
  "detail_prefix i = ''knowpost:detail:'' @ format_uint i @ '':v'' @ format_int detailLayoutVer @ '':ver''"

definition detailPageKey :: "uint64 \<Rightarrow> int \<Rightarrow> string" where
  "detailPageKey i version = ''knowpost:detail:'' @ format_uint i @ '':v'' @ format_int detailLayoutVer @ '':ver'' @ format_int version"

definition publicFeedVersionKey :: string where "publicFeedVersionKey = ''feed:public:version''"
definition mineFeedVersionKey :: "uint64 \<Rightarrow> string" where "mineFeedVersionKey u = ''feed:mine:version:'' @ format_uint u"
definition feedItemKey :: "string \<Rightarrow> string" where "feedItemKey i = ''feed:item:'' @ i"
definition feedItemKeyU :: "uint64 \<Rightarrow> string" where "feedItemKeyU i = ''feed:item:'' @ format_uint i"

definition publicFeedIDsKey :: "int \<Rightarrow> int \<Rightarrow> int \<Rightarrow> string" where
  "publicFeedIDsKey version sz page = ''feed:public:ids:'' @ format_int version @ CHR '':'' # format_int sz @ CHR '':'' # format_int page"

definition publicFeedPageLocalKey :: "int \<Rightarrow> int \<Rightarrow> int \<Rightarrow> string" where
  "publicFeedPageLocalKey sz page version = ''feed:public:'' @ format_int sz @ CHR '':'' # format_int page @ '':v'' @ format_int 1
     @ CHR '':'' # format_int version"

definition mineFeedPageKey :: "uint64 \<Rightarrow> int \<Rightarrow> int \<Rightarrow> int \<Rightarrow> string" where
  "mineFeedPageKey u sz page version = ''feed:mine:'' @ format_uint u @ CHR '':'' # format_int sz @ CHR '':'' # format_int page
     @ CHR '':'' # format_int version"

definition lockKeyFor :: "string \<Rightarrow> string" where "lockKeyFor k = ''lock:'' @ k"
definition hotKeyID :: "uint64 \<Rightarrow> string" where "hotKeyID i = ''knowpost:'' @ format_uint i"

text \<open>0 means the default, a negative time none.\<close>

definition versionLocalTTL :: "int option \<Rightarrow> int" where
  "versionLocalTTL configured = (case configured of None \<Rightarrow> 2 | Some v \<Rightarrow> if v \<noteq> 0 then if v < 0 then 0 else v else 2)"

definition newDetailVersions :: "'s redis \<Rightarrow> 's l1_cache option \<Rightarrow> int option \<Rightarrow> 's versions" where
  "newDetailVersions R pool configured = \<lparr>vs_redis = Some R, vs_local = pool, vs_local_ttl = versionLocalTTL configured,
     vs_prefix = ''dv:'', vs_default = detailLayoutVer\<rparr>"

definition newFeedVersions :: "'s redis \<Rightarrow> 's l1_cache option \<Rightarrow> 's versions" where
  "newFeedVersions R pool = \<lparr>vs_redis = Some R, vs_local = pool, vs_local_ttl = 2, vs_prefix = ''fv:'', vs_default = 1\<rparr>"

section \<open>The writing service\<close>

record oss_config =
  oc_public_domain :: string
  oc_bucket :: string
  oc_endpoint :: string

record 's post_service =
  kn_db :: "'s post_db"
  kn_redis :: "'s redis"
  kn_next_id :: "'s \<Rightarrow> uint64 \<times> 's"
  kn_versions :: "'s versions option"
  kn_bloom :: "'s bloom option"
  kn_oss :: oss_config
  kn_feed_cache :: "(uint64 \<Rightarrow> uint64 \<Rightarrow> 's \<Rightarrow> 's) option"
  kn_audit :: "(string \<Rightarrow> uint64 \<Rightarrow> string \<Rightarrow> string \<Rightarrow> string \<Rightarrow> 's \<Rightarrow> 's) option"
  kn_now :: "'s \<Rightarrow> int"
  kn_sleep :: "'s \<Rightarrow> bool \<times> 's"
  kn_json_list :: "string list \<Rightarrow> string"
  kn_json_column :: "string \<Rightarrow> string"

definition publicURL :: "oss_config \<Rightarrow> string \<Rightarrow> string" where
  "publicURL c key =
    (if oc_public_domain c \<noteq> []
     then (let d = oc_public_domain c in (if last d = CHR ''/'' then butlast d else d) @ CHR ''/'' # key)
     else ''https://'' @ oc_bucket c @ CHR ''.'' # oc_endpoint c @ CHR ''/'' # key)"

definition isValidVisible :: "string \<Rightarrow> bool" where
  "isValidVisible v = (v \<in> {KnowPostVisibilityPublic, KnowPostVisibilityFollowers, KnowPostVisibilitySchool,
     KnowPostVisibilityPrivate, KnowPostVisibilityUnlisted})"

definition StrPtr :: "string \<Rightarrow> string option" where "StrPtr t = (if t = [] then None else Some t)"
definition visiblePtr :: "string option \<Rightarrow> string" where "visiblePtr v = (case v of None \<Rightarrow> [] | Some t \<Rightarrow> t)"

datatype post_error = KApp app_error | KTx tx_error | KIo string io_error | KContext

text \<open>What a client sees: a business error as it is, any other as its text under 500.\<close>

definition post_app_error :: "(post_error \<Rightarrow> string) \<Rightarrow> post_error \<Rightarrow> app_error" where
  "post_app_error show_error e = ToAppError (case e of KApp a \<Rightarrow> AppErr a | KTx (TxApp a) \<Rightarrow> AppErr a | _ \<Rightarrow> PlainErr (show_error e))"

subsection \<open>Drafts, once per key\<close>

definition draft_idem_key :: "uint64 \<Rightarrow> string \<Rightarrow> string" where
  "draft_idem_key creator key = ''idem:draft:'' @ format_uint creator @ CHR '':'' # key"

definition draft_idem_ttl :: int where "draft_idem_ttl = 300000"

definition set_nx_idem :: "'s redis \<Rightarrow> string \<Rightarrow> string \<Rightarrow> 's \<Rightarrow> (io_error + bool) \<times> 's" where
  "set_nx_idem R k marker = roundtrip R (\<lambda>s. if r_exists R k s then (False, s) else (True, r_set R k marker (Some draft_idem_ttl) s))"

definition draft_cas_del :: "'s redis \<Rightarrow> string \<Rightarrow> string \<Rightarrow> 's \<Rightarrow> 's" where
  "draft_cas_del R k marker s = snd (wr R (\<lambda>s. if r_get R k s = Some marker then r_del R k s else s) s)"

definition idem_timeout :: "string \<Rightarrow> post_error" where
  "idem_timeout m = KApp (with_msg ErrInternal m)"

text \<open>
  The claim is tried until it succeeds, finds a finished draft (\<open>Some\<close>), or the deadline
  passes; other clients act while it sleeps.
\<close>

partial_function (option) claimDraftIdempotency ::
  "'s post_service \<Rightarrow> string \<Rightarrow> string \<Rightarrow> int \<Rightarrow> 's \<Rightarrow> ((post_error + uint64 option) \<times> 's) option" where
  "claimDraftIdempotency S k marker deadline s =
    (case set_nx_idem (kn_redis S) k marker s of
       (Inl e, s1) \<Rightarrow> Some (Inl (KIo ''create draft: claim idempotency: '' e), s1)
     | (Inr claimed, s1) \<Rightarrow>
         if claimed then Some (Inr None, s1)
         else (case rd (kn_redis S) (r_get (kn_redis S) k) s1 of
            (Inl e, s2) \<Rightarrow> Some (Inl (KIo ''create draft: get idempotency: '' e), s2)
          | (Inr None, s2) \<Rightarrow>
              if kn_now S s2 > deadline then Some (Inl (idem_timeout ''create draft: idempotency claim timeout''), s2)
              else (case kn_sleep S s2 of (awake, s3) \<Rightarrow>
                if awake then claimDraftIdempotency S k marker deadline s3 else Some (Inl KContext, s3))
          | (Inr (Some v), s2) \<Rightarrow>
              if has_prefix ''pending:'' v then
                (if kn_now S s2 > deadline then Some (Inl (idem_timeout ''create draft: wait idempotency timeout''), s2)
                 else (case kn_sleep S s2 of (awake, s3) \<Rightarrow>
                   if awake then claimDraftIdempotency S k marker deadline s3 else Some (Inl KContext, s3)))
              else (case (case parse_uint v of None \<Rightarrow> 0 | Some i \<Rightarrow> i) of i \<Rightarrow>
                if i = 0 then
                  (case snd (wr (kn_redis S) (r_del (kn_redis S) k) s2) of s3 \<Rightarrow>
                     if kn_now S s3 > deadline then Some (Inl (idem_timeout ''create draft: invalid idempotency value''), s3)
                     else claimDraftIdempotency S k marker deadline s3)
                else Some (Inr (Some i), s2))))"

text \<open>A post with its id and owner and the zero value everywhere else.\<close>

definition blank_post :: "uint64 \<Rightarrow> uint64 \<Rightarrow> know_post" where
  "blank_post i creator = \<lparr>kp_id = i, kp_tag_id = None, kp_tags = None, kp_title = None, kp_description = None,
     kp_content_url = None, kp_object_key = None, kp_etag = None, kp_content_size = None, kp_sha256 = None,
     kp_creator = creator, kp_is_top = False, kp_type = [], kp_visible = [], kp_img_urls = None, kp_video_url = None,
     kp_status = [], kp_create_time = 0, kp_update_time = 0, kp_publish_time = None\<rparr>"

definition new_draft :: "uint64 \<Rightarrow> uint64 \<Rightarrow> int \<Rightarrow> know_post" where
  "new_draft i creator now = (blank_post i creator)\<lparr>kp_status := KnowPostStatusDraft, kp_type := ''image_text'',
     kp_visible := KnowPostVisibilityPublic, kp_is_top := False, kp_create_time := now, kp_update_time := now\<rparr>"

text \<open>\<open>claim\<close> is the key and the marker of a request that holds the claim.\<close>

definition insert_draft :: "'s post_service \<Rightarrow> uint64 \<Rightarrow> (string \<times> string) option \<Rightarrow> 's \<Rightarrow> (post_error + uint64) \<times> 's" where
  "insert_draft S creator claim s =
    (let (i, s1) = kn_next_id S s in
     case InsertDraft (kn_db S) (new_draft i creator (kn_now S s1)) s1 of
       (Inl e, s2) \<Rightarrow> (Inl (KIo ''create draft: insert: insert draft: '' e),
          case claim of None \<Rightarrow> s2 | Some (k, marker) \<Rightarrow> draft_cas_del (kn_redis S) k marker s2)
     | (Inr _, s2) \<Rightarrow>
         (let s3 = (case claim of None \<Rightarrow> s2
                | Some (k, marker) \<Rightarrow> snd (wr (kn_redis S) (r_set (kn_redis S) k (format_uint i) (Some draft_idem_ttl)) s2))
          in (Inr i, AddUint64 (kn_bloom S) i s3)))"

definition CreateDraft :: "'s post_service \<Rightarrow> uint64 \<Rightarrow> string \<Rightarrow> 's \<Rightarrow> ((post_error + uint64) \<times> 's) option" where
  "CreateDraft S creator key s =
    (if key = [] then Some (insert_draft S creator None s)
     else let k = draft_idem_key creator key; (token, s1) = kn_next_id S s; marker = ''pending:'' @ format_uint token in
       (case claimDraftIdempotency S k marker (kn_now S s1 + 3000) s1 of
          None \<Rightarrow> None
        | Some (Inl e, s2) \<Rightarrow> Some (Inl e, s2)
        | Some (Inr (Some i), s2) \<Rightarrow> Some (Inr i, s2)
        | Some (Inr None, s2) \<Rightarrow> Some (insert_draft S creator (Some (k, marker)) s2)))"

subsection \<open>Invalidation\<close>

text \<open>The script moves the version on and drops the page of the new version.\<close>

definition invalidate_script :: "'s redis \<Rightarrow> string \<Rightarrow> string \<Rightarrow> 's \<Rightarrow> 's" where
  "invalidate_script R ver_key prefix s =
    (let s1 = r_incr R ver_key s;
         ver = (case r_get R ver_key s1 of None \<Rightarrow> 0 | Some t \<Rightarrow> (case lua_tonumber t of None \<Rightarrow> 0 | Some n \<Rightarrow> n))
     in if ver < 1 then r_del R (prefix @ format_int 1) (r_set R ver_key ''1'' None s1)
        else r_del R (prefix @ format_int ver) s1)"

definition invalidateCache :: "'s post_service \<Rightarrow> uint64 \<Rightarrow> 's \<Rightarrow> 's" where
  "invalidateCache S i s =
    drop_version (kn_versions S) (detailVersionKey i)
      (snd (wr (kn_redis S) (invalidate_script (kn_redis S) (detailVersionKey i) (detail_prefix i)) s))"

definition invalidateFeedCaches :: "'s post_service \<Rightarrow> uint64 \<Rightarrow> uint64 \<Rightarrow> 's \<Rightarrow> 's" where
  "invalidateFeedCaches S i creator s = (case kn_feed_cache S of None \<Rightarrow> s | Some f \<Rightarrow> f i creator s)"

definition invalidate_post :: "'s post_service \<Rightarrow> uint64 \<Rightarrow> uint64 \<Rightarrow> 's \<Rightarrow> 's" where
  "invalidate_post S creator i s = invalidateFeedCaches S i creator (invalidateCache S i s)"

definition audit_post :: "'s post_service \<Rightarrow> string \<Rightarrow> uint64 \<Rightarrow> uint64 \<Rightarrow> string \<Rightarrow> 's \<Rightarrow> 's" where
  "audit_post S action creator i detail s = (case kn_audit S of None \<Rightarrow> s
     | Some logger \<Rightarrow> logger action creator ''knowpost'' (format_uint i) detail s)"

subsection \<open>Changes with their events\<close>

definition outboxTypeMetadataUpdated :: string where "outboxTypeMetadataUpdated = ''KnowPostMetadataUpdated''"
definition outboxTypePublished :: string where "outboxTypePublished = ''KnowPostPublished''"
definition outboxTypeDeleted :: string where "outboxTypeDeleted = ''KnowPostDeleted''"
definition outboxTypeVisibilityUpdated :: string where "outboxTypeVisibilityUpdated = ''KnowPostVisibilityUpdated''"
definition outboxTypeTopUpdated :: string where "outboxTypeTopUpdated = ''KnowPostTopUpdated''"

lemmas outbox_type_defs = outboxTypeMetadataUpdated_def outboxTypePublished_def outboxTypeDeleted_def
  outboxTypeVisibilityUpdated_def outboxTypeTopUpdated_def

definition knowPostOutboxOp :: "string \<Rightarrow> string" where
  "knowPostOutboxOp t = (if t = outboxTypeDeleted then ''delete'' else ''upsert'')"

text \<open>
  A JSON object of a Go map: the keys in order. The texts that occur are plain words,
  which need no escape.
\<close>

definition json_word :: "string \<Rightarrow> string" where "json_word t = dquote # t @ [dquote]"

definition json_object :: "(string \<times> string) list \<Rightarrow> string" where
  "json_object entries = CHR 123 # join_with '','' (map (\<lambda>(k, v). json_key k @ v) (sort_key fst entries)) @ [CHR 125]"

definition post_payload :: "uint64 \<Rightarrow> string \<Rightarrow> (string \<times> string) list \<Rightarrow> string" where
  "post_payload i event_type extra = json_object (fold (\<lambda>(k, v). AList.update k v) extra
     [(''entity'', json_word ''knowpost''), (''id'', format_uint i), (''op'', json_word (knowPostOutboxOp event_type)),
      (''type'', json_word event_type)])"

definition post_event :: "uint64 \<Rightarrow> uint64 \<Rightarrow> string \<Rightarrow> (string \<times> string) list \<Rightarrow> outbox_event" where
  "post_event event_id i event_type extra = \<lparr>ob_id = event_id, ob_aggregate_type = ''knowpost'', ob_aggregate_id = Some i,
     ob_event_type = event_type, ob_payload = post_payload i event_type extra\<rparr>"

definition not_owned :: app_error where
  "not_owned = with_msg ErrNotFound ''draft not found or permission denied''"

text \<open>An update that changes no row fails as not found.\<close>

definition must_change :: "(io_error + nat) \<times> (post_tables, 's) tx \<Rightarrow> tx_outcome \<times> (post_tables, 's) tx" where
  "must_change r = (case r of
      (Inl e, x) \<Rightarrow> (Failed (TxIo e), x)
    | (Inr affected, x) \<Rightarrow> (if affected = 0 then Failed (TxApp not_owned) else Done, x))"

definition runKnowPostTxWithPayload :: "'s post_service \<Rightarrow> uint64 \<Rightarrow> string \<Rightarrow> (string \<times> string) list \<Rightarrow>
  ((post_tables, 's) tx \<Rightarrow> (io_error + nat) \<times> (post_tables, 's) tx) \<Rightarrow> 's \<Rightarrow> (tx_error + unit) \<times> 's" where
  "runKnowPostTxWithPayload S i event_type extra mutate s =
    (let (event_id, s1) = kn_next_id S s in
     run_in_tx (kn_db S) remarshal insert_post_event (\<lambda>x. must_change (mutate x)) [post_event event_id i event_type extra] s1)"

definition changed_post :: "'s post_service \<Rightarrow> uint64 \<Rightarrow> uint64 \<Rightarrow> (tx_error + unit) \<times> 's \<Rightarrow> ('s \<Rightarrow> 's) \<Rightarrow> (post_error + unit) \<times> 's" where
  "changed_post S creator i r after = (case r of
      (Inl e, s) \<Rightarrow> (Inl (KTx e), s)
    | (Inr _, s) \<Rightarrow> (Inr (), after s))"

record post_patch =
  pp_title :: "string option"
  pp_tag_id :: "uint64 option"
  pp_tags :: "string list option"
  pp_img_urls :: "string list option"
  pp_visible :: "string option"
  pp_is_top :: "bool option"
  pp_description :: "string option"

definition patched_post :: "'s post_service \<Rightarrow> uint64 \<Rightarrow> uint64 \<Rightarrow> post_patch \<Rightarrow> know_post" where
  "patched_post S creator i req = (blank_post i creator)\<lparr>kp_type := ''image_text'', kp_title := pp_title req, kp_tag_id := pp_tag_id req,
     kp_visible := visiblePtr (pp_visible req), kp_tags := map_option (kn_json_list S) (pp_tags req),
     kp_img_urls := map_option (kn_json_list S) (pp_img_urls req), kp_description := pp_description req\<rparr>"

definition UpdateMetadata :: "'s post_service \<Rightarrow> uint64 \<Rightarrow> uint64 \<Rightarrow> post_patch \<Rightarrow> 's \<Rightarrow> (post_error + unit) \<times> 's" where
  "UpdateMetadata S creator i req s =
    changed_post S creator i
      (runKnowPostTxWithPayload S i outboxTypeMetadataUpdated []
        (\<lambda>x. UpdateMetadata_tx (kn_db S) (kn_json_column S) (kn_now S (snd x)) (patched_post S creator i req) x) s)
      (invalidate_post S creator i)"

definition Publish :: "'s post_service \<Rightarrow> uint64 \<Rightarrow> uint64 \<Rightarrow> 's \<Rightarrow> (post_error + unit) \<times> 's" where
  "Publish S creator i s =
    changed_post S creator i
      (runKnowPostTxWithPayload S i outboxTypePublished
        [(''creator_id'', format_uint creator), (''published_at'', format_int (kn_now S s div 1000))]
        (\<lambda>x. Publish_tx (kn_db S) (kn_now S (snd x)) i creator x) s)
      (\<lambda>s. audit_post S ''create_post'' creator i ''publish knowpost'' (invalidate_post S creator i s))"

definition UpdateTop :: "'s post_service \<Rightarrow> uint64 \<Rightarrow> uint64 \<Rightarrow> bool \<Rightarrow> 's \<Rightarrow> (post_error + unit) \<times> 's" where
  "UpdateTop S creator i flag s =
    changed_post S creator i
      (runKnowPostTxWithPayload S i outboxTypeTopUpdated []
        (\<lambda>x. UpdateTop_tx (kn_db S) (kn_now S (snd x)) i creator flag x) s)
      (invalidate_post S creator i)"

definition UpdateVisibility :: "'s post_service \<Rightarrow> uint64 \<Rightarrow> uint64 \<Rightarrow> string \<Rightarrow> 's \<Rightarrow> (post_error + unit) \<times> 's" where
  "UpdateVisibility S creator i visible s =
    (if \<not> isValidVisible visible then (Inl (KApp (with_msg ErrBadRequest ''invalid visibility value'')), s)
     else changed_post S creator i
      (runKnowPostTxWithPayload S i outboxTypeVisibilityUpdated
        [(''visible'', json_word visible), (''creator_id'', format_uint creator)]
        (\<lambda>x. UpdateVisibility_tx (kn_db S) (kn_now S (snd x)) i creator visible x) s)
      (invalidate_post S creator i))"

definition Delete :: "'s post_service \<Rightarrow> uint64 \<Rightarrow> uint64 \<Rightarrow> 's \<Rightarrow> (post_error + unit) \<times> 's" where
  "Delete S creator i s =
    changed_post S creator i
      (runKnowPostTxWithPayload S i outboxTypeDeleted [(''creator_id'', format_uint creator)]
        (\<lambda>x. SoftDelete_tx (kn_db S) (kn_now S (snd x)) i creator x) s)
      (\<lambda>s. invalidate_post S creator i (DeleteUint64 (kn_bloom S) i s))"

text \<open>The audit entry of a confirmed upload says that the post was deleted, as the code does.\<close>

definition confirmed_content :: "'s post_service \<Rightarrow> uint64 \<Rightarrow> uint64 \<Rightarrow> string \<Rightarrow> string \<Rightarrow> string \<Rightarrow> uint64 \<Rightarrow> know_post" where
  "confirmed_content S creator i object_key etag sha256 sz = (blank_post i creator)\<lparr>kp_object_key := Some object_key,
     kp_etag := Some etag, kp_content_size := Some sz, kp_sha256 := Some sha256,
     kp_content_url := StrPtr (publicURL (kn_oss S) object_key)\<rparr>"

definition ConfirmContent :: "'s post_service \<Rightarrow> uint64 \<Rightarrow> uint64 \<Rightarrow> string \<Rightarrow> string \<Rightarrow> string \<Rightarrow> uint64 \<Rightarrow> 's \<Rightarrow>
  (post_error + unit) \<times> 's" where
  "ConfirmContent S creator i object_key etag sha256 sz s =
    (case UpdateContent (kn_db S) (kn_now S s) (confirmed_content S creator i object_key etag sha256 sz) s of
       (Inl e, s1) \<Rightarrow> (Inl (KIo ''confirm content: update: update content: '' e), s1)
     | (Inr affected, s1) \<Rightarrow>
         (if affected = 0 then (Inl (KApp not_owned), s1)
          else (Inr (), audit_post S ''delete_post'' creator i ''delete knowpost'' (invalidate_post S creator i s1))))"

end
