(* ===== verification/Knowpost_Life.thy ===== *)
theory Knowpost_Life
  imports Knowpost_Model "HOL-Library.Sublist"
begin

text \<open>
  What the writing operations keep: the table of posts stays well formed, a post moves
  from draft to published to deleted and never back, and the outbox tells its life: one
  event of publication, and an event of deletion exactly for the deleted ones.
\<close>

section \<open>The life of a post\<close>

definition post_ok :: "know_post \<Rightarrow> bool" where
  "post_ok r = (kp_status r \<in> {KnowPostStatusDraft, KnowPostStatusPublished, KnowPostStatusDeleted} \<and>
     (kp_status r = KnowPostStatusDraft \<longrightarrow> kp_publish_time r = None) \<and>
     (kp_status r = KnowPostStatusPublished \<longrightarrow> kp_publish_time r \<noteq> None))"

definition posts_ok :: "post_tables \<Rightarrow> bool" where
  "posts_ok t = (distinct (map kp_id (pt_posts t)) \<and>
     (\<forall>r \<in> set (pt_posts t). post_ok r \<and> kp_creator r \<in> us_id ` set (pt_users t)))"

text \<open>How one post may change in one step.\<close>

definition aged :: "know_post \<Rightarrow> know_post \<Rightarrow> bool" where
  "aged r r' = (kp_id r' = kp_id r \<and> kp_creator r' = kp_creator r \<and> kp_create_time r' = kp_create_time r \<and>
     (kp_publish_time r \<noteq> None \<longrightarrow> kp_publish_time r' = kp_publish_time r) \<and>
     (kp_status r = KnowPostStatusPublished \<longrightarrow> kp_status r' \<noteq> KnowPostStatusDraft) \<and>
     (kp_status r = KnowPostStatusDeleted \<longrightarrow> kp_status r' = KnowPostStatusDeleted))"

lemma aged_refl [simp]: "aged r r"
  by (simp add: aged_def post_status_defs)

lemma aged_trans: "post_ok r1 \<Longrightarrow> aged r r1 \<Longrightarrow> aged r1 r2 \<Longrightarrow> aged r r2"
  by (auto simp: aged_def post_ok_def post_status_defs)

definition older :: "post_tables \<Rightarrow> post_tables \<Rightarrow> bool" where
  "older t t' = (\<forall>r \<in> set (pt_posts t). \<exists>r' \<in> set (pt_posts t'). aged r r')"

lemma older_refl [simp]: "older t t"
  unfolding older_def using aged_refl by blast

lemma older_trans: "posts_ok t1 \<Longrightarrow> older t t1 \<Longrightarrow> older t1 t2 \<Longrightarrow> older t t2"
  unfolding older_def posts_ok_def by (meson aged_trans)

section \<open>The events of a post\<close>

definition events_of :: "string \<Rightarrow> uint64 \<Rightarrow> outbox_event list \<Rightarrow> outbox_event list" where
  "events_of ty i = filter (\<lambda>e. ob_event_type e = ty \<and> ob_aggregate_type e = ''knowpost'' \<and> ob_aggregate_id e = Some i)"

text \<open>
  \<open>hist\<close> is every event written so far. Every event is about a post that is there; a post
  has one event of its publication if it was ever published, and an event of deletion if
  and only if it is deleted.
\<close>

definition told :: "outbox_event list \<Rightarrow> post_tables \<Rightarrow> bool" where
  "told hist t = ((\<forall>e \<in> set hist. ob_aggregate_id e \<in> Some ` kp_id ` set (pt_posts t)) \<and>
     (\<forall>r \<in> set (pt_posts t).
        length (events_of outboxTypePublished (kp_id r) hist) = (if kp_publish_time r = None then 0 else 1) \<and>
        (events_of outboxTypeDeleted (kp_id r) hist \<noteq> [] \<longleftrightarrow> kp_status r = KnowPostStatusDeleted)))"

text \<open>What every step of every client does to the posts.\<close>

definition lives :: "post_tables \<Rightarrow> post_tables \<Rightarrow> bool" where
  "lives t t' = (posts_ok t \<longrightarrow> posts_ok t' \<and> older t t')"

text \<open>
  A step that only adds to the outbox, and adds what tells of the step. Transactions that
  commit although the commit answers with an error are among these steps.
\<close>

definition grows :: "post_tables \<Rightarrow> post_tables \<Rightarrow> bool" where
  "grows t t' = (posts_ok t \<longrightarrow> posts_ok t' \<and> older t t' \<and>
     (\<exists>es. pt_outbox t' = pt_outbox t @ es \<and> (\<forall>hist. told hist t \<longrightarrow> told (hist @ es) t')))"

lemma lives_refl [simp]: "lives t t"
  by (simp add: lives_def)

lemma lives_trans: "lives t t1 \<Longrightarrow> lives t1 t2 \<Longrightarrow> lives t t2"
  unfolding lives_def by (metis older_trans)

lemma grows_refl [simp]: "grows t t"
  by (simp add: grows_def)

lemma grows_trans:
  assumes "grows t t1" "grows t1 t2"
  shows "grows t t2"
  unfolding grows_def
proof (intro impI)
  assume ok: "posts_ok t"
  then obtain es where 1: "posts_ok t1" "older t t1" "pt_outbox t1 = pt_outbox t @ es" "\<And>hist. told hist t \<Longrightarrow> told (hist @ es) t1"
    using assms(1) unfolding grows_def by blast
  then obtain es' where 2: "posts_ok t2" "older t1 t2" "pt_outbox t2 = pt_outbox t1 @ es'" "\<And>hist. told hist t1 \<Longrightarrow> told (hist @ es') t2"
    using assms(2) unfolding grows_def by blast
  have "pt_outbox t2 = pt_outbox t @ (es @ es')" "\<forall>hist. told hist t \<longrightarrow> told (hist @ es @ es') t2"
    using 1(3,4) 2(3,4) by (simp_all flip: append_assoc)
  then show "posts_ok t2 \<and> older t t2 \<and> (\<exists>es. pt_outbox t2 = pt_outbox t @ es \<and> (\<forall>hist. told hist t \<longrightarrow> told (hist @ es) t2))"
    using 2(1) older_trans[OF 1(1,2) 2(2)] by blast
qed

lemma grows_lives: "grows t t' \<Longrightarrow> lives t t'"
  by (simp add: grows_def lives_def)

text \<open>What a step that grows has put in the outbox is the end of the outbox.\<close>

lemma grows_told:
  assumes "grows t t'" "posts_ok t" "told hist t" "subseq (pt_outbox t) hist"
  shows "told (hist @ drop (length (pt_outbox t)) (pt_outbox t')) t' \<and> subseq (pt_outbox t') (hist @ drop (length (pt_outbox t)) (pt_outbox t'))"
  using assms unfolding grows_def by (auto intro: list_emb_append_mono)

section \<open>What a transaction does to the table\<close>

text \<open>
  \<open>changed p f ty t t'\<close>: the rows that satisfy \<open>p\<close> were changed by \<open>f\<close>, at least one of them
  really; \<open>f\<close> ages a row and keeps it well formed, and what an event of type \<open>ty\<close>
  tells is what it does.
\<close>

definition tells :: "string \<Rightarrow> (know_post \<Rightarrow> bool) \<Rightarrow> (know_post \<Rightarrow> know_post) \<Rightarrow> bool" where
  "tells ty p f = (\<forall>r. p r \<longrightarrow> post_ok r \<longrightarrow> post_ok (f r) \<and> aged r (f r) \<and>
     (if ty = outboxTypePublished then kp_publish_time r = None \<and> kp_publish_time (f r) \<noteq> None
      else kp_publish_time (f r) = kp_publish_time r) \<and>
     (if ty = outboxTypeDeleted then kp_status (f r) = KnowPostStatusDeleted
      else (kp_status (f r) = KnowPostStatusDeleted \<longleftrightarrow> kp_status r = KnowPostStatusDeleted)))"

lemma same_ids: "(\<And>r. r \<in> set rows \<Longrightarrow> kp_id (g r) = kp_id r) \<Longrightarrow> kp_id ` set (map g rows) = kp_id ` set rows"
  by (simp add: image_image cong: image_cong)

lemma tells_age: "tells ty p f \<Longrightarrow> post_ok r \<Longrightarrow> aged r (if p r then f r else r) \<and> post_ok (if p r then f r else r)"
  by (auto simp: tells_def)

lemma aged_fixed: "aged r r' \<Longrightarrow> kp_id r' = kp_id r \<and> kp_creator r' = kp_creator r"
  by (simp add: aged_def)

lemma update_posts_ok:
  assumes "tells ty p f" "posts_ok t" "update_posts p f t = (n, t')"
  shows "posts_ok t' \<and> older t t'"
proof -
  let ?g = "\<lambda>r. if p r then f r else r"
  have t': "pt_posts t' = map ?g (pt_posts t)" "pt_users t' = pt_users t" using assms(3) by (auto simp: update_posts_def)
  have g: "aged r (?g r) \<and> post_ok (?g r)" if "r \<in> set (pt_posts t)" for r
    using tells_age[OF assms(1)] assms(2) that by (simp add: posts_ok_def)
  have ids: "kp_id (?g r) = kp_id r \<and> kp_creator (?g r) = kp_creator r" if "r \<in> set (pt_posts t)" for r
    using g[OF that] aged_fixed by blast
  then have "map kp_id (pt_posts t') = map kp_id (pt_posts t)" by (simp only: t' map_map comp_def cong: map_cong)
  moreover have "post_ok r \<and> kp_creator r \<in> us_id ` set (pt_users t)" if "r \<in> set (pt_posts t')" for r
  proof -
    from that obtain r0 where r0: "r0 \<in> set (pt_posts t)" "r = ?g r0" unfolding t'(1) set_map by blast
    have "post_ok r" "kp_creator r = kp_creator r0" using g[OF r0(1)] ids[OF r0(1)] r0(2) by blast+
    then show ?thesis using r0(1) assms(2) by (simp add: posts_ok_def)
  qed
  moreover have "older t t'" unfolding older_def t'(1) set_map using g by blast
  ultimately show ?thesis using assms(2) t'(2) by (simp add: posts_ok_def)
qed

lemma events_insert [simp]:
  "pt_posts (insert_post_event e t) = pt_posts t" "pt_users (insert_post_event e t) = pt_users t"
  "pt_outbox (insert_post_event e t) = pt_outbox t @ [e]"
  "posts_ok (insert_post_event e t) = posts_ok t" "older t0 (insert_post_event e t) = older t0 t"
  by (simp_all add: insert_post_event_def posts_ok_def older_def)

lemma event_sel [simp]:
  "ob_event_type (post_event oid i ty extra) = ty" "ob_aggregate_type (post_event oid i ty extra) = ''knowpost''"
  "ob_aggregate_id (post_event oid i ty extra) = Some i"
  by (simp_all add: post_event_def)

lemma event_added:
  "events_of ty i (hist @ [post_event oid j ty' extra]) =
   events_of ty i hist @ (if ty' = ty \<and> j = i then [post_event oid j ty' extra] else [])"
  by (simp add: events_of_def)

lemma owned_one: "distinct (map kp_id rows) \<Longrightarrow> r \<in> set rows \<Longrightarrow> r' \<in> set rows \<Longrightarrow> kp_id r = kp_id r' \<Longrightarrow> r = r'"
  by (simp add: distinct_map inj_on_def)

lemma update_told:
  assumes tells: "tells ty p f" and t: "posts_ok t" "told hist t" and u: "update_posts p f t = (n, t1)" "n \<noteq> 0"
    and i: "\<And>r. p r \<Longrightarrow> kp_id r = i"
  shows "told (hist @ [post_event oid i ty extra]) (insert_post_event (post_event oid i ty extra) t1)"
proof -
  let ?g = "\<lambda>r. if p r then f r else r" and ?e = "post_event oid i ty extra"
  have t1: "pt_posts t1 = map ?g (pt_posts t)" "pt_outbox t1 = pt_outbox t" "n = length (filter (\<lambda>r. p r \<and> f r \<noteq> r) (pt_posts t))"
    using u(1) by (auto simp: update_posts_def)
  then obtain r0 where r0: "r0 \<in> set (pt_posts t)" "p r0" using u(2) by (auto simp: filter_empty_conv)
  have one: "r = r0" if "r \<in> set (pt_posts t)" "kp_id r = i" for r
    using owned_one[of "pt_posts t" r r0] t(1) that r0 i[OF r0(2)] by (simp add: posts_ok_def)
  have ok: "post_ok r" if "r \<in> set (pt_posts t)" for r using t(1) that by (simp add: posts_ok_def)
  have ids: "kp_id (?g r) = kp_id r" if "r \<in> set (pt_posts t)" for r
    using tells_age[OF tells ok[OF that]] aged_fixed by blast
  have s: "kp_id ` set (pt_posts t1) = kp_id ` set (pt_posts t)" unfolding t1(1) by (rule same_ids[OF ids])
  have "i \<in> kp_id ` set (pt_posts t)" using r0 i[OF r0(2)] by blast
  then have about: "ob_aggregate_id e \<in> Some ` kp_id ` set (pt_posts t1)" if "e \<in> set (hist @ [?e])" for e
    using that t(2) unfolding s by (auto simp: told_def)
  have "length (events_of outboxTypePublished (kp_id r') (hist @ [?e])) = (if kp_publish_time r' = None then 0 else 1) \<and>
      (events_of outboxTypeDeleted (kp_id r') (hist @ [?e]) \<noteq> [] \<longleftrightarrow> kp_status r' = KnowPostStatusDeleted)" if "r' \<in> set (pt_posts t1)" for r'
  proof -
    from that obtain r where r: "r \<in> set (pt_posts t)" "r' = ?g r" by (auto simp: t1(1))
    have old: "length (events_of outboxTypePublished (kp_id r) hist) = (if kp_publish_time r = None then 0 else 1)"
        "events_of outboxTypeDeleted (kp_id r) hist \<noteq> [] \<longleftrightarrow> kp_status r = KnowPostStatusDeleted"
      using t(2) r(1) unfolding told_def by blast+
    show ?thesis
    proof (cases "kp_id r = i")
      case True
      then have p: "p r" using one[OF r(1)] r0 by simp
      with r(2) have r': "r' = f r" by simp
      have "kp_id r' = i" using ids[OF r(1)] True r(2) by simp
      then show ?thesis using old True tells[unfolded tells_def, rule_format, OF p ok[OF r(1)]] r'
        unfolding event_added by (auto simp: outbox_type_defs split: if_splits)
    next
      case False
      then have "r' = r" using i r(2) by auto
      then show ?thesis using old False unfolding event_added by simp
    qed
  qed
  with about show ?thesis using t(2) t1(2) by (auto simp: told_def)
qed

text \<open>So a change with its event is a step of the life of a post.\<close>

lemma change_grows:
  assumes "tells ty p f" "update_posts p f t = (n, t1)" "n \<noteq> 0" "\<And>r. p r \<Longrightarrow> kp_id r = i"
  shows "grows t (insert_post_event (post_event oid i ty extra) t1)"
proof -
  have "pt_outbox t1 = pt_outbox t" using assms(2) by (auto simp: update_posts_def)
  then show ?thesis
    unfolding grows_def using update_told[OF assms(1) _ _ assms(2,3,4)] update_posts_ok[OF assms(1) _ assms(2)] by simp
qed

text \<open>A change without an event must neither publish nor delete.\<close>

lemma quiet_grows:
  assumes q: "\<And>r. p r \<Longrightarrow> post_ok r \<Longrightarrow> post_ok (f r) \<and> aged r (f r) \<and> kp_publish_time (f r) = kp_publish_time r \<and> kp_status (f r) = kp_status r"
    and u: "update_posts p f t = (n, t1)"
  shows "grows t t1"
proof -
  have tells: "tells [] p f" unfolding tells_def using q by (simp add: outbox_type_defs)
  let ?g = "\<lambda>r. if p r then f r else r"
  have t1: "pt_posts t1 = map ?g (pt_posts t)" "pt_outbox t1 = pt_outbox t" using u by (auto simp: update_posts_def)
  have "told hist t1" if ok: "posts_ok t" and t: "told hist t" for hist
  proof -
    have same: "kp_id (?g r) = kp_id r \<and> kp_publish_time (?g r) = kp_publish_time r \<and> kp_status (?g r) = kp_status r"
      if "r \<in> set (pt_posts t)" for r
      using q[of r] aged_fixed[of r "f r"] ok that by (auto simp: posts_ok_def)
    then have s: "kp_id ` set (pt_posts t1) = kp_id ` set (pt_posts t)" unfolding t1(1) by (intro same_ids) blast
    have "length (events_of outboxTypePublished (kp_id r') hist) = (if kp_publish_time r' = None then 0 else 1) \<and>
      (events_of outboxTypeDeleted (kp_id r') hist \<noteq> [] \<longleftrightarrow> kp_status r' = KnowPostStatusDeleted)" if "r' \<in> set (pt_posts t1)" for r'
    proof -
      from that obtain r where r: "r \<in> set (pt_posts t)" "r' = ?g r" by (auto simp: t1(1))
      then have "length (events_of outboxTypePublished (kp_id r) hist) = (if kp_publish_time r = None then 0 else 1) \<and>
        (events_of outboxTypeDeleted (kp_id r) hist \<noteq> [] \<longleftrightarrow> kp_status r = KnowPostStatusDeleted)"
        using t unfolding told_def by blast
      then show ?thesis using same[OF r(1), folded r(2)] by simp
    qed
    then show ?thesis using t unfolding told_def s t1(2) by blast
  qed
  then show ?thesis unfolding grows_def using update_posts_ok[OF tells _ u] t1(2) by (metis append_Nil2)
qed

lemma draft_grows:
  assumes "insert_post (new_draft i creator now) t = (ok, t1)"
  shows "grows t t1"
proof (cases ok)
  case False
  then show ?thesis using assms by (auto simp: insert_post_def split: if_splits)
next
  case True
  let ?r = "(new_draft i creator now)\<lparr>kp_create_time := column_time now, kp_update_time := column_time now\<rparr>"
  have t1: "pt_posts t1 = pt_posts t @ [?r]" "pt_users t1 = pt_users t" "pt_outbox t1 = pt_outbox t"
    "i \<notin> kp_id ` set (pt_posts t)" "creator \<in> us_id ` set (pt_users t)"
    using assms True by (auto simp: insert_post_def new_draft_def blank_post_def split: if_splits)
  have r: "kp_id ?r = i" "kp_creator ?r = creator" "kp_publish_time ?r = None" "kp_status ?r = KnowPostStatusDraft"
    by (simp_all add: new_draft_def blank_post_def)
  have "events_of ty i hist = []" if "told hist t" for ty hist
    using that t1(4) unfolding told_def events_of_def filter_empty_conv by force
  moreover have "post_ok ?r" using r by (simp add: post_ok_def post_status_defs)
  ultimately show ?thesis
    using t1 r unfolding grows_def posts_ok_def older_def told_def
    by (intro allI impI conjI exI[of _ "[]"]) (auto simp: post_status_defs intro: aged_refl)
qed

end
