(* ===== verification/Knowpost_Store.thy ===== *)
theory Knowpost_Store
  imports Knowpost_Life
begin

text \<open>
  The writing operations on their world: whatever answers, every one of them is a step
  of the life of the posts. Runs of any operations by any clients follow.
\<close>

section \<open>What the transactions change\<close>

lemma set_column_keeps [simp]:
  "kp_id (set_column jc u r) = kp_id r" "kp_creator (set_column jc u r) = kp_creator r"
  "kp_status (set_column jc u r) = kp_status r" "kp_publish_time (set_column jc u r) = kp_publish_time r"
  "kp_create_time (set_column jc u r) = kp_create_time r"
  by (cases "(jc, u, r)" rule: set_column.cases; simp)+

lemma set_columns_keep [simp]:
  "kp_id (fold (set_column jc) us r) = kp_id r" "kp_creator (fold (set_column jc) us r) = kp_creator r"
  "kp_status (fold (set_column jc) us r) = kp_status r" "kp_publish_time (fold (set_column jc) us r) = kp_publish_time r"
  "kp_create_time (fold (set_column jc) us r) = kp_create_time r"
  by (induction us arbitrary: r) simp_all

text \<open>The white list of columns never refuses.\<close>

lemma no_unknown_field [simp]: "unknown_field (metadata_updates p) = None"
  by (auto simp: unknown_field_def metadata_updates_def knowPostUpdateFields_def find_None_iff split: option.splits)

lemma aged_status:
  "kp_id r' = kp_id r \<Longrightarrow> kp_creator r' = kp_creator r \<Longrightarrow> kp_create_time r' = kp_create_time r \<Longrightarrow>
   kp_publish_time r' = kp_publish_time r \<Longrightarrow> kp_status r' = kp_status r \<Longrightarrow> aged r r' \<and> (post_ok r' = post_ok r)"
  by (auto simp: aged_def post_ok_def post_status_defs)

lemma plain_tells:
  assumes "\<And>r. kp_id (f r) = kp_id r \<and> kp_creator (f r) = kp_creator r \<and> kp_create_time (f r) = kp_create_time r \<and>
      kp_publish_time (f r) = kp_publish_time r \<and> kp_status (f r) = kp_status r"
    and "ty \<notin> {outboxTypePublished, outboxTypeDeleted}"
  shows "tells ty p f"
  unfolding tells_def
proof (intro allI impI)
  fix r
  assume "post_ok r"
  moreover have "aged r (f r) \<and> post_ok (f r) = post_ok r" using assms(1)[of r] by (intro aged_status) simp_all
  ultimately show "post_ok (f r) \<and> aged r (f r) \<and>
     (if ty = outboxTypePublished then kp_publish_time r = None \<and> kp_publish_time (f r) \<noteq> None
      else kp_publish_time (f r) = kp_publish_time r) \<and>
     (if ty = outboxTypeDeleted then kp_status (f r) = KnowPostStatusDeleted
      else (kp_status (f r) = KnowPostStatusDeleted \<longleftrightarrow> kp_status r = KnowPostStatusDeleted))"
    using assms by simp
qed

lemma publish_tells: "tells outboxTypePublished (\<lambda>r. owned i creator r \<and> kp_status r = KnowPostStatusDraft)
  (\<lambda>r. r\<lparr>kp_status := KnowPostStatusPublished, kp_publish_time := Some w, kp_update_time := w\<rparr>)"
  by (simp add: tells_def aged_def post_ok_def post_status_defs outbox_type_defs)

lemma delete_tells: "tells outboxTypeDeleted (owned i creator) (\<lambda>r. r\<lparr>kp_status := KnowPostStatusDeleted, kp_update_time := w\<rparr>)"
  by (simp add: tells_def aged_def post_ok_def post_status_defs outbox_type_defs)

lemmas plain_types = outbox_type_defs owned_def

section \<open>What the filter leaves alone\<close>

locale bloom_frame =
  fixes b :: "'s bloom" and part :: "'s \<Rightarrow> 'p"
  assumes do_frame: "part (snd (bl_do b cmd s)) = part s"
    and exists_frame: "part (snd (bl_exists b bk s)) = part s"
    and flags_frame [simp]: "part (bl_set_flags b fl s) = part s"

context bloom_frame
begin

lemma do_same: "bl_do b c s = (r, s1) \<Longrightarrow> part s1 = part s"
  using do_frame by (metis snd_conv)

lemma exists_same: "bl_exists b k s = (r, s1) \<Longrightarrow> part s1 = part s"
  using exists_frame by (metis snd_conv)

lemma module_error_same [simp]: "part (markModuleError b e s) = part s"
  by (simp add: markModuleError_def)

lemma ready_same: "ensureReady b s = (r, s1) \<Longrightarrow> part s1 = part s"
  by (auto simp: ensureReady_def mark_ready_def split: prod.splits sum.splits if_splits dest!: do_same exists_same)

lemma members_same: "part (AddUint64 (Some b) i s) = part s" "part (DeleteUint64 (Some b) i s) = part s"
  by (auto simp: AddUint64_def Add_def DeleteUint64_def Delete_member_def split: prod.splits sum.splits bool.splits dest!: do_same ready_same)

end

section \<open>The world\<close>

text \<open>
  Redis, the caches, the filter, the ids and the audit log do not touch the tables.
  While a request waits for another one, that one and all others go on living.
\<close>

locale post_store = sql_database "kn_db S" + redis_frame "kn_redis S" "db_tables (kn_db S)"
  for S :: "'s post_service" +
  assumes incr_keeps [simp]: "db_tables (kn_db S) (r_incr (kn_redis S) k s) = db_tables (kn_db S) s"
    and ids_keep [simp]: "db_tables (kn_db S) (snd (kn_next_id S s)) = db_tables (kn_db S) s"
    and l1_keeps: "kn_versions S = Some v \<Longrightarrow> vs_local v = Some c \<Longrightarrow> db_tables (kn_db S) (l1_del c vk s) = db_tables (kn_db S) s"
    and filter_keeps: "kn_bloom S = Some b \<Longrightarrow> bloom_frame b (db_tables (kn_db S))"
    and feed_keeps: "kn_feed_cache S = Some f \<Longrightarrow> db_tables (kn_db S) (f i u s) = db_tables (kn_db S) s"
    and audit_keeps: "kn_audit S = Some logger \<Longrightarrow> db_tables (kn_db S) (logger action u kind rid detail s) = db_tables (kn_db S) s"
    and sleep_lives: "lives (db_tables (kn_db S) s) (db_tables (kn_db S) (snd (kn_sleep S s)))"

context post_store
begin

abbreviation (input) tabs :: "'s \<Rightarrow> post_tables" where
  "tabs s \<equiv> db_tables (kn_db S) s"

lemma drop_version_frame [simp]: "tabs (drop_version (kn_versions S) k s) = tabs s"
  using l1_keeps by (auto simp: drop_version_def split: option.split)

lemma audit_frame [simp]: "tabs (audit_post S action u i detail s) = tabs s"
  using audit_keeps by (auto simp: audit_post_def split: option.split)

lemma feeds_frame [simp]: "tabs (invalidateFeedCaches S i u s) = tabs s"
  using feed_keeps by (auto simp: invalidateFeedCaches_def split: option.split)

lemma script_frame [simp]: "tabs (invalidate_script (kn_redis S) k p s) = tabs s"
  by (simp add: invalidate_script_def Let_def)

lemma invalidate_frame [simp]: "tabs (invalidate_post S u i s) = tabs s"
  by (simp add: invalidate_post_def invalidateCache_def frame_wr)

lemma filter_frame [simp]: "tabs (AddUint64 (kn_bloom S) i s) = tabs s" "tabs (DeleteUint64 (kn_bloom S) i s) = tabs s"
  using bloom_frame.members_same[OF filter_keeps] by (cases "kn_bloom S"; simp add: AddUint64_def Add_def DeleteUint64_def Delete_member_def)+

section \<open>Every operation\<close>

lemma must_change_mutates:
  assumes "\<And>x. mutate x = tx_exec (kn_db S) (update_posts p (f x)) x"
  shows "mutates (kn_db S) (\<lambda>x. must_change (mutate x)) (\<lambda>t t'. \<exists>x n. update_posts p (f x) t = (n, t') \<and> n \<noteq> 0)"
  unfolding mutates_def
proof (intro allI impI)
  fix x r x'
  assume m: "must_change (mutate x) = (r, x')"
  obtain q x1 where t: "tx_exec (kn_db S) (update_posts p (f x)) x = (q, x1)" by (cases "tx_exec (kn_db S) (update_posts p (f x)) x")
  have "x' = x1" "r = Done \<Longrightarrow> \<exists>n. q = Inr n \<and> n \<noteq> 0" using m by (auto simp: assms t must_change_def split: sum.splits if_splits)
  with tx_exec_keeps[OF t] have "tabs (snd x') = tabs (snd x)" "r = Done \<Longrightarrow> \<exists>n. update_posts p (f x) (fst x) = (n, fst x') \<and> n \<noteq> 0"
    by (auto simp: eq_commute[of "(_, fst x1)"])
  then show "tabs (snd x') = tabs (snd x) \<and> (r = Done \<longrightarrow> (\<exists>x1 n. update_posts p (f x1) (fst x) = (n, fst x') \<and> n \<noteq> 0))"
    by blast
qed

lemma with_post_event [simp]: "with_events insert_post_event remarshal [e] t = insert_post_event e t"
  by (simp add: with_events_def remarshal_def)

lemma change_grows_tx:
  assumes "\<And>x. mutate x = tx_exec (kn_db S) (update_posts p (f x)) x"
    and "\<And>x. tells ty p (f x)" "\<And>r. p r \<Longrightarrow> kp_id r = i"
    and "runKnowPostTxWithPayload S i ty extra mutate s = (r, s')"
  shows "grows (tabs s) (tabs s')"
proof -
  obtain oid s1 where n: "kn_next_id S s = (oid, s1)" by (cases "kn_next_id S s")
  then have k: "tabs s1 = tabs s" using ids_keep[of s] by simp
  have "run_in_tx (kn_db S) remarshal insert_post_event (\<lambda>x. must_change (mutate x)) [post_event oid i ty extra] s1 = (r, s')"
    using assms(4) n by (simp add: runKnowPostTxWithPayload_def)
  from run_in_tx_atomic[OF must_change_mutates[OF assms(1)] this, unfolded with_post_event k] show ?thesis
    using change_grows[OF assms(2) _ _ assms(3)] by auto
qed

lemma changed_frame:
  assumes "\<And>s. tabs (after s) = tabs s" "changed_post S u i x after = (r, s')"
  shows "tabs s' = tabs (snd x)"
  using assms by (auto simp: changed_post_def split: prod.splits sum.splits)

lemma changed_grows:
  assumes "changed_post S u i (runKnowPostTxWithPayload S i ty extra mutate s) after = (r, s')" "\<And>s. tabs (after s) = tabs s"
    and "\<And>x. mutate x = tx_exec (kn_db S) (update_posts p (f x)) x"
    and "\<And>x. tells ty p (f x)" "\<And>r. p r \<Longrightarrow> kp_id r = i"
  shows "grows (tabs s) (tabs s')"
proof -
  obtain q s1 where t: "runKnowPostTxWithPayload S i ty extra mutate s = (q, s1)" by (cases "runKnowPostTxWithPayload S i ty extra mutate s")
  show ?thesis using changed_frame[OF assms(2,1)] change_grows_tx[OF assms(3,4,5) t] t by simp
qed

lemma metadata_grows: "UpdateMetadata S u i req s = (r, s') \<Longrightarrow> grows (tabs s) (tabs s')"
  unfolding UpdateMetadata_def
  by (erule changed_grows[where p = "owned i u" and f = "\<lambda>x r. fold (set_column (kn_json_column S)) (metadata_updates (patched_post S u i req))
      (r\<lparr>kp_update_time := column_time (kn_now S (snd x))\<rparr>)"])
    (simp_all add: UpdateMetadata_tx_def patched_post_def blank_post_def plain_types plain_tells)

lemma top_grows: "UpdateTop S u i flag s = (r, s') \<Longrightarrow> grows (tabs s) (tabs s')"
  unfolding UpdateTop_def
  by (erule changed_grows[where p = "owned i u" and f = "\<lambda>x r. r\<lparr>kp_is_top := flag, kp_update_time := column_time (kn_now S (snd x))\<rparr>"])
    (simp_all add: UpdateTop_tx_def plain_types plain_tells)

lemma visibility_grows: "UpdateVisibility S u i v s = (r, s') \<Longrightarrow> grows (tabs s) (tabs s')"
  unfolding UpdateVisibility_def
  by (cases "isValidVisible v", simp,
      erule changed_grows[where p = "owned i u" and f = "\<lambda>x r. r\<lparr>kp_visible := v, kp_update_time := column_time (kn_now S (snd x))\<rparr>"])
    (simp_all add: UpdateVisibility_tx_def plain_types plain_tells)

lemma publish_grows: "Publish S u i s = (r, s') \<Longrightarrow> grows (tabs s) (tabs s')"
  unfolding Publish_def
  by (erule changed_grows[where p = "\<lambda>r. owned i u r \<and> kp_status r = KnowPostStatusDraft" and f = "\<lambda>x r. r\<lparr>kp_status := KnowPostStatusPublished,
      kp_publish_time := Some (column_time (kn_now S (snd x))), kp_update_time := column_time (kn_now S (snd x))\<rparr>"])
    (rule publish_tells | simp add: Publish_tx_def | simp add: owned_def)+

lemma delete_grows: "Delete S u i s = (r, s') \<Longrightarrow> grows (tabs s) (tabs s')"
  unfolding Delete_def
  by (erule changed_grows[where p = "owned i u" and f = "\<lambda>x r. r\<lparr>kp_status := KnowPostStatusDeleted, kp_update_time := column_time (kn_now S (snd x))\<rparr>"])
    (rule delete_tells | simp add: SoftDelete_tx_def | simp add: owned_def)+

lemma write_cases:
  "db_write (kn_db S) f s = (r, s') \<Longrightarrow> tabs s' \<in> {tabs s, snd (f (tabs s))} \<and> (\<forall>a. r = Inr a \<longrightarrow> f (tabs s) = (a, tabs s'))"
  by (auto simp: db_write_def Let_def split: prod.splits option.splits dest: committed commit_failed)

lemma confirm_grows:
  assumes "ConfirmContent S u i k etag sha sz s = (r, s')"
  shows "grows (tabs s) (tabs s')"
proof -
  let ?p = "confirmed_content S u i k etag sha sz"
  obtain q s1 where w: "UpdateContent (kn_db S) (kn_now S s) ?p s = (q, s1)" by (cases "UpdateContent (kn_db S) (kn_now S s) ?p s")
  have "grows t (snd (update_posts p (set_content ?p now) t))" for p now t
    by (rule quiet_grows[OF _ prod.collapse[symmetric]]) (simp_all add: set_content_def aged_def post_ok_def post_status_defs)
  then have "grows (tabs s) (tabs s1)" using write_cases[OF w[unfolded UpdateContent_def]] by auto
  moreover have "tabs s' = tabs s1" using assms w by (auto simp: ConfirmContent_def split: sum.splits if_splits)
  ultimately show ?thesis by simp
qed

lemma insert_draft_grows:
  assumes "insert_draft S u claim s = (r, s')"
  shows "grows (tabs s) (tabs s')"
proof -
  obtain i s1 where n: "kn_next_id S s = (i, s1)" by (cases "kn_next_id S s")
  then have k: "tabs s1 = tabs s" using ids_keep[of s] by simp
  let ?p = "new_draft i u (kn_now S s1)"
  obtain q s2 where w: "db_write (kn_db S) (insert_post ?p) s1 = (q, s2)" by (cases "db_write (kn_db S) (insert_post ?p) s1")
  have "grows t (snd (insert_post ?p t))" for t by (rule draft_grows[OF prod.collapse[symmetric]])
  then have l: "grows (tabs s) (tabs s2)" using write_cases[OF w] k by auto
  have "tabs s' = tabs s2" using assms n w
    by (auto simp: insert_draft_def InsertDraft_def draft_cas_del_def frame_wr Let_def split: sum.splits if_splits option.splits)
  with l show ?thesis by simp
qed

text \<open>Whatever others do to the tables while a request waits is part of what the request leaves.\<close>

lemma claim_path:
  assumes "claimDraftIdempotency S k marker deadline s = Some y"
    and Q: "\<And>t. Q t t" "\<And>t t1 t2. Q t t1 \<Longrightarrow> Q t1 t2 \<Longrightarrow> Q t t2" "\<And>s. Q (tabs s) (tabs (snd (kn_sleep S s)))"
  shows "Q (tabs s) (tabs (snd y))"
proof (rule claimDraftIdempotency.raw_induct[where P = "\<lambda>S' k m d s y. S' = S \<longrightarrow> Q (tabs s) (tabs (snd y))",
    OF _ assms(1), THEN mp, OF _ refl], intro impI)
  fix claim k m d s y and S' :: "'s post_service"
  let ?body = "case set_nx_idem (kn_redis S') k m s of
       (Inl e, s1) \<Rightarrow> Some (Inl (KIo ''create draft: claim idempotency: '' e), s1)
     | (Inr claimed, s1) \<Rightarrow>
         if claimed then Some (Inr None, s1)
         else (case rd (kn_redis S') (r_get (kn_redis S') k) s1 of
            (Inl e, s2) \<Rightarrow> Some (Inl (KIo ''create draft: get idempotency: '' e), s2)
          | (Inr None, s2) \<Rightarrow>
              if kn_now S' s2 > d then Some (Inl (idem_timeout ''create draft: idempotency claim timeout''), s2)
              else (case kn_sleep S' s2 of (awake, s3) \<Rightarrow>
                if awake then claim S' k m d s3 else Some (Inl KContext, s3))
          | (Inr (Some v), s2) \<Rightarrow>
              if has_prefix ''pending:'' v then
                (if kn_now S' s2 > d then Some (Inl (idem_timeout ''create draft: wait idempotency timeout''), s2)
                 else (case kn_sleep S' s2 of (awake, s3) \<Rightarrow>
                   if awake then claim S' k m d s3 else Some (Inl KContext, s3)))
              else (case (case parse_uint v of None \<Rightarrow> 0 | Some i \<Rightarrow> i) of i \<Rightarrow>
                if i = 0 then
                  (case snd (wr (kn_redis S') (r_del (kn_redis S') k) s2) of s3 \<Rightarrow>
                     if kn_now S' s3 > d then Some (Inl (idem_timeout ''create draft: invalid idempotency value''), s3)
                     else claim S' k m d s3)
                else Some (Inr (Some i), s2)))"
  assume ih: "\<And>S' k m d s y. claim S' k m d s = Some y \<Longrightarrow> S' = S \<longrightarrow> Q (tabs s) (tabs (snd y))"
    and body: "?body = Some y" and S': "S' = S"
  obtain c s1 where c: "set_nx_idem (kn_redis S) k m s = (c, s1)" by (cases "set_nx_idem (kn_redis S) k m s")
  obtain x s2 where x: "rd (kn_redis S) (r_get (kn_redis S) k) s1 = (x, s2)" by (cases "rd (kn_redis S) (r_get (kn_redis S) k) s1")
  obtain a s3 where a: "kn_sleep S s2 = (a, s3)" by (cases "kn_sleep S s2")
  let ?s4 = "snd (wr (kn_redis S) (r_del (kn_redis S) k) s2)"
  have t1: "tabs s1 = tabs s" using frame_roundtrip[of "\<lambda>s. if r_exists (kn_redis S) k s then (False, s)
      else (True, r_set (kn_redis S) k m (Some draft_idem_ttl) s)" s] c by (simp add: set_nx_idem_def)
  have t2: "tabs s2 = tabs s" using frame_roundtrip[of "\<lambda>s. (r_get (kn_redis S) k s, s)" s1] x t1 by (simp add: rd_def)
  have t4: "tabs ?s4 = tabs s" using t2 by (simp add: frame_wr)
  have t3: "Q (tabs s) (tabs s3)" using Q(3)[of s2] a t2 by simp
  have again: "Q (tabs s) (tabs (snd y))" if "claim S k m d s' = Some y" "Q (tabs s) (tabs s')" for s'
    using ih[OF that(1)] Q(2)[OF that(2)] by simp
  have "y \<in> {(fst y, s1), (fst y, s2), (fst y, s3), (fst y, ?s4)} \<or> claim S k m d s3 = Some y \<or> claim S k m d ?s4 = Some y"
    using body unfolding S' c by (auto simp: x a Let_def split: sum.splits option.splits if_splits)
  then show "Q (tabs s) (tabs (snd y))"
    using t1 t2 t3 t4 Q(1) again[of s3] again[of ?s4] by (cases y) auto
qed

lemma create_path:
  assumes "CreateDraft S u key s = Some (r, s')"
    and Q: "\<And>t t'. grows t t' \<Longrightarrow> Q t t'" "\<And>t t1 t2. Q t t1 \<Longrightarrow> Q t1 t2 \<Longrightarrow> Q t t2" "\<And>s. Q (tabs s) (tabs (snd (kn_sleep S s)))"
  shows "Q (tabs s) (tabs s')"
proof (cases "key = []")
  case True
  then show ?thesis using assms(1) Q(1) insert_draft_grows by (auto simp: CreateDraft_def)
next
  case False
  obtain n s1 where n: "kn_next_id S s = (n, s1)" by (cases "kn_next_id S s")
  then have k: "tabs s1 = tabs s" using ids_keep[of s] by simp
  let ?k = "draft_idem_key u key" and ?m = "''pending:'' @ format_uint n"
  from False assms(1) n obtain q s2 where c: "claimDraftIdempotency S ?k ?m (kn_now S s1 + 3000) s1 = Some (q, s2)"
    by (auto simp: CreateDraft_def Let_def split: option.splits)
  have l: "Q (tabs s) (tabs s2)" using claim_path[OF c, of Q] Q k by simp
  have "s' = s2 \<or> insert_draft S u (Some (?k, ?m)) s2 = (r, s')"
    using assms(1) False n c by (auto simp: CreateDraft_def Let_def split: sum.splits option.splits)
  then show ?thesis using l Q(2)[OF l] Q(1) insert_draft_grows by blast
qed

lemma create_lives: "CreateDraft S u key s = Some (r, s') \<Longrightarrow> lives (tabs s) (tabs s')"
  using create_path[of u key s r s' lives] grows_lives lives_trans sleep_lives by blast

lemma create_grows:
  "CreateDraft S u key s = Some (r, s') \<Longrightarrow> (\<And>s. grows (tabs s) (tabs (snd (kn_sleep S s)))) \<Longrightarrow> grows (tabs s) (tabs s')"
  using create_path[of u key s r s' grows] grows_trans by blast

end

section \<open>The transaction of a change, exactly\<close>

text \<open>
  A transaction that succeeds ran its mutations on the committed tables, right after its
  begin; if the mutations refuse there, the answer is their refusal or an error of the
  database.
\<close>

context sql_database
begin

lemma run_in_tx_done:
  assumes "run_in_tx D marshal ins m es s = (Inr (), s')" "mutates D m G"
  obtains x where "m (db_tables D s, snd (db_begin D s)) = (Done, x)" "db_tables D s' = with_events ins marshal es (fst x)"
proof -
  obtain s1 where b: "db_begin D s = (None, s1)" using assms(1) by (auto simp: run_in_tx_def split: prod.splits option.splits)
  with begin_keeps[of s] have t1: "db_tables D s1 = db_tables D s" by simp
  obtain o1 x where m: "m (db_tables D s, s1) = (o1, x)" by (cases "m (db_tables D s, s1)")
  have o1: "o1 = Done"
    using assms(1) b m t1 by (auto simp: run_in_tx_def rollback_after_def split: tx_outcome.splits prod.splits option.splits)
  obtain r1 x1 where i: "insert_events D marshal ins es x = (r1, x1)" by (cases "insert_events D marshal ins es x")
  obtain c s2 where c: "db_commit D (fst x1) (snd x1) = (c, s2)" by (cases "db_commit D (fst x1) (snd x1)")
  have "r1 = Inr ()" "c = None" "s' = s2"
    using assms(1) b m t1 o1 i c by (auto simp: run_in_tx_def rollback_after_def split: sum.splits prod.splits option.splits)
  then have "db_tables D s' = with_events ins marshal es (fst x)"
    using insert_events_keeps[OF i] committed[of "fst x1" "snd x1" s2] c by simp
  then show ?thesis using that[of x] m o1 b by simp
qed

lemma run_in_tx_refused:
  assumes "run_in_tx D marshal ins m es s = (r, s')" "mutates D m G" "m (db_tables D s, snd (db_begin D s)) = (Failed err, x)"
  shows "db_tables D s' = db_tables D s \<and> (\<exists>e. r \<in> {Inl err, Inl (TxIo e), Inl (RollbackFailed e)})"
proof -
  obtain b s1 where b: "db_begin D s = (b, s1)" by (cases "db_begin D s")
  with begin_keeps[of s] have t1: "db_tables D s1 = db_tables D s" by simp
  have x: "db_tables D (snd x) = db_tables D s" using assms(2)[unfolded mutates_def, rule_format, OF assms(3)] b t1 by simp
  show ?thesis
    using assms(1,3) b t1 x rollback_keeps[of "snd x"]
    by (auto simp: run_in_tx_def rollback_after_def split: prod.splits option.splits)
qed

end

end
