(* ===== verification/Knowpost_Props.thy ===== *)
theory Knowpost_Props
  imports Knowpost_Store
begin

text \<open>
  Runs of the writing operations on the posts, what holds after every run, what one
  operation may touch, and a world with stored tables, a redis and a filter in memory.
\<close>

section \<open>Runs\<close>

text \<open>Users come, the cleaner drops events, and everything else leaves the posts alone.\<close>

definition elsewhere :: "post_tables \<Rightarrow> post_tables \<Rightarrow> bool" where
  "elsewhere t t' = (pt_posts t' = pt_posts t \<and> set (pt_users t) \<subseteq> set (pt_users t') \<and> subseq (pt_outbox t') (pt_outbox t))"

lemma elsewhere_lives: "elsewhere t t' \<Longrightarrow> lives t t'"
  unfolding elsewhere_def lives_def posts_ok_def older_def using aged_refl by (metis image_mono subsetD)

inductive post_run :: "'s post_service \<Rightarrow> 's \<Rightarrow> 's \<Rightarrow> bool" for S :: "'s post_service" and s0 :: 's where
  start: "post_run S s0 s0"
| create: "post_run S s0 s \<Longrightarrow> CreateDraft S u key s = Some (ri, s') \<Longrightarrow> post_run S s0 s'"
| confirm: "post_run S s0 s \<Longrightarrow> ConfirmContent S u i k etag sha sz s = (r, s') \<Longrightarrow> post_run S s0 s'"
| metadata: "post_run S s0 s \<Longrightarrow> UpdateMetadata S u i req s = (r, s') \<Longrightarrow> post_run S s0 s'"
| publish: "post_run S s0 s \<Longrightarrow> Publish S u i s = (r, s') \<Longrightarrow> post_run S s0 s'"
| put_top: "post_run S s0 s \<Longrightarrow> UpdateTop S u i flag s = (r, s') \<Longrightarrow> post_run S s0 s'"
| show_to: "post_run S s0 s \<Longrightarrow> UpdateVisibility S u i v s = (r, s') \<Longrightarrow> post_run S s0 s'"
| delete: "post_run S s0 s \<Longrightarrow> Delete S u i s = (r, s') \<Longrightarrow> post_run S s0 s'"
| others: "post_run S s0 s \<Longrightarrow> elsewhere (db_tables (kn_db S) s) (db_tables (kn_db S) s') \<Longrightarrow> post_run S s0 s'"

text \<open>
  The same runs with the events that the requests have put in the outbox: of each request
  what its tables have behind the outbox of before. The cleaner adds none.
\<close>

inductive post_request :: "'s post_service \<Rightarrow> 's \<Rightarrow> 's \<Rightarrow> bool" for S :: "'s post_service" where
  create_request: "CreateDraft S u key s = Some (ri, s') \<Longrightarrow> post_request S s s'"
| confirm_request: "ConfirmContent S u i k etag sha sz s = (r, s') \<Longrightarrow> post_request S s s'"
| metadata_request: "UpdateMetadata S u i req s = (r, s') \<Longrightarrow> post_request S s s'"
| publish_request: "Publish S u i s = (r, s') \<Longrightarrow> post_request S s s'"
| top_request: "UpdateTop S u i flag s = (r, s') \<Longrightarrow> post_request S s s'"
| visibility_request: "UpdateVisibility S u i v s = (r, s') \<Longrightarrow> post_request S s s'"
| delete_request: "Delete S u i s = (r, s') \<Longrightarrow> post_request S s s'"

definition newly_written :: "post_tables \<Rightarrow> post_tables \<Rightarrow> outbox_event list" where
  "newly_written t t' = drop (length (pt_outbox t)) (pt_outbox t')"

inductive event_run :: "'s post_service \<Rightarrow> 's \<Rightarrow> outbox_event list \<Rightarrow> 's \<Rightarrow> bool" for S :: "'s post_service" and s0 :: 's where
  nothing: "event_run S s0 [] s0"
| asked: "event_run S s0 hist s \<Longrightarrow> post_request S s s' \<Longrightarrow>
    event_run S s0 (hist @ newly_written (db_tables (kn_db S) s) (db_tables (kn_db S) s')) s'"
| apart: "event_run S s0 hist s \<Longrightarrow> elsewhere (db_tables (kn_db S) s) (db_tables (kn_db S) s') \<Longrightarrow> event_run S s0 hist s'"

context post_store
begin

lemmas change_grows_all = confirm_grows metadata_grows publish_grows top_grows visibility_grows delete_grows

lemma run_lives: "post_run S s0 s \<Longrightarrow> lives (tabs s0) (tabs s)"
  by (induction rule: post_run.induct)
    (blast intro: lives_refl lives_trans create_lives elsewhere_lives change_grows_all[THEN grows_lives])+

lemma request_grows:
  assumes "\<And>s. grows (tabs s) (tabs (snd (kn_sleep S s)))" "post_request S s s'"
  shows "grows (tabs s) (tabs s')"
  using assms(2) by cases (blast intro: create_grows assms(1) change_grows_all)+

lemma elsewhere_told: "elsewhere t t' \<Longrightarrow> told hist t \<Longrightarrow> told hist t'"
  by (simp add: elsewhere_def told_def)

lemma run_told:
  assumes "\<And>s. grows (tabs s) (tabs (snd (kn_sleep S s)))" "posts_ok (tabs s0)" "pt_posts (tabs s0) = []" "pt_outbox (tabs s0) = []"
  shows "event_run S s0 hist s \<Longrightarrow> posts_ok (tabs s) \<and> told hist (tabs s) \<and> subseq (pt_outbox (tabs s)) hist"
proof (induction rule: event_run.induct)
  case nothing
  then show ?case using assms(2-4) by (simp add: told_def)
next
  case (asked hist s s')
  have g: "grows (tabs s) (tabs s')" by (rule request_grows[OF assms(1) asked.hyps(2)])
  then have "posts_ok (tabs s')" using asked.IH by (simp add: grows_def)
  then show ?case using grows_told[OF g, of hist] asked.IH by (simp add: newly_written_def)
next
  case (apart hist s s')
  then have "posts_ok (tabs s')" using elsewhere_lives by (simp add: lives_def)
  moreover have "subseq (pt_outbox (tabs s')) hist"
    using apart subseq_order.order_trans[of "pt_outbox (tabs s')" "pt_outbox (tabs s)" hist] by (simp add: elsewhere_def)
  ultimately show ?case using apart elsewhere_told by blast
qed

end

section \<open>The same change again\<close>

lemma changed_once:
  assumes "rows' = map (\<lambda>r. if p r then f r else r) rows" "r \<in> set rows'" "p r" "\<And>r. p (f r) = p r" "\<And>r. f (f r) = f r"
  shows "f r = r"
  using assms by auto

text \<open>The reading of the clock by the transaction of a change that starts in \<open>s\<close>, as the column stores it.\<close>

definition change_time :: "'s post_service \<Rightarrow> 's \<Rightarrow> int" where
  "change_time S s = column_time (kn_now S (snd (db_begin (kn_db S) (snd (kn_next_id S s)))))"

context post_store
begin

lemma changed_answer:
  assumes "changed_post S u i x after = (r, s')" "\<And>s. tabs (after s) = tabs s"
  shows "tabs s' = tabs (snd x)" "is_ok r = is_ok (fst x)" "fst x = Inl e \<Longrightarrow> r = Inl (KTx e)"
  using assms by (auto simp: changed_post_def split: prod.splits sum.splits)

lemma first_change:
  assumes "changed_post S u i (runKnowPostTxWithPayload S i ty extra mutate s) after = (Inr (), s')" "\<And>s. tabs (after s) = tabs s"
    and m: "\<And>x. mutate x = tx_exec (kn_db S) (update_posts p (\<lambda>r. f (column_time (kn_now S (snd x))) r)) x"
  shows "pt_posts (tabs s') = map (\<lambda>r. if p r then f (change_time S s) r else r) (pt_posts (tabs s))"
proof -
  obtain oid s1 where n: "kn_next_id S s = (oid, s1)" by (cases "kn_next_id S s")
  then have k: "tabs s1 = tabs s" using ids_keep[of s] by simp
  obtain q s2 where t: "runKnowPostTxWithPayload S i ty extra mutate s = (q, s2)" by (cases "runKnowPostTxWithPayload S i ty extra mutate s")
  have q: "q = Inr ()" "tabs s' = tabs s2" using changed_answer[OF assms(1,2)] t by (cases q; simp)+
  have run: "run_in_tx (kn_db S) remarshal insert_post_event (\<lambda>x. must_change (mutate x)) [post_event oid i ty extra] s1 = (Inr (), s2)"
    using t n q by (simp add: runKnowPostTxWithPayload_def)
  obtain x where x: "must_change (mutate (tabs s1, snd (db_begin (kn_db S) s1))) = (Done, x)"
      "tabs s2 = with_events insert_post_event remarshal [post_event oid i ty extra] (fst x)"
    using run_in_tx_done[OF run must_change_mutates[OF m]] by blast
  obtain y x1 where y: "mutate (tabs s1, snd (db_begin (kn_db S) s1)) = (y, x1)" by (cases "mutate (tabs s1, snd (db_begin (kn_db S) s1))")
  with x(1) have "x1 = x" "is_ok y" by (auto simp: must_change_def split: sum.splits if_splits)
  with tx_exec_keeps[OF y[unfolded m]] have "pt_posts (fst x) = map (\<lambda>r. if p r then f (change_time S s) r else r) (pt_posts (tabs s))"
    using n k by (cases y) (auto simp: update_posts_def change_time_def dest!: arg_cong[where f = snd])
  then show ?thesis using x(2) q(2) by simp
qed

lemma change_again:
  assumes "changed_post S u i (runKnowPostTxWithPayload S i ty extra mutate s) after = (r, s')" "\<And>s. tabs (after s) = tabs s"
    and m: "\<And>x. mutate x = tx_exec (kn_db S) (update_posts p (\<lambda>r. f (column_time (kn_now S (snd x))) r)) x"
    and same: "\<And>r. r \<in> set (pt_posts (tabs s)) \<Longrightarrow> p r \<Longrightarrow> f (change_time S s) r = r"
  shows "tabs s' = tabs s \<and> (\<exists>e. r \<in> {Inl (KTx (TxApp not_owned)), Inl (KTx (TxIo e)), Inl (KTx (RollbackFailed e))})"
proof -
  obtain oid s1 where n: "kn_next_id S s = (oid, s1)" by (cases "kn_next_id S s")
  then have k: "tabs s1 = tabs s" using ids_keep[of s] by simp
  obtain q s2 where t: "runKnowPostTxWithPayload S i ty extra mutate s = (q, s2)" by (cases "runKnowPostTxWithPayload S i ty extra mutate s")
  have run: "run_in_tx (kn_db S) remarshal insert_post_event (\<lambda>x. must_change (mutate x)) [post_event oid i ty extra] s1 = (q, s2)"
    using t n by (simp add: runKnowPostTxWithPayload_def)
  have none: "filter (\<lambda>r. p r \<and> f (change_time S s) r \<noteq> r) (pt_posts (tabs s)) = []" using same by (auto simp: filter_empty_conv)
  obtain y x1 where y: "tx_exec (kn_db S) (update_posts p (\<lambda>r. f (change_time S s) r)) (tabs s1, snd (db_begin (kn_db S) s1)) = (y, x1)"
    by (cases "tx_exec (kn_db S) (update_posts p (\<lambda>r. f (change_time S s) r)) (tabs s1, snd (db_begin (kn_db S) s1))")
  have "y = Inr 0 \<or> (\<exists>e. y = Inl e)" using tx_exec_keeps[OF y] none k by (cases y) (auto simp: update_posts_def)
  then obtain err where err: "must_change (mutate (tabs s1, snd (db_begin (kn_db S) s1))) = (Failed err, x1)"
      "err = TxApp not_owned \<or> (\<exists>e. err = TxIo e)"
    using y n by (auto simp: m change_time_def must_change_def)
  have "tabs s2 = tabs s" "\<exists>e. q \<in> {Inl err, Inl (TxIo e), Inl (RollbackFailed e)}"
    using run_in_tx_refused[OF run must_change_mutates[OF m] err(1)] k by simp_all
  with err(2) show ?thesis using changed_answer(1,3)[OF assms(1,2)] t by auto
qed

section \<open>What is not the caller's\<close>

lemma nothing_owned:
  assumes "\<And>r. p r \<Longrightarrow> r \<notin> set (pt_posts t)"
  shows "update_posts p f t = (0, t)"
proof -
  have "filter (\<lambda>r. p r \<and> f r \<noteq> r) (pt_posts t) = []" using assms by (auto simp: filter_empty_conv)
  moreover have "map (\<lambda>r. if p r then f r else r) (pt_posts t) = pt_posts t" using assms by (intro map_idI) auto
  ultimately show ?thesis by (simp add: update_posts_def)
qed

lemma change_needs_row:
  assumes "changed_post S u i (runKnowPostTxWithPayload S i ty extra mutate s) after = (r, s')" "\<And>s. tabs (after s) = tabs s"
    and m: "\<And>x. mutate x = tx_exec (kn_db S) (update_posts p (f x)) x"
    and p: "\<And>r. p r \<Longrightarrow> r \<notin> set (pt_posts (tabs s))"
  shows "tabs s' = tabs s \<and> \<not> is_ok r"
proof -
  obtain q s1 where t: "runKnowPostTxWithPayload S i ty extra mutate s = (q, s1)" by (cases "runKnowPostTxWithPayload S i ty extra mutate s")
  obtain oid s2 where n: "kn_next_id S s = (oid, s2)" by (cases "kn_next_id S s")
  then have k: "tabs s2 = tabs s" using ids_keep[of s] by simp
  have "run_in_tx (kn_db S) remarshal insert_post_event (\<lambda>x. must_change (mutate x)) [post_event oid i ty extra] s2 = (q, s1)"
    using t n by (simp add: runKnowPostTxWithPayload_def)
  from run_in_tx_atomic[OF must_change_mutates[OF m] this, unfolded k] have "tabs s1 = tabs s \<and> \<not> is_ok q"
    by (auto simp: nothing_owned[OF p])
  moreover have "is_ok r = is_ok q" using assms(1) t by (auto simp: changed_post_def split: sum.splits)
  ultimately show ?thesis using changed_frame[OF assms(2,1)] t by simp
qed

lemma not_yours:
  assumes no: "\<And>r. owned i u r \<Longrightarrow> r \<notin> set (pt_posts (tabs s))"
  shows "UpdateMetadata S u i req s = (r, s') \<Longrightarrow> tabs s' = tabs s \<and> \<not> is_ok r"
    and "Publish S u i s = (r, s') \<Longrightarrow> tabs s' = tabs s \<and> \<not> is_ok r"
    and "UpdateTop S u i flag s = (r, s') \<Longrightarrow> tabs s' = tabs s \<and> \<not> is_ok r"
    and "UpdateVisibility S u i v s = (r, s') \<Longrightarrow> tabs s' = tabs s \<and> \<not> is_ok r"
    and "Delete S u i s = (r, s') \<Longrightarrow> tabs s' = tabs s \<and> \<not> is_ok r"
    and "ConfirmContent S u i k etag sha sz s = (r, s') \<Longrightarrow> tabs s' = tabs s \<and> \<not> is_ok r"
proof -
  note go = change_needs_row[OF _ _ _ no]
  show "UpdateMetadata S u i req s = (r, s') \<Longrightarrow> tabs s' = tabs s \<and> \<not> is_ok r"
    unfolding UpdateMetadata_def
    by (erule go[where f = "\<lambda>x r. fold (set_column (kn_json_column S)) (metadata_updates (patched_post S u i req))
      (r\<lparr>kp_update_time := column_time (kn_now S (snd x))\<rparr>)"]) (simp_all add: UpdateMetadata_tx_def patched_post_def blank_post_def)
  show "UpdateTop S u i flag s = (r, s') \<Longrightarrow> tabs s' = tabs s \<and> \<not> is_ok r"
    unfolding UpdateTop_def
    by (erule go[where f = "\<lambda>x r. r\<lparr>kp_is_top := flag, kp_update_time := column_time (kn_now S (snd x))\<rparr>"]) (simp_all add: UpdateTop_tx_def)
  show "UpdateVisibility S u i v s = (r, s') \<Longrightarrow> tabs s' = tabs s \<and> \<not> is_ok r"
  proof (cases "isValidVisible v")
    case True
    assume "UpdateVisibility S u i v s = (r, s')"
    then show ?thesis
      unfolding UpdateVisibility_def using True
      by (simp, elim go[where f = "\<lambda>x r. r\<lparr>kp_visible := v, kp_update_time := column_time (kn_now S (snd x))\<rparr>"])
        (simp_all add: UpdateVisibility_tx_def)
  qed (auto simp: UpdateVisibility_def)
  show "Delete S u i s = (r, s') \<Longrightarrow> tabs s' = tabs s \<and> \<not> is_ok r"
    unfolding Delete_def
    by (erule go[where f = "\<lambda>x r. r\<lparr>kp_status := KnowPostStatusDeleted, kp_update_time := column_time (kn_now S (snd x))\<rparr>"])
      (simp_all add: SoftDelete_tx_def)
  show "Publish S u i s = (r, s') \<Longrightarrow> tabs s' = tabs s \<and> \<not> is_ok r"
    unfolding Publish_def
    by (erule change_needs_row[where p = "\<lambda>r. owned i u r \<and> kp_status r = KnowPostStatusDraft" and f = "\<lambda>x r. r\<lparr>kp_status := KnowPostStatusPublished,
      kp_publish_time := Some (column_time (kn_now S (snd x))), kp_update_time := column_time (kn_now S (snd x))\<rparr>"])
      (simp_all add: Publish_tx_def no)
  show "tabs s' = tabs s \<and> \<not> is_ok r" if c: "ConfirmContent S u i k etag sha sz s = (r, s')"
  proof -
    let ?p = "confirmed_content S u i k etag sha sz"
    obtain q s1 where w: "UpdateContent (kn_db S) (kn_now S s) ?p s = (q, s1)" by (cases "UpdateContent (kn_db S) (kn_now S s) ?p s")
    have p: "kp_id ?p = i" "kp_creator ?p = u" by (simp_all add: confirmed_content_def blank_post_def)
    have "update_posts (owned i u) f (tabs s) = (0, tabs s)" for f by (rule nothing_owned[OF no])
    with write_cases[OF w[unfolded UpdateContent_def p]] have k: "tabs s1 = tabs s" "\<forall>n. q = Inr n \<longrightarrow> n = 0" by auto
    show ?thesis
    proof (cases q)
      case (Inl e)
      with c w k show ?thesis by (auto simp: ConfirmContent_def)
    next
      case (Inr n)
      with c w k show ?thesis by (auto simp: ConfirmContent_def)
    qed
  qed
qed

end

section \<open>A world\<close>

text \<open>Stored tables, a Redis, counted ids that are also the clock, an in-process cache and the filter.\<close>

type_synonym post_world = "(mem \<times> (uint64 \<times> (string \<rightharpoonup> string) \<times> cf_store)) \<times> post_tables store"

definition post_pool :: "post_world l1_cache" where
  "post_pool = \<lparr>
     l1_get = (\<lambda>k s. (fst (snd (snd (fst s))) k, s)),
     l1_set = (\<lambda>k v ttl s. ((fst (fst s), (fst (snd (fst s)), (fst (snd (snd (fst s))))(k \<mapsto> v), snd (snd (snd (fst s))))), snd s)),
     l1_del = (\<lambda>k s. ((fst (fst s), (fst (snd (fst s)), (fst (snd (snd (fst s))))(k := None), snd (snd (snd (fst s))))), snd s))\<rparr>"

definition post_ids :: "post_world \<Rightarrow> uint64 \<times> post_world" where
  "post_ids s = (fst (snd (fst s)), ((fst (fst s), (fst (snd (fst s)) + 1, snd (snd (fst s)))), snd s))"

definition post_filter :: "post_world bloom" where
  "post_filter = mem_bloom (\<lambda>s. snd (snd (snd (fst s)))) (\<lambda>x s. ((fst (fst s), (fst (snd (fst s)), fst (snd (snd (fst s))), x)), snd s))"

definition mem_posts :: "mem redis \<Rightarrow> post_world post_service" where
  "mem_posts R = \<lparr>kn_db = stored_db, kn_redis = on_first (on_first R), kn_next_id = post_ids,
     kn_versions = Some (newDetailVersions (on_first (on_first R)) (Some post_pool) None), kn_bloom = Some post_filter,
     kn_oss = \<lparr>oc_public_domain = ''https://cdn.zg'', oc_bucket = ''b'', oc_endpoint = ''e''\<rparr>,
     kn_feed_cache = None, kn_audit = None, kn_now = (\<lambda>s. 100 * uint (fst (snd (fst s)))), kn_sleep = (\<lambda>s. (True, s)),
     kn_json_list = (\<lambda>ts. concat ts), kn_json_column = (\<lambda>t. t)\<rparr>"

lemma mem_posts_sel [simp]:
  "kn_db (mem_posts R) = stored_db" "kn_redis (mem_posts R) = on_first (on_first R)" "kn_next_id (mem_posts R) = post_ids"
  "kn_versions (mem_posts R) = Some (newDetailVersions (on_first (on_first R)) (Some post_pool) None)"
  "kn_bloom (mem_posts R) = Some post_filter" "kn_feed_cache (mem_posts R) = None" "kn_audit (mem_posts R) = None"
  "kn_sleep (mem_posts R) s = (True, s)"
  by (simp_all add: mem_posts_def)

interpretation post_filter_frame: bloom_frame post_filter "\<lambda>s. (fst (snd (fst s)), snd s)"
  by unfold_locales (simp_all add: post_filter_def mem_bloom_def split: prod.split option.split)

lemma filter_tables: "bloom_frame post_filter (\<lambda>s. fst (snd s))"
  by unfold_locales (simp_all add: post_filter_def mem_bloom_def split: prod.split option.split)

lemma post_tables_sel: "db_tables stored_db = (\<lambda>s. fst (snd s))"
  by (simp add: fun_eq_iff)

interpretation mem_post: post_store "mem_posts R" for R
  by (intro post_store.intro post_store_axioms.intro)
    (auto simp: stored.sql_database_axioms post_tables_sel filter_tables first_frame.redis_frame_axioms post_ids_def newDetailVersions_def post_pool_def)

text \<open>Without faults: what a change answers and leaves, as a function of clock and tables.\<close>

definition clock_tables :: "post_world \<Rightarrow> uint64 \<times> post_tables store" where
  "clock_tables s = (fst (snd (fst s)), snd s)"

lemma clock_tables_simp [simp]: "clock_tables ((m, (c, b)), x) = (c, x)"
  by (simp add: clock_tables_def)

interpretation clock_frame: redis_frame "on_first (on_first R)" clock_tables for R
  by unfold_locales (auto simp: clock_tables_def split: prod.splits)

lemma clock_kept [simp]:
  "clock_tables (drop_version (kn_versions (mem_posts R)) k s) = clock_tables s"
  "clock_tables (invalidate_post (mem_posts R) u i s) = clock_tables s"
  "clock_tables (audit_post (mem_posts R) action u i detail s) = clock_tables s"
proof -
  show d: "clock_tables (drop_version (kn_versions (mem_posts R)) k s) = clock_tables s" for k s
    by (simp add: drop_version_def newDetailVersions_def post_pool_def clock_tables_def)
  have "clock_tables (invalidate_script (on_first (on_first R)) k p s) = clock_tables s" for k p s
    by (simp add: invalidate_script_def Let_def clock_tables_def)
  with d show "clock_tables (invalidate_post (mem_posts R) u i s) = clock_tables s"
    by (simp add: invalidate_post_def invalidateCache_def invalidateFeedCaches_def clock_frame.frame_wr del: mem_posts_sel(4))
qed (simp add: audit_post_def)

lemma change_computes:
  assumes s: "clock_tables s = (c, t, [])" and mutate: "\<And>x. mutate x = tx_exec stored_db (update_posts p (f x)) x"
    and f: "\<And>x. fst (snd (fst (snd x))) = c + 1 \<Longrightarrow> f x = g" and after: "\<And>s. clock_tables (after s) = clock_tables s"
    and u: "update_posts p g t = (n, t1)"
    and r: "changed_post S u i (runKnowPostTxWithPayload (mem_posts R) i ty extra mutate s) after = (r, s')"
  shows "r = (if n = 0 then Inl (KTx (TxApp not_owned)) else Inr ()) \<and>
    clock_tables s' = (c + 1, if n = 0 then t else insert_post_event (post_event c i ty extra) t1, [])"
proof -
  obtain m b where s': "s = ((m, (c, b)), (t, []))" using s by (cases s) (auto simp: clock_tables_def)
  let ?s1 = "((m, (c + 1, b)), (t, [])) :: post_world"
  have m: "must_change (mutate (t, ?s1)) = (if n = 0 then Failed (TxApp not_owned) else Done, (t1, ?s1))"
    by (simp add: mutate f[of "(t, ?s1)"] tx_exec_def u must_change_def)
  have "runKnowPostTxWithPayload (mem_posts R) i ty extra mutate s =
      (if n = 0 then (Inl (TxApp not_owned), ?s1) else (Inr (), ((m, (c + 1, b)), (insert_post_event (post_event c i ty extra) t1, []))))"
    by (simp add: runKnowPostTxWithPayload_def s' post_ids_def run_in_tx_def m rollback_after_def tx_exec_def remarshal_def)
  with r after[of "((m, (c + 1, b)), (insert_post_event (post_event c i ty extra) t1, []))"] show ?thesis
    by (cases "n = 0") (auto simp: changed_post_def)
qed

lemma mem_now: "kn_now (mem_posts R) s = 100 * uint (fst (snd (fst s)))"
  by (simp add: mem_posts_def)

lemma filter_keeps_clock [simp]:
  "clock_tables (AddUint64 (kn_bloom (mem_posts R)) i s) = clock_tables s" "clock_tables (DeleteUint64 (kn_bloom (mem_posts R)) i s) = clock_tables s"
  using post_filter_frame.members_same[of i s] by (simp_all add: clock_tables_def)

lemma top_computes:
  assumes "clock_tables s = (c, t, [])" "UpdateTop (mem_posts R) u i flag s = (r, s')"
    and "update_posts (owned i u) (\<lambda>r. r\<lparr>kp_is_top := flag, kp_update_time := column_time (100 * uint (c + 1))\<rparr>) t = (n, t1)"
  shows "r = (if n = 0 then Inl (KTx (TxApp not_owned)) else Inr ()) \<and>
    (\<exists>e. clock_tables s' = (c + 1, if n = 0 then t else insert_post_event e t1, []))"
  using change_computes[OF assms(1) _ _ _ assms(3) assms(2)[unfolded UpdateTop_def],
    where f = "\<lambda>x r. r\<lparr>kp_is_top := flag, kp_update_time := column_time (100 * uint (fst (snd (fst (snd x)))))\<rparr>"]
  by (auto simp: UpdateTop_tx_def mem_now)

lemma visibility_computes:
  assumes "clock_tables s = (c, t, [])" "UpdateVisibility (mem_posts R) u i v s = (r, s')" "isValidVisible v"
    and "update_posts (owned i u) (\<lambda>r. r\<lparr>kp_visible := v, kp_update_time := column_time (100 * uint (c + 1))\<rparr>) t = (n, t1)"
  shows "r = (if n = 0 then Inl (KTx (TxApp not_owned)) else Inr ()) \<and>
    (\<exists>e. clock_tables s' = (c + 1, if n = 0 then t else insert_post_event e t1, []))"
  using change_computes[OF assms(1) _ _ _ assms(4) assms(2)[unfolded UpdateVisibility_def eqTrueI[OF assms(3)] not_True_eq_False if_False],
    where f = "\<lambda>x r. r\<lparr>kp_visible := v, kp_update_time := column_time (100 * uint (fst (snd (fst (snd x)))))\<rparr>"]
  by (auto simp: UpdateVisibility_tx_def mem_now)

lemma publish_computes:
  assumes "clock_tables s = (c, t, [])" "Publish (mem_posts R) u i s = (r, s')"
    and "update_posts (\<lambda>r. owned i u r \<and> kp_status r = KnowPostStatusDraft) (\<lambda>r. r\<lparr>kp_status := KnowPostStatusPublished,
      kp_publish_time := Some (column_time (100 * uint (c + 1))), kp_update_time := column_time (100 * uint (c + 1))\<rparr>) t = (n, t1)"
  shows "r = (if n = 0 then Inl (KTx (TxApp not_owned)) else Inr ()) \<and>
    (\<exists>e. clock_tables s' = (c + 1, if n = 0 then t else insert_post_event e t1, []))"
  using change_computes[OF assms(1) _ _ _ assms(3) assms(2)[unfolded Publish_def], where f = "\<lambda>x r. r\<lparr>kp_status := KnowPostStatusPublished,
      kp_publish_time := Some (column_time (100 * uint (fst (snd (fst (snd x)))))), kp_update_time := column_time (100 * uint (fst (snd (fst (snd x)))))\<rparr>"]
  by (auto simp: Publish_tx_def mem_now)

lemma delete_computes:
  assumes "clock_tables s = (c, t, [])" "Delete (mem_posts R) u i s = (r, s')"
    and "update_posts (owned i u) (\<lambda>r. r\<lparr>kp_status := KnowPostStatusDeleted, kp_update_time := column_time (100 * uint (c + 1))\<rparr>) t = (n, t1)"
  shows "r = (if n = 0 then Inl (KTx (TxApp not_owned)) else Inr ()) \<and>
    (\<exists>e. clock_tables s' = (c + 1, if n = 0 then t else insert_post_event e t1, []))"
  using change_computes[OF assms(1) _ _ _ assms(3) assms(2)[unfolded Delete_def], where f = "\<lambda>x r. r\<lparr>kp_status := KnowPostStatusDeleted,
      kp_update_time := column_time (100 * uint (fst (snd (fst (snd x)))))\<rparr>"]
  by (auto simp: SoftDelete_tx_def mem_now filter_keeps_clock[unfolded mem_posts_sel])

definition author :: user where
  "author = \<lparr>us_id = 7, us_zg_id = None, us_phone = None, us_email = None, us_password_hash = None, us_nickname = ''ann'',
     us_avatar = None, us_tags_json = None, us_birthday = None, us_gender = None, us_bio = None, us_school = None\<rparr>"

definition no_posts :: post_tables where
  "no_posts = \<lparr>pt_posts = [], pt_users = [author], pt_outbox = []\<rparr>"

definition post_start :: post_world where
  "post_start = (((empty_keyspace, []), (1, (\<lambda>_. None), (None, \<lparr>bf_ensured = False, bf_module_ok = False, bf_module_fail = False\<rparr>, []))), (no_posts, []))"

section \<open>Properties\<close>

text \<open>
  C30: after any run of the writing operations, with whatever failures, ids are unique,
  every post has an author that exists and one of three states; a draft has no time of
  publication and a published post has one. No post is lost: each keeps its id, its
  author and its time of publication, none goes back to draft and a deleted one stays
  deleted.
\<close>

theorem posts_well_formed:
  assumes "post_store S" "db_tables (kn_db S) s0 = t0" "pt_posts t0 = []"
    and "post_run S s0 s1" "post_run S s1 s2"
  shows "(let t1 = db_tables (kn_db S) s1; t2 = db_tables (kn_db S) s2 in
    distinct (map kp_id (pt_posts t1)) \<and>
    (\<forall>r \<in> set (pt_posts t1). kp_creator r \<in> us_id ` set (pt_users t1) \<and>
       (kp_status r = KnowPostStatusDraft \<and> kp_publish_time r = None \<or>
        kp_status r = KnowPostStatusPublished \<and> kp_publish_time r \<noteq> None \<or> kp_status r = KnowPostStatusDeleted) \<and>
       (\<exists>r' \<in> set (pt_posts t2). kp_id r' = kp_id r \<and> kp_creator r' = kp_creator r \<and>
          (kp_publish_time r \<noteq> None \<longrightarrow> kp_publish_time r' = kp_publish_time r) \<and>
          (kp_status r = KnowPostStatusPublished \<longrightarrow> kp_status r' \<noteq> KnowPostStatusDraft) \<and>
          (kp_status r = KnowPostStatusDeleted \<longrightarrow> kp_status r' = KnowPostStatusDeleted))))"
proof -
  let ?t1 = "db_tables (kn_db S) s1" and ?t2 = "db_tables (kn_db S) s2"
  have "posts_ok t0" using assms(3) by (simp add: posts_ok_def)
  then have 1: "posts_ok ?t1" using post_store.run_lives[OF assms(1,4)] unfolding lives_def assms(2) by blast
  then have "older ?t1 ?t2" using post_store.run_lives[OF assms(1,5)] unfolding lives_def by blast
  with 1 show ?thesis
    unfolding Let_def
  proof (intro conjI ballI)
    fix r
    assume r: "r \<in> set (pt_posts ?t1)"
    show "\<exists>r' \<in> set (pt_posts ?t2). kp_id r' = kp_id r \<and> kp_creator r' = kp_creator r \<and>
          (kp_publish_time r \<noteq> None \<longrightarrow> kp_publish_time r' = kp_publish_time r) \<and>
          (kp_status r = KnowPostStatusPublished \<longrightarrow> kp_status r' \<noteq> KnowPostStatusDraft) \<and>
          (kp_status r = KnowPostStatusDeleted \<longrightarrow> kp_status r' = KnowPostStatusDeleted)"
      using \<open>older ?t1 ?t2\<close>[unfolded older_def, rule_format, OF r] by (auto simp: aged_def)
  qed (auto simp: posts_ok_def post_ok_def)
qed

definition post_draft :: post_world where
  "post_draft = snd (insert_draft (mem_posts up_redis) 7 None post_start)"

definition post_live :: post_world where
  "post_live = snd (Publish (mem_posts up_redis) 7 1 post_draft)"

definition post_gone :: post_world where
  "post_gone = snd (Delete (mem_posts up_redis) 7 1 post_live)"

lemma start_tables: "db_tables (kn_db (mem_posts up_redis)) post_start = no_posts" "pt_posts no_posts = []" "pt_outbox no_posts = []"
  by (simp_all add: post_start_def no_posts_def)

lemma live_run: "post_run (mem_posts up_redis) post_start post_live" "post_run (mem_posts up_redis) post_live post_gone"
  "post_run (mem_posts up_redis) post_start post_gone"
proof -
  have "CreateDraft (mem_posts up_redis) 7 [] post_start = Some (fst (insert_draft (mem_posts up_redis) 7 None post_start), post_draft)"
    by (simp add: CreateDraft_def post_draft_def)
  from post_run.create[OF post_run.start this] have "post_run (mem_posts up_redis) post_start post_draft" .
  then show live: "post_run (mem_posts up_redis) post_start post_live"
    unfolding post_live_def by (rule post_run.publish[OF _ prod.collapse[symmetric]])
  then show "post_run (mem_posts up_redis) post_start post_gone" "post_run (mem_posts up_redis) post_live post_gone"
    unfolding post_gone_def by (blast intro: post_run.delete[OF _ prod.collapse[symmetric]] post_run.start)+
qed

definition draft_row :: know_post where
  "draft_row = (new_draft 1 7 0)\<lparr>kp_create_time := 0, kp_update_time := 0\<rparr>"

lemma draft_state: "clock_tables post_draft = (2, no_posts\<lparr>pt_posts := [draft_row]\<rparr>, [])"
  by (simp add: post_draft_def insert_draft_def post_start_def post_ids_def InsertDraft_def db_write_def insert_post_def no_posts_def author_def
    new_draft_def blank_post_def draft_row_def column_time_def mem_now filter_keeps_clock[unfolded mem_posts_sel])

lemma row_sel [simp]: "kp_id draft_row = 1" "kp_creator draft_row = 7" "kp_status draft_row = KnowPostStatusDraft" "kp_is_top draft_row = False"
  "kp_visible draft_row = KnowPostVisibilityPublic" "kp_update_time draft_row = 0"
  by (simp_all add: draft_row_def new_draft_def blank_post_def)

lemma live_state: "\<exists>e. clock_tables post_live = (3, \<lparr>pt_posts = [draft_row\<lparr>kp_status := KnowPostStatusPublished, kp_publish_time := Some 0, kp_update_time := 0\<rparr>],
    pt_users = [author], pt_outbox = [e]\<rparr>, [])"
  using publish_computes[OF draft_state prod.collapse[symmetric] prod.collapse[symmetric], where R = up_redis and u = 7 and i = 1]
  by (auto simp: post_live_def update_posts_def owned_def no_posts_def column_time_def insert_post_event_def post_status_defs
    draft_row_def new_draft_def blank_post_def)

lemma live_tables: "map kp_status (pt_posts (fst (snd post_live))) = [KnowPostStatusPublished]"
  using live_state by (auto simp: clock_tables_def)

lemma gone_tables: "map kp_status (pt_posts (fst (snd post_gone))) = [KnowPostStatusDeleted]"
proof -
  obtain e where l: "clock_tables post_live = (3, \<lparr>pt_posts = [draft_row\<lparr>kp_status := KnowPostStatusPublished, kp_publish_time := Some 0, kp_update_time := 0\<rparr>],
    pt_users = [author], pt_outbox = [e]\<rparr>, [])" using live_state by blast
  show ?thesis
    using delete_computes[OF l prod.collapse[symmetric] prod.collapse[symmetric], where R = up_redis and u = 7 and i = 1]
    by (auto simp: post_gone_def clock_tables_def update_posts_def owned_def insert_post_event_def post_status_defs
      draft_row_def new_draft_def blank_post_def)
qed

theorem posts_well_formed_witness:
  "map kp_status (pt_posts (fst (snd post_live))) = [KnowPostStatusPublished] \<and>
   list_all (\<lambda>r. list_ex (\<lambda>r'. kp_id r' = kp_id r \<and> kp_creator r' = kp_creator r \<and> kp_publish_time r' = kp_publish_time r)
     (pt_posts (fst (snd post_gone)))) (pt_posts (fst (snd post_live)))"
proof -
  note all = posts_well_formed[OF mem_post.post_store_axioms start_tables(1,2) live_run(1,2)]
  show ?thesis using all live_tables unfolding Let_def list_all_iff list_ex_iff by (fastforce simp: post_status_defs)
qed

definition live_events :: "outbox_event list" where
  "live_events = newly_written (fst (snd post_draft)) (fst (snd post_live))"

definition gone_events :: "outbox_event list" where
  "gone_events = live_events @ newly_written (fst (snd post_live)) (fst (snd post_gone))"

lemma gone_run: "event_run (mem_posts up_redis) post_start gone_events post_gone"
proof -
  let ?S = "mem_posts up_redis"
  have d: "CreateDraft ?S 7 [] post_start = Some (fst (insert_draft ?S 7 None post_start), post_draft)"
    by (simp add: CreateDraft_def post_draft_def)
  have "newly_written (fst (snd post_start)) (fst (snd post_draft)) = []"
    using draft_state by (simp add: newly_written_def clock_tables_def no_posts_def)
  with event_run.asked[OF event_run.nothing post_request.create_request[OF d]]
  have "event_run ?S post_start [] post_draft" by simp
  from event_run.asked[OF this post_request.publish_request[OF prod.collapse[symmetric]], of 7 1]
  have "event_run ?S post_start live_events post_live" by (simp add: post_live_def live_events_def)
  from event_run.asked[OF this post_request.delete_request[OF prod.collapse[symmetric]], of 7 1]
  show ?thesis by (simp add: post_gone_def gone_events_def)
qed

text \<open>
  C31: the outbox tells the life of the posts. Take any run of the requests and of the
  cleaner from an empty table, with whatever failures, where the cleaner does not run
  while a request waits for another one, and take in order all rows that the requests put
  in the outbox. Every event is about a post that exists; a post has exactly one event of
  publication if it was ever published and none otherwise, and it has events of deletion
  if and only if it is deleted. The outbox holds of these rows what the cleaner has left.
\<close>

theorem outbox_tells_life:
  assumes "post_store S" "\<And>s. grows (db_tables (kn_db S) s) (db_tables (kn_db S) (snd (kn_sleep S s)))"
    and "db_tables (kn_db S) s0 = t0" "pt_posts t0 = []" "pt_outbox t0 = []" "event_run S s0 hist s"
  shows "let t = db_tables (kn_db S) s in
    subseq (pt_outbox t) hist \<and> (\<forall>e \<in> set hist. \<exists>r \<in> set (pt_posts t). ob_aggregate_id e = Some (kp_id r)) \<and>
    (\<forall>r \<in> set (pt_posts t).
       length (events_of outboxTypePublished (kp_id r) hist) = (if kp_publish_time r = None then 0 else 1) \<and>
       (events_of outboxTypeDeleted (kp_id r) hist \<noteq> [] \<longleftrightarrow> kp_status r = KnowPostStatusDeleted))"
proof -
  have ok: "posts_ok (db_tables (kn_db S) s0)" "pt_posts (db_tables (kn_db S) s0) = []" "pt_outbox (db_tables (kn_db S) s0) = []"
    unfolding assms(3) using assms(4,5) by (simp_all add: posts_ok_def)
  have t: "told hist (db_tables (kn_db S) s)" "subseq (pt_outbox (db_tables (kn_db S) s)) hist"
    using post_store.run_told[OF assms(1,2) ok assms(6)] by blast+
  have "\<exists>r \<in> set (pt_posts (db_tables (kn_db S) s)). ob_aggregate_id e = Some (kp_id r)" if "e \<in> set hist" for e
    using t(1) that unfolding told_def by fast
  with t show ?thesis unfolding Let_def told_def by blast
qed

theorem outbox_tells_life_witness:
  "map kp_status (pt_posts (fst (snd post_gone))) = [KnowPostStatusDeleted] \<and> subseq (pt_outbox (fst (snd post_gone))) gone_events \<and>
   list_all (\<lambda>r. events_of outboxTypeDeleted (kp_id r) gone_events \<noteq> []) (pt_posts (fst (snd post_gone)))"
proof -
  have g: "map kp_status (pt_posts (fst (snd post_gone))) = [KnowPostStatusDeleted]" by (rule gone_tables)
  then have "\<forall>r \<in> set (pt_posts (fst (snd post_gone))). kp_status r = KnowPostStatusDeleted" by (auto simp: map_eq_Cons_conv)
  moreover have "grows (db_tables (kn_db (mem_posts up_redis)) s) (db_tables (kn_db (mem_posts up_redis)) (snd (kn_sleep (mem_posts up_redis) s)))" for s
    by simp
  ultimately show ?thesis
    using g outbox_tells_life[OF mem_post.post_store_axioms _ start_tables gone_run] unfolding Let_def list_all_iff by auto
qed

text \<open>
  C32: only the author changes a post. A request for a post that is not there or is
  another user's answers with an error and leaves posts and outbox as they are, whatever
  it wants to change and whatever fails.
\<close>

theorem only_author_changes:
  assumes "post_store S" "\<not> (\<exists>r \<in> set (pt_posts (db_tables (kn_db S) s)). kp_id r = i \<and> kp_creator r = u)"
    and "(r, s') \<in> {UpdateMetadata S u i req s, Publish S u i s, UpdateTop S u i flag s, UpdateVisibility S u i v s,
      Delete S u i s, ConfirmContent S u i k etag sha sz s}"
  shows "db_tables (kn_db S) s' = db_tables (kn_db S) s \<and> \<not> is_ok r"
proof -
  have no: "\<And>r. owned i u r \<Longrightarrow> r \<notin> set (pt_posts (db_tables (kn_db S) s))" using assms(2) by (auto simp: owned_def)
  note cases = post_store.not_yours[OF assms(1) no]
  from assms(3) show ?thesis by (elim insertE emptyE) (rule cases[OF _ sym], assumption, assumption)+
qed

theorem only_author_changes_witness:
  "fst (snd (snd (Delete (mem_posts mem_redis) 8 1 post_live))) = fst (snd post_live) \<and> \<not> is_ok (fst (Delete (mem_posts mem_redis) 8 1 post_live))"
proof -
  have "\<forall>r \<in> set (pt_posts (fst (snd post_live))). kp_creator r \<noteq> 8" using live_state by (auto simp: clock_tables_def)
  then have no: "\<not> (\<exists>r \<in> set (pt_posts (db_tables (kn_db (mem_posts mem_redis)) post_live)). kp_id r = 1 \<and> kp_creator r = 8)" by simp
  show ?thesis
    using only_author_changes[OF mem_post.post_store_axioms no,
      where r = "fst (Delete (mem_posts mem_redis) 8 1 post_live)" and s' = "snd (Delete (mem_posts mem_redis) 8 1 post_live)"]
    by simp
qed

text \<open>
  C33: a change of the top flag or of the visibility that succeeded and is asked for again,
  with no change of the table in between and at a time that the column rounds to the same
  second, changes nothing and is answered as if the post were not there, since MySQL
  counts no changed row; the only other answers are errors of the database.
\<close>

theorem repeated_change_not_found:
  assumes "post_store S" "change \<in> {UpdateTop S u i flag, UpdateVisibility S u i v}"
    and "change s = (Inr (), s1)" "pt_posts (db_tables (kn_db S) s') = pt_posts (db_tables (kn_db S) s1)"
    and "change_time S s' = change_time S s" "change s' = (r, s2)"
  shows "db_tables (kn_db S) s2 = db_tables (kn_db S) s' \<and>
    (\<exists>e. r \<in> {Inl (KTx (TxApp not_owned)), Inl (KTx (TxIo e)), Inl (KTx (RollbackFailed e))})"
proof -
  note again = post_store.change_again[OF assms(1), where s = s' and s' = s2 and r = r]
    and first = post_store.first_change[OF assms(1), where s = s and s' = s1]
  note frames = post_store.invalidate_frame[OF assms(1)]
  from assms(2) consider (top) "change = UpdateTop S u i flag" | (vis) "change = UpdateVisibility S u i v" by blast
  then show ?thesis
  proof cases
    case top
    let ?f = "\<lambda>w r. r\<lparr>kp_is_top := flag, kp_update_time := w\<rparr>"
    have m: "UpdateTop_tx (kn_db S) (kn_now S (snd x)) i u flag x =
        tx_exec (kn_db S) (update_posts (owned i u) (\<lambda>r. ?f (column_time (kn_now S (snd x))) r)) x" for x
      by (simp add: UpdateTop_tx_def)
    have "pt_posts (db_tables (kn_db S) s') = map (\<lambda>r. if owned i u r then ?f (change_time S s) r else r) (pt_posts (db_tables (kn_db S) s))"
      using first[OF assms(3)[unfolded top UpdateTop_def] frames m] assms(4) by simp
    then have "?f (change_time S s') r = r" if "r \<in> set (pt_posts (db_tables (kn_db S) s'))" "owned i u r" for r
      unfolding assms(5) by (rule changed_once[where f = "?f (change_time S s)" and p = "owned i u", OF _ that]) (simp_all add: owned_def)
    from again[OF assms(6)[unfolded top UpdateTop_def] frames m this] show ?thesis .
  next
    case vis
    let ?f = "\<lambda>w r. r\<lparr>kp_visible := v, kp_update_time := w\<rparr>"
    have v: "isValidVisible v" using assms(3) vis by (auto simp: UpdateVisibility_def split: if_splits)
    have m: "UpdateVisibility_tx (kn_db S) (kn_now S (snd x)) i u v x =
        tx_exec (kn_db S) (update_posts (owned i u) (\<lambda>r. ?f (column_time (kn_now S (snd x))) r)) x" for x
      by (simp add: UpdateVisibility_tx_def)
    note un = vis UpdateVisibility_def eqTrueI[OF v] not_True_eq_False if_False
    have "pt_posts (db_tables (kn_db S) s') = map (\<lambda>r. if owned i u r then ?f (change_time S s) r else r) (pt_posts (db_tables (kn_db S) s))"
      using first[OF assms(3)[unfolded un] frames m] assms(4) by simp
    then have "?f (change_time S s') r = r" if "r \<in> set (pt_posts (db_tables (kn_db S) s'))" "owned i u r" for r
      unfolding assms(5) by (rule changed_once[where f = "?f (change_time S s)" and p = "owned i u", OF _ that]) (simp_all add: owned_def)
    from again[OF assms(6)[unfolded un] frames m this] show ?thesis .
  qed
qed

theorem repeated_change_not_found_witness:
  "\<not> is_ok (fst (UpdateTop (mem_posts up_redis) 7 1 True (snd (UpdateTop (mem_posts up_redis) 7 1 True post_draft))))"
proof -
  let ?S = "mem_posts up_redis"
  obtain r1 s1 where 1: "UpdateTop ?S 7 1 True post_draft = (r1, s1)" by (cases "UpdateTop ?S 7 1 True post_draft")
  obtain r2 s2 where 2: "UpdateTop ?S 7 1 True s1 = (r2, s2)" by (cases "UpdateTop ?S 7 1 True s1")
  have ne: "draft_row\<lparr>kp_is_top := True, kp_update_time := 0\<rparr> \<noteq> draft_row" by (simp add: draft_row_def new_draft_def blank_post_def)
  have a: "r1 = Inr () \<and> fst (clock_tables s1) = 3"
    using top_computes[OF draft_state 1 prod.collapse[symmetric]]
    by (auto simp: update_posts_def owned_def no_posts_def column_time_def ne)
  have t: "change_time ?S s = column_time (100 * uint (fst (clock_tables s) + 1))" for s
    by (simp add: change_time_def mem_now post_ids_def clock_tables_def case_prod_beta)
  have "change_time ?S s1 = change_time ?S post_draft" unfolding t draft_state using a by (simp add: column_time_def)
  with repeated_change_not_found[OF mem_post.post_store_axioms insertI1 1[unfolded conjunct1[OF a]] refl _ 2]
  have "\<not> is_ok r2" by auto
  then show ?thesis by (simp add: 1 2)
qed

end
