(* ===== verification/Knowpost_Detail.thy ===== *)
theory Knowpost_Detail
  imports Knowpost_Model Cache_HotKey
begin

text \<open>
  \<open>internal/knowpost/detail_service.go\<close>: reading one post through the tiered cache,
  with the filter before the load, the counts, the state of the user and the warming of
  the filter. \<open>encoding/json\<close>, the random numbers and the counting module are arguments.
\<close>

section \<open>Configuration\<close>

record detail_cache_config =
  dc_l1_ttl :: int
  dc_version_ttl :: int
  dc_null_ttl_base :: int
  dc_null_jitter :: int
  dc_l2_ttl_base :: int
  dc_l2_jitter :: int
  dc_ttl_low :: int
  dc_ttl_medium :: int
  dc_ttl_high :: int
  dc_bloom_enabled :: "bool option"
  dc_bloom_expected :: uint64
  dc_bloom_rate :: rat
  dc_bloom_key :: string

definition or_default :: "int \<Rightarrow> int \<Rightarrow> int" where
  "or_default x d = (if x \<le> 0 then d else x)"

definition detail_defaults :: "detail_cache_config \<Rightarrow> detail_cache_config" where
  "detail_defaults c = \<lparr>dc_l1_ttl = or_default (dc_l1_ttl c) 60, dc_version_ttl = dc_version_ttl c,
     dc_null_ttl_base = or_default (dc_null_ttl_base c) 30, dc_null_jitter = or_default (dc_null_jitter c) 31,
     dc_l2_ttl_base = or_default (dc_l2_ttl_base c) 60, dc_l2_jitter = or_default (dc_l2_jitter c) 31,
     dc_ttl_low = or_default (dc_ttl_low c) 30, dc_ttl_medium = or_default (dc_ttl_medium c) 60,
     dc_ttl_high = or_default (dc_ttl_high c) 300,
     dc_bloom_enabled = Some (case dc_bloom_enabled c of None \<Rightarrow> True | Some b \<Rightarrow> b),
     dc_bloom_expected = (if dc_bloom_expected c = 0 then 1000000 else dc_bloom_expected c),
     dc_bloom_rate = (if dc_bloom_rate c \<le> 0 \<or> dc_bloom_rate c \<ge> 1 then 1 / 100 else dc_bloom_rate c),
     dc_bloom_key = (if dc_bloom_key c = [] then ''cf:knowpost:ids'' else dc_bloom_key c)\<rparr>"

definition zero_detail_config :: detail_cache_config where
  "zero_detail_config = \<lparr>dc_l1_ttl = 0, dc_version_ttl = 0, dc_null_ttl_base = 0, dc_null_jitter = 0, dc_l2_ttl_base = 0,
     dc_l2_jitter = 0, dc_ttl_low = 0, dc_ttl_medium = 0, dc_ttl_high = 0, dc_bloom_enabled = None, dc_bloom_expected = 0,
     dc_bloom_rate = 0, dc_bloom_key = []\<rparr>"

definition detailCacheConfig :: "detail_cache_config option \<Rightarrow> detail_cache_config" where
  "detailCacheConfig c = (case c of Some d \<Rightarrow> d | None \<Rightarrow> detail_defaults zero_detail_config)"

text \<open>The filter of the posts, if it is wanted; \<open>client\<close> is what a Redis connection gives.\<close>

definition NewDetailBloom :: "'s bloom option \<Rightarrow> detail_cache_config option \<Rightarrow> 's bloom option" where
  "NewDetailBloom client c = (case (client, c) of
      (Some b, Some d) \<Rightarrow> NewRedisBloom client \<lparr>bc_enabled = (case dc_bloom_enabled d of None \<Rightarrow> True | Some x \<Rightarrow> x),
        bc_expected = dc_bloom_expected d, bc_rate = dc_bloom_rate d, bc_key = dc_bloom_key d,
        bc_bucket_size = 0, bc_max_kicks = 0, bc_expansion = 0\<rparr>
    | _ \<Rightarrow> None)"

definition knowPostLockOptions :: lock_options where
  "knowPostLockOptions = \<lparr>lo_ttl = 5000, lo_watchdog = 5000 div 3, lo_op_timeout = 1000\<rparr>"

section \<open>Rows and details\<close>

record detail_row =
  dr_id :: uint64
  dr_title :: "string option"
  dr_description :: "string option"
  dr_content_url :: "string option"
  dr_img_urls :: "string option"
  dr_tags :: "string option"
  dr_creator :: uint64
  dr_author_avatar :: "string option"
  dr_author_nickname :: string
  dr_author_tags :: "string option"
  dr_is_top :: bool
  dr_visible :: string
  dr_type :: string
  dr_status :: string
  dr_publish_time :: "int option"

record post_detail =
  pd_id :: string
  pd_title :: "string option"
  pd_description :: "string option"
  pd_content_url :: "string option"
  pd_images :: "string list"
  pd_tags :: "string list"
  pd_author_id :: string
  pd_author_avatar :: "string option"
  pd_author_nickname :: string
  pd_author_tags :: "string option"
  pd_like_count :: int
  pd_favorite_count :: int
  pd_liked :: "bool option"
  pd_faved :: "bool option"
  pd_is_top :: bool
  pd_visible :: string
  pd_type :: string
  pd_publish_time :: "int option"

text \<open>
  A \<open>LEFT JOIN\<close> with the author; without one the nickname is \<open>NULL\<close>, which does not
  fit into a Go string.
\<close>

definition detail_row_of :: "know_post \<Rightarrow> user \<Rightarrow> detail_row" where
  "detail_row_of r u = \<lparr>dr_id = kp_id r, dr_title = kp_title r, dr_description = kp_description r, dr_content_url = kp_content_url r,
     dr_img_urls = kp_img_urls r, dr_tags = kp_tags r, dr_creator = kp_creator r, dr_author_avatar = us_avatar u,
     dr_author_nickname = us_nickname u, dr_author_tags = us_tags_json u, dr_is_top = kp_is_top r, dr_visible = kp_visible r,
     dr_type = kp_type r, dr_status = kp_status r, dr_publish_time = kp_publish_time r\<rparr>"

definition detail_sql :: "uint64 \<Rightarrow> post_tables \<Rightarrow> io_error + detail_row" where
  "detail_sql i t = (case find (\<lambda>r. kp_id r = i) (pt_posts t) of
      None \<Rightarrow> Inl (IoError ''sql: no rows in result set'')
    | Some r \<Rightarrow> (case find (\<lambda>u. us_id u = kp_creator r) (pt_users t) of
        None \<Rightarrow> Inl (IoError ''converting NULL to string is unsupported'')
      | Some u \<Rightarrow> Inr (detail_row_of r u)))"

definition FindDetailByID :: "'s post_db \<Rightarrow> uint64 \<Rightarrow> 's \<Rightarrow> (io_error + detail_row) \<times> 's" where
  "FindDetailByID D i s = (case db_read D (detail_sql i) s of
      (Inl e, s1) \<Rightarrow> (Inl e, s1)
    | (Inr x, s1) \<Rightarrow> (x, s1))"

definition bloom_ids_sql :: "uint64 \<Rightarrow> int \<Rightarrow> post_tables \<Rightarrow> uint64 list" where
  "bloom_ids_sql last_id limit t = take (nat (if limit \<le> 0 then 1000 else limit))
     (sort (map kp_id (filter (\<lambda>r. last_id < kp_id r \<and> kp_status r \<noteq> KnowPostStatusDeleted) (pt_posts t))))"

definition ListIDsForBloom :: "'s post_db \<Rightarrow> uint64 \<Rightarrow> int \<Rightarrow> 's \<Rightarrow> (io_error + uint64 list) \<times> 's" where
  "ListIDsForBloom D last_id limit = db_read D (bloom_ids_sql last_id limit)"

text \<open>\<open>decode_list\<close> is \<open>json.Unmarshal\<close> into a list of texts.\<close>

definition ParseStringArray :: "(string \<Rightarrow> string list option) \<Rightarrow> string option \<Rightarrow> string list" where
  "ParseStringArray decode_list raw = (case raw of None \<Rightarrow> [] | Some t \<Rightarrow> (case decode_list t of None \<Rightarrow> [] | Some ts \<Rightarrow> ts))"

section \<open>The service\<close>

record 's engagement =
  en_counts :: "string \<Rightarrow> string \<Rightarrow> string list \<Rightarrow> 's \<Rightarrow> (io_error + (string \<rightharpoonup> int) option) \<times> 's"
  en_liked_faved :: "uint64 \<Rightarrow> string \<Rightarrow> string \<Rightarrow> 's \<Rightarrow> (io_error + bool \<times> bool) \<times> 's"

record 's detail_service =
  ds_db :: "'s post_db option"
  ds_redis :: "'s redis"
  ds_pool :: "'s l1_cache option"
  ds_prefix :: string
  ds_hotkey :: "'s hotkey option"
  ds_bloom :: "'s bloom option"
  ds_counter :: "'s engagement option"
  ds_cfg :: "detail_cache_config option"
  ds_encode :: "post_detail \<Rightarrow> string option"
  ds_decode :: "string \<Rightarrow> post_detail option"
  ds_decode_list :: "string \<Rightarrow> string list option"
  ds_jitter :: "int \<Rightarrow> 's \<Rightarrow> int \<times> 's"
  ds_token :: "'s \<Rightarrow> string \<times> 's"
  ds_wait :: "'s \<Rightarrow> bool \<times> 's"

definition jitterN :: "(int \<Rightarrow> 's \<Rightarrow> int \<times> 's) \<Rightarrow> int \<Rightarrow> 's \<Rightarrow> int \<times> 's" where
  "jitterN random n s = (if n \<le> 0 then (0, s) else random n s)"

text \<open>The pages have a prefix in the pool, the versions have not.\<close>

definition ds_l1 :: "'s detail_service \<Rightarrow> 's l1_cache option" where
  "ds_l1 S = map_option (prefix_cache (ds_prefix S)) (ds_pool S)"

text \<open>
  Go's \<open>errors.Is\<close> compares addresses here: a declared error is itself, and every
  \<open>WithMsg\<close> makes a fresh one.
\<close>

datatype error_ref = Declared app_error | Fresh app_error

definition errors_is :: "error_ref \<Rightarrow> app_error \<Rightarrow> bool" where
  "errors_is e declared = (case e of Declared a \<Rightarrow> a = declared | Fresh _ \<Rightarrow> False)"

definition WithMsg :: "app_error \<Rightarrow> string \<Rightarrow> error_ref" where
  "WithMsg e m = Fresh (with_msg e m)"

definition detail_of_row :: "'s detail_service \<Rightarrow> detail_row \<Rightarrow> post_detail" where
  "detail_of_row S r = \<lparr>pd_id = format_uint (dr_id r), pd_title = dr_title r, pd_description = dr_description r,
     pd_content_url = dr_content_url r, pd_images = ParseStringArray (ds_decode_list S) (dr_img_urls r),
     pd_tags = ParseStringArray (ds_decode_list S) (dr_tags r), pd_author_id = format_uint (dr_creator r),
     pd_author_avatar = dr_author_avatar r, pd_author_nickname = dr_author_nickname r, pd_author_tags = dr_author_tags r,
     pd_like_count = 0, pd_favorite_count = 0, pd_liked = None, pd_faved = None, pd_is_top = dr_is_top r,
     pd_visible = dr_visible r, pd_type = dr_type r, pd_publish_time = dr_publish_time r\<rparr>"

definition content_not_found :: error_ref where
  "content_not_found = WithMsg ErrNotFound ''content not found''"

definition queryDetailFromDB :: "'s detail_service \<Rightarrow> 's post_db \<Rightarrow> uint64 \<Rightarrow> uint64 option \<Rightarrow> 's \<Rightarrow> (error_ref + post_detail) \<times> 's" where
  "queryDetailFromDB S D i user s = (case FindDetailByID D i s of
      (Inl e, s1) \<Rightarrow> (Inl content_not_found, s1)
    | (Inr row, s1) \<Rightarrow>
        (if dr_status row = KnowPostStatusDeleted then (Inl content_not_found, s1)
         else let is_public = (dr_status row = KnowPostStatusPublished \<and> dr_visible row = KnowPostVisibilityPublic);
                  is_owner = (user = Some (dr_creator row))
              in if \<not> is_public \<and> \<not> is_owner then (Inl (WithMsg ErrForbidden ''no permission to view''), s1)
                 else (Inr (detail_of_row S row), s1)))"

definition count_of :: "(string \<rightharpoonup> int) option \<Rightarrow> string \<Rightarrow> int" where
  "count_of m k = (case m of None \<Rightarrow> 0 | Some f \<Rightarrow> (case f k of None \<Rightarrow> 0 | Some n \<Rightarrow> n))"

definition fillCounts :: "'s detail_service \<Rightarrow> post_detail \<Rightarrow> 's \<Rightarrow> post_detail \<times> 's" where
  "fillCounts S d s = (case ds_counter S of None \<Rightarrow> (d, s) | Some c \<Rightarrow>
     (case en_counts c ''knowpost'' (pd_id d) [''like'', ''fav''] s of
        (Inl e, s1) \<Rightarrow> (d, s1)
      | (Inr m, s1) \<Rightarrow> (d\<lparr>pd_like_count := count_of m ''like'', pd_favorite_count := count_of m ''fav''\<rparr>, s1)))"

definition refresh_counts :: "'s engagement \<Rightarrow> post_detail \<Rightarrow> 's \<Rightarrow> post_detail \<times> 's" where
  "refresh_counts c d s = (case en_counts c ''knowpost'' (pd_id d) [''like'', ''fav''] s of
      (Inl e, s1) \<Rightarrow> (d, s1)
    | (Inr m, s1) \<Rightarrow>
        (if m = None then d else d\<lparr>pd_like_count := count_of m ''like'', pd_favorite_count := count_of m ''fav''\<rparr>, s1))"

definition enrichDetail :: "'s detail_service \<Rightarrow> post_detail \<Rightarrow> uint64 option \<Rightarrow> bool \<Rightarrow> 's \<Rightarrow> post_detail \<times> 's" where
  "enrichDetail S d user refresh s = (case ds_counter S of None \<Rightarrow> (d, s) | Some c \<Rightarrow>
     (case (if refresh then refresh_counts c d s else (d, s)) of
        (d1, s1) \<Rightarrow>
          (case user of None \<Rightarrow> (d1, s1) | Some u \<Rightarrow>
             (case en_liked_faved c u ''knowpost'' (pd_id d1) s1 of
                (Inl e, s2) \<Rightarrow> (d1, s2)
              | (Inr (liked, faved), s2) \<Rightarrow> (d1\<lparr>pd_liked := Some liked, pd_faved := Some faved\<rparr>, s2)))))"

text \<open>A longer time to live, in seconds, for keys that have a shorter one.\<close>

definition extend_ttl :: "'s redis \<Rightarrow> int \<Rightarrow> string \<Rightarrow> 's \<Rightarrow> 's" where
  "extend_ttl R target k s = (if r_ttl R k s > 0 \<and> r_ttl R k s < target then r_expire R k (target * 1000) s else s)"

definition extend_ttl_dual :: "'s redis \<Rightarrow> int \<Rightarrow> string \<Rightarrow> string \<Rightarrow> 's \<Rightarrow> 's" where
  "extend_ttl_dual R target k1 k2 s = extend_ttl R target k2 (extend_ttl R target k1 s)"

definition recordHotKeyAndExtendTTL :: "'s detail_service \<Rightarrow> uint64 \<Rightarrow> string \<Rightarrow> 's \<Rightarrow> 's" where
  "recordHotKeyAndExtendTTL S i page_key s = (case ds_hotkey S of None \<Rightarrow> s | Some H \<Rightarrow>
     (let base = dc_ttl_medium (detailCacheConfig (ds_cfg S));
          (target, s1) = TTLForPublic H base (hotKeyID i) (Record H (hotKeyID i) s)
      in if target \<le> base then s1 else snd (wr (ds_redis S) (extend_ttl_dual (ds_redis S) target page_key (feedItemKeyU i)) s1)))"

section \<open>Reading a detail\<close>

definition detail_l2_ttl :: "'s detail_service \<Rightarrow> uint64 \<Rightarrow> 's \<Rightarrow> int \<times> 's" where
  "detail_l2_ttl S i s =
    (let c = detailCacheConfig (ds_cfg S); (j, s1) = jitterN (ds_jitter S) (dc_l2_jitter c) s; base = dc_l2_ttl_base c + j in
     case ds_hotkey S of None \<Rightarrow> (base * 1000, s1)
     | Some H \<Rightarrow> (case TTLForPublic H base (hotKeyID i) s1 of (b, s2) \<Rightarrow> (b * 1000, s2)))"

definition detail_null_ttl :: "'s detail_service \<Rightarrow> 's \<Rightarrow> int \<times> 's" where
  "detail_null_ttl S s =
    (let c = detailCacheConfig (ds_cfg S); (j, s1) = jitterN (ds_jitter S) (dc_null_jitter c) s in ((dc_null_ttl_base c + j) * 1000, s1))"

definition detail_preload :: "'s detail_service \<Rightarrow> uint64 \<Rightarrow> 's \<Rightarrow> error_ref option \<times> 's" where
  "detail_preload S i s = (case ds_bloom S of None \<Rightarrow> (None, s) | Some b \<Rightarrow>
     (case MightContainUint64 (Some b) i s of
        ((ok, _), s1) \<Rightarrow> (if ok then None else Some content_not_found, s1)))"

definition detail_tiered :: "'s detail_service \<Rightarrow> uint64 \<Rightarrow> string \<Rightarrow> (post_detail, error_ref, 's) tiered" where
  "detail_tiered S i page_key = \<lparr>ti_l1 = ds_l1 S, ti_redis = Some (ds_redis S), ti_encode = ds_encode S, ti_decode = ds_decode S,
     ti_l1_ttl = dc_l1_ttl (detailCacheConfig (ds_cfg S)), ti_l2_ttl = Some (detail_l2_ttl S i), ti_null_sentinel = ''NULL'',
     ti_null_ttl = Some (detail_null_ttl S), ti_preload = Some (detail_preload S i), ti_lock_key = lockKeyFor page_key,
     ti_lock_options = knowPostLockOptions, ti_token = ds_token S, ti_wait = ds_wait S\<rparr>"

definition load_detail :: "'s detail_service \<Rightarrow> uint64 \<Rightarrow> uint64 option \<Rightarrow> (post_detail, error_ref, 's) loader" where
  "load_detail S i user s = (case ds_db S of None \<Rightarrow> (Inr None, s) | Some D \<Rightarrow>
     (case queryDetailFromDB S D i user s of
        (Inl e, s1) \<Rightarrow> if errors_is e ErrNotFound then (Inr None, s1) else (Inl e, s1)
      | (Inr d, s1) \<Rightarrow> (case fillCounts S d (AddUint64 (ds_bloom S) i s1) of (d1, s2) \<Rightarrow> (Inr (Some d1), s2))))"

datatype detail_error = DApp error_ref | DCache "error_ref cache_error"

definition detail_error_of :: "error_ref cache_error \<Rightarrow> detail_error" where
  "detail_error_of e = (case e of NullCached \<Rightarrow> DApp content_not_found | Upstream x \<Rightarrow> DApp x | _ \<Rightarrow> DCache e)"

definition detail_versions :: "'s detail_service \<Rightarrow> 's versions option" where
  "detail_versions S = Some (newDetailVersions (ds_redis S) (ds_pool S) (map_option dc_version_ttl (ds_cfg S)))"

definition GetDetail :: "'s detail_service \<Rightarrow> uint64 \<Rightarrow> uint64 option \<Rightarrow> 's \<Rightarrow> ((detail_error + post_detail) \<times> 's) option" where
  "GetDetail S i user s =
    (let (version, s1) = get_version (detail_versions S) (detailVersionKey i) s; page_key = detailPageKey i version in
     case tiered_get (detail_tiered S i page_key) page_key (load_detail S i user) s1 of
       None \<Rightarrow> None
     | Some (Inl e, s2) \<Rightarrow> Some (Inl (detail_error_of e), s2)
     | Some (Inr (d, level), s2) \<Rightarrow>
         (case enrichDetail S d user (level = HitL2) (recordHotKeyAndExtendTTL S i page_key s2) of
            (d1, s3) \<Rightarrow> Some (Inr d1, s3)))"

section \<open>Warming the filter\<close>

lemma bloom_ids_above:
  assumes "bloom_ids_sql last_id limit t \<noteq> []"
  shows "last_id < last (bloom_ids_sql last_id limit t)"
proof -
  have "last (bloom_ids_sql last_id limit t) \<in> set (bloom_ids_sql last_id limit t)" using assms by (rule last_in_set)
  then show ?thesis unfolding bloom_ids_sql_def using set_take_subset by fastforce
qed

lemma ids_left: "(a :: uint64) < b \<Longrightarrow> 2 ^ 64 - unat b < 2 ^ 64 - unat a"
proof -
  assume "a < b"
  moreover have "unat b < 2 ^ 64" using unsigned_less[of b] by simp
  ultimately show ?thesis by (simp add: word_less_nat_alt)
qed

function warm_from :: "'s post_db \<Rightarrow> 's bloom \<Rightarrow> uint64 \<Rightarrow> 's \<Rightarrow> (io_error + unit) \<times> 's" where
  "warm_from D b last_id s = (case ListIDsForBloom D last_id 1000 s of
      (Inl e, s1) \<Rightarrow> (Inl e, s1)
    | (Inr ids, s1) \<Rightarrow>
        (if ids = [] then (Inr (), s1)
         else warm_from D b (last ids) (fold (AddUint64 (Some b)) ids s1)))"
  by pat_completeness auto

termination
proof (relation "measure (\<lambda>(D, b, last_id, s). 2 ^ 64 - unat last_id)")
  fix D :: "'s post_db" and b :: "'s bloom" and last_id s x s1 ids
  assume x: "(x, s1) = ListIDsForBloom D last_id 1000 s" "x = Inr ids" "ids \<noteq> []"
  then have "last_id < last ids"
    using bloom_ids_above[of last_id 1000] by (auto simp: ListIDsForBloom_def db_read_def split: prod.splits option.splits)
  then show "((D, b, last ids, fold (AddUint64 (Some b)) ids s1), D, b, last_id, s) \<in> measure (\<lambda>(D, b, last_id, s). 2 ^ 64 - unat last_id)"
    using ids_left by simp
qed simp

definition WarmDetailBloom :: "'s detail_service \<Rightarrow> 's \<Rightarrow> (io_error + unit) \<times> 's" where
  "WarmDetailBloom S s = (case (ds_bloom S, ds_db S) of (Some b, Some D) \<Rightarrow> warm_from D b 0 s | _ \<Rightarrow> (Inr (), s))"

end
