(* ===== verification/Knowpost_Feed.thy ===== *)
theory Knowpost_Feed
  imports Knowpost_Detail Counter_Snapshot Fanout_Model
begin

text \<open>
  \<open>internal/knowpost/feed_service.go\<close>: the lists of posts. The public list is kept in
  Redis as a list of ids per page and one fragment per post, the list of a user's own
  posts as whole pages; the home list takes its ids from the timelines. Redis and the
  logger are there, as \<open>bootstrap\<close> wires them; \<open>encoding/json\<close> and the random numbers are
  arguments. Rows of the same time come in the order of the table. Warnings are not
  modelled.
\<close>

section \<open>Configuration\<close>

record feed_cache_config =
  fc_safe_size :: int
  fc_l1_ttl :: int
  fc_id_list_base :: int
  fc_id_list_jitter :: int
  fc_has_more_base :: int
  fc_has_more_jitter :: int
  fc_item_base :: int
  fc_item_jitter :: int
  fc_mine_base :: int
  fc_mine_jitter :: int
  fc_l1_mine_ttl :: int
  fc_extend_base :: int
  fc_ttl_low :: int
  fc_ttl_medium :: int
  fc_ttl_high :: int

definition feed_defaults :: "feed_cache_config \<Rightarrow> feed_cache_config" where
  "feed_defaults c = \<lparr>fc_safe_size = or_default (fc_safe_size c) 50, fc_l1_ttl = or_default (fc_l1_ttl c) 15,
     fc_id_list_base = or_default (fc_id_list_base c) 60, fc_id_list_jitter = or_default (fc_id_list_jitter c) 31,
     fc_has_more_base = or_default (fc_has_more_base c) 10, fc_has_more_jitter = or_default (fc_has_more_jitter c) 11,
     fc_item_base = or_default (fc_item_base c) 60, fc_item_jitter = or_default (fc_item_jitter c) 31,
     fc_mine_base = or_default (fc_mine_base c) 30, fc_mine_jitter = or_default (fc_mine_jitter c) 21,
     fc_l1_mine_ttl = or_default (fc_l1_mine_ttl c) 30, fc_extend_base = or_default (fc_extend_base c) 60,
     fc_ttl_low = or_default (fc_ttl_low c) 30, fc_ttl_medium = or_default (fc_ttl_medium c) 60,
     fc_ttl_high = or_default (fc_ttl_high c) 300\<rparr>"

definition zero_feed_config :: feed_cache_config where
  "zero_feed_config = \<lparr>fc_safe_size = 0, fc_l1_ttl = 0, fc_id_list_base = 0, fc_id_list_jitter = 0, fc_has_more_base = 0,
     fc_has_more_jitter = 0, fc_item_base = 0, fc_item_jitter = 0, fc_mine_base = 0, fc_mine_jitter = 0, fc_l1_mine_ttl = 0,
     fc_extend_base = 0, fc_ttl_low = 0, fc_ttl_medium = 0, fc_ttl_high = 0\<rparr>"

definition feedCacheConfig :: "feed_cache_config option \<Rightarrow> feed_cache_config" where
  "feedCacheConfig c = (case c of Some f \<Rightarrow> f | None \<Rightarrow> feed_defaults zero_feed_config)"

definition clamp :: "int \<Rightarrow> int \<Rightarrow> int \<Rightarrow> int" where
  "clamp v lo hi = min (max v lo) hi"

definition maxPublicFeedPage :: int where "maxPublicFeedPage = 1000"

section \<open>Rows and items\<close>

record feed_row =
  fr_id :: uint64
  fr_title :: "string option"
  fr_description :: "string option"
  fr_img_urls :: "string option"
  fr_tags :: "string option"
  fr_author_avatar :: "string option"
  fr_author_nickname :: string
  fr_author_tags :: "string option"
  fr_is_top :: bool

record feed_item =
  fi_id :: string
  fi_title :: "string option"
  fi_description :: "string option"
  fi_cover :: "string option"
  fi_tags :: "string list"
  fi_author_avatar :: "string option"
  fi_author_nickname :: string
  fi_tag_json :: "string option"
  fi_like_count :: int
  fi_favorite_count :: int
  fi_liked :: "bool option"
  fi_faved :: "bool option"
  fi_is_top :: "bool option"

record feed_page =
  fp_items :: "feed_item list"
  fp_page :: int
  fp_size :: int
  fp_has_more :: bool

record home_feed =
  hf_items :: "feed_item list"
  hf_next_cursor :: string
  hf_has_more :: bool

section \<open>Statements\<close>

text \<open>The posts of the public list and of a home list leave out \<open>is_top\<close>, which stays false.\<close>

definition feed_row_of :: "bool \<Rightarrow> know_post \<Rightarrow> user \<Rightarrow> feed_row" where
  "feed_row_of with_top r u = \<lparr>fr_id = kp_id r, fr_title = kp_title r, fr_description = kp_description r, fr_img_urls = kp_img_urls r,
     fr_tags = kp_tags r, fr_author_avatar = us_avatar u, fr_author_nickname = us_nickname u, fr_author_tags = us_tags_json u,
     fr_is_top = (with_top \<and> kp_is_top r)\<rparr>"

text \<open>The first row without an author ends the scan.\<close>

fun scan_feed_rows :: "bool \<Rightarrow> user list \<Rightarrow> know_post list \<Rightarrow> io_error + feed_row list" where
  "scan_feed_rows with_top us [] = Inr []"
| "scan_feed_rows with_top us (r # rs) = (case find (\<lambda>u. us_id u = kp_creator r) us of
      None \<Rightarrow> Inl (IoError ''converting NULL to string is unsupported'')
    | Some u \<Rightarrow> (case scan_feed_rows with_top us rs of Inl e \<Rightarrow> Inl e | Inr xs \<Rightarrow> Inr (feed_row_of with_top r u # xs)))"

definition newest_posts :: "know_post list \<Rightarrow> know_post list" where
  "newest_posts rs = sort_key (\<lambda>r. kp_publish_time r = None)
     (sort_key (\<lambda>r. case kp_publish_time r of None \<Rightarrow> 0 | Some t \<Rightarrow> - t) rs)"

text \<open>MySQL refuses a negative limit or offset.\<close>

definition sql_page :: "int \<Rightarrow> int \<Rightarrow> 'a list \<Rightarrow> io_error + 'a list" where
  "sql_page limit offset rs =
    (if limit < 0 \<or> offset < 0 then Inl (IoError ''You have an error in your SQL syntax'') else Inr (take (nat limit) (drop (nat offset) rs)))"

definition scan_page :: "bool \<Rightarrow> post_tables \<Rightarrow> io_error + know_post list \<Rightarrow> io_error + feed_row list" where
  "scan_page with_top t page = (case page of Inl e \<Rightarrow> Inl e | Inr rs \<Rightarrow> scan_feed_rows with_top (pt_users t) rs)"

definition public_feed_sql :: "int \<Rightarrow> int \<Rightarrow> post_tables \<Rightarrow> io_error + feed_row list" where
  "public_feed_sql limit offset t = scan_page False t (sql_page limit offset (newest_posts
     (filter (\<lambda>r. kp_status r = KnowPostStatusPublished \<and> kp_visible r = KnowPostVisibilityPublic) (pt_posts t))))"

definition my_posts_sql :: "uint64 \<Rightarrow> int \<Rightarrow> int \<Rightarrow> post_tables \<Rightarrow> io_error + feed_row list" where
  "my_posts_sql u limit offset t = scan_page True t (sql_page limit offset
     (sort_key (\<lambda>r. \<not> kp_is_top r) (sort_key (\<lambda>r. - kp_create_time r)
       (filter (\<lambda>r. kp_creator r = u \<and> kp_status r = KnowPostStatusPublished) (pt_posts t)))))"

definition feed_by_ids_sql :: "uint64 list \<Rightarrow> string list \<Rightarrow> post_tables \<Rightarrow> io_error + feed_row list" where
  "feed_by_ids_sql ids visibilities t = scan_page False t (Inr (newest_posts
     (filter (\<lambda>r. kp_id r \<in> set ids \<and> kp_status r = KnowPostStatusPublished \<and> kp_visible r \<in> set visibilities) (pt_posts t))))"

definition query_rows :: "'s post_db \<Rightarrow> (post_tables \<Rightarrow> io_error + feed_row list) \<Rightarrow> 's \<Rightarrow> (io_error + feed_row list) \<times> 's" where
  "query_rows D q s = (case db_read D q s of (Inl e, s1) \<Rightarrow> (Inl e, s1) | (Inr x, s1) \<Rightarrow> (x, s1))"

definition ListFeedPublic :: "'s post_db \<Rightarrow> int \<Rightarrow> int \<Rightarrow> 's \<Rightarrow> (io_error + feed_row list) \<times> 's" where
  "ListFeedPublic D limit offset = query_rows D (public_feed_sql limit offset)"

definition ListMyPublished :: "'s post_db \<Rightarrow> uint64 \<Rightarrow> int \<Rightarrow> int \<Rightarrow> 's \<Rightarrow> (io_error + feed_row list) \<times> 's" where
  "ListMyPublished D u limit offset = query_rows D (my_posts_sql u limit offset)"

definition FindFeedRowsByIDs :: "'s post_db \<Rightarrow> uint64 list \<Rightarrow> string list \<Rightarrow> 's \<Rightarrow> (io_error + feed_row list) \<times> 's" where
  "FindFeedRowsByIDs D ids visibilities s =
    (if ids = [] then (Inr [], s)
     else query_rows D (feed_by_ids_sql ids (if visibilities = [] then [KnowPostVisibilityPublic] else visibilities)) s)"

section \<open>The service\<close>

record 's feed_engagement =
  fe_counts :: "string \<Rightarrow> string list \<Rightarrow> string list \<Rightarrow> 's \<Rightarrow> (io_error + (string \<times> (string \<times> int32) list) list) \<times> 's"
  fe_liked :: "uint64 \<Rightarrow> string \<Rightarrow> string list \<Rightarrow> 's \<Rightarrow> (io_error + (string \<times> bool) list) \<times> 's"
  fe_faved :: "uint64 \<Rightarrow> string \<Rightarrow> string list \<Rightarrow> 's \<Rightarrow> (io_error + (string \<times> bool) list) \<times> 's"

text \<open>The counting module behind it.\<close>

definition counter_engagement :: "'s counter_service \<Rightarrow> 's feed_engagement" where
  "counter_engagement svc = \<lparr>fe_counts = GetCountsBatch svc, fe_liked = BatchIsLiked svc, fe_faved = BatchIsFaved svc\<rparr>"

record 's feed_service =
  fs_db :: "'s post_db"
  fs_redis :: "'s redis"
  fs_pool :: "'s l1_cache"
  fs_public_prefix :: string
  fs_mine_prefix :: string
  fs_hotkey :: "'s hotkey option"
  fs_counter :: "'s feed_engagement option"
  fs_cfg :: "feed_cache_config option"
  fs_home :: "(uint64 \<Rightarrow> string \<Rightarrow> int \<Rightarrow> 's \<Rightarrow> (fan_error + uint64 list \<times> string \<times> bool) \<times> 's) option"
  fs_encode_item :: "feed_item \<Rightarrow> string option"
  fs_decode_item :: "string \<Rightarrow> feed_item option"
  fs_encode_page :: "feed_page \<Rightarrow> string option"
  fs_decode_page :: "string \<Rightarrow> feed_page option"
  fs_decode_list :: "string \<Rightarrow> string list option"
  fs_jitter :: "int \<Rightarrow> 's \<Rightarrow> int \<times> 's"
  fs_token :: "'s \<Rightarrow> string \<times> 's"
  fs_wait :: "'s \<Rightarrow> bool \<times> 's"

definition feed_config :: "'s feed_service \<Rightarrow> feed_cache_config" where
  "feed_config S = feedCacheConfig (fs_cfg S)"

definition l1_public :: "'s feed_service \<Rightarrow> 's l1_cache" where
  "l1_public S = prefix_cache (fs_public_prefix S) (fs_pool S)"

definition feedVersions :: "'s feed_service \<Rightarrow> 's versions option" where
  "feedVersions S = Some (newFeedVersions (fs_redis S) (Some (fs_pool S)))"

definition feed_ttl :: "'s feed_service \<Rightarrow> int \<Rightarrow> int \<Rightarrow> 's \<Rightarrow> int \<times> 's" where
  "feed_ttl S base jitter s = (case jitterN (fs_jitter S) jitter s of (j, s1) \<Rightarrow> ((base + j) * 1000, s1))"

definition boolToStr :: "bool \<Rightarrow> string" where
  "boolToStr b = (if b then ''1'' else ''0'')"

subsection \<open>Items\<close>

definition batch_count :: "(string \<times> (string \<times> int32) list) list \<Rightarrow> string \<Rightarrow> string \<Rightarrow> int" where
  "batch_count m eid metric = (case map_of m eid of None \<Rightarrow> 0 | Some c \<Rightarrow> (case map_of c metric of None \<Rightarrow> 0 | Some n \<Rightarrow> sint n))"

text \<open>An item of a row; \<open>eid\<close> is the id as the code has it, \<open>counts\<close> what was counted.\<close>

definition feed_item_of ::
  "(string \<Rightarrow> string list option) \<Rightarrow> (string \<times> (string \<times> int32) list) list \<Rightarrow> bool \<Rightarrow> string \<Rightarrow> feed_row \<Rightarrow> feed_item" where
  "feed_item_of decode_list counts with_top eid r =
    (let imgs = ParseStringArray decode_list (fr_img_urls r) in
     \<lparr>fi_id = eid, fi_title = fr_title r, fi_description = fr_description r, fi_cover = (case imgs of [] \<Rightarrow> None | i # _ \<Rightarrow> Some i),
      fi_tags = ParseStringArray decode_list (fr_tags r), fi_author_avatar = fr_author_avatar r,
      fi_author_nickname = fr_author_nickname r, fi_tag_json = fr_author_tags r, fi_like_count = batch_count counts eid ''like'',
      fi_favorite_count = batch_count counts eid ''fav'', fi_liked = None, fi_faved = None,
      fi_is_top = (if with_top then Some (fr_is_top r) else None)\<rparr>)"

text \<open>Without a counting module the ids stay empty, as in the code.\<close>

definition mapRowsToItems :: "'s feed_service \<Rightarrow> feed_row list \<Rightarrow> bool \<Rightarrow> 's \<Rightarrow> feed_item list \<times> 's" where
  "mapRowsToItems S rows with_top s = (case fs_counter S of
      None \<Rightarrow> (map (feed_item_of (fs_decode_list S) [] with_top []) rows, s)
    | Some c \<Rightarrow>
        (if rows = [] then ([], s)
         else (case fe_counts c ''knowpost'' (map (\<lambda>r. format_uint (fr_id r)) rows) [''like'', ''fav''] s of (x, s1) \<Rightarrow>
           (map (\<lambda>r. feed_item_of (fs_decode_list S) (case x of Inl _ \<Rightarrow> [] | Inr m \<Rightarrow> m) with_top (format_uint (fr_id r)) r) rows, s1))))"

definition with_marks :: "(string \<times> bool) list \<Rightarrow> (string \<times> bool) list \<Rightarrow> feed_item \<Rightarrow> feed_item" where
  "with_marks liked faved i = i\<lparr>fi_liked := (case map_of liked (fi_id i) of None \<Rightarrow> fi_liked i | Some b \<Rightarrow> Some b),
     fi_faved := (case map_of faved (fi_id i) of None \<Rightarrow> fi_faved i | Some b \<Rightarrow> Some b)\<rparr>"

definition enrichItems :: "'s feed_service \<Rightarrow> feed_item list \<Rightarrow> uint64 option \<Rightarrow> 's \<Rightarrow> feed_item list \<times> 's" where
  "enrichItems S items user s = (case (user, fs_counter S) of
      (Some u, Some c) \<Rightarrow>
        (let (l, s1) = fe_liked c u ''knowpost'' (map fi_id items) s; (f, s2) = fe_faved c u ''knowpost'' (map fi_id items) s1
         in (map (with_marks (case l of Inl _ \<Rightarrow> [] | Inr m \<Rightarrow> m) (case f of Inl _ \<Rightarrow> [] | Inr m \<Rightarrow> m)) items, s2))
    | _ \<Rightarrow> (items, s))"

definition withUserState :: "'s feed_service \<Rightarrow> feed_page \<Rightarrow> uint64 option \<Rightarrow> 's \<Rightarrow> feed_page \<times> 's" where
  "withUserState S shared user s = (case enrichItems S (fp_items shared) user s of
      (items, s1) \<Rightarrow> (\<lparr>fp_items = items, fp_page = fp_page shared, fp_size = fp_size shared, fp_has_more = fp_has_more shared\<rparr>, s1))"

text \<open>Only a key whose target is above the base is worth a call.\<close>

definition recordItemHotKeys :: "'s feed_service \<Rightarrow> feed_item list \<Rightarrow> 's \<Rightarrow> 's" where
  "recordItemHotKeys S items s = (case fs_hotkey S of None \<Rightarrow> s | Some H \<Rightarrow>
     if items = [] then s
     else (let ids = map (\<lambda>i. ''knowpost:'' @ fi_id i) items; base = fc_extend_base (feed_config S);
               (targets, s1) = TTLForPublicBatch H base ids (fold (Record H) ids s);
               longer = filter (\<lambda>(i, t). base < t) (zip items targets)
           in if longer = [] then s1
              else snd (wr (fs_redis S) (fold (\<lambda>(i, t). extend_ttl (fs_redis S) t (feedItemKey (fi_id i))) longer) s1)))"

subsection \<open>Fragments\<close>

definition cacheFeedPage :: "'s feed_service \<Rightarrow> string \<Rightarrow> feed_page \<Rightarrow> 's \<Rightarrow> 's" where
  "cacheFeedPage S key page s = (case fs_encode_page S page of None \<Rightarrow> s
     | Some raw \<Rightarrow> l1_set (l1_public S) key raw (fc_l1_ttl (feed_config S)) s)"

definition hasMoreKey :: "string \<Rightarrow> string" where "hasMoreKey ids_key = ids_key @ '':hasMore''"

definition decode_fragment :: "'s feed_service \<Rightarrow> string option \<Rightarrow> feed_item option" where
  "decode_fragment S x = (case x of None \<Rightarrow> None | Some t \<Rightarrow> fs_decode_item S t)"

text \<open>One fragment that is missing or unreadable is a miss of the page.\<close>

definition assembleFromCache :: "'s feed_service \<Rightarrow> string \<Rightarrow> int \<Rightarrow> int \<Rightarrow> 's \<Rightarrow> feed_page option \<times> 's" where
  "assembleFromCache S ids_key page sz s =
    (let R = fs_redis S in
     case rd R (r_lrange R ids_key (nat sz)) s of
       (Inl e, s1) \<Rightarrow> (None, s1)
     | (Inr ids, s1) \<Rightarrow>
         (if ids = [] then (None, s1)
          else (case rd R (\<lambda>s. map (\<lambda>i. r_get R (feedItemKey i) s) ids) s1 of
              (Inl e, s2) \<Rightarrow> (None, s2)
            | (Inr raws, s2) \<Rightarrow>
                (if list_ex (\<lambda>x. decode_fragment S x = None) raws then (None, s2)
                 else let items = List.map_filter (decode_fragment S) raws in
                   (case rd R (r_get R (hasMoreKey ids_key)) s2 of (x, s3) \<Rightarrow>
                      (Some \<lparr>fp_items = items, fp_page = page, fp_size = sz,
                         fp_has_more = (case x of Inr (Some t) \<Rightarrow> t = ''1'' | _ \<Rightarrow> int (length items) = sz)\<rparr>, s3))))))"

definition writeFeedIDListCache :: "'s feed_service \<Rightarrow> string \<Rightarrow> feed_row list \<Rightarrow> bool \<Rightarrow> 's \<Rightarrow> 's" where
  "writeFeedIDListCache S ids_key rows has_more s =
    (if rows = [] then s
     else let R = fs_redis S; c = feed_config S;
              s1 = snd (wr R (r_rpush R ids_key (map (\<lambda>r. format_uint (fr_id r)) rows)) s);
              (ttl, s2) = feed_ttl S (fc_id_list_base c) (fc_id_list_jitter c) s1;
              s3 = snd (wr R (r_expire R ids_key ttl) s2);
              (more_ttl, s4) = feed_ttl S (fc_has_more_base c) (fc_has_more_jitter c) s3
          in snd (wr R (r_set R (hasMoreKey ids_key) (boolToStr has_more) (Some more_ttl)) s4))"

text \<open>The commands of the pipeline, each with its own time to live.\<close>

fun fragment_commands :: "'s feed_service \<Rightarrow> feed_item list \<Rightarrow> 's \<Rightarrow> (string \<times> string \<times> int) list \<times> 's" where
  "fragment_commands S [] s = ([], s)"
| "fragment_commands S (i # is) s = (case fs_encode_item S i of
      None \<Rightarrow> fragment_commands S is s
    | Some raw \<Rightarrow>
        (let (ttl, s1) = feed_ttl S (fc_item_base (feed_config S)) (fc_item_jitter (feed_config S)) s;
             (cs, s2) = fragment_commands S is s1
         in ((feedItemKey (fi_id i), raw, ttl) # cs, s2)))"

definition writeFeedItemCaches :: "'s feed_service \<Rightarrow> feed_item list \<Rightarrow> 's \<Rightarrow> 's" where
  "writeFeedItemCaches S items s = (case fragment_commands S items s of
      (cs, s1) \<Rightarrow> if cs = [] then s1
        else snd (wr (fs_redis S) (fold (\<lambda>(k, raw, ttl). r_set (fs_redis S) k raw (Some ttl)) cs) s1))"

definition writeFragmentCaches :: "'s feed_service \<Rightarrow> string \<Rightarrow> feed_row list \<Rightarrow> feed_item list \<Rightarrow> bool \<Rightarrow> 's \<Rightarrow> 's" where
  "writeFragmentCaches S ids_key rows items has_more s =
    writeFeedItemCaches S items (writeFeedIDListCache S ids_key rows has_more s)"

section \<open>The public list\<close>

datatype feed_error = FeedIo string io_error

definition getPublicFeedL1 :: "'s feed_service \<Rightarrow> string \<Rightarrow> uint64 option \<Rightarrow> 's \<Rightarrow> feed_page option \<times> 's" where
  "getPublicFeedL1 S page_key user s = (case l1_get (l1_public S) page_key s of
      (None, s1) \<Rightarrow> (None, s1)
    | (Some raw, s1) \<Rightarrow> (case fs_decode_page S raw of
          None \<Rightarrow> (None, s1)
        | Some shared \<Rightarrow> (case withUserState S shared user (recordItemHotKeys S (fp_items shared) s1) of (p, s2) \<Rightarrow> (Some p, s2))))"

definition getPublicFeedL2 :: "'s feed_service \<Rightarrow> string \<Rightarrow> int \<Rightarrow> int \<Rightarrow> uint64 option \<Rightarrow> string \<Rightarrow> 's \<Rightarrow> feed_page option \<times> 's" where
  "getPublicFeedL2 S ids_key page sz user page_key s = (case assembleFromCache S ids_key page sz s of
      (None, s1) \<Rightarrow> (None, s1)
    | (Some shared, s1) \<Rightarrow>
        (case withUserState S shared user (recordItemHotKeys S (fp_items shared) (cacheFeedPage S page_key shared s1)) of
           (p, s2) \<Rightarrow> (Some p, s2)))"

definition check_public_feed ::
  "'s feed_service \<Rightarrow> string \<Rightarrow> string \<Rightarrow> int \<Rightarrow> int \<Rightarrow> uint64 option \<Rightarrow> 's \<Rightarrow> (feed_error cache_error + feed_page option) \<times> 's" where
  "check_public_feed S ids_key page_key page sz user s = (case assembleFromCache S ids_key page sz s of
      (None, s1) \<Rightarrow> (Inr None, s1)
    | (Some shared, s1) \<Rightarrow> (case withUserState S shared user (cacheFeedPage S page_key shared s1) of (p, s2) \<Rightarrow> (Inr (Some p), s2)))"

definition load_public_feed ::
  "'s feed_service \<Rightarrow> string \<Rightarrow> string \<Rightarrow> int \<Rightarrow> int \<Rightarrow> uint64 option \<Rightarrow> 's \<Rightarrow> (feed_error cache_error + feed_page) \<times> 's" where
  "load_public_feed S ids_key page_key page sz user s = (case ListFeedPublic (fs_db S) (sz + 1) ((page - 1) * sz) s of
      (Inl e, s1) \<Rightarrow> (Inl (Upstream (FeedIo ''get public feed: list: list feed public: '' e)), s1)
    | (Inr all_rows, s1) \<Rightarrow>
        (let has_more = sz < int (length all_rows); rows = (if has_more then take (nat sz) all_rows else all_rows);
             (items, s2) = mapRowsToItems S rows False s1;
             shared = \<lparr>fp_items = items, fp_page = page, fp_size = sz, fp_has_more = has_more\<rparr>;
             s3 = cacheFeedPage S page_key shared (writeFragmentCaches S ids_key rows items has_more s2);
             (p, s4) = withUserState S shared user s3
         in (Inr p, s4)))"

definition getPublicFeedUnderLock ::
  "'s feed_service \<Rightarrow> string \<Rightarrow> string \<Rightarrow> int \<Rightarrow> int \<Rightarrow> uint64 option \<Rightarrow> 's \<Rightarrow> ((feed_error cache_error + feed_page) \<times> 's) option" where
  "getPublicFeedUnderLock S ids_key page_key page sz user =
    cache_read_through (fs_redis S) (lockKeyFor ids_key) knowPostLockOptions (fs_token S) (fs_wait S)
      (check_public_feed S ids_key page_key page sz user) (load_public_feed S ids_key page_key page sz user)"

definition GetPublicFeed :: "'s feed_service \<Rightarrow> int \<Rightarrow> int \<Rightarrow> uint64 option \<Rightarrow> 's \<Rightarrow> ((feed_error cache_error + feed_page) \<times> 's) option" where
  "GetPublicFeed S page0 size0 user s =
    (let sz = clamp size0 1 (fc_safe_size (feed_config S)); page = clamp page0 1 maxPublicFeedPage;
         (version, s1) = get_version (feedVersions S) publicFeedVersionKey s;
         page_key = publicFeedPageLocalKey sz page version; ids_key = publicFeedIDsKey version sz page
     in case getPublicFeedL1 S page_key user s1 of
          (Some p, s2) \<Rightarrow> Some (Inr p, s2)
        | (None, s2) \<Rightarrow> (case getPublicFeedL2 S ids_key page sz user page_key s2 of
              (Some p, s3) \<Rightarrow> Some (Inr p, s3)
            | (None, s3) \<Rightarrow> getPublicFeedUnderLock S ids_key page_key page sz user s3))"

section \<open>The posts of a user\<close>

text \<open>Go's \<open>int\<close> wraps; the page has no upper bound here.\<close>

definition my_offset :: "int \<Rightarrow> int \<Rightarrow> int" where
  "my_offset page sz = sint (word_of_int ((page - 1) * sz) :: 64 word)"

definition load_my_published :: "'s feed_service \<Rightarrow> uint64 \<Rightarrow> int \<Rightarrow> int \<Rightarrow> (feed_page, feed_error, 's) loader" where
  "load_my_published S u page sz s = (case ListMyPublished (fs_db S) u (sz + 1) (my_offset page sz) s of
      (Inl e, s1) \<Rightarrow> (Inl (FeedIo ''get my published: list: list my published: '' e), s1)
    | (Inr all_rows, s1) \<Rightarrow>
        (let has_more = sz < int (length all_rows); rows = (if has_more then take (nat sz) all_rows else all_rows);
             (items, s2) = mapRowsToItems S rows True s1
         in (Inr (Some \<lparr>fp_items = items, fp_page = page, fp_size = sz, fp_has_more = has_more\<rparr>), s2)))"

definition mine_tiered :: "'s feed_service \<Rightarrow> string \<Rightarrow> (feed_page, feed_error, 's) tiered" where
  "mine_tiered S key = (let c = feed_config S in
     \<lparr>ti_l1 = Some (prefix_cache (fs_mine_prefix S) (fs_pool S)), ti_redis = Some (fs_redis S), ti_encode = fs_encode_page S,
      ti_decode = fs_decode_page S, ti_l1_ttl = fc_l1_mine_ttl c, ti_l2_ttl = Some (feed_ttl S (fc_mine_base c) (fc_mine_jitter c)),
      ti_null_sentinel = [], ti_null_ttl = None, ti_preload = None, ti_lock_key = lockKeyFor key,
      ti_lock_options = knowPostLockOptions, ti_token = fs_token S, ti_wait = fs_wait S\<rparr>)"

definition GetMyPublished :: "'s feed_service \<Rightarrow> uint64 \<Rightarrow> int \<Rightarrow> int \<Rightarrow> 's \<Rightarrow> ((feed_error cache_error + feed_page) \<times> 's) option" where
  "GetMyPublished S u page0 size0 s =
    (let sz = clamp size0 1 (fc_safe_size (feed_config S)); page = max page0 1;
         (version, s1) = get_version (feedVersions S) (mineFeedVersionKey u) s; key = mineFeedPageKey u sz page version
     in case tiered_get (mine_tiered S key) key (load_my_published S u page sz) s1 of
          None \<Rightarrow> None
        | Some (Inl e, s2) \<Rightarrow> Some (Inl e, s2)
        | Some (Inr (shared, level), s2) \<Rightarrow>
            (case withUserState S shared (Some u) (case fs_hotkey S of None \<Rightarrow> s2 | Some H \<Rightarrow> Record H key s2) of
               (p, s3) \<Rightarrow> Some (Inr p, s3)))"

section \<open>Invalidation\<close>

definition invalidate_feed_script :: "'s redis \<Rightarrow> string \<Rightarrow> string \<Rightarrow> string \<Rightarrow> 's \<Rightarrow> 's" where
  "invalidate_feed_script R item_key public_key mine_key s = r_incr R mine_key (r_incr R public_key (r_del R item_key s))"

definition InvalidateAfterPostMutation :: "'s feed_service \<Rightarrow> uint64 \<Rightarrow> uint64 \<Rightarrow> 's \<Rightarrow> 's" where
  "InvalidateAfterPostMutation S i creator s =
    (let s1 = snd (wr (fs_redis S) (invalidate_feed_script (fs_redis S) (feedItemKeyU i) publicFeedVersionKey (mineFeedVersionKey creator)) s)
     in drop_version (feedVersions S) (mineFeedVersionKey creator) (drop_version (feedVersions S) publicFeedVersionKey s1))"

section \<open>The home list\<close>

definition reorderRowsByIDs :: "feed_row list \<Rightarrow> uint64 list \<Rightarrow> feed_row list" where
  "reorderRowsByIDs rows ids = List.map_filter (map_of (rev (map (\<lambda>r. (fr_id r, r)) rows))) ids"

datatype home_error = HomeTimelineError fan_error | HomeRowsError io_error

definition empty_home :: home_feed where
  "empty_home = \<lparr>hf_items = [], hf_next_cursor = [], hf_has_more = False\<rparr>"

definition GetHomeFeed :: "'s feed_service \<Rightarrow> uint64 \<Rightarrow> string \<Rightarrow> int \<Rightarrow> 's \<Rightarrow> (home_error + home_feed) \<times> 's" where
  "GetHomeFeed S u cursor size0 s =
    (let sz = clamp size0 1 (fc_safe_size (feed_config S)) in
     case fs_home S of
       None \<Rightarrow> (Inr empty_home, s)
     | Some reader \<Rightarrow>
         (case reader u cursor sz s of
            (Inl e, s1) \<Rightarrow> (Inl (HomeTimelineError e), s1)
          | (Inr (ids, next_cursor, has_more), s1) \<Rightarrow>
              (if ids = [] then (Inr empty_home, s1)
               else (case FindFeedRowsByIDs (fs_db S) ids [KnowPostVisibilityPublic, KnowPostVisibilityFollowers] s1 of
                   (Inl e, s2) \<Rightarrow> (Inl (HomeRowsError e), s2)
                 | (Inr rows, s2) \<Rightarrow>
                     (let (items, s3) = mapRowsToItems S (reorderRowsByIDs rows ids) False s2;
                          (p, s4) = withUserState S \<lparr>fp_items = items, fp_page = 1, fp_size = sz, fp_has_more = has_more\<rparr> (Some u) s3
                      in (Inr \<lparr>hf_items = fp_items p, hf_next_cursor = next_cursor, hf_has_more = has_more\<rparr>, s4))))))"

end
