(* ===== verification/Knowpost_Detail_Props.thy ===== *)
theory Knowpost_Detail_Props
  imports Knowpost_Detail Knowpost_Store Cache_Coherence
begin

text \<open>
  What a read of one post answers: by the rule of visibility from the table when nothing
  is cached, and to everyone alike once it is.
\<close>

section \<open>The rule\<close>

definition may_see :: "uint64 option \<Rightarrow> detail_row \<Rightarrow> bool" where
  "may_see user r = (dr_status r = KnowPostStatusPublished \<and> dr_visible r = KnowPostVisibilityPublic \<or> user = Some (dr_creator r))"

text \<open>What of a detail comes from the table.\<close>

definition content :: "post_detail \<Rightarrow> post_detail" where
  "content d = d\<lparr>pd_like_count := 0, pd_favorite_count := 0, pd_liked := None, pd_faved := None\<rparr>"

lemma content_of_row [simp]: "content (detail_of_row S r) = detail_of_row S r"
  by (simp add: content_def detail_of_row_def)

lemma content_counts [simp]:
  "content (d\<lparr>pd_like_count := a, pd_favorite_count := b\<rparr>) = content d" "content (d\<lparr>pd_liked := x, pd_faved := y\<rparr>) = content d"
  by (simp_all add: content_def)

text \<open>The detail of a row with some counts.\<close>

definition counted :: "'s detail_service \<Rightarrow> detail_row \<Rightarrow> post_detail \<Rightarrow> bool" where
  "counted S row d = (\<exists>a b. d = (detail_of_row S row)\<lparr>pd_like_count := a, pd_favorite_count := b\<rparr>)"

lemma counted_content: "counted S row d \<Longrightarrow> content d = detail_of_row S row"
  by (auto simp: counted_def)

definition forbidden_detail :: error_ref where
  "forbidden_detail = WithMsg ErrForbidden ''no permission to view''"

text \<open>The row of a post that is there and not deleted.\<close>

definition shown_row :: "uint64 \<Rightarrow> post_tables \<Rightarrow> detail_row option" where
  "shown_row i t = (case detail_sql i t of Inl _ \<Rightarrow> None
     | Inr r \<Rightarrow> if dr_status r = KnowPostStatusDeleted then None else Some r)"

section \<open>The world of a read\<close>

context bloom_frame
begin

lemma might_same: "part (snd (MightContainUint64 (Some b) i s)) = part s"
  by (auto simp: MightContainUint64_def MightContain_def IsWarm_def split: prod.splits sum.splits bool.splits if_splits
    dest!: do_same exists_same)

end

text \<open>
  Redis and the database are up; the other parts leave Redis, the cache in the process and
  the tables alone. What the filter answers does not depend on reads of Redis or on the
  cache in the process.
\<close>

locale detail_world = cache_world "ds_redis S" view held time_left C + redis_up "ds_redis S" view + sql_database D +
    tables: redis_frame "ds_redis S" "db_tables D"
  for S :: "'s detail_service" and view held time_left C D +
  assumes pool: "ds_pool S = Some C" "ds_prefix S = ''d:''" and db: "ds_db S = Some D"
    and stmt_up: "fst (db_stmt D s) = None" and stmt_caches: "view (snd (db_stmt D s)) = view s \<and> held (snd (db_stmt D s)) = held s"
    and l1_tables: "db_tables D (snd (l1_get C k s)) = db_tables D s \<and> db_tables D (l1_set C k v ttl s) = db_tables D s"
    and filter: "ds_bloom S = Some b \<Longrightarrow> bloom_frame b (\<lambda>s. (view s, held s, db_tables D s))"
    and hot: "ds_hotkey S = Some H \<Longrightarrow> hd_redis H = ds_redis S \<and> view (hd_put H st s) = view s \<and> held (hd_put H st s) = held s \<and>
      db_tables D (hd_put H st s) = db_tables D s"
    and counting: "ds_counter S = Some c \<Longrightarrow>
      (\<forall>x. x \<in> {snd (en_counts c et eid ms s), snd (en_liked_faved c u et eid s)} \<longrightarrow> view x = view s \<and> held x = held s \<and> db_tables D x = db_tables D s)"
    and filter_stays: "x \<in> {snd (r_net (ds_redis S) s), snd (l1_get C k s), l1_set C k v ttl s} \<Longrightarrow>
      fst (detail_preload S i x) = fst (detail_preload S i s)"
    and codec: "ds_encode S d = Some raw \<Longrightarrow> ds_decode S raw = Some d \<and> raw \<noteq> [] \<and> raw \<noteq> ''NULL''"
    and chance: "x \<in> {snd (ds_jitter S n s), snd (ds_token S s)} \<Longrightarrow> view x = view s \<and> held x = held s \<and> db_tables D x = db_tables D s"

context detail_world
begin

text \<open>Two worlds that differ at most in times to live.\<close>

definition like :: "'s \<Rightarrow> 's \<Rightarrow> bool" where
  "like s s' = (ks_str (view s') = ks_str (view s) \<and> (\<forall>k. ks_exists k (view s') = ks_exists k (view s)) \<and> held s' = held s \<and> db_tables D s' = db_tables D s)"

lemma like_refl [simp]: "like s s"
  by (simp add: like_def)

lemma like_trans: "like s s1 \<Longrightarrow> like s1 s2 \<Longrightarrow> like s s2"
  by (simp add: like_def)

abbreviation (input) sent :: "'s \<Rightarrow> 's" where
  "sent s \<equiv> snd (r_net (ds_redis S) s)"

lemma held_parts [simp]:
  "held (sent s) = held s" "held (r_set (ds_redis S) k v t s) = held s" "held (r_del (ds_redis S) k s) = held s"
  "held (r_expire (ds_redis S) k n s) = held s"
  using frame_net frame_set frame_del frame_expire unfolding prod.inject by blast+

lemma call_up [simp]:
  "wr (ds_redis S) f s = (Inr (), f (sent s))" "rd (ds_redis S) g s = (Inr (g (sent s)), sent s)"
  "roundtrip (ds_redis S) h s = (Inr (fst (h (sent s))), snd (h (sent s)))"
  using delivered[of s] by (cases "r_net (ds_redis S) s"; simp add: wr_def rd_def roundtrip_def case_prod_beta)+

lemma sent_like [simp]: "like s (sent s)"
  by (simp add: like_def)

lemma ks_str_expire [simp]: "ks_str (ks_expire k n ks) = ks_str ks" "ks_exists k' (ks_expire k n ks) = ks_exists k' ks"
  by (simp_all add: ks_expire_def ks_exists_def)

lemma extend_like: "like s (extend_ttl_dual (ds_redis S) target k1 k2 s)"
  by (simp add: extend_ttl_dual_def extend_ttl_def like_def)

lemma put_like: "ds_hotkey S = Some H \<Longrightarrow> like s (hd_put H st s)"
  using hot by (simp add: like_def)

lemma ttl_like: "ds_hotkey S = Some H \<Longrightarrow> like s (snd (TTLForPublic H b k s))"
proof -
  assume H: "ds_hotkey S = Some H"
  then have R: "hd_redis H = ds_redis S" using hot by blast
  have p: "like s (hd_put H st (sent s))" for st by (rule like_trans[OF sent_like put_like[OF H]])
  show ?thesis by (simp add: TTLForPublic_def getLevel_def R p split: option.split)
qed

lemma record_like: "like s (recordHotKeyAndExtendTTL S i k s)"
proof (cases "ds_hotkey S")
  case (Some H)
  let ?b = "dc_ttl_medium (detailCacheConfig (ds_cfg S))" and ?s = "Record H (hotKeyID i) s"
  have r: "like s ?s" using put_like[OF Some] by (simp add: Record_def Let_def)
  obtain t s1 where t: "TTLForPublic H ?b (hotKeyID i) ?s = (t, s1)" by (cases "TTLForPublic H ?b (hotKeyID i) ?s")
  have l: "like s s1" using ttl_like[OF Some, of ?s ?b "hotKeyID i"] t like_trans[OF r] by simp
  moreover have "like s (extend_ttl_dual (ds_redis S) t k (feedItemKeyU i) (sent s1))"
    using like_trans[OF l like_trans[OF sent_like extend_like]] .
  ultimately show ?thesis using Some t by (simp add: recordHotKeyAndExtendTTL_def Let_def)
qed (simp add: recordHotKeyAndExtendTTL_def)

lemma jitter_like: "like s (snd (jitterN (ds_jitter S) n s))"
  using chance[of _ n s] by (simp add: jitterN_def like_def)

lemma token_like: "like s (snd (ds_token S s))"
  using chance[of _ _ s] by (simp add: like_def)

lemma l2_ttl_like: "like s (snd (detail_l2_ttl S i s))"
proof -
  let ?c = "detailCacheConfig (ds_cfg S)"
  obtain j s1 where j: "jitterN (ds_jitter S) (dc_l2_jitter ?c) s = (j, s1)" by (cases "jitterN (ds_jitter S) (dc_l2_jitter ?c) s")
  then have l: "like s s1" using jitter_like[of s "dc_l2_jitter ?c"] by simp
  show ?thesis
    using j l ttl_like[of _ s1] like_trans[OF l] by (auto simp: detail_l2_ttl_def Let_def case_prod_beta split: option.split)
qed

lemma count_like:
  assumes "ds_counter S = Some c"
  shows "like s (snd (en_counts c et eid ms s))" "like s (snd (en_liked_faved c u et eid s))"
  using counting[OF assms] by (simp_all add: like_def)

lemma fill_like: "fillCounts S d s = (d1, s1) \<Longrightarrow> like s s1"
  using count_like(1)[of _ s "''knowpost''" "pd_id d" "[''like'', ''fav'']"]
  by (auto simp: fillCounts_def split: option.splits prod.splits sum.splits)

lemma fill_counted:
  assumes "fillCounts S (detail_of_row S row) s = (d1, s1)"
  shows "counted S row d1"
proof -
  have "detail_of_row S row = (detail_of_row S row)\<lparr>pd_like_count := 0, pd_favorite_count := 0\<rparr>" by (simp add: detail_of_row_def)
  then show ?thesis using assms unfolding counted_def fillCounts_def by (auto split: option.splits prod.splits sum.splits)
qed

lemma refresh_like: "ds_counter S = Some c \<Longrightarrow> refresh_counts c d s = (d1, s1) \<Longrightarrow> like s s1 \<and> content d1 = content d"
  using count_like(1)[of c s "''knowpost''" "pd_id d" "[''like'', ''fav'']"]
  by (auto simp: refresh_counts_def split: prod.splits sum.splits if_splits)

lemma enrich_like:
  assumes "enrichDetail S d user b s = (d1, s1)"
  shows "like s s1 \<and> content d1 = content d"
proof (cases "ds_counter S")
  case (Some c)
  obtain d2 s2 where r: "(if b then refresh_counts c d s else (d, s)) = (d2, s2)" by (cases "if b then refresh_counts c d s else (d, s)")
  have l: "like s s2" "content d2 = content d" using refresh_like[OF Some, of d s d2 s2] r by (auto split: if_splits)
  show ?thesis
  proof (cases user)
    case None
    then show ?thesis using assms Some r l by (simp add: enrichDetail_def)
  next
    case (Some u)
    obtain x s3 where x: "en_liked_faved c u ''knowpost'' (pd_id d2) s2 = (x, s3)" by (cases "en_liked_faved c u ''knowpost'' (pd_id d2) s2")
    have "like s s3" using count_like(2)[OF \<open>ds_counter S = Some c\<close>, of s2 u "''knowpost''" "pd_id d2"] x like_trans[OF l(1)] by simp
    then show ?thesis using assms \<open>ds_counter S = Some c\<close> Some r x l by (auto simp: enrichDetail_def split: sum.splits)
  qed
qed (use assms in \<open>simp add: enrichDetail_def\<close>)

lemma filter_like: "like s (AddUint64 (ds_bloom S) i s)" "like s (snd (detail_preload S i s))"
proof -
  show "like s (AddUint64 (ds_bloom S) i s)"
    using bloom_frame.members_same(1)[OF filter, of _ i s] by (cases "ds_bloom S") (auto simp: AddUint64_def Add_def like_def)
  show "like s (snd (detail_preload S i s))"
    using bloom_frame.might_same[OF filter, of _ i s]
    by (cases "ds_bloom S") (auto simp: detail_preload_def like_def case_prod_beta split: prod.splits)
qed

lemma page_step_stays: "get_l1 (detail_tiered S j key) key s = (x, s1) \<Longrightarrow> fst (detail_preload S i s1) = fst (detail_preload S i s)"
  using filter_stays[of _ s] pool
  by (auto simp: get_l1_def detail_tiered_def ds_l1_def prefix_cache_def prefixed_def split: prod.splits option.splits) (metis insertI1 insertI2 snd_conv)+

lemma sent_stays [simp]: "fst (detail_preload S i (sent s)) = fst (detail_preload S i s)"
  using filter_stays by blast

lemma preload_error: "fst (detail_preload S i s) \<in> {None, Some content_not_found}"
  by (auto simp: detail_preload_def split: option.splits prod.splits)

subsection \<open>The version\<close>

text \<open>Redis and the process agree on the version of a post.\<close>

definition known :: "uint64 \<Rightarrow> int \<Rightarrow> 's \<Rightarrow> bool" where
  "known i ver s = ((case stored_version (ks_str (view s) (detailVersionKey i)) of None \<Rightarrow> detailLayoutVer | Some n \<Rightarrow> n) = ver \<and>
     (\<forall>raw. held s (''dv:'' @ detailVersionKey i) = Some raw \<longrightarrow> parse_int raw = Some ver))"

lemma known_like: "like s s' \<Longrightarrow> known i ver s' = known i ver s"
  by (simp add: known_def like_def)

lemma parse_int_range: "parse_int t = Some n \<Longrightarrow> in_int64 n"
  by (auto simp: parse_int_def Let_def split: list.splits option.splits if_splits)

lemma known_range: "known i ver s \<Longrightarrow> parse_int (format_int ver) = Some ver"
  by (rule parse_format_int)
    (auto simp: known_def stored_version_def detailLayoutVer_def in_int64_def int64_min_def int64_max_def
      dest!: parse_int_range split: option.splits if_splits)

lemma version_read:
  assumes k: "known i ver s" and g: "get_version (detail_versions S) (detailVersionKey i) s = (v, s1)"
  shows "v = ver \<and> known i ver s1 \<and> view s1 = view s \<and> db_tables D s1 = db_tables D s \<and>
    (\<forall>k. k \<noteq> ''dv:'' @ detailVersionKey i \<longrightarrow> held s1 k \<in> {held s k, None})"
proof -
  let ?vk = "detailVersionKey i" and ?dk = "''dv:'' @ detailVersionKey i"
  let ?ttl = "versionLocalTTL (map_option dc_version_ttl (ds_cfg S))"
  let ?v = "newDetailVersions (ds_redis S) (ds_pool S) (map_option dc_version_ttl (ds_cfg S))"
  have v: "vs_local ?v = Some C" "vs_redis ?v = Some (ds_redis S)" "vs_prefix ?v = ''dv:''" "vs_local_ttl ?v = ?ttl" "vs_default ?v = detailLayoutVer"
    using pool by (simp_all add: newDetailVersions_def)
  obtain x s0 where x: "l1_get C ?dk s = (x, s0)" by (cases "l1_get C ?dk s")
  define n where "n = (if ?ttl > 0 then (case x of None \<Rightarrow> None | Some raw \<Rightarrow> parse_int raw) else None)"
  define s2 where "s2 = (if ?ttl > 0 then s0 else s)"
  have lv: "local_version ?v ?vk s = (n, s2)" using x by (auto simp: local_version_def v n_def s2_def split: option.splits)
  have h0: "view s0 = view s" "held s0 k' \<in> {held s k', None}" "db_tables D s0 = db_tables D s" for k'
    using l1_get_keeps[of ?dk s k'] l1_tables[of ?dk s] x by simp_all
  have n: "n \<in> {None, Some ver}" using k l1_get_entry[OF x] by (auto simp: n_def known_def split: option.splits)
  have k2: "known i ver s2" using k h0(1) h0(2)[of ?dk] by (auto simp: known_def s2_def)
  have h2: "view s2 = view s" "db_tables D s2 = db_tables D s" "held s2 k' \<in> {held s k', None}" for k'
    using h0 by (auto simp: s2_def)
  let ?s3 = "sent s2"
  have r: "read_version ?v ?vk s2 = (ver, ?s3)"
    using k2 by (simp add: read_version_def v known_def split: option.splits)
  let ?s4 = "l1_set C ?dk (format_int ver) ?ttl ?s3"
  have k4: "known i ver ?s4"
    using k2 known_range[OF k] l1_set_keeps[of ?dk "format_int ver" ?ttl ?s3] l1_set_entry[of ?dk "format_int ver" ?ttl ?s3 ?dk]
    by (auto simp: known_def)
  have h4: "view ?s4 = view s2" "db_tables D ?s4 = db_tables D s2" "k' \<noteq> ?dk \<Longrightarrow> held ?s4 k' \<in> {held s2 k', None}" for k'
    using l1_set_keeps[of ?dk "format_int ver" ?ttl ?s3] l1_tables l1_set_entry[of ?dk "format_int ver" ?ttl ?s3 k'] by simp_all
  have g': "(v, s1) = (case n of Some m \<Rightarrow> (m, s2) | None \<Rightarrow> if ?ttl > 0 then (ver, ?s4) else (ver, ?s3))"
    using g lv r by (auto simp: get_version_def detail_versions_def v split: option.splits if_splits)
  show ?thesis
  proof (cases n)
    case (Some m)
    with n g' k2 h2 show ?thesis by auto
  next
    case None
    show ?thesis
    proof (cases "?ttl > 0")
      case True
      then show ?thesis using g' None k4 h4 h2 by simp (metis insertE singletonD)
    next
      case False
      then show ?thesis using g' None k2 h2 known_like[OF sent_like, of i ver s2] by simp
    qed
  qed
qed

lemma version_stays:
  assumes "get_version (detail_versions S) key s = (v, s1)"
  shows "fst (detail_preload S i s1) = fst (detail_preload S i s)"
proof -
  have l: "fst (detail_preload S i s2) = fst (detail_preload S i s)" if "l1_get C k s = (x, s2)" for k x s2
    using filter_stays[of s2 s k] that by simp
  have w: "fst (detail_preload S i (l1_set C k t n (sent s2))) = fst (detail_preload S i s2)" for k t n s2
    using filter_stays[of "l1_set C k t n (sent s2)" "sent s2" k t n] by simp
  show ?thesis
    using assms pool l w by (auto simp: get_version_def detail_versions_def newDetailVersions_def local_version_def read_version_def
      split: prod.splits option.splits if_splits)
qed

subsection \<open>Loading\<close>

lemma read_up: "db_read D f s = (Inr (f (db_tables D s)), snd (db_stmt D s))"
  using stmt_up[of s] stmt_keeps[of s] by (auto simp: db_read_def split: prod.splits option.splits)

lemma load_result:
  assumes "load_detail S i user s = (r, s1)"
  shows "like s s1 \<and> (case shown_row i (db_tables D s) of None \<Rightarrow> r = Inl content_not_found
    | Some row \<Rightarrow> if may_see user row then \<exists>d. r = Inr (Some d) \<and> counted S row d else r = Inl forbidden_detail)"
proof -
  let ?s = "snd (db_stmt D s)"
  have l: "like s ?s" using stmt_caches[of s] stmt_keeps[of s] by (simp add: like_def)
  have f: "FindDetailByID D i s = (detail_sql i (db_tables D s), ?s)" by (simp add: FindDetailByID_def read_up)
  have n: "\<not> errors_is content_not_found ErrNotFound" "\<not> errors_is forbidden_detail ErrNotFound"
    by (simp_all add: errors_is_def content_not_found_def forbidden_detail_def WithMsg_def)
  obtain d2 s2 where c: "fillCounts S (detail_of_row S (the (shown_row i (db_tables D s)))) (AddUint64 (ds_bloom S) i ?s) = (d2, s2)"
    by (cases "fillCounts S (detail_of_row S (the (shown_row i (db_tables D s)))) (AddUint64 (ds_bloom S) i ?s)")
  have lc: "like s s2" "counted S (the (shown_row i (db_tables D s))) d2"
    using fill_like[OF c] fill_counted[OF c] like_trans[OF l like_trans[OF filter_like(1)]] by auto
  show ?thesis
  proof (cases "shown_row i (db_tables D s)")
    case None
    then have "queryDetailFromDB S D i user s = (Inl content_not_found, ?s)"
      by (auto simp: queryDetailFromDB_def f shown_row_def split: sum.splits if_splits)
    with assms None db n l show ?thesis by (simp add: load_detail_def)
  next
    case (Some row)
    then have q: "queryDetailFromDB S D i user s = (if may_see user row then Inr (detail_of_row S row) else Inl forbidden_detail, ?s)"
      by (auto simp: queryDetailFromDB_def f shown_row_def may_see_def forbidden_detail_def Let_def split: sum.splits if_splits)
    show ?thesis
      using assms Some db n l q c lc by (cases "may_see user row") (auto simp: load_detail_def)
  qed
qed

subsection \<open>One key, cold or warm\<close>

definition cold :: "string \<Rightarrow> 's \<Rightarrow> bool" where
  "cold key s = (ks_str (view s) key = None \<and> held s (''d:'' @ key) = None \<and> \<not> ks_exists (lockKeyFor key) (view s))"

definition warm :: "string \<Rightarrow> post_detail \<Rightarrow> 's \<Rightarrow> bool" where
  "warm key d s = (\<exists>raw. ks_str (view s) key = Some raw \<and> raw \<noteq> [] \<and> raw \<noteq> ''NULL'' \<and> ds_decode S raw = Some d \<and>
     held s (''d:'' @ key) \<in> {None, Some raw})"

lemma cold_like: "like s s' \<Longrightarrow> cold key s' = cold key s"
  by (simp add: like_def cold_def)

lemma warm_like: "like s s' \<Longrightarrow> warm key d s' = warm key d s"
  by (simp add: like_def warm_def)

lemma keys_apart [simp]:
  "lockKeyFor (detailPageKey i ver) \<noteq> detailPageKey i ver" "lockKeyFor (detailPageKey i ver) \<noteq> detailVersionKey j"
  "detailVersionKey j \<noteq> lockKeyFor (detailPageKey i ver)" "detailPageKey i ver \<noteq> lockKeyFor (detailPageKey i ver)"
  "detailPageKey i ver \<noteq> detailVersionKey j" "detailVersionKey j \<noteq> detailPageKey i ver"
  by (simp_all add: lockKeyFor_def detailPageKey_def detailVersionKey_def)

lemma locals_apart [simp]: "''d:'' @ key \<noteq> ''dv:'' @ key'" "''dv:'' @ key' \<noteq> ''d:'' @ key"
  by simp_all

lemma l1_read:
  assumes "get_l1 (detail_tiered S i key) key s = (x, s1)" "held s (''d:'' @ key) \<in> {None, raw}"
  shows "(x = None \<or> x = (case raw of None \<Rightarrow> None | Some t \<Rightarrow> ds_decode S t)) \<and> view s1 = view s \<and> db_tables D s1 = db_tables D s \<and>
    (\<forall>k. held s1 k \<in> {held s k, None})"
proof -
  let ?k = "''d:'' @ key"
  obtain y s2 where y: "l1_get C ?k s = (y, s2)" by (cases "l1_get C ?k s")
  have "y = None \<or> y = held s ?k" by (rule l1_get_entry[OF y])
  moreover have "view s2 = view s" "held s2 k \<in> {held s k, None}" "db_tables D s2 = db_tables D s" for k
    using l1_get_keeps[of ?k s k] l1_tables[of ?k s] y by simp_all
  moreover have "(x, s1) = (case y of None \<Rightarrow> (None, s2) | Some t \<Rightarrow> (ds_decode S t, s2))"
    using assms(1) y pool by (simp add: get_l1_def detail_tiered_def ds_l1_def prefix_cache_def prefixed_def split: option.splits)
  ultimately show ?thesis using assms(2) by (auto split: option.splits)
qed

lemma known_held: "known i ver s \<Longrightarrow> view s1 = view s \<Longrightarrow> \<forall>k. held s1 k \<in> {held s k, None} \<Longrightarrow> known i ver s1"
proof -
  assume k: "known i ver s" and v: "view s1 = view s" and h: "\<forall>k. held s1 k \<in> {held s k, None}"
  show "known i ver s1" using k v h[rule_format, of "''dv:'' @ detailVersionKey i"] by (auto simp: known_def)
qed

lemma fill_page:
  assumes "key = detailPageKey i ver"
  shows "view (fill_l1_raw (detail_tiered S i key) key raw s) = view s" "db_tables D (fill_l1_raw (detail_tiered S i key) key raw s) = db_tables D s"
    "held (fill_l1_raw (detail_tiered S i key) key raw s) (''d:'' @ key) \<in> {Some raw, held s (''d:'' @ key), None}"
    "known j ver' s \<Longrightarrow> known j ver' (fill_l1_raw (detail_tiered S i key) key raw s)"
proof -
  let ?t = "dc_l1_ttl (detailCacheConfig (ds_cfg S))"
  have f: "fill_l1_raw (detail_tiered S i key) key raw s = l1_set C (''d:'' @ key) raw ?t s"
    using pool by (simp add: fill_l1_raw_def detail_tiered_def ds_l1_def prefix_cache_def prefixed_def)
  note e = l1_set_entry[of "''d:'' @ key" raw ?t s]
  show "view (fill_l1_raw (detail_tiered S i key) key raw s) = view s" "db_tables D (fill_l1_raw (detail_tiered S i key) key raw s) = db_tables D s"
    "held (fill_l1_raw (detail_tiered S i key) key raw s) (''d:'' @ key) \<in> {Some raw, held s (''d:'' @ key), None}"
    unfolding f using e[of "''d:'' @ key"] l1_set_keeps l1_tables by simp_all
  show "known j ver' (fill_l1_raw (detail_tiered S i key) key raw s)" if "known j ver' s"
    unfolding f using that e[of "''dv:'' @ detailVersionKey j"] l1_set_keeps[of "''d:'' @ key" raw ?t s] by (auto simp: known_def)
qed

lemma l2_cold:
  assumes "ks_str (view s) key = None"
  shows "get_l2 (detail_tiered S i key) key s = (Inr None, sent s)"
  using assms by (simp add: get_l2_def detail_tiered_def)

lemma cold_load:
  assumes "ks_str (view s) key = None \<and> held s (''d:'' @ key) = None" "known i ver s" "key = detailPageKey i ver" "load_and_fill (detail_tiered S i key) key (load_detail S i user) s = (r, s1)"
    and lock: "ks_str (view s) (lockKeyFor key) = lk"
  shows "known i ver s1 \<and> db_tables D s1 = db_tables D s \<and> ks_str (view s1) (lockKeyFor key) = lk \<and>
    (case shown_row i (db_tables D s) of
      None \<Rightarrow> r = Inl (Upstream content_not_found) \<and> ks_str (view s1) key = None \<and> held s1 (''d:'' @ key) = None
    | Some row \<Rightarrow> if may_see user row then \<exists>d. r = Inr d \<and> counted S row d \<and> (ds_encode S d \<noteq> None \<longrightarrow> warm key d s1)
        else r = Inl (Upstream forbidden_detail) \<and> ks_str (view s1) key = None \<and> held s1 (''d:'' @ key) = None)"
proof -
  let ?T = "detail_tiered S i key"
  obtain q s2 where q: "load_detail S i user s = (q, s2)" by (cases "load_detail S i user s")
  note l = load_result[OF q]
  then have k2: "known i ver s2" "ks_str (view s2) = ks_str (view s)" "held s2 = held s" "db_tables D s2 = db_tables D s"
    using assms(2) known_like by (auto simp: like_def)
  have c2: "ks_str (view s2) key = None" "held s2 (''d:'' @ key) = None" using assms(1) k2 by simp_all
  show ?thesis
  proof (cases "\<exists>row. shown_row i (db_tables D s) = Some row \<and> may_see user row")
    case False
    then show ?thesis using assms(4) q l k2 c2 lock by (auto simp: load_and_fill_def split: option.splits)
  next
    case True
    then obtain row d where row: "shown_row i (db_tables D s) = Some row" "may_see user row" and d: "q = Inr (Some d)" "counted S row d"
      using l by auto
    show ?thesis
    proof (cases "ds_encode S d")
      case None
      then show ?thesis using assms(4) q l k2 row d lock by (auto simp: load_and_fill_def detail_tiered_def)
    next
      case (Some raw)
      obtain ms s3 where ms: "detail_l2_ttl S i s2 = (ms, s3)" by (cases "detail_l2_ttl S i s2")
      then have l3: "like s2 s3" using l2_ttl_like[of s2 i] by simp
      let ?s4 = "r_set (ds_redis S) key raw (Some ms) (sent s3)" and ?s5 = "fill_l1_raw ?T key raw (r_set (ds_redis S) key raw (Some ms) (sent s3))"
      have e: "r = Inr d" "s1 = ?s5"
        using assms(4) q d(1) Some ms by (auto simp: load_and_fill_def set_l2_def detail_tiered_def)
      have k4: "known i ver ?s4" "ks_str (view ?s4) = (ks_str (view s))(key \<mapsto> raw)" "held ?s4 = held s" "db_tables D ?s4 = db_tables D s"
        using k2 l3 assms(3) by (auto simp: known_def like_def)
      note f = fill_page[OF assms(3), where raw = raw and s = ?s4]
      have "warm key d ?s5" using f(1,3) k4 codec[OF Some] c2 k2 by (auto simp: warm_def)
      then show ?thesis using e row d f(1,2) f(4)[OF k4(1)] k4 assms(3) lock by simp
    qed
  qed
qed

lemma cold_read:
  assumes c: "cold key s" and k: "known i ver s" and key: "key = detailPageKey i ver" and pre: "fst (detail_preload S i s) = None"
  shows "\<exists>r s1. tiered_get (detail_tiered S i key) key (load_detail S i user) s = Some (r, s1) \<and> known i ver s1 \<and> db_tables D s1 = db_tables D s \<and>
    (case shown_row i (db_tables D s) of
      None \<Rightarrow> r = Inl (Upstream content_not_found) \<and> cold key s1
    | Some row \<Rightarrow> if may_see user row then \<exists>d. r = Inr (d, HitLoad) \<and> counted S row d \<and> (ds_encode S d \<noteq> None \<longrightarrow> warm key d s1)
        else r = Inl (Upstream forbidden_detail) \<and> cold key s1)"
proof -
  let ?T = "detail_tiered S i key" and ?R = "ds_redis S" and ?lk = "lockKeyFor key"
  obtain x s1 where x: "get_l1 ?T key s = (x, s1)" by (cases "get_l1 ?T key s")
  have 1: "x = None" "view s1 = view s" "db_tables D s1 = db_tables D s" "\<forall>k. held s1 k \<in> {held s k, None}"
    using l1_read[OF x, of None] c by (auto simp: cold_def)
  have c1: "cold key s1" "known i ver s1" using c 1(2) spec[OF 1(4), of "''d:'' @ key"] known_held[OF k 1(2,4)] by (auto simp: cold_def)
  let ?s2 = "sent s1"
  obtain p s3 where p: "detail_preload S i ?s2 = (p, s3)" by (cases "detail_preload S i ?s2")
  have p': "p = None" "like s1 s3" using pre page_step_stays[OF x, of i] p filter_like(2)[of ?s2 i] sent_stays[of i s1] like_trans[OF sent_like] by auto
  obtain tok s4 where tok: "ds_token S s3 = (tok, s4)" by (cases "ds_token S s3")
  have l4: "like s1 s4" using token_like[of s3] tok like_trans[OF p'(2)] by simp
  have c4: "cold key s4" "known i ver s4" using c1 cold_like[OF l4] known_like[OF l4] by simp_all
  let ?s5 = "r_set ?R ?lk tok (Some (lo_ttl (normalized knowPostLockOptions))) (sent s4)"
  let ?l = "\<lparr>lk_key = ?lk, lk_token = tok, lk_options = normalized knowPostLockOptions\<rparr>"
  have acq: "try_acquire ?R ?lk knowPostLockOptions tok s4 = (Inr (Some ?l), ?s5)"
    using c4(1) by (simp add: try_acquire_def Let_def set_nx_def cold_def)
  have 5: "ks_str (view ?s5) key = None" "held ?s5 (''d:'' @ key) = None" "known i ver ?s5" "ks_str (view ?s5) ?lk = Some tok"
      "db_tables D ?s5 = db_tables D s"
    using c4 l4 1 key by (auto simp: cold_def known_def like_def)
  let ?s6 = "sent ?s5"
  have c6: "ks_str (view ?s6) key = None" "held ?s6 (''d:'' @ key) = None" "known i ver ?s6" using 5 known_like[OF sent_like, of i ver ?s5] by simp_all
  obtain r s7 where r: "load_and_fill ?T key (load_detail S i user) ?s6 = (r, s7)" by (cases "load_and_fill ?T key (load_detail S i user) ?s6")
  have t6: "db_tables D ?s6 = db_tables D s" using 5(5) by simp
  note res = cold_load[OF conjI[OF c6(1,2)] c6(3) key r, of "Some tok", unfolded t6]
  have lk: "ks_str (view s7) ?lk = Some tok" using res 5(4) by simp
  let ?s8 = "r_del ?R ?lk (sent s7)"
  have rel: "release ?R ?l s7 = ?s8" using lk by (simp add: release_def release_script_def)
  have check: "locked_check ?T key ?s5 = (Inr None, ?s6)" using l2_cold[OF 5(1), of i] by (simp add: locked_check_def)
  have "cache_read_through ?R ?lk knowPostLockOptions (ds_token S) (ds_wait S) (locked_check ?T key)
      (\<lambda>s. with_level HitLoad (load_and_fill ?T key (load_detail S i user) s)) s3 = Some (fst (with_level HitLoad (r, s7)), ?s8)"
    by (subst cache_read_through.simps) (simp add: tok acq check r rel case_prod_beta with_level_def split: sum.split)
  then have get: "tiered_get ?T key (load_detail S i user) s = Some (fst (with_level HitLoad (r, s7)), ?s8)"
    using x 1(1) l2_cold[of s1 key i] c1(1) p p'(1)
    by (simp add: tiered_get_def run_preload_def locked_load_def detail_tiered_def cold_def lockKeyFor_def)
  have k8: "known i ver ?s8" "db_tables D ?s8 = db_tables D s" using res 5(4) key by (auto simp: known_def)
  have cold8: "cold key ?s8" if "ks_str (view s7) key = None" "held s7 (''d:'' @ key) = None"
    using that by (simp add: cold_def ks_exists_def ks_del_def)
  have warm8: "warm key d ?s8" if "warm key d s7" for d using that key by (auto simp: warm_def)
  show ?thesis
    using get k8 res 5(4) cold8 warm8 by (cases "shown_row i (db_tables D s)") (auto simp: with_level_def split: if_splits)
qed

text \<open>The filter refuses the post.\<close>

lemma refused_read:
  assumes c: "cold key s" and k: "known i ver s" and e: "fst (detail_preload S i s) \<noteq> None"
  shows "\<exists>s1. tiered_get (detail_tiered S i key) key (load_detail S i user) s = Some (Inl (Upstream content_not_found), s1) \<and>
    cold key s1 \<and> db_tables D s1 = db_tables D s"
proof -
  let ?T = "detail_tiered S i key"
  obtain x s1 where x: "get_l1 ?T key s = (x, s1)" by (cases "get_l1 ?T key s")
  have 1: "x = None" "view s1 = view s" "db_tables D s1 = db_tables D s" "\<forall>k. held s1 k \<in> {held s k, None}"
    using l1_read[OF x, of None] c by (auto simp: cold_def)
  have c1: "cold key s1" using c 1(2) spec[OF 1(4), of "''d:'' @ key"] by (auto simp: cold_def)
  obtain p s3 where p: "detail_preload S i (sent s1) = (p, s3)" by (cases "detail_preload S i (sent s1)")
  have p': "p = Some content_not_found" "like s1 s3"
    using e preload_error[of i s] page_step_stays[OF x, of i] sent_stays[of i s1] p filter_like(2)[of "sent s1" i] like_trans[OF sent_like] by auto
  have "tiered_get ?T key (load_detail S i user) s = Some (Inl (Upstream content_not_found), s3)"
    using x 1(1) l2_cold[of s1 key i] c1 p p'(1) by (simp add: tiered_get_def run_preload_def detail_tiered_def cold_def)
  moreover have "cold key s3" "db_tables D s3 = db_tables D s" using c1 cold_like[OF p'(2)] p'(2) 1(3) by (simp_all add: like_def)
  ultimately show ?thesis by blast
qed

lemma warm_read:
  assumes w: "warm key d s" and k: "known i ver s" and key: "key = detailPageKey i ver"
  shows "\<exists>l s1. tiered_get (detail_tiered S i key) key (load_detail S i user) s = Some (Inr (d, l), s1) \<and> known i ver s1 \<and> warm key d s1 \<and>
    db_tables D s1 = db_tables D s"
proof -
  let ?T = "detail_tiered S i key"
  obtain raw where raw: "ks_str (view s) key = Some raw" "raw \<noteq> []" "raw \<noteq> ''NULL''" "ds_decode S raw = Some d" "held s (''d:'' @ key) \<in> {None, Some raw}"
    using w by (auto simp: warm_def)
  obtain x s1 where x: "get_l1 ?T key s = (x, s1)" by (cases "get_l1 ?T key s")
  have 1: "x = None \<or> x = Some d" "view s1 = view s" "db_tables D s1 = db_tables D s" "\<forall>k. held s1 k \<in> {held s k, None}"
    using l1_read[OF x raw(5)] raw(4) by simp_all
  have h1: "held s1 (''d:'' @ key) \<in> {None, Some raw}" using spec[OF 1(4), of "''d:'' @ key"] raw(5) by auto
  have c1: "warm key d s1" "known i ver s1"
    using raw 1(2) h1 known_held[OF k 1(2,4)] unfolding warm_def by auto
  show ?thesis
  proof (cases x)
    case (Some y)
    then show ?thesis using x 1 c1 by (auto simp: tiered_get_def)
  next
    case None
    let ?s2 = "fill_l1_raw ?T key raw (sent s1)"
    have g: "get_l2 ?T key s1 = (Inr (Some d), ?s2)" using raw 1(2) by (simp add: get_l2_def detail_tiered_def)
    note f = fill_page[OF key, where raw = raw and s = "sent s1"]
    have "warm key d ?s2" using f(1,3) raw 1(2) h1 unfolding warm_def by auto
    moreover have "known i ver ?s2" using f(4)[of i ver] c1(2) known_like[OF sent_like, of i ver s1] by simp
    ultimately show ?thesis using x None g f(2) 1(3) by (auto simp: tiered_get_def)
  qed
qed

section \<open>The whole read\<close>

lemma detail_after:
  assumes "get_version (detail_versions S) (detailVersionKey i) s = (ver, s1)"
    and "tiered_get (detail_tiered S i (detailPageKey i ver)) (detailPageKey i ver) (load_detail S i user) s1 = Some (r, s2)"
  shows "\<exists>q s3. GetDetail S i user s = Some (q, s3) \<and> like s2 s3 \<and>
    (case r of Inl e \<Rightarrow> q = Inl (detail_error_of e) | Inr (d, l) \<Rightarrow> \<exists>d'. q = Inr d' \<and> content d' = content d)"
proof (cases r)
  case (Inl e)
  then show ?thesis using assms by (simp add: GetDetail_def Let_def)
next
  case (Inr x)
  obtain d l where x: "x = (d, l)" by (cases x)
  let ?h = "recordHotKeyAndExtendTTL S i (detailPageKey i ver) s2"
  obtain d1 s3 where e: "enrichDetail S d user (l = HitL2) ?h = (d1, s3)" by (cases "enrichDetail S d user (l = HitL2) ?h")
  show ?thesis
    using assms Inr x e enrich_like[OF e] like_trans[OF record_like] by (auto simp: GetDetail_def Let_def)
qed

lemma refused_detail:
  assumes k: "known i ver s" and c: "cold (detailPageKey i ver) s" and e: "fst (detail_preload S i s) \<noteq> None"
  shows "\<exists>s'. GetDetail S i user s = Some (Inl (DApp content_not_found), s') \<and> db_tables D s' = db_tables D s \<and>
    cold (detailPageKey i ver) s'"
proof -
  let ?k = "detailPageKey i ver"
  obtain v s1 where g: "get_version (detail_versions S) (detailVersionKey i) s = (v, s1)" by (cases "get_version (detail_versions S) (detailVersionKey i) s")
  note v = version_read[OF k g]
  have "held s1 (''d:'' @ ?k) \<in> {held s (''d:'' @ ?k), None}" using v locals_apart(1) by blast
  then have c1: "cold ?k s1" using c v by (auto simp: cold_def)
  obtain s2 where "tiered_get (detail_tiered S i ?k) ?k (load_detail S i user) s1 = Some (Inl (Upstream content_not_found), s2)"
    "cold ?k s2" "db_tables D s2 = db_tables D s1"
    using refused_read[OF c1, of i ver user] v e version_stays[OF g, of i] by auto
  with g v show ?thesis by (simp add: GetDetail_def Let_def detail_error_of_def)
qed

lemma cold_detail:
  assumes k: "known i ver s" and c: "cold (detailPageKey i ver) s" and pre: "fst (detail_preload S i s) = None"
  shows "\<exists>q s'. GetDetail S i user s = Some (q, s') \<and> known i ver s' \<and> db_tables D s' = db_tables D s \<and>
    (case shown_row i (db_tables D s) of
      None \<Rightarrow> q = Inl (DApp content_not_found) \<and> cold (detailPageKey i ver) s'
    | Some row \<Rightarrow> if may_see user row then \<exists>d d'. q = Inr d' \<and> content d' = detail_of_row S row \<and> counted S row d \<and>
          (ds_encode S d \<noteq> None \<longrightarrow> warm (detailPageKey i ver) d s')
        else q = Inl (DApp forbidden_detail) \<and> cold (detailPageKey i ver) s')"
proof -
  let ?k = "detailPageKey i ver"
  obtain v s1 where g: "get_version (detail_versions S) (detailVersionKey i) s = (v, s1)" by (cases "get_version (detail_versions S) (detailVersionKey i) s")
  note v = version_read[OF k g]
  have "held s1 (''d:'' @ ?k) \<in> {held s (''d:'' @ ?k), None}" using v locals_apart(1) by blast
  then have c1: "cold ?k s1" using c v by (auto simp: cold_def)
  have k1: "known i ver s1" and v': "v = ver" and t1: "db_tables D s1 = db_tables D s" using v by simp_all
  obtain r s2 where r: "tiered_get (detail_tiered S i ?k) ?k (load_detail S i user) s1 = Some (r, s2)"
    and res: "known i ver s2" "db_tables D s2 = db_tables D s"
      "case shown_row i (db_tables D s) of
      None \<Rightarrow> r = Inl (Upstream content_not_found) \<and> cold ?k s2
    | Some row \<Rightarrow> if may_see user row then \<exists>d. r = Inr (d, HitLoad) \<and> counted S row d \<and> (ds_encode S d \<noteq> None \<longrightarrow> warm ?k d s2)
        else r = Inl (Upstream forbidden_detail) \<and> cold ?k s2"
    using cold_read[OF c1 k1 refl, of user, unfolded t1] pre version_stays[OF g, of i] by (metis (no_types, lifting))
  obtain q s3 where q: "GetDetail S i user s = Some (q, s3)" "like s2 s3"
    "case r of Inl e \<Rightarrow> q = Inl (detail_error_of e) | Inr (d, l) \<Rightarrow> \<exists>d'. q = Inr d' \<and> content d' = content d"
    using detail_after[OF g[unfolded v'] r] by blast
  have e: "known i ver s3" "db_tables D s3 = db_tables D s" "cold ?k s3 = cold ?k s2" "warm ?k d s3 = warm ?k d s2" for d
    using res(1,2) known_like[OF q(2)] cold_like[OF q(2)] warm_like[OF q(2)] q(2)[unfolded like_def] by simp_all
  show ?thesis
    using q(1,3) res(3) e by (cases "shown_row i (db_tables D s)") (fastforce simp: detail_error_of_def dest: counted_content split: if_splits)+
qed

lemma warm_detail:
  assumes k: "known i ver s" and w: "warm (detailPageKey i ver) d s"
  shows "\<exists>d' s'. GetDetail S i user s = Some (Inr d', s') \<and> content d' = content d"
proof -
  let ?k = "detailPageKey i ver"
  obtain v s1 where g: "get_version (detail_versions S) (detailVersionKey i) s = (v, s1)" by (cases "get_version (detail_versions S) (detailVersionKey i) s")
  note v = version_read[OF k g]
  have h: "held s1 (''d:'' @ ?k) \<in> {held s (''d:'' @ ?k), None}" using v locals_apart(1) by blast
  obtain raw where raw: "ks_str (view s) ?k = Some raw" "raw \<noteq> []" "raw \<noteq> ''NULL''" "ds_decode S raw = Some d" "held s (''d:'' @ ?k) \<in> {None, Some raw}"
    using w by (auto simp: warm_def)
  have "held s1 (''d:'' @ ?k) \<in> {None, Some raw}" using h raw(5) by auto
  then have w1: "warm ?k d s1" using raw v unfolding warm_def by auto
  obtain l s2 where r: "tiered_get (detail_tiered S i ?k) ?k (load_detail S i user) s1 = Some (Inr (d, l), s2)"
    using warm_read[OF w1 _ refl] v by blast
  show ?thesis using detail_after[OF g[unfolded conjunct1[OF v]] r] by auto
qed

text \<open>The state before a read of which nothing is cached, spelled out.\<close>

lemma spelled_out:
  assumes "held s (''dv:'' @ detailVersionKey i) = None"
    and "ver = (case stored_version (ks_str (view s) (detailVersionKey i)) of None \<Rightarrow> detailLayoutVer | Some n \<Rightarrow> n)"
    and "ks_str (view s) (detailPageKey i ver) = None" "held s (''d:'' @ detailPageKey i ver) = None"
    and "\<not> ks_exists (lockKeyFor (detailPageKey i ver)) (view s)"
  shows "known i ver s" "cold (detailPageKey i ver) s"
  using assms by (simp_all add: known_def cold_def)

lemma read_by_rule:
  assumes "known i ver s" "cold key s" "key = detailPageKey i ver"
  shows "\<exists>r s'. GetDetail S i user s = Some (r, s') \<and> db_tables D s' = db_tables D s \<and>
    (if fst (detail_preload S i s) \<noteq> None then r = Inl (DApp content_not_found) \<and> ks_str (view s') key = None
     else (case shown_row i (db_tables D s) of
      None \<Rightarrow> r = Inl (DApp content_not_found) \<and> ks_str (view s') key = None
    | Some row \<Rightarrow> if may_see user row then \<exists>d. r = Inr d \<and> content d = detail_of_row S row
        else r = Inl (DApp forbidden_detail) \<and> ks_str (view s') key = None))"
proof (cases "fst (detail_preload S i s) = None")
  case False
  then show ?thesis using refused_detail[OF assms(1) assms(2)[unfolded assms(3)], of user] assms(3) by (auto simp: cold_def)
next
  case True
  obtain r s' where r: "GetDetail S i user s = Some (r, s')" "db_tables D s' = db_tables D s" and
    c: "case shown_row i (db_tables D s) of
      None \<Rightarrow> r = Inl (DApp content_not_found) \<and> cold (detailPageKey i ver) s'
    | Some row \<Rightarrow> if may_see user row then \<exists>d d'. r = Inr d' \<and> content d' = detail_of_row S row \<and> counted S row d \<and>
          (ds_encode S d \<noteq> None \<longrightarrow> warm (detailPageKey i ver) d s')
        else r = Inl (DApp forbidden_detail) \<and> cold (detailPageKey i ver) s'"
    using cold_detail[OF assms(1) assms(2)[unfolded assms(3)] True, of user] by blast
  have "case shown_row i (db_tables D s) of
      None \<Rightarrow> r = Inl (DApp content_not_found) \<and> ks_str (view s') key = None
    | Some row \<Rightarrow> if may_see user row then \<exists>d. r = Inr d \<and> content d = detail_of_row S row
        else r = Inl (DApp forbidden_detail) \<and> ks_str (view s') key = None"
    using c assms(3) by (auto simp: cold_def split: option.splits if_splits)
  with r True show ?thesis by simp
qed

lemma read_opens:
  assumes "known i ver s" "cold (detailPageKey i ver) s" "fst (detail_preload S i s) = None"
    and "shown_row i (db_tables D s) = Some row" "\<And>d. counted S row d \<Longrightarrow> ds_encode S d \<noteq> None"
  shows "\<exists>d s1. GetDetail S i (Some (dr_creator row)) s = Some (Inr d, s1) \<and>
    (\<forall>user. \<exists>d' s2. GetDetail S i user s1 = Some (Inr d', s2) \<and> content d' = detail_of_row S row)"
proof -
  obtain d d' s1 where 1: "GetDetail S i (Some (dr_creator row)) s = Some (Inr d', s1)" "known i ver s1" "content d = detail_of_row S row"
    "warm (detailPageKey i ver) d s1"
    using cold_detail[OF assms(1-3), of "Some (dr_creator row)"] assms(4,5) counted_content by (fastforce simp: may_see_def)
  have "\<exists>d' s2. GetDetail S i user s1 = Some (Inr d', s2) \<and> content d' = detail_of_row S row" for user
    using warm_detail[OF 1(2,4), of user] unfolding 1(3) .
  with 1(1) show ?thesis by blast
qed

end

section \<open>A world\<close>

text \<open>Redis, an in-process cache, a clock, a filter and a database that works.\<close>

type_synonym detail_mem =
  "((mem \<times> (string \<rightharpoonup> string)) \<times> (nat \<times> ((string \<Rightarrow> nat) option \<times> bloom_flags))) \<times> post_tables"

definition detail_part :: "detail_mem \<Rightarrow> cf_store" where
  "detail_part s = (fst (snd (snd (fst s))), snd (snd (snd (fst s))), [])"

definition detail_put :: "cf_store \<Rightarrow> detail_mem \<Rightarrow> detail_mem" where
  "detail_put x s = ((fst (fst s), (fst (snd (fst s)), (fst x, fst (snd x)))), snd s)"

lemma detail_part_put [simp]: "fst (detail_part (detail_put x s)) = fst x" "fst (snd (detail_part (detail_put x s))) = fst (snd x)"
  "fst (fst (detail_put x s)) = fst (fst s)" "snd (detail_put x s) = snd s" "cf_fault (detail_part s) = (None, detail_part s)"
  by (simp_all add: detail_part_def detail_put_def)

definition detail_db :: "(post_tables, detail_mem) database" where
  "detail_db = \<lparr>db_begin = Pair None, db_tables = snd, db_stmt = Pair None, db_rollback = Pair None, db_commit = (\<lambda>t s. (None, (fst s, t)))\<rparr>"

definition detail_pool :: "detail_mem l1_cache" where
  "detail_pool = \<lparr>
     l1_get = (\<lambda>k s. (snd (fst (fst s)) k, s)),
     l1_set = (\<lambda>k v ttl s. (((fst (fst (fst s)), (snd (fst (fst s)))(k \<mapsto> v)), snd (fst s)), snd s)),
     l1_del = (\<lambda>k s. (((fst (fst (fst s)), (snd (fst (fst s)))(k := None)), snd (fst s)), snd s))\<rparr>"

definition detail_redis :: "detail_mem redis" where
  "detail_redis = on_first (on_first (on_first up_redis))"

definition private_post :: know_post where
  "private_post = (blank_post 5 7)\<lparr>kp_status := KnowPostStatusPublished, kp_visible := KnowPostVisibilityPrivate, kp_publish_time := Some 0\<rparr>"

definition post_author :: user where
  "post_author = \<lparr>us_id = 7, us_zg_id = None, us_phone = None, us_email = None, us_password_hash = None, us_nickname = ''ann'',
     us_avatar = None, us_tags_json = None, us_birthday = None, us_gender = None, us_bio = None, us_school = None\<rparr>"

text \<open>The encoder writes the counts of the one detail that occurs.\<close>

definition one_detail :: post_detail where
  "one_detail = \<lparr>pd_id = format_uint 5, pd_title = None, pd_description = None, pd_content_url = None, pd_images = [], pd_tags = [],
     pd_author_id = format_uint 7, pd_author_avatar = None, pd_author_nickname = ''ann'', pd_author_tags = None, pd_like_count = 0,
     pd_favorite_count = 0, pd_liked = None, pd_faved = None, pd_is_top = False, pd_visible = KnowPostVisibilityPrivate,
     pd_type = [], pd_publish_time = Some 0\<rparr>"

definition one_encode :: "post_detail \<Rightarrow> string option" where
  "one_encode d = (if d\<lparr>pd_like_count := 0, pd_favorite_count := 0\<rparr> = one_detail
     then Some (CHR ''{'' # format_int (pd_like_count d) @ CHR '':'' # format_int (pd_favorite_count d)) else None)"

definition one_decode :: "string \<Rightarrow> post_detail option" where
  "one_decode t = (case t of [] \<Rightarrow> None | c # t' \<Rightarrow> (case str_cut CHR '':'' t' of
      Some (a, b) \<Rightarrow> (case (lua_tonumber a, lua_tonumber b) of
          (Some x, Some y) \<Rightarrow> Some (one_detail\<lparr>pd_like_count := x, pd_favorite_count := y\<rparr>)
        | _ \<Rightarrow> None)
    | None \<Rightarrow> None))"

definition mem_details :: "detail_mem detail_service" where
  "mem_details = \<lparr>ds_db = Some detail_db, ds_redis = detail_redis, ds_pool = Some detail_pool, ds_prefix = ''d:'', ds_hotkey = None,
     ds_bloom = Some (mem_bloom detail_part detail_put), ds_counter = None, ds_cfg = None, ds_encode = one_encode, ds_decode = one_decode,
     ds_decode_list = (\<lambda>t. Some []), ds_jitter = (\<lambda>n s. (0, s)), ds_token = (\<lambda>s. (''t'', s)), ds_wait = (\<lambda>s. (False, s))\<rparr>"

lemma mem_preload: "fst (detail_preload mem_details i s) = (case fst (detail_part s) of None \<Rightarrow> None
    | Some f \<Rightarrow> if bf_module_fail (fst (snd (detail_part s))) \<or> 0 < f (format_uint i) then None else Some content_not_found)"
proof (cases "detail_part s")
  case (fields c f faults)
  have i: "format_uint i \<noteq> []" by (simp add: format_uint_def)
  show ?thesis
    using fields i by (cases c) (simp_all add: detail_preload_def mem_details_def MightContainUint64_def MightContain_def IsWarm_def mem_bloom_def
      redisTruthy_def)
qed

lemma one_codec: "one_encode d = Some raw \<Longrightarrow> one_decode raw = Some d \<and> raw \<noteq> [] \<and> raw \<noteq> ''NULL''"
proof -
  assume e: "one_encode d = Some raw"
  then have "d = one_detail\<lparr>pd_like_count := pd_like_count d, pd_favorite_count := pd_favorite_count d\<rparr>"
    by (cases d) (auto simp: one_encode_def one_detail_def split: if_splits)
  with e show ?thesis by (auto simp: one_encode_def one_decode_def split: if_splits)
qed

abbreviation (input) detail_view :: "detail_mem \<Rightarrow> keyspace" where
  "detail_view \<equiv> fst \<circ> fst \<circ> fst \<circ> fst"

interpretation mem_detail: detail_world mem_details detail_view "\<lambda>s. snd (fst (fst s))" "\<lambda>s. fst (snd (fst s))" detail_pool detail_db
proof -
  have up: "redis_up detail_redis detail_view"
    unfolding detail_redis_def using redis_up.on_first_up[OF redis_up.on_first_up[OF redis_up.on_first_up[OF up.redis_up_axioms]]]
    by (simp add: comp_assoc)
  then have core: "redis_core detail_redis detail_view" by (simp add: redis_up_def redis_server_def redis_scan_def)
  have f: "redis_frame detail_redis (\<lambda>s. (snd (fst (fst s)), fst (snd (fst s))))" "redis_frame detail_redis snd"
    unfolding detail_redis_def by unfold_locales (auto split: prod.splits)
  have c: "cache_world detail_redis detail_view (\<lambda>s. snd (fst (fst s))) (\<lambda>s. fst (snd (fst s))) detail_pool"
    using core f(1) by (simp add: cache_world_def cache_world_axioms_def detail_pool_def)
  have d: "sql_database detail_db" by unfold_locales (auto simp: detail_db_def)
  have b: "bloom_frame (mem_bloom detail_part detail_put) (\<lambda>s. (detail_view s, snd (fst (fst s)), snd s))"
    by unfold_locales (simp_all add: mem_bloom_def detail_part_def detail_put_def case_prod_beta split: option.split prod.split)
  have p: "x \<in> {snd (r_net detail_redis s), snd (l1_get detail_pool k s), l1_set detail_pool k v ttl s} \<Longrightarrow> detail_part x = detail_part s" for x k v ttl s
    by (auto simp: detail_redis_def on_first_def detail_pool_def detail_part_def split: prod.splits)
  have q: "detail_part x = detail_part s \<Longrightarrow> fst (detail_preload mem_details i x) = fst (detail_preload mem_details i s)" for i x s
    unfolding mem_preload by (rule arg_cong[where f = "\<lambda>p. case fst p of None \<Rightarrow> None
      | Some f \<Rightarrow> if bf_module_fail (fst (snd p)) \<or> 0 < f (format_uint i) then None else Some content_not_found"])
  have sel: "ds_redis mem_details = detail_redis" "db_tables detail_db = snd" by (simp_all add: mem_details_def detail_db_def fun_eq_iff)
  show "detail_world mem_details detail_view (\<lambda>s. snd (fst (fst s))) (\<lambda>s. fst (snd (fst s))) detail_pool detail_db"
    unfolding detail_world_def sel using c up d f(2) one_codec b q[OF p]
    by (simp add: detail_world_axioms_def mem_details_def detail_db_def detail_pool_def)
qed

definition detail_start :: detail_mem where
  "detail_start = ((((empty_keyspace, []), (\<lambda>_. None)), (0, (Some ((\<lambda>_. 0)(''5'' := 1)),
     \<lparr>bf_ensured = False, bf_module_ok = False, bf_module_fail = False\<rparr>))), \<lparr>pt_posts = [private_post], pt_users = [post_author], pt_outbox = []\<rparr>)"

definition private_row :: detail_row where
  "private_row = detail_row_of private_post post_author"

lemma start_row: "shown_row 5 (db_tables detail_db detail_start) = Some private_row"
  by (simp add: shown_row_def detail_sql_def detail_db_def detail_start_def private_post_def post_author_def blank_post_def private_row_def
    detail_row_of_def post_status_defs)

text \<open>The filter has the one post and no other.\<close>

lemma start_cold:
  "snd (fst (fst detail_start)) (''dv:'' @ detailVersionKey i) = None"
  "detailLayoutVer = (case stored_version (ks_str (detail_view detail_start) (detailVersionKey i)) of None \<Rightarrow> detailLayoutVer | Some n \<Rightarrow> n)"
  "ks_str (detail_view detail_start) (detailPageKey i detailLayoutVer) = None" "snd (fst (fst detail_start)) (''d:'' @ detailPageKey i detailLayoutVer) = None"
  "\<not> ks_exists (lockKeyFor (detailPageKey i detailLayoutVer)) (detail_view detail_start)"
  by (simp_all add: detail_start_def stored_version_def ks_exists_def empty_keyspace_def)

lemma start_admits: "fst (detail_preload mem_details 5 detail_start) = None" "fst (detail_preload mem_details 6 detail_start) \<noteq> None"
proof -
  have "format_uint 5 = ''5''" "format_uint 6 = ''6''" by code_simp+
  then show "fst (detail_preload mem_details 5 detail_start) = None" "fst (detail_preload mem_details 6 detail_start) \<noteq> None"
    by (simp_all add: mem_preload detail_start_def detail_part_def)
qed

section \<open>Warming\<close>

text \<open>What a step of the scan has not listed comes after its last id.\<close>

lemma taken_or_later:
  fixes x :: "'a :: linorder"
  assumes "sorted xs" "x \<in> set xs" "take n xs \<noteq> []"
  shows "x \<in> set (take n xs) \<or> last (take n xs) < x"
proof -
  have "last (take n xs) \<le> x" if "x \<in> set (drop n xs)"
    using assms(1,3) that sorted_append[of "take n xs" "drop n xs"] last_in_set[OF assms(3)] by simp
  moreover have "x \<in> set (take n xs) \<or> x \<in> set (drop n xs)" using assms(2) by (metis Un_iff append_take_drop_id set_append)
  moreover have "x \<in> set (take n xs)" if "x = last (take n xs)" using last_in_set[OF assms(3)] that by simp
  ultimately show ?thesis by force
qed

locale warming = cuckoo_filter_up b count there + tables: bloom_frame b "db_tables D"
  for b :: "'s bloom" and count there and D :: "'s post_db" +
  assumes reads_up: "fst (db_stmt D s) = None" and reads_keep: "db_tables D (snd (db_stmt D s)) = db_tables D s"
    and reads_filter: "count (snd (db_stmt D s)) = count s \<and> bl_flags b (snd (db_stmt D s)) = bl_flags b s"

context warming
begin

definition usable :: "'s \<Rightarrow> bool" where "usable s = (\<not> bf_module_fail (bl_flags b s))"

lemma no_empty_member [simp]: "format_uint i \<noteq> []"
  by (simp add: format_uint_def)

lemma adds_all:
  "usable s \<Longrightarrow> usable (fold (AddUint64 (Some b)) ids s) \<and> db_tables D (fold (AddUint64 (Some b)) ids s) = db_tables D s \<and>
   (\<forall>m. count s m \<le> count (fold (AddUint64 (Some b)) ids s) m) \<and> (\<forall>i \<in> set ids. 0 < count (fold (AddUint64 (Some b)) ids s) (format_uint i))"
proof (induction ids arbitrary: s)
  case Nil
  then show ?case by simp
next
  case (Cons i ids)
  let ?s = "AddUint64 (Some b) i s"
  have a: "count ?s = (count s)(format_uint i := count s (format_uint i) + 1)" "usable ?s"
    using added[of s "format_uint i"] Cons.prems by (simp_all add: usable_def AddUint64_def)
  note ih = Cons.IH[OF a(2)]
  have "count s m \<le> count (fold (AddUint64 (Some b)) ids ?s) m" for m
    using ih a(1) by (metis (no_types, lifting) fun_upd_apply le_add1 order_trans)
  moreover have "0 < count (fold (AddUint64 (Some b)) ids ?s) (format_uint i)"
    using ih a(1) by (metis (no_types, lifting) add_gr_0 fun_upd_same less_numeral_extra(1) less_le_trans)
  ultimately show ?case using ih tables.members_same(1) by simp
qed

lemma warms:
  "usable s \<Longrightarrow> warm_from D b last_id s = (r, s') \<Longrightarrow> r = Inr () \<and> (\<forall>m. count s m \<le> count s' m) \<and>
    (\<forall>p \<in> set (pt_posts (db_tables D s)). last_id < kp_id p \<longrightarrow> kp_status p \<noteq> KnowPostStatusDeleted \<longrightarrow> 0 < count s' (format_uint (kp_id p)))"
proof (induction "2 ^ 64 - unat last_id" arbitrary: last_id s rule: less_induct)
  case less
  let ?t = "db_tables D s" and ?s1 = "snd (db_stmt D s)"
  let ?ids = "bloom_ids_sql last_id 1000 (db_tables D s)"
  define all where "all = sort (map kp_id (filter (\<lambda>r. last_id < kp_id r \<and> kp_status r \<noteq> KnowPostStatusDeleted) (pt_posts ?t)))"
  have ids: "?ids = take 1000 all" by (simp add: bloom_ids_sql_def all_def)
  have rest: "kp_id p \<in> set all" if "p \<in> set (pt_posts ?t)" "last_id < kp_id p" "kp_status p \<noteq> KnowPostStatusDeleted" for p
    using that by (simp add: all_def)
  have q: "ListIDsForBloom D last_id 1000 s = (Inr ?ids, ?s1)"
    using reads_up[of s] reads_keep[of s] by (auto simp: ListIDsForBloom_def db_read_def split: prod.splits option.splits)
  have k1: "usable ?s1" "count ?s1 = count s" "db_tables D ?s1 = ?t"
    using less.prems(1) reads_filter[of s] reads_keep by (simp_all add: usable_def)
  show ?case
  proof (cases "?ids = []")
    case True
    then have "all = []" using ids by simp
    then have none: "\<not> (last_id < kp_id p \<and> kp_status p \<noteq> KnowPostStatusDeleted)" if "p \<in> set (pt_posts ?t)" for p
      using rest[OF that] by auto
    have "r = Inr ()" "s' = ?s1" using less.prems(2) q True by (simp_all add: warm_from.simps[of D b last_id])
    then show ?thesis using k1(2) none by auto
  next
    case False
    let ?s2 = "fold (AddUint64 (Some b)) ?ids ?s1"
    note added = adds_all[OF k1(1), of ?ids]
    have "last_id < last ?ids" by (rule bloom_ids_above[OF False])
    then have "2 ^ 64 - unat (last ?ids) < 2 ^ 64 - unat last_id" by (rule ids_left)
    moreover have "warm_from D b (last ?ids) ?s2 = (r, s')" using less.prems(2) q False by (simp add: warm_from.simps[of D b last_id])
    ultimately have ih: "r = Inr ()" "count ?s2 m \<le> count s' m"
      "p \<in> set (pt_posts ?t) \<Longrightarrow> last ?ids < kp_id p \<Longrightarrow> kp_status p \<noteq> KnowPostStatusDeleted \<Longrightarrow> 0 < count s' (format_uint (kp_id p))" for m p
      using less.hyps[of "last ?ids" ?s2] added k1(3) by auto
    have "0 < count s' (format_uint (kp_id p))" if p: "p \<in> set (pt_posts ?t)" "last_id < kp_id p" "kp_status p \<noteq> KnowPostStatusDeleted" for p
    proof -
      have "sorted all" by (simp add: all_def)
      from taken_or_later[OF this rest[OF p], of 1000] False consider "kp_id p \<in> set ?ids" | "last ?ids < kp_id p" unfolding ids by blast
      then show ?thesis
      proof cases
        case 1
        then have "0 < count ?s2 (format_uint (kp_id p))" using added by blast
        then show ?thesis using ih(2)[of "format_uint (kp_id p)"] by simp
      next
        case 2
        then show ?thesis using ih(3) p by blast
      qed
    qed
    moreover have "count s m \<le> count s' m" for m using added k1(2) ih(2)[of m] by (metis order_trans)
    ultimately show ?thesis using ih(1) by blast
  qed
qed

end

text \<open>A filter and a table in memory.\<close>

type_synonym warm_mem = "mem \<times> (((string \<Rightarrow> nat) option \<times> bloom_flags) \<times> post_tables)"

definition warm_db :: "(post_tables, warm_mem) database" where
  "warm_db = \<lparr>db_begin = Pair None, db_tables = (\<lambda>s. snd (snd s)), db_stmt = Pair None, db_rollback = Pair None,
     db_commit = (\<lambda>t s. (None, (fst s, (fst (snd s), t))))\<rparr>"

definition warm_part :: "warm_mem \<Rightarrow> cf_store" where
  "warm_part s = (fst (fst (snd s)), snd (fst (snd s)), [])"

definition warm_put :: "cf_store \<Rightarrow> warm_mem \<Rightarrow> warm_mem" where
  "warm_put x s = (fst s, ((fst x, fst (snd x)), snd (snd s)))"

lemma warm_part_put [simp]: "fst (warm_part (warm_put x s)) = fst x" "fst (snd (warm_part (warm_put x s))) = fst (snd x)"
  "snd (snd (warm_put x s)) = snd (snd s)" "cf_fault (warm_part s) = (None, warm_part s)"
  by (simp_all add: warm_part_def warm_put_def)

definition warm_bloom :: "warm_mem bloom" where
  "warm_bloom = mem_bloom warm_part warm_put"

interpretation mem_warming: warming warm_bloom "\<lambda>s. cf_count (warm_part s)" "\<lambda>s. fst (warm_part s) \<noteq> None" warm_db
proof (intro warming.intro cuckoo_filter_up.intro)
  show "cuckoo_filter warm_bloom (\<lambda>s. cf_count (warm_part s)) (\<lambda>s. fst (warm_part s) \<noteq> None)"
    unfolding warm_bloom_def by (rule mem_bloom_filter) simp_all
  show "bloom_frame warm_bloom (db_tables warm_db)"
    by unfold_locales (simp_all add: warm_bloom_def warm_db_def mem_bloom_def split: prod.split option.split)
qed (unfold_locales, auto simp: warm_bloom_def warm_db_def mem_bloom_def cf_count_def Let_def split: option.splits prod.splits)

definition unwarmed :: warm_mem where
  "unwarmed = ((empty_keyspace, []), ((None, \<lparr>bf_ensured = False, bf_module_ok = False, bf_module_fail = False\<rparr>),
     \<lparr>pt_posts = [private_post], pt_users = [post_author], pt_outbox = []\<rparr>))"

definition warm_details :: "warm_mem detail_service" where
  "warm_details = \<lparr>ds_db = Some warm_db, ds_redis = on_first up_redis, ds_pool = None, ds_prefix = ''d:'', ds_hotkey = None,
     ds_bloom = Some warm_bloom, ds_counter = None, ds_cfg = None, ds_encode = one_encode, ds_decode = one_decode,
     ds_decode_list = (\<lambda>t. Some []), ds_jitter = (\<lambda>n s. (0, s)), ds_token = (\<lambda>s. (''t'', s)), ds_wait = (\<lambda>s. (False, s))\<rparr>"

section \<open>Properties\<close>

text \<open>
  C34: over a Redis and a database that answer, and caches that hold nothing of the post,
  a read goes by the rule. What the filter refuses is not found. What it admits is shown
  to everyone if it is published and public, to its author in any state but deleted, with
  exactly the content of the table; a post that is not there or deleted is not found, any
  other is forbidden. None of these refusals leaves anything in Redis: the sentinel for
  missing posts is never written, since the loader compares its error with another one.
\<close>

theorem detail_read_by_rule:
  assumes "detail_world S view held time_left C D"
    and "held s (''dv:'' @ detailVersionKey i) = None"
    and "ver = (case stored_version (ks_str (view s) (detailVersionKey i)) of None \<Rightarrow> detailLayoutVer | Some n \<Rightarrow> n)"
    and "ks_str (view s) (detailPageKey i ver) = None" "held s (''d:'' @ detailPageKey i ver) = None"
    and "\<not> ks_exists (lockKeyFor (detailPageKey i ver)) (view s)"
  shows "\<exists>r s'. GetDetail S i user s = Some (r, s') \<and> db_tables D s' = db_tables D s \<and>
    (if fst (detail_preload S i s) \<noteq> None
     then r = Inl (DApp content_not_found) \<and> ks_str (view s') (detailPageKey i ver) = None
     else (case shown_row i (db_tables D s) of
        None \<Rightarrow> r = Inl (DApp content_not_found) \<and> ks_str (view s') (detailPageKey i ver) = None
      | Some row \<Rightarrow> if may_see user row then \<exists>d. r = Inr d \<and> content d = detail_of_row S row
          else r = Inl (DApp forbidden_detail) \<and> ks_str (view s') (detailPageKey i ver) = None))"
  using detail_world.read_by_rule[OF assms(1) detail_world.spelled_out[OF assms(1-6)] refl] .

theorem detail_read_by_rule_witness:
  "\<exists>s' s''. GetDetail mem_details 5 (Some 8) detail_start = Some (Inl (DApp forbidden_detail), s') \<and>
     ks_str (detail_view s') (detailPageKey 5 detailLayoutVer) = None \<and>
     GetDetail mem_details 6 (Some 8) detail_start = Some (Inl (DApp content_not_found), s'')"
proof -
  have no: "\<not> may_see (Some 8) private_row"
    by (simp add: may_see_def private_row_def detail_row_of_def private_post_def blank_post_def post_visibility_defs)
  from detail_read_by_rule[OF mem_detail.detail_world_axioms start_cold[of 5], of "Some 8"]
  have 5: "\<exists>s'. GetDetail mem_details 5 (Some 8) detail_start = Some (Inl (DApp forbidden_detail), s') \<and>
      ks_str (detail_view s') (detailPageKey 5 detailLayoutVer) = None"
    unfolding start_row option.case if_not_P[OF no] using start_admits(1) by auto
  from detail_read_by_rule[OF mem_detail.detail_world_axioms start_cold[of 6], of "Some 8"]
  have "\<exists>s''. GetDetail mem_details 6 (Some 8) detail_start = Some (Inl (DApp content_not_found), s'')"
    using start_admits(2) by auto
  with 5 show ?thesis by blast
qed

text \<open>
  C35: the answer for one reader is cached for all. Over a Redis and a database that
  answer, once the author has read a private post that the filter admits and of which
  nothing was cached, the next read shows it to a user who may not see it.
\<close>

theorem owner_read_opens_post:
  assumes "detail_world S view held time_left C D"
    and "held s (''dv:'' @ detailVersionKey i) = None"
    and "ver = (case stored_version (ks_str (view s) (detailVersionKey i)) of None \<Rightarrow> detailLayoutVer | Some n \<Rightarrow> n)"
    and "ks_str (view s) (detailPageKey i ver) = None" "held s (''d:'' @ detailPageKey i ver) = None"
    and "\<not> ks_exists (lockKeyFor (detailPageKey i ver)) (view s)"
    and "fst (detail_preload S i s) = None"
    and "shown_row i (db_tables D s) = Some row" "\<And>d. counted S row d \<Longrightarrow> ds_encode S d \<noteq> None"
    and "dr_visible row = KnowPostVisibilityPrivate" "stranger \<noteq> dr_creator row"
  shows "\<exists>d s1. GetDetail S i (Some (dr_creator row)) s = Some (Inr d, s1) \<and> \<not> may_see (Some stranger) row \<and>
    (\<exists>d' s2. GetDetail S i (Some stranger) s1 = Some (Inr d', s2) \<and> content d' = detail_of_row S row)"
  using detail_world.read_opens[OF assms(1) detail_world.spelled_out[OF assms(1-6)] assms(7-9)] assms(10,11)
  by (auto simp: may_see_def post_visibility_defs)

theorem owner_read_opens_post_witness:
  "\<exists>d s1 d' s2. GetDetail mem_details 5 (Some 7) detail_start = Some (Inr d, s1) \<and>
     GetDetail mem_details 5 (Some 8) s1 = Some (Inr d', s2) \<and> pd_author_nickname d' = ''ann''"
proof -
  have row: "dr_creator private_row = 7" "dr_visible private_row = KnowPostVisibilityPrivate" "(8 :: uint64) \<noteq> dr_creator private_row"
    "detail_of_row mem_details private_row = one_detail"
    by (simp_all add: private_row_def detail_row_of_def private_post_def blank_post_def post_author_def detail_of_row_def one_detail_def
      ParseStringArray_def)
  have e: "ds_encode mem_details d \<noteq> None" if "counted mem_details private_row d" for d
    using that unfolding counted_def row(4) by (auto simp: mem_details_def one_encode_def one_detail_def)
  have n: "content d = one_detail \<Longrightarrow> pd_author_nickname d = ''ann''" for d by (auto simp: content_def one_detail_def dest: arg_cong[where f = pd_author_nickname])
  from owner_read_opens_post[OF mem_detail.detail_world_axioms start_cold start_admits(1) start_row e row(2,3)] show ?thesis
    unfolding row(1,4) using n by blast
qed

text \<open>
  C36: warming ends, and from then on the filter admits every post of the table that is
  not deleted: reading all ids in steps of a thousand behind the last one misses none.
\<close>

theorem warming_admits_all:
  assumes "warming b count there D" "ds_bloom S = Some b" "ds_db S = Some D" "\<not> bf_module_fail (bl_flags b s)"
    and "WarmDetailBloom S s = (r, s')"
  shows "r = Inr () \<and> (\<forall>p \<in> set (pt_posts (db_tables D s)). kp_id p \<noteq> 0 \<and> kp_status p \<noteq> KnowPostStatusDeleted \<longrightarrow>
    fst (fst (MightContainUint64 (Some b) (kp_id p) s')))"
proof -
  have w: "warm_from D b 0 s = (r, s')" using assms(2,3,5) by (simp add: WarmDetailBloom_def)
  have u: "warming.usable b s" using assms(1,4) by (simp add: warming.usable_def)
  note res = warming.warms[OF assms(1) u w]
  have filter: "cuckoo_filter b count there" using assms(1) by (simp add: warming_def cuckoo_filter_up_def)
  have "fst (fst (MightContainUint64 (Some b) (kp_id p) s'))"
    if "p \<in> set (pt_posts (db_tables D s))" "kp_id p \<noteq> 0" "kp_status p \<noteq> KnowPostStatusDeleted" for p
    unfolding MightContainUint64_def using that res word_neq_0_conv by (intro cuckoo_filter.member_not_denied[OF filter]) blast
  with res show ?thesis by blast
qed

theorem warming_admits_all_witness:
  "fst (WarmDetailBloom warm_details unwarmed) = Inr () \<and>
   fst (fst (MightContainUint64 (Some warm_bloom) 5 (snd (WarmDetailBloom warm_details unwarmed))))"
proof -
  have ok: "\<not> bf_module_fail (bl_flags warm_bloom unwarmed)" by (simp add: unwarmed_def warm_bloom_def mem_bloom_def warm_part_def)
  have "ds_bloom warm_details = Some warm_bloom" "ds_db warm_details = Some warm_db" by (simp_all add: warm_details_def)
  from warming_admits_all[OF mem_warming.warming_axioms this ok prod.collapse[symmetric]] show ?thesis
    by (simp add: unwarmed_def warm_db_def private_post_def blank_post_def post_status_defs)
qed

end
