(* ===== verification/Knowpost_Feed_Props.thy ===== *)
theory Knowpost_Feed_Props
  imports Knowpost_Feed Knowpost_Detail_Props
begin

text \<open>
  What the lists of posts show: the public list by the rule of the table when nothing is
  cached, what the fragments of a page hold after they are written once and after they are
  written again, the home list in the order of the timeline, and which pages a change of a
  post leaves behind.
\<close>

section \<open>Items\<close>

text \<open>What of an item comes from the table.\<close>

definition bare :: "feed_item \<Rightarrow> feed_item" where
  "bare i = i\<lparr>fi_like_count := 0, fi_favorite_count := 0, fi_liked := None, fi_faved := None\<rparr>"

lemma bare_id [simp]: "fi_id (bare i) = fi_id i"
  by (simp add: bare_def)

lemma bare_marks [simp]: "bare (with_marks l f i) = bare i" "fi_id (with_marks l f i) = fi_id i"
  by (simp_all add: bare_def with_marks_def)

lemma bare_item [simp]: "bare (feed_item_of dl counts b eid r) = feed_item_of dl [] b eid r" "fi_id (feed_item_of dl counts b eid r) = eid"
  by (simp_all add: bare_def feed_item_of_def Let_def batch_count_def)

lemma mapped_bare:
  "fs_counter S = Some c \<Longrightarrow>
    map bare (fst (mapRowsToItems S rows b s)) = map (\<lambda>r. feed_item_of (fs_decode_list S) [] b (format_uint (fr_id r)) r) rows"
  by (simp add: mapRowsToItems_def case_prod_beta)

lemma enriched_bare: "map bare (fst (enrichItems S items user s)) = map bare items"
  by (auto simp: enrichItems_def case_prod_beta Let_def split: option.split)

lemma with_state_bare:
  "withUserState S shared user s = (p, s1) \<Longrightarrow> map bare (fp_items p) = map bare (fp_items shared) \<and> fp_page p = fp_page shared \<and>
    fp_size p = fp_size shared \<and> fp_has_more p = fp_has_more shared"
  using enriched_bare[of S "fp_items shared" user s] by (auto simp: withUserState_def split: prod.splits)

lemma ids_of_bare: "map bare xs = map bare ys \<Longrightarrow> map fi_id xs = map fi_id ys"
proof -
  assume "map bare xs = map bare ys"
  then have "map fi_id (map bare xs) = map fi_id (map bare ys)" by simp
  then show ?thesis by (simp add: comp_def)
qed

section \<open>Statements\<close>

definition public_posts :: "post_tables \<Rightarrow> know_post list" where
  "public_posts t = newest_posts (filter (\<lambda>r. kp_status r = KnowPostStatusPublished \<and> kp_visible r = KnowPostVisibilityPublic) (pt_posts t))"

definition for_followers :: "know_post \<Rightarrow> bool" where
  "for_followers r = (kp_status r = KnowPostStatusPublished \<and> kp_visible r \<in> {KnowPostVisibilityPublic, KnowPostVisibilityFollowers})"

definition author_of :: "post_tables \<Rightarrow> know_post \<Rightarrow> user" where
  "author_of t r = the (find (\<lambda>u. us_id u = kp_creator r) (pt_users t))"

definition authors_known :: "post_tables \<Rightarrow> bool" where
  "authors_known t = list_all (\<lambda>r. list_ex (\<lambda>u. us_id u = kp_creator r) (pt_users t)) (pt_posts t)"

text \<open>The item of a post, without counts and marks.\<close>

definition post_item :: "'s feed_service \<Rightarrow> post_tables \<Rightarrow> know_post \<Rightarrow> feed_item" where
  "post_item S t r = feed_item_of (fs_decode_list S) [] False (format_uint (kp_id r)) (feed_row_of False r (author_of t r))"

text \<open>The post of an id, if followers may see it.\<close>

definition follower_post :: "post_tables \<Rightarrow> uint64 \<Rightarrow> know_post option" where
  "follower_post t i = find (\<lambda>r. kp_id r = i \<and> for_followers r) (pt_posts t)"

lemma set_newest [simp]: "set (newest_posts rs) = set rs" "length (newest_posts rs) = length rs"
  by (simp_all add: newest_posts_def)

lemma scanned:
  "authors_known t \<Longrightarrow> set rs \<subseteq> set (pt_posts t) \<Longrightarrow>
    scan_feed_rows b (pt_users t) rs = Inr (map (\<lambda>r. feed_row_of b r (author_of t r)) rs)"
proof (induction rs)
  case (Cons r rs)
  then have "r \<in> set (pt_posts t)" by simp
  then obtain u where "u \<in> set (pt_users t)" "us_id u = kp_creator r"
    using Cons.prems(1) by (auto simp: authors_known_def list_all_iff list_ex_iff)
  then have "find (\<lambda>u. us_id u = kp_creator r) (pt_users t) \<noteq> None" unfolding find_None_iff by blast
  then obtain v where v: "find (\<lambda>u. us_id u = kp_creator r) (pt_users t) = Some v" by blast
  with Cons show ?case by (simp add: author_of_def)
qed simp

lemma row_id [simp]: "fr_id (feed_row_of b r u) = kp_id r"
  by (simp add: feed_row_of_def)

lemma public_rows:
  assumes "authors_known t" "0 \<le> limit" "0 \<le> offset"
  shows "public_feed_sql limit offset t = Inr (map (\<lambda>r. feed_row_of False r (author_of t r)) (take (nat limit) (drop (nat offset) (public_posts t))))"
proof -
  have "set (take (nat limit) (drop (nat offset) (public_posts t))) \<subseteq> set (pt_posts t)"
    by (auto simp: public_posts_def dest!: in_set_takeD in_set_dropD)
  then show ?thesis using assms scanned by (simp add: public_feed_sql_def scan_page_def sql_page_def public_posts_def)
qed

section \<open>The world of a list\<close>

locale feed_world = cache_world "fs_redis S" view held time_left C + redis_up "fs_redis S" view + sql_database D +
    tables: redis_frame "fs_redis S" "db_tables D"
  for S :: "'s feed_service" and view held time_left C D +
  assumes pool: "fs_pool S = C" and db: "fs_db S = D" and incr_held: "held (r_incr (fs_redis S) k s) = held s"
    and stmt_up: "fst (db_stmt D s) = None"
    and l1_tables: "db_tables D (snd (l1_get C k s)) = db_tables D s"
    and chance: "x \<in> {snd (fs_jitter S n s), snd (fs_token S s)} \<Longrightarrow> view x = view s \<and> db_tables D x = db_tables D s"
    and codec: "fs_encode_item S i = Some raw \<Longrightarrow> fs_decode_item S raw = Some i"

context feed_world
begin

abbreviation (input) sent :: "'s \<Rightarrow> 's" where
  "sent s \<equiv> snd (r_net (fs_redis S) s)"

lemma call_up [simp]:
  "wr (fs_redis S) f s = (Inr (), f (sent s))" "rd (fs_redis S) g s = (Inr (g (sent s)), sent s)"
  "roundtrip (fs_redis S) h s = (Inr (fst (h (sent s))), snd (h (sent s)))"
  using delivered[of s] by (cases "r_net (fs_redis S) s"; simp add: wr_def rd_def roundtrip_def case_prod_beta)+

lemma read_up: "query_rows D q s = (q (db_tables D s), snd (db_stmt D s))"
  using stmt_up[of s] stmt_keeps[of s] by (auto simp: query_rows_def db_read_def split: prod.splits option.splits)

lemma feed_ttl_view [simp]: "view (snd (feed_ttl S a b s)) = view s"
  using chance[of _ b s] by (simp add: feed_ttl_def jitterN_def case_prod_beta)

subsection \<open>Writing fragments\<close>

lemma commands:
  "list_all (\<lambda>i. fs_encode_item S i \<noteq> None) items \<Longrightarrow> fragment_commands S items s = (cs, s1) \<Longrightarrow>
    map (\<lambda>c. (fst c, fst (snd c))) cs = map (\<lambda>i. (feedItemKey (fi_id i), the (fs_encode_item S i))) items \<and> view s1 = view s"
proof (induction items arbitrary: s cs s1)
  case (Cons i items)
  obtain raw where raw: "fs_encode_item S i = Some raw" using Cons.prems(1) by auto
  obtain ttl s2 where t: "feed_ttl S (fc_item_base (feed_config S)) (fc_item_jitter (feed_config S)) s = (ttl, s2)"
    by (cases "feed_ttl S (fc_item_base (feed_config S)) (fc_item_jitter (feed_config S)) s")
  obtain cs' s3 where r: "fragment_commands S items s2 = (cs', s3)" by (cases "fragment_commands S items s2")
  have "view s2 = view s" using feed_ttl_view[of "fc_item_base (feed_config S)" "fc_item_jitter (feed_config S)" s] t by simp
  then show ?case using Cons.IH[OF _ r] Cons.prems raw t r by auto
qed simp

lemma sets_view:
  "ks_list (view (fold (\<lambda>(k, raw, ttl). r_set (fs_redis S) k raw (Some ttl)) cs s)) = ks_list (view s)"
  "ks_str (view (fold (\<lambda>(k, raw, ttl). r_set (fs_redis S) k raw (Some ttl)) cs s)) = ks_str (view s) ++ map_of (rev (map (\<lambda>c. (fst c, fst (snd c))) cs))"
proof (induction cs arbitrary: s)
  case (Cons c cs)
  obtain k raw ttl where c: "c = (k, raw, ttl)" by (cases c)
  { case 1 then show ?case using Cons.IH(1) c by simp }
  { case 2 then show ?case using Cons.IH(2) c by (simp add: map_add_def fun_eq_iff split: option.split) }
qed simp_all

definition fragments :: "feed_item list \<Rightarrow> string \<rightharpoonup> string" where
  "fragments items = map_of (rev (map (\<lambda>i. (feedItemKey (fi_id i), the (fs_encode_item S i))) items))"

lemma items_written:
  assumes "list_all (\<lambda>i. fs_encode_item S i \<noteq> None) items"
  shows "ks_list (view (writeFeedItemCaches S items s)) = ks_list (view s)"
    "ks_str (view (writeFeedItemCaches S items s)) = ks_str (view s) ++ fragments items"
proof -
  obtain cs s1 where c: "fragment_commands S items s = (cs, s1)" by (cases "fragment_commands S items s")
  note e = commands[OF assms c]
  show "ks_list (view (writeFeedItemCaches S items s)) = ks_list (view s)"
    using c e by (simp add: writeFeedItemCaches_def sets_view)
  have n: "cs = [] \<longleftrightarrow> items = []" using arg_cong[OF conjunct1[OF e], of length] by (metis length_0_conv length_map)
  show "ks_str (view (writeFeedItemCaches S items s)) = ks_str (view s) ++ fragments items"
    using c e n by (cases "items = []") (simp_all add: writeFeedItemCaches_def sets_view fragments_def)
qed

lemma ids_written:
  assumes "rows \<noteq> []"
  shows "ks_list (view (writeFeedIDListCache S k rows hm s)) = (ks_list (view s))(k := ks_list (view s) k @ map (\<lambda>r. format_uint (fr_id r)) rows)"
    "ks_str (view (writeFeedIDListCache S k rows hm s)) = (ks_str (view s))(hasMoreKey k \<mapsto> boolToStr hm)"
  using assms by (simp_all add: writeFeedIDListCache_def Let_def case_prod_beta)

lemma no_fragment [simp]: "fragments items (hasMoreKey (publicFeedIDsKey v n p)) = None"
  by (auto simp: fragments_def map_of_eq_None_iff feedItemKey_def hasMoreKey_def publicFeedIDsKey_def)

lemma no_fragment_add [simp]: "(m ++ fragments items) (hasMoreKey (publicFeedIDsKey v n p)) = m (hasMoreKey (publicFeedIDsKey v n p))"
  by (simp add: map_add_def)

lemma fragment_of:
  assumes "distinct (map fi_id items)" "i \<in> set items"
  shows "fragments items (feedItemKey (fi_id i)) = Some (the (fs_encode_item S i))"
proof -
  have "inj feedItemKey" by (auto simp: inj_def feedItemKey_def)
  then have "distinct (map (\<lambda>i. feedItemKey (fi_id i)) items)" using assms(1) by (metis (no_types, lifting) comp_def distinct_map inj_on_subset map_map map_cong subset_UNIV)
  then show ?thesis using assms(2) unfolding fragments_def by (intro map_of_is_SomeI) (auto simp: comp_def rev_map[symmetric])
qed

subsection \<open>Reading them\<close>

definition assembled :: "keyspace \<Rightarrow> string \<Rightarrow> int \<Rightarrow> int \<Rightarrow> feed_page option" where
  "assembled ks k page sz =
    (let ids = take (nat sz) (ks_list ks k); frags = map (\<lambda>i. decode_fragment S (ks_str ks (feedItemKey i))) ids
     in if ids = [] \<or> list_ex (\<lambda>x. x = None) frags then None
        else Some \<lparr>fp_items = map the frags, fp_page = page, fp_size = sz,
          fp_has_more = (case ks_str ks (hasMoreKey k) of Some t \<Rightarrow> t = ''1'' | None \<Rightarrow> int (length frags) = sz)\<rparr>)"

lemma ex_map: "list_ex P (map f xs) = list_ex (P \<circ> f) xs"
  by (induction xs) auto

lemma map_filter_the: "\<not> list_ex (\<lambda>x. f x = None) xs \<Longrightarrow> List.map_filter f xs = map (the \<circ> f) xs"
  by (induction xs) (auto simp: List.map_filter_simps split: option.split)

lemma assemble_view: "fst (assembleFromCache S k page sz s) = assembled (view s) k page sz \<and> view (snd (assembleFromCache S k page sz s)) = view s"
proof -
  let ?ids = "take (nat sz) (ks_list (view s) k)"
  let ?raws = "map (\<lambda>i. ks_str (view s) (feedItemKey i)) ?ids"
  have f: "map (decode_fragment S) ?raws = map (\<lambda>i. decode_fragment S (ks_str (view s) (feedItemKey i))) ?ids" by (simp add: comp_def)
  have e: "list_ex (\<lambda>x. decode_fragment S x = None) ?raws \<longleftrightarrow> list_ex (\<lambda>x. x = None) (map (decode_fragment S) ?raws)"
    by (simp only: ex_map comp_def)
  show ?thesis
  proof (cases "?ids = [] \<or> list_ex (\<lambda>x. decode_fragment S x = None) ?raws")
    case True
    then show ?thesis using e unfolding f assembled_def by (auto simp: assembleFromCache_def Let_def)
  next
    case False
    then have "\<not> list_ex (\<lambda>x. decode_fragment S x = None) ?raws" by blast
    from map_filter_the[OF this] have "List.map_filter (decode_fragment S) ?raws = map the (map (decode_fragment S) ?raws)"
      by (simp only: map_map comp_assoc)
    then show ?thesis using False e unfolding f assembled_def by (simp add: assembleFromCache_def Let_def split: option.split)
  qed
qed

lemma assembledI:
  assumes "ks_list ks k = map fi_id xs @ rest" "length xs = nat sz \<or> rest = [] \<and> length xs \<le> nat sz" "xs \<noteq> []"
    and "\<And>i. i \<in> set xs \<Longrightarrow> decode_fragment S (ks_str ks (feedItemKey (fi_id i))) = Some i" "ks_str ks (hasMoreKey k) = Some (boolToStr hm)"
  shows "assembled ks k page sz = Some \<lparr>fp_items = xs, fp_page = page, fp_size = sz, fp_has_more = hm\<rparr>"
proof -
  have ids: "take (nat sz) (ks_list ks k) = map fi_id xs" using assms(1,2) by auto
  have fr: "map (\<lambda>i. decode_fragment S (ks_str ks (feedItemKey i))) (map fi_id xs) = map Some xs" using assms(4) by simp
  have "\<not> list_ex (\<lambda>x. x = None) (map Some xs)" "map the (map Some xs) = xs" by (simp_all add: list_ex_iff comp_def)
  then show ?thesis using assms(3,5) unfolding assembled_def ids Let_def fr by (simp add: boolToStr_def)
qed

text \<open>What a page holds after its fragments are written.\<close>

lemma written:
  assumes "map fi_id items = map (\<lambda>r. format_uint (fr_id r)) rows" "rows \<noteq> []" "list_all (\<lambda>i. fs_encode_item S i \<noteq> None) items"
  shows "ks_list (view (writeFragmentCaches S k rows items hm s)) = (ks_list (view s))(k := ks_list (view s) k @ map fi_id items)"
    "ks_str (view (writeFragmentCaches S k rows items hm s)) = (ks_str (view s))(hasMoreKey k \<mapsto> boolToStr hm) ++ fragments items"
  using assms by (simp_all add: writeFragmentCaches_def items_written ids_written)

lemma written_fragment:
  assumes "distinct (map fi_id items)" "list_all (\<lambda>i. fs_encode_item S i \<noteq> None) items" "i \<in> set items"
  shows "decode_fragment S ((m ++ fragments items) (feedItemKey (fi_id i))) = Some i"
proof -
  obtain raw where raw: "fs_encode_item S i = Some raw" using assms(2,3) by (auto simp: list_all_iff)
  then show ?thesis using fragment_of[OF assms(1,3)] codec[OF raw] by (simp add: decode_fragment_def)
qed

lemma read_back:
  assumes "map fi_id items = map (\<lambda>r. format_uint (fr_id r)) rows" "rows \<noteq> []" "list_all (\<lambda>i. fs_encode_item S i \<noteq> None) items"
    and "distinct (map fi_id items)" "k = publicFeedIDsKey v n p"
    and "ks_list (view s) k @ map fi_id items = map fi_id xs @ rest" "length xs = nat sz \<or> rest = [] \<and> length xs \<le> nat sz" "xs \<noteq> []" "set xs \<subseteq> set items"
  shows "fst (assembleFromCache S k page sz (writeFragmentCaches S k rows items hm s)) =
    Some \<lparr>fp_items = xs, fp_page = page, fp_size = sz, fp_has_more = hm\<rparr>"
proof -
  note w = written[OF assms(1-3), where k = "publicFeedIDsKey v n p" and hm = hm and s = s]
  have "assembled (view (writeFragmentCaches S k rows items hm s)) k page sz = Some \<lparr>fp_items = xs, fp_page = page, fp_size = sz, fp_has_more = hm\<rparr>"
    unfolding assms(5) using assms(6-9)[unfolded assms(5)] written_fragment[OF assms(4,3)] by (intro assembledI[where rest = rest]) (auto simp: w)
  then show ?thesis using assemble_view by simp
qed

text \<open>A fragment that expired before its list makes the page a miss.\<close>

lemma expired_fragment:
  assumes "ks_list (view s) k = map fi_id items" "int (length items) \<le> sz" "i \<in> set items" "ks_str (view s) (feedItemKey (fi_id i)) = None"
  shows "fst (assembleFromCache S k page sz s) = None"
proof -
  have "take (nat sz) (ks_list (view s) k) = map fi_id items" using assms(1,2) by simp
  moreover have "list_ex (\<lambda>x. x = None) (map (\<lambda>i. decode_fragment S (ks_str (view s) (feedItemKey i))) (map fi_id items))"
    using assms(3,4) unfolding list_ex_iff by (intro bexI[of _ None]) (force simp: decode_fragment_def)+
  ultimately have "assembled (view s) k page sz = None" by (simp add: assembled_def)
  then show ?thesis using assemble_view by simp
qed

text \<open>A second page that shares the posts of the first keeps its list and shows the fragments written last.\<close>

lemma last_writer:
  assumes "map fi_id items = map (\<lambda>r. format_uint (fr_id r)) rows" "rows \<noteq> []" "list_all (\<lambda>i. fs_encode_item S i \<noteq> None) items"
    and "map fi_id items' = map (\<lambda>r. format_uint (fr_id r)) rows'" "rows' \<noteq> []" "list_all (\<lambda>i. fs_encode_item S i \<noteq> None) items'"
    and "map fi_id items' = map fi_id items" "distinct (map fi_id items)" "length items \<le> nat sz"
    and "k = publicFeedIDsKey v n p" "k' = publicFeedIDsKey v' n' p'" "k \<noteq> k'" "ks_list (view s) k = []"
  shows "fst (assembleFromCache S k page sz (writeFragmentCaches S k' rows' items' hm' (writeFragmentCaches S k rows items hm s))) =
    Some \<lparr>fp_items = items', fp_page = page, fp_size = sz, fp_has_more = hm\<rparr>"
proof -
  let ?s = "writeFragmentCaches S k rows items hm s"
  note w = written[OF assms(1-3), where k = k and hm = hm and s = s] and w' = written[OF assms(4-6), where k = k' and hm = hm' and s = ?s]
  note nf = no_fragment_add[of _ _ v n p, folded assms(10)]
  have d: "distinct (map fi_id items')" using assms(7,8) by simp
  have l: "length items' = length items" using arg_cong[OF assms(7), of length] by simp
  have h: "hasMoreKey k \<noteq> hasMoreKey k'" using assms(12) by (simp add: hasMoreKey_def)
  have "assembled (view (writeFragmentCaches S k' rows' items' hm' ?s)) k page sz = Some \<lparr>fp_items = items', fp_page = page, fp_size = sz, fp_has_more = hm\<rparr>"
  proof (rule assembledI[where rest = "[]"])
    show "ks_list (view (writeFragmentCaches S k' rows' items' hm' ?s)) k = map fi_id items' @ []" using assms(7,12,13) by (simp add: w w')
    show "length items' = nat sz \<or> [] = [] \<and> length items' \<le> nat sz" using assms(9) l by simp
    show "items' \<noteq> []" using assms(4,5) by (metis list.map_disc_iff)
    show "decode_fragment S (ks_str (view (writeFragmentCaches S k' rows' items' hm' ?s)) (feedItemKey (fi_id i))) = Some i" if "i \<in> set items'" for i
      using written_fragment[OF d assms(6) that] by (simp add: w')
    show "ks_str (view (writeFragmentCaches S k' rows' items' hm' ?s)) (hasMoreKey k) = Some (boolToStr hm)" using h by (simp add: w w' nf)
  qed
  then show ?thesis using assemble_view by simp
qed

section \<open>Reading the public list\<close>

lemma load_rule:
  assumes "fs_counter S = Some c" "authors_known (db_tables D s)" "0 < sz" "1 \<le> page" "load_public_feed S k pk page sz user s = (r, s1)"
  shows "\<exists>p. r = Inr p \<and> map bare (fp_items p) = map (post_item S (db_tables D s)) (take (nat sz) (drop (nat ((page - 1) * sz)) (public_posts (db_tables D s)))) \<and>
    fp_page p = page \<and> fp_size p = sz \<and> fp_has_more p = (page * sz < int (length (public_posts (db_tables D s))))"
proof -
  let ?t = "db_tables D s" and ?off = "(page - 1) * sz" and ?s = "snd (db_stmt D s)"
  let ?posts = "drop (nat ((page - 1) * sz)) (public_posts (db_tables D s))"
  define all where "all = map (\<lambda>r. feed_row_of False r (author_of ?t r)) (take (nat (sz + 1)) ?posts)"
  have off: "0 \<le> ?off" using assms(3,4) by simp
  have q: "ListFeedPublic (fs_db S) (sz + 1) ?off s = (Inr all, ?s)"
    unfolding ListFeedPublic_def db read_up all_def using public_rows[OF assms(2), of "sz + 1" ?off] assms(3) off by simp
  define rows where "rows = (if sz < int (length all) then take (nat sz) all else all)"
  have rows: "rows = map (\<lambda>r. feed_row_of False r (author_of ?t r)) (take (nat sz) ?posts)"
    using assms(3) by (auto simp: rows_def all_def take_map min_def)
  obtain items s2 where m: "mapRowsToItems S rows False ?s = (items, s2)" by (cases "mapRowsToItems S rows False ?s")
  have b: "map bare items = map (post_item S ?t) (take (nat sz) ?posts)"
    using mapped_bare[OF assms(1), of rows False ?s] m unfolding rows by (simp add: post_item_def comp_def)
  let ?p = "\<lparr>fp_items = items, fp_page = page, fp_size = sz, fp_has_more = sz < int (length all)\<rparr>"
  obtain p s3 where p: "withUserState S ?p user (cacheFeedPage S pk ?p (writeFragmentCaches S k rows items (sz < int (length all)) s2)) = (p, s3)"
    by (cases "withUserState S ?p user (cacheFeedPage S pk ?p (writeFragmentCaches S k rows items (sz < int (length all)) s2))")
  have "r = Inr p" using assms(5) q m p rows_def by (simp add: load_public_feed_def Let_def)
  moreover have "sz < int (length all) \<longleftrightarrow> page * sz < int (length (public_posts ?t))"
  proof -
    obtain n where n: "sz = int n" using assms(3) nonneg_int_cases[of sz] by auto
    obtain m where m: "?off = int m" using off nonneg_int_cases by blast
    have l: "length all = min (n + 1) (length (public_posts ?t) - m)" by (simp add: all_def m[unfolded n] n nat_add_distrib min.commute)
    have "page * sz = int (m + n)" using m n by (simp add: algebra_simps)
    then show ?thesis unfolding l using n by (simp only: of_nat_less_iff) linarith
  qed
  ultimately show ?thesis using with_state_bare[OF p] b by simp
qed

definition cold :: "string \<Rightarrow> string \<Rightarrow> 's \<Rightarrow> bool" where
  "cold k pk s = (ks_list (view s) k = [] \<and> held s (fs_public_prefix S @ pk) = None \<and> \<not> ks_exists (lockKeyFor k) (view s))"

lemma nothing_assembled: "ks_list (view s) k = [] \<Longrightarrow> assembleFromCache S k page sz s = (None, sent s)"
  by (simp add: assembleFromCache_def)

lemma load_under_lock:
  assumes "ks_list (view s) k = []" "\<not> ks_exists (lockKeyFor k) (view s)"
  shows "\<exists>s1 s2. getPublicFeedUnderLock S k pk page sz user s = Some (fst (load_public_feed S k pk page sz user s1), s2) \<and> db_tables D s1 = db_tables D s"
proof -
  let ?R = "fs_redis S" and ?lk = "lockKeyFor k"
  obtain tok s1 where tok: "fs_token S s = (tok, s1)" by (cases "fs_token S s")
  have 1: "view s1 = view s" "db_tables D s1 = db_tables D s" using chance[of s1 _ s] tok by simp_all
  let ?s2 = "r_set ?R ?lk tok (Some (lo_ttl (normalized knowPostLockOptions))) (sent s1)"
  let ?l = "\<lparr>lk_key = ?lk, lk_token = tok, lk_options = normalized knowPostLockOptions\<rparr>"
  have acq: "try_acquire ?R ?lk knowPostLockOptions tok s1 = (Inr (Some ?l), ?s2)"
    using assms(2) 1 by (simp add: try_acquire_def Let_def set_nx_def)
  have check: "check_public_feed S k pk page sz user ?s2 = (Inr None, sent ?s2)"
    using nothing_assembled[of ?s2 k] assms(1) 1 by (simp add: check_public_feed_def)
  have "db_tables D (sent ?s2) = db_tables D s" using 1(2) by simp
  moreover have "\<exists>s3. getPublicFeedUnderLock S k pk page sz user s = Some (fst (load_public_feed S k pk page sz user (sent ?s2)), s3)"
    unfolding getPublicFeedUnderLock_def by (subst cache_read_through.simps) (simp add: tok acq check case_prod_beta)
  ultimately show ?thesis by blast
qed

lemma cold_page:
  assumes "fs_counter S = Some c" "authors_known (db_tables D s1)" "0 < fc_safe_size (feed_config S)"
    and "sz = clamp size0 1 (fc_safe_size (feed_config S))" "page = clamp page0 1 maxPublicFeedPage"
    and "get_version (feedVersions S) publicFeedVersionKey s = (version, s1)"
    and "cold (publicFeedIDsKey version sz page) (publicFeedPageLocalKey sz page version) s1"
  shows "\<exists>p s'. GetPublicFeed S page0 size0 user s = Some (Inr p, s') \<and>
    map bare (fp_items p) = map (post_item S (db_tables D s1)) (take (nat sz) (drop (nat ((page - 1) * sz)) (public_posts (db_tables D s1)))) \<and>
    fp_page p = page \<and> fp_size p = sz \<and> fp_has_more p = (page * sz < int (length (public_posts (db_tables D s1))))"
proof -
  let ?k = "publicFeedIDsKey version sz page" and ?pk = "publicFeedPageLocalKey sz page version"
  have b: "0 < sz" "1 \<le> page" using assms(3-5) by (simp_all add: clamp_def maxPublicFeedPage_def)
  obtain x s2 where x: "l1_get C (fs_public_prefix S @ ?pk) s1 = (x, s2)" by (cases "l1_get C (fs_public_prefix S @ ?pk) s1")
  have 2: "x = None" "view s2 = view s1" "db_tables D s2 = db_tables D s1"
    using l1_get_entry[OF x] l1_get_keeps[of "fs_public_prefix S @ ?pk" s1] l1_tables[of "fs_public_prefix S @ ?pk" s1] x assms(7) by (auto simp: cold_def)
  have l1: "getPublicFeedL1 S ?pk user s1 = (None, s2)"
    using x 2(1) by (simp add: getPublicFeedL1_def l1_public_def prefix_cache_def prefixed_def pool)
  have l2: "getPublicFeedL2 S ?k page sz user ?pk s2 = (None, sent s2)"
    using nothing_assembled[of s2 ?k] assms(7) 2 by (simp add: getPublicFeedL2_def cold_def)
  obtain s3 s4 where lock: "getPublicFeedUnderLock S ?k ?pk page sz user (sent s2) = Some (fst (load_public_feed S ?k ?pk page sz user s3), s4)"
      "db_tables D s3 = db_tables D s1"
    using load_under_lock[of "sent s2" ?k ?pk page sz user] assms(7) 2 by (auto simp: cold_def)
  obtain r s5 where r: "load_public_feed S ?k ?pk page sz user s3 = (r, s5)" by (cases "load_public_feed S ?k ?pk page sz user s3")
  have t: "authors_known (db_tables D s3)" using assms(2) lock(2) by simp
  have "GetPublicFeed S page0 size0 user s = Some (r, s4)"
    unfolding GetPublicFeed_def Let_def assms(4)[symmetric] assms(5)[symmetric] using assms(6) l1 l2 lock(1) r by simp
  then show ?thesis using load_rule[OF assms(1) t b r] unfolding lock(2) by blast
qed

section \<open>Changes\<close>

lemma versions_sel [simp]:
  "vs_local (newFeedVersions R (Some p)) = Some p" "vs_redis (newFeedVersions R x) = Some R" "vs_local_ttl (newFeedVersions R x) = 2"
  "vs_prefix (newFeedVersions R x) = ''fv:''" "vs_default (newFeedVersions R x) = 1"
  by (simp_all add: newFeedVersions_def)

lemma feed_keys_apart [simp]:
  "publicFeedVersionKey \<noteq> mineFeedVersionKey u" "mineFeedVersionKey u \<noteq> publicFeedVersionKey"
  "feedItemKeyU i \<noteq> publicFeedVersionKey" "publicFeedVersionKey \<noteq> feedItemKeyU i"
  "feedItemKeyU i \<noteq> mineFeedVersionKey u" "mineFeedVersionKey u \<noteq> feedItemKeyU i"
  by (simp_all add: publicFeedVersionKey_def mineFeedVersionKey_def feedItemKeyU_def)

lemma fresh_version:
  assumes "held s (''fv:'' @ k) = None"
  shows "fst (get_version (feedVersions S) k s) = (case stored_version (ks_str (view s) k) of None \<Rightarrow> 1 | Some n \<Rightarrow> n)"
proof -
  obtain x s1 where x: "l1_get C (''fv:'' @ k) s = (x, s1)" by (cases "l1_get C (''fv:'' @ k) s")
  have "x = None" "view s1 = view s" using l1_get_entry[OF x] assms l1_get_keeps[of "''fv:'' @ k" s] x by auto
  then show ?thesis using x by (simp add: get_version_def feedVersions_def local_version_def read_version_def pool split: option.split)
qed

lemma after_change:
  assumes "s' = InvalidateAfterPostMutation S i creator s"
  shows "view s' = ks_incr (mineFeedVersionKey creator) (ks_incr publicFeedVersionKey (ks_del (feedItemKeyU i) (view s)))"
    "held s' (''fv:'' @ publicFeedVersionKey) = None" "held s' (''fv:'' @ mineFeedVersionKey creator) = None"
proof -
  let ?s1 = "invalidate_feed_script (fs_redis S) (feedItemKeyU i) publicFeedVersionKey (mineFeedVersionKey creator) (sent s)"
  let ?s2 = "l1_del C (''fv:'' @ publicFeedVersionKey) ?s1"
  have e: "s' = l1_del C (''fv:'' @ mineFeedVersionKey creator) ?s2"
    using assms by (simp add: InvalidateAfterPostMutation_def feedVersions_def drop_version_def pool)
  show "view s' = ks_incr (mineFeedVersionKey creator) (ks_incr publicFeedVersionKey (ks_del (feedItemKeyU i) (view s)))"
    unfolding e using l1_del_keeps by (simp add: invalidate_feed_script_def)
  show "held s' (''fv:'' @ mineFeedVersionKey creator) = None" unfolding e using l1_del_entry by blast
  have "held ?s2 (''fv:'' @ publicFeedVersionKey) = None" using l1_del_entry by blast
  then show "held s' (''fv:'' @ publicFeedVersionKey) = None"
    unfolding e using l1_del_entry[of "''fv:'' @ mineFeedVersionKey creator" ?s2 "''fv:'' @ publicFeedVersionKey"] by auto
qed

lemma stored_next:
  assumes "case v of None \<Rightarrow> True | Some n \<Rightarrow> 0 < n \<and> in_int64 (n + 1)"
  shows "stored_version (Some (format_int ((case v of None \<Rightarrow> 0 | Some n \<Rightarrow> n) + 1))) = Some ((case v of None \<Rightarrow> 0 | Some n \<Rightarrow> n) + 1)"
  using assms parse_format_int[of 1] by (cases v) (auto simp: stored_version_def in_int64_def int64_min_def int64_max_def)

lemma moved_on:
  assumes "s' = InvalidateAfterPostMutation S i creator s" "k \<in> {publicFeedVersionKey, mineFeedVersionKey creator}"
    and "ks_str (view s) k = map_option format_int v" "case v of None \<Rightarrow> True | Some n \<Rightarrow> 0 < n \<and> in_int64 (n + 1)"
  shows "fst (get_version (feedVersions S) k s') = (case v of None \<Rightarrow> 1 | Some n \<Rightarrow> n + 1)" "ks_str (view s') (feedItemKeyU i) = None"
    "ks_list (view s') k' = (if k' = feedItemKeyU i then [] else ks_list (view s) k')"
proof -
  note a = after_change[OF assms(1)]
  have "held s' (''fv:'' @ k) = None" using a(2,3) assms(2) by auto
  moreover have "ks_str (view s') k = Some (format_int ((case v of None \<Rightarrow> 0 | Some n \<Rightarrow> n) + 1))"
    using assms(2,3) by (auto simp: a(1) str_int_def split: option.splits)
  ultimately show "fst (get_version (feedVersions S) k s') = (case v of None \<Rightarrow> 1 | Some n \<Rightarrow> n + 1)"
    using fresh_version stored_next[OF assms(4)] by (simp split: option.splits)
  show "ks_str (view s') (feedItemKeyU i) = None" "ks_list (view s') k' = (if k' = feedItemKeyU i then [] else ks_list (view s) k')"
    by (simp_all add: a(1))
qed

section \<open>The home list\<close>

lemma home_rows:
  assumes "authors_known (db_tables D s)" "ids \<noteq> []"
  shows "\<exists>rs s1. FindFeedRowsByIDs D ids [KnowPostVisibilityPublic, KnowPostVisibilityFollowers] s =
      (Inr (map (\<lambda>r. feed_row_of False r (author_of (db_tables D s) r)) rs), s1) \<and>
    set rs = {r \<in> set (pt_posts (db_tables D s)). kp_id r \<in> set ids \<and> for_followers r}"
proof -
  let ?t = "db_tables D s"
  let ?rs = "newest_posts (filter (\<lambda>r. kp_id r \<in> set ids \<and> kp_status r = KnowPostStatusPublished \<and>
      kp_visible r \<in> set [KnowPostVisibilityPublic, KnowPostVisibilityFollowers]) (pt_posts ?t))"
  have "scan_feed_rows False (pt_users ?t) ?rs = Inr (map (\<lambda>r. feed_row_of False r (author_of ?t r)) ?rs)"
    by (rule scanned[OF assms(1)]) auto
  then have "FindFeedRowsByIDs D ids [KnowPostVisibilityPublic, KnowPostVisibilityFollowers] s =
      (Inr (map (\<lambda>r. feed_row_of False r (author_of ?t r)) ?rs), snd (db_stmt D s))"
    using assms(2) by (simp add: FindFeedRowsByIDs_def read_up feed_by_ids_sql_def scan_page_def)
  moreover have "set ?rs = {r \<in> set (pt_posts ?t). kp_id r \<in> set ids \<and> for_followers r}"
    by (auto simp: for_followers_def)
  ultimately show ?thesis by blast
qed

end

lemma map_filter_cong: "(\<And>x. x \<in> set xs \<Longrightarrow> f x = g x) \<Longrightarrow> List.map_filter f xs = List.map_filter g xs"
  by (induction xs) (auto simp: List.map_filter_simps split: option.split)

lemma map_map_filter: "map h (List.map_filter f xs) = List.map_filter (\<lambda>x. map_option h (f x)) xs"
  by (induction xs) (auto simp: List.map_filter_simps split: option.split)

text \<open>Ids are unique, so a row is found under its id.\<close>

lemma row_found:
  assumes "distinct (map kp_id (pt_posts t))" "set rs = {r \<in> set (pt_posts t). kp_id r \<in> set ids \<and> for_followers r}" "i \<in> set ids"
  shows "map_of (rev (map (\<lambda>r. (fr_id r, r)) (map (\<lambda>r. feed_row_of False r (author_of t r)) rs))) i =
    map_option (\<lambda>r. feed_row_of False r (author_of t r)) (follower_post t i)"
    (is "map_of ?m i = _")
proof -
  have one: "r = r'" if "r \<in> set (pt_posts t)" "r' \<in> set (pt_posts t)" "kp_id r = kp_id r'" for r r'
    using that assms(1) by (auto simp: distinct_map dest: inj_onD)
  show ?thesis
  proof (cases "follower_post t i")
    case None
    then have "map_of ?m i = None" using assms(2) by (auto simp: follower_post_def find_None_iff map_of_eq_None_iff)
    with None show ?thesis by simp
  next
    case (Some r)
    then have r: "r \<in> set (pt_posts t)" "kp_id r = i" "for_followers r" by (auto simp: follower_post_def find_Some_iff)
    then have "(i, feed_row_of False r (author_of t r)) \<in> set ?m" using assms(2,3) by force
    then have "i \<in> fst ` set ?m" by (rule rev_image_eqI) (simp only: fst_conv)
    then have "map_of ?m i \<noteq> None" by (simp only: map_of_eq_None_iff not_not)
    then obtain x where x: "map_of ?m i = Some x" by blast
    then obtain r' where r': "r' \<in> set rs" "kp_id r' = i" "x = feed_row_of False r' (author_of t r')" by (auto dest!: map_of_SomeD)
    then have "r' = r" using one[of r' r] r assms(2) by auto
    with x r' Some show ?thesis by simp
  qed
qed

context feed_world
begin

lemma home_page:
  assumes "fs_counter S = Some c" "fs_home S = Some reader" "reader u cursor (clamp size0 1 (fc_safe_size (feed_config S))) s = (Inr (ids, next_cursor, hm), s1)"
    and "authors_known (db_tables D s1)" "distinct (map kp_id (pt_posts (db_tables D s1)))"
  shows "\<exists>h s'. GetHomeFeed S u cursor size0 s = (Inr h, s') \<and>
    map bare (hf_items h) = map (post_item S (db_tables D s1)) (List.map_filter (follower_post (db_tables D s1)) ids) \<and>
    hf_next_cursor h = (if ids = [] then [] else next_cursor) \<and> hf_has_more h = (ids \<noteq> [] \<and> hm)"
proof (cases "ids = []")
  case True
  then show ?thesis using assms(2,3) by (simp add: GetHomeFeed_def Let_def empty_home_def List.map_filter_simps)
next
  case False
  let ?sz = "clamp size0 1 (fc_safe_size (feed_config S))" and ?t = "db_tables D s1"
  let ?row = "\<lambda>r. feed_row_of False r (author_of ?t r)"
  obtain rs s2 where q: "FindFeedRowsByIDs (fs_db S) ids [KnowPostVisibilityPublic, KnowPostVisibilityFollowers] s1 = (Inr (map ?row rs), s2)"
      "set rs = {r \<in> set (pt_posts ?t). kp_id r \<in> set ids \<and> for_followers r}"
    using home_rows[OF assms(4) False] unfolding db by blast
  let ?rows = "reorderRowsByIDs (map ?row rs) ids"
  have rows: "?rows = map ?row (List.map_filter (follower_post ?t) ids)"
    unfolding reorderRowsByIDs_def map_map_filter by (rule map_filter_cong) (rule row_found[OF assms(5) q(2)])
  obtain items s3 where m: "mapRowsToItems S ?rows False s2 = (items, s3)" by (cases "mapRowsToItems S ?rows False s2")
  let ?p = "\<lparr>fp_items = items, fp_page = 1, fp_size = ?sz, fp_has_more = hm\<rparr>"
  obtain p s4 where p: "withUserState S ?p (Some u) s3 = (p, s4)" by (cases "withUserState S ?p (Some u) s3")
  have "map bare (fp_items p) = map (post_item S ?t) (List.map_filter (follower_post ?t) ids)"
    using with_state_bare[OF p] mapped_bare[OF assms(1), of ?rows False s2] m unfolding rows by (simp add: comp_def post_item_def)
  moreover have "GetHomeFeed S u cursor size0 s = (Inr \<lparr>hf_items = fp_items p, hf_next_cursor = next_cursor, hf_has_more = hm\<rparr>, s4)"
    using assms(2,3) False q(1) m p by (simp add: GetHomeFeed_def Let_def)
  ultimately show ?thesis using False by simp
qed

end

section \<open>A world\<close>

text \<open>Two public posts and a draft of one author; nothing is liked.\<close>

definition feed_post :: "uint64 \<Rightarrow> string \<Rightarrow> int \<Rightarrow> know_post" where
  "feed_post i st t = (blank_post i 7)\<lparr>kp_status := st, kp_visible := KnowPostVisibilityPublic, kp_publish_time := Some t\<rparr>"

definition feed_tables :: post_tables where
  "feed_tables = \<lparr>pt_posts = [feed_post 5 KnowPostStatusPublished 10, feed_post 6 KnowPostStatusPublished 20, feed_post 8 KnowPostStatusDraft 30],
     pt_users = [post_author], pt_outbox = []\<rparr>"

definition nothing_liked :: "'s feed_engagement" where
  "nothing_liked = \<lparr>fe_counts = (\<lambda>et ids ms s. (Inr [], s)), fe_liked = (\<lambda>u et ids s. (Inr [], s)), fe_faved = (\<lambda>u et ids s. (Inr [], s))\<rparr>"

definition shown_item :: "uint64 \<Rightarrow> feed_item" where
  "shown_item i = \<lparr>fi_id = format_uint i, fi_title = None, fi_description = None, fi_cover = None, fi_tags = [], fi_author_avatar = None,
     fi_author_nickname = ''ann'', fi_tag_json = None, fi_like_count = 0, fi_favorite_count = 0, fi_liked = None, fi_faved = None, fi_is_top = None\<rparr>"

definition old_item :: feed_item where
  "old_item = (shown_item 5)\<lparr>fi_title := Some ''old''\<rparr>"

definition item_code :: "feed_item \<Rightarrow> string option" where
  "item_code i = (if i = shown_item 5 then Some ''a'' else if i = shown_item 6 then Some ''b'' else if i = old_item then Some ''c'' else None)"

definition item_decode :: "string \<Rightarrow> feed_item option" where
  "item_decode t = (if t = ''a'' then Some (shown_item 5) else if t = ''b'' then Some (shown_item 6) else if t = ''c'' then Some old_item else None)"

definition mem_feeds :: "detail_mem feed_service" where
  "mem_feeds = \<lparr>fs_db = detail_db, fs_redis = detail_redis, fs_pool = detail_pool, fs_public_prefix = ''fp:'', fs_mine_prefix = ''fm:'',
     fs_hotkey = None, fs_counter = Some nothing_liked, fs_cfg = None, fs_home = Some (\<lambda>u cursor n s. (Inr ([6, 8, 5], ''next'', True), s)),
     fs_encode_item = item_code, fs_decode_item = item_decode, fs_encode_page = (\<lambda>p. None), fs_decode_page = (\<lambda>t. None),
     fs_decode_list = (\<lambda>t. Some []), fs_jitter = (\<lambda>n s. (0, s)), fs_token = (\<lambda>s. (''t'', s)), fs_wait = (\<lambda>s. (False, s))\<rparr>"

interpretation mem_feed: feed_world mem_feeds detail_view "\<lambda>s. snd (fst (fst s))" "\<lambda>s. fst (snd (fst s))" detail_pool detail_db
proof -
  have sel: "fs_redis mem_feeds = detail_redis" by (simp add: mem_feeds_def)
  have c: "cache_world detail_redis detail_view (\<lambda>s. snd (fst (fst s))) (\<lambda>s. fst (snd (fst s))) detail_pool"
    and up: "redis_up detail_redis detail_view" and d: "sql_database detail_db" and f: "redis_frame detail_redis (db_tables detail_db)"
    using mem_detail.detail_world_axioms unfolding detail_world_def by (simp_all add: mem_details_def)
  have i: "item_code i = Some raw \<Longrightarrow> item_decode raw = Some i" for i raw by (auto simp: item_code_def item_decode_def split: if_splits)
  show "feed_world mem_feeds detail_view (\<lambda>s. snd (fst (fst s))) (\<lambda>s. fst (snd (fst s))) detail_pool detail_db"
    unfolding feed_world_def sel using c up d f i
    by (simp add: feed_world_axioms_def mem_feeds_def detail_db_def detail_pool_def detail_redis_def on_first_def case_prod_beta)
qed

definition feed_start :: detail_mem where
  "feed_start = ((((empty_keyspace, []), (\<lambda>_. None)), snd (fst detail_start)), feed_tables)"

definition row_of :: "uint64 \<Rightarrow> feed_row" where
  "row_of i = feed_row_of False (feed_post i KnowPostStatusPublished 10) post_author"

lemma feed_start_parts [simp]:
  "detail_view feed_start = empty_keyspace" "fst (fst (fst (fst feed_start))) = empty_keyspace" "snd (fst (fst feed_start)) = (\<lambda>_. None)" "db_tables detail_db feed_start = feed_tables"
  "ks_list empty_keyspace k = []" "ks_str empty_keyspace k = None"
  by (simp_all add: feed_start_def detail_db_def empty_keyspace_def)

lemma item_codes [simp]: "item_code (shown_item 5) = Some ''a''" "item_code (shown_item 6) = Some ''b''" "item_code old_item = Some ''c''"
  by (simp_all add: item_code_def old_item_def shown_item_def)

lemma mem_feeds_sel [simp]:
  "fs_encode_item mem_feeds = item_code" "fs_counter mem_feeds = Some nothing_liked" "fc_safe_size (feed_config mem_feeds) = 50"
  "fr_id (row_of i) = i" "fi_id (shown_item i) = format_uint i" "fi_id old_item = format_uint 5"
  by (simp_all add: mem_feeds_def feed_config_def feedCacheConfig_def feed_defaults_def zero_feed_config_def or_default_def row_of_def
    feed_post_def blank_post_def shown_item_def old_item_def)

lemma feed_authors: "authors_known feed_tables"
  by (simp add: authors_known_def feed_tables_def feed_post_def blank_post_def post_author_def)


section \<open>Properties\<close>



text \<open>
  The fragments of a page that no one had cached give back exactly the page that was
  written: its items in their order and whether there is more.
\<close>

theorem written_page_reads_back:
  assumes "feed_world S view held time_left C D" "map fi_id items = map (\<lambda>r. format_uint (fr_id r)) rows" "rows \<noteq> []"
    and "list_all (\<lambda>i. fs_encode_item S i \<noteq> None) items" "distinct (map fi_id items)" "int (length items) \<le> sz"
    and "ks_list (view s) (publicFeedIDsKey version sz page) = []"
  shows "fst (assembleFromCache S (publicFeedIDsKey version sz page) page sz (writeFragmentCaches S (publicFeedIDsKey version sz page) rows items hm s)) =
    Some \<lparr>fp_items = items, fp_page = page, fp_size = sz, fp_has_more = hm\<rparr>"
proof -
  have "items \<noteq> []" using assms(2,3) by auto
  with assms(6,7) show ?thesis by (intro feed_world.read_back[OF assms(1-5) refl, where rest = "[]"]) auto
qed

theorem written_page_reads_back_witness:
  "fst (assembleFromCache mem_feeds (publicFeedIDsKey 1 2 1) 1 2
     (writeFragmentCaches mem_feeds (publicFeedIDsKey 1 2 1) [row_of 6, row_of 5] [shown_item 6, shown_item 5] False feed_start)) =
   Some \<lparr>fp_items = [shown_item 6, shown_item 5], fp_page = 1, fp_size = 2, fp_has_more = False\<rparr>"
  by (rule written_page_reads_back[OF mem_feed.feed_world_axioms]) simp_all

text \<open>
  C40: a fragment that expires before the list of ids of its page makes the page a miss, and
  the load that follows appends the ids to the list that is still there, which nothing
  clears: a page that is at most half full then shows every post twice. Redis answers, the
  items have distinct ids and can be encoded.
\<close>

theorem second_load_repeats_short_page:
  assumes "feed_world S view held time_left C D" "map fi_id items = map (\<lambda>r. format_uint (fr_id r)) rows"
    and "list_all (\<lambda>i. fs_encode_item S i \<noteq> None) items" "distinct (map fi_id items)" "2 * int (length items) \<le> sz"
    and "ks_list (view s) (publicFeedIDsKey version sz page) = map fi_id items" "i \<in> set items" "ks_str (view s) (feedItemKey (fi_id i)) = None"
  shows "fst (assembleFromCache S (publicFeedIDsKey version sz page) page sz s) = None \<and>
    fst (assembleFromCache S (publicFeedIDsKey version sz page) page sz (writeFragmentCaches S (publicFeedIDsKey version sz page) rows items hm s)) =
      Some \<lparr>fp_items = items @ items, fp_page = page, fp_size = sz, fp_has_more = hm\<rparr>"
proof
  have r: "rows \<noteq> []" "items \<noteq> []" using assms(2,7) by auto
  show "fst (assembleFromCache S (publicFeedIDsKey version sz page) page sz s) = None"
    using assms(5) by (intro feed_world.expired_fragment[OF assms(1,6) _ assms(7,8)]) simp
  show "fst (assembleFromCache S (publicFeedIDsKey version sz page) page sz (writeFragmentCaches S (publicFeedIDsKey version sz page) rows items hm s)) =
      Some \<lparr>fp_items = items @ items, fp_page = page, fp_size = sz, fp_has_more = hm\<rparr>"
    using assms(5,6) r by (intro feed_world.read_back[OF assms(1,2) r(1) assms(3,4) refl, where rest = "[]"]) auto
qed

theorem second_load_repeats_short_page_witness:
  "fst (assembleFromCache mem_feeds (publicFeedIDsKey 1 10 1) 1 10
     (writeFragmentCaches mem_feeds (publicFeedIDsKey 1 10 1) [row_of 5] [shown_item 5] False
       (r_del detail_redis (feedItemKeyU 5) (writeFragmentCaches mem_feeds (publicFeedIDsKey 1 10 1) [row_of 5] [shown_item 5] False feed_start)))) =
   Some \<lparr>fp_items = [shown_item 5, shown_item 5], fp_page = 1, fp_size = 10, fp_has_more = False\<rparr>"
proof -
  let ?s = "writeFragmentCaches mem_feeds (publicFeedIDsKey 1 10 1) [row_of 5] [shown_item 5] False feed_start"
  have k: "feedItemKeyU 5 \<noteq> publicFeedIDsKey 1 10 1" by (simp add: feedItemKeyU_def publicFeedIDsKey_def)
  have "ks_list (detail_view ?s) (publicFeedIDsKey 1 10 1) = map fi_id [shown_item 5]"
    by (subst mem_feed.written(1)) simp_all
  then have l: "ks_list (detail_view (r_del detail_redis (feedItemKeyU 5) ?s)) (publicFeedIDsKey 1 10 1) = map fi_id [shown_item 5]"
    using k by (simp add: detail_redis_def on_first_def)
  have i: "ks_str (detail_view (r_del detail_redis (feedItemKeyU 5) ?s)) (feedItemKey (fi_id (shown_item 5))) = None"
    by (simp add: detail_redis_def on_first_def feedItemKey_def feedItemKeyU_def)
  show ?thesis
    using second_load_repeats_short_page[OF mem_feed.feed_world_axioms _ _ _ _ l _ i, of "[row_of 5]" False] by simp
qed

text \<open>
  The fragments carry no version. A load of an older version that ends after the page
  of a newer version was written puts its old items into the new page.
\<close>

theorem late_load_spoils_new_page:
  assumes "feed_world S view held time_left C D" "map fi_id items = map (\<lambda>r. format_uint (fr_id r)) rows" "rows \<noteq> []"
    and "list_all (\<lambda>i. fs_encode_item S i \<noteq> None) items" "map fi_id old_items = map (\<lambda>r. format_uint (fr_id r)) old_rows" "old_rows \<noteq> []"
    and "list_all (\<lambda>i. fs_encode_item S i \<noteq> None) old_items" "map fi_id old_items = map fi_id items" "distinct (map fi_id items)"
    and "int (length items) \<le> sz" "old_version < new_version" "ks_list (view s) (publicFeedIDsKey new_version sz page) = []"
  shows "fst (assembleFromCache S (publicFeedIDsKey new_version sz page) page sz
      (writeFragmentCaches S (publicFeedIDsKey old_version sz page) old_rows old_items old_hm
        (writeFragmentCaches S (publicFeedIDsKey new_version sz page) rows items hm s))) =
    Some \<lparr>fp_items = old_items, fp_page = page, fp_size = sz, fp_has_more = hm\<rparr>"
proof -
  have "publicFeedIDsKey new_version sz page \<noteq> publicFeedIDsKey old_version sz page"
  proof
    assume "publicFeedIDsKey new_version sz page = publicFeedIDsKey old_version sz page"
    then have "format_int new_version = format_int old_version" by (simp add: publicFeedIDsKey_def)
    then show False using assms(11) by (metis less_irrefl option.inject tonumber_format_int)
  qed
  then show ?thesis using assms(10,12) by (intro feed_world.last_writer[OF assms(1-9) _ refl refl]) auto
qed

theorem late_load_spoils_new_page_witness:
  "fst (assembleFromCache mem_feeds (publicFeedIDsKey 3 10 1) 1 10
     (writeFragmentCaches mem_feeds (publicFeedIDsKey 2 10 1) [row_of 5] [old_item] False
       (writeFragmentCaches mem_feeds (publicFeedIDsKey 3 10 1) [row_of 5] [shown_item 5] False feed_start))) =
   Some \<lparr>fp_items = [old_item], fp_page = 1, fp_size = 10, fp_has_more = False\<rparr>"
  by (rule late_load_spoils_new_page[OF mem_feed.feed_world_axioms]) simp_all

text \<open>
  A change of a post drops its fragment and moves the versions on, so that this
  instance at once reads under new keys, with one exception: the first change under a
  version that is not stored keeps version 1, which was the default before, and the pages
  cached under it stay.
\<close>

theorem change_moves_pages_on:
  assumes "feed_world S view held time_left C D" "s' = InvalidateAfterPostMutation S i creator s"
    and "k \<in> {publicFeedVersionKey, mineFeedVersionKey creator}" "ks_str (view s) k = map_option format_int v"
    and "case v of None \<Rightarrow> True | Some n \<Rightarrow> 0 < n \<and> in_int64 (n + 1)"
  shows "fst (get_version (feedVersions S) k s') = (case v of None \<Rightarrow> 1 | Some n \<Rightarrow> n + 1) \<and>
    fst (get_version (feedVersions S) k s') = (case stored_version (ks_str (view s) k) of None \<Rightarrow> 1 | Some n \<Rightarrow> n) + (if v = None then 0 else 1) \<and>
    ks_str (view s') (feedItemKeyU i) = None \<and> ks_list (view s') (publicFeedIDsKey a b c) = ks_list (view s) (publicFeedIDsKey a b c)"
proof -
  have "feedItemKeyU i \<noteq> publicFeedIDsKey a b c" by (simp add: feedItemKeyU_def publicFeedIDsKey_def)
  moreover have "stored_version (map_option format_int v) = v"
    using assms(5) by (cases v) (auto simp: stored_version_def in_int64_def int64_min_def int64_max_def)
  ultimately show ?thesis using feed_world.moved_on[OF assms] unfolding assms(4) by (cases v) auto
qed

theorem change_moves_pages_on_witness:
  "fst (get_version (feedVersions mem_feeds) (mineFeedVersionKey 7) (InvalidateAfterPostMutation mem_feeds 5 7 feed_start)) = 1"
  using change_moves_pages_on[OF mem_feed.feed_world_axioms refl, of "mineFeedVersionKey 7" 7 feed_start None 5] by simp

text \<open>
  C39: the home list shows the posts of the timeline in its order, each with the content of
  its row and its author, leaving out those that are not published or neither public nor for
  followers; the cursor and whether there is more are the timeline's. MySQL and Redis answer,
  every post has its author and ids are unique.
\<close>

theorem home_follows_timeline:
  assumes "feed_world S view held time_left C D" "fs_counter S = Some c" "fs_home S = Some reader"
    and "reader u cursor (clamp size0 1 (fc_safe_size (feed_config S))) s = (Inr (ids, next_cursor, hm), s1)" "authors_known (db_tables D s1)"
    and "distinct (map kp_id (pt_posts (db_tables D s1)))"
  shows "\<exists>h s'. GetHomeFeed S u cursor size0 s = (Inr h, s') \<and>
    map bare (hf_items h) = map (post_item S (db_tables D s1)) (List.map_filter (follower_post (db_tables D s1)) ids) \<and>
    hf_next_cursor h = (if ids = [] then [] else next_cursor) \<and> hf_has_more h = (ids \<noteq> [] \<and> hm)"
  by (rule feed_world.home_page[OF assms])

theorem home_follows_timeline_witness:
  "\<exists>h s'. GetHomeFeed mem_feeds 9 [] 20 feed_start = (Inr h, s') \<and> map fi_id (hf_items h) = [format_uint 6, format_uint 5] \<and>
    hf_next_cursor h = ''next'' \<and> hf_has_more h"
proof -
  have r: "fs_home mem_feeds = Some (\<lambda>u cursor n s. (Inr ([6, 8, 5], ''next'', True), s))" by (simp add: mem_feeds_def)
  have d: "distinct (map kp_id (pt_posts feed_tables))" by (simp add: feed_tables_def feed_post_def blank_post_def)
  have f: "map (post_item mem_feeds feed_tables) (List.map_filter (follower_post feed_tables) [6, 8, 5]) =
      map (post_item mem_feeds feed_tables) [feed_post 6 KnowPostStatusPublished 20, feed_post 5 KnowPostStatusPublished 10]"
    by (simp add: feed_tables_def follower_post_def feed_post_def blank_post_def for_followers_def post_status_defs List.map_filter_simps)
  have i: "map fi_id (hf_items h) = map fi_id (map bare (hf_items h))" for h by (simp add: comp_def)
  obtain h s' where h: "GetHomeFeed mem_feeds 9 [] 20 feed_start = (Inr h, s')" "hf_next_cursor h = ''next''" "hf_has_more h"
      "map bare (hf_items h) = map (post_item mem_feeds feed_tables) [feed_post 6 KnowPostStatusPublished 20, feed_post 5 KnowPostStatusPublished 10]"
    using home_follows_timeline[OF mem_feed.feed_world_axioms mem_feeds_sel(2) r refl, of feed_start 9 "[]" 20] feed_authors d
    unfolding feed_start_parts(4) f by auto
  have "map fi_id (hf_items h) = [format_uint 6, format_uint 5]"
    unfolding i h(4) by (simp add: post_item_def feed_post_def blank_post_def)
  with h(1-3) show ?thesis by simp
qed

text \<open>
  What a read leaves in the shared caches does not depend on who reads: if the
  questions about a user's marks leave the caches alone, two users leave the same behind,
  whether the page comes from the table, from fragments or from memory.
\<close>

theorem shared_caches_user_blind:
  assumes "\<And>c u et ids s. fs_counter S = Some c \<Longrightarrow> caches (snd (fe_liked c u et ids s)) = caches s \<and> caches (snd (fe_faved c u et ids s)) = caches s"
  shows "caches (snd (load_public_feed S k pk page sz u s)) = caches (snd (load_public_feed S k pk page sz u' s)) \<and>
    caches (snd (check_public_feed S k pk page sz u s)) = caches (snd (check_public_feed S k pk page sz u' s)) \<and>
    caches (snd (getPublicFeedL2 S k page sz u pk s)) = caches (snd (getPublicFeedL2 S k page sz u' pk s)) \<and>
    caches (snd (getPublicFeedL1 S pk u s)) = caches (snd (getPublicFeedL1 S pk u' s))"
proof -
  have w: "caches (snd (withUserState S p u s)) = caches s" for p u s
    using assms by (auto simp: withUserState_def enrichItems_def Let_def case_prod_beta split: option.split)
  show ?thesis
    by (auto simp: load_public_feed_def check_public_feed_def getPublicFeedL2_def getPublicFeedL1_def Let_def case_prod_beta w
      split: sum.split option.split prod.split)
qed

theorem shared_caches_user_blind_witness:
  "detail_view (snd (load_public_feed mem_feeds (publicFeedIDsKey 1 10 1) ''page'' 1 10 (Some 7) feed_start)) =
   detail_view (snd (load_public_feed mem_feeds (publicFeedIDsKey 1 10 1) ''page'' 1 10 None feed_start))"
proof -
  have h: "fs_counter mem_feeds = Some c \<Longrightarrow> detail_view (snd (fe_liked c u et ids s)) = detail_view s \<and> detail_view (snd (fe_faved c u et ids s)) = detail_view s"
    for c u et ids and s :: detail_mem by (auto simp: nothing_liked_def)
  show ?thesis
    using shared_caches_user_blind[where caches = detail_view and S = mem_feeds, OF h, of "publicFeedIDsKey 1 10 1" "''page''" 1 10 "Some 7" feed_start None]
    by simp
qed

end
