(* ===== verification/Spec2Isabelle.thy ===== *)
theory Spec2Isabelle
  imports Counter_Liker_Index Outbox_Poll Relation_Bucket Fanout_Props Cache_Coherence Auth_Props Cache_Bloom Cache_Hot_Props Knowpost_Props Knowpost_Feed_Props
begin

text \<open>
  A model of the backend of zhiguang, a platform for knowledge posts written in Go,
  and the properties that make it correct. The theories follow the packages of the
  source: data are records and datatypes with the fields of the code, every operation
  is a function on explicit state, errors are values, loops are recursive functions.

  \<^bold>\<open>The program.\<close> Users write posts, like and collect them, follow each other and
  read feeds. MySQL holds the truth. Redis holds counters, bitmaps of likes, cached
  lists, timelines, locks and rate limits. Changes of the tables write a row of the
  outbox in the same transaction; Canal reads the binlog, a bridge writes the rows to
  Kafka, and consumers drive the caches, the counters and the timelines from there.

  \<^bold>\<open>Services and their contracts.\<close> Redis, MySQL, Kafka, Canal and the in-process cache
  are not part of the repository. \<open>Redis_Contract\<close> and \<open>Redis_Server\<close> give the
  keyspace and the laws of the commands as locales (\<open>redis_core\<close>, \<open>redis_hashes\<close>,
  \<open>redis_zsets\<close>, \<open>redis_sets\<close>, \<open>redis_scan\<close>, \<open>redis_up\<close>); every call may be lost on
  its way out or its reply on the way back. \<open>Outbox_Tx\<close> gives MySQL (\<open>sql_database\<close>): a
  call may fail at any time, a failed commit may have happened. Both have in-memory
  instances with scripted faults (\<open>Redis_Server\<close>, \<open>Redis_Product\<close>), on which all
  locales are interpreted and all witnesses run. A Lua script is a function on the
  server state; scripts and pipelines are one round trip.

  \<^bold>\<open>Theories and sources\<close> (paths under \<open>src/\<close>).
  \<^item> \<open>ZG_Prelude\<close>, \<open>Go_Strings\<close>: machine types, lemmas shared by all parts, and what the
    code uses of \<open>strconv\<close> and \<open>strings\<close>.
  \<^item> \<open>Redis_Lock\<close>: \<open>pkg/redislock/lock.go\<close>. The lock excludes other clients until its
    release or the end of its lease.
  \<^item> \<open>Counter_Model\<close>, \<open>Counter_Service\<close>, \<open>Counter_Toggle\<close>: \<open>internal/counter\<close> model,
    keys, JSON encoder, toggles, bit reads, failure records. Toggles refine insertion
    into and removal from a set of users.
  \<^item> \<open>Counter_Batch\<close>, \<open>Counter_Apply\<close>, \<open>Counter_Watermark\<close>, \<open>Counter_Consumer\<close>,
    \<open>Counter_Flow\<close>: \<open>consumer.go\<close>, \<open>consumer_watermark.go\<close>. Batches by partition, the
    script with the watermark, the loop with retries: every event is counted exactly
    once, and the two orders in which a batch is lost.
  \<^item> \<open>Counter_Snapshot\<close>, \<open>Counter_Rebuild\<close>, \<open>Counter_Repair\<close>: \<open>sds_read.go\<close>,
    \<open>sds_rebuild.go\<close>, \<open>repair_backoff.go\<close>, \<open>rebuild_ratelimit.go\<close>, the repair loop and
    the replay of failures. A rebuild writes the exact number of users.
  \<^item> \<open>Counter_Likers\<close>, \<open>Counter_Liker_Pages\<close>, \<open>Counter_Liker_Index\<close>: \<open>likers.go\<close>,
    \<open>bitmap_scan.go\<close>, \<open>rebuild_likers.go\<close>. Pages of likers by index and by bitmap scan.
  \<^item> \<open>Follow_Events\<close>: \<open>user_counter.go\<close>, \<open>internal/relation/event_processor.go\<close>.
  \<^item> \<open>Relation_Model\<close>, \<open>Relation_Follow\<close>, \<open>Relation_Bucket\<close>, \<open>Relation_Drive\<close>,
    \<open>Relation_Lists\<close>, \<open>Relation_Pages\<close>: \<open>internal/relation\<close>. The tables are the replay of
    a log whose events are the rows of the outbox; consuming them brings the lists and
    the counters to the tables; pages by cursor have no gap.
  \<^item> \<open>Outbox_Tx\<close>, \<open>Outbox_Transport\<close>, \<open>Outbox_Poll\<close>: \<open>internal/outbox\<close>, \<open>internal/canal\<close>,
    \<open>internal/messaging\<close>. From the row to the handler, polling consumers, cleaner.
  \<^item> \<open>Fanout_Model\<close>, \<open>Fanout_Push\<close>, \<open>Fanout_Lists\<close>, \<open>Fanout_Timeline\<close>, \<open>Fanout_Props\<close>:
    \<open>internal/fanout\<close>. Push to followers, boxes of celebrities, the merged pages, on the
    interface \<open>user_pages\<close> that the lists of the relation service keep.
  \<^item> \<open>Cache_Tiered\<close>, \<open>Cache_Coherence\<close>: \<open>internal/cache\<close> (prefix, versions, tiered),
    \<open>pkg/cacheutil\<close>. A read shows what its loader would.

  \<^bold>\<open>Bounds and fuel.\<close> Loops over a context are bounded by an argument: the retries of a
  lock (\<open>rs_retries\<close>), the time a waiting read has left (\<open>time_left\<close>). The push to
  followers ends because every page moves the cursor, a cleaning round because every
  batch removes rows; both, and the read-through loop, are \<open>partial_function\<close>s whose
  result is proved to exist. Machine integers are words or \<open>int\<close> with the wrap-around
  written out (\<open>parseInt32\<close>, the backoff); fields of hashes are \<open>int\<close>, far from the
  64-bit range Redis keeps them in, and the numbers of Lua are exact below \<open>2 ^ 53\<close>.

  \<^bold>\<open>Left out of the models.\<close> That a key expires is a step of the environment. Transactions
  of MySQL run one after the other; rows with equal sort keys come in the order of the
  table. Decoders of JSON and protobuf and random tokens are arguments with stated laws.
  Unique ids are assumed unique. Logs and metrics are dropped.
\<close>

end
